(* ===== verification/Prelude.thy ===== *)
theory Prelude
  imports Main "HOL-Library.Char_ord" "HOL-Library.List_Lexorder" "HOL-Library.Product_Lexorder"
begin

text \<open>
  The part every component shares.

  Go's \<open>(value, error)\<close> results are sums \<open>'e + 'a\<close>: \<open>Inl\<close> carries the error, \<open>Inr\<close> the value;
  \<open>bnd\<close> is the \<open>if err != nil { return err }\<close> sequencing and \<open>ensure\<close> a guard.  A SQL table is the
  list of its rows in insertion order; \<open>find\<close> reads the first row that matches, \<open>update_where\<close> is
  \<open>UPDATE .. WHERE\<close> and \<open>count_where\<close> its \<open>RowsAffected\<close> (or \<open>SELECT count(*)\<close>).  Text is the list of its
  bytes and is ordered as SQLite's BINARY collation orders it (the lexicographic order of
  \<open>List_Lexorder\<close> over \<open>Char_ord\<close>).
\<close>

section \<open>Lemma collections\<close>

named_theorems frame_simps \<open>what an operation leaves untouched\<close>
named_theorems table_simps \<open>reading a table after it was written\<close>

section \<open>Results\<close>

definition bnd :: "'e + 'a \<Rightarrow> ('a \<Rightarrow> 'e + 'b) \<Rightarrow> 'e + 'b" where
  "bnd r k = (case r of Inl e \<Rightarrow> Inl e | Inr a \<Rightarrow> k a)"

definition ensure :: "bool \<Rightarrow> 'e \<Rightarrow> 'e + unit" where
  "ensure b e = (if b then Inr () else Inl e)"

lemma bnd_simps [simp]: "bnd (Inl e) k = Inl e" "bnd (Inr a) k = k a"
  by (simp_all add: bnd_def)

lemma bnd_Inr: "bnd r k = Inr b \<longleftrightarrow> (\<exists>a. r = Inr a \<and> k a = Inr b)"
  by (cases r) auto

lemma bnd_Inl: "bnd r k = Inl e \<longleftrightarrow> r = Inl e \<or> (\<exists>a. r = Inr a \<and> k a = Inl e)"
  by (cases r) auto

lemma bnd_cong [fundef_cong]:
  "r = r' \<Longrightarrow> (\<And>a. r' = Inr a \<Longrightarrow> k a = k' a) \<Longrightarrow> bnd r k = bnd r' k'"
  by (cases r') auto

lemma ensure_simps [simp]: "ensure True e = Inr ()" "ensure False e = Inl e"
  by (simp_all add: ensure_def)

lemma ensure_Inr [simp]: "ensure b e = Inr u \<longleftrightarrow> b"
  by (simp add: ensure_def)

lemma ensure_Inl [simp]: "ensure b e = Inl f \<longleftrightarrow> \<not> b \<and> f = e"
  by (auto simp: ensure_def)

text \<open>
  A Go function that works on a transaction returns an error (and the transaction is rolled back)
  or a value and the new state; \<open>run_tx\<close> is \<open>Store.withTx\<close> (storage/storage.go): commit on success,
  roll back on error.
\<close>

definition run_tx :: "('s \<Rightarrow> 'e + ('a \<times> 's)) \<Rightarrow> 's \<Rightarrow> ('e + 'a) \<times> 's" where
  "run_tx f s = (case f s of Inl e \<Rightarrow> (Inl e, s) | Inr (a, s') \<Rightarrow> (Inr a, s'))"

lemma run_tx_Inl: "run_tx f s = (Inl e, s') \<longleftrightarrow> f s = Inl e \<and> s' = s"
  by (auto simp: run_tx_def split: sum.splits)

lemma run_tx_Inr: "run_tx f s = (Inr a, s') \<longleftrightarrow> f s = Inr (a, s')"
  by (auto simp: run_tx_def split: sum.splits)

lemma snd_run_tx: "snd (run_tx f s) = (case f s of Inl e \<Rightarrow> s | Inr r \<Rightarrow> snd r)"
  by (auto simp: run_tx_def split: sum.splits prod.splits)

lemma run_tx_rollback: "fst (run_tx f s) = Inl e \<Longrightarrow> snd (run_tx f s) = s"
  by (auto simp: run_tx_def split: sum.splits)

section \<open>Tables\<close>

definition update_where :: "('r \<Rightarrow> bool) \<Rightarrow> ('r \<Rightarrow> 'r) \<Rightarrow> 'r list \<Rightarrow> 'r list" where
  "update_where p f rs = map (\<lambda>r. if p r then f r else r) rs"

definition count_where :: "('r \<Rightarrow> bool) \<Rightarrow> 'r list \<Rightarrow> nat" where
  "count_where p rs = length (filter p rs)"

lemma update_where_simps [simp]:
  "update_where p f [] = []"
  "update_where p f (r # rs) = (if p r then f r else r) # update_where p f rs"
  by (simp_all add: update_where_def)

lemma count_where_simps [simp]:
  "count_where p [] = 0"
  "count_where p (r # rs) = (if p r then Suc (count_where p rs) else count_where p rs)"
  by (simp_all add: count_where_def)

lemma length_update_where [simp]: "length (update_where p f rs) = length rs"
  by (simp add: update_where_def)

lemma map_update_where:
  "(\<And>r. p r \<Longrightarrow> g (f r) = g r) \<Longrightarrow> map g (update_where p f rs) = map g rs"
  by (induction rs) auto

lemma in_update_whereE:
  assumes "r \<in> set (update_where p f rs)"
  obtains (same) "r \<in> set rs" "\<not> p r" | (new) r0 where "r0 \<in> set rs" "p r0" "r = f r0"
  using assms by (auto simp: update_where_def split: if_splits)

lemma set_update_where:
  "set (update_where p f rs) = {r \<in> set rs. \<not> p r} \<union> f ` {r \<in> set rs. p r}"
  by (auto simp: update_where_def)

lemma update_where_none [table_simps]: "(\<And>r. r \<in> set rs \<Longrightarrow> \<not> p r) \<Longrightarrow> update_where p f rs = rs"
  by (induction rs) auto

lemma count_where_0: "count_where p rs = 0 \<longleftrightarrow> (\<forall>r\<in>set rs. \<not> p r)"
  by (induction rs) auto

lemma find_Some_iff2: "find p rs = Some r \<Longrightarrow> r \<in> set rs \<and> p r"
  by (auto simp: find_Some_iff)

lemma find_update_where_same:
  "(\<And>r. q (f r) = q r) \<Longrightarrow> (\<And>r. q r \<Longrightarrow> p r) \<Longrightarrow>
    find q (update_where p f rs) = map_option f (find q rs)"
  by (induction rs) auto

lemma find_update_where_other:
  "(\<And>r. p r \<Longrightarrow> q (f r) = q r) \<Longrightarrow> (\<And>r. q r \<Longrightarrow> \<not> p r) \<Longrightarrow>
    find q (update_where p f rs) = find q rs"
  by (induction rs) auto

lemma find_append: "find p (xs @ ys) = (case find p xs of None \<Rightarrow> find p ys | Some x \<Rightarrow> Some x)"
  by (induction xs) auto

text \<open>A primary or unique key: at most one row per key, so \<open>find\<close> finds that row.\<close>

lemma find_key_unique:
  "distinct (map k rs) \<Longrightarrow> r \<in> set rs \<Longrightarrow> find (\<lambda>x. k x = k r) rs = Some r"
  by (induction rs) auto

lemma distinct_key_eq:
  "distinct (map k rs) \<Longrightarrow> r \<in> set rs \<Longrightarrow> r' \<in> set rs \<Longrightarrow> k r = k r' \<Longrightarrow> r = r'"
  by (auto simp: distinct_map dest: inj_onD)

lemma count_key_le_1: "distinct (map k rs) \<Longrightarrow> count_where (\<lambda>r. k r = x) rs \<le> 1"
proof (induction rs)
  case (Cons r rs)
  then show ?case
    by (cases "k r = x") (auto simp: count_where_0 image_iff)
qed simp

lemma find_map_pred:
  "find p (map f xs) = map_option f (find (\<lambda>x. p (f x)) xs)"
  by (induction xs) auto

section \<open>Runs of a machine\<close>

text \<open>
  A component whose calls change a state: \<open>exec\<close> performs one call and \<open>ok\<close> is what a call must satisfy
  (a clock that the text of a timestamp can show).  A predicate that every such call preserves holds
  after every history of calls.
\<close>

locale call_machine =
  fixes exec :: "'call \<Rightarrow> 's \<Rightarrow> 's"
    and ok :: "'call \<Rightarrow> bool"
    and inv :: "'s \<Rightarrow> bool"
  assumes exec_inv: "ok c \<Longrightarrow> inv s \<Longrightarrow> inv (exec c s)"
begin

fun history :: "'call list \<Rightarrow> 's \<Rightarrow> 's" where
  "history [] s = s"
| "history (c # cs) s = history cs (exec c s)"

lemma history_append: "history (cs @ ds) s = history ds (history cs s)"
  by (induction cs arbitrary: s) auto

lemma history_inv: "list_all ok cs \<Longrightarrow> inv s \<Longrightarrow> inv (history cs s)"
  by (induction cs arbitrary: s) (auto intro: exec_inv)

text \<open>A fact that a call keeps once the invariant holds is kept by a whole history.\<close>

lemma history_stable:
  assumes "\<And>c s. ok c \<Longrightarrow> inv s \<Longrightarrow> q s \<Longrightarrow> q (exec c s)" and "list_all ok cs" and "inv s" and "q s"
  shows "q (history cs s)"
  using assms(2-) by (induction cs arbitrary: s) (auto intro: assms(1) exec_inv)

text \<open>A preorder that every call respects relates the two ends of a history.\<close>

lemma history_rel:
  assumes "\<And>s. r s s" and "\<And>a b c. r a b \<Longrightarrow> r b c \<Longrightarrow> r a c"
    and "\<And>c s. ok c \<Longrightarrow> inv s \<Longrightarrow> r s (exec c s)" and "list_all ok cs" and "inv s"
  shows "r s (history cs s)"
  using assms(4,5) by (induction cs arbitrary: s) (auto intro: assms(1,2,3) exec_inv)

end

end
