(* ===== verification/GoTime.thy ===== *)
theory GoTime
  imports Prelude
begin

text \<open>
  What the program uses of Go's \<open>time\<close> package.  An instant is the number of nanoseconds since
  1970-01-01T00:00:00Z (\<open>time.Time\<close> without its location), \<open>zero_time\<close> is \<open>time.Time{}\<close>, a location is a
  fixed offset in seconds east of UTC.  \<open>fmt_nano\<close> is \<open>t.UTC().Format(time.RFC3339Nano)\<close>, the text of
  every timestamp column; \<open>parse_layout\<close> is \<open>time.ParseInLocation\<close> over a layout split into its elements.
  The lemmas give the round trip of stored timestamps and relate the byte order of the text, which
  the SQL conditions compare, to the order of the instants.
\<close>

section \<open>Decimal digits\<close>

definition digit_char :: "nat \<Rightarrow> char" where
  "digit_char n = char_of (48 + n)"

definition is_digit :: "char \<Rightarrow> bool" where
  "is_digit c \<longleftrightarrow> 48 \<le> (of_char c :: nat) \<and> (of_char c :: nat) \<le> 57"

definition digit_val :: "char \<Rightarrow> nat" where
  "digit_val c = of_char c - 48"

fun pad :: "nat \<Rightarrow> nat \<Rightarrow> string" where
  "pad 0 n = []"
| "pad (Suc w) n = pad w (n div 10) @ [digit_char (n mod 10)]"

fun dec :: "nat \<Rightarrow> string" where
  "dec n = (if n < 10 then [digit_char n] else dec (n div 10) @ [digit_char (n mod 10)])"

declare dec.simps [simp del]

definition num_of :: "string \<Rightarrow> nat" where
  "num_of ds = foldl (\<lambda>a c. 10 * a + digit_val c) 0 ds"

lemma digit_char_digit [simp]: "n < 10 \<Longrightarrow> is_digit (digit_char n)"
  by (simp add: is_digit_def digit_char_def)

lemma digit_val_char [simp]: "n < 10 \<Longrightarrow> digit_val (digit_char n) = n"
  by (simp add: digit_val_def digit_char_def)

lemma digit_char_inj: "m < 10 \<Longrightarrow> n < 10 \<Longrightarrow> digit_char m = digit_char n \<longleftrightarrow> m = n"
  by (metis digit_val_char)

lemma digit_char_less: "m < 10 \<Longrightarrow> n < 10 \<Longrightarrow> digit_char m < digit_char n \<longleftrightarrow> m < n"
  by (simp add: digit_char_def less_char_def)

lemma length_pad [simp]: "length (pad w n) = w"
  by (induction w arbitrary: n) auto

lemma pad_digits: "\<forall>c\<in>set (pad w n). is_digit c"
  by (induction w arbitrary: n) auto

lemma num_of_snoc: "num_of (ds @ [c]) = 10 * num_of ds + digit_val c"
  by (simp add: num_of_def)

lemma num_of_pad: "num_of (pad w n) = n mod 10 ^ w"
proof (induction w arbitrary: n)
  case 0
  then show ?case by (simp add: num_of_def)
next
  case (Suc w)
  have "n mod 10 ^ Suc w = 10 * (n div 10 mod 10 ^ w) + n mod 10"
    by (simp add: mod_mult2_eq)
  then show ?case by (simp add: num_of_snoc Suc)
qed

lemma num_of_pad_small [simp]: "n < 10 ^ w \<Longrightarrow> num_of (pad w n) = n"
  by (simp add: num_of_pad)

lemma dec_nonempty [simp]: "dec n \<noteq> []"
  by (subst dec.simps) simp

lemma dec_digits: "\<forall>c\<in>set (dec n). is_digit c"
proof (induction n rule: dec.induct)
  case (1 n)
  then show ?case by (subst dec.simps) (auto split: if_splits)
qed

lemma num_of_dec [simp]: "num_of (dec n) = n"
proof (induction n rule: dec.induct)
  case (1 n)
  then show ?case
    by (subst dec.simps) (auto simp: num_of_snoc, simp add: num_of_def)
qed

lemma dec_inject [simp]: "dec m = dec n \<longleftrightarrow> m = n"
  by (metis num_of_dec)

lemma pad_zero: "pad w 0 = replicate w (CHR ''0'')"
proof -
  have "digit_char 0 = CHR ''0''" by (simp add: digit_char_def char_of_def bit_Suc_0_iff)
  then show ?thesis by (induction w) (simp_all add: replicate_append_same)
qed

lemma dec_pad: "w > 0 \<Longrightarrow> n < 10 ^ w \<Longrightarrow> replicate (w - length (dec n)) (CHR ''0'') @ dec n = pad w n"
proof (induction w arbitrary: n)
  case 0
  then show ?case by simp
next
  case (Suc w)
  show ?case
  proof (cases "n < 10")
    case True
    then have "dec n = [digit_char n]" by (subst dec.simps) simp
    with True show ?thesis by (simp add: pad_zero)
  next
    case False
    then have d: "dec n = dec (n div 10) @ [digit_char (n mod 10)]" by (subst dec.simps) simp
    from False Suc.prems have "w > 0" by (cases w) auto
    moreover have "n div 10 < 10 ^ w" using Suc.prems by (simp add: less_mult_imp_div_less)
    ultimately have "replicate (w - length (dec (n div 10))) (CHR ''0'') @ dec (n div 10) = pad w (n div 10)"
      by (rule Suc.IH)
    then show ?thesis by (simp add: d)
  qed
qed

subsection \<open>Byte order of fixed-width text\<close>

lemma less_append_same_length:
  fixes a b :: string
  shows "length a = length b \<Longrightarrow> a @ x < b @ y \<longleftrightarrow> a < b \<or> a = b \<and> x < y"
proof (induction a arbitrary: b)
  case (Cons c a)
  then show ?case by (cases b) auto
qed simp

lemma pad_less:
  "m < 10 ^ w \<Longrightarrow> n < 10 ^ w \<Longrightarrow> pad w m < pad w n \<longleftrightarrow> m < n"
proof (induction w arbitrary: m n)
  case (Suc w)
  have m: "m div 10 < 10 ^ w" and n: "n div 10 < 10 ^ w"
    using Suc.prems by (simp_all add: less_mult_imp_div_less)
  have eq: "pad w (m div 10) = pad w (n div 10) \<longleftrightarrow> m div 10 = n div 10"
    using m n by (metis num_of_pad_small)
  have "10 * a + b < 10 * c + d \<longleftrightarrow> a < c \<or> a = c \<and> b < d" if "b < 10" "d < 10" for a b c d :: nat
    using that by arith
  from this[of "m mod 10" "n mod 10" "m div 10" "n div 10"]
  have "m < n \<longleftrightarrow> m div 10 < n div 10 \<or> m div 10 = n div 10 \<and> m mod 10 < n mod 10"
    by simp
  then show ?case
    using Suc.IH[OF m n] by (simp add: less_append_same_length eq digit_char_less)
qed simp

lemma pad_eq: "m < 10 ^ w \<Longrightarrow> n < 10 ^ w \<Longrightarrow> pad w m = pad w n \<longleftrightarrow> m = n"
  by (metis num_of_pad_small)

section \<open>The proleptic Gregorian calendar\<close>

definition leap :: "int \<Rightarrow> bool" where
  "leap y \<longleftrightarrow> y mod 4 = 0 \<and> (y mod 100 \<noteq> 0 \<or> y mod 400 = 0)"

definition month_lengths :: "int \<Rightarrow> int list" where
  "month_lengths y = [31, if leap y then 29 else 28, 31, 30, 31, 30, 31, 31, 30, 31, 30, 31]"

definition year_length :: "int \<Rightarrow> int" where
  "year_length y = (if leap y then 366 else 365)"

definition days_before_year :: "int \<Rightarrow> int" where
  "days_before_year y = (let p = y - 1 in 365 * p + p div 4 - p div 100 + p div 400 - 719162)"

fun split_month :: "int list \<Rightarrow> int \<Rightarrow> int \<Rightarrow> int \<times> int" where
  "split_month [] m d = (m, d + 1)"
| "split_month (l # ls) m d = (if d < l then (m, d + 1) else split_month ls (m + 1) (d - l))"

definition days_in :: "int \<Rightarrow> int \<Rightarrow> int" where
  "days_in m y = month_lengths y ! nat (m - 1)"

text \<open>Days since 1970-01-01 of a date, and the date of a day.\<close>

definition days_of_civil :: "int \<Rightarrow> int \<Rightarrow> int \<Rightarrow> int" where
  "days_of_civil y m d =
     days_before_year y + sum_list (take (nat (m - 1)) (month_lengths y)) + d - 1"

definition civil_of_days :: "int \<Rightarrow> int \<times> int \<times> int" where
  "civil_of_days n =
     (let z = n + 719162;
          r = z mod 146097; c = min 3 (r div 36524);
          s = r - 36524 * c; t = s mod 1461; e = min 3 (t div 365);
          y = 400 * (z div 146097) + 100 * c + 4 * (s div 1461) + e + 1
      in (y, split_month (month_lengths y) 1 (t - 365 * e)))"

text \<open>The day of the year that the decomposition leaves lies in its year.\<close>

lemma civil_year:
  assumes "civil_of_days n = (y, md)"
  shows "days_before_year y \<le> n \<and> n < days_before_year y + year_length y \<and>
    md = split_month (month_lengths y) 1 (n - days_before_year y)"
proof -
  define z where "z = n + 719162"
  define r where "r = z mod 146097"
  define c where "c = min 3 (r div 36524)"
  define s where "s = r - 36524 * c"
  define t where "t = s mod 1461"
  define e where "e = min 3 (t div 365)"
  define q where "q = s div 1461"
  define Q where "Q = z div 146097"
  have "civil_of_days n = (400 * Q + 100 * c + 4 * q + e + 1,
      split_month (month_lengths (400 * Q + 100 * c + 4 * q + e + 1)) 1 (t - 365 * e))"
    unfolding civil_of_days_def Let_def z_def r_def c_def s_def t_def e_def q_def Q_def ..
  then have y: "y = 400 * Q + 100 * c + 4 * q + e + 1" and
    md: "md = split_month (month_lengths y) 1 (t - 365 * e)"
    using assms by auto
  have z: "z = 146097 * Q + r" by (simp add: Q_def r_def)
  have r: "0 \<le> r" "r < 146097" by (simp_all add: r_def)
  have c: "0 \<le> c" "c \<le> 3" "36524 * c \<le> r" "c < 3 \<Longrightarrow> r < 36524 * c + 36524"
    using r by (auto simp: c_def min_def)
  have s: "0 \<le> s" "s \<le> 36524" "c < 3 \<Longrightarrow> s < 36524"
    using c r by (cases "c = 3"; auto simp: s_def)+
  have sq: "s = 1461 * q + t" "0 \<le> t" "t < 1461" by (simp_all add: q_def t_def)
  have q: "0 \<le> q" "q \<le> 24" using s sq by linarith+
  have e: "0 \<le> e" "e \<le> 3" "365 * e \<le> t" "e < 3 \<Longrightarrow> t < 365 * e + 365"
    using sq by (auto simp: e_def min_def)
  have p4: "(y - 1) div 4 = 100 * Q + 25 * c + q"
    using y e by (intro int_div_pos_eq [of _ _ _ e]) auto
  have p100: "(y - 1) div 100 = 4 * Q + c"
    using y e q by (intro int_div_pos_eq [of _ _ _ "4 * q + e"]) auto
  have p400: "(y - 1) div 400 = Q"
    using y e q c by (intro int_div_pos_eq [of _ _ _ "100 * c + 4 * q + e"]) auto
  have before: "days_before_year y = 146097 * Q + 36524 * c + 1461 * q + 365 * e - 719162"
    unfolding days_before_year_def Let_def p4 p100 p400 using y by simp
  then have doy: "n - days_before_year y = t - 365 * e"
    using z sq by (simp add: z_def s_def)
  have "y = (e + 1) + 4 * (100 * Q + 25 * c + q)" using y by simp
  then have m4: "y mod 4 = (e + 1) mod 4" by (simp only: mod_mult_self2)
  have "y = (4 * q + e + 1) + 100 * (4 * Q + c)" using y by simp
  then have m100: "y mod 100 = (4 * q + e + 1) mod 100" by (simp only: mod_mult_self2)
  have "y = (100 * c + 4 * q + e + 1) + 400 * Q" using y by simp
  then have m400: "y mod 400 = (100 * c + 4 * q + e + 1) mod 400" by (simp only: mod_mult_self2)
  have lp: "t - 365 * e < year_length y"
  proof (cases "e < 3")
    case True
    then have "t - 365 * e < 365" using e(4) by linarith
    then show ?thesis by (simp add: year_length_def)
  next
    case False
    then have e3: "e = 3" using e by linarith
    have t: "t - 365 * e \<le> 365" using sq e3 by linarith
    show ?thesis
    proof (cases "q = 24 \<and> c < 3")
      case True
      then have "s < 36524" using s by blast
      then show ?thesis using True sq e3 by (simp add: year_length_def)
    next
      case False
      then have "c = 3 \<and> q = 24 \<or> 0 < 4 * q + e + 1 \<and> 4 * q + e + 1 < 100"
        using e3 q c(1,2) by auto
      then have "leap y"
        using e3 unfolding leap_def m4 m100 m400 by auto
      then show ?thesis using t by (simp add: year_length_def)
    qed
  qed
  from doy lp e md show ?thesis by simp
qed

lemma split_month:
  assumes "0 \<le> d" "d < sum_list ls" and "split_month ls m d = (m', d')"
  shows "m \<le> m' \<and> m' < m + int (length ls) \<and> 1 \<le> d' \<and> d' \<le> ls ! nat (m' - m) \<and>
    d = sum_list (take (nat (m' - m)) ls) + d' - 1"
  using assms
proof (induction ls m d rule: split_month.induct)
  case (2 l ls m d)
  show ?case
  proof (cases "d < l")
    case True
    with 2 show ?thesis by auto
  next
    case False
    then have "m + 1 \<le> m' \<and> m' < (m + 1) + int (length ls) \<and> 1 \<le> d' \<and> d' \<le> ls ! nat (m' - (m + 1)) \<and>
        d - l = sum_list (take (nat (m' - (m + 1))) ls) + d' - 1"
      using 2 by (intro "2.IH") auto
    moreover from this have "nat (m' - m) = Suc (nat (m' - (m + 1)))" by auto
    ultimately show ?thesis by simp
  qed
qed simp

lemma sum_month_lengths: "sum_list (month_lengths y) = year_length y"
  by (simp add: month_lengths_def year_length_def)

definition valid_date :: "int \<Rightarrow> int \<Rightarrow> int \<Rightarrow> bool" where
  "valid_date y m d \<longleftrightarrow> 1 \<le> m \<and> m \<le> 12 \<and> 1 \<le> d \<and> d \<le> days_in m y"

lemma civil_of_days_valid:
  assumes "civil_of_days n = (y, m, d)"
  shows "valid_date y m d" and "days_of_civil y m d = n"
proof -
  have y: "days_before_year y \<le> n" "n < days_before_year y + year_length y"
    "(m, d) = split_month (month_lengths y) 1 (n - days_before_year y)"
    using civil_year[OF assms] by auto
  have "1 \<le> m \<and> m < 1 + int (length (month_lengths y)) \<and> 1 \<le> d \<and> d \<le> month_lengths y ! nat (m - 1) \<and>
      n - days_before_year y = sum_list (take (nat (m - 1)) (month_lengths y)) + d - 1"
    using y by (intro split_month) (simp_all add: sum_month_lengths)
  moreover have "length (month_lengths y) = 12" by (simp add: month_lengths_def)
  ultimately show "valid_date y m d" and "days_of_civil y m d = n"
    by (simp_all add: valid_date_def days_in_def days_of_civil_def)
qed

subsection \<open>Later days have later dates\<close>

lemma div_pred:
  assumes "0 < (k :: int)"
  shows "y div k = (y - 1) div k + (if y mod k = 0 then 1 else 0)"
proof -
  have y: "y = k * (y div k) + y mod k" and r: "0 \<le> y mod k" "y mod k < k"
    using assms by simp_all
  show ?thesis
  proof (cases "y mod k = 0")
    case True
    then have "(y - 1) div k = y div k - 1"
      using assms y by (intro int_div_pos_eq [of _ _ _ "k - 1"]) (auto simp: algebra_simps)
    with True show ?thesis by simp
  next
    case False
    then have "(y - 1) div k = y div k"
      using r y by (intro int_div_pos_eq [of _ _ _ "y mod k - 1"]) auto
    with False show ?thesis by simp
  qed
qed

text \<open>
  The arithmetic of one year, with the quotients and the divisibility tests as variables.
\<close>

lemma year_step_arith:
  fixes a4 a100 a400 b4 b100 b400 y :: int
  assumes "b4 = a4 + (if f4 then 1 else 0)" "b100 = a100 + (if f100 then 1 else 0)"
    "b400 = a400 + (if f400 then 1 else 0)" "f100 \<Longrightarrow> f4" "f400 \<Longrightarrow> f100"
  shows "365 * y + b4 - b100 + b400 - 719162 = (365 * (y - 1) + a4 - a100 + a400 - 719162) +
    (if f4 \<and> (\<not> f100 \<or> f400) then 366 else 365)"
  using assms by (cases f4; cases f100; cases f400) auto

lemma days_before_year_step: "days_before_year (y + 1) = days_before_year y + year_length y"
proof -
  have "4 dvd y" if "100 dvd y" using that by (rule dvd_trans [rotated]) simp
  then have m100: "y mod 100 = 0 \<Longrightarrow> y mod 4 = 0" by (simp only: dvd_eq_mod_eq_0)
  have "100 dvd y" if "400 dvd y" using that by (rule dvd_trans [rotated]) simp
  then have m400: "y mod 400 = 0 \<Longrightarrow> y mod 100 = 0" by (simp only: dvd_eq_mod_eq_0)
  have "365 * y + y div 4 - y div 100 + y div 400 - 719162 =
      (365 * (y - 1) + (y - 1) div 4 - (y - 1) div 100 + (y - 1) div 400 - 719162) +
      (if y mod 4 = 0 \<and> (\<not> y mod 100 = 0 \<or> y mod 400 = 0) then 366 else 365)"
    by (rule year_step_arith; (rule div_pred, simp | rule m100, assumption | rule m400, assumption))
  then show ?thesis
    unfolding days_before_year_def Let_def year_length_def leap_def add_diff_cancel_right' .
qed

lemma days_before_year_mono: "y \<le> y' \<Longrightarrow> days_before_year y \<le> days_before_year y'"
proof (induction y' rule: int_ge_induct)
  case (step i)
  then show ?case using days_before_year_step[of i] by (simp add: year_length_def split: if_splits)
qed simp

lemma days_of_civil_bounds:
  assumes "valid_date y m d"
  shows "days_before_year y \<le> days_of_civil y m d"
    and "days_of_civil y m d < days_before_year (y + 1)"
proof -
  have len: "length (month_lengths y) = 12" by (simp add: month_lengths_def)
  have pos: "\<forall>l\<in>set (month_lengths y). 0 \<le> l" by (simp add: month_lengths_def)
  define k where "k = nat (m - 1)"
  have k: "k < 12" using assms by (auto simp: k_def valid_date_def)
  have "0 \<le> sum_list (take k (month_lengths y))"
    using pos by (intro sum_list_nonneg) (auto dest: in_set_takeD)
  then show "days_before_year y \<le> days_of_civil y m d"
    using assms by (simp add: days_of_civil_def k_def valid_date_def)
  have "year_length y = sum_list (take k (month_lengths y) @ month_lengths y ! k # drop (Suc k) (month_lengths y))"
    using k len by (simp only: id_take_nth_drop[symmetric] sum_month_lengths)
  moreover have "0 \<le> sum_list (drop (Suc k) (month_lengths y))"
    using pos by (intro sum_list_nonneg) (auto dest: in_set_dropD)
  ultimately have "sum_list (take k (month_lengths y)) + month_lengths y ! k \<le> year_length y" by simp
  moreover have "d \<le> month_lengths y ! k" using assms by (simp add: valid_date_def days_in_def k_def)
  ultimately show "days_of_civil y m d < days_before_year (y + 1)"
    by (simp add: days_before_year_step days_of_civil_def k_def)
qed

lemma month_prefix_mono:
  assumes "1 \<le> m" "m < m'" "m' \<le> 12"
  shows "sum_list (take (nat (m - 1)) (month_lengths y)) + days_in m y \<le>
    sum_list (take (nat (m' - 1)) (month_lengths y))"
proof -
  define k where "k = nat (m - 1)"
  define j where "j = nat (m' - 1) - Suc k"
  have kj: "nat (m' - 1) = Suc k + j" "Suc k \<le> 12" using assms by (auto simp: k_def j_def)
  have len: "length (month_lengths y) = 12" by (simp add: month_lengths_def)
  have pos: "\<forall>l\<in>set (month_lengths y). 0 \<le> l" by (simp add: month_lengths_def)
  have "take (Suc k + j) (month_lengths y) =
      take k (month_lengths y) @ month_lengths y ! k # take j (drop (Suc k) (month_lengths y))"
    using kj len by (simp only: take_add) (simp add: take_Suc_conv_app_nth)
  moreover have "0 \<le> sum_list (take j (drop (Suc k) (month_lengths y)))"
    using pos by (intro sum_list_nonneg) (auto dest: in_set_takeD in_set_dropD)
  ultimately show ?thesis by (simp add: kj k_def[symmetric] days_in_def)
qed

lemma civil_less:
  assumes "valid_date y m d" "valid_date y' m' d'" and "days_of_civil y m d < days_of_civil y' m' d'"
  shows "y < y' \<or> y = y' \<and> (m < m' \<or> m = m' \<and> d < d')"
proof -
  have "\<not> y' < y"
  proof
    assume "y' < y"
    then have "days_before_year (y' + 1) \<le> days_before_year y" by (intro days_before_year_mono) simp
    with days_of_civil_bounds[OF assms(1)] days_of_civil_bounds[OF assms(2)] assms(3) show False by linarith
  qed
  moreover have "\<not> m' < m" if "y = y'"
  proof
    assume "m' < m"
    then have "sum_list (take (nat (m' - 1)) (month_lengths y)) + days_in m' y \<le>
        sum_list (take (nat (m - 1)) (month_lengths y))"
      using assms(1,2) by (intro month_prefix_mono) (auto simp: valid_date_def)
    with assms that show False by (auto simp: days_of_civil_def valid_date_def)
  qed
  ultimately show ?thesis
    using assms(3) by (cases "y = y'"; cases "m = m'") (auto simp: days_of_civil_def)
qed

section \<open>Timestamp text\<close>

type_synonym instant = int

abbreviation second :: int where "second \<equiv> 1000000000"

definition zero_time :: instant where "zero_time = - 62135596800 * second"

definition int_text :: "int \<Rightarrow> string" where
  "int_text n = (if n < 0 then CHR ''-'' # dec (nat (- n)) else dec (nat n))"

text \<open>\<open>appendInt(b, year, 4)\<close>: at least four digits, a sign before them.\<close>

definition year_text :: "int \<Rightarrow> string" where
  "year_text y = (let ds = dec (nat (abs y))
     in (if y < 0 then ''-'' else []) @ replicate (4 - length ds) (CHR ''0'') @ ds)"

definition two :: "int \<Rightarrow> string" where
  "two n = pad 2 (nat n)"

definition date_text :: "int \<Rightarrow> string" where
  "date_text n = (case civil_of_days n of (y, m, d) \<Rightarrow>
     year_text y @ CHR ''-'' # two m @ CHR ''-'' # two d)"

definition clock_text :: "int \<Rightarrow> string" where
  "clock_text r = two (r div 3600) @ CHR '':'' # two (r div 60 mod 60) @ CHR '':'' # two (r mod 60)"

definition secs_text :: "int \<Rightarrow> string" where
  "secs_text s = date_text (s div 86400) @ CHR ''T'' # clock_text (s mod 86400)"

definition trim_zeros :: "string \<Rightarrow> string" where
  "trim_zeros ds = rev (dropWhile (\<lambda>c. c = CHR ''0'') (rev ds))"

definition frac_text :: "int \<Rightarrow> string" where
  "frac_text ns = (if ns = 0 then [] else CHR ''.'' # trim_zeros (pad 9 (nat ns)))"

definition zone_text :: "int \<Rightarrow> string" where
  "zone_text off = (if off = 0 then ''Z''
     else let z = abs off div 60
          in (if off < 0 then CHR ''-'' else CHR ''+'') # two (z div 60) @ CHR '':'' # two (z mod 60))"

definition fmt_nano :: "instant \<Rightarrow> string" where
  "fmt_nano t = secs_text (t div second) @ frac_text (t mod second) @ ''Z''"

definition fmt_rfc3339 :: "int \<Rightarrow> instant \<Rightarrow> string" where
  "fmt_rfc3339 off t = secs_text (t div second + off) @ zone_text off"

definition fmt_day :: "int \<Rightarrow> instant \<Rightarrow> string" where
  "fmt_day off t = date_text ((t div second + off) div 86400)"

text \<open>The days and seconds of the years 0000 to 9999, whose text has the fixed width.\<close>

definition date_range :: "int \<Rightarrow> bool" where
  "date_range n \<longleftrightarrow> - 719528 \<le> n \<and> n < 2932897"

definition secs_range :: "int \<Rightarrow> bool" where
  "secs_range s \<longleftrightarrow> - 62167219200 \<le> s \<and> s < 253402300800"

definition in_range :: "instant \<Rightarrow> bool" where
  "in_range t \<longleftrightarrow> secs_range (t div second)"

subsection \<open>Order of the text\<close>

lemma year_text_pad: "0 \<le> y \<Longrightarrow> y \<le> 9999 \<Longrightarrow> year_text y = pad 4 (nat y)"
  unfolding year_text_def Let_def using dec_pad[of 4 "nat y"] by simp

lemma days_of_civil_year:
  assumes "valid_date y m d" "days_before_year 0 \<le> days_of_civil y m d"
    "days_of_civil y m d < days_before_year 10000"
  shows "0 \<le> y" "y \<le> 9999"
proof -
  show "0 \<le> y"
  proof (rule ccontr)
    assume "\<not> 0 \<le> y"
    then have "days_before_year (y + 1) \<le> days_before_year 0" by (intro days_before_year_mono) simp
    with days_of_civil_bounds[OF assms(1)] assms(2) show False by linarith
  qed
  show "y \<le> 9999"
  proof (rule ccontr)
    assume "\<not> y \<le> 9999"
    then have "days_before_year 10000 \<le> days_before_year y" by (intro days_before_year_mono) simp
    with days_of_civil_bounds[OF assms(1)] assms(3) show False by linarith
  qed
qed

lemma date_range_year:
  assumes "date_range n" "civil_of_days n = (y, m, d)"
  shows "valid_date y m d" "days_of_civil y m d = n" "0 \<le> y" "y \<le> 9999"
proof -
  note v = civil_of_days_valid[OF assms(2)]
  have "days_before_year 0 = - 719528" "days_before_year 10000 = 2932897"
    by (simp_all add: days_before_year_def Let_def)
  with v assms(1) show "valid_date y m d" "days_of_civil y m d = n" "0 \<le> y" "y \<le> 9999"
    using days_of_civil_year[OF v(1)] by (auto simp: date_range_def)
qed

lemma length_two [simp]: "length (two n) = 2"
  by (simp add: two_def)

lemma two_less: "0 \<le> m \<Longrightarrow> m < 100 \<Longrightarrow> 0 \<le> n \<Longrightarrow> n < 100 \<Longrightarrow> two m < two n \<longleftrightarrow> m < n"
  unfolding two_def by (subst pad_less) auto

lemma two_eq: "0 \<le> m \<Longrightarrow> m < 100 \<Longrightarrow> 0 \<le> n \<Longrightarrow> n < 100 \<Longrightarrow> two m = two n \<longleftrightarrow> m = n"
  unfolding two_def by (subst pad_eq) auto

lemma days_in_le: "1 \<le> m \<Longrightarrow> m \<le> 12 \<Longrightarrow> days_in m y \<le> 31"
proof -
  assume "1 \<le> m" "m \<le> 12"
  then have "nat (m - 1) < length (month_lengths y)" by (simp add: month_lengths_def)
  then have "month_lengths y ! nat (m - 1) \<in> set (month_lengths y)" by (rule nth_mem)
  moreover have "\<forall>l\<in>set (month_lengths y). l \<le> 31" by (simp add: month_lengths_def)
  ultimately show ?thesis unfolding days_in_def by blast
qed

lemma valid_month_day:
  "valid_date y m d \<Longrightarrow> 1 \<le> m \<and> m \<le> 12 \<and> 1 \<le> d \<and> d \<le> 31"
  using days_in_le[of m y] by (auto simp: valid_date_def)

lemma length_date_text: "date_range n \<Longrightarrow> length (date_text n) = 10"
  using date_range_year[of n]
  by (auto simp: date_text_def year_text_pad split: prod.splits)

lemma date_text_less:
  assumes "date_range a" "date_range b" "a < b"
  shows "date_text a < date_text b"
proof -
  obtain y m d where a: "civil_of_days a = (y, m, d)" by (metis prod_cases3)
  obtain y' m' d' where b: "civil_of_days b = (y', m', d')" by (metis prod_cases3)
  note va = date_range_year[OF assms(1) a] and vb = date_range_year[OF assms(2) b]
  note ra = valid_month_day[OF va(1)] and rb = valid_month_day[OF vb(1)]
  have "y < y' \<or> y = y' \<and> (m < m' \<or> m = m' \<and> d < d')"
    using assms(3) va vb by (intro civil_less) auto
  moreover have "pad 4 (nat y) < pad 4 (nat y') \<longleftrightarrow> y < y'"
    using va vb by (subst pad_less) auto
  moreover have "two m < two m' \<longleftrightarrow> m < m'" "two d < two d' \<longleftrightarrow> d < d'"
    by (rule two_less; insert ra rb; linarith)+
  ultimately show ?thesis
    using va vb by (auto simp: date_text_def a b year_text_pad less_append_same_length)
qed

lemma length_clock_text [simp]: "length (clock_text r) = 8"
  by (simp add: clock_text_def)

lemma hms_less:
  fixes h m s h' m' s' :: int
  assumes "0 \<le> s'" "s < 60" "0 \<le> m'" "m < 60" "3600 * h + 60 * m + s < 3600 * h' + 60 * m' + s'"
    "0 \<le> s" "s' < 60" "0 \<le> m" "m' < 60"
  shows "h < h' \<or> h = h' \<and> (m < m' \<or> m = m' \<and> s < s')"
proof (cases h h' rule: linorder_cases)
  case equal
  with assms show ?thesis by (cases m m' rule: linorder_cases) auto
next
  case greater
  then have "h' + 1 \<le> h" by simp
  with assms show ?thesis by linarith
qed simp

lemma hms_split: "(r :: int) = 3600 * (r div 3600) + 60 * (r div 60 mod 60) + r mod 60"
proof -
  have "r = 60 * (r div 60) + r mod 60" by simp
  moreover have "r div 60 = 60 * (r div 60 div 60) + r div 60 mod 60" by simp
  moreover have "r div 60 div 60 = r div 3600" by (simp add: zdiv_zmult2_eq [symmetric])
  ultimately show ?thesis by linarith
qed

lemma clock_range:
  "0 \<le> (r :: int) \<Longrightarrow> r < 86400 \<Longrightarrow> 0 \<le> r div 3600 \<and> r div 3600 < 24"
  by auto

lemma mod_60_less: "(r :: int) mod 60 < 100"
  by (rule less_trans [OF pos_mod_bound]) simp_all

lemma clock_parts_less:
  fixes h m s h' m' s' :: int
  assumes "h < h' \<or> h = h' \<and> (m < m' \<or> m = m' \<and> s < s')"
    and "two h < two h' \<longleftrightarrow> h < h'" "two m < two m' \<longleftrightarrow> m < m'" "two s < two s' \<longleftrightarrow> s < s'"
  shows "two h @ CHR '':'' # two m @ CHR '':'' # two s < two h' @ CHR '':'' # two m' @ CHR '':'' # two s'"
  using assms by (auto simp: less_append_same_length)

lemma clock_text_less:
  assumes "0 \<le> a" "a < 86400" "0 \<le> b" "b < 86400" "a < b"
  shows "clock_text a < clock_text b"
proof -
  note ca = clock_range[OF assms(1,2)] and cb = clock_range[OF assms(3,4)]
  have "3600 * (a div 3600) + 60 * (a div 60 mod 60) + a mod 60 <
      3600 * (b div 3600) + 60 * (b div 60 mod 60) + b mod 60"
    using assms(5) by (simp only: hms_split[symmetric])
  then have "a div 3600 < b div 3600 \<or> a div 3600 = b div 3600 \<and>
      (a div 60 mod 60 < b div 60 mod 60 \<or> a div 60 mod 60 = b div 60 mod 60 \<and> a mod 60 < b mod 60)"
    by (rule hms_less [rotated 4]) simp_all
  then show ?thesis
    unfolding clock_text_def
  proof (rule clock_parts_less)
    show "two (a div 3600) < two (b div 3600) \<longleftrightarrow> a div 3600 < b div 3600"
      by (rule two_less; insert ca cb; linarith)
  qed (rule two_less; simp add: mod_60_less)+
qed

lemma secs_date_range: "secs_range s \<Longrightarrow> date_range (s div 86400)"
  unfolding secs_range_def date_range_def by auto

lemma length_secs_text: "secs_range s \<Longrightarrow> length (secs_text s) = 19"
  by (simp add: secs_text_def length_date_text secs_date_range)

lemma day_second_less: "(a :: int) < b \<Longrightarrow>
    a div 86400 < b div 86400 \<or> a div 86400 = b div 86400 \<and> a mod 86400 < b mod 86400"
proof -
  assume "a < b"
  then have "a div 86400 \<le> b div 86400" by (intro zdiv_mono1) auto
  moreover have "a = 86400 * (a div 86400) + a mod 86400" "b = 86400 * (b div 86400) + b mod 86400" by simp_all
  ultimately show ?thesis using \<open>a < b\<close> by linarith
qed

lemma secs_text_less:
  assumes "secs_range a" "secs_range b"
  shows "secs_text a < secs_text b \<longleftrightarrow> a < b"
proof -
  have mono: "secs_text a < secs_text b" if "secs_range a" "secs_range b" "a < b" for a b
  proof -
    note da = secs_date_range[OF that(1)] and db = secs_date_range[OF that(2)]
    have m: "0 \<le> a mod 86400" "a mod 86400 < 86400" "0 \<le> b mod 86400" "b mod 86400 < 86400" by simp_all
    show ?thesis
      using day_second_less[OF that(3)]
    proof
      assume "a div 86400 < b div 86400"
      then have "date_text (a div 86400) < date_text (b div 86400)" by (intro date_text_less da db)
      then show ?thesis
        unfolding secs_text_def by (simp add: less_append_same_length length_date_text da db)
    next
      assume *: "a div 86400 = b div 86400 \<and> a mod 86400 < b mod 86400"
      then have "clock_text (a mod 86400) < clock_text (b mod 86400)" by (intro clock_text_less m) auto
      with * show ?thesis
        unfolding secs_text_def by (simp add: less_append_same_length length_date_text da db)
    qed
  qed
  from mono[OF assms] mono[OF assms(2,1)] show ?thesis
    by (metis less_irrefl less_trans linorder_neqE)
qed

lemma secs_text_eq: "secs_range a \<Longrightarrow> secs_range b \<Longrightarrow> secs_text a = secs_text b \<longleftrightarrow> a = b"
  by (metis secs_text_less less_irrefl linorder_neqE)

text \<open>
  Stored timestamps in different seconds compare as text the way the instants compare; inside one
  second the text compares by the trimmed fraction.
\<close>

lemma fmt_nano_less:
  assumes "in_range t" "in_range u"
  shows "fmt_nano t < fmt_nano u \<longleftrightarrow> t div second < u div second \<or>
    t div second = u div second \<and> frac_text (t mod second) @ ''Z'' < frac_text (u mod second) @ ''Z''"
  using assms unfolding fmt_nano_def in_range_def
  by (subst less_append_same_length) (simp_all add: length_secs_text secs_text_less secs_text_eq)

lemma fmt_nano_less_seconds:
  assumes "in_range t" "in_range u" "t div second < u div second"
  shows "fmt_nano t < fmt_nano u"
  using assms by (simp add: fmt_nano_less)

section \<open>Parsing\<close>

text \<open>
  A layout is the list of its elements; \<open>LSpace\<close> is a blank of the layout, which \<open>skip\<close> matches
  against one or more blanks (and against the end of the text).  \<open>LSecond\<close> takes a fraction that the
  layout does not name, unless the next element is one.
\<close>

datatype lay = LLit char | LSpace | LYear | LMonth | LDay | LHour | LMinute | LSecond | LFrac9 | LZone

record parts =
  p_year :: int
  p_month :: int
  p_day :: int
  p_hour :: int
  p_minute :: int
  p_second :: int
  p_nanos :: int
  p_zone :: "int option"

definition no_parts :: parts where
  "no_parts = \<lparr>p_year = 0, p_month = 1, p_day = 1, p_hour = 0, p_minute = 0, p_second = 0, p_nanos = 0, p_zone = None\<rparr>"

fun getnum :: "bool \<Rightarrow> string \<Rightarrow> (int \<times> string) option" where
  "getnum fixed (a # b # r) =
     (if \<not> is_digit a then None
      else if is_digit b then Some (int (10 * digit_val a + digit_val b), r)
      else if fixed then None else Some (int (digit_val a), b # r))"
| "getnum fixed [a] = (if \<not> is_digit a \<or> fixed then None else Some (int (digit_val a), []))"
| "getnum fixed [] = None"

definition getnum_in :: "bool \<Rightarrow> int \<Rightarrow> int \<Rightarrow> string \<Rightarrow> (int \<times> string) option" where
  "getnum_in fixed lo hi s = (case getnum fixed s of None \<Rightarrow> None
     | Some (n, r) \<Rightarrow> if lo \<le> n \<and> n \<le> hi then Some (n, r) else None)"

definition is_fraction :: "string \<Rightarrow> bool" where
  "is_fraction s = (case s of c # d # _ \<Rightarrow> (c = CHR ''.'' \<or> c = CHR '','') \<and> is_digit d | _ \<Rightarrow> False)"

definition take_fraction :: "string \<Rightarrow> int \<times> string" where
  "take_fraction s = (if is_fraction s
     then let ds = take 9 (takeWhile is_digit (tl s))
          in (int (num_of (ds @ replicate (9 - length ds) (CHR ''0''))), dropWhile is_digit (tl s))
     else (0, s))"

definition get_year :: "string \<Rightarrow> (int \<times> string) option" where
  "get_year s = (if 4 \<le> length s \<and> list_all is_digit (take 4 s)
     then Some (int (num_of (take 4 s)), drop 4 s) else None)"

definition get_zone :: "string \<Rightarrow> (int \<times> string) option" where
  "get_zone s = (case s of
     [] \<Rightarrow> None
   | c # r \<Rightarrow> if c = CHR ''Z'' then Some (0, r)
       else if length s < 6 \<or> s ! 3 \<noteq> CHR '':'' then None
       else case (getnum_in True 0 24 (take 2 (drop 1 s)), getnum_in True 0 60 (take 2 (drop 4 s))) of
         (Some (h, _), Some (m, _)) \<Rightarrow>
           if c = CHR ''+'' then Some ((h * 60 + m) * 60, drop 6 s)
           else if c = CHR ''-'' then Some (- ((h * 60 + m) * 60), drop 6 s) else None
       | _ \<Rightarrow> None)"

fun parse_els :: "lay list \<Rightarrow> parts \<Rightarrow> string \<Rightarrow> (parts \<times> string) option" where
  "parse_els [] p s = Some (p, s)"
| "parse_els (LLit c # ls) p s = (case s of [] \<Rightarrow> None | d # r \<Rightarrow> if c = d then parse_els ls p r else None)"
| "parse_els (LSpace # ls) p s = (if s \<noteq> [] \<and> hd s \<noteq> CHR '' '' then None
     else parse_els ls p (dropWhile (\<lambda>c. c = CHR '' '') s))"
| "parse_els (LYear # ls) p s = (case get_year s of None \<Rightarrow> None
     | Some (n, r) \<Rightarrow> parse_els ls (p\<lparr>p_year := n\<rparr>) r)"
| "parse_els (LMonth # ls) p s = (case getnum_in True 1 12 s of None \<Rightarrow> None
     | Some (n, r) \<Rightarrow> parse_els ls (p\<lparr>p_month := n\<rparr>) r)"
| "parse_els (LDay # ls) p s = (case getnum True s of None \<Rightarrow> None
     | Some (n, r) \<Rightarrow> parse_els ls (p\<lparr>p_day := n\<rparr>) r)"
| "parse_els (LHour # ls) p s = (case getnum_in False 0 23 s of None \<Rightarrow> None
     | Some (n, r) \<Rightarrow> parse_els ls (p\<lparr>p_hour := n\<rparr>) r)"
| "parse_els (LMinute # ls) p s = (case getnum_in True 0 59 s of None \<Rightarrow> None
     | Some (n, r) \<Rightarrow> parse_els ls (p\<lparr>p_minute := n\<rparr>) r)"
| "parse_els (LSecond # ls) p s = (case getnum_in True 0 59 s of None \<Rightarrow> None
     | Some (n, r) \<Rightarrow> (if ls \<noteq> [] \<and> hd ls = LFrac9 then parse_els ls (p\<lparr>p_second := n\<rparr>) r
         else let (ns, r') = take_fraction r
              in parse_els ls (p\<lparr>p_second := n, p_nanos := (if is_fraction r then ns else p_nanos p)\<rparr>) r'))"
| "parse_els (LFrac9 # ls) p s = (let (ns, r) = take_fraction s
     in parse_els ls (p\<lparr>p_nanos := (if is_fraction s then ns else p_nanos p)\<rparr>) r)"
| "parse_els (LZone # ls) p s = (case get_zone s of None \<Rightarrow> None
     | Some (z, r) \<Rightarrow> parse_els ls (p\<lparr>p_zone := Some z\<rparr>) r)"

definition parts_instant :: "int \<Rightarrow> parts \<Rightarrow> instant" where
  "parts_instant off p =
     (86400 * days_of_civil (p_year p) (p_month p) (p_day p) + 3600 * p_hour p + 60 * p_minute p + p_second p
       - (case p_zone p of None \<Rightarrow> off | Some z \<Rightarrow> z)) * second + p_nanos p"

definition parse_layout :: "lay list \<Rightarrow> int \<Rightarrow> string \<Rightarrow> instant option" where
  "parse_layout ls off s = (case parse_els ls no_parts s of
     Some (p, []) \<Rightarrow> if valid_date (p_year p) (p_month p) (p_day p) then Some (parts_instant off p) else None
   | _ \<Rightarrow> None)"

definition ymd_layout :: "lay list" where
  "ymd_layout = [LYear, LLit CHR ''-'', LMonth, LLit CHR ''-'', LDay]"

definition hm_layout :: "lay list" where
  "hm_layout = [LHour, LLit CHR '':'', LMinute]"

definition hms_layout :: "lay list" where
  "hms_layout = hm_layout @ [LLit CHR '':'', LSecond]"

definition rfc3339_layout :: "lay list" where
  "rfc3339_layout = ymd_layout @ LLit CHR ''T'' # hms_layout @ [LZone]"

definition rfc3339_nano_layout :: "lay list" where
  "rfc3339_nano_layout = ymd_layout @ LLit CHR ''T'' # hms_layout @ [LFrac9, LZone]"

definition parse_nano :: "string \<Rightarrow> instant option" where
  "parse_nano = parse_layout rfc3339_nano_layout 0"

definition parse_rfc3339 :: "string \<Rightarrow> instant option" where
  "parse_rfc3339 = parse_layout rfc3339_layout 0"

subsection \<open>Reading back what was printed\<close>

lemma two_cases:
  assumes "0 \<le> n" "n < 100"
  obtains a b where "two n = [a, b]" "is_digit a" "is_digit b" "int (10 * digit_val a + digit_val b) = n"
proof -
  have "two n = [digit_char (nat n div 10 mod 10), digit_char (nat n mod 10)]"
    by (simp add: two_def numeral_2_eq_2)
  moreover have "10 * (nat n div 10 mod 10) + nat n mod 10 = nat n" using assms by simp
  ultimately show ?thesis
    using assms by (intro that[of "digit_char (nat n div 10 mod 10)" "digit_char (nat n mod 10)"]) auto
qed

lemma getnum_two [simp]: "0 \<le> n \<Longrightarrow> n < 100 \<Longrightarrow> getnum fixed (two n @ r) = Some (n, r)"
  by (erule two_cases, assumption) simp

lemma getnum_in_two [simp]:
  "0 \<le> n \<Longrightarrow> n < 100 \<Longrightarrow> lo \<le> n \<Longrightarrow> n \<le> hi \<Longrightarrow> getnum_in fixed lo hi (two n @ r) = Some (n, r)"
  by (simp add: getnum_in_def)

lemma get_year_pad [simp]: "n < 10000 \<Longrightarrow> get_year (pad 4 n @ r) = Some (int n, r)"
  using pad_digits[of 4 n] by (simp add: get_year_def list_all_iff)

lemma trim_zeros_append: "\<exists>k. ds = trim_zeros ds @ replicate k (CHR ''0'') \<and> k + length (trim_zeros ds) = length ds"
proof -
  let ?p = "\<lambda>c. c = CHR ''0''"
  have "rev ds = takeWhile ?p (rev ds) @ dropWhile ?p (rev ds)" by simp
  moreover have "takeWhile ?p (rev ds) = replicate (length (takeWhile ?p (rev ds))) (CHR ''0'')"
    by (rule replicate_length_same [symmetric]) (auto dest: set_takeWhileD)
  ultimately have "rev ds = replicate (length (takeWhile ?p (rev ds))) (CHR ''0'') @ rev (trim_zeros ds)"
    by (simp add: trim_zeros_def)
  then have "ds = trim_zeros ds @ replicate (length (takeWhile ?p (rev ds))) (CHR ''0'')"
    by (metis rev_append rev_replicate rev_rev_ident)
  then show ?thesis by (metis add.commute length_append length_replicate)
qed

lemma take_fraction_trim:
  assumes "0 < ns" "ns < second" "r = [] \<or> \<not> is_digit (hd r)"
  shows "take_fraction (CHR ''.'' # trim_zeros (pad 9 (nat ns)) @ r) = (ns, r)"
    and "is_fraction (CHR ''.'' # trim_zeros (pad 9 (nat ns)) @ r)"
proof -
  let ?ds = "trim_zeros (pad 9 (nat ns))"
  obtain k where k: "pad 9 (nat ns) = ?ds @ replicate k (CHR ''0'')" "k + length ?ds = 9"
    using trim_zeros_append[of "pad 9 (nat ns)"] by auto
  have "set ?ds \<subseteq> set (pad 9 (nat ns))"
    by (subst (2) k(1)) auto
  then have d: "\<forall>c\<in>set ?ds. is_digit c" using pad_digits by blast
  have "?ds \<noteq> []"
  proof
    assume "?ds = []"
    then have "pad 9 (nat ns) = pad 9 0" using k by (simp add: pad_zero)
    then show False using assms pad_eq[of "nat ns" 9 0] by simp
  qed
  then obtain c cs where c: "?ds = c # cs" by (cases ?ds) auto
  show f: "is_fraction (CHR ''.'' # ?ds @ r)" using d c by (simp add: is_fraction_def)
  have tw: "takeWhile is_digit (?ds @ r) = ?ds" "dropWhile is_digit (?ds @ r) = r"
    using d assms(3) by (cases r; auto simp: takeWhile_append dropWhile_append)+
  have t: "take 9 ?ds = ?ds" "9 - length ?ds = k" using k(2) by simp_all
  have "nat ns < 10 ^ 9" using assms by simp
  then have "num_of (?ds @ replicate k (CHR ''0'')) = nat ns"
    unfolding k(1) [symmetric] by (rule num_of_pad_small)
  then show "take_fraction (CHR ''.'' # ?ds @ r) = (ns, r)"
    using f assms(1) by (simp add: take_fraction_def tw Let_def t)
qed

definition at_second :: "parts \<Rightarrow> int \<Rightarrow> parts" where
  "at_second p s = (case civil_of_days (s div 86400) of (y, m, d) \<Rightarrow>
     p\<lparr>p_year := y, p_month := m, p_day := d, p_hour := s mod 86400 div 3600,
       p_minute := s mod 86400 div 60 mod 60, p_second := s mod 86400 mod 60\<rparr>)"

lemma parse_clock_parts:
  assumes "0 \<le> h" "h < 24" "0 \<le> m" "m < 60" "0 \<le> s" "s < 60"
  shows "parse_els (hms_layout @ ls) p ((two h @ CHR '':'' # two m @ CHR '':'' # two s) @ r) =
    (if ls \<noteq> [] \<and> hd ls = LFrac9 then parse_els ls (p\<lparr>p_hour := h, p_minute := m, p_second := s\<rparr>) r
     else let (ns, r') = take_fraction r
          in parse_els ls (p\<lparr>p_hour := h, p_minute := m, p_second := s,
               p_nanos := (if is_fraction r then ns else p_nanos p)\<rparr>) r')"
  using assms by (cases "take_fraction r") (simp add: hms_layout_def hm_layout_def)

lemma parse_date_parts:
  assumes "valid_date y m d" "0 \<le> y" "y \<le> 9999"
  shows "parse_els (ymd_layout @ ls) p ((pad 4 (nat y) @ CHR ''-'' # two m @ CHR ''-'' # two d) @ r) =
    parse_els ls (p\<lparr>p_year := y, p_month := m, p_day := d\<rparr>) r"
  using assms valid_month_day[OF assms(1)] by (simp add: ymd_layout_def)

lemma parse_secs:
  assumes "secs_range s"
  shows "parse_els (ymd_layout @ LLit CHR ''T'' # hms_layout @ ls) p (secs_text s @ r) =
    (if ls \<noteq> [] \<and> hd ls = LFrac9 then parse_els ls (at_second p s) r
     else let (ns, r') = take_fraction r
          in parse_els ls ((at_second p s)\<lparr>p_nanos := (if is_fraction r then ns else p_nanos p)\<rparr>) r')"
proof -
  obtain y m d where c: "civil_of_days (s div 86400) = (y, m, d)" by (metis prod_cases3)
  note v = date_range_year[OF secs_date_range[OF assms] c]
  define q where "q = s mod 86400"
  have q: "0 \<le> q" "q < 86400" by (simp_all add: q_def)
  have "secs_text s @ r = (pad 4 (nat y) @ CHR ''-'' # two m @ CHR ''-'' # two d) @ CHR ''T'' # (clock_text q @ r)"
    using v by (simp add: secs_text_def date_text_def c year_text_pad q_def)
  then have "parse_els (ymd_layout @ LLit CHR ''T'' # hms_layout @ ls) p (secs_text s @ r) =
      parse_els (hms_layout @ ls) (p\<lparr>p_year := y, p_month := m, p_day := d\<rparr>) (clock_text q @ r)"
    using parse_date_parts[OF v(1,3,4)] by simp
  also have "\<dots> = (if ls \<noteq> [] \<and> hd ls = LFrac9 then parse_els ls (at_second p s) r
     else let (ns, r') = take_fraction r
          in parse_els ls ((at_second p s)\<lparr>p_nanos := (if is_fraction r then ns else p_nanos p)\<rparr>) r')"
    unfolding clock_text_def
    by (subst parse_clock_parts)
      (use clock_range[OF q] in \<open>simp_all add: at_second_def c q_def[symmetric] split: prod.split\<close>)
  finally show ?thesis .
qed

lemma parts_instant_update:
  "parts_instant off (p\<lparr>p_year := y, p_month := m, p_day := d, p_hour := h, p_minute := i, p_second := e\<rparr>) =
    (86400 * days_of_civil y m d + 3600 * h + 60 * i + e -
      (case p_zone p of None \<Rightarrow> off | Some z \<Rightarrow> z)) * second + p_nanos p"
  by (simp add: parts_instant_def)

lemma parts_instant_at_second:
  assumes "civil_of_days (s div 86400) = (y, m, d)"
  shows "parts_instant off (at_second p s) = (s - (case p_zone p of None \<Rightarrow> off | Some z \<Rightarrow> z)) * second + p_nanos p"
    and "valid_date (p_year (at_second p s)) (p_month (at_second p s)) (p_day (at_second p s))"
proof -
  note v = civil_of_days_valid[OF assms]
  have at: "86400 * D + 3600 * h + 60 * m + e = s" if "s = 86400 * D + q" "q = 3600 * h + 60 * m + e" for D q h m e
    using that by simp
  have "86400 * (s div 86400) + 3600 * (s mod 86400 div 3600) + 60 * (s mod 86400 div 60 mod 60) + s mod 86400 mod 60 = s"
    by (rule at [of _ "s mod 86400"]) (simp, rule hms_split)
  then show "parts_instant off (at_second p s) =
      (s - (case p_zone p of None \<Rightarrow> off | Some z \<Rightarrow> z)) * second + p_nanos p"
    unfolding at_second_def assms prod.case parts_instant_update v(2) by (simp only:)
  show "valid_date (p_year (at_second p s)) (p_month (at_second p s)) (p_day (at_second p s))"
    using v by (simp add: at_second_def assms)
qed

lemma at_second_fields [simp]:
  "p_nanos (at_second p s) = p_nanos p" "p_zone (at_second p s) = p_zone p"
  by (simp_all add: at_second_def split: prod.split)

lemma parse_layout_at_second:
  assumes "parse_els ls no_parts txt = Some ((at_second no_parts s)\<lparr>p_nanos := ns, p_zone := Some z\<rparr>, [])"
  shows "parse_layout ls off txt = Some ((s - z) * second + ns)"
proof -
  obtain y m d where c: "civil_of_days (s div 86400) = (y, m, d)" by (metis prod_cases3)
  let ?p = "(at_second no_parts s)\<lparr>p_nanos := ns, p_zone := Some z\<rparr>"
  have "?p = at_second (no_parts\<lparr>p_nanos := ns, p_zone := Some z\<rparr>) s"
    by (simp add: at_second_def c)
  with parts_instant_at_second(1)[OF c, of off "no_parts\<lparr>p_nanos := ns, p_zone := Some z\<rparr>"]
    parts_instant_at_second(2)[OF c, of "no_parts\<lparr>p_nanos := ns, p_zone := Some z\<rparr>"]
  show ?thesis by (simp add: parse_layout_def assms)
qed

lemma parse_fmt_nano:
  assumes "in_range t"
  shows "parse_nano (fmt_nano t) = Some t"
proof -
  define s where "s = t div second"
  define ns where "ns = t mod second"
  have ns: "0 \<le> ns" "ns < second" by (simp_all add: ns_def)
  have "parse_els [LFrac9, LZone] (at_second no_parts s) (frac_text ns @ ''Z'') =
      Some ((at_second no_parts s)\<lparr>p_nanos := ns, p_zone := Some 0\<rparr>, [])"
  proof (cases "ns = 0")
    case True
    have "p_nanos no_parts = 0" by (simp add: no_parts_def)
    moreover have "at_second no_parts s\<lparr>p_nanos := 0\<rparr> = at_second no_parts s" 
      by (simp add: at_second_def no_parts_def split: prod.split)
    ultimately show ?thesis
      using True by (simp add: frac_text_def take_fraction_def is_fraction_def get_zone_def)
  next
    case False
    have "\<not> is_digit (CHR ''Z'')" by (simp add: is_digit_def)
    with take_fraction_trim[of ns "''Z''"] ns False show ?thesis
      by (simp add: frac_text_def get_zone_def)
  qed
  moreover have "secs_range s" using assms by (simp add: in_range_def s_def)
  ultimately have "parse_els rfc3339_nano_layout no_parts (fmt_nano t) =
      Some ((at_second no_parts s)\<lparr>p_nanos := ns, p_zone := Some 0\<rparr>, [])"
    unfolding rfc3339_nano_layout_def fmt_nano_def s_def[symmetric] ns_def[symmetric]
    by (subst parse_secs) simp_all
  then have "parse_nano (fmt_nano t) = Some ((s - 0) * second + ns)"
    unfolding parse_nano_def by (rule parse_layout_at_second)
  moreover have "(s - 0) * second + ns = t" by (simp add: s_def ns_def)
  ultimately show ?thesis by simp
qed

corollary fmt_nano_inject: "in_range t \<Longrightarrow> in_range u \<Longrightarrow> fmt_nano t = fmt_nano u \<longleftrightarrow> t = u"
  by (metis parse_fmt_nano option.inject)

lemma fmt_nano_nonempty [simp]: "fmt_nano t \<noteq> []"
  by (simp add: fmt_nano_def)

lemma get_zone_parts:
  assumes "0 \<le> h" "h \<le> 24" "0 \<le> m" "m < 60" "c = CHR ''+'' \<or> c = CHR ''-''"
  shows "get_zone (c # two h @ CHR '':'' # two m) =
    Some (if c = CHR ''+'' then (h * 60 + m) * 60 else - ((h * 60 + m) * 60), [])"
proof -
  have "h < 100" "m < 100" using assms by simp_all
  obtain a b where h: "two h = [a, b]" by (rule two_cases[OF \<open>0 \<le> h\<close> \<open>h < 100\<close>])
  obtain a' b' where m: "two m = [a', b']" by (rule two_cases[OF \<open>0 \<le> m\<close> \<open>m < 100\<close>])
  have "getnum_in True 0 24 (two h @ []) = Some (h, [])" "getnum_in True 0 60 (two m @ []) = Some (m, [])"
    using assms by (intro getnum_in_two; simp)+
  then show ?thesis using assms(5) by (auto simp: get_zone_def h m)
qed

lemma get_zone_text:
  assumes "off mod 60 = 0" "abs off < 86400"
  shows "get_zone (zone_text off) = Some (off, [])"
proof (cases "off = 0")
  case False
  define z where "z = abs off div 60"
  have "abs off mod 60 = 0" using assms(1) by (simp add: abs_if zmod_zminus1_eq_if)
  then have z: "abs off = 60 * z" using mult_div_mod_eq[of 60 "abs off"] by (simp only: z_def add_0_right)
  then have r: "0 \<le> z div 60" "z div 60 \<le> 24" "z div 60 * 60 + z mod 60 = z" using assms(2) by auto
  define c where "c = (if off < 0 then CHR ''-'' else CHR ''+'')"
  have "get_zone (c # two (z div 60) @ CHR '':'' # two (z mod 60)) =
      Some (if c = CHR ''+'' then (z div 60 * 60 + z mod 60) * 60 else - ((z div 60 * 60 + z mod 60) * 60), [])"
    by (rule get_zone_parts[OF r(1,2)]) (simp_all add: c_def)
  moreover have "zone_text off = c # two (z div 60) @ CHR '':'' # two (z mod 60)"
    using False by (simp add: zone_text_def c_def z_def Let_def)
  ultimately have "get_zone (zone_text off) = Some (if c = CHR ''+'' then z * 60 else - (z * 60), [])"
    unfolding r(3) by (simp only:)
  moreover have "(if c = CHR ''+'' then z * 60 else - (z * 60)) = off"
    using z by (simp add: c_def abs_if split: if_splits)
  ultimately show ?thesis by (simp only:)
qed (simp add: zone_text_def get_zone_def)

text \<open>The deployment gate stores whole seconds with the offset of the local zone.\<close>

lemma parse_fmt_rfc3339_any:
  assumes "secs_range (t div second + off)" "off mod 60 = 0" "abs off < 86400"
  shows "parse_layout rfc3339_layout loc (fmt_rfc3339 off t) = Some (t div second * second)"
proof -
  define s where "s = t div second + off"
  have f: "\<not> is_fraction (zone_text off)"
    by (simp add: is_fraction_def zone_text_def Let_def split: list.split)
  have "at_second no_parts s\<lparr>p_nanos := 0\<rparr> = at_second no_parts s"
    by (simp add: at_second_def no_parts_def split: prod.split)
  moreover have "p_nanos no_parts = 0" by (simp add: no_parts_def)
  moreover have "secs_range s" using assms by (simp add: s_def)
  ultimately have "parse_els rfc3339_layout no_parts (fmt_rfc3339 off t) =
      Some ((at_second no_parts s)\<lparr>p_nanos := 0, p_zone := Some off\<rparr>, [])"
    unfolding rfc3339_layout_def fmt_rfc3339_def s_def[symmetric]
    by (subst parse_secs) (simp_all add: f take_fraction_def get_zone_text assms)
  then have "parse_layout rfc3339_layout loc (fmt_rfc3339 off t) = Some ((s - off) * second + 0)"
    by (rule parse_layout_at_second)
  then show ?thesis by (simp add: s_def)
qed

lemma parse_fmt_rfc3339:
  "secs_range (t div second + off) \<Longrightarrow> off mod 60 = 0 \<Longrightarrow> abs off < 86400 \<Longrightarrow>
    parse_rfc3339 (fmt_rfc3339 off t) = Some (t div second * second)"
  unfolding parse_rfc3339_def by (rule parse_fmt_rfc3339_any)

subsection \<open>No NUL byte\<close>

lemma digit_not_nul: "is_digit c \<Longrightarrow> c \<noteq> CHR 0x00"
  by (auto simp: is_digit_def)

lemma pad_no_nul [simp]: "CHR 0x00 \<notin> set (pad w n)"
  using pad_digits[of w n] digit_not_nul by blast

lemma dec_no_nul [simp]: "CHR 0x00 \<notin> set (dec n)"
  using dec_digits[of n] digit_not_nul by blast

lemma trim_zeros_subset: "set (trim_zeros ds) \<subseteq> set ds"
  using set_dropWhileD[of _ _ "rev ds"] by (auto simp: trim_zeros_def)

lemma trim_zeros_no_nul: "CHR 0x00 \<notin> set (trim_zeros (pad 9 n))"
  using trim_zeros_subset[of "pad 9 n"] pad_no_nul[of 9 n] by blast

lemma fmt_nano_no_nul [simp]: "CHR 0x00 \<notin> set (fmt_nano t)"
proof -
  have "CHR 0x00 \<notin> set (date_text n)" for n
    by (simp add: date_text_def two_def year_text_def Let_def split: prod.split)
  then show ?thesis
    by (simp add: fmt_nano_def secs_text_def clock_text_def two_def frac_text_def trim_zeros_no_nul)
qed

end
