(* ===== verification/GoText.thy ===== *)
theory GoText
  imports Prelude
begin

text \<open>
  What the program uses of Go's \<open>strings\<close> package, on the bytes of a string: \<open>trim_space\<close> is
  \<open>strings.TrimSpace\<close> (the white space of Unicode, in its UTF-8 encoding), \<open>to_upper\<close> and \<open>to_lower\<close> are
  \<open>strings.ToUpper\<close> and \<open>strings.ToLower\<close> on ASCII text, \<open>has_prefix\<close> and \<open>contains\<close> the searches.
\<close>

definition space_encodings :: "string list" where
  "space_encodings =
    [[CHR 0x09], [CHR 0x0A], [CHR 0x0B], [CHR 0x0C], [CHR 0x0D], [CHR 0x20], [CHR 0xC2, CHR 0x85],
     [CHR 0xC2, CHR 0xA0], [CHR 0xE1, CHR 0x9A, CHR 0x80], [CHR 0xE2, CHR 0x80, CHR 0x80],
     [CHR 0xE2, CHR 0x80, CHR 0x81], [CHR 0xE2, CHR 0x80, CHR 0x82], [CHR 0xE2, CHR 0x80, CHR 0x83],
     [CHR 0xE2, CHR 0x80, CHR 0x84], [CHR 0xE2, CHR 0x80, CHR 0x85], [CHR 0xE2, CHR 0x80, CHR 0x86],
     [CHR 0xE2, CHR 0x80, CHR 0x87], [CHR 0xE2, CHR 0x80, CHR 0x88], [CHR 0xE2, CHR 0x80, CHR 0x89],
     [CHR 0xE2, CHR 0x80, CHR 0x8A], [CHR 0xE2, CHR 0x80, CHR 0xA8], [CHR 0xE2, CHR 0x80, CHR 0xA9],
     [CHR 0xE2, CHR 0x80, CHR 0xAF], [CHR 0xE2, CHR 0x81, CHR 0x9F], [CHR 0xE3, CHR 0x80, CHR 0x80]]"

definition has_prefix :: "string \<Rightarrow> string \<Rightarrow> bool" where
  "has_prefix s p \<longleftrightarrow> take (length p) s = p"

function strip_front :: "string list \<Rightarrow> string \<Rightarrow> string" where
  "strip_front es s = (case find (\<lambda>e. e \<noteq> [] \<and> has_prefix s e) es of
     None \<Rightarrow> s
   | Some e \<Rightarrow> (if s = [] then s else strip_front es (drop (length e) s)))"

  by pat_completeness auto
termination
  by (relation "measure (\<lambda>(es, s). length s)") (auto simp: find_Some_iff)

declare strip_front.simps [simp del]

definition trim_left :: "string \<Rightarrow> string" where
  "trim_left = strip_front space_encodings"

definition trim_right :: "string \<Rightarrow> string" where
  "trim_right s = rev (strip_front (map rev space_encodings) (rev s))"

definition trim_space :: "string \<Rightarrow> string" where
  "trim_space s = trim_right (trim_left s)"

lemma strip_front_none:
  "find (\<lambda>e. e \<noteq> [] \<and> has_prefix s e) es = None \<Longrightarrow> strip_front es s = s"
  by (subst strip_front.simps) simp

lemma strip_front_done: "find (\<lambda>e. e \<noteq> [] \<and> has_prefix (strip_front es s) e) es = None"
proof (induction es s rule: strip_front.induct)
  case (1 es s)
  show ?case
  proof (cases "find (\<lambda>e. e \<noteq> [] \<and> has_prefix s e) es")
    case None
    then show ?thesis by (simp add: strip_front_none)
  next
    case (Some e)
    then have "e \<noteq> []" "has_prefix s e" by (auto simp: find_Some_iff)
    then have "s \<noteq> []" by (auto simp: has_prefix_def)
    with 1[OF Some this] Some show ?thesis by (subst (1) strip_front.simps) simp
  qed
qed

text \<open>Trimming leaves alone what neither begins nor ends with white space.\<close>

definition trimmed :: "string \<Rightarrow> bool" where
  "trimmed s \<longleftrightarrow> (\<forall>e\<in>set space_encodings. \<not> has_prefix s e \<and> \<not> has_prefix (rev s) (rev e))"

lemma trim_space_trimmed: "trimmed s \<Longrightarrow> trim_space s = s"
proof -
  assume "trimmed s"
  then have "find (\<lambda>e. e \<noteq> [] \<and> has_prefix s e) space_encodings = None"
    "find (\<lambda>e. e \<noteq> [] \<and> has_prefix (rev s) e) (map rev space_encodings) = None"
    by (auto simp: trimmed_def find_None_iff)
  then show ?thesis by (simp add: trim_space_def trim_left_def trim_right_def strip_front_none)
qed

definition ascii :: "char \<Rightarrow> bool" where
  "ascii c \<longleftrightarrow> (of_char c :: nat) < 128"

definition printable :: "char \<Rightarrow> bool" where
  "printable c \<longleftrightarrow> 32 < (of_char c :: nat) \<and> (of_char c :: nat) < 128"

lemma no_space_ends: "\<forall>e\<in>set space_encodings. e \<noteq> [] \<and> \<not> printable (hd e) \<and> \<not> printable (last e)"
  unfolding space_encodings_def printable_def by simp

lemma has_prefix_hd: "has_prefix s e \<Longrightarrow> e \<noteq> [] \<Longrightarrow> s \<noteq> [] \<and> hd s = hd e"
  by (cases e; cases s) (auto simp: has_prefix_def)

lemma trimmed_printable:
  assumes "s \<noteq> []" "printable (hd s)" "printable (last s)"
  shows "trimmed s"
  unfolding trimmed_def
proof
  fix e assume e: "e \<in> set space_encodings"
  with no_space_ends have "e \<noteq> []" "\<not> printable (hd e)" "\<not> printable (last e)" by blast+
  then show "\<not> has_prefix s e \<and> \<not> has_prefix (rev s) (rev e)"
    using assms has_prefix_hd[of s e] has_prefix_hd[of "rev s" "rev e"] by (auto simp: hd_rev)
qed

lemma trim_space_printable [simp]:
  "s \<noteq> [] \<Longrightarrow> printable (hd s) \<Longrightarrow> printable (last s) \<Longrightarrow> trim_space s = s"
  by (rule trim_space_trimmed) (rule trimmed_printable)

lemma strip_front_Nil [simp]: "strip_front es [] = []"
  by (subst strip_front.simps) (simp split: option.split)

lemma trim_space_Nil [simp]: "trim_space [] = []"
  by (simp add: trim_space_def trim_left_def trim_right_def)

definition upper_char :: "char \<Rightarrow> char" where
  "upper_char c = (let n = of_char c :: nat in if 97 \<le> n \<and> n \<le> 122 then char_of (n - 32) else c)"

definition lower_char :: "char \<Rightarrow> char" where
  "lower_char c = (let n = of_char c :: nat in if 65 \<le> n \<and> n \<le> 90 then char_of (n + 32) else c)"

definition to_upper :: "string \<Rightarrow> string" where
  "to_upper = map upper_char"

definition to_lower :: "string \<Rightarrow> string" where
  "to_lower = map lower_char"

definition contains :: "string \<Rightarrow> string \<Rightarrow> bool" where
  "contains s p \<longleftrightarrow> (\<exists>i\<in>set [0..<Suc (length s)]. has_prefix (drop i s) p)"

end
