(* ===== verification/Schema.thy ===== *)
theory Schema
  imports GoTime GoText
begin

text \<open>
  The rows of the database tables and the database itself (internal/storage; the tables are created
  by the migrations of storage.go and migrations/).  A table is the list of its rows in insertion
  order.  A nullable text column that the code reads through \<open>COALESCE(.., '')\<close> is the text with NULL
  as the empty text; a nullable column that SQL conditions compare directly is an option, since a
  comparison with NULL is never true.  \<open>env\<close> is what an operation takes from outside the database:
  the clock, the zone of the process, the provider-operation token that its context carries, the
  random identifiers it draws and the SHA-256 function.
\<close>

section \<open>Errors\<close>

datatype err =
    ErrNoRows
  | ErrConstraint
  | ErrCancelled
  | ErrParse
  | ErrText string
  | ErrMutationGateLocked
  | ErrInvalidLeaseToken
  | ErrMutationGateHeld
  | ErrProviderConfigInvalid
  | ErrProviderChannelLocked
  | ErrProviderConfigBusy
  | ErrProviderRevisionConflict
  | ErrProviderConfigUnavailable
  | ErrPaymentIdempotencyConflict
  | ErrPaymentOperationLost
  | ErrInvalidPaymentOrder
  | SettlementReview string
  | ErrDeliveryNotDeadLetter
  | ErrEndpointNotActive
  | ErrRevisionConflict
  | ErrBarkDecryptionFailed
  | ErrSePayReceiverMismatch
  | ErrSePayConfigUnavailable
  | ErrSePayRevisionConflict
  | ErrSePayStoreKeyImmutable
  | ErrSePayReferenceUnverified
  | ErrInvalidSePayReviewCursor

section \<open>What an operation takes from its surroundings\<close>

record env =
  e_now :: instant
  e_local :: int
  e_op :: string
  e_id :: "nat \<Rightarrow> string"
  e_sha256 :: "string \<Rightarrow> string"

text \<open>\<open>now()\<close> of repository.go.\<close>

definition now_text :: "env \<Rightarrow> string" where
  "now_text e = fmt_nano (e_now e)"

definition hex_digit :: "nat \<Rightarrow> char" where
  "hex_digit n = (if n < 10 then char_of (48 + n) else char_of (87 + n))"

definition hex_of :: "string \<Rightarrow> string" where
  "hex_of s = concat (map (\<lambda>c. [hex_digit (of_char c div 16), hex_digit (of_char c mod 16)]) s)"

text \<open>\<open>id(prefix)\<close> of repository.go: the \<open>k\<close>-th random identifier the operation draws.\<close>

definition fresh_id :: "env \<Rightarrow> string \<Rightarrow> nat \<Rightarrow> string" where
  "fresh_id e prefix k = prefix @ CHR ''_'' # hex_of (e_id e k)"

lemma fresh_id_nonempty [simp]: "fresh_id e p k \<noteq> []"
  by (simp add: fresh_id_def)

definition sha_hex :: "env \<Rightarrow> string \<Rightarrow> string" where
  "sha_hex e s = hex_of (e_sha256 e s)"

definition sha_hex16 :: "env \<Rightarrow> string \<Rightarrow> string" where
  "sha_hex16 e s = hex_of (take 16 (e_sha256 e s))"

section \<open>Rows\<close>

record control_row =
  c_state :: string
  c_owner :: string
  c_token :: string
  c_expires :: string
  c_reason :: string
  c_fence :: int
  c_metadata :: string
  c_created :: string
  c_updated :: string

record provider_op =
  po_token :: string
  po_revision :: int
  po_lease :: string

record provider_row =
  pc_revision :: int
  pc_envelope :: string
  pc_enabled :: bool
  pc_confirmed :: bool
  pc_updated :: string

record runtime_row =
  rt_quiesced :: bool
  rt_next_request :: string

record order =
  o_id :: string
  o_code :: int
  o_channel :: string
  o_key :: string
  o_hash :: string
  o_amount :: int
  o_description :: string
  o_origin :: string
  o_status :: string
  o_link :: string
  o_qr :: string
  o_checkout :: string
  o_bin :: string
  o_account :: string
  o_account_name :: string
  o_transaction :: string
  o_error :: string
  o_next :: string
  o_attempts :: int
  o_token :: string
  o_lease :: string
  o_qr_recovery :: bool
  o_created :: string
  o_updated :: string
  o_expires :: string
  o_paid_at :: string

record receipt =
  rc_channel :: string
  rc_reference :: string
  rc_order :: string
  rc_link :: string
  rc_amount :: int
  rc_at :: string
  rc_hash :: string
  rc_transaction :: string
  rc_received :: string

record inbox_row =
  ib_hash :: string
  ib_code :: int
  ib_link :: string
  ib_reference :: string
  ib_payload :: string
  ib_reason :: string
  ib_received :: string
  ib_processed :: string

record transaction =
  t_id :: string
  t_connection :: string
  t_key :: string
  t_hash :: string
  t_date :: string
  t_effective :: string
  t_debit :: int
  t_credit :: int
  t_balance :: "int option"
  t_description :: string
  t_parser :: string
  t_baseline :: string
  t_first_seen :: string
  t_iso :: string
  t_day :: string
  t_precision :: string
  t_source :: string

record quarantine_row =
  q_id :: string
  q_connection :: string
  q_key :: string
  q_existing :: string
  q_candidate :: string
  q_reason :: string
  q_created :: string

record event =
  ev_id :: string
  ev_transaction :: string
  ev_type :: string
  ev_payload :: string
  ev_hash :: string
  ev_created :: string

record endpoint =
  ep_id :: string
  ep_name :: string
  ep_status :: string
  ep_revision :: int
  ep_provider :: string
  ep_created :: string
  ep_updated :: string

text \<open>
  The settings of a Bark channel (\<open>BarkConfig\<close>).  The column \<open>provider_config_json\<close> is the value its JSON
  text encodes, \<open>None\<close> for the text \<open>{}\<close> and for NULL.
\<close>

record bark_config =
  bk_group :: string
  bk_level :: string
  bk_sound :: string
  bk_icon :: string
  bk_balance :: bool
  bk_description :: bool
  bk_dashboard :: bool

record version_row =
  vr_endpoint :: string
  vr_revision :: int
  vr_url :: string
  vr_config :: "bark_config option"
  vr_created :: string

record secret_row =
  sc_endpoint :: string
  sc_key :: string
  sc_kind :: string
  sc_blob :: string
  sc_status :: string
  sc_created :: string
  sc_retired :: string
  sc_encoding :: string

record delivery =
  d_id :: string
  d_event :: string
  d_endpoint :: string
  d_revision :: int
  d_key :: string
  d_status :: string
  d_attempts :: int
  d_next :: string
  d_token :: string
  d_lease :: "string option"
  d_created :: string
  d_updated :: string
  d_retry_start :: int

record attempt =
  at_id :: string
  at_delivery :: string
  at_number :: int
  at_status_code :: int
  at_latency :: int
  at_outcome :: string
  at_error :: string
  at_provider :: string
  at_provider_error :: string
  at_created :: string

record journal_row =
  j_seq :: int
  j_epoch :: string
  j_type :: string
  j_aggregate :: string
  j_payload :: string
  j_created :: string

record audit_row =
  au_id :: string
  au_subject :: string
  au_role :: string
  au_action :: string
  au_target :: string
  au_request :: string
  au_created :: string

record auth_attempt =
  aa_id :: string
  aa_status :: string
  aa_finished :: string

record connection =
  cn_id :: string
  cn_bank :: string
  cn_account :: string
  cn_state :: string
  cn_created :: string
  cn_updated :: string

text \<open>The tables of the SePay store: both inboxes, the receipts, the private details and the managed settings.\<close>

record telegram_row =
  ti_bot :: int
  ti_update :: int
  ti_chat :: int
  ti_message :: int
  ti_hash :: string
  ti_blob :: string
  ti_store :: string
  ti_reason :: string
  ti_received :: string
  ti_transaction :: string

record native_row =
  ni_store :: string
  ni_provider :: int
  ni_reference :: string
  ni_hash :: string
  ni_blob :: string
  ni_reason :: string
  ni_transaction :: string
  ni_at :: string
  ni_received :: string

record sepay_receipt =
  sp_store :: string
  sp_bank :: string
  sp_account :: string
  sp_reference :: string
  sp_hash :: string
  sp_transaction :: string
  sp_message :: int
  sp_received :: string

record details_row =
  sd_transaction :: string
  sd_blob :: string

record managed_row =
  mg_revision :: int
  mg_blob :: string
  mg_updated :: string

record system_event =
  se_id :: string
  se_type :: string
  se_created :: string

section \<open>The database\<close>

record db =
  db_control_exists :: bool
  db_control :: "control_row option"
  db_provider :: provider_row
  db_versions :: "(int \<times> string) list"
  db_runtime :: runtime_row
  db_ops :: "provider_op list"
  db_orders :: "order list"
  db_receipts :: "receipt list"
  db_inbox :: "inbox_row list"
  db_transactions :: "transaction list"
  db_quarantine :: "quarantine_row list"
  db_events :: "event list"
  db_endpoints :: "endpoint list"
  db_epversions :: "version_row list"
  db_secrets :: "secret_row list"
  db_deliveries :: "delivery list"
  db_attempts :: "attempt list"
  db_journal :: "journal_row list"
  db_journal_seq :: int
  db_audit :: "audit_row list"
  db_auth :: "auth_attempt list"
  db_connections :: "connection list"
  db_telegram :: "telegram_row list"
  db_native :: "native_row list"
  db_sepay_receipts :: "sepay_receipt list"
  db_details :: "details_row list"
  db_managed :: "managed_row option"
  db_system :: "system_event list"

text \<open>The database that the migrations leave behind when they run at the time \<open>stamp\<close>.\<close>

definition initial_db :: "string \<Rightarrow> db" where
  "initial_db stamp = \<lparr>
     db_control_exists = True,
     db_control = Some \<lparr>c_state = ''OPEN'', c_owner = [], c_token = [], c_expires = [], c_reason = ''bootstrap'',
       c_fence = 1, c_metadata = ''{}'', c_created = stamp, c_updated = stamp\<rparr>,
     db_provider = \<lparr>pc_revision = 0, pc_envelope = [], pc_enabled = False, pc_confirmed = False, pc_updated = stamp\<rparr>,
     db_versions = [],
     db_runtime = \<lparr>rt_quiesced = False, rt_next_request = []\<rparr>,
     db_ops = [], db_orders = [], db_receipts = [], db_inbox = [], db_transactions = [], db_quarantine = [],
     db_events = [], db_endpoints = [], db_epversions = [], db_secrets = [], db_deliveries = [], db_attempts = [], db_journal = [],
     db_journal_seq = 0, db_audit = [], db_auth = [],
     db_connections = [\<lparr>cn_id = ''payos-klb'', cn_bank = ''KienlongBank'', cn_account = [], cn_state = ''WEBHOOK'', cn_created = stamp,
       cn_updated = stamp\<rparr>],
     db_telegram = [], db_native = [], db_sepay_receipts = [], db_details = [], db_managed = None, db_system = []\<rparr>"

lemma initial_db_simps [simp]:
  "db_orders (initial_db st) = []" "db_receipts (initial_db st) = []" "db_inbox (initial_db st) = []"
  "db_transactions (initial_db st) = []" "db_events (initial_db st) = []" "db_endpoints (initial_db st) = []"
  "db_secrets (initial_db st) = []" "db_epversions (initial_db st) = []" "db_deliveries (initial_db st) = []" "db_attempts (initial_db st) = []"
  "db_journal (initial_db st) = []" "db_journal_seq (initial_db st) = 0" "db_ops (initial_db st) = []"
  "db_telegram (initial_db st) = []" "db_native (initial_db st) = []" "db_sepay_receipts (initial_db st) = []"
  "db_details (initial_db st) = []" "db_managed (initial_db st) = None" "db_system (initial_db st) = []"
  "db_provider (initial_db st) = \<lparr>pc_revision = 0, pc_envelope = [], pc_enabled = False, pc_confirmed = False, pc_updated = st\<rparr>"
  "db_audit (initial_db st) = []" "db_versions (initial_db st) = []" "db_quarantine (initial_db st) = []"
  "db_control_exists (initial_db st)"
  "db_control (initial_db st) = Some \<lparr>c_state = ''OPEN'', c_owner = [], c_token = [], c_expires = [],
     c_reason = ''bootstrap'', c_fence = 1, c_metadata = ''{}'', c_created = st, c_updated = st\<rparr>"
  "db_runtime (initial_db st) = \<lparr>rt_quiesced = False, rt_next_request = []\<rparr>"
  by (simp_all add: initial_db_def)

end
