(* ===== verification/Gate.thy ===== *)
theory Gate
  imports Schema
begin

text \<open>
  internal/storage/deployment_control.go and the admission check of payment_provider_config.go: the
  deployment gate that stops every mutation while a deployment holds it, and the check that every
  write path makes.  The gate is the singleton row of \<open>deployment_control\<close>; its lease is text in
  RFC3339 with the zone of the process.  An operation reads the clock once.
\<close>

section \<open>Operations\<close>

record gate_view =
  g_id :: string
  g_state :: string
  g_owner :: string
  g_token :: string
  g_expires :: string
  g_reason :: string
  g_fence :: int
  g_metadata :: string
  g_exists :: bool
  g_bootstrap :: bool
  g_stale :: bool
  g_created :: string
  g_updated :: string

definition no_gate :: gate_view where
  "no_gate = \<lparr>g_id = [], g_state = [], g_owner = [], g_token = [], g_expires = [], g_reason = [], g_fence = 0,
     g_metadata = [], g_exists = False, g_bootstrap = False, g_stale = False, g_created = [], g_updated = []\<rparr>"

definition generate_lease_token :: "env \<Rightarrow> string" where
  "generate_lease_token e = hex_of (e_id e 0)"

text \<open>The expiry of a lease that the gate still honours: a locked gate whose expiry can be read.\<close>

definition lease_expiry :: "control_row \<Rightarrow> instant option" where
  "lease_expiry c =
     (if c_state c = ''LOCKED'' \<and> c_expires c \<noteq> [] then parse_rfc3339 (c_expires c) else None)"

definition get_deployment_gate :: "env \<Rightarrow> db \<Rightarrow> gate_view" where
  "get_deployment_gate e s =
     (if \<not> db_control_exists s
      then no_gate\<lparr>g_id := ''singleton'', g_state := ''OPEN'', g_bootstrap := True\<rparr>
      else case db_control s of
        None \<Rightarrow> no_gate\<lparr>g_id := ''singleton'', g_state := ''OPEN'', g_exists := True\<rparr>
      | Some c \<Rightarrow> \<lparr>g_id = ''singleton'', g_state = c_state c, g_owner = c_owner c, g_token = c_token c,
          g_expires = c_expires c, g_reason = c_reason c, g_fence = c_fence c, g_metadata = c_metadata c,
          g_exists = True, g_bootstrap = False,
          g_stale = (case lease_expiry c of None \<Rightarrow> False | Some t \<Rightarrow> t < e_now e),
          g_created = c_created c, g_updated = c_updated c\<rparr>)"

definition default_lease :: "int \<Rightarrow> int" where
  "default_lease d = (if d \<le> 0 then 120 * second else d)"

definition acquire_mutation_gate_tx :: "env \<Rightarrow> string \<Rightarrow> int \<Rightarrow> string \<Rightarrow> db \<Rightarrow> err + (gate_view \<times> db)" where
  "acquire_mutation_gate_tx e owner duration reason s =
     (let now_str = fmt_rfc3339 (e_local e) (e_now e);
          expires_str = fmt_rfc3339 (e_local e) (e_now e + default_lease duration);
          token = generate_lease_token e in
      if \<not> db_control_exists s
      then Inr (no_gate\<lparr>g_id := ''singleton'', g_state := ''OPEN'', g_owner := owner, g_token := token,
             g_expires := expires_str, g_reason := reason, g_bootstrap := True\<rparr>, s)
      else if (case db_control s of None \<Rightarrow> False
          | Some c \<Rightarrow> (case lease_expiry c of None \<Rightarrow> False
              | Some t \<Rightarrow> e_now e < t \<and> c_owner c \<noteq> owner))
      then Inl ErrMutationGateHeld
      else let fence = (case db_control s of None \<Rightarrow> 0 | Some c \<Rightarrow> c_fence c) + 1;
               row = (case db_control s of
                   None \<Rightarrow> \<lparr>c_state = ''LOCKED'', c_owner = owner, c_token = token, c_expires = expires_str,
                     c_reason = reason, c_fence = fence, c_metadata = ''{}'', c_created = now_str, c_updated = now_str\<rparr>
                 | Some c \<Rightarrow> c\<lparr>c_state := ''LOCKED'', c_owner := owner, c_token := token, c_expires := expires_str,
                     c_reason := reason, c_fence := fence, c_updated := now_str\<rparr>)
           in Inr (no_gate\<lparr>g_id := ''singleton'', g_state := ''LOCKED'', g_owner := owner, g_token := token,
                g_expires := expires_str, g_reason := reason, g_fence := fence, g_exists := True,
                g_created := now_str, g_updated := now_str\<rparr>,
              s\<lparr>db_control := Some row\<rparr>))"

definition acquire_mutation_gate :: "env \<Rightarrow> string \<Rightarrow> int \<Rightarrow> string \<Rightarrow> db \<Rightarrow> (err + gate_view) \<times> db" where
  "acquire_mutation_gate e owner duration reason = run_tx (acquire_mutation_gate_tx e owner duration reason)"

definition release_mutation_gate_tx :: "env \<Rightarrow> string \<Rightarrow> string \<Rightarrow> db \<Rightarrow> err + (unit \<times> db)" where
  "release_mutation_gate_tx e owner token s =
     (if \<not> db_control_exists s then Inr ((), s)
      else case db_control s of
        None \<Rightarrow> Inr ((), s)
      | Some c \<Rightarrow>
          if c_state c \<noteq> ''LOCKED'' then Inr ((), s)
          else let owner_match = (c_owner c = owner \<and> (token = [] \<or> c_token c = token));
                   expired = (c_expires c \<noteq> [] \<and>
                     (case parse_rfc3339 (c_expires c) of None \<Rightarrow> False | Some t \<Rightarrow> t < e_now e))
               in if \<not> owner_match \<and> \<not> expired \<and> owner \<noteq> ''force-unlock'' then Inl ErrInvalidLeaseToken
                  else Inr ((), s\<lparr>db_control := Some (c\<lparr>c_state := ''OPEN'', c_owner := [], c_token := [], c_expires := [],
                    c_reason := ''released'', c_fence := c_fence c + 1,
                    c_updated := fmt_rfc3339 (e_local e) (e_now e)\<rparr>)\<rparr>))"

definition release_mutation_gate :: "env \<Rightarrow> string \<Rightarrow> string \<Rightarrow> db \<Rightarrow> (err + unit) \<times> db" where
  "release_mutation_gate e owner token = run_tx (release_mutation_gate_tx e owner token)"

definition renew_mutation_gate_tx :: "env \<Rightarrow> string \<Rightarrow> string \<Rightarrow> int \<Rightarrow> db \<Rightarrow> err + (unit \<times> db)" where
  "renew_mutation_gate_tx e owner token duration s =
     (if \<not> db_control_exists s then Inr ((), s)
      else case db_control s of
        None \<Rightarrow> Inl ErrNoRows
      | Some c \<Rightarrow>
          if c_state c \<noteq> ''LOCKED'' \<or> c_owner c \<noteq> owner \<or> c_token c \<noteq> token then Inl ErrInvalidLeaseToken
          else Inr ((), s\<lparr>db_control := Some (c\<lparr>
            c_expires := fmt_rfc3339 (e_local e) (e_now e + default_lease duration),
            c_updated := fmt_rfc3339 (e_local e) (e_now e)\<rparr>)\<rparr>))"

definition renew_mutation_gate :: "env \<Rightarrow> string \<Rightarrow> string \<Rightarrow> int \<Rightarrow> db \<Rightarrow> (err + unit) \<times> db" where
  "renew_mutation_gate e owner token duration = run_tx (renew_mutation_gate_tx e owner token duration)"

definition force_unlock_mutation_gate :: "env \<Rightarrow> string \<Rightarrow> db \<Rightarrow> (err + unit) \<times> db" where
  "force_unlock_mutation_gate e reason = release_mutation_gate e ''force-unlock'' []"

definition check_payment_provider_operation :: "env \<Rightarrow> db \<Rightarrow> err + unit" where
  "check_payment_provider_operation e s =
     (if e_op e = [] then Inr ()
      else ensure (count_where (\<lambda>r. po_token r = e_op e \<and> now_text e < po_lease r) (db_ops s) = 1)
        ErrProviderConfigUnavailable)"

definition check_deployment_gate :: "env \<Rightarrow> db \<Rightarrow> err + unit" where
  "check_deployment_gate e s =
     (if \<not> db_control_exists s then Inr ()
      else case db_control s of
        None \<Rightarrow> Inr ()
      | Some c \<Rightarrow> (case lease_expiry c of
          None \<Rightarrow> Inr ()
        | Some t \<Rightarrow> ensure (\<not> e_now e < t) ErrMutationGateLocked))"

definition check_mutation_allowed :: "env \<Rightarrow> db \<Rightarrow> err + unit" where
  "check_mutation_allowed e s =
     bnd (check_payment_provider_operation e s) (\<lambda>_. check_deployment_gate e s)"

definition payos_cutover_tx :: "env \<Rightarrow> string \<Rightarrow> db \<Rightarrow> err + (unit \<times> db)" where
  "payos_cutover_tx e token s =
     (if \<not> db_control_exists s then Inl ErrInvalidLeaseToken
      else case db_control s of
        None \<Rightarrow> Inl ErrInvalidLeaseToken
      | Some c \<Rightarrow>
          if c_state c \<noteq> ''LOCKED'' \<or> c_token c \<noteq> token \<or>
             (case parse_rfc3339 (c_expires c) of None \<Rightarrow> True | Some t \<Rightarrow> \<not> e_now e < t)
          then Inl ErrInvalidLeaseToken
          else Inr ((), s\<lparr>
            db_auth := update_where (\<lambda>a. aa_status a \<in> {''STARTING'', ''IN_PROGRESS'', ''EXPORTING'', ''VERIFYING''})
              (\<lambda>a. a\<lparr>aa_status := ''CANCELLED'', aa_finished := now_text e\<rparr>) (db_auth s),
            db_connections := update_where (\<lambda>c. cn_bank c = ''ACB'')
              (\<lambda>c. c\<lparr>cn_state := ''PAUSED'', cn_updated := now_text e\<rparr>) (db_connections s),
            db_audit := db_audit s @ [\<lparr>au_id = fresh_id e ''audit'' 0, au_subject = c_owner c, au_role = ''deployer'',
              au_action = ''PAYOS_CUTOVER'', au_target = ''singleton'', au_request = fresh_id e ''cutover'' 1,
              au_created = now_text e\<rparr>]\<rparr>))"

definition payos_cutover :: "env \<Rightarrow> string \<Rightarrow> db \<Rightarrow> (err + unit) \<times> db" where
  "payos_cutover e token s = (if token = [] then (Inl ErrInvalidLeaseToken, s) else run_tx (payos_cutover_tx e token) s)"

section \<open>Lemmas\<close>

text \<open>A clock and a zone whose texts have the fixed width of RFC3339.\<close>

definition printable_local :: "int \<Rightarrow> instant \<Rightarrow> bool" where
  "printable_local off t \<longleftrightarrow> secs_range (t div second + off) \<and> off mod 60 = 0 \<and> abs off < 86400"

definition whole_seconds :: "instant \<Rightarrow> instant" where
  "whole_seconds t = t div second * second"

lemma parse_printable_local:
  "printable_local off t \<Longrightarrow> parse_rfc3339 (fmt_rfc3339 off t) = Some (whole_seconds t)"
  by (simp add: printable_local_def whole_seconds_def parse_fmt_rfc3339)

lemma fmt_rfc3339_nonempty [simp]: "fmt_rfc3339 off t \<noteq> []"
  by (simp add: fmt_rfc3339_def secs_text_def)

lemma lease_expiry_locked:
  "c_state c = ''LOCKED'' \<Longrightarrow> c_expires c = fmt_rfc3339 off t \<Longrightarrow> printable_local off t \<Longrightarrow>
    lease_expiry c = Some (whole_seconds t)"
  by (simp add: lease_expiry_def parse_printable_local)

lemma lease_expiry_open [simp]: "c_state c \<noteq> ''LOCKED'' \<Longrightarrow> lease_expiry c = None"
  by (simp add: lease_expiry_def)

lemma acquire_success:
  assumes "acquire_mutation_gate e owner duration reason s = (Inr g, s')" "db_control_exists s"
  obtains c where "s' = s\<lparr>db_control := Some c\<rparr>" "c_state c = ''LOCKED''" "c_owner c = owner"
    "c_token c = g_token g" "c_expires c = fmt_rfc3339 (e_local e) (e_now e + default_lease duration)"
    "c_fence c = g_fence g" "g_token g = generate_lease_token e"
    "c_fence c = (case db_control s of None \<Rightarrow> 1 | Some c0 \<Rightarrow> c_fence c0 + 1)"
  using assms
  by (auto simp: acquire_mutation_gate_def run_tx_Inr acquire_mutation_gate_tx_def Let_def
      split: if_splits option.splits)

text \<open>The gate of a database without a table or with an open gate lets every call pass.\<close>

lemma gate_open_allows:
  "\<not> db_control_exists s \<or> (\<forall>c. db_control s = Some c \<longrightarrow> c_state c \<noteq> ''LOCKED'') \<Longrightarrow>
    check_deployment_gate e s = Inr ()"
  by (auto simp: check_deployment_gate_def split: option.split)

lemma check_no_op [simp]: "e_op e = [] \<Longrightarrow> check_mutation_allowed e s = check_deployment_gate e s"
  by (simp add: check_mutation_allowed_def check_payment_provider_operation_def)

lemma check_allowedD:
  "check_mutation_allowed e s = Inr () \<Longrightarrow> check_deployment_gate e s = Inr () \<and> check_payment_provider_operation e s = Inr ()"
  by (cases "check_payment_provider_operation e s") (auto simp: check_mutation_allowed_def)

section \<open>Histories of gate calls\<close>

datatype gate_call =
    Acquire env string int string
  | Release env string string
  | Renew env string string int
  | ForceUnlock env string
  | Cutover env string

fun gate_exec :: "gate_call \<Rightarrow> db \<Rightarrow> db" where
  "gate_exec (Acquire e owner duration reason) s = snd (acquire_mutation_gate e owner duration reason s)"
| "gate_exec (Release e owner token) s = snd (release_mutation_gate e owner token s)"
| "gate_exec (Renew e owner token duration) s = snd (renew_mutation_gate e owner token duration s)"
| "gate_exec (ForceUnlock e reason) s = snd (force_unlock_mutation_gate e reason s)"
| "gate_exec (Cutover e token) s = snd (payos_cutover e token s)"

definition gate_fence :: "db \<Rightarrow> int" where
  "gate_fence s = (case db_control s of None \<Rightarrow> 0 | Some c \<Rightarrow> c_fence c)"

text \<open>A locked gate has an expiry; an open one has neither owner, token nor expiry.\<close>

definition gate_inv :: "db \<Rightarrow> bool" where
  "gate_inv s \<longleftrightarrow> (case db_control s of None \<Rightarrow> True | Some c \<Rightarrow>
     0 \<le> c_fence c \<and>
     (c_state c = ''LOCKED'' \<and> c_expires c \<noteq> [] \<or>
      c_state c = ''OPEN'' \<and> c_owner c = [] \<and> c_token c = [] \<and> c_expires c = []))"

lemmas gate_defs = acquire_mutation_gate_def acquire_mutation_gate_tx_def release_mutation_gate_def
  release_mutation_gate_tx_def renew_mutation_gate_def renew_mutation_gate_tx_def
  force_unlock_mutation_gate_def payos_cutover_def payos_cutover_tx_def run_tx_def Let_def

lemma gate_exec_inv: "gate_inv s \<Longrightarrow> gate_inv (gate_exec c s)"
  by (cases c) (auto simp: gate_inv_def gate_defs split: option.splits)

lemma gate_exec_fence: "gate_inv s \<Longrightarrow> gate_fence s \<le> gate_fence (gate_exec c s)"
  by (cases c) (auto simp: gate_inv_def gate_fence_def gate_defs split: option.splits)

interpretation gate: call_machine gate_exec "\<lambda>_. True" gate_inv
  by unfold_locales (rule gate_exec_inv)

lemma gate_exec_exists: "db_control_exists (gate_exec c s) = db_control_exists s"
  by (cases c) (auto simp: gate_defs split: option.splits)

lemma any_history [simp]: "list_all (\<lambda>_. True) cs"
  by (induction cs) auto

lemma gate_history_exists: "gate_inv s \<Longrightarrow> db_control_exists s \<Longrightarrow> db_control_exists (gate.history cs s)"
  by (rule gate.history_stable [where q = db_control_exists]) (simp_all add: gate_exec_exists)

lemma gate_history_fence: "gate_inv s \<Longrightarrow> gate_fence s \<le> gate_fence (gate.history cs s)"
  by (rule gate.history_rel [where r = "\<lambda>s s'. gate_fence s \<le> gate_fence s'"]) (simp_all add: gate_exec_fence)

section \<open>Properties\<close>

text \<open>
  Once an owner has acquired the gate, then until the second at which its lease ends (the stored text drops
  the fraction) another owner cannot acquire it and the admission check refuses; what the check guards is in
  \<open>GateLaws\<close>.
\<close>

lemma gate_held:
  assumes "acquire_mutation_gate e owner duration reason s = (Inr g, s')" and "db_control_exists s"
    and "printable_local (e_local e) (e_now e + default_lease duration)"
    and "e_now e' < whole_seconds (e_now e + default_lease duration)" and "owner' \<noteq> owner"
  shows "acquire_mutation_gate e' owner' duration' reason' s' = (Inl ErrMutationGateHeld, s') \<and>
    check_deployment_gate e' s' = Inl ErrMutationGateLocked"
proof -
  obtain c where c: "s' = s\<lparr>db_control := Some c\<rparr>" "c_owner c = owner"
    "lease_expiry c = Some (whole_seconds (e_now e + default_lease duration))"
    using acquire_success[OF assms(1,2)] lease_expiry_locked assms(3) by metis
  then have "acquire_mutation_gate e' owner' duration' reason' s' = (Inl ErrMutationGateHeld, s')"
    using assms(2,4,5) by (auto simp: acquire_mutation_gate_def run_tx_Inl acquire_mutation_gate_tx_def Let_def)
  moreover have "check_deployment_gate e' s' = Inl ErrMutationGateLocked"
    using c assms(2,4) by (simp add: check_deployment_gate_def)
  ultimately show ?thesis ..
qed

text \<open>
  Fencing: along every history of gate calls the fence generation never decreases, and the
  generation that a successful acquisition hands out is larger than every earlier one.
\<close>

theorem gate_fencing:
  assumes "gate_inv s" and "db_control_exists s"
    and "acquire_mutation_gate e owner duration reason (gate.history cs s) = (Inr g, s')"
  shows "gate_fence s < g_fence g \<and> gate_fence s' = g_fence g \<and> (\<forall>ds. g_fence g \<le> gate_fence (gate.history ds s'))"
proof -
  have inv: "gate_inv (gate.history cs s)" by (rule gate.history_inv) (simp_all add: assms)
  have "gate_inv s'"
    using gate_exec_inv[OF inv, of "Acquire e owner duration reason"] assms(3) by simp
  obtain c where c: "s' = (gate.history cs s)\<lparr>db_control := Some c\<rparr>" "c_fence c = g_fence g"
    "c_fence c = (case db_control (gate.history cs s) of None \<Rightarrow> 1 | Some c0 \<Rightarrow> c_fence c0 + 1)"
    by (rule acquire_success[OF assms(3) gate_history_exists[OF assms(1,2)]])
  then have "gate_fence s' = g_fence g" "g_fence g = gate_fence (gate.history cs s) + 1"
    by (auto simp: gate_fence_def split: option.splits)
  then show ?thesis
    using gate_history_fence[OF assms(1), of cs] gate_history_fence[OF \<open>gate_inv s'\<close>] by auto
qed

text \<open>
  A release by the holder opens the gate: it succeeds at any time, and mutations pass the gate
  again whatever the clock reads; a stranger's release before the lease has expired changes nothing.
\<close>

theorem gate_release:
  assumes "acquire_mutation_gate e owner duration reason s = (Inr g, s')" and "db_control_exists s"
    and "printable_local (e_local e) (e_now e + default_lease duration)"
    and "e_now e' \<le> whole_seconds (e_now e + default_lease duration)"
    and "owner' \<noteq> ''force-unlock''" and "owner' \<noteq> owner \<or> token \<noteq> [] \<and> token \<noteq> g_token g"
  shows "(\<exists>s''. release_mutation_gate e'' owner (g_token g) s' = (Inr (), s'') \<and>
      (\<forall>e3. check_deployment_gate e3 s'' = Inr ()) \<and> gate_fence s'' = g_fence g + 1) \<and>
    release_mutation_gate e' owner' token s' = (Inl ErrInvalidLeaseToken, s')"
proof -
  obtain c where c: "s' = s\<lparr>db_control := Some c\<rparr>" "c_state c = ''LOCKED''" "c_owner c = owner" "c_token c = g_token g"
    "c_expires c = fmt_rfc3339 (e_local e) (e_now e + default_lease duration)" "c_fence c = g_fence g"
    by (rule acquire_success[OF assms(1,2)])
  then have "\<exists>s''. release_mutation_gate e'' owner (g_token g) s' = (Inr (), s'') \<and>
      (\<forall>e3. check_deployment_gate e3 s'' = Inr ()) \<and> gate_fence s'' = g_fence g + 1"
    using assms(2)
    by (simp add: release_mutation_gate_def run_tx_Inr release_mutation_gate_tx_def Let_def
        check_deployment_gate_def lease_expiry_def gate_fence_def)
  moreover have "release_mutation_gate e' owner' token s' = (Inl ErrInvalidLeaseToken, s')"
    using c assms(2-)
    by (auto simp: release_mutation_gate_def run_tx_Inl release_mutation_gate_tx_def Let_def parse_printable_local)
  ultimately show ?thesis ..
qed

section \<open>Instances\<close>

definition sample_env :: "instant \<Rightarrow> env" where
  "sample_env t = \<lparr>e_now = t, e_local = 25200, e_op = [], e_id = (\<lambda>k. [char_of k]), e_sha256 = (\<lambda>s. s)\<rparr>"

lemma sample_env_simps [simp]:
  "e_now (sample_env t) = t" "e_local (sample_env t) = 25200" "e_op (sample_env t) = []"
  by (simp_all add: sample_env_def)

lemma sample_acquire:
  "\<exists>g s'. acquire_mutation_gate (sample_env 1700000000000000000) ''ci'' 60000000000 ''deploy'' (initial_db stamp) = (Inr g, s')"
  by (simp add: acquire_mutation_gate_def run_tx_Inr acquire_mutation_gate_tx_def Let_def lease_expiry_def)

lemma initial_gate [simp]: "gate_inv (initial_db stamp)" "gate_fence (initial_db stamp) = 1"
  by (simp_all add: gate_inv_def gate_fence_def)

lemma gate_fencing_witness:
  "\<exists>g s'. acquire_mutation_gate (sample_env 1700000000000000000) ''ci'' 60000000000 ''deploy'' (initial_db []) = (Inr g, s') \<and>
    1 < g_fence g"
proof -
  obtain g s' where a: "acquire_mutation_gate (sample_env 1700000000000000000) ''ci'' 60000000000 ''deploy'' (initial_db []) = (Inr g, s')"
    using sample_acquire by blast
  from gate_fencing[of "initial_db []" _ _ _ _ "[]" g s'] a show ?thesis by auto
qed

lemma gate_release_witness:
  "\<exists>g s' s''. acquire_mutation_gate (sample_env 1700000000000000000) ''ci'' 60000000000 ''deploy'' (initial_db []) = (Inr g, s') \<and>
    release_mutation_gate (sample_env 1700000001000000000) ''cd'' [] s' = (Inl ErrInvalidLeaseToken, s') \<and>
    release_mutation_gate (sample_env 1700000001000000000) ''ci'' (g_token g) s' = (Inr (), s'')"
proof -
  obtain g s' where a: "acquire_mutation_gate (sample_env 1700000000000000000) ''ci'' 60000000000 ''deploy'' (initial_db []) = (Inr g, s')"
    using sample_acquire by blast
  from gate_release[OF a, of "sample_env 1700000001000000000" "''cd''" "[]" "sample_env 1700000001000000000"]
  show ?thesis
    by (auto simp: a default_lease_def printable_local_def secs_range_def whole_seconds_def)
qed

end
