(* ===== verification/GoEncoding.thy ===== *)
theory GoEncoding
  imports Prelude
begin

text \<open>
  What the program uses of \<open>encoding/base64\<close>: \<open>RawURLEncoding\<close>, the URL alphabet without padding.
  Three bytes become four symbols; one or two trailing bytes become two or three.
\<close>

definition alphabet :: string where
  "alphabet = ''ABCDEFGHIJKLMNOPQRSTUVWXYZabcdefghijklmnopqrstuvwxyz0123456789-_''"

definition sym :: "nat \<Rightarrow> char" where
  "sym n = alphabet ! (n mod 64)"

definition unsym :: "char \<Rightarrow> nat option" where
  "unsym c = (let n = length (takeWhile (\<lambda>d. d \<noteq> c) alphabet) in if n < 64 then Some n else None)"

abbreviation byte :: "char \<Rightarrow> nat" where "byte \<equiv> of_char"

fun b64_encode :: "string \<Rightarrow> string" where
  "b64_encode [] = []"
| "b64_encode [a] = [sym (byte a div 4), sym (byte a mod 4 * 16)]"
| "b64_encode [a, b] = [sym (byte a div 4), sym (byte a mod 4 * 16 + byte b div 16), sym (byte b mod 16 * 4)]"
| "b64_encode (a # b # c # r) =
     sym (byte a div 4) # sym (byte a mod 4 * 16 + byte b div 16) # sym (byte b mod 16 * 4 + byte c div 64) #
     sym (byte c mod 64) # b64_encode r"

fun b64_values :: "string \<Rightarrow> nat list option" where
  "b64_values [] = Some []"
| "b64_values (c # cs) =
     (if c = CHR 0x0A \<or> c = CHR 0x0D then b64_values cs
      else case (unsym c, b64_values cs) of (Some n, Some ns) \<Rightarrow> Some (n # ns) | _ \<Rightarrow> None)"

text \<open>\<open>DecodeString\<close> skips line ends; a single trailing symbol is an error, and without \<open>Strict\<close> the
  unused bits of the last symbol are ignored.\<close>

fun b64_groups :: "nat list \<Rightarrow> string option" where
  "b64_groups [] = Some []"
| "b64_groups [a] = None"
| "b64_groups [a, b] = Some [char_of (a * 4 + b div 16)]"
| "b64_groups [a, b, c] = Some [char_of (a * 4 + b div 16), char_of (b mod 16 * 16 + c div 4)]"
| "b64_groups (a # b # c # d # r) =
     map_option (\<lambda>s. char_of (a * 4 + b div 16) # char_of (b mod 16 * 16 + c div 4) # char_of (c mod 4 * 64 + d) # s)
       (b64_groups r)"

definition b64_decode :: "string \<Rightarrow> string option" where
  "b64_decode s = Option.bind (b64_values s) b64_groups"

lemma byte_less [simp]: "byte c < 256"
  by (metis of_char_mod_256 mod_less_divisor zero_less_numeral)

lemma alphabet_facts: "length alphabet = 64" "distinct alphabet" "CHR 0x0A \<notin> set alphabet" "CHR 0x0D \<notin> set alphabet"
  by (simp_all add: alphabet_def)

lemma takeWhile_nth: "distinct xs \<Longrightarrow> i < length xs \<Longrightarrow> length (takeWhile (\<lambda>d. d \<noteq> xs ! i) xs) = i"
  by (induction xs arbitrary: i) (auto simp: nth_Cons split: nat.splits)

lemma unsym_sym: "n < 64 \<Longrightarrow> unsym (sym n) = Some n"
  by (simp add: unsym_def sym_def takeWhile_nth alphabet_facts)

lemma sym_no_newline: "sym n \<noteq> CHR 0x0A" "sym n \<noteq> CHR 0x0D"
proof -
  have "sym n \<in> set alphabet" by (simp add: sym_def alphabet_facts)
  then show "sym n \<noteq> CHR 0x0A" "sym n \<noteq> CHR 0x0D" using alphabet_facts by auto
qed

lemma b64_values_sym:
  "n < 64 \<Longrightarrow> b64_values (sym n # cs) = map_option (Cons n) (b64_values cs)"
  by (simp add: sym_no_newline unsym_sym split: option.split)

lemma group_bytes:
  fixes a b c :: nat
  assumes "a < 256" "b < 256" "c < 256"
  shows "a div 4 < 64 \<and> a mod 4 * 16 < 64 \<and> a mod 4 * 16 + b div 16 < 64 \<and> b mod 16 * 4 < 64 \<and>
    b mod 16 * 4 + c div 64 < 64 \<and> c mod 64 < 64 \<and>
    a div 4 * 4 + (a mod 4 * 16) div 16 = a \<and>
    a div 4 * 4 + (a mod 4 * 16 + b div 16) div 16 = a \<and>
    (a mod 4 * 16 + b div 16) mod 16 * 16 + (b mod 16 * 4) div 4 = b \<and>
    (a mod 4 * 16 + b div 16) mod 16 * 16 + (b mod 16 * 4 + c div 64) div 4 = b \<and>
    (b mod 16 * 4 + c div 64) mod 4 * 64 + c mod 64 = c"
proof -
  have a: "a mod 4 < 4" "a div 4 < 64" using assms by auto
  have b: "b mod 16 < 16" "b div 16 < 16" using assms by auto
  have c: "c div 64 < 4" using assms by auto
  have "a div 4 * 4 + (a mod 4 * 16) div 16 = a" by simp
  moreover have "a div 4 * 4 + (a mod 4 * 16 + b div 16) div 16 = a" using b by simp
  moreover have "(a mod 4 * 16 + b div 16) mod 16 * 16 + (b mod 16 * 4) div 4 = b" using b by simp
  moreover have "(a mod 4 * 16 + b div 16) mod 16 * 16 + (b mod 16 * 4 + c div 64) div 4 = b" using b c by simp
  moreover have "(b mod 16 * 4 + c div 64) mod 4 * 64 + c mod 64 = c" using c by simp
  moreover have "a mod 4 * 16 < 64" "a mod 4 * 16 + b div 16 < 64" "b mod 16 * 4 < 64"
    "b mod 16 * 4 + c div 64 < 64" "c mod 64 < 64" using a b c by simp_all
  ultimately show ?thesis using a by blast
qed

lemma b64_groups_values: "\<exists>ns. b64_values (b64_encode s) = Some ns \<and> b64_groups ns = Some s"
proof (induction s rule: b64_encode.induct)
  case (2 a)
  note g = group_bytes[OF byte_less byte_less byte_less, of a a a]
  show ?case by (intro exI conjI, simp only: b64_encode.simps b64_values_sym g b64_values.simps(1) option.map)
      (simp only: b64_groups.simps g char_of_char)
next
  case (3 a b)
  note g = group_bytes[OF byte_less byte_less byte_less, of a b b]
  show ?case by (intro exI conjI, simp only: b64_encode.simps b64_values_sym g b64_values.simps(1) option.map)
      (simp only: b64_groups.simps g char_of_char)
next
  case (4 a b c r)
  note g = group_bytes[OF byte_less byte_less byte_less, of a b c]
  from 4 obtain ns where n: "b64_values (b64_encode r) = Some ns" "b64_groups ns = Some r" by blast
  have v: "b64_values (b64_encode (a # b # c # r)) =
      Some (byte a div 4 # (byte a mod 4 * 16 + byte b div 16) # (byte b mod 16 * 4 + byte c div 64) # byte c mod 64 # ns)"
    by (simp only: b64_encode.simps b64_values_sym g n option.map)
  have w: "b64_groups (byte a div 4 # (byte a mod 4 * 16 + byte b div 16) # (byte b mod 16 * 4 + byte c div 64) # byte c mod 64 # ns) =
      Some (a # b # c # r)"
    by (simp only: b64_groups.simps g n option.map char_of_char)
  from v w show ?case by blast
qed simp

lemma b64_round_trip: "b64_decode (b64_encode s) = Some s"
  using b64_groups_values[of s] by (auto simp: b64_decode_def)

lemma b64_encode_Nil [simp]: "b64_encode s = [] \<longleftrightarrow> s = []"
  by (cases s rule: b64_encode.cases) auto

lemma b64_encode_inject: "b64_encode s = b64_encode t \<longleftrightarrow> s = t"
  by (metis b64_round_trip option.inject)

lemma sym_no_nul [simp]: "CHR 0x00 \<noteq> sym n"
proof -
  have "sym n \<in> set alphabet" by (simp add: sym_def alphabet_facts)
  moreover have "CHR 0x00 \<notin> set alphabet" by (simp add: alphabet_def)
  ultimately show ?thesis by auto
qed

lemma b64_no_nul [simp]: "CHR 0x00 \<notin> set (b64_encode s)"
  by (induction s rule: b64_encode.induct) simp_all

end
