(* ===== verification/Paging.thy ===== *)
theory Paging
  imports GoEncoding "HOL-Library.Multiset"
begin

text \<open>
  Cursor paging (internal/storage/queries.go): the cursor is the base64 text of the sort value and the
  key of the last row handed out, separated by a NUL byte; a page holds the rows before the cursor in
  descending order of (sort value, key), one row more being read to know whether another page exists.
  The locale states the interface the list operations share: following the cursors from the empty one
  hands out every row exactly once and in order.
\<close>

record 'r page =
  pg_items :: "'r list"
  pg_next :: string

definition normalize_page_size :: "int \<Rightarrow> nat" where
  "normalize_page_size limit = (if limit \<le> 0 then 50 else if limit > 100 then 100 else nat limit)"

definition encode_cursor :: "string \<Rightarrow> string \<Rightarrow> string" where
  "encode_cursor sort_value key =
     (if sort_value = [] \<or> key = [] then [] else b64_encode (sort_value @ CHR 0x00 # key))"

fun split_on :: "char \<Rightarrow> string \<Rightarrow> string list" where
  "split_on c [] = [[]]"
| "split_on c (x # xs) = (if x = c then [] # split_on c xs
     else case split_on c xs of [] \<Rightarrow> [[x]] | p # ps \<Rightarrow> (x # p) # ps)"

definition decode_cursor :: "string \<Rightarrow> (string \<times> string) option" where
  "decode_cursor cursor =
     (if cursor = [] then Some ([], [])
      else case b64_decode cursor of
        None \<Rightarrow> None
      | Some raw \<Rightarrow> (case split_on (CHR 0x00) raw of
            [a, b] \<Rightarrow> if a = [] \<or> b = [] then None else Some (a, b)
          | _ \<Rightarrow> None))"

definition page_rows :: "('r \<Rightarrow> string) \<Rightarrow> ('r \<Rightarrow> string) \<Rightarrow> string \<Rightarrow> string \<Rightarrow> 'r list \<Rightarrow> 'r list" where
  "page_rows stamp key after after_key rows =
     rev (sort_key (\<lambda>r. (stamp r, key r))
       (filter (\<lambda>r. after = [] \<or> stamp r < after \<or> stamp r = after \<and> key r < after_key) rows))"

definition cut_page :: "('r \<Rightarrow> string) \<Rightarrow> ('r \<Rightarrow> string) \<Rightarrow> nat \<Rightarrow> 'r list \<Rightarrow> 'r page" where
  "cut_page stamp key limit rows =
     (let items = take (limit + 1) rows in
      if length items > limit
      then (let l = items ! (limit - 1)
            in \<lparr>pg_items = take limit items, pg_next = encode_cursor (stamp l) (key l)\<rparr>)
      else \<lparr>pg_items = items, pg_next = []\<rparr>)"

definition list_page :: "('r \<Rightarrow> string) \<Rightarrow> ('r \<Rightarrow> string) \<Rightarrow> string \<Rightarrow> int \<Rightarrow> 'r list \<Rightarrow> 'r page option" where
  "list_page stamp key cursor limit rows =
     (case decode_cursor cursor of
        None \<Rightarrow> None
      | Some (after, after_key) \<Rightarrow>
          Some (cut_page stamp key (normalize_page_size limit) (page_rows stamp key after after_key rows)))"

text \<open>A client that follows the cursors, for at most \<open>n\<close> pages.\<close>

fun follow :: "(string \<Rightarrow> 'r page option) \<Rightarrow> nat \<Rightarrow> string \<Rightarrow> 'r list option" where
  "follow f 0 c = None"
| "follow f (Suc n) c = (case f c of
     None \<Rightarrow> None
   | Some p \<Rightarrow> if pg_next p = [] then Some (pg_items p)
       else map_option ((@) (pg_items p)) (follow f n (pg_next p)))"

section \<open>Cursors\<close>

definition cursor_text :: "string \<Rightarrow> bool" where
  "cursor_text s \<longleftrightarrow> s \<noteq> [] \<and> CHR 0x00 \<notin> set s"

lemma split_on_none: "c \<notin> set s \<Longrightarrow> split_on c s = [s]"
  by (induction s) auto

lemma split_on_two: "c \<notin> set a \<Longrightarrow> c \<notin> set b \<Longrightarrow> split_on c (a @ c # b) = [a, b]"
  by (induction a) (auto simp: split_on_none)

lemma cursor_round_trip:
  "cursor_text a \<Longrightarrow> cursor_text b \<Longrightarrow> encode_cursor a b \<noteq> [] \<and> decode_cursor (encode_cursor a b) = Some (a, b)"
  by (simp add: cursor_text_def encode_cursor_def decode_cursor_def b64_round_trip split_on_two)

lemma decode_Nil [simp]: "decode_cursor [] = Some ([], [])"
  by (simp add: decode_cursor_def)

section \<open>Pages\<close>

lemma page_size_pos: "0 < normalize_page_size limit"
  by (simp add: normalize_page_size_def)

text \<open>Keys that identify the rows make the listing strictly descending.\<close>

lemma filter_sorted_prefix:
  fixes f :: "'r \<Rightarrow> 'k :: linorder"
  assumes "sorted (map f xs)" "distinct (map f xs)" "i < length xs"
  shows "filter (\<lambda>r. f r < f (xs ! i)) xs = take i xs"
proof -
  have lt: "f (xs ! j) < f (xs ! i) \<longleftrightarrow> j < i" if "j < length xs" for j
  proof
    assume "j < i"
    then have "f (xs ! j) \<le> f (xs ! i)" using assms by (simp add: sorted_iff_nth_mono)
    moreover have "f (xs ! j) \<noteq> f (xs ! i)"
      using assms that \<open>j < i\<close> nth_eq_iff_index_eq[OF assms(2), of j i] by simp
    ultimately show "f (xs ! j) < f (xs ! i)" by simp
  next
    assume "f (xs ! j) < f (xs ! i)"
    then show "j < i" using assms that by (metis leD length_map linorder_not_less nth_map sorted_nth_mono)
  qed
  have "filter (\<lambda>r. f r < f (xs ! i)) (take i xs) = take i xs"
    using lt assms(3) by (intro filter_True) (auto simp: in_set_conv_nth)
  moreover have "filter (\<lambda>r. f r < f (xs ! i)) (drop i xs) = []"
    using lt assms(3) by (auto simp: filter_empty_conv in_set_conv_nth)
  ultimately show ?thesis by (metis append_Nil2 append_take_drop_id filter_append)
qed

lemma sort_key_filter_before:
  fixes f :: "'r \<Rightarrow> 'k :: linorder"
  assumes "distinct (map f rows)" and "i < length rows"
  defines "S \<equiv> sort_key f rows"
  shows "sort_key f (filter (\<lambda>r. f r < f (S ! i)) rows) = take i S"
proof -
  have "sort_key f (filter (\<lambda>r. f r < f (S ! i)) rows) = filter (\<lambda>r. f r < f (S ! i)) S"
    unfolding S_def by (rule filter_sort [symmetric])
  also have "\<dots> = take i S"
  proof (rule filter_sorted_prefix)
    show "sorted (map f S)" by (simp add: S_def)
    have "mset (map f S) = mset (map f rows)" by (simp add: S_def)
    then show "distinct (map f S)" using assms(1) mset_eq_imp_distinct_iff by blast
    show "i < length S" using assms(2) by (simp add: S_def)
  qed
  finally show ?thesis .
qed

locale cursor_paging =
  fixes stamp key :: "'r \<Rightarrow> string" and wf :: "'r \<Rightarrow> bool"
  assumes wf_stamp: "wf r \<Longrightarrow> cursor_text (stamp r)"
    and wf_key: "wf r \<Longrightarrow> cursor_text (key r)"
begin

definition listing :: "'r list \<Rightarrow> 'r list" where
  "listing rows = page_rows stamp key [] [] rows"

lemma page_after:
  assumes "distinct (map (\<lambda>r. (stamp r, key r)) rows)" "\<forall>r\<in>set rows. wf r" "i < length rows"
  defines "r \<equiv> listing rows ! i"
  shows "page_rows stamp key (stamp r) (key r) rows = drop (Suc i) (listing rows)"
proof -
  let ?f = "\<lambda>r. (stamp r, key r)"
  let ?S = "sort_key ?f rows"
  have l: "listing rows = rev ?S" by (simp add: listing_def page_rows_def)
  have r: "r = ?S ! (length rows - Suc i)" using assms(3) by (simp add: r_def l rev_nth)
  have "r \<in> set rows" using assms(3) nth_mem[of "length rows - Suc i" ?S] by (simp add: r)
  then have "stamp r \<noteq> []" using assms(2) wf_stamp by (auto simp: cursor_text_def)
  then have "page_rows stamp key (stamp r) (key r) rows = rev (sort_key ?f (filter (\<lambda>x. ?f x < ?f r) rows))"
    by (simp add: page_rows_def less_prod_def')
  also have "\<dots> = rev (take (length rows - Suc i) ?S)"
    using sort_key_filter_before[OF assms(1), of "length rows - Suc i"] assms(3) by (simp add: r)
  also have "\<dots> = drop (Suc i) (listing rows)" using assms(3) by (simp add: l rev_take)
  finally show ?thesis .
qed

lemma cut_page_next:
  assumes "\<forall>r\<in>set rs. wf r" "0 < limit" "limit < length rs"
  shows "cut_page stamp key limit rs =
    \<lparr>pg_items = take limit rs, pg_next = encode_cursor (stamp (rs ! (limit - 1))) (key (rs ! (limit - 1)))\<rparr>"
  using assms by (simp add: cut_page_def Let_def min_def)

lemma cut_page_last: "length rs \<le> limit \<Longrightarrow> cut_page stamp key limit rs = \<lparr>pg_items = rs, pg_next = []\<rparr>"
  by (simp add: cut_page_def)

text \<open>Following the cursors hands out the rest of the listing.\<close>

lemma follow_rest:
  assumes "distinct (map (\<lambda>r. (stamp r, key r)) rows)" "\<forall>r\<in>set rows. wf r"
    and "decode_cursor c = Some (a, b)" "page_rows stamp key a b rows = drop m (listing rows)"
    and "length rows - m < n"
  shows "follow (\<lambda>c. list_page stamp key c limit rows) n c = Some (drop m (listing rows))"
  using assms(3-)
proof (induction n arbitrary: m c a b)
  case (Suc n)
  let ?k = "normalize_page_size limit" and ?rs = "drop m (listing rows)"
  have len: "length (listing rows) = length rows" by (simp add: listing_def page_rows_def)
  have set: "set (listing rows) = set rows" by (simp add: listing_def page_rows_def)
  have page: "list_page stamp key c limit rows = Some (cut_page stamp key ?k ?rs)"
    using Suc.prems by (simp add: list_page_def)
  show ?case
  proof (cases "?k < length ?rs")
    case False
    then show ?thesis by (simp add: page cut_page_last)
  next
    case True
    let ?r = "?rs ! (?k - 1)"
    have i: "m + (?k - 1) < length rows" using True len page_size_pos[of limit] by simp
    have r: "?r = listing rows ! (m + (?k - 1))" using i len by simp
    have "?r \<in> set rows" unfolding r using i len set nth_mem by metis
    then have cur: "encode_cursor (stamp ?r) (key ?r) \<noteq> []"
      "decode_cursor (encode_cursor (stamp ?r) (key ?r)) = Some (stamp ?r, key ?r)"
      using cursor_round_trip wf_stamp wf_key assms(2) by blast+
    have nxt: "page_rows stamp key (stamp ?r) (key ?r) rows = drop (m + ?k) (listing rows)"
      unfolding r using page_after[OF assms(1,2) i] page_size_pos[of limit] by simp
    have "\<forall>r\<in>set ?rs. wf r" using assms(2) set by (auto dest: in_set_dropD)
    then have cut: "cut_page stamp key ?k ?rs =
        \<lparr>pg_items = take ?k ?rs, pg_next = encode_cursor (stamp ?r) (key ?r)\<rparr>"
      using cut_page_next True page_size_pos by blast
    have "follow (\<lambda>c. list_page stamp key c limit rows) n (encode_cursor (stamp ?r) (key ?r)) =
        Some (drop (m + ?k) (listing rows))"
      using Suc.IH[OF cur(2) nxt] Suc.prems(3) page_size_pos[of limit] i by simp
    then show ?thesis
      using cur(1) by (simp add: page cut) (metis add.commute append_take_drop_id drop_drop)
  qed
qed simp

lemma follow_all:
  assumes "distinct (map (\<lambda>r. (stamp r, key r)) rows)" "\<forall>r\<in>set rows. wf r"
  shows "follow (\<lambda>c. list_page stamp key c limit rows) (Suc (length rows)) [] = Some (listing rows)"
  using follow_rest[OF assms, of "[]" "[]" "[]" 0 "Suc (length rows)" limit] by (simp add: listing_def del: follow.simps)

lemma listing_rows: "set (listing rows) = set rows" "sorted (rev (map (\<lambda>r. (stamp r, key r)) (listing rows)))"
  by (simp_all add: listing_def page_rows_def rev_map)

end

end
