(* ===== verification/PaymentOrders.thy ===== *)
theory PaymentOrders
  imports Gate Paging
begin

text \<open>
  internal/storage/payment_orders.go: the payment orders and the leases of their provider operations.
  \<open>reserve_payment_order\<close> deduplicates an intent by (channel, idempotency key); \<open>claim\<close>, \<open>renew\<close> and
  \<open>complete\<close> hand the 30-second lease of one provider operation to one token.  The retry loop of
  Reserve runs over the list of random draws (identifier, number): the loop ends only by success or by
  the cancellation of its context, which is the end of the list.  \<open>UPDATE .. SET id=id\<close>, which only
  takes SQLite's writer lock, changes nothing.
\<close>

section \<open>Operations\<close>

definition payment_operation_lease :: int where "payment_operation_lease = 30 * second"

record order_intent =
  oi_channel :: string
  oi_key :: string
  oi_hash :: string
  oi_amount :: int
  oi_origin :: string

record order_update =
  ou_status :: string
  ou_link :: string
  ou_qr :: string
  ou_checkout :: string
  ou_bin :: string
  ou_account :: string
  ou_account_name :: string
  ou_error :: string
  ou_next :: instant
  ou_attempts :: int
  ou_reset :: bool
  ou_qr_recovery :: bool

definition payment_order :: "string \<Rightarrow> db \<Rightarrow> err + order" where
  "payment_order i s = (case find (\<lambda>r. o_id r = i) (db_orders s) of None \<Rightarrow> Inl ErrNoRows | Some r \<Rightarrow> Inr r)"

definition payment_order_by_code :: "int \<Rightarrow> db \<Rightarrow> err + order" where
  "payment_order_by_code c s = (case find (\<lambda>r. o_code r = c) (db_orders s) of None \<Rightarrow> Inl ErrNoRows | Some r \<Rightarrow> Inr r)"

definition payment_order_by_key :: "string \<Rightarrow> string \<Rightarrow> db \<Rightarrow> err + order" where
  "payment_order_by_key ch k s =
     (case find (\<lambda>r. o_channel r = ch \<and> o_key r = k) (db_orders s) of None \<Rightarrow> Inl ErrNoRows | Some r \<Rightarrow> Inr r)"

definition random_payment_token :: "string \<Rightarrow> string" where
  "random_payment_token draw = b64_encode draw"

definition random_payment_order_code :: "int \<Rightarrow> int" where
  "random_payment_order_code n = n mod 900000000000 + 100000000000"

definition valid_payment_status :: "string \<Rightarrow> bool" where
  "valid_payment_status st \<longleftrightarrow> st \<in> {''CREATING'', ''PENDING'', ''PROCESSING'', ''UNDERPAID'', ''PAID'',
     ''CANCELLED'', ''EXPIRED'', ''FAILED''}"

definition valid_intent :: "order_intent \<Rightarrow> bool" where
  "valid_intent inp \<longleftrightarrow> oi_channel inp \<noteq> [] \<and> oi_key inp \<noteq> [] \<and> oi_hash inp \<noteq> [] \<and> 0 < oi_amount inp \<and>
     (oi_origin inp = ''STATIC_URL'' \<or> oi_origin inp = ''OPERATOR_DYNAMIC'')"

definition new_order :: "env \<Rightarrow> string \<Rightarrow> order_intent \<Rightarrow> string \<Rightarrow> int \<Rightarrow> order" where
  "new_order e token inp i code =
     (let stamp = fmt_nano (e_now e); lease = fmt_nano (e_now e + payment_operation_lease) in
      \<lparr>o_id = i, o_code = code, o_channel = oi_channel inp, o_key = oi_key inp, o_hash = oi_hash inp,
       o_amount = oi_amount inp, o_description = ''DH'' @ int_text code, o_origin = oi_origin inp,
       o_status = ''CREATING'', o_link = [], o_qr = [], o_checkout = [], o_bin = [], o_account = [],
       o_account_name = [], o_transaction = [], o_error = [], o_next = lease, o_attempts = 0,
       o_token = token, o_lease = lease, o_qr_recovery = False, o_created = stamp, o_updated = stamp,
       o_expires = fmt_nano (e_now e + 30 * 60 * second), o_paid_at = []\<rparr>)"

fun reserve_loop :: "env \<Rightarrow> string \<Rightarrow> order_intent \<Rightarrow> (string \<times> int) list \<Rightarrow> order list \<Rightarrow> err + order" where
  "reserve_loop e token inp [] rows = Inl ErrCancelled"
| "reserve_loop e token inp ((draw, n) # ds) rows =
     (let i = random_payment_token draw; code = random_payment_order_code n in
      if \<exists>r\<in>set rows. o_id r = i \<or> o_code r = code \<or> o_channel r = oi_channel inp \<and> o_key r = oi_key inp
      then reserve_loop e token inp ds rows
      else Inr (new_order e token inp i code))"

definition reserve_payment_order_tx ::
  "env \<Rightarrow> (string \<times> int) list \<Rightarrow> order_intent \<Rightarrow> db \<Rightarrow> err + ((order \<times> bool) \<times> db)" where
  "reserve_payment_order_tx e draws inp s =
     (case payment_order_by_key (oi_channel inp) (oi_key inp) s of
        Inr r \<Rightarrow>
          if o_hash r \<noteq> oi_hash inp \<or> o_amount r \<noteq> oi_amount inp \<or> o_origin r \<noteq> oi_origin inp
          then Inl ErrPaymentIdempotencyConflict
          else Inr ((r, False), s)
      | Inl _ \<Rightarrow>
          bnd (check_mutation_allowed e s) (\<lambda>_.
          bnd (reserve_loop e (random_payment_token (e_id e 0)) inp draws (db_orders s)) (\<lambda>r.
          Inr ((r, True), s\<lparr>db_orders := db_orders s @ [r]\<rparr>))))"

definition reserve_payment_order ::
  "env \<Rightarrow> (string \<times> int) list \<Rightarrow> order_intent \<Rightarrow> db \<Rightarrow> (err + (order \<times> bool)) \<times> db" where
  "reserve_payment_order e draws inp s =
     (if \<not> valid_intent inp then (Inl ErrInvalidPaymentOrder, s)
      else run_tx (reserve_payment_order_tx e draws inp) s)"

text \<open>The time of the next reconciliation is never before the end of the lease.\<close>

definition next_after_lease :: "order \<Rightarrow> instant \<Rightarrow> err + string" where
  "next_after_lease r lease =
     (if o_next r = [] then Inr (fmt_nano lease)
      else case parse_nano (o_next r) of
        None \<Rightarrow> Inl ErrParse
      | Some due \<Rightarrow> Inr (if lease < due then o_next r else fmt_nano lease))"

definition live_lease :: "instant \<Rightarrow> order \<Rightarrow> err + bool" where
  "live_lease t r =
     (if o_token r = [] then Inr False
      else case parse_nano (o_lease r) of None \<Rightarrow> Inl ErrParse | Some until \<Rightarrow> Inr (t < until))"

definition claim_payment_order_tx :: "env \<Rightarrow> string \<Rightarrow> instant \<Rightarrow> db \<Rightarrow> err + ((order \<times> bool) \<times> db)" where
  "claim_payment_order_tx e i t s =
     bnd (payment_order i s) (\<lambda>r.
     if o_status r = ''PAID'' then Inr ((r, False), s)
     else bnd (live_lease t r) (\<lambda>live.
     if live then Inr ((r, False), s)
     else bnd (check_mutation_allowed e s) (\<lambda>_.
     bnd (next_after_lease r (t + payment_operation_lease)) (\<lambda>nxt.
     let p = (\<lambda>x. o_id x = i \<and> o_status x \<noteq> ''PAID'' \<and> o_token x = o_token r);
         s' = s\<lparr>db_orders := update_where p
           (\<lambda>x. x\<lparr>o_token := random_payment_token (e_id e 0), o_lease := fmt_nano (t + payment_operation_lease),
                  o_updated := fmt_nano t, o_next := nxt\<rparr>) (db_orders s)\<rparr>
     in bnd (payment_order i s') (\<lambda>r'. Inr ((r', count_where p (db_orders s) = 1), s'))))))"

definition claim_payment_order :: "env \<Rightarrow> string \<Rightarrow> instant \<Rightarrow> db \<Rightarrow> (err + (order \<times> bool)) \<times> db" where
  "claim_payment_order e i t = run_tx (claim_payment_order_tx e i (if t = zero_time then e_now e else t))"

definition order_held_by :: "string \<Rightarrow> string \<Rightarrow> db \<Rightarrow> order option" where
  "order_held_by i token s = find (\<lambda>r. o_id r = i \<and> o_token r = token) (db_orders s)"

definition renew_payment_order_operation_tx :: "env \<Rightarrow> string \<Rightarrow> string \<Rightarrow> bool \<Rightarrow> db \<Rightarrow> err + (order \<times> db)" where
  "renew_payment_order_operation_tx e i token attempted s =
     (case order_held_by i token s of
        None \<Rightarrow> Inl ErrPaymentOperationLost
      | Some r \<Rightarrow>
          if o_status r = ''PAID'' then Inl ErrPaymentOperationLost
          else bnd (check_mutation_allowed e s) (\<lambda>_.
          bnd (next_after_lease r (e_now e + payment_operation_lease)) (\<lambda>nxt.
          let p = (\<lambda>x. o_id x = i \<and> o_token x = token \<and> o_status x \<noteq> ''PAID'');
              s' = s\<lparr>db_orders := update_where p
                (\<lambda>x. x\<lparr>o_lease := fmt_nano (e_now e + payment_operation_lease), o_next := nxt,
                       o_qr_recovery := o_qr_recovery x \<or> attempted, o_updated := fmt_nano (e_now e)\<rparr>) (db_orders s)\<rparr>
          in if count_where p (db_orders s) \<noteq> 1 then Inl ErrPaymentOperationLost
             else bnd (payment_order i s') (\<lambda>r'. Inr (r', s')))))"

definition renew_payment_order_operation :: "env \<Rightarrow> string \<Rightarrow> string \<Rightarrow> bool \<Rightarrow> db \<Rightarrow> (err + order) \<times> db" where
  "renew_payment_order_operation e i token attempted s =
     (if token = [] then (Inl ErrPaymentOperationLost, s)
      else run_tx (renew_payment_order_operation_tx e i token attempted) s)"

text \<open>\<open>COALESCE(column, NULLIF(?, ''))\<close>: the first binding stays.\<close>

definition keep_bound :: "string \<Rightarrow> string \<Rightarrow> string" where
  "keep_bound old new = (if old = [] then new else old)"

definition completed_order :: "env \<Rightarrow> order_update \<Rightarrow> string \<Rightarrow> order \<Rightarrow> order" where
  "completed_order e u nxt x = x\<lparr>
     o_status := (if o_status x = ''PAID'' \<or> ou_status u = [] then o_status x else ou_status u),
     o_link := keep_bound (o_link x) (ou_link u), o_qr := keep_bound (o_qr x) (ou_qr u),
     o_checkout := keep_bound (o_checkout x) (ou_checkout u), o_bin := keep_bound (o_bin x) (ou_bin u),
     o_account := keep_bound (o_account x) (ou_account u),
     o_account_name := keep_bound (o_account_name x) (ou_account_name u),
     o_error := (if o_status x = ''PAID'' then o_error x else ou_error u),
     o_next := (if o_status x = ''PAID'' then [] else nxt),
     o_attempts := (if ou_reset u then 0 else max (o_attempts x) (ou_attempts u)),
     o_qr_recovery := o_qr_recovery x \<or> ou_qr_recovery u,
     o_token := [], o_lease := [], o_updated := fmt_nano (e_now e)\<rparr>"

definition link_clash :: "order list \<Rightarrow> bool" where
  "link_clash rows \<longleftrightarrow> \<not> distinct (filter (\<lambda>l. l \<noteq> []) (map o_link rows))"

definition complete_next :: "order \<Rightarrow> order_update \<Rightarrow> err + string" where
  "complete_next r u =
     (let status = (if ou_status u = [] then o_status r else ou_status u);
          nxt = (if ou_next u = zero_time then [] else fmt_nano (ou_next u))
      in if status = ''CREATING'' \<or> status = ''PROCESSING''
         then (case parse_nano (o_lease r) of
             None \<Rightarrow> Inl ErrParse
           | Some lease \<Rightarrow> Inr (if ou_next u = zero_time \<or> ou_next u < lease then o_lease r else nxt))
         else Inr nxt)"

definition complete_payment_order_operation_tx ::
  "env \<Rightarrow> string \<Rightarrow> string \<Rightarrow> order_update \<Rightarrow> db \<Rightarrow> err + (order \<times> db)" where
  "complete_payment_order_operation_tx e i token u s =
     (case order_held_by i token s of
        None \<Rightarrow> Inl ErrPaymentOperationLost
      | Some r \<Rightarrow>
          bnd (complete_next r u) (\<lambda>nxt.
          let p = (\<lambda>x. o_id x = i \<and> o_token x = token);
              s' = s\<lparr>db_orders := update_where p (completed_order e u nxt) (db_orders s)\<rparr>
          in if link_clash (db_orders s') then Inl ErrConstraint
             else if count_where p (db_orders s) \<noteq> 1 then Inl ErrPaymentOperationLost
             else bnd (check_mutation_allowed e s') (\<lambda>_.
                  bnd (payment_order i s') (\<lambda>r'. Inr (r', s')))))"

definition complete_payment_order_operation ::
  "env \<Rightarrow> string \<Rightarrow> string \<Rightarrow> order_update \<Rightarrow> db \<Rightarrow> (err + order) \<times> db" where
  "complete_payment_order_operation e i token u s =
     (if token = [] then (Inl ErrPaymentOperationLost, s)
      else if (ou_status u \<noteq> [] \<and> (\<not> valid_payment_status (ou_status u) \<or> ou_status u = ''PAID'')) \<or> ou_attempts u < 0
      then (Inl ErrInvalidPaymentOrder, s)
      else run_tx (complete_payment_order_operation_tx e i token u) s)"

record order_filter =
  of_channel :: string
  of_status :: string
  of_cursor :: string
  of_limit :: int

definition matching_orders :: "order_filter \<Rightarrow> db \<Rightarrow> order list" where
  "matching_orders f s = filter (\<lambda>r. (of_channel f = [] \<or> o_channel r = of_channel f) \<and>
     (of_status f = [] \<or> o_status r = of_status f)) (db_orders s)"

definition list_payment_orders :: "order_filter \<Rightarrow> db \<Rightarrow> err + order page" where
  "list_payment_orders f s =
     (case decode_cursor (of_cursor f) of
        None \<Rightarrow> Inl (ErrText ''invalid pagination cursor'')
      | Some _ \<Rightarrow>
          if of_status f \<noteq> [] \<and> \<not> valid_payment_status (of_status f) then Inl ErrInvalidPaymentOrder
          else case list_page o_created o_id (of_cursor f) (of_limit f) (matching_orders f s) of
            None \<Rightarrow> Inl (ErrText ''invalid pagination cursor'')
          | Some p \<Rightarrow> Inr p)"

text \<open>
  \<open>DuePaymentOrders\<close>: the query compares through SQLite's \<open>julianday\<close> (\<open>jd\<close>, \<open>None\<close> being NULL) and
  limits the rows, then the loop drops the rows whose exact times are not due.
\<close>

definition jd_le :: "(string \<Rightarrow> int option) \<Rightarrow> string \<Rightarrow> string \<Rightarrow> bool" where
  "jd_le jd a b = (case (jd a, jd b) of (Some x, Some y) \<Rightarrow> x \<le> y | _ \<Rightarrow> False)"

fun keep_due :: "instant \<Rightarrow> order list \<Rightarrow> err + order list" where
  "keep_due t [] = Inr []"
| "keep_due t (r # rs) = (case parse_nano (o_next r) of
     None \<Rightarrow> Inl ErrParse
   | Some due \<Rightarrow> if t < due then keep_due t rs
       else bnd (live_lease t r) (\<lambda>live. bnd (keep_due t rs) (\<lambda>rest. Inr (if live then rest else r # rest))))"

definition due_payment_orders ::
  "env \<Rightarrow> (string \<Rightarrow> int option) \<Rightarrow> string \<Rightarrow> instant \<Rightarrow> int \<Rightarrow> db \<Rightarrow> err + order list" where
  "due_payment_orders e jd channel t limit s =
     (let t' = (if t = zero_time then e_now e else t);
          lim = (if limit \<le> 0 \<or> limit > 20 then 20 else nat limit);
          stamp = fmt_nano t'
      in keep_due t' (take lim (sort_key (\<lambda>r. (o_next r, o_id r))
           (filter (\<lambda>r. o_channel r = channel \<and> o_status r \<noteq> ''PAID'' \<and> o_next r \<noteq> [] \<and> jd_le jd (o_next r) stamp \<and>
             (o_token r = [] \<or> jd_le jd (o_lease r) stamp)) (db_orders s)))))"

section \<open>The invariant of the table\<close>

definition stamp_text :: "string \<Rightarrow> bool" where
  "stamp_text x \<longleftrightarrow> (case parse_nano x of None \<Rightarrow> False | Some t \<Rightarrow> in_range t \<and> fmt_nano t = x)"

lemma stamp_now: "in_range t \<Longrightarrow> stamp_text (fmt_nano t)"
  by (simp add: stamp_text_def parse_fmt_nano)

lemma stamp_parse: "stamp_text x \<Longrightarrow> \<exists>t. parse_nano x = Some t \<and> in_range t \<and> x = fmt_nano t"
  by (auto simp: stamp_text_def split: option.splits)

definition clock_ok :: "instant \<Rightarrow> bool" where
  "clock_ok t \<longleftrightarrow> 0 \<le> t \<and> t div second + 86400 < 253402300800"

lemma clock_in_range:
  assumes "clock_ok t" "0 \<le> d" "d \<le> 86400 * second"
  shows "in_range (t + d)"
proof -
  have "(t + d) div second \<le> (t + 86400 * second) div second" using assms by (intro zdiv_mono1) auto
  also have "\<dots> = t div second + 86400" by simp
  finally have "(t + d) div second \<le> t div second + 86400" .
  moreover have "0 div second \<le> (t + d) div second" using assms by (intro zdiv_mono1) (auto simp: clock_ok_def)
  ultimately show ?thesis using assms(1) by (simp add: in_range_def secs_range_def clock_ok_def)
qed

lemma clock_in_range0: "clock_ok t \<Longrightarrow> in_range t"
  using clock_in_range[of t 0] by simp

lemma parse_lease: "clock_ok t \<Longrightarrow> parse_nano (fmt_nano (t + payment_operation_lease)) = Some (t + payment_operation_lease)"
  by (intro parse_fmt_nano clock_in_range) (simp_all add: payment_operation_lease_def)

lemma stamp_lease: "clock_ok t \<Longrightarrow> stamp_text (fmt_nano (t + payment_operation_lease))"
  by (intro stamp_now clock_in_range) (simp_all add: payment_operation_lease_def)

definition order_wf :: "order \<Rightarrow> bool" where
  "order_wf r \<longleftrightarrow>
     100000000000 \<le> o_code r \<and> o_code r < 1000000000000 \<and> 0 < o_amount r \<and>
     o_description r = ''DH'' @ int_text (o_code r) \<and> valid_payment_status (o_status r) \<and>
     (o_status r = ''PAID'' \<longleftrightarrow> o_transaction r \<noteq> []) \<and>
     (o_status r = ''PAID'' \<longrightarrow> o_next r = [] \<and> o_link r \<noteq> [] \<and> o_account r \<noteq> [] \<and> o_paid_at r \<noteq> []) \<and>
     (o_token r \<noteq> [] \<longrightarrow> o_lease r \<noteq> []) \<and> (o_lease r \<noteq> [] \<longrightarrow> stamp_text (o_lease r)) \<and> (o_next r \<noteq> [] \<longrightarrow> stamp_text (o_next r)) \<and>
     0 \<le> o_attempts r \<and> cursor_text (o_id r) \<and> cursor_text (o_created r)"

definition transaction_clash :: "order list \<Rightarrow> bool" where
  "transaction_clash rows \<longleftrightarrow> \<not> distinct (filter (\<lambda>x. x \<noteq> []) (map o_transaction rows))"

definition orders_inv :: "order list \<Rightarrow> bool" where
  "orders_inv rows \<longleftrightarrow> list_all order_wf rows \<and> distinct (map o_id rows) \<and> distinct (map o_code rows) \<and>
     distinct (map (\<lambda>r. (o_channel r, o_key r)) rows) \<and> \<not> link_clash rows \<and> \<not> transaction_clash rows"

lemma orders_inv_wf: "orders_inv rows \<Longrightarrow> r \<in> set rows \<Longrightarrow> order_wf r"
  by (simp add: orders_inv_def list_all_iff)

lemma payment_order_in: "payment_order i s = Inr r \<Longrightarrow> r \<in> set (db_orders s) \<and> o_id r = i"
  unfolding payment_order_def using find_Some_iff2[of "\<lambda>r. o_id r = i" "db_orders s" r] by (simp split: option.splits)

lemma payment_order_by_code_in: "payment_order_by_code c s = Inr r \<Longrightarrow> r \<in> set (db_orders s) \<and> o_code r = c"
  unfolding payment_order_by_code_def using find_Some_iff2[of "\<lambda>r. o_code r = c" "db_orders s" r] by (simp split: option.splits)

lemma order_held_in: "order_held_by i token s = Some r \<Longrightarrow> r \<in> set (db_orders s) \<and> o_id r = i \<and> o_token r = token"
  unfolding order_held_by_def by (rule find_Some_iff2)

lemma payment_order_wf: "orders_inv (db_orders s) \<Longrightarrow> payment_order i s = Inr r \<Longrightarrow> order_wf r"
  using payment_order_in orders_inv_wf by blast

lemma order_held_wf: "orders_inv (db_orders s) \<Longrightarrow> order_held_by i token s = Some r \<Longrightarrow> order_wf r"
  using order_held_in orders_inv_wf by blast

text \<open>An update that keeps the keys keeps the invariant.\<close>

lemma orders_inv_update:
  assumes "orders_inv rows"
    and "\<And>r. p r \<Longrightarrow> o_id (f r) = o_id r \<and> o_code (f r) = o_code r \<and> o_channel (f r) = o_channel r \<and>
      o_key (f r) = o_key r \<and> o_transaction (f r) = o_transaction r"
    and "\<And>r. r \<in> set rows \<Longrightarrow> p r \<Longrightarrow> order_wf r \<Longrightarrow> order_wf (f r)"
    and "\<not> link_clash (update_where p f rows)"
  shows "orders_inv (update_where p f rows)"
proof -
  have "map o_id (update_where p f rows) = map o_id rows" "map o_code (update_where p f rows) = map o_code rows"
    "map (\<lambda>r. (o_channel r, o_key r)) (update_where p f rows) = map (\<lambda>r. (o_channel r, o_key r)) rows"
    "map o_transaction (update_where p f rows) = map o_transaction rows"
    using assms(2) by (auto intro!: map_update_where)
  moreover have "list_all order_wf (update_where p f rows)"
    using assms(1,3) by (auto simp: list_all_iff orders_inv_def set_update_where)
  ultimately show ?thesis
    using assms(1,4) by (simp add: orders_inv_def transaction_clash_def)
qed

lemma link_clash_update:
  "(\<And>r. p r \<Longrightarrow> o_link (f r) = o_link r) \<Longrightarrow> link_clash (update_where p f rows) = link_clash rows"
  by (simp add: link_clash_def map_update_where)

lemma orders_inv_update_same_link:
  assumes "orders_inv rows"
    and "\<And>r. p r \<Longrightarrow> o_id (f r) = o_id r \<and> o_code (f r) = o_code r \<and> o_channel (f r) = o_channel r \<and>
      o_key (f r) = o_key r \<and> o_transaction (f r) = o_transaction r \<and> o_link (f r) = o_link r"
    and "\<And>r. r \<in> set rows \<Longrightarrow> p r \<Longrightarrow> order_wf r \<Longrightarrow> order_wf (f r)"
  shows "orders_inv (update_where p f rows)"
  using assms by (intro orders_inv_update) (auto simp: link_clash_update orders_inv_def)

section \<open>What no operation changes\<close>

text \<open>
  The intent of an order is immutable, a binding stays once it is made, and a paid order stays paid by
  the same transaction.
\<close>

definition order_extends :: "order \<Rightarrow> order \<Rightarrow> bool" where
  "order_extends r r' \<longleftrightarrow>
     o_id r' = o_id r \<and> o_code r' = o_code r \<and> o_channel r' = o_channel r \<and> o_key r' = o_key r \<and>
     o_hash r' = o_hash r \<and> o_amount r' = o_amount r \<and> o_description r' = o_description r \<and>
     o_origin r' = o_origin r \<and> o_created r' = o_created r \<and> o_expires r' = o_expires r \<and>
     (o_link r \<noteq> [] \<longrightarrow> o_link r' = o_link r) \<and> (o_account r \<noteq> [] \<longrightarrow> o_account r' = o_account r) \<and>
     (o_qr r \<noteq> [] \<longrightarrow> o_qr r' = o_qr r) \<and> (o_checkout r \<noteq> [] \<longrightarrow> o_checkout r' = o_checkout r) \<and>
     (o_qr_recovery r \<longrightarrow> o_qr_recovery r') \<and>
     (o_status r = ''PAID'' \<longrightarrow> o_status r' = ''PAID'' \<and> o_transaction r' = o_transaction r \<and> o_paid_at r' = o_paid_at r)"

definition orders_extend :: "order list \<Rightarrow> order list \<Rightarrow> bool" where
  "orders_extend rows rows' \<longleftrightarrow> (\<forall>r\<in>set rows. \<exists>r'\<in>set rows'. order_extends r r')"

lemma order_extends_refl [simp]: "order_extends r r"
  by (simp add: order_extends_def)

lemma order_extends_trans: "order_extends a b \<Longrightarrow> order_extends b c \<Longrightarrow> order_extends a c"
  unfolding order_extends_def by auto

lemma orders_extend_refl [simp]: "orders_extend rows rows"
  by (auto simp: orders_extend_def intro: order_extends_refl)

lemma orders_extend_trans: "orders_extend a b \<Longrightarrow> orders_extend b c \<Longrightarrow> orders_extend a c"
  unfolding orders_extend_def by (meson order_extends_trans)

lemma orders_extend_update:
  "(\<And>r. r \<in> set rows \<Longrightarrow> p r \<Longrightarrow> order_extends r (f r)) \<Longrightarrow> orders_extend rows (update_where p f rows)"
  unfolding orders_extend_def set_update_where by (metis (mono_tags, lifting) UnI1 UnI2 image_eqI mem_Collect_eq order_extends_refl)

lemma orders_extend_append [simp]: "orders_extend rows (rows @ new)"
  by (auto simp: orders_extend_def intro: order_extends_refl)

section \<open>Every operation keeps the invariant and extends the orders\<close>

text \<open>No operation of this file pays an order.\<close>

definition paid_before :: "order list \<Rightarrow> order list \<Rightarrow> bool" where
  "paid_before rows rows' \<longleftrightarrow>
     (\<forall>r'\<in>set rows'. o_status r' = ''PAID'' \<longrightarrow> (\<exists>r\<in>set rows. o_id r = o_id r' \<and> o_status r = ''PAID''))"

definition orders_step :: "db \<Rightarrow> db \<Rightarrow> bool" where
  "orders_step s s' \<longleftrightarrow> orders_inv (db_orders s') \<and> orders_extend (db_orders s) (db_orders s') \<and>
     paid_before (db_orders s) (db_orders s')"

lemma paid_before_refl [simp]: "paid_before rows rows"
  by (auto simp: paid_before_def)

lemma paid_before_update:
  "(\<And>r. p r \<Longrightarrow> o_id (f r) = o_id r \<and> (o_status (f r) = ''PAID'' \<longrightarrow> o_status r = ''PAID'')) \<Longrightarrow>
    paid_before rows (update_where p f rows)"
  unfolding paid_before_def set_update_where by fastforce

lemma paid_before_append: "o_status r \<noteq> ''PAID'' \<Longrightarrow> paid_before rows (rows @ [r])"
  by (auto simp: paid_before_def)

lemma orders_step_refl: "orders_inv (db_orders s) \<Longrightarrow> orders_step s s"
  by (simp add: orders_step_def)

lemma orders_step_update:
  assumes "orders_inv (db_orders s)" "db_orders s' = update_where p f (db_orders s)"
    and "\<And>r. p r \<Longrightarrow> o_id (f r) = o_id r \<and> o_code (f r) = o_code r \<and> o_channel (f r) = o_channel r \<and>
      o_key (f r) = o_key r \<and> o_transaction (f r) = o_transaction r \<and> o_link (f r) = o_link r \<and>
      (o_status (f r) = ''PAID'' \<longrightarrow> o_status r = ''PAID'')"
    and "\<And>r. r \<in> set (db_orders s) \<Longrightarrow> p r \<Longrightarrow> order_wf r \<Longrightarrow> order_wf (f r) \<and> order_extends r (f r)"
  shows "orders_step s s'"
  unfolding orders_step_def assms(2)
  using assms(1,3,4) orders_inv_wf[OF assms(1)]
  by (intro conjI orders_inv_update_same_link orders_extend_update paid_before_update) auto

lemma reserve_loop_new:
  assumes "reserve_loop e token inp ds rows = Inr r" "\<forall>d\<in>set ds. fst d \<noteq> []"
  shows "\<exists>i code. r = new_order e token inp i code \<and> cursor_text i \<and> 100000000000 \<le> code \<and> code < 1000000000000 \<and>
    (\<forall>x\<in>set rows. o_id x \<noteq> i \<and> o_code x \<noteq> code \<and> \<not> (o_channel x = oi_channel inp \<and> o_key x = oi_key inp))"
  using assms
proof (induction e token inp ds rows rule: reserve_loop.induct)
  case (2 e token inp draw n ds rows)
  let ?i = "random_payment_token draw" and ?code = "random_payment_order_code n"
  have c: "100000000000 \<le> ?code \<and> ?code < 1000000000000 \<and> cursor_text ?i"
    using 2(3) by (simp add: random_payment_order_code_def pos_mod_bound random_payment_token_def cursor_text_def)
  show ?case
  proof (cases "\<exists>r\<in>set rows. o_id r = ?i \<or> o_code r = ?code \<or> o_channel r = oi_channel inp \<and> o_key r = oi_key inp")
    case True
    with 2 show ?thesis by (simp add: Let_def)
  next
    case False
    with 2 c show ?thesis by (intro exI[of _ ?i] exI[of _ ?code]) (simp add: Let_def)
  qed
qed simp

lemma new_order_wf:
  assumes "clock_ok (e_now e)" "valid_intent inp" "100000000000 \<le> code" "code < 1000000000000" "cursor_text i"
  shows "order_wf (new_order e token inp i code)"
  using assms by (simp add: order_wf_def new_order_def Let_def valid_intent_def valid_payment_status_def stamp_lease cursor_text_def)

lemma orders_inv_append:
  assumes "orders_inv rows" "order_wf r" "o_link r = []" "o_transaction r = []"
    and "\<forall>x\<in>set rows. o_id x \<noteq> o_id r \<and> o_code x \<noteq> o_code r \<and> \<not> (o_channel x = o_channel r \<and> o_key x = o_key r)"
  shows "orders_inv (rows @ [r])"
  using assms by (auto simp: orders_inv_def link_clash_def transaction_clash_def image_iff)

lemma reserve_step:
  assumes "clock_ok (e_now e)" "orders_inv (db_orders s)" "\<forall>d\<in>set draws. fst d \<noteq> []"
  shows "orders_step s (snd (reserve_payment_order e draws inp s))"
proof (cases "reserve_payment_order e draws inp s")
  case (Pair res s')
  show ?thesis
  proof (cases "s' = s")
    case False
    then obtain r where v: "valid_intent inp" and
      r: "reserve_loop e (random_payment_token (e_id e 0)) inp draws (db_orders s) = Inr r" and
      s': "s' = s\<lparr>db_orders := db_orders s @ [r]\<rparr>"
      using Pair by (auto simp: reserve_payment_order_def run_tx_def reserve_payment_order_tx_def bnd_Inr
          split: if_splits sum.splits)
    obtain i code where c: "r = new_order e (random_payment_token (e_id e 0)) inp i code"
        "cursor_text i" "100000000000 \<le> code" "code < 1000000000000"
        "\<forall>x\<in>set (db_orders s). o_id x \<noteq> i \<and> o_code x \<noteq> code \<and> \<not> (o_channel x = oi_channel inp \<and> o_key x = oi_key inp)"
      using reserve_loop_new[OF r assms(3)] by blast
    have "orders_inv (db_orders s @ [r])"
    proof (rule orders_inv_append[OF assms(2)])
      show "order_wf r" unfolding c(1) by (rule new_order_wf[OF assms(1) v c(3,4,2)])
    qed (use c in \<open>simp_all add: new_order_def Let_def\<close>)
    moreover have "o_status r \<noteq> ''PAID''" by (simp add: c(1) new_order_def Let_def)
    ultimately show ?thesis by (simp add: Pair s' orders_step_def paid_before_append)
  qed (simp add: Pair orders_step_refl[OF assms(2)])
qed

lemma next_after_lease_stamp:
  "next_after_lease r lease = Inr nxt \<Longrightarrow> order_wf r \<Longrightarrow> in_range lease \<Longrightarrow> stamp_text nxt \<and> nxt \<noteq> []"
  by (auto simp: next_after_lease_def order_wf_def stamp_now split: if_splits option.splits)

lemma claim_step:
  assumes "clock_ok (if t = zero_time then e_now e else t)" "orders_inv (db_orders s)"
  shows "orders_step s (snd (claim_payment_order e i t s))"
proof (cases "claim_payment_order e i t s")
  case (Pair res s')
  let ?t = "if t = zero_time then e_now e else t"
  have range: "in_range (?t + payment_operation_lease)"
    using assms(1) by (intro clock_in_range) (simp_all add: payment_operation_lease_def)
  show ?thesis
  proof (cases "s' = s")
    case False
    then obtain r nxt where r: "payment_order i s = Inr r" and
      n: "next_after_lease r (?t + payment_operation_lease) = Inr nxt" and
      s': "db_orders s' = update_where (\<lambda>x. o_id x = i \<and> o_status x \<noteq> ''PAID'' \<and> o_token x = o_token r)
        (\<lambda>x. x\<lparr>o_token := random_payment_token (e_id e 0), o_lease := fmt_nano (?t + payment_operation_lease),
               o_updated := fmt_nano ?t, o_next := nxt\<rparr>) (db_orders s)"
      using Pair unfolding claim_payment_order_def run_tx_def claim_payment_order_tx_def Let_def
      by (auto simp: bnd_Inr split: if_splits sum.splits prod.splits)
    have wf: "order_wf r" using assms(2) r by (rule payment_order_wf)
    show ?thesis
      unfolding Pair snd_conv
      by (rule orders_step_update[OF assms(2) s'])
        (use next_after_lease_stamp[OF n wf range] assms(1) in
          \<open>auto simp: order_wf_def order_extends_def stamp_lease\<close>)
  qed (simp add: Pair orders_step_refl[OF assms(2)])
qed

lemma renew_step:
  assumes "clock_ok (e_now e)" "orders_inv (db_orders s)"
  shows "orders_step s (snd (renew_payment_order_operation e i token attempted s))"
proof (cases "renew_payment_order_operation e i token attempted s")
  case (Pair res s')
  have range: "in_range (e_now e + payment_operation_lease)"
    using assms(1) by (intro clock_in_range) (simp_all add: payment_operation_lease_def)
  show ?thesis
  proof (cases "s' = s")
    case False
    then obtain r nxt where r: "order_held_by i token s = Some r" and
      n: "next_after_lease r (e_now e + payment_operation_lease) = Inr nxt" and
      s': "db_orders s' = update_where (\<lambda>x. o_id x = i \<and> o_token x = token \<and> o_status x \<noteq> ''PAID'')
        (\<lambda>x. x\<lparr>o_lease := fmt_nano (e_now e + payment_operation_lease), o_next := nxt,
               o_qr_recovery := o_qr_recovery x \<or> attempted, o_updated := fmt_nano (e_now e)\<rparr>) (db_orders s)"
      using Pair unfolding renew_payment_order_operation_def run_tx_def renew_payment_order_operation_tx_def Let_def
      by (auto simp: bnd_Inr split: if_splits sum.splits prod.splits option.splits)
    have wf: "order_wf r" using assms(2) r by (rule order_held_wf)
    show ?thesis
      unfolding Pair snd_conv
      by (rule orders_step_update[OF assms(2) s'])
        (use next_after_lease_stamp[OF n wf range] assms(1) in
          \<open>auto simp: order_wf_def order_extends_def stamp_lease\<close>)
  qed (simp add: Pair orders_step_refl[OF assms(2)])
qed

lemma complete_next_stamp:
  "complete_next r u = Inr nxt \<Longrightarrow> order_wf r \<Longrightarrow> ou_next u = zero_time \<or> in_range (ou_next u) \<Longrightarrow> nxt = [] \<or> stamp_text nxt"
  by (auto simp: complete_next_def Let_def order_wf_def stamp_now split: if_splits option.splits)

lemma completed_extends: "ou_status u \<noteq> ''PAID'' \<Longrightarrow> order_extends r (completed_order e u nxt r)"
  by (auto simp: order_extends_def completed_order_def keep_bound_def)

lemma completed_wf:
  assumes "order_wf r" "nxt = [] \<or> stamp_text nxt" "0 \<le> ou_attempts u"
    and "ou_status u = [] \<or> valid_payment_status (ou_status u) \<and> ou_status u \<noteq> ''PAID''"
  shows "order_wf (completed_order e u nxt r)"
  using assms by (auto simp: order_wf_def completed_order_def keep_bound_def)

lemma complete_step:
  assumes "ou_next u = zero_time \<or> in_range (ou_next u)" "orders_inv (db_orders s)"
  shows "orders_step s (snd (complete_payment_order_operation e i token u s))"
proof (cases "complete_payment_order_operation e i token u s")
  case (Pair res s')
  show ?thesis
  proof (cases "s' = s")
    case False
    then obtain r nxt where r: "order_held_by i token s = Some r" and n: "complete_next r u = Inr nxt" and
      u: "ou_status u = [] \<or> valid_payment_status (ou_status u) \<and> ou_status u \<noteq> ''PAID''" "0 \<le> ou_attempts u" and
      s': "db_orders s' = update_where (\<lambda>x. o_id x = i \<and> o_token x = token) (completed_order e u nxt) (db_orders s)"
        "\<not> link_clash (db_orders s')"
      using Pair unfolding complete_payment_order_operation_def run_tx_def
        complete_payment_order_operation_tx_def Let_def
      by (auto simp: bnd_Inr split: if_splits sum.splits prod.splits option.splits)
    have wf: "order_wf r" using assms(2) r by (rule order_held_wf)
    have "orders_inv (db_orders s')"
      unfolding s'(1)
    proof (rule orders_inv_update[OF assms(2)])
      show "\<not> link_clash (update_where (\<lambda>x. o_id x = i \<and> o_token x = token) (completed_order e u nxt) (db_orders s))"
        using s' by simp
    next
      fix r assume "order_wf r"
      then show "order_wf (completed_order e u nxt r)"
        using complete_next_stamp[OF n wf assms(1)] u(2,1) by (rule completed_wf)
    qed (simp add: completed_order_def)
    moreover have "orders_extend (db_orders s) (db_orders s')"
      unfolding s'(1) using u by (intro orders_extend_update completed_extends) (auto simp: valid_payment_status_def)
    moreover have "paid_before (db_orders s) (db_orders s')"
      unfolding s'(1) using u by (intro paid_before_update) (auto simp: completed_order_def valid_payment_status_def)
    ultimately show ?thesis by (simp add: Pair orders_step_def)
  qed (simp add: Pair orders_step_refl[OF assms(2)])
qed

section \<open>Properties\<close>

lemma payment_order_find: "payment_order i s = Inr r \<longleftrightarrow> find (\<lambda>x. o_id x = i) (db_orders s) = Some r"
  by (auto simp: payment_order_def split: option.splits)

lemma payment_order_row:
  "orders_inv (db_orders s) \<Longrightarrow> r \<in> set (db_orders s) \<Longrightarrow> payment_order (o_id r) s = Inr r"
  by (simp add: payment_order_find orders_inv_def find_key_unique[of o_id])

lemma order_by_key_row:
  "orders_inv (db_orders s) \<Longrightarrow> r \<in> set (db_orders s) \<Longrightarrow> payment_order_by_key (o_channel r) (o_key r) s = Inr r"
  using find_key_unique[of "\<lambda>r. (o_channel r, o_key r)" "db_orders s" r]
  by (simp add: payment_order_by_key_def orders_inv_def)

lemma payment_order_by_keyD:
  "payment_order_by_key ch k s = Inr r \<Longrightarrow> r \<in> set (db_orders s) \<and> o_channel r = ch \<and> o_key r = k"
  by (auto simp: payment_order_by_key_def find_Some_iff dest!: nth_mem split: option.splits)

lemma reserve_result:
  assumes "reserve_payment_order e draws inp s = (Inr (r, b), s')"
  shows "valid_intent inp \<and> r \<in> set (db_orders s') \<and> o_channel r = oi_channel inp \<and> o_key r = oi_key inp \<and>
    o_hash r = oi_hash inp \<and> o_amount r = oi_amount inp \<and> o_origin r = oi_origin inp"
proof -
  have *: "o_channel x = oi_channel inp \<and> o_key x = oi_key inp \<and> o_hash x = oi_hash inp \<and>
      o_amount x = oi_amount inp \<and> o_origin x = oi_origin inp"
    if "reserve_loop e token inp ds rows = Inr x" for token ds rows x
    using that
    by (induction e token inp ds rows rule: reserve_loop.induct)
      (auto simp: Let_def new_order_def split: if_splits)
  show ?thesis
    using assms
    by (auto simp: reserve_payment_order_def run_tx_Inr reserve_payment_order_tx_def bnd_Inr
        dest: payment_order_by_keyD * split: if_splits sum.splits)
qed

text \<open>
  C17.  Reserving an order is idempotent: once an intent has been accepted, submitting it again, at any
  later state of the orders and even when the deployment gate is closed, returns the same order, does
  not create another one and changes nothing; the same key with another amount, hash or origin is a
  conflict.
\<close>

theorem reserve_idempotent:
  assumes "reserve_payment_order e draws inp s = (Inr (r, created), s')"
    and "orders_extend (db_orders s') (db_orders s'')" and "orders_inv (db_orders s'')"
  shows "\<exists>r''. reserve_payment_order e' draws' inp s'' = (Inr (r'', False), s'') \<and> order_extends r r'' \<and>
    (\<forall>inp'. valid_intent inp' \<and> oi_channel inp' = oi_channel inp \<and> oi_key inp' = oi_key inp \<and>
        (oi_hash inp' \<noteq> oi_hash inp \<or> oi_amount inp' \<noteq> oi_amount inp \<or> oi_origin inp' \<noteq> oi_origin inp) \<longrightarrow>
      reserve_payment_order e' draws' inp' s'' = (Inl ErrPaymentIdempotencyConflict, s''))"
proof -
  note r = reserve_result[OF assms(1)]
  obtain r'' where r'': "r'' \<in> set (db_orders s'')" "order_extends r r''"
    using assms(2) r by (auto simp: orders_extend_def)
  then have "payment_order_by_key (oi_channel inp) (oi_key inp) s'' = Inr r''"
    using order_by_key_row[OF assms(3) r''(1)] r by (simp add: order_extends_def)
  then show ?thesis
    using r r''(2)
    by (intro exI[of _ r''])
      (auto simp: reserve_payment_order_def run_tx_Inr run_tx_Inl reserve_payment_order_tx_def order_extends_def)
qed

lemma claim_result:
  assumes "claim_payment_order e i t s = (Inr (r, True), s')" "orders_inv (db_orders s)"
  defines "t' \<equiv> if t = zero_time then e_now e else t"
  shows "r \<in> set (db_orders s') \<and> o_id r = i \<and> o_status r \<noteq> ''PAID'' \<and>
    o_token r = random_payment_token (e_id e 0) \<and> o_lease r = fmt_nano (t' + payment_operation_lease)"
proof -
  obtain r0 nxt where r0: "payment_order i s = Inr r0" "o_status r0 \<noteq> ''PAID''" and
    s': "db_orders s' = update_where (\<lambda>x. o_id x = i \<and> o_status x \<noteq> ''PAID'' \<and> o_token x = o_token r0)
      (\<lambda>x. x\<lparr>o_token := random_payment_token (e_id e 0), o_lease := fmt_nano (t' + payment_operation_lease),
             o_updated := fmt_nano t', o_next := nxt\<rparr>) (db_orders s)" and
    r: "payment_order i s' = Inr r"
    using assms(1) unfolding claim_payment_order_def run_tx_Inr claim_payment_order_tx_def Let_def t'_def
    by (auto simp: bnd_Inr split: if_splits)
  have ids: "map o_id (db_orders s') = map o_id (db_orders s)"
    unfolding s' by (rule map_update_where) simp
  from r have r': "r \<in> set (db_orders s')" "o_id r = i" by (auto simp: payment_order_find dest: find_Some_iff2)
  from r0 have r0': "r0 \<in> set (db_orders s)" "o_id r0 = i" by (auto simp: payment_order_find dest: find_Some_iff2)
  have "distinct (map o_id (db_orders s))" using assms(2) by (simp add: orders_inv_def)
  then have only: "x = r0" if "x \<in> set (db_orders s)" "o_id x = i" for x
    using r0' that distinct_key_eq by metis
  from r'(1)[unfolded s'] show ?thesis
  proof (cases rule: in_update_whereE)
    case same
    with only[OF same(1) r'(2)] r0(2) r0'(2) show ?thesis by simp
  next
    case (new x)
    with r0(2) r'(1) show ?thesis by simp
  qed
qed

lemma row_unique:
  "orders_inv rows \<Longrightarrow> x \<in> set rows \<Longrightarrow> y \<in> set rows \<Longrightarrow> o_id x = o_id y \<Longrightarrow> x = y"
  by (rule distinct_key_eq[of o_id rows]) (simp_all add: orders_inv_def)

lemma held_by_other:
  assumes "orders_inv (db_orders s)" "r \<in> set (db_orders s)" "token \<noteq> o_token r"
  shows "order_held_by (o_id r) token s = None"
  using assms row_unique[OF assms(1)] by (auto simp: order_held_by_def find_None_iff)

text \<open>
  C16.  A lease is exclusive: after an operation has claimed an order, every other claim before the end
  of the 30 seconds returns the order unclaimed and changes nothing, and a holder of an older token
  can neither renew nor complete the operation it has lost.
\<close>

theorem claim_exclusive:
  assumes "claim_payment_order e i t s = (Inr (r, True), s')" and "orders_inv (db_orders s)"
    and "t \<noteq> zero_time" and "clock_ok t" and "e_id e 0 \<noteq> []"
    and "t' \<noteq> zero_time" and "t' < t + payment_operation_lease" and "token \<noteq> o_token r"
    and "valid_payment_status (ou_status u)" and "ou_status u \<noteq> ''PAID''" and "0 \<le> ou_attempts u"
  shows "claim_payment_order e' i t' s' = (Inr (r, False), s') \<and>
    renew_payment_order_operation e' i token attempted s' = (Inl ErrPaymentOperationLost, s') \<and>
    complete_payment_order_operation e' i token u s' = (Inl ErrPaymentOperationLost, s')"
proof -
  have inv: "orders_inv (db_orders s')"
    using claim_step[of t e s i] assms(1-4) by (simp add: orders_step_def)
  note r = claim_result[OF assms(1,2)]
  then have find: "payment_order i s' = Inr r" using payment_order_row[OF inv, of r] by simp
  have live: "live_lease t' r = Inr True"
    using r assms(3-7) parse_lease[OF assms(4)] by (simp add: live_lease_def random_payment_token_def)
  have "order_held_by i token s' = None"
    using held_by_other[OF inv, of r token] r assms(8) by simp
  then show ?thesis
    using find live r assms(6,9-11)
    by (auto simp: claim_payment_order_def run_tx_Inr run_tx_Inl claim_payment_order_tx_def
        renew_payment_order_operation_def renew_payment_order_operation_tx_def
        complete_payment_order_operation_def complete_payment_order_operation_tx_def)
qed

text \<open>
  Completing an operation: the holder's update reaches exactly its order, the first binding of
  every field wins, an order that is already paid keeps its status and error, and the lease is given up.
\<close>

theorem complete_effect:
  assumes "complete_payment_order_operation e i token u s = (Inr r', s')" and "orders_inv (db_orders s)"
  shows "\<exists>r nxt. r \<in> set (db_orders s) \<and> o_id r = i \<and> o_token r = token \<and> complete_next r u = Inr nxt \<and>
    r' = completed_order e u nxt r \<and> o_token r' = [] \<and> order_extends r r' \<and>
    s' = s\<lparr>db_orders := update_where (\<lambda>x. o_id x = i) (\<lambda>_. r') (db_orders s)\<rparr>"
proof -
  obtain r nxt where h: "order_held_by i token s = Some r" and n: "complete_next r u = Inr nxt" and
    u: "ou_status u \<noteq> ''PAID''" and
    s': "s' = s\<lparr>db_orders := update_where (\<lambda>x. o_id x = i \<and> o_token x = token) (completed_order e u nxt) (db_orders s)\<rparr>" and
    f: "payment_order i s' = Inr r'"
    using assms(1) unfolding complete_payment_order_operation_def run_tx_Inr
      complete_payment_order_operation_tx_def Let_def
    by (auto simp: bnd_Inr run_tx_Inr valid_payment_status_def split: if_splits option.splits)
  have r: "r \<in> set (db_orders s)" "o_id r = i" "o_token r = token"
    using h by (auto simp: order_held_by_def dest: find_Some_iff2)
  have only: "(o_id x = i \<and> o_token x = token) = (o_id x = i)" "o_id x = i \<Longrightarrow> completed_order e u nxt x = completed_order e u nxt r"
    if "x \<in> set (db_orders s)" for x
    using row_unique[OF assms(2) that r(1)] r by auto
  then have up: "update_where (\<lambda>x. o_id x = i \<and> o_token x = token) (completed_order e u nxt) (db_orders s) =
      update_where (\<lambda>x. o_id x = i) (\<lambda>_. completed_order e u nxt r) (db_orders s)"
    by (auto simp: update_where_def)
  have "r' \<in> set (update_where (\<lambda>x. o_id x = i) (\<lambda>_. completed_order e u nxt r) (db_orders s))" "o_id r' = i"
    using f by (auto simp: payment_order_find s' up dest: find_Some_iff2)
  then have "r' = completed_order e u nxt r" by (auto elim: in_update_whereE)
  then show ?thesis
    using r n u up s' completed_extends[OF u, of r e nxt]
    by (intro exI[of _ r] exI[of _ nxt]) (simp add: completed_order_def)
qed

definition due_order :: "string \<Rightarrow> instant \<Rightarrow> order \<Rightarrow> bool" where
  "due_order channel t r \<longleftrightarrow> o_channel r = channel \<and> o_status r \<noteq> ''PAID'' \<and> o_next r \<noteq> [] \<and>
     (case parse_nano (o_next r) of None \<Rightarrow> False | Some due \<Rightarrow> due \<le> t) \<and> live_lease t r = Inr False"

definition past_due :: "instant \<Rightarrow> order \<Rightarrow> bool" where
  "past_due t r \<longleftrightarrow> (case parse_nano (o_next r) of None \<Rightarrow> False | Some due \<Rightarrow> due \<le> t) \<and> live_lease t r = Inr False"

lemma keep_due_filter: "keep_due t rs = Inr out \<Longrightarrow> out = filter (past_due t) rs"
proof (induction rs arbitrary: out)
  case (Cons r rs)
  from Cons.prems obtain due where due: "parse_nano (o_next r) = Some due" by (auto split: option.splits)
  show ?case
  proof (cases "t < due")
    case True
    with Cons due show ?thesis by (simp add: past_due_def)
  next
    case False
    with Cons.prems due obtain live rest where l: "live_lease t r = Inr live" and k: "keep_due t rs = Inr rest"
      and out: "out = (if live then rest else r # rest)" by (auto simp: bnd_Inr)
    have "past_due t r \<longleftrightarrow> \<not> live" using False due l by (simp add: past_due_def)
    with Cons.IH[OF k] out show ?thesis by simp
  qed
qed simp

lemma keep_due_total:
  "\<forall>r\<in>set rs. order_wf r \<and> o_next r \<noteq> [] \<Longrightarrow> \<exists>out. keep_due t rs = Inr out"
proof (induction rs)
  case (Cons r rs)
  then obtain rest where rest: "keep_due t rs = Inr rest" by auto
  from Cons.prems obtain due where "parse_nano (o_next r) = Some due" by (auto simp: order_wf_def dest: stamp_parse)
  moreover have "\<exists>live. live_lease t r = Inr live"
    using Cons.prems by (auto simp: live_lease_def order_wf_def dest: stamp_parse)
  ultimately show ?case using rest by auto
qed simp

text \<open>
  The scheduler's list never fails on well-formed orders, and whatever SQLite's \<open>julianday\<close>
  answers, every order it returns is an unpaid order of the channel whose reconciliation time has come
  and whose lease, if it has one, has run out.  When \<open>julianday\<close> does not reverse two times and the
  table holds no more candidates than the limit, every such order is returned.
\<close>

theorem due_orders_exact:
  assumes "orders_inv (db_orders s)" and "t \<noteq> zero_time" and "in_range t"
    and "0 < limit" "limit \<le> 20" "length (db_orders s) \<le> nat limit"
    and jd_mono: "\<And>a b x y. parse_nano a = Some x \<Longrightarrow> parse_nano b = Some y \<Longrightarrow> x \<le> y \<Longrightarrow> jd_le jd a b"
  shows "\<exists>out. due_payment_orders e jd channel t limit s = Inr out \<and>
    set out = {r \<in> set (db_orders s). due_order channel t r}"
proof -
  let ?cand = "filter (\<lambda>r. o_channel r = channel \<and> o_status r \<noteq> ''PAID'' \<and> o_next r \<noteq> [] \<and>
    jd_le jd (o_next r) (fmt_nano t) \<and> (o_token r = [] \<or> jd_le jd (o_lease r) (fmt_nano t))) (db_orders s)"
  let ?sorted = "sort_key (\<lambda>r. (o_next r, o_id r)) ?cand"
  have "length ?cand \<le> nat limit" using assms(6) by (meson le_trans length_filter_le)
  then have take: "take (nat limit) ?sorted = ?sorted" by simp
  have "\<forall>r\<in>set ?sorted. order_wf r \<and> o_next r \<noteq> []" using orders_inv_wf[OF assms(1)] by auto
  then obtain out where out: "keep_due t ?sorted = Inr out" using keep_due_total by blast
  have stamp: "parse_nano (fmt_nano t) = Some t" by (rule parse_fmt_nano) fact
  have "jd_le jd (o_next r) (fmt_nano t)" "o_token r = [] \<or> jd_le jd (o_lease r) (fmt_nano t)"
    if "due_order channel t r" for r
    using that stamp jd_mono
    by (auto simp: due_order_def live_lease_def split: option.splits if_splits)
  then have "set out = {r \<in> set (db_orders s). due_order channel t r}"
    using keep_due_filter[OF out] by (auto simp: due_order_def past_due_def)
  moreover have "due_payment_orders e jd channel t limit s = Inr out"
    using assms(2,4,5) out by (simp add: due_payment_orders_def Let_def take)
  ultimately show ?thesis by blast
qed

interpretation order_pages: cursor_paging o_created o_id "\<lambda>r. cursor_text (o_created r) \<and> cursor_text (o_id r)"
  by unfold_locales simp_all

text \<open>
  C19.  Following the cursors of \<open>ListPaymentOrders\<close> from the empty one, with any page size, hands out
  every order that matches the filter exactly once, newest first.
\<close>

theorem list_payment_orders_complete:
  assumes "orders_inv (db_orders s)" and "of_status f = [] \<or> valid_payment_status (of_status f)"
  defines "list_from \<equiv> \<lambda>c. case list_payment_orders (f\<lparr>of_cursor := c\<rparr>) s of Inl _ \<Rightarrow> None | Inr p \<Rightarrow> Some p"
  shows "\<exists>rs. follow list_from (Suc (length (matching_orders f s))) [] = Some rs \<and>
    set rs = set (matching_orders f s) \<and> distinct rs \<and> sorted (rev (map (\<lambda>r. (o_created r, o_id r)) rs))"
proof -
  let ?rows = "matching_orders f s"
  have "list_from c = list_page o_created o_id c (of_limit f) ?rows" for c
    using assms(2)
    by (auto simp: list_from_def list_payment_orders_def list_page_def matching_orders_def split: option.split)
  then have lf: "list_from = (\<lambda>c. list_page o_created o_id c (of_limit f) ?rows)" by auto
  have ids: "distinct (map o_id ?rows)"
    using assms(1) by (simp add: orders_inv_def matching_orders_def distinct_map_filter)
  have pair: "distinct (map (\<lambda>r. (o_created r, o_id r)) rows)" if "distinct (map o_id rows)" for rows
    using that by (induction rows) auto
  from ids have d: "distinct (map (\<lambda>r. (o_created r, o_id r)) ?rows)" by (rule pair)
  have "\<forall>r\<in>set ?rows. cursor_text (o_created r) \<and> cursor_text (o_id r)"
    using orders_inv_wf[OF assms(1)] by (auto simp: matching_orders_def order_wf_def)
  note all = order_pages.follow_all[OF d this, of "of_limit f"]
  have "distinct (order_pages.listing ?rows)"
    using ids by (simp add: order_pages.listing_def page_rows_def distinct_map)
  then show ?thesis
    unfolding lf using all order_pages.listing_rows[of ?rows] by (intro exI[of _ "order_pages.listing ?rows"] conjI)
qed

section \<open>Instances\<close>

definition sample_intent :: order_intent where
  "sample_intent = \<lparr>oi_channel = ''channel'', oi_key = ''key'', oi_hash = ''hash'', oi_amount = 25000, oi_origin = ''STATIC_URL''\<rparr>"

abbreviation sample_time :: instant where "sample_time \<equiv> 1700000000000000000"

definition sample_order :: order where
  "sample_order = new_order (sample_env sample_time) (random_payment_token [CHR 0x00]) sample_intent
     (random_payment_token ''id'') 100000000005"

definition sample_db :: db where
  "sample_db = (initial_db [])\<lparr>db_orders := [sample_order]\<rparr>"

lemma sample_id [simp]: "e_id (sample_env t) 0 = [CHR 0x00]"
proof -
  have "char_of (0 :: nat) = CHR 0x00" by (simp add: char_of_def)
  then show ?thesis by (simp add: sample_env_def)
qed

lemma sample_reserve:
  "reserve_payment_order (sample_env sample_time) [(''id'', 5)] sample_intent (initial_db []) = (Inr (sample_order, True), sample_db)"
  by (simp add: reserve_payment_order_def run_tx_Inr reserve_payment_order_tx_def valid_intent_def sample_intent_def
      payment_order_by_key_def gate_open_allows random_payment_order_code_def sample_order_def sample_db_def
      Let_def)

lemma clock_sample: "0 \<le> t \<Longrightarrow> t < 2000000000000000000 \<Longrightarrow> clock_ok t"
proof -
  assume "0 \<le> t" "t < 2000000000000000000"
  then have "t div second \<le> 2000000000000000000 div second" by (intro zdiv_mono1) auto
  with \<open>0 \<le> t\<close> show ?thesis by (simp add: clock_ok_def)
qed

lemma sample_inv: "orders_inv (db_orders sample_db)"
  using reserve_step[of "sample_env sample_time" "initial_db []" "[(''id'', 5)]" sample_intent]
  by (simp add: sample_reserve orders_step_def orders_inv_def[of "[]"] link_clash_def[of "[]"] transaction_clash_def[of "[]"]
      clock_sample)

lemma sample_open [simp]: "check_deployment_gate e sample_db = Inr ()"
  by (rule gate_open_allows) (simp add: sample_db_def)

lemma sample_order_fields: "o_id sample_order = b64_encode ''id''" "o_status sample_order = ''CREATING''"
  "o_token sample_order = b64_encode [CHR 0x00]" "o_lease sample_order = fmt_nano (sample_time + payment_operation_lease)"
  "o_next sample_order = fmt_nano (sample_time + payment_operation_lease)" "o_channel sample_order = ''channel''"
  "o_link sample_order = []"
  by (simp_all add: sample_order_def new_order_def Let_def random_payment_token_def sample_intent_def)

lemma reserve_idempotent_witness:
  "\<exists>r. reserve_payment_order (sample_env 0) [] sample_intent sample_db = (Inr (r, False), sample_db) \<and>
    reserve_payment_order (sample_env 0) [] (sample_intent\<lparr>oi_amount := 1\<rparr>) sample_db =
      (Inl ErrPaymentIdempotencyConflict, sample_db)"
  using reserve_idempotent[OF sample_reserve orders_extend_refl sample_inv, of "sample_env 0" "[]"]
  by (auto simp: sample_intent_def valid_intent_def)

lemma sample_claim:
  "\<exists>r s'. claim_payment_order (sample_env (sample_time + 31 * second)) (b64_encode ''id'') (sample_time + 31 * second) sample_db =
    (Inr (r, True), s')"
proof -
  have "payment_order (b64_encode ''id'') sample_db = Inr sample_order"
    by (simp add: payment_order_def sample_db_def sample_order_fields)
  moreover have "live_lease (sample_time + 31 * second) sample_order = Inr False"
    using parse_lease[of sample_time] clock_sample[of sample_time]
    by (simp add: live_lease_def sample_order_fields payment_operation_lease_def)
  moreover have "\<exists>nxt. next_after_lease sample_order (sample_time + 31 * second + payment_operation_lease) = Inr nxt"
    using parse_lease[of sample_time] clock_sample[of sample_time]
    by (simp add: next_after_lease_def sample_order_fields payment_operation_lease_def)
  ultimately show ?thesis
    by (auto simp: claim_payment_order_def run_tx_Inr claim_payment_order_tx_def Let_def zero_time_def
        payment_order_def sample_order_fields) (auto simp: sample_db_def sample_order_fields)
qed

lemma claim_exclusive_witness:
  "\<exists>r s' s''. claim_payment_order (sample_env (sample_time + 31 * second)) (b64_encode ''id'') (sample_time + 31 * second) sample_db =
      (Inr (r, True), s') \<and>
    claim_payment_order (sample_env 0) (b64_encode ''id'') (sample_time + 60 * second) s' = (Inr (r, False), s')"
proof -
  obtain r s' where c: "claim_payment_order (sample_env (sample_time + 31 * second)) (b64_encode ''id'')
      (sample_time + 31 * second) sample_db = (Inr (r, True), s')"
    using sample_claim by blast
  have "claim_payment_order (sample_env 0) (b64_encode ''id'') (sample_time + 60 * second) s' = (Inr (r, False), s')"
    using claim_exclusive[OF c sample_inv, of "sample_time + 60 * second" "CHR ''x'' # o_token r"
        "\<lparr>ou_status = ''PENDING'', ou_link = [], ou_qr = [], ou_checkout = [], ou_bin = [], ou_account = [], ou_account_name = [],
          ou_error = [], ou_next = 0, ou_attempts = 0, ou_reset = False, ou_qr_recovery = False\<rparr>"]
    by (simp add: zero_time_def payment_operation_lease_def clock_sample valid_payment_status_def)
  with c show ?thesis by blast
qed

definition sample_update :: order_update where
  "sample_update = \<lparr>ou_status = ''PENDING'', ou_link = ''link'', ou_qr = [], ou_checkout = [], ou_bin = [], ou_account = [],
     ou_account_name = [], ou_error = [], ou_next = zero_time, ou_attempts = 0, ou_reset = False, ou_qr_recovery = False\<rparr>"

lemma sample_complete:
  "\<exists>r s'. complete_payment_order_operation (sample_env 0) (b64_encode ''id'') (b64_encode [CHR 0x00]) sample_update sample_db =
    (Inr r, s')"
proof -
  have "order_held_by (b64_encode ''id'') (b64_encode [CHR 0x00]) sample_db = Some sample_order"
    by (simp add: order_held_by_def sample_db_def sample_order_fields)
  moreover have "\<exists>nxt. complete_next sample_order sample_update = Inr nxt"
    by (simp add: complete_next_def sample_update_def)
  moreover have "check_deployment_gate e (sample_db\<lparr>db_orders := rs\<rparr>) = Inr ()" for e rs
    by (rule gate_open_allows) (simp add: sample_db_def)
  ultimately show ?thesis
    by (auto simp: complete_payment_order_operation_def run_tx_Inr complete_payment_order_operation_tx_def Let_def
        valid_payment_status_def sample_update_def payment_order_def link_clash_def)
      (auto simp: sample_db_def sample_order_fields completed_order_def)
qed

lemma complete_effect_witness:
  "\<exists>r s'. complete_payment_order_operation (sample_env 0) (b64_encode ''id'') (b64_encode [CHR 0x00]) sample_update sample_db =
    (Inr r, s') \<and> o_token r = []"
proof -
  obtain r s' where c: "complete_payment_order_operation (sample_env 0) (b64_encode ''id'') (b64_encode [CHR 0x00])
      sample_update sample_db = (Inr r, s')"
    using sample_complete by blast
  from complete_effect[OF c sample_inv] c show ?thesis by blast
qed

lemma due_orders_exact_witness:
  "\<exists>out. due_payment_orders (sample_env 0) parse_nano ''channel'' (sample_time + 40 * second) 20 sample_db = Inr out \<and>
    set out = {r \<in> set (db_orders sample_db). due_order ''channel'' (sample_time + 40 * second) r}"
proof (rule due_orders_exact[OF sample_inv])
  show "in_range (sample_time + 40 * second)"
    by (simp add: in_range_def secs_range_def)
qed (simp_all add: zero_time_def sample_db_def jd_le_def)

lemma list_payment_orders_complete_witness:
  "\<exists>rs. follow (\<lambda>c. case list_payment_orders
      (\<lparr>of_channel = [], of_status = ''CREATING'', of_cursor = [], of_limit = 1\<rparr>\<lparr>of_cursor := c\<rparr>) sample_db
      of Inl _ \<Rightarrow> None | Inr p \<Rightarrow> Some p) 2 [] = Some rs \<and> set rs = {sample_order}"
  using list_payment_orders_complete[OF sample_inv, of "\<lparr>of_channel = [], of_status = ''CREATING'', of_cursor = [], of_limit = 1\<rparr>"]
  by (auto simp: matching_orders_def sample_db_def sample_order_fields valid_payment_status_def numeral_2_eq_2 simp del: follow.simps)

end
