(* ===== verification/GoJson.thy ===== *)
theory GoJson
  imports GoTime
begin

text \<open>
  What the program uses of \<open>encoding/json\<close> and \<open>strconv\<close>.  A value decoded into \<open>any\<close> with
  \<open>UseNumber\<close> is a \<open>jval\<close>; a Go map is the list of its entries without duplicate keys.  \<open>json_text\<close> is
  \<open>json.Marshal\<close> (sorted keys, HTML-safe escapes, invalid UTF-8 replaced) and \<open>json_decode\<close> is
  \<open>Decoder.Decode\<close>, which reads one value and leaves what follows it.  The nesting limit of the
  decoder (10000) is not modelled.
\<close>

datatype jval = JNull | JBool bool | JNum string | JStr string | JArr "jval list" | JObj "(string \<times> jval) list"

section \<open>UTF-8\<close>

definition in_bytes :: "nat \<Rightarrow> nat \<Rightarrow> char \<Rightarrow> bool" where
  "in_bytes lo hi c \<longleftrightarrow> lo \<le> of_char c \<and> of_char c \<le> hi"

abbreviation cont_byte :: "char \<Rightarrow> bool" where "cont_byte \<equiv> in_bytes 128 191"

text \<open>The width of the encoding that begins the text, 0 when it is invalid (\<open>utf8.DecodeRune\<close>).\<close>

definition rune_width :: "string \<Rightarrow> nat" where
  "rune_width s = (case s of
     [] \<Rightarrow> 0
   | a # r \<Rightarrow>
       if in_bytes 0 127 a then 1
       else if in_bytes 194 223 a then (case r of b # _ \<Rightarrow> if cont_byte b then 2 else 0 | _ \<Rightarrow> 0)
       else if in_bytes 224 239 a then (case r of b # c # _ \<Rightarrow>
           if (if a = CHR 0xE0 then in_bytes 160 191 b else if a = CHR 0xED then in_bytes 128 159 b else cont_byte b) \<and>
             cont_byte c then 3 else 0 | _ \<Rightarrow> 0)
       else if in_bytes 240 244 a then (case r of b # c # d # _ \<Rightarrow>
           if (if a = CHR 0xF0 then in_bytes 144 191 b else if a = CHR 0xF4 then in_bytes 128 143 b else cont_byte b) \<and>
             cont_byte c \<and> cont_byte d then 4 else 0 | _ \<Rightarrow> 0)
       else 0)"

section \<open>Printing\<close>

definition backslash :: char where "backslash = CHR 0x5C"
definition quote :: char where "quote = CHR 0x22"

definition hex_char :: "nat \<Rightarrow> char" where
  "hex_char n = (if n < 10 then digit_char n else char_of (87 + n))"

definition escape_u :: "char \<Rightarrow> string" where
  "escape_u c = backslash # ''u00'' @ [hex_char (of_char c div 16), hex_char (of_char c mod 16)]"

definition escape_ascii :: "char \<Rightarrow> string" where
  "escape_ascii c =
     (if c = quote \<or> c = backslash then [backslash, c]
      else if c = CHR 0x08 then [backslash, CHR ''b'']
      else if c = CHR 0x0C then [backslash, CHR ''f'']
      else if c = CHR 0x0A then [backslash, CHR ''n'']
      else if c = CHR 0x0D then [backslash, CHR ''r'']
      else if c = CHR 0x09 then [backslash, CHR ''t'']
      else if of_char c < (32 :: nat) \<or> c = CHR ''<'' \<or> c = CHR ''>'' \<or> c = CHR ''&'' then escape_u c
      else [c])"

fun escape_runes :: "nat \<Rightarrow> string \<Rightarrow> string" where
  "escape_runes 0 s = []"
| "escape_runes (Suc n) s = (case s of
     [] \<Rightarrow> []
   | c # r \<Rightarrow>
       if rune_width s = 0 then backslash # ''ufffd'' @ escape_runes n r
       else if rune_width s = 1 then escape_ascii c @ escape_runes n r
       else if take 3 s = [CHR 0xE2, CHR 0x80, CHR 0xA8] then backslash # ''u2028'' @ escape_runes n (drop 3 s)
       else if take 3 s = [CHR 0xE2, CHR 0x80, CHR 0xA9] then backslash # ''u2029'' @ escape_runes n (drop 3 s)
       else take (rune_width s) s @ escape_runes n (drop (rune_width s) s))"

definition json_string :: "string \<Rightarrow> string" where
  "json_string s = quote # escape_runes (length s) s @ [quote]"

definition join :: "string \<Rightarrow> string list \<Rightarrow> string" where
  "join sep xs = (case xs of [] \<Rightarrow> [] | y # ys \<Rightarrow> y @ concat (map (\<lambda>x. sep @ x) ys))"

fun json_text :: "jval \<Rightarrow> string" where
  "json_text JNull = ''null''"
| "json_text (JBool b) = (if b then ''true'' else ''false'')"
| "json_text (JNum n) = n"
| "json_text (JStr s) = json_string s"
| "json_text (JArr xs) = ''['' @ join '','' (map json_text xs) @ '']''"
| "json_text (JObj kvs) = ''{'' @ join '',''
     (map (\<lambda>(k, v). json_string k @ '':'' @ v) (sort_key fst (map (\<lambda>(k, v). (k, json_text v)) kvs))) @ ''}''"

section \<open>Parsing\<close>

definition skip_blanks :: "string \<Rightarrow> string" where
  "skip_blanks = dropWhile (\<lambda>c. c \<in> {CHR 0x20, CHR 0x09, CHR 0x0A, CHR 0x0D})"

definition hex_value :: "char \<Rightarrow> nat option" where
  "hex_value c = (let n = of_char c in
     if 48 \<le> n \<and> n \<le> 57 then Some (n - 48)
     else if 97 \<le> n \<and> n \<le> 102 then Some (n - 87)
     else if 65 \<le> n \<and> n \<le> 70 then Some (n - 55) else None)"

fun hex4 :: "string \<Rightarrow> nat option" where
  "hex4 (a # b # c # d # _) = (case (hex_value a, hex_value b, hex_value c, hex_value d) of
     (Some w, Some x, Some y, Some z) \<Rightarrow> Some (((w * 16 + x) * 16 + y) * 16 + z) | _ \<Rightarrow> None)"
| "hex4 _ = None"

definition rune_bytes :: "nat \<Rightarrow> string" where
  "rune_bytes n = map char_of
     (if n < 128 then [n]
      else if n < 2048 then [192 + n div 64, 128 + n mod 64]
      else if n < 65536 then [224 + n div 4096, 128 + n div 64 mod 64, 128 + n mod 64]
      else [240 + n div 262144, 128 + n div 4096 mod 64, 128 + n div 64 mod 64, 128 + n mod 64])"

definition replacement :: string where "replacement = [CHR 0xEF, CHR 0xBF, CHR 0xBD]"

text \<open>An escape \<open>\\uXXXX\<close>, with the surrogate pair that may follow; the text begins after the \<open>u\<close>.\<close>

definition unescape_u :: "string \<Rightarrow> (string \<times> string) option" where
  "unescape_u s = (case hex4 s of
     None \<Rightarrow> None
   | Some n \<Rightarrow>
       if n < 55296 \<or> 57343 < n then Some (rune_bytes n, drop 4 s)
       else (let r = drop 4 s in
         if n < 56320 \<and> take 2 r = [backslash, CHR ''u''] then
           (case hex4 (drop 2 r) of
              None \<Rightarrow> None
            | Some m \<Rightarrow> if 56320 \<le> m \<and> m \<le> 57343
                then Some (rune_bytes (65536 + (n - 55296) * 1024 + (m - 56320)), drop 6 r)
                else Some (replacement, r))
         else Some (replacement, r)))"

definition unescape :: "char \<Rightarrow> string option" where
  "unescape c =
     (if c \<in> {quote, backslash, CHR ''/''} then Some [c]
      else if c = CHR ''b'' then Some [CHR 0x08] else if c = CHR ''f'' then Some [CHR 0x0C]
      else if c = CHR ''n'' then Some [CHR 0x0A] else if c = CHR ''r'' then Some [CHR 0x0D]
      else if c = CHR ''t'' then Some [CHR 0x09] else None)"

fun parse_chars :: "nat \<Rightarrow> string \<Rightarrow> (string \<times> string) option" where
  "parse_chars 0 s = None"
| "parse_chars (Suc n) s = (case s of
     [] \<Rightarrow> None
   | c # r \<Rightarrow>
       if c = quote then Some ([], r)
       else if c = backslash then (case r of
           [] \<Rightarrow> None
         | d # r' \<Rightarrow> (case (if d = CHR ''u'' then unescape_u r' else map_option (\<lambda>x. (x, r')) (unescape d)) of
             None \<Rightarrow> None
           | Some (x, r'') \<Rightarrow> map_option (apfst ((@) x)) (parse_chars n r'')))
       else if of_char c < (32 :: nat) then None
       else if rune_width s = 0 then map_option (apfst ((@) replacement)) (parse_chars n r)
       else map_option (apfst ((@) (take (rune_width s) s))) (parse_chars n (drop (rune_width s) s)))"

definition take_digits :: "string \<Rightarrow> string \<times> string" where
  "take_digits s = (takeWhile is_digit s, dropWhile is_digit s)"

text \<open>A number literal: sign, integer part without leading zeros, fraction, exponent.\<close>

definition parse_number :: "string \<Rightarrow> (string \<times> string) option" where
  "parse_number s =
     (let (sg, r) = (case s of c # t \<Rightarrow> if c = CHR ''-'' then ([c], t) else ([], s) | [] \<Rightarrow> ([], s));
          (ip, r1) = (case r of c # t \<Rightarrow> if c = CHR ''0'' then ([c], t) else take_digits r | [] \<Rightarrow> ([], r)) in
      if ip = [] then None
      else let (fr, r2) = (case r1 of c # t \<Rightarrow>
                 if c = CHR ''.'' then (if fst (take_digits t) = [] then (None, t)
                   else (Some (c # fst (take_digits t)), snd (take_digits t)))
                 else (Some [], r1) | [] \<Rightarrow> (Some [], r1)) in
           case fr of None \<Rightarrow> None | Some f \<Rightarrow>
           (let (ex, r3) = (case r2 of c # t \<Rightarrow>
                 if c = CHR ''e'' \<or> c = CHR ''E'' then
                   (let (es, t') = (case t of d # u \<Rightarrow> if d = CHR ''+'' \<or> d = CHR ''-'' then ([d], u) else ([], t) | [] \<Rightarrow> ([], t))
                    in if fst (take_digits t') = [] then (None, t')
                       else (Some (c # es @ fst (take_digits t')), snd (take_digits t')))
                 else (Some [], r2) | [] \<Rightarrow> (Some [], r2)) in
            case ex of None \<Rightarrow> None | Some e \<Rightarrow> Some (sg @ ip @ f @ e, r3)))"

definition map_put :: "string \<Rightarrow> 'v \<Rightarrow> (string \<times> 'v) list \<Rightarrow> (string \<times> 'v) list" where
  "map_put k v kvs = filter (\<lambda>e. fst e \<noteq> k) kvs @ [(k, v)]"

definition starts :: "string \<Rightarrow> string \<Rightarrow> bool" where
  "starts p s \<longleftrightarrow> take (length p) s = p"

fun parse_value :: "nat \<Rightarrow> string \<Rightarrow> (jval \<times> string) option"
  and parse_elems :: "nat \<Rightarrow> string \<Rightarrow> (jval list \<times> string) option"
  and parse_members :: "nat \<Rightarrow> (string \<times> jval) list \<Rightarrow> string \<Rightarrow> ((string \<times> jval) list \<times> string) option" where
  "parse_value 0 s = None"
| "parse_value (Suc n) s0 = (let s = skip_blanks s0 in
     if starts ''null'' s then Some (JNull, drop 4 s)
     else if starts ''true'' s then Some (JBool True, drop 4 s)
     else if starts ''false'' s then Some (JBool False, drop 5 s)
     else case s of
       [] \<Rightarrow> None
     | c # r \<Rightarrow>
         if c = quote then map_option (apfst JStr) (parse_chars (length s) r)
         else if c = CHR ''['' then
           (if starts '']'' (skip_blanks r) then Some (JArr [], tl (skip_blanks r))
            else map_option (apfst JArr) (parse_elems n r))
         else if c = CHR ''{'' then
           (if starts ''}'' (skip_blanks r) then Some (JObj [], tl (skip_blanks r))
            else map_option (apfst JObj) (parse_members n [] r))
         else map_option (apfst JNum) (parse_number s))"
| "parse_elems 0 s = None"
| "parse_elems (Suc n) s = (case parse_value n s of
     None \<Rightarrow> None
   | Some (v, r0) \<Rightarrow> (case skip_blanks r0 of
       [] \<Rightarrow> None
     | c # r \<Rightarrow> if c = CHR '']'' then Some ([v], r)
         else if c = CHR '','' then map_option (apfst (Cons v)) (parse_elems n r) else None))"
| "parse_members 0 acc s = None"
| "parse_members (Suc n) acc s0 = (case skip_blanks s0 of
     [] \<Rightarrow> None
   | c # r \<Rightarrow> if c \<noteq> quote then None
       else (case parse_chars (length s0) r of
         None \<Rightarrow> None
       | Some (k, r1) \<Rightarrow> (case skip_blanks r1 of
           [] \<Rightarrow> None
         | d # r2 \<Rightarrow> if d \<noteq> CHR '':'' then None
             else (case parse_value n r2 of
               None \<Rightarrow> None
             | Some (v, r3) \<Rightarrow> (case skip_blanks r3 of
                 [] \<Rightarrow> None
               | e # r4 \<Rightarrow> if e = CHR ''}'' then Some (map_put k v acc, r4)
                   else if e = CHR '','' then parse_members n (map_put k v acc) r4 else None)))))"

definition json_decode :: "string \<Rightarrow> (jval \<times> string) option" where
  "json_decode s = parse_value (Suc (2 * length s)) s"

text \<open>Decoding into \<open>map[string]any\<close>: an object, or null, which leaves the map nil.\<close>

definition json_decode_map :: "string \<Rightarrow> (string \<times> jval) list option" where
  "json_decode_map s = (case json_decode s of
     Some (JObj kvs, _) \<Rightarrow> Some kvs
   | Some (JNull, _) \<Rightarrow> Some []
   | _ \<Rightarrow> None)"

section \<open>Integers\<close>

definition min_int64 :: int where "min_int64 = - 9223372036854775808"
definition max_int64 :: int where "max_int64 = 9223372036854775807"

text \<open>\<open>strconv.ParseInt(s, 10, 64)\<close>.\<close>

definition parse_int64 :: "string \<Rightarrow> int option" where
  "parse_int64 s =
     (let (neg, ds) = (case s of c # r \<Rightarrow> if c = CHR ''-'' then (True, r) else if c = CHR ''+'' then (False, r) else (False, s)
        | [] \<Rightarrow> (False, [])) in
      if ds = [] \<or> \<not> list_all is_digit ds then None
      else let n = (if neg then - int (num_of ds) else int (num_of ds))
           in if min_int64 \<le> n \<and> n \<le> max_int64 then Some n else None)"

lemma int_text_parse: "min_int64 \<le> n \<Longrightarrow> n \<le> max_int64 \<Longrightarrow> parse_int64 (int_text n) = Some n"
proof (cases "n < 0")
  case True
  then show "min_int64 \<le> n \<Longrightarrow> n \<le> max_int64 \<Longrightarrow> parse_int64 (int_text n) = Some n"
    using dec_digits[of "nat (- n)"] by (simp add: parse_int64_def int_text_def list_all_iff)
next
  case False
  obtain c r where c: "dec (nat n) = c # r" by (cases "dec (nat n)") auto
  then have "is_digit c" using dec_digits[of "nat n"] by simp
  then have "c \<noteq> CHR ''-''" "c \<noteq> CHR ''+''" by (auto simp: is_digit_def)
  then show "min_int64 \<le> n \<Longrightarrow> n \<le> max_int64 \<Longrightarrow> parse_int64 (int_text n) = Some n"
    using False dec_digits[of "nat n"] num_of_dec[of "nat n"] c
    by (auto simp: parse_int64_def int_text_def list_all_iff)
qed

end
