(* ===== verification/Events.thy ===== *)
theory Events
  imports PaymentOrders GoJson
begin

text \<open>
  internal/storage/events.go and journal.go: the transaction events, the delivery rows that fan an
  event out to the active endpoints, and the ordered event journal.  \<open>emit_transaction_event_tx\<close> runs
  in the transaction of the financial write; the identifiers it draws begin at \<open>k\<close>.  The endpoints are
  read in table order.  The foreign keys of the tables are enforced (the \<open>foreign_keys\<close> pragma).
\<close>

section \<open>Operations\<close>

record event_note =
  n_event :: string
  n_type :: string
  n_transaction :: string
  n_payload :: string
  n_created :: string
  n_committed :: string
  n_seq :: int
  n_epoch :: string

definition event_digest_text :: "string \<Rightarrow> string \<Rightarrow> string \<Rightarrow> string" where
  "event_digest_text namespace key event_type = namespace @ CHR 0x00 # key @ CHR 0x00 # event_type"

definition event_id :: "env \<Rightarrow> string \<Rightarrow> string \<Rightarrow> string \<Rightarrow> string" where
  "event_id e namespace key event_type = ''bevt_'' @ sha_hex16 e (event_digest_text namespace key event_type)"

text \<open>The active endpoints with their active key, \<open>k1\<close> when there is none (a LEFT JOIN).\<close>

definition endpoint_refs :: "db \<Rightarrow> (string \<times> int \<times> string) list" where
  "endpoint_refs s = concat (map (\<lambda>ep.
     case filter (\<lambda>sc. sc_endpoint sc = ep_id ep \<and> sc_status sc = ''ACTIVE'') (db_secrets s) of
       [] \<Rightarrow> [(ep_id ep, ep_revision ep, ''k1'')]
     | scs \<Rightarrow> map (\<lambda>sc. (ep_id ep, ep_revision ep, sc_key sc)) scs)
     (filter (\<lambda>ep. ep_status ep = ''ACTIVE'') (db_endpoints s)))"

definition new_delivery :: "string \<Rightarrow> string \<Rightarrow> string \<times> int \<times> string \<Rightarrow> string \<Rightarrow> delivery" where
  "new_delivery i eid ref created = (case ref of (ep, rv, key) \<Rightarrow>
     \<lparr>d_id = i, d_event = eid, d_endpoint = ep, d_revision = rv, d_key = key, d_status = ''PENDING'', d_attempts = 0,
      d_next = created, d_token = [], d_lease = None, d_created = created, d_updated = created, d_retry_start = 0\<rparr>)"

fun insert_deliveries ::
  "env \<Rightarrow> nat \<Rightarrow> string \<Rightarrow> string \<Rightarrow> (string \<times> int \<times> string) list \<Rightarrow> delivery list \<Rightarrow> err + delivery list" where
  "insert_deliveries e k eid created [] ds = Inr ds"
| "insert_deliveries e k eid created (ref # refs) ds =
     (if \<exists>d\<in>set ds. d_event d = eid \<and> d_endpoint d = fst ref
      then insert_deliveries e (Suc k) eid created refs ds
      else if \<exists>d\<in>set ds. d_id d = fresh_id e ''del'' k then Inl ErrConstraint
      else insert_deliveries e (Suc k) eid created refs (ds @ [new_delivery (fresh_id e ''del'' k) eid ref created]))"

definition append_journal :: "string \<Rightarrow> string \<Rightarrow> string \<Rightarrow> string \<Rightarrow> string \<Rightarrow> db \<Rightarrow> db" where
  "append_journal epoch event_type aggregate payload created s =
     (let seq = db_journal_seq s + 1 in
      s\<lparr>db_journal := db_journal s @ [\<lparr>j_seq = seq, j_epoch = epoch, j_type = event_type, j_aggregate = aggregate,
          j_payload = payload, j_created = created\<rparr>],
        db_journal_seq := seq\<rparr>)"

definition emit_transaction_event_tx ::
  "env \<Rightarrow> nat \<Rightarrow> string \<Rightarrow> string \<Rightarrow> string \<Rightarrow> string \<Rightarrow> jval \<Rightarrow> string \<Rightarrow> db \<Rightarrow> err + (event_note option \<times> db)" where
  "emit_transaction_event_tx e k tid event_type namespace key data created s =
     (let payload = json_text data;
          eid = event_id e namespace key event_type in
      if \<exists>v\<in>set (db_events s). ev_transaction v = tid \<and> ev_type v = event_type then Inr (None, s)
      else if (\<exists>v\<in>set (db_events s). ev_id v = eid) \<or> (\<forall>t\<in>set (db_transactions s). t_id t \<noteq> tid) then Inl ErrConstraint
      else bnd (insert_deliveries e k eid created (endpoint_refs s) (db_deliveries s)) (\<lambda>ds.
        let s' = append_journal ''ep1'' event_type tid payload created
          (s\<lparr>db_events := db_events s @ [\<lparr>ev_id = eid, ev_transaction = tid, ev_type = event_type, ev_payload = payload,
               ev_hash = sha_hex e (event_digest_text namespace key event_type), ev_created = created\<rparr>],
             db_deliveries := ds\<rparr>)
        in Inr (Some \<lparr>n_event = eid, n_type = event_type, n_transaction = tid, n_payload = payload, n_created = created,
             n_committed = [], n_seq = db_journal_seq s', n_epoch = ''ep1''\<rparr>, s')))"

definition emit_transaction_event ::
  "env \<Rightarrow> string \<Rightarrow> string \<Rightarrow> string \<Rightarrow> string \<Rightarrow> jval \<Rightarrow> db \<Rightarrow> (err + string) \<times> db" where
  "emit_transaction_event e tid event_type namespace key data =
     run_tx (\<lambda>s. bnd (emit_transaction_event_tx e 0 tid event_type namespace key data (now_text e) s) (\<lambda>(note, s').
       Inr (case note of Some n \<Rightarrow> n_event n | None \<Rightarrow> event_id e namespace key event_type, s')))"

definition event_payload :: "string \<Rightarrow> db \<Rightarrow> err + string" where
  "event_payload eid s = (case find (\<lambda>v. ev_id v = eid) (db_events s) of None \<Rightarrow> Inl ErrNoRows | Some v \<Rightarrow> Inr (ev_payload v))"

definition epoch_or_default :: "string \<Rightarrow> string" where
  "epoch_or_default epoch = (if epoch = [] then ''ep1'' else epoch)"

definition append_journal_event :: "env \<Rightarrow> string \<Rightarrow> string \<Rightarrow> string \<Rightarrow> string \<Rightarrow> db \<Rightarrow> (err + int) \<times> db" where
  "append_journal_event e epoch event_type aggregate payload s =
     (let s' = append_journal (epoch_or_default epoch) event_type aggregate payload (now_text e) s
      in (Inr (db_journal_seq s'), s'))"

definition journal_limit :: "int \<Rightarrow> nat" where
  "journal_limit limit = (if limit \<le> 0 \<or> 1000 < limit then 100 else nat limit)"

definition read_journal_events :: "string \<Rightarrow> int \<Rightarrow> int \<Rightarrow> db \<Rightarrow> journal_row list" where
  "read_journal_events epoch after limit s =
     take (journal_limit limit) (sort_key j_seq
       (filter (\<lambda>j. j_epoch j = epoch_or_default epoch \<and> after < j_seq j) (db_journal s)))"

definition get_max_journal_seq :: "string \<Rightarrow> db \<Rightarrow> int" where
  "get_max_journal_seq epoch s =
     (case map j_seq (filter (\<lambda>j. j_epoch j = epoch_or_default epoch) (db_journal s)) of
        [] \<Rightarrow> 0 | x # xs \<Rightarrow> fold max xs x)"

definition get_min_journal_seq :: "string \<Rightarrow> db \<Rightarrow> int" where
  "get_min_journal_seq epoch s =
     (case map j_seq (filter (\<lambda>j. j_epoch j = epoch_or_default epoch) (db_journal s)) of
        [] \<Rightarrow> 0 | x # xs \<Rightarrow> fold min xs x)"

definition delete_journal_before :: "instant \<Rightarrow> db \<Rightarrow> (err + int) \<times> db" where
  "delete_journal_before cutoff s =
     (Inr (int (count_where (\<lambda>j. j_created j < fmt_nano cutoff) (db_journal s))),
      s\<lparr>db_journal := filter (\<lambda>j. \<not> j_created j < fmt_nano cutoff) (db_journal s)\<rparr>)"

section \<open>Invariant\<close>

text \<open>
  Event identifiers and (transaction, type) are unique, delivery identifiers and (event, endpoint) are
  unique, a delivery belongs to a recorded event, and the journal is strictly ordered by its sequence,
  which never runs behind its counter.
\<close>

definition journal_inv :: "db \<Rightarrow> bool" where
  "journal_inv s \<longleftrightarrow> sorted_wrt (<) (map j_seq (db_journal s)) \<and> (\<forall>j\<in>set (db_journal s). 0 < j_seq j \<and> j_seq j \<le> db_journal_seq s) \<and>
     0 \<le> db_journal_seq s"

definition events_inv :: "db \<Rightarrow> bool" where
  "events_inv s \<longleftrightarrow> distinct (map ev_id (db_events s)) \<and> distinct (map (\<lambda>v. (ev_transaction v, ev_type v)) (db_events s)) \<and>
     distinct (map d_id (db_deliveries s)) \<and> distinct (map (\<lambda>d. (d_event d, d_endpoint d)) (db_deliveries s)) \<and>
     (\<forall>d\<in>set (db_deliveries s). d_event d \<in> ev_id ` set (db_events s)) \<and> journal_inv s"

lemma append_journal_inv: "journal_inv s \<Longrightarrow> journal_inv (append_journal ep ty ag pl cr s)"
  by (auto simp: journal_inv_def append_journal_def Let_def sorted_wrt_append)

lemma append_journal_frame [simp]:
  "db_orders (append_journal ep ty ag pl cr s) = db_orders s" "db_receipts (append_journal ep ty ag pl cr s) = db_receipts s"
  "db_transactions (append_journal ep ty ag pl cr s) = db_transactions s" "db_events (append_journal ep ty ag pl cr s) = db_events s"
  "db_deliveries (append_journal ep ty ag pl cr s) = db_deliveries s" "db_inbox (append_journal ep ty ag pl cr s) = db_inbox s"
  "db_journal_seq (append_journal ep ty ag pl cr s) = db_journal_seq s + 1"
  by (simp_all add: append_journal_def Let_def)

text \<open>The new delivery rows: one for every endpoint that had none for the event.\<close>

definition deliveries_added ::
  "string \<Rightarrow> string \<Rightarrow> (string \<times> int \<times> string) list \<Rightarrow> delivery list \<Rightarrow> delivery list \<Rightarrow> bool" where
  "deliveries_added eid created refs ds ds' \<longleftrightarrow>
     (\<exists>new. ds' = ds @ new \<and> (\<forall>d\<in>set new. d_event d = eid \<and> d_status d = ''PENDING'' \<and> d_attempts d = 0 \<and>
        d_lease d = None \<and> d_token d = [] \<and> d_next d = created \<and> d_retry_start d = 0 \<and> d_endpoint d \<in> fst ` set refs)) \<and>
     (\<forall>ref\<in>set refs. \<exists>d\<in>set ds'. d_event d = eid \<and> d_endpoint d = fst ref) \<and>
     (distinct (map d_id ds) \<longrightarrow> distinct (map d_id ds')) \<and>
     (distinct (map (\<lambda>d. (d_event d, d_endpoint d)) ds) \<longrightarrow> distinct (map (\<lambda>d. (d_event d, d_endpoint d)) ds'))"

lemma new_delivery_fields [simp]:
  "d_id (new_delivery i eid ref created) = i" "d_event (new_delivery i eid ref created) = eid"
  "d_endpoint (new_delivery i eid ref created) = fst ref" "d_status (new_delivery i eid ref created) = ''PENDING''"
  "d_attempts (new_delivery i eid ref created) = 0" "d_lease (new_delivery i eid ref created) = None"
  "d_token (new_delivery i eid ref created) = []" "d_retry_start (new_delivery i eid ref created) = 0" "d_next (new_delivery i eid ref created) = created"
  by (simp_all add: new_delivery_def split: prod.split)

lemma deliveries_added_skip:
  "deliveries_added eid created refs ds ds' \<Longrightarrow> d \<in> set ds \<Longrightarrow> d_event d = eid \<Longrightarrow> d_endpoint d = fst ref \<Longrightarrow>
    deliveries_added eid created (ref # refs) ds ds'"
  unfolding deliveries_added_def by fastforce

lemma deliveries_added_one:
  assumes "deliveries_added eid created refs (ds @ [new_delivery i eid ref created]) ds'"
    and "\<forall>d\<in>set ds. \<not> (d_event d = eid \<and> d_endpoint d = fst ref)" "\<forall>d\<in>set ds. d_id d \<noteq> i"
  shows "deliveries_added eid created (ref # refs) ds ds'"
proof -
  let ?d = "new_delivery i eid ref created"
  obtain new where new: "ds' = (ds @ [?d]) @ new" "\<forall>d\<in>set new. d_event d = eid \<and> d_status d = ''PENDING'' \<and> d_attempts d = 0 \<and>
      d_lease d = None \<and> d_token d = [] \<and> d_next d = created \<and> d_retry_start d = 0 \<and> d_endpoint d \<in> fst ` set refs"
    using assms(1) unfolding deliveries_added_def by blast
  have "\<exists>new. ds' = ds @ new \<and> (\<forall>d\<in>set new. d_event d = eid \<and> d_status d = ''PENDING'' \<and> d_attempts d = 0 \<and>
      d_lease d = None \<and> d_token d = [] \<and> d_next d = created \<and> d_retry_start d = 0 \<and> d_endpoint d \<in> fst ` set (ref # refs))"
    using new by (intro exI[of _ "?d # new"]) auto
  moreover have "?d \<in> set ds'" using new(1) by simp
  then have "\<exists>d\<in>set ds'. d_event d = eid \<and> d_endpoint d = fst ref" by (auto intro!: bexI[of _ ?d])
  moreover have "distinct (map d_id ds) \<longrightarrow> distinct (map d_id (ds @ [?d]))" using assms(3) by auto
  moreover have "distinct (map (\<lambda>d. (d_event d, d_endpoint d)) ds) \<longrightarrow>
      distinct (map (\<lambda>d. (d_event d, d_endpoint d)) (ds @ [?d]))" using assms(2) by auto
  ultimately show ?thesis using assms(1) unfolding deliveries_added_def by (simp only: list.set ball_simps) blast
qed

lemma insert_deliveries_spec:
  "insert_deliveries e k eid created refs ds = Inr ds' \<Longrightarrow> deliveries_added eid created refs ds ds'"
proof (induction e k eid created refs ds rule: insert_deliveries.induct)
  case (2 e k eid created ref refs ds)
  show ?case
  proof (cases "\<exists>d\<in>set ds. d_event d = eid \<and> d_endpoint d = fst ref")
    case True
    then have "deliveries_added eid created refs ds ds'" using 2(1,3) by simp
    with True show ?thesis using deliveries_added_skip by blast
  next
    case False
    then have nid: "\<not> (\<exists>d\<in>set ds. d_id d = fresh_id e ''del'' k)" using 2(3) by (auto split: if_splits)
    have "deliveries_added eid created refs (ds @ [new_delivery (fresh_id e ''del'' k) eid ref created]) ds'"
      by (rule 2(2)[OF False nid]) (use 2(3) False nid in \<open>simp only: insert_deliveries.simps if_False\<close>)
    with False nid show ?thesis using deliveries_added_one by blast
  qed
qed (simp add: deliveries_added_def)

lemma emit_new:
  assumes "emit_transaction_event_tx e k tid ty ns key data created s = Inr (Some n, s')"
  obtains ds v where "insert_deliveries e k (n_event n) created (endpoint_refs s) (db_deliveries s) = Inr ds"
    "v = \<lparr>ev_id = n_event n, ev_transaction = tid, ev_type = ty, ev_payload = json_text data,
       ev_hash = sha_hex e (event_digest_text ns key ty), ev_created = created\<rparr>"
    "s' = append_journal ''ep1'' ty tid (json_text data) created (s\<lparr>db_events := db_events s @ [v], db_deliveries := ds\<rparr>)"
    "\<forall>x\<in>set (db_events s). ev_id x \<noteq> n_event n \<and> \<not> (ev_transaction x = tid \<and> ev_type x = ty)"
    "n_event n = event_id e ns key ty" "n_seq n = db_journal_seq s'" "n_type n = ty" "n_transaction n = tid" "n_epoch n = ''ep1''"
  using assms by (auto simp: emit_transaction_event_tx_def Let_def bnd_Inr split: if_splits)

lemma emit_none:
  "emit_transaction_event_tx e k tid ty ns key data created s = Inr (None, s') \<Longrightarrow>
    s' = s \<and> (\<exists>v\<in>set (db_events s). ev_transaction v = tid \<and> ev_type v = ty)"
  by (auto simp: emit_transaction_event_tx_def Let_def bnd_Inr split: if_splits)

lemma emit_inv:
  assumes "emit_transaction_event_tx e k tid ty ns key data created s = Inr (n, s')" "events_inv s"
  shows "events_inv s'"
proof (cases n)
  case None
  with emit_none assms show ?thesis by blast
next
  case (Some m)
  from assms(1)[unfolded Some] show ?thesis
  proof (rule emit_new)
    fix ds v
    assume ins: "insert_deliveries e k (n_event m) created (endpoint_refs s) (db_deliveries s) = Inr ds"
      and v: "v = \<lparr>ev_id = n_event m, ev_transaction = tid, ev_type = ty, ev_payload = json_text data,
        ev_hash = sha_hex e (event_digest_text ns key ty), ev_created = created\<rparr>"
      and s': "s' = append_journal ''ep1'' ty tid (json_text data) created (s\<lparr>db_events := db_events s @ [v], db_deliveries := ds\<rparr>)"
      and fresh: "\<forall>x\<in>set (db_events s). ev_id x \<noteq> n_event m \<and> \<not> (ev_transaction x = tid \<and> ev_type x = ty)"
    have "journal_inv s'" unfolding s'
      by (rule append_journal_inv) (use assms(2) in \<open>simp add: events_inv_def journal_inv_def\<close>)
    then show "events_inv s'"
      using insert_deliveries_spec[OF ins] fresh assms(2) by (auto simp: events_inv_def deliveries_added_def s' v)
  qed
qed

lemma emit_frame:
  assumes "emit_transaction_event_tx e k tid ty ns key data created s = Inr (n, s')"
  shows "db_orders s' = db_orders s" "db_receipts s' = db_receipts s" "db_transactions s' = db_transactions s"
    "db_inbox s' = db_inbox s"
  using assms by (cases n; auto dest: emit_none elim!: emit_new)+

section \<open>Properties\<close>

text \<open>
  C3.  A transaction event is emitted exactly once.  The emission records one delivery per active
  endpoint, each pending and unclaimed, and one journal entry whose sequence number is above every
  earlier one; emitting the same type for the same transaction again, in any later state that has kept
  the events, produces nothing and changes nothing.
\<close>

theorem emit_exactly_once:
  assumes "emit_transaction_event_tx e k tid ty ns key data created s = Inr (Some n, s')" and "events_inv s"
    and "set (db_events s') \<subseteq> set (db_events s'')"
  shows "(\<forall>ref\<in>set (endpoint_refs s). \<exists>!d. d \<in> set (db_deliveries s') \<and> d_event d = n_event n \<and> d_endpoint d = fst ref) \<and>
    (\<forall>d\<in>set (db_deliveries s'). d_event d = n_event n \<longrightarrow>
      d_status d = ''PENDING'' \<and> d_attempts d = 0 \<and> d_lease d = None \<and> d_endpoint d \<in> fst ` set (endpoint_refs s)) \<and>
    (\<exists>j. db_journal s' = db_journal s @ [j] \<and> j_seq j = n_seq n \<and> j_aggregate j = tid \<and> j_type j = ty \<and>
      j_payload j = n_payload n \<and> (\<forall>i\<in>set (db_journal s). j_seq i < n_seq n)) \<and>
    emit_transaction_event_tx e' k' tid ty ns' key' data' created' s'' = Inr (None, s'')"
proof -
  have inv: "events_inv s'" using assms(1,2) by (rule emit_inv)
  from assms(1) obtain ds v where ins: "insert_deliveries e k (n_event n) created (endpoint_refs s) (db_deliveries s) = Inr ds"
    and v: "v = \<lparr>ev_id = n_event n, ev_transaction = tid, ev_type = ty, ev_payload = json_text data,
       ev_hash = sha_hex e (event_digest_text ns key ty), ev_created = created\<rparr>"
    and s': "s' = append_journal ''ep1'' ty tid (json_text data) created (s\<lparr>db_events := db_events s @ [v], db_deliveries := ds\<rparr>)"
    and fresh: "\<forall>x\<in>set (db_events s). ev_id x \<noteq> n_event n"
    and seq: "n_seq n = db_journal_seq s'"
    by (auto elim: emit_new)
  have old: "\<forall>d\<in>set (db_deliveries s). d_event d \<noteq> n_event n"
    using assms(2) fresh by (fastforce simp: events_inv_def)
  have keys: "distinct (map (\<lambda>d. (d_event d, d_endpoint d)) ds)"
    using inv by (simp add: events_inv_def s')
  have one: "\<forall>ref\<in>set (endpoint_refs s). \<exists>!d. d \<in> set (db_deliveries s') \<and> d_event d = n_event n \<and> d_endpoint d = fst ref"
  proof
    fix ref assume "ref \<in> set (endpoint_refs s)"
    then obtain d where d: "d \<in> set ds" "d_event d = n_event n" "d_endpoint d = fst ref"
      using insert_deliveries_spec[OF ins] unfolding deliveries_added_def by blast
    show "\<exists>!d. d \<in> set (db_deliveries s') \<and> d_event d = n_event n \<and> d_endpoint d = fst ref"
      using d distinct_key_eq[OF keys] by (intro ex1I[of _ d]) (auto simp: s')
  qed
  have new: "\<forall>d\<in>set (db_deliveries s'). d_event d = n_event n \<longrightarrow>
      d_status d = ''PENDING'' \<and> d_attempts d = 0 \<and> d_lease d = None \<and> d_endpoint d \<in> fst ` set (endpoint_refs s)"
    using insert_deliveries_spec[OF ins] old unfolding deliveries_added_def by (auto simp: s')
  have payload: "n_payload n = json_text data"
    using assms(1) by (auto simp: emit_transaction_event_tx_def Let_def bnd_Inr split: if_splits)
  have "\<forall>i\<in>set (db_journal s). j_seq i < db_journal_seq s + 1"
    using assms(2) by (fastforce simp: events_inv_def journal_inv_def)
  then have journal: "\<exists>j. db_journal s' = db_journal s @ [j] \<and> j_seq j = n_seq n \<and> j_aggregate j = tid \<and> j_type j = ty \<and>
      j_payload j = n_payload n \<and> (\<forall>i\<in>set (db_journal s). j_seq i < n_seq n)"
    by (simp add: seq payload s') (simp add: append_journal_def Let_def)
  have "v \<in> set (db_events s'')" using assms(3) by (auto simp: s')
  then have "\<exists>x\<in>set (db_events s''). ev_transaction x = tid \<and> ev_type x = ty" by (intro bexI[of _ v]) (simp_all add: v)
  then have "emit_transaction_event_tx e' k' tid ty ns' key' data' created' s'' = Inr (None, s'')"
    by (simp add: emit_transaction_event_tx_def)
  with one new journal show ?thesis by blast
qed

definition sample_transaction :: "string \<Rightarrow> transaction" where
  "sample_transaction i = \<lparr>t_id = i, t_connection = ''payos-klb'', t_key = i, t_hash = [], t_date = [], t_effective = [], t_debit = 0,
     t_credit = 25000, t_balance = None, t_description = [], t_parser = [], t_baseline = [], t_first_seen = [], t_iso = [],
     t_day = [], t_precision = [], t_source = []\<rparr>"

definition sample_events_db :: db where
  "sample_events_db = (initial_db [])\<lparr>db_transactions := [sample_transaction ''t1''],
     db_endpoints := [\<lparr>ep_id = ''e1'', ep_name = [], ep_status = ''ACTIVE'', ep_revision = 1, ep_provider = ''WEBHOOK'', ep_created = [], ep_updated = []\<rparr>,
       \<lparr>ep_id = ''e2'', ep_name = [], ep_status = ''DISABLED'', ep_revision = 1, ep_provider = ''WEBHOOK'', ep_created = [], ep_updated = []\<rparr>]\<rparr>"

lemma emit_exactly_once_witness:
  "\<exists>n s'. emit_transaction_event_tx (sample_env 0) 0 ''t1'' ''credit'' ''ns'' ''k'' JNull [] sample_events_db = Inr (Some n, s') \<and>
    (\<exists>!d. d \<in> set (db_deliveries s') \<and> d_event d = n_event n \<and> d_endpoint d = ''e1'') \<and>
    emit_transaction_event_tx (sample_env 1) 5 ''t1'' ''credit'' ''ns'' ''k'' JNull [] s' = Inr (None, s')"
proof -
  have refs: "endpoint_refs sample_events_db = [(''e1'', 1, ''k1'')]"
    by (simp add: endpoint_refs_def sample_events_db_def)
  have fields: "db_events sample_events_db = []" "db_deliveries sample_events_db = []"
    "db_transactions sample_events_db = [sample_transaction ''t1'']" "t_id (sample_transaction i) = i" for i
    by (simp_all add: sample_events_db_def sample_transaction_def)
  have "\<exists>n s'. emit_transaction_event_tx (sample_env 0) 0 ''t1'' ''credit'' ''ns'' ''k'' JNull [] sample_events_db = Inr (Some n, s')"
    by (simp add: emit_transaction_event_tx_def refs fields Let_def bnd_Inr)
  then obtain n s' where e: "emit_transaction_event_tx (sample_env 0) 0 ''t1'' ''credit'' ''ns'' ''k'' JNull [] sample_events_db = Inr (Some n, s')"
    by blast
  have "events_inv sample_events_db"
    by (simp add: events_inv_def journal_inv_def sample_events_db_def)
  from emit_exactly_once[OF e this order.refl, of "sample_env 1" 5 "''ns''" "''k''" JNull "[]"] show ?thesis
    using e by (auto simp: refs)
qed

end
