(* ===== verification/Deliveries.thy ===== *)
theory Deliveries
  imports Events
begin

text \<open>
  internal/storage/deliveries.go with the delivery operations of events.go (\<open>FailDelivery\<close>,
  \<open>RecordAttempt\<close>), notifications.go (\<open>ReplayDelivery\<close>) and repository.go (\<open>SetEndpointStatus\<close>, the
  summaries): the queue of outgoing notifications.  A claim moves one due delivery to
  \<open>IN_FLIGHT\<close> under a token and a lease; only the token completes or fails it.  The clock argument of
  \<open>ClaimDelivery\<close> is in UTC, as its only caller passes it.
\<close>

section \<open>Operations\<close>

record claimed =
  cl_id :: string
  cl_event :: string
  cl_endpoint :: string
  cl_revision :: int
  cl_key :: string
  cl_provider :: string
  cl_status :: string
  cl_attempts :: int
  cl_start :: int
  cl_token :: string
  cl_lease :: string
  cl_next :: string

definition active_endpoint :: "string \<Rightarrow> db \<Rightarrow> endpoint option" where
  "active_endpoint i s = find (\<lambda>ep. ep_id ep = i \<and> ep_status ep = ''ACTIVE'') (db_endpoints s)"

definition lease_live :: "string \<Rightarrow> delivery \<Rightarrow> bool" where
  "lease_live stamp d \<longleftrightarrow> d_status d = ''IN_FLIGHT'' \<and> (case d_lease d of None \<Rightarrow> False | Some l \<Rightarrow> stamp \<le> l)"

definition endpoint_busy :: "string \<Rightarrow> delivery \<Rightarrow> db \<Rightarrow> bool" where
  "endpoint_busy stamp d s \<longleftrightarrow>
     (\<exists>a\<in>set (db_deliveries s). d_endpoint a = d_endpoint d \<and> lease_live stamp a \<and> d_id a \<noteq> d_id d)"

definition delivery_due :: "string \<Rightarrow> delivery \<Rightarrow> bool" where
  "delivery_due stamp d \<longleftrightarrow> d_status d = ''PENDING'' \<and> d_next d \<le> stamp \<or>
     d_status d = ''IN_FLIGHT'' \<and> (case d_lease d of None \<Rightarrow> False | Some l \<Rightarrow> l < stamp)"

definition claimable :: "string \<Rightarrow> db \<Rightarrow> delivery list" where
  "claimable stamp s = filter (\<lambda>d. active_endpoint (d_endpoint d) s \<noteq> None \<and> delivery_due stamp d \<and> \<not> endpoint_busy stamp d s)
     (db_deliveries s)"

definition taken :: "env \<Rightarrow> string \<Rightarrow> string \<Rightarrow> delivery \<Rightarrow> delivery" where
  "taken e token lease d = d\<lparr>d_status := ''IN_FLIGHT'', d_attempts := d_attempts d + 1, d_token := token,
     d_lease := Some lease, d_updated := now_text e\<rparr>"

definition claim_view :: "endpoint \<Rightarrow> delivery \<Rightarrow> string \<Rightarrow> string \<Rightarrow> claimed" where
  "claim_view ep d token lease = \<lparr>cl_id = d_id d, cl_event = d_event d, cl_endpoint = d_endpoint d, cl_revision = d_revision d,
     cl_key = d_key d, cl_provider = ep_provider ep, cl_status = ''IN_FLIGHT'', cl_attempts = d_attempts d + 1,
     cl_start = d_retry_start d, cl_token = token, cl_lease = lease, cl_next = d_next d\<rparr>"

definition claim_delivery_tx :: "env \<Rightarrow> instant \<Rightarrow> int \<Rightarrow> db \<Rightarrow> err + (claimed \<times> db)" where
  "claim_delivery_tx e at lease s =
     (if lease \<le> 0 then Inl (ErrText ''delivery lease must be positive'')
      else let stamp = fmt_nano at in
      case sort_key (\<lambda>d. (d_next d, d_id d)) (claimable stamp s) of
        [] \<Rightarrow> Inl ErrNoRows
      | d # _ \<Rightarrow> (case active_endpoint (d_endpoint d) s of
          None \<Rightarrow> Inl ErrNoRows
        | Some ep \<Rightarrow>
          let token = fresh_id e ''claim'' 0; until = fmt_nano (at + lease);
              p = (\<lambda>x. d_id x = d_id d \<and> delivery_due stamp x)
          in if count_where p (db_deliveries s) \<noteq> 1 then Inl ErrNoRows
             else Inr (claim_view ep d token until,
               s\<lparr>db_deliveries := update_where p (taken e token until) (db_deliveries s)\<rparr>)))"

definition claim_delivery :: "env \<Rightarrow> instant \<Rightarrow> int \<Rightarrow> db \<Rightarrow> (err + claimed) \<times> db" where
  "claim_delivery e at lease = run_tx (claim_delivery_tx e at lease)"

definition held_by :: "string \<Rightarrow> string \<Rightarrow> delivery \<Rightarrow> bool" where
  "held_by i token d \<longleftrightarrow> d_id d = i \<and> d_status d = ''IN_FLIGHT'' \<and> d_token d = token"

definition given_up :: "env \<Rightarrow> string \<Rightarrow> delivery \<Rightarrow> delivery" where
  "given_up e status d = d\<lparr>d_status := status, d_token := [], d_lease := None, d_updated := now_text e\<rparr>"

definition complete_delivery_tx :: "env \<Rightarrow> string \<Rightarrow> string \<Rightarrow> bool \<Rightarrow> instant \<Rightarrow> db \<Rightarrow> err + (unit \<times> db)" where
  "complete_delivery_tx e i token delivered retry s =
     (if i = [] \<or> token = [] then Inl (ErrText ''delivery claim is required'')
      else if count_where (held_by i token) (db_deliveries s) \<noteq> 1 then Inl ErrNoRows
      else Inr ((), s\<lparr>db_deliveries := update_where (held_by i token)
        (\<lambda>d. (given_up e (if delivered then ''DELIVERED'' else ''PENDING'') d)\<lparr>d_next := fmt_nano retry\<rparr>) (db_deliveries s)\<rparr>))"

definition complete_delivery :: "env \<Rightarrow> string \<Rightarrow> string \<Rightarrow> bool \<Rightarrow> instant \<Rightarrow> db \<Rightarrow> (err + unit) \<times> db" where
  "complete_delivery e i token delivered retry = run_tx (complete_delivery_tx e i token delivered retry)"

text \<open>The reason of a failure is an argument that nothing stores.\<close>

definition fail_delivery_tx :: "env \<Rightarrow> string \<Rightarrow> string \<Rightarrow> string \<Rightarrow> db \<Rightarrow> err + (unit \<times> db)" where
  "fail_delivery_tx e i token reason s =
     (if i = [] \<or> token = [] then Inl (ErrText ''delivery claim is required'')
      else if count_where (held_by i token) (db_deliveries s) \<noteq> 1 then Inl ErrNoRows
      else Inr ((), s\<lparr>db_deliveries := update_where (held_by i token) (given_up e ''DEAD_LETTER'') (db_deliveries s)\<rparr>))"

definition fail_delivery :: "env \<Rightarrow> string \<Rightarrow> string \<Rightarrow> string \<Rightarrow> db \<Rightarrow> (err + unit) \<times> db" where
  "fail_delivery e i token reason = run_tx (fail_delivery_tx e i token reason)"

definition record_attempt ::
  "env \<Rightarrow> string \<Rightarrow> int \<Rightarrow> int \<Rightarrow> int \<Rightarrow> string \<Rightarrow> string \<Rightarrow> string \<Rightarrow> string \<Rightarrow> db \<Rightarrow> (err + unit) \<times> db" where
  "record_attempt e i number status latency outcome error provider code s =
     (let row = \<lparr>at_id = fresh_id e ''att'' 0, at_delivery = i, at_number = number, at_status_code = status, at_latency = latency,
            at_outcome = outcome, at_error = error, at_provider = (if provider = [] then ''WEBHOOK'' else provider),
            at_provider_error = code, at_created = now_text e\<rparr>
      in if (\<exists>a\<in>set (db_attempts s). at_id a = at_id row \<or> at_delivery a = i \<and> at_number a = number) \<or>
           (\<forall>d\<in>set (db_deliveries s). d_id d \<noteq> i)
         then (Inl ErrConstraint, s)
         else (Inr (), s\<lparr>db_attempts := db_attempts s @ [row]\<rparr>))"

definition replay_delivery_tx :: "env \<Rightarrow> string \<Rightarrow> db \<Rightarrow> err + (unit \<times> db)" where
  "replay_delivery_tx e i s =
     (case find (\<lambda>d. d_id d = i \<and> (\<exists>ep\<in>set (db_endpoints s). ep_id ep = d_endpoint d)) (db_deliveries s) of
        None \<Rightarrow> Inl ErrNoRows
      | Some d \<Rightarrow> (case find (\<lambda>ep. ep_id ep = d_endpoint d) (db_endpoints s) of
          None \<Rightarrow> Inl ErrNoRows
        | Some ep \<Rightarrow>
          let p = (\<lambda>x. d_id x = i \<and> d_status x = ''DEAD_LETTER'') in
          if d_status d \<noteq> ''DEAD_LETTER'' then Inl ErrDeliveryNotDeadLetter
          else if ep_status ep \<noteq> ''ACTIVE'' then Inl ErrEndpointNotActive
          else if count_where p (db_deliveries s) \<noteq> 1 then Inl ErrNoRows
          else Inr ((), s\<lparr>db_deliveries := update_where p
            (\<lambda>x. x\<lparr>d_status := ''PENDING'', d_next := now_text e, d_retry_start := d_attempts x, d_updated := now_text e\<rparr>)
            (db_deliveries s)\<rparr>)))"

definition replay_delivery :: "env \<Rightarrow> string \<Rightarrow> db \<Rightarrow> (err + unit) \<times> db" where
  "replay_delivery e i = run_tx (replay_delivery_tx e i)"

definition set_endpoint_status :: "env \<Rightarrow> string \<Rightarrow> string \<Rightarrow> db \<Rightarrow> (err + unit) \<times> db" where
  "set_endpoint_status e i status s =
     (if status \<noteq> ''ACTIVE'' \<and> status \<noteq> ''DISABLED'' then (Inl (ErrText ''invalid endpoint status''), s)
      else let s' = s\<lparr>db_endpoints := update_where (\<lambda>ep. ep_id ep = i)
             (\<lambda>ep. ep\<lparr>ep_status := status, ep_updated := now_text e\<rparr>) (db_endpoints s)\<rparr>
      in (if count_where (\<lambda>ep. ep_id ep = i) (db_endpoints s) \<noteq> 1 then Inl ErrNoRows else Inr (), s'))"

text \<open>The time at which a worker looks again: SQL's \<open>min\<close> over the texts of the deadlines.\<close>

definition deadline_rows :: "string \<Rightarrow> db \<Rightarrow> delivery list" where
  "deadline_rows stamp s = filter (\<lambda>d. active_endpoint (d_endpoint d) s \<noteq> None \<and> d_status d \<in> {''PENDING'', ''IN_FLIGHT''} \<and>
     (d_status d \<noteq> ''IN_FLIGHT'' \<or> d_lease d \<noteq> None) \<and> \<not> endpoint_busy stamp d s) (db_deliveries s)"

definition deadline_text :: "delivery \<Rightarrow> string" where
  "deadline_text d = (if d_status d = ''IN_FLIGHT'' then (case d_lease d of None \<Rightarrow> [] | Some l \<Rightarrow> l) else d_next d)"

definition next_delivery_due :: "instant \<Rightarrow> db \<Rightarrow> err + instant" where
  "next_delivery_due at s =
     (case map deadline_text (deadline_rows (fmt_nano at) s) of
        [] \<Rightarrow> Inl ErrNoRows
      | x # xs \<Rightarrow> (let raw = fold min xs x in
          if raw = [] then Inl ErrNoRows else case parse_nano raw of None \<Rightarrow> Inl ErrParse | Some t \<Rightarrow> Inr t))"

record delivery_summary =
  ds_pending :: int
  ds_dead :: int

definition summary_of :: "delivery list \<Rightarrow> delivery_summary" where
  "summary_of ds = \<lparr>ds_pending = int (count_where (\<lambda>d. d_status d \<in> {''PENDING'', ''IN_FLIGHT'', ''RETRYING''}) ds),
     ds_dead = int (count_where (\<lambda>d. d_status d = ''DEAD_LETTER'') ds)\<rparr>"

definition summarize_deliveries :: "db \<Rightarrow> delivery_summary" where
  "summarize_deliveries s = summary_of (db_deliveries s)"

definition provider_deliveries :: "string \<Rightarrow> db \<Rightarrow> delivery list" where
  "provider_deliveries p s = filter (\<lambda>d. \<exists>ep\<in>set (db_endpoints s). ep_id ep = d_endpoint d \<and> ep_provider ep = p) (db_deliveries s)"

text \<open>\<open>ByProvider\<close> starts with the two known providers and gets an entry for every provider with a delivery.\<close>

definition notification_summary :: "db \<Rightarrow> delivery_summary \<times> (string \<times> delivery_summary) list" where
  "notification_summary s = (summarize_deliveries s,
     map (\<lambda>p. (p, summary_of (provider_deliveries p s)))
       (remdups ([''WEBHOOK'', ''BARK''] @ map ep_provider (filter (\<lambda>ep. \<exists>d\<in>set (db_deliveries s). d_endpoint d = ep_id ep) (db_endpoints s)))))"

section \<open>The invariant of the queue\<close>

definition delivery_wf :: "delivery \<Rightarrow> bool" where
  "delivery_wf d \<longleftrightarrow> d_status d \<in> {''PENDING'', ''IN_FLIGHT'', ''DELIVERED'', ''DEAD_LETTER''} \<and>
     (if d_status d = ''IN_FLIGHT'' then d_token d \<noteq> [] \<and> (case d_lease d of None \<Rightarrow> False | Some l \<Rightarrow> stamp_text l)
      else d_token d = [] \<and> d_lease d = None) \<and>
     stamp_text (d_next d) \<and> 0 \<le> d_retry_start d \<and>
     (if d_status d = ''IN_FLIGHT'' then d_retry_start d < d_attempts d else d_retry_start d \<le> d_attempts d)"

definition queue_inv :: "db \<Rightarrow> bool" where
  "queue_inv s \<longleftrightarrow> events_inv s \<and> list_all delivery_wf (db_deliveries s)"

text \<open>What a row may become: it keeps its identity, its counters never go back, and \<open>DELIVERED\<close> is final.\<close>

definition delivery_extends :: "delivery \<Rightarrow> delivery \<Rightarrow> bool" where
  "delivery_extends d d' \<longleftrightarrow> d_id d' = d_id d \<and> d_event d' = d_event d \<and> d_endpoint d' = d_endpoint d \<and>
     d_revision d' = d_revision d \<and> d_key d' = d_key d \<and> d_created d' = d_created d \<and>
     d_attempts d \<le> d_attempts d' \<and> d_retry_start d \<le> d_retry_start d' \<and> (d_status d = ''DELIVERED'' \<longrightarrow> d' = d)"

definition deliveries_extend :: "delivery list \<Rightarrow> delivery list \<Rightarrow> bool" where
  "deliveries_extend ds ds' \<longleftrightarrow> (\<forall>d\<in>set ds. \<exists>d'\<in>set ds'. delivery_extends d d')"

lemma delivery_extends_refl [simp]: "delivery_extends d d"
  by (simp add: delivery_extends_def)

lemma delivery_extends_trans: "delivery_extends a b \<Longrightarrow> delivery_extends b c \<Longrightarrow> delivery_extends a c"
  by (auto simp: delivery_extends_def)

lemma deliveries_extend_refl [simp]: "deliveries_extend ds ds"
  unfolding deliveries_extend_def using delivery_extends_refl by blast

lemma deliveries_extend_trans: "deliveries_extend a b \<Longrightarrow> deliveries_extend b c \<Longrightarrow> deliveries_extend a c"
  unfolding deliveries_extend_def using delivery_extends_trans by blast

lemma deliveries_extend_append: "deliveries_extend ds (ds @ new)"
  unfolding deliveries_extend_def set_append using delivery_extends_refl by blast

lemma deliveries_extend_update:
  "(\<And>d. d \<in> set ds \<Longrightarrow> p d \<Longrightarrow> delivery_extends d (f d)) \<Longrightarrow> deliveries_extend ds (update_where p f ds)"
  unfolding deliveries_extend_def set_update_where by (metis (mono_tags, lifting) UnI1 UnI2 image_eqI mem_Collect_eq delivery_extends_refl)

lemma queue_wf: "queue_inv s \<Longrightarrow> d \<in> set (db_deliveries s) \<Longrightarrow> delivery_wf d"
  by (simp add: queue_inv_def list_all_iff)

lemma queue_ids: "queue_inv s \<Longrightarrow> distinct (map d_id (db_deliveries s))"
  by (simp add: queue_inv_def events_inv_def)

definition queue_step :: "db \<Rightarrow> db \<Rightarrow> bool" where
  "queue_step s s' \<longleftrightarrow> queue_inv s' \<and> deliveries_extend (db_deliveries s) (db_deliveries s')"

lemma queue_step_refl: "queue_inv s \<Longrightarrow> queue_step s s"
  by (simp add: queue_step_def)

text \<open>Every operation on the rows is an update that keeps the identity of a row and its form.\<close>

lemma queue_update:
  assumes "queue_inv s" and "s' = s\<lparr>db_deliveries := update_where p f (db_deliveries s)\<rparr>"
    and "\<And>d. d \<in> set (db_deliveries s) \<Longrightarrow> p d \<Longrightarrow> delivery_wf d \<Longrightarrow> delivery_wf (f d) \<and> delivery_extends d (f d)"
  shows "queue_step s s'"
proof -
  have ext: "delivery_extends d (if p d then f d else d)" if "d \<in> set (db_deliveries s)" for d
    using assms(3) queue_wf[OF assms(1)] that by simp
  then have same: "map d_id (db_deliveries s') = map d_id (db_deliveries s)"
    "map (\<lambda>d. (d_event d, d_endpoint d)) (db_deliveries s') = map (\<lambda>d. (d_event d, d_endpoint d)) (db_deliveries s)"
    by (auto simp: assms(2) update_where_def delivery_extends_def)
  have "d_event ` set (db_deliveries s') = d_event ` set (db_deliveries s)"
    using same(2) by (metis (no_types, lifting) image_cong image_image list.set_map fst_conv)
  then have ev: "\<forall>d\<in>set (db_deliveries s'). d_event d \<in> ev_id ` set (db_events s)"
    using assms(1) by (fastforce simp: queue_inv_def events_inv_def)
  have "events_inv s'"
    using assms(1) same ev by (simp add: queue_inv_def events_inv_def journal_inv_def assms(2))
  moreover have "list_all delivery_wf (db_deliveries s')"
    using assms queue_wf[OF assms(1)] by (auto simp: list_all_iff set_update_where)
  moreover have "deliveries_extend (db_deliveries s) (db_deliveries s')"
    using assms queue_wf[OF assms(1)] by (auto intro!: deliveries_extend_update)
  ultimately show ?thesis by (simp add: queue_step_def queue_inv_def)
qed

lemma queue_same:
  "queue_inv s \<Longrightarrow> db_deliveries s' = db_deliveries s \<Longrightarrow> db_events s' = db_events s \<Longrightarrow> db_journal s' = db_journal s \<Longrightarrow>
    db_journal_seq s' = db_journal_seq s \<Longrightarrow> queue_step s s'"
  by (simp add: queue_step_def queue_inv_def events_inv_def journal_inv_def)

lemma taken_fields [simp]: "d_id (taken e k l d) = d_id d" "d_endpoint (taken e k l d) = d_endpoint d"
  "d_status (taken e k l d) = ''IN_FLIGHT''" "d_token (taken e k l d) = k" "d_lease (taken e k l d) = Some l"
  "d_attempts (taken e k l d) = d_attempts d + 1" "d_event (taken e k l d) = d_event d" "d_next (taken e k l d) = d_next d"
  "d_retry_start (taken e k l d) = d_retry_start d"
  by (simp_all add: taken_def)

lemma claim_view_fields [simp]: "cl_id (claim_view ep d k l) = d_id d" "cl_endpoint (claim_view ep d k l) = d_endpoint d"
  "cl_token (claim_view ep d k l) = k" "cl_lease (claim_view ep d k l) = l" "cl_attempts (claim_view ep d k l) = d_attempts d + 1"
  "cl_start (claim_view ep d k l) = d_retry_start d" "cl_event (claim_view ep d k l) = d_event d"
  by (simp_all add: claim_view_def)

text \<open>A claim that succeeds.\<close>

lemma claim_success:
  assumes "claim_delivery e at lease s = (Inr c, s')"
  obtains d ep rest where "sort_key (\<lambda>d. (d_next d, d_id d)) (claimable (fmt_nano at) s) = d # rest"
    "active_endpoint (d_endpoint d) s = Some ep" "0 < lease" "d \<in> set (claimable (fmt_nano at) s)"
    "c = claim_view ep d (fresh_id e ''claim'' 0) (fmt_nano (at + lease))"
    "s' = s\<lparr>db_deliveries := update_where (\<lambda>x. d_id x = d_id d \<and> delivery_due (fmt_nano at) x)
       (taken e (fresh_id e ''claim'' 0) (fmt_nano (at + lease))) (db_deliveries s)\<rparr>"
proof -
  from assms obtain d ep rest where d: "sort_key (\<lambda>d. (d_next d, d_id d)) (claimable (fmt_nano at) s) = d # rest"
    "active_endpoint (d_endpoint d) s = Some ep" "0 < lease"
    "c = claim_view ep d (fresh_id e ''claim'' 0) (fmt_nano (at + lease))"
    "s' = s\<lparr>db_deliveries := update_where (\<lambda>x. d_id x = d_id d \<and> delivery_due (fmt_nano at) x)
       (taken e (fresh_id e ''claim'' 0) (fmt_nano (at + lease))) (db_deliveries s)\<rparr>"
    by (auto simp: claim_delivery_def run_tx_Inr claim_delivery_tx_def Let_def split: if_split_asm list.split_asm option.split_asm)
  have "d \<in> set (claimable (fmt_nano at) s)" using d(1) by (metis list.set_intros(1) set_sort)
  with d that show thesis by blast
qed

lemma delivery_claim_step:
  assumes "queue_inv s" "clock_ok at" "lease \<le> 86400 * second"
  shows "queue_step s (snd (claim_delivery e at lease s))"
proof (cases "claim_delivery e at lease s")
  case (Pair r s')
  show ?thesis
  proof (cases r)
    case (Inl x)
    with Pair assms(1) show ?thesis by (auto simp: claim_delivery_def run_tx_Inl snd_run_tx intro: queue_step_refl)
  next
    case (Inr c)
    with Pair have c: "claim_delivery e at lease s = (Inr c, s')" by simp
    from c obtain d :: delivery where l: "0 < lease" and s': "s' = s\<lparr>db_deliveries := update_where (\<lambda>x. d_id x = d_id d \<and> delivery_due (fmt_nano at) x)
       (taken e (fresh_id e ''claim'' 0) (fmt_nano (at + lease))) (db_deliveries s)\<rparr>" by (rule claim_success) (rule that; assumption)
    have "stamp_text (fmt_nano (at + lease))" using assms(2,3) l by (intro stamp_now clock_in_range) simp_all
    then have "queue_step s s'"
      by (intro queue_update[OF assms(1) s']) (auto simp: delivery_wf_def delivery_extends_def taken_def delivery_due_def)
    with Pair show ?thesis by simp
  qed
qed

lemma held_by_extends: "held_by i token d \<Longrightarrow> delivery_extends d ((given_up e st d)\<lparr>d_next := n\<rparr>) \<and> delivery_extends d (given_up e st d)"
  by (simp add: held_by_def delivery_extends_def given_up_def)

lemma given_up_wf:
  "held_by i token d \<Longrightarrow> delivery_wf d \<Longrightarrow> st \<in> {''PENDING'', ''DELIVERED'', ''DEAD_LETTER''} \<Longrightarrow> stamp_text n \<Longrightarrow>
    delivery_wf ((given_up e st d)\<lparr>d_next := n\<rparr>) \<and> delivery_wf (given_up e st d)"
  by (auto simp: held_by_def delivery_wf_def given_up_def)

lemma delivery_complete_step:
  assumes "queue_inv s" "in_range retry"
  shows "queue_step s (snd (complete_delivery e i token delivered retry s))"
proof (cases "complete_delivery_tx e i token delivered retry s")
  case (Inl x)
  with assms(1) show ?thesis by (simp add: complete_delivery_def snd_run_tx queue_step_refl)
next
  case (Inr r)
  then have "queue_step s (snd r)"
    by (intro queue_update[OF assms(1), of _ "held_by i token"
          "\<lambda>d. (given_up e (if delivered then ''DELIVERED'' else ''PENDING'') d)\<lparr>d_next := fmt_nano retry\<rparr>"])
      (use assms(2) stamp_now in \<open>auto simp: complete_delivery_tx_def held_by_extends given_up_wf split: if_splits\<close>)
  with Inr show ?thesis by (simp add: complete_delivery_def snd_run_tx)
qed

lemma fail_step:
  assumes "queue_inv s"
  shows "queue_step s (snd (fail_delivery e i token reason s))"
proof (cases "fail_delivery_tx e i token reason s")
  case (Inl x)
  with assms show ?thesis by (simp add: fail_delivery_def run_tx_def queue_step_refl)
next
  case (Inr r)
  have "queue_step s (snd r)"
  proof (rule queue_update[OF assms, of _ "held_by i token" "given_up e ''DEAD_LETTER''"])
    show "snd r = s\<lparr>db_deliveries := update_where (held_by i token) (given_up e ''DEAD_LETTER'') (db_deliveries s)\<rparr>"
      using Inr by (auto simp: fail_delivery_tx_def split: if_splits)
    show "delivery_wf (given_up e ''DEAD_LETTER'' d) \<and> delivery_extends d (given_up e ''DEAD_LETTER'' d)"
      if "held_by i token d" "delivery_wf d" for d
      using that given_up_wf[OF that, of "''DEAD_LETTER''" "d_next d" e] held_by_extends[OF that(1)] by (simp add: delivery_wf_def)
  qed
  with Inr show ?thesis by (simp add: fail_delivery_def snd_run_tx)
qed

lemma record_step: "queue_inv s \<Longrightarrow> queue_step s (snd (record_attempt e i n st l oc er pv cd s))"
  by (auto simp: record_attempt_def Let_def queue_step_refl intro: queue_same)

lemma status_step: "queue_inv s \<Longrightarrow> queue_step s (snd (set_endpoint_status e i st s))"
  by (auto simp: set_endpoint_status_def Let_def queue_step_refl intro: queue_same)

lemma replay_success:
  assumes "replay_delivery_tx e i s = Inr r"
  shows "snd r = s\<lparr>db_deliveries := update_where (\<lambda>x. d_id x = i \<and> d_status x = ''DEAD_LETTER'')
    (\<lambda>x. x\<lparr>d_status := ''PENDING'', d_next := now_text e, d_retry_start := d_attempts x, d_updated := now_text e\<rparr>) (db_deliveries s)\<rparr>"
  using assms by (auto simp: replay_delivery_tx_def Let_def split: option.split_asm if_split_asm)

lemma replay_step:
  assumes "queue_inv s" "clock_ok (e_now e)"
  shows "queue_step s (snd (replay_delivery e i s))"
proof (cases "replay_delivery_tx e i s")
  case (Inl x)
  with assms(1) show ?thesis by (simp add: replay_delivery_def run_tx_def queue_step_refl)
next
  case (Inr r)
  have "stamp_text (now_text e)" using assms(2) by (simp add: now_text_def stamp_now clock_in_range0)
  then have "queue_step s (snd r)"
    by (intro queue_update[OF assms(1) replay_success[OF Inr]]) (auto simp: delivery_wf_def delivery_extends_def)
  with Inr show ?thesis by (simp add: replay_delivery_def snd_run_tx)
qed

lemma emit_step:
  assumes "queue_inv s" "clock_ok (e_now e)"
  shows "queue_step s (snd (emit_transaction_event e tid ty ns key data s))"
proof (cases "emit_transaction_event_tx e 0 tid ty ns key data (now_text e) s")
  case (Inl x)
  with assms(1) show ?thesis by (simp add: emit_transaction_event_def run_tx_def queue_step_refl)
next
  case (Inr r)
  obtain n s' where r: "r = (n, s')" by fastforce
  have inv: "events_inv s'" using emit_inv Inr assms(1) unfolding r queue_inv_def by blast
  have "queue_step s s'"
  proof (cases n)
    case None
    with emit_none Inr r assms(1) show ?thesis using queue_step_refl by blast
  next
    case (Some nt)
    obtain ds where ds: "insert_deliveries e 0 (n_event nt) (now_text e) (endpoint_refs s) (db_deliveries s) = Inr ds"
      "db_deliveries s' = ds"
      using Inr unfolding r Some by (rule emit_new) simp
    obtain new where new: "ds = db_deliveries s @ new" "\<forall>d\<in>set new. d_status d = ''PENDING'' \<and> d_attempts d = 0 \<and>
        d_lease d = None \<and> d_token d = [] \<and> d_next d = now_text e \<and> d_retry_start d = 0"
      using insert_deliveries_spec[OF ds(1)] unfolding deliveries_added_def by blast
    have st: "stamp_text (now_text e)" using assms(2) by (simp add: now_text_def stamp_now clock_in_range0)
    have "list_all delivery_wf new"
      using new(2) st by (auto simp: list_all_iff delivery_wf_def)
    then show ?thesis using inv assms(1) ds(2) new(1) by (simp add: queue_step_def queue_inv_def deliveries_extend_append)
  qed
  with Inr r show ?thesis by (simp add: emit_transaction_event_def snd_run_tx)
qed

section \<open>Histories of queue calls\<close>

datatype delivery_call =
    DClaim env instant int
  | DComplete env string string bool instant
  | DFail env string string string
  | DRecord env string int int int string string string string
  | DReplay env string
  | DStatus env string string
  | DEmit env string string string string jval

fun delivery_exec :: "delivery_call \<Rightarrow> db \<Rightarrow> db" where
  "delivery_exec (DClaim e at lease) s = snd (claim_delivery e at lease s)"
| "delivery_exec (DComplete e i token delivered retry) s = snd (complete_delivery e i token delivered retry s)"
| "delivery_exec (DFail e i token reason) s = snd (fail_delivery e i token reason s)"
| "delivery_exec (DRecord e i n st l oc er pv cd) s = snd (record_attempt e i n st l oc er pv cd s)"
| "delivery_exec (DReplay e i) s = snd (replay_delivery e i s)"
| "delivery_exec (DStatus e i st) s = snd (set_endpoint_status e i st s)"
| "delivery_exec (DEmit e tid ty ns key data) s = snd (emit_transaction_event e tid ty ns key data s)"

fun delivery_ok :: "delivery_call \<Rightarrow> bool" where
  "delivery_ok (DClaim e at lease) \<longleftrightarrow> clock_ok at \<and> lease \<le> 86400 * second"
| "delivery_ok (DComplete e i token delivered retry) \<longleftrightarrow> in_range retry"
| "delivery_ok (DReplay e i) \<longleftrightarrow> clock_ok (e_now e)"
| "delivery_ok (DEmit e tid ty ns key data) \<longleftrightarrow> clock_ok (e_now e)"
| "delivery_ok _ \<longleftrightarrow> True"

lemma delivery_exec_step: "delivery_ok c \<Longrightarrow> queue_inv s \<Longrightarrow> queue_step s (delivery_exec c s)"
  by (cases c) (simp_all add: delivery_claim_step delivery_complete_step fail_step record_step replay_step status_step emit_step)

interpretation dq: call_machine delivery_exec delivery_ok queue_inv
proof
  show "queue_inv (delivery_exec c s)" if "delivery_ok c" "queue_inv s" for c s
    using delivery_exec_step[OF that] by (simp add: queue_step_def)
qed

lemma history_queue_step:
  assumes "list_all delivery_ok cs" "queue_inv s"
  shows "queue_step s (dq.history cs s)"
proof -
  have "deliveries_extend (db_deliveries s) (db_deliveries (dq.history cs s))"
    by (rule dq.history_rel[where r = "\<lambda>a b. deliveries_extend (db_deliveries a) (db_deliveries b)"])
      (use assms deliveries_extend_trans delivery_exec_step queue_step_def in auto)
  then show ?thesis using assms by (simp add: queue_step_def dq.history_inv)
qed

section \<open>A claim keeps its row\<close>

definition owned :: "claimed \<Rightarrow> db \<Rightarrow> bool" where
  "owned c s \<longleftrightarrow> (\<exists>d\<in>set (db_deliveries s). held_by (cl_id c) (cl_token c) d \<and> d_endpoint d = cl_endpoint c \<and>
     d_event d = cl_event c \<and> d_lease d = Some (cl_lease c) \<and> d_attempts d = cl_attempts c)"

text \<open>A call that neither completes nor fails the claim, and claims no delivery after the second \<open>sec\<close>.\<close>

fun leaves_alone :: "claimed \<Rightarrow> int \<Rightarrow> delivery_call \<Rightarrow> bool" where
  "leaves_alone c sec (DClaim e at lease) \<longleftrightarrow> at div second < sec"
| "leaves_alone c sec (DComplete e i token delivered retry) \<longleftrightarrow> i \<noteq> cl_id c \<or> token \<noteq> cl_token c"
| "leaves_alone c sec (DFail e i token reason) \<longleftrightarrow> i \<noteq> cl_id c \<or> token \<noteq> cl_token c"
| "leaves_alone c sec _ \<longleftrightarrow> True"

lemma update_where_keeps: "d \<in> set rs \<Longrightarrow> \<not> p d \<Longrightarrow> d \<in> set (update_where p f rs)"
  by (auto simp: set_update_where)

lemma owned_update:
  assumes "owned c s" "\<And>d. held_by (cl_id c) (cl_token c) d \<Longrightarrow> d_lease d = Some (cl_lease c) \<Longrightarrow> \<not> p d"
  shows "owned c (s\<lparr>db_deliveries := update_where p f (db_deliveries s)\<rparr>)"
proof -
  obtain d where d: "d \<in> set (db_deliveries s)" "held_by (cl_id c) (cl_token c) d" "d_endpoint d = cl_endpoint c"
     "d_event d = cl_event c" "d_lease d = Some (cl_lease c)" "d_attempts d = cl_attempts c"
    using assms(1) unfolding owned_def by blast
  have "d \<in> set (update_where p f (db_deliveries s))" using d(1) assms(2)[OF d(2,5)] by (rule update_where_keeps)
  with d show ?thesis unfolding owned_def by (intro bexI[of _ d]) simp_all
qed

lemma owned_same: "owned c s \<Longrightarrow> db_deliveries s' = db_deliveries s \<Longrightarrow> owned c s'"
  by (simp add: owned_def)

lemma lease_not_due:
  assumes "held_by i k d" "d_lease d = Some (fmt_nano l)" "in_range l" "clock_ok at" "at div second < l div second"
  shows "\<not> delivery_due (fmt_nano at) d \<and> lease_live (fmt_nano at) d"
  using fmt_nano_less_seconds[OF clock_in_range0[OF assms(4)] assms(3,5)] assms(1,2)
  by (auto simp: delivery_due_def lease_live_def held_by_def)

lemma owned_kept:
  assumes "owned c s" "delivery_ok call" "leaves_alone c (l div second) call" "cl_lease c = fmt_nano l" "in_range l"
  shows "owned c (delivery_exec call s)"
proof (cases call)
  case (DClaim e at lease)
  show ?thesis
  proof (cases "claim_delivery e at lease s")
    case (Pair r s')
    show ?thesis
    proof (cases r)
      case (Inl x)
      with Pair DClaim assms(1) show ?thesis by (auto simp: claim_delivery_def run_tx_Inl snd_run_tx)
    next
      case (Inr v)
      obtain d :: delivery where s': "s' = s\<lparr>db_deliveries := update_where (\<lambda>x. d_id x = d_id d \<and> delivery_due (fmt_nano at) x)
         (taken e (fresh_id e ''claim'' 0) (fmt_nano (at + lease))) (db_deliveries s)\<rparr>"
        using Pair unfolding Inr by (rule claim_success) (rule that; assumption)
      have "owned c s'" unfolding s'
        by (rule owned_update[OF assms(1)]) (use lease_not_due[of _ _ _ l at] assms DClaim in auto)
      then show ?thesis using Pair DClaim by simp
    qed
  qed
next
  case (DComplete e i token delivered retry)
  with assms(1,3) show ?thesis
    by (auto simp: complete_delivery_def snd_run_tx complete_delivery_tx_def held_by_def intro!: owned_update)
next
  case (DFail e i token reason)
  with assms(1,3) show ?thesis
    by (auto simp: fail_delivery_def snd_run_tx fail_delivery_tx_def held_by_def intro!: owned_update)
next
  case (DRecord e i n st l oc er pv cd)
  with assms(1) show ?thesis by (auto simp: record_attempt_def Let_def intro: owned_same)
next
  case (DReplay e i)
  show ?thesis
  proof (cases "replay_delivery_tx e i s")
    case (Inr r)
    have "owned c (snd r)" unfolding replay_success[OF Inr]
      by (rule owned_update[OF assms(1)]) (simp add: held_by_def)
    with Inr show ?thesis by (simp add: DReplay replay_delivery_def snd_run_tx)
  qed (use assms(1) in \<open>simp add: DReplay replay_delivery_def snd_run_tx\<close>)
next
  case (DStatus e i st)
  with assms(1) show ?thesis by (auto simp: set_endpoint_status_def Let_def intro: owned_same)
next
  case (DEmit e tid ty ns key data)
  show ?thesis
  proof (cases "emit_transaction_event_tx e 0 tid ty ns key data (now_text e) s")
    case (Inr r)
    obtain n s' where r: "r = (n, s')" by fastforce
    have "set (db_deliveries s) \<subseteq> set (db_deliveries s')"
    proof (cases n)
      case (Some nt)
      obtain ds where ds: "insert_deliveries e 0 (n_event nt) (now_text e) (endpoint_refs s) (db_deliveries s) = Inr ds"
        "db_deliveries s' = ds"
        using Inr unfolding r Some by (rule emit_new) simp
      obtain new where "ds = db_deliveries s @ new"
        using insert_deliveries_spec[OF ds(1)] unfolding deliveries_added_def by blast
      then show ?thesis using ds(2) by simp
    next
      case None
      then show ?thesis using emit_none[of e 0 tid ty ns key data "now_text e" s s'] Inr r by simp
    qed
    then have "owned c s'" using assms(1) unfolding owned_def by blast
    with Inr r show ?thesis by (simp add: DEmit emit_transaction_event_def snd_run_tx)
  qed (use assms(1) in \<open>simp add: DEmit emit_transaction_event_def snd_run_tx\<close>)
qed

lemma claim_owned:
  assumes "claim_delivery e at lease s = (Inr c, s')"
  shows "owned c s' \<and> cl_lease c = fmt_nano (at + lease) \<and> 0 < lease \<and> cl_token c \<noteq> [] \<and>
    (\<exists>d\<in>set (db_deliveries s). d_id d = cl_id c \<and> d_endpoint d = cl_endpoint c \<and> delivery_due (fmt_nano at) d \<and>
      \<not> endpoint_busy (fmt_nano at) d s)"
proof -
  from assms obtain d :: delivery and ep where d: "0 < lease" "d \<in> set (claimable (fmt_nano at) s)"
    "c = claim_view ep d (fresh_id e ''claim'' 0) (fmt_nano (at + lease))"
    "s' = s\<lparr>db_deliveries := update_where (\<lambda>x. d_id x = d_id d \<and> delivery_due (fmt_nano at) x)
       (taken e (fresh_id e ''claim'' 0) (fmt_nano (at + lease))) (db_deliveries s)\<rparr>"
    by (rule claim_success) (rule that; assumption)
  have "taken e (fresh_id e ''claim'' 0) (fmt_nano (at + lease)) d \<in> set (db_deliveries s')"
    using d(2) by (auto simp: d(4) set_update_where claimable_def)
  then have "owned c s'" unfolding owned_def d(3) by (intro bexI) (auto simp: held_by_def)
  then show ?thesis using d(1,2) by (auto simp: d(3) claimable_def)
qed

lemma held_count:
  assumes "queue_inv s" "d \<in> set (db_deliveries s)" "held_by i k d"
  shows "count_where (held_by i k) (db_deliveries s) = 1"
proof -
  have "count_where (held_by i k) (db_deliveries s) = count_where (\<lambda>x. d_id x = i) (db_deliveries s)"
    unfolding count_where_def
  proof (intro arg_cong[of _ _ length] filter_cong refl)
    show "held_by i k x = (d_id x = i)" if "x \<in> set (db_deliveries s)" for x
      using distinct_key_eq[OF queue_ids[OF assms(1)] that assms(2)] assms(3) by (auto simp: held_by_def)
  qed
  moreover have "count_where (\<lambda>x. d_id x = i) (db_deliveries s) \<le> 1"
    by (rule count_key_le_1[OF queue_ids[OF assms(1)]])
  moreover have "count_where (\<lambda>x. d_id x = i) (db_deliveries s) \<noteq> 0"
    using assms(2,3) by (auto simp: count_where_0 held_by_def)
  ultimately show ?thesis by simp
qed

lemma not_held_count:
  assumes "queue_inv s" "d \<in> set (db_deliveries s)" "held_by i k d" "k' \<noteq> k"
  shows "count_where (held_by i k') (db_deliveries s) = 0"
  using distinct_key_eq[OF queue_ids[OF assms(1)] _ assms(2)] assms(3,4) by (auto simp: count_where_0 held_by_def)

text \<open>What completing does to the row that the token holds.\<close>

lemma complete_held:
  assumes "queue_inv s" "d \<in> set (db_deliveries s)" "held_by i k d" "i \<noteq> []" "k \<noteq> []"
  shows "complete_delivery e i k delivered retry s = (Inr (), s\<lparr>db_deliveries := update_where (held_by i k)
    (\<lambda>d. (given_up e (if delivered then ''DELIVERED'' else ''PENDING'') d)\<lparr>d_next := fmt_nano retry\<rparr>) (db_deliveries s)\<rparr>)"
  using held_count[OF assms(1-3)] assms(4,5) by (simp add: complete_delivery_def run_tx_def complete_delivery_tx_def)

section \<open>Properties\<close>

text \<open>
  C4.  A claim is exclusive: until the second in which its lease ends, whatever other workers do (further
  claims, completions and failures under other tokens, replays, endpoint changes, new events), the
  delivery stays in flight under the claim's token, no claim hands out a delivery for the same endpoint,
  no other token can complete or fail it, and its own token completes it.
\<close>

theorem claim_delivery_exclusive:
  assumes "claim_delivery e at lease s = (Inr c, s')" and "queue_inv s" and "clock_ok at" and "lease \<le> 86400 * second"
    and "list_all delivery_ok cs" and "list_all (leaves_alone c ((at + lease) div second)) cs" and "cl_id c \<noteq> []"
  shows "owned c (dq.history cs s') \<and>
    (\<forall>e2 at2 lease2 c2 t. clock_ok at2 \<longrightarrow> at2 div second < (at + lease) div second \<longrightarrow>
       claim_delivery e2 at2 lease2 (dq.history cs s') = (Inr c2, t) \<longrightarrow> cl_endpoint c2 \<noteq> cl_endpoint c) \<and>
    (\<forall>e2 token delivered retry reason. token \<noteq> cl_token c \<longrightarrow>
       complete_delivery e2 (cl_id c) token delivered retry (dq.history cs s') \<noteq> (Inr (), dq.history cs s') \<and>
       snd (complete_delivery e2 (cl_id c) token delivered retry (dq.history cs s')) = dq.history cs s' \<and>
       snd (fail_delivery e2 (cl_id c) token reason (dq.history cs s')) = dq.history cs s') \<and>
    (\<forall>e2 retry. fst (complete_delivery e2 (cl_id c) (cl_token c) True retry (dq.history cs s')) = Inr ())"
proof -
  let ?s = "dq.history cs s'"
  note c = claim_owned[OF assms(1)]
  have range: "in_range (at + lease)" using assms(3,4) c by (intro clock_in_range) simp_all
  have inv': "queue_inv s'" using delivery_claim_step[OF assms(2-4), of e] assms(1) by (simp add: queue_step_def)
  have inv: "queue_inv ?s" using dq.history_inv[OF assms(5) inv'] .
  have own: "owned c ?s"
  proof (use assms(5,6) inv' c in \<open>induction cs arbitrary: s'\<close>)
    case (Cons call cs)
    have "owned c (delivery_exec call s')"
      using owned_kept[of c s' call "at + lease"] Cons.prems range by simp
    with Cons show ?case by (simp add: dq.exec_inv)
  qed simp
  obtain d where d: "d \<in> set (db_deliveries ?s)" "held_by (cl_id c) (cl_token c) d" "d_endpoint d = cl_endpoint c"
    "d_lease d = Some (cl_lease c)"
    using own unfolding owned_def by blast
  have "cl_endpoint c2 \<noteq> cl_endpoint c"
    if at2: "clock_ok at2" "at2 div second < (at + lease) div second"
      and c2: "claim_delivery e2 at2 lease2 ?s = (Inr c2, t)" for e2 at2 lease2 c2 t
  proof
    assume same: "cl_endpoint c2 = cl_endpoint c"
    have live: "\<not> delivery_due (fmt_nano at2) d \<and> lease_live (fmt_nano at2) d"
      using lease_not_due[OF d(2) _ range at2(1,2)] d(4) c by simp
    obtain x where x: "x \<in> set (db_deliveries ?s)" "d_endpoint x = cl_endpoint c2" "delivery_due (fmt_nano at2) x"
      "\<not> endpoint_busy (fmt_nano at2) x ?s"
      using claim_owned[OF c2] by blast
    then have "d_id x = d_id d" using d(1,3) live same unfolding endpoint_busy_def by auto
    then have "x = d" using distinct_key_eq[OF queue_ids[OF inv] x(1) d(1)] by simp
    with x(3) live show False by simp
  qed
  moreover have "complete_delivery e2 (cl_id c) token delivered retry ?s \<noteq> (Inr (), ?s) \<and>
      snd (complete_delivery e2 (cl_id c) token delivered retry ?s) = ?s \<and> snd (fail_delivery e2 (cl_id c) token reason ?s) = ?s"
    if "token \<noteq> cl_token c" for e2 token delivered retry reason
    using not_held_count[OF inv d(1,2) that]
    by (simp add: complete_delivery_def fail_delivery_def complete_delivery_tx_def fail_delivery_tx_def run_tx_def)
  moreover have "fst (complete_delivery e2 (cl_id c) (cl_token c) True retry ?s) = Inr ()" for e2 retry
    using complete_held[OF inv d(1,2) assms(7)] c by simp
  ultimately show ?thesis using own by blast
qed

text \<open>
  C5.  No delivery is lost or sent twice by the queue itself: along every history of queue calls each row
  keeps its event, endpoint, revision and key, its counters never go back, a \<open>DELIVERED\<close> row never
  changes again, and every row stays in one of the four states with a token and a lease exactly when it is
  in flight.
\<close>

theorem deliveries_lifecycle:
  assumes "list_all delivery_ok cs" and "queue_inv s"
  shows "deliveries_extend (db_deliveries s) (db_deliveries (dq.history cs s)) \<and>
    list_all delivery_wf (db_deliveries (dq.history cs s)) \<and>
    distinct (map (\<lambda>d. (d_event d, d_endpoint d)) (db_deliveries (dq.history cs s)))"
  using history_queue_step[OF assms] by (simp add: queue_step_def queue_inv_def events_inv_def)

lemma hd_sort_key:
  assumes "sort_key f xs = x # rest"
  shows "x \<in> set xs \<and> (\<forall>y\<in>set xs. f x \<le> f y)"
proof -
  have s: "sorted (map f (x # rest))" using sorted_sort_key[of f xs] assms by simp
  have "set xs = set (x # rest)" using assms by (metis set_sort)
  with s show ?thesis by auto
qed

lemma claim_token: "claim_delivery e at lease s = (Inr c, s1) \<Longrightarrow> cl_token c \<noteq> []"
  using claim_owned by blast

text \<open>The queue hands out the first delivery that is due at an idle endpoint, whenever there is one.\<close>

lemma claim_first:
  assumes "queue_inv s" "claimable (fmt_nano at) s \<noteq> []" "0 < lease"
  obtains r c s1 where "claim_delivery e at lease s = (Inr c, s1)" "r \<in> set (claimable (fmt_nano at) s)" "cl_id c = d_id r"
    "\<forall>x\<in>set (claimable (fmt_nano at) s). (d_next r, d_id r) \<le> (d_next x, d_id x)" "cl_token c \<noteq> []"
    "cl_attempts c = d_attempts r + 1" "cl_start c = d_retry_start r"
    "db_deliveries s1 = map (\<lambda>x. if d_id x = d_id r then taken e (cl_token c) (fmt_nano (at + lease)) x else x) (db_deliveries s)"
proof -
  let ?q = "claimable (fmt_nano at) s" and ?k = "\<lambda>d. (d_next d, d_id d)"
  obtain r rest where sk: "sort_key ?k ?q = r # rest"
    using assms(2) by (metis list.exhaust set_empty set_sort)
  note r = conjunct1[OF hd_sort_key[OF sk]] and first = conjunct2[OF hd_sort_key[OF sk]]
  from r obtain ep where ep: "active_endpoint (d_endpoint r) s = Some ep" and due: "delivery_due (fmt_nano at) r"
    and m: "r \<in> set (db_deliveries s)" by (auto simp: claimable_def)
  let ?p = "\<lambda>x. d_id x = d_id r \<and> delivery_due (fmt_nano at) x"
  have same: "x = r" if "x \<in> set (db_deliveries s)" "d_id x = d_id r" for x
    using distinct_key_eq[OF queue_ids[OF assms(1)] that(1) m that(2)] .
  have "count_where ?p (db_deliveries s) = count_where (\<lambda>x. d_id x = d_id r) (db_deliveries s)"
    unfolding count_where_def using same due by (intro arg_cong[of _ _ length] filter_cong) auto
  moreover have "count_where (\<lambda>x. d_id x = d_id r) (db_deliveries s) \<le> 1" by (rule count_key_le_1[OF queue_ids[OF assms(1)]])
  moreover have "count_where (\<lambda>x. d_id x = d_id r) (db_deliveries s) \<noteq> 0" using m by (auto simp: count_where_0)
  ultimately have one: "count_where ?p (db_deliveries s) = 1" by simp
  let ?c = "claim_view ep r (fresh_id e ''claim'' 0) (fmt_nano (at + lease))"
  let ?s1 = "s\<lparr>db_deliveries := update_where ?p (taken e (fresh_id e ''claim'' 0) (fmt_nano (at + lease))) (db_deliveries s)\<rparr>"
  have c: "claim_delivery e at lease s = (Inr ?c, ?s1)"
    using assms(3) sk ep one by (simp add: claim_delivery_def run_tx_Inr claim_delivery_tx_def Let_def)
  have "db_deliveries ?s1 = map (\<lambda>x. if d_id x = d_id r then taken e (fresh_id e ''claim'' 0) (fmt_nano (at + lease)) x else x) (db_deliveries s)"
    using same due by (auto simp: update_where_def)
  with c r first show thesis using claim_token[OF c] by (intro that[of ?c ?s1 r]) (simp_all add: claim_view_def)
qed

text \<open>
  A claim takes the oldest delivery that is due: it fails with no rows exactly when nothing is
  claimable, and otherwise returns the claimable row with the least (next attempt, id), now in flight with
  one more attempt, while every other row is untouched.
\<close>

theorem claim_takes_oldest:
  assumes "queue_inv s" and "0 < lease"
  shows "case claimable (fmt_nano at) s of
     [] \<Rightarrow> claim_delivery e at lease s = (Inl ErrNoRows, s)
   | _ \<Rightarrow> \<exists>c d s'. claim_delivery e at lease s = (Inr c, s') \<and> d \<in> set (claimable (fmt_nano at) s) \<and> cl_id c = d_id d \<and>
       (\<forall>x\<in>set (claimable (fmt_nano at) s). (d_next d, d_id d) \<le> (d_next x, d_id x)) \<and> cl_attempts c = d_attempts d + 1 \<and>
       (\<forall>x\<in>set (db_deliveries s). d_id x \<noteq> d_id d \<longrightarrow> x \<in> set (db_deliveries s'))"
proof (cases "claimable (fmt_nano at) s = []")
  case True
  with assms(2) show ?thesis by (simp add: claim_delivery_def run_tx_def claim_delivery_tx_def)
next
  case False
  obtain r c s1 where c: "claim_delivery e at lease s = (Inr c, s1)" "r \<in> set (claimable (fmt_nano at) s)" "cl_id c = d_id r"
    "\<forall>x\<in>set (claimable (fmt_nano at) s). (d_next r, d_id r) \<le> (d_next x, d_id x)" "cl_attempts c = d_attempts r + 1"
    "db_deliveries s1 = map (\<lambda>x. if d_id x = d_id r then taken e (cl_token c) (fmt_nano (at + lease)) x else x) (db_deliveries s)"
    by (rule claim_first[OF assms(1) False assms(2)])
  have "\<forall>x\<in>set (db_deliveries s). d_id x \<noteq> d_id r \<longrightarrow> x \<in> set (db_deliveries s1)" by (auto simp: c(6))
  then have "\<exists>c d s'. claim_delivery e at lease s = (Inr c, s') \<and> d \<in> set (claimable (fmt_nano at) s) \<and> cl_id c = d_id d \<and>
       (\<forall>x\<in>set (claimable (fmt_nano at) s). (d_next d, d_id d) \<le> (d_next x, d_id x)) \<and> cl_attempts c = d_attempts d + 1 \<and>
       (\<forall>x\<in>set (db_deliveries s). d_id x \<noteq> d_id d \<longrightarrow> x \<in> set (db_deliveries s'))" using c(1-5) by blast
  moreover obtain y ys where "claimable (fmt_nano at) s = y # ys" using False by (cases "claimable (fmt_nano at) s") auto
  ultimately show ?thesis by simp
qed

section \<open>A lease that ends inside a second\<close>

text \<open>The fraction starts with a full stop, which sorts before the \<open>Z\<close> of a whole second.\<close>

lemma fraction_before_whole:
  assumes "in_range t" "t mod second \<noteq> 0"
  shows "fmt_nano t < fmt_nano (t div second * second)"
proof -
  have z: "t div second * second div second = t div second" "t div second * second mod second = 0" by simp_all
  have r: "in_range (t div second * second)" using assms(1) by (simp add: in_range_def z)
  have "frac_text (t mod second) @ ''Z'' < frac_text 0 @ ''Z''" using assms(2) by (simp add: frac_text_def)
  then show ?thesis unfolding fmt_nano_less[OF assms(1) r] z by simp
qed

text \<open>
  C21.  Inside one second the text of a lease decides, not its instant: \<open>..50.5Z\<close> is less than \<open>..50Z\<close>.  Whenever
  a worker claims a delivery with a lease of a second or more that does not end on a whole second, then at
  the start of the second in which it ends, and so before it ends, the row counts as due again and not
  as leased, it is among the rows that the next claim chooses from, and any worker whose turn it is then (no
  other claimable row comes first) takes it over.
\<close>

theorem lease_lost_early:
  assumes "claim_delivery e at lease s = (Inr c, s1)" and "queue_inv s" and "clock_ok at"
    and "second \<le> lease" and "lease \<le> 86400 * second" and "(at + lease) mod second \<noteq> 0" and "b = (at + lease) div second * second" and "0 < lease2"
  shows "b < at + lease \<and>
    (\<exists>r\<in>set (claimable (fmt_nano b) s1). held_by (cl_id c) (cl_token c) r \<and> d_lease r = Some (fmt_nano (at + lease)) \<and>
      \<not> lease_live (fmt_nano b) r \<and>
      ((\<forall>x\<in>set (claimable (fmt_nano b) s1). (d_next r, d_id r) \<le> (d_next x, d_id x)) \<longrightarrow>
        (\<exists>c2 s2. claim_delivery e2 b lease2 s1 = (Inr c2, s2) \<and> cl_id c2 = cl_id c)))"
proof -
  have early: "b < at + lease"
  proof -
    have "at + lease = b + (at + lease) mod second" by (simp add: assms(7))
    moreover have "0 \<le> (at + lease) mod second" by simp
    ultimately show ?thesis using assms(6) by linarith
  qed
  have l: "0 < lease" using assms(4) by simp
  have inv1: "queue_inv s1" using delivery_claim_step[OF assms(2,3,5), of e] assms(1) by (simp add: queue_step_def)
  from assms(1) have ne: "claimable (fmt_nano at) s \<noteq> []"
    by (auto simp: claim_delivery_def run_tx_Inr claim_delivery_tx_def Let_def split: list.split_asm if_split_asm)
  obtain r c' s1' where r: "claim_delivery e at lease s = (Inr c', s1')" "r \<in> set (claimable (fmt_nano at) s)" "cl_id c' = d_id r"
    "db_deliveries s1' = map (\<lambda>x. if d_id x = d_id r then taken e (cl_token c') (fmt_nano (at + lease)) x else x) (db_deliveries s)"
    by (rule claim_first[OF assms(2) ne l])
  then have eq: "c' = c" "s1' = s1" using assms(1) by simp_all
  let ?t = "taken e (cl_token c) (fmt_nano (at + lease)) r"
  have ra: "in_range at" "in_range (at + lease)" using clock_in_range0[OF assms(3)] clock_in_range[OF assms(3)] l assms(5) by simp_all
  then have rb: "in_range b" by (simp add: assms(7) in_range_def)
  have "at div second < b div second"
  proof -
    have "at div second < (at + second) div second" by simp
    also have "\<dots> \<le> (at + lease) div second" using assms(4) by (intro zdiv_mono1) simp_all
    finally show ?thesis by (simp add: assms(7))
  qed
  then have ab: "fmt_nano at < fmt_nano b" using fmt_nano_less_seconds ra(1) rb by blast
  have lb: "fmt_nano (at + lease) < fmt_nano b" using fraction_before_whole[OF ra(2) assms(6)] by (simp add: assms(7))
  have rm: "r \<in> set (db_deliveries s)" "active_endpoint (d_endpoint r) s \<noteq> None" "\<not> endpoint_busy (fmt_nano at) r s"
    using r(2) by (simp_all add: claimable_def)
  have ds: "db_deliveries s1 = map (\<lambda>x. if d_id x = d_id r then taken e (cl_token c) (fmt_nano (at + lease)) x else x) (db_deliveries s)"
    using r(4) eq by simp
  have tm: "?t \<in> set (db_deliveries s1)" using rm(1) by (auto simp: ds image_iff)
  have due: "delivery_due (fmt_nano b) ?t" and dead: "\<not> lease_live (fmt_nano b) ?t" using lb by (simp_all add: delivery_due_def lease_live_def)
  have "\<not> endpoint_busy (fmt_nano b) ?t s1"
  proof
    assume "endpoint_busy (fmt_nano b) ?t s1"
    then obtain y where y: "y \<in> set (db_deliveries s1)" "d_endpoint y = d_endpoint r" "lease_live (fmt_nano b) y" "d_id y \<noteq> d_id r"
      unfolding endpoint_busy_def by auto
    then have "y \<in> set (db_deliveries s)" by (auto simp: ds split: if_split_asm)
    moreover have "lease_live (fmt_nano at) y" using y(3) ab by (auto simp: lease_live_def split: option.split_asm)
    ultimately show False using rm(3) y(2,4) unfolding endpoint_busy_def by blast
  qed
  moreover have "db_endpoints s1 = db_endpoints s"
    using assms(1) by (auto elim!: claim_success)
  then have "active_endpoint (d_endpoint ?t) s1 \<noteq> None" using rm(2) by (simp add: active_endpoint_def)
  ultimately have cl: "?t \<in> set (claimable (fmt_nano b) s1)" using tm due by (simp add: claimable_def)
  have held: "held_by (cl_id c) (cl_token c) ?t" using r(3) eq by (simp add: held_by_def)
  have take: "\<exists>c2 s2. claim_delivery e2 b lease2 s1 = (Inr c2, s2) \<and> cl_id c2 = cl_id c"
    if first: "\<forall>x\<in>set (claimable (fmt_nano b) s1). (d_next ?t, d_id ?t) \<le> (d_next x, d_id x)"
  proof -
    have "claimable (fmt_nano b) s1 \<noteq> []" using cl by auto
    with inv1 obtain x c2 s2 where x: "claim_delivery e2 b lease2 s1 = (Inr c2, s2)"
      "x \<in> set (claimable (fmt_nano b) s1)" "cl_id c2 = d_id x"
      "\<forall>y\<in>set (claimable (fmt_nano b) s1). (d_next x, d_id x) \<le> (d_next y, d_id y)"
      by (rule claim_first[OF _ _ assms(8)]) (rule that; assumption)
    have "(d_next x, d_id x) = (d_next ?t, d_id ?t)" using first x(2,4) cl by (meson order.antisym)
    then show ?thesis using x(1,3) r(3) eq by simp
  qed
  show ?thesis using early cl held dead take
    by (intro conjI bexI[OF _ cl]) (auto simp: not_le)
qed

section \<open>Instances\<close>

definition sample_delivery :: delivery where
  "sample_delivery = new_delivery ''d1'' ''v1'' (''e1'', 1, ''k1'') (fmt_nano sample_time)"

definition sample_queue :: db where
  "sample_queue = sample_events_db\<lparr>db_events := [\<lparr>ev_id = ''v1'', ev_transaction = ''t1'', ev_type = ''credit'', ev_payload = ''{}'',
     ev_hash = [], ev_created = []\<rparr>], db_deliveries := [sample_delivery]\<rparr>"

lemma sample_delivery_simps [simp]: "d_id sample_delivery = ''d1''" "d_event sample_delivery = ''v1''" "d_endpoint sample_delivery = ''e1''"
  "d_status sample_delivery = ''PENDING''" "d_attempts sample_delivery = 0" "d_lease sample_delivery = None" "d_token sample_delivery = []"
  "d_next sample_delivery = fmt_nano sample_time" "d_retry_start sample_delivery = 0"
  by (simp_all add: sample_delivery_def)

lemma sample_queue_simps [simp]: "db_deliveries sample_queue = [sample_delivery]" "db_journal sample_queue = []" "db_attempts sample_queue = []"
  "db_journal_seq sample_queue = 0" "db_endpoints sample_queue = db_endpoints sample_events_db"
  by (simp_all add: sample_queue_def sample_events_db_def)

lemma sample_endpoint: "\<exists>ep. active_endpoint ''e1'' sample_queue = Some ep \<and> ep_provider ep = ''WEBHOOK''"
  by (simp add: active_endpoint_def sample_events_db_def)

lemma sample_queue_inv: "queue_inv sample_queue"
proof -
  have "stamp_text (fmt_nano sample_time)" by (intro stamp_now clock_in_range0 clock_sample) simp_all
  then show ?thesis
    by (simp add: queue_inv_def events_inv_def journal_inv_def delivery_wf_def) (simp add: sample_queue_def)
qed

lemma sample_claimable: "claimable (fmt_nano sample_time) sample_queue = [sample_delivery]"
  using sample_endpoint by (auto simp: claimable_def delivery_due_def endpoint_busy_def)

lemma delivery_sample_claim:
  "\<exists>c s'. claim_delivery (sample_env sample_time) sample_time (30 * second) sample_queue = (Inr c, s') \<and> cl_id c = ''d1'' \<and>
    cl_endpoint c = ''e1''"
  using sample_endpoint
  by (auto simp: claim_delivery_def run_tx_def claim_delivery_tx_def sample_claimable Let_def delivery_due_def)

lemma claim_delivery_exclusive_witness:
  "\<exists>c s'. claim_delivery (sample_env sample_time) sample_time (30 * second) sample_queue = (Inr c, s') \<and>
    owned c (dq.history [DClaim (sample_env 0) (sample_time + 5 * second) (30 * second), DReplay (sample_env sample_time) ''d1''] s')"
proof -
  obtain c s' where c: "claim_delivery (sample_env sample_time) sample_time (30 * second) sample_queue = (Inr c, s')" "cl_id c = ''d1''"
    using delivery_sample_claim by blast
  from claim_delivery_exclusive[OF c(1) sample_queue_inv, of "[DClaim (sample_env 0) (sample_time + 5 * second) (30 * second), DReplay (sample_env sample_time) ''d1'']"] c
  show ?thesis by (auto simp: clock_sample)
qed

lemma deliveries_lifecycle_witness:
  "deliveries_extend [sample_delivery] (db_deliveries (dq.history [DClaim (sample_env 0) sample_time (30 * second)] sample_queue))"
  using deliveries_lifecycle[of "[DClaim (sample_env 0) sample_time (30 * second)]" sample_queue] sample_queue_inv
  by (simp add: clock_sample)

lemma claim_takes_oldest_witness:
  "\<exists>c s'. claim_delivery (sample_env sample_time) sample_time (30 * second) sample_queue = (Inr c, s') \<and> cl_attempts c = 1"
  using claim_takes_oldest[OF sample_queue_inv, where lease = "30 * second" and at = sample_time and e = "sample_env sample_time"]
  by (auto simp: sample_claimable)

lemma claim_single:
  assumes "db_deliveries s = [d]" "active_endpoint (d_endpoint d) s = Some ep" "delivery_due (fmt_nano at) d" "0 < lease"
  shows "claim_delivery e at lease s = (Inr (claim_view ep d (fresh_id e ''claim'' 0) (fmt_nano (at + lease))),
    s\<lparr>db_deliveries := [taken e (fresh_id e ''claim'' 0) (fmt_nano (at + lease)) d]\<rparr>)"
proof -
  have "claimable (fmt_nano at) s = [d]" using assms by (simp add: claimable_def endpoint_busy_def)
  with assms show ?thesis by (simp add: claim_delivery_def run_tx_def claim_delivery_tx_def Let_def)
qed

lemma lease_lost_early_witness:
  "\<exists>c s1 c2 s2. claim_delivery (sample_env sample_time) (sample_time + 5 * second + 500000000) (30 * second) sample_queue = (Inr c, s1) \<and>
    claim_delivery (sample_env sample_time) (sample_time + 35 * second) (30 * second) s1 = (Inr c2, s2) \<and> cl_id c2 = cl_id c \<and>
    sample_time + 35 * second < sample_time + 5 * second + 500000000 + 30 * second"
proof -
  let ?e = "sample_env sample_time" and ?a = "sample_time + 5 * second + 500000000"
  have le: "fmt_nano sample_time \<le> fmt_nano ?a"
    by (intro less_imp_le fmt_nano_less_seconds) (simp_all add: clock_in_range0 clock_sample)
  obtain ep where ep: "active_endpoint ''e1'' sample_queue = Some ep" using sample_endpoint by blast
  obtain c s1 where c: "claim_delivery ?e ?a (30 * second) sample_queue = (Inr c, s1)" "length (db_deliveries s1) = 1"
    using claim_single[of sample_queue sample_delivery ep ?a "30 * second" ?e] le ep by (simp add: delivery_due_def)
  have k: "clock_ok ?a" by (simp add: clock_sample)
  have b: "sample_time + 35 * second = (?a + 30 * second) div second * second" "(?a + 30 * second) mod second \<noteq> 0" by simp_all
  have l: "second \<le> 30 * second" "30 * second \<le> 86400 * second" "0 < 30 * second" by simp_all
  from lease_lost_early[OF c(1) sample_queue_inv k l(1,2) b(2) b(1) l(3), of ?e] obtain r
    where early: "sample_time + 35 * second < ?a + 30 * second" and r: "r \<in> set (claimable (fmt_nano (sample_time + 35 * second)) s1)"
      and take: "(\<forall>x\<in>set (claimable (fmt_nano (sample_time + 35 * second)) s1). (d_next r, d_id r) \<le> (d_next x, d_id x)) \<longrightarrow>
        (\<exists>c2 s2. claim_delivery ?e (sample_time + 35 * second) (30 * second) s1 = (Inr c2, s2) \<and> cl_id c2 = cl_id c)" by blast
  obtain x where "db_deliveries s1 = [x]" using c(2) by (auto simp: length_Suc_conv)
  then have "\<forall>y\<in>set (claimable (fmt_nano (sample_time + 35 * second)) s1). y = r" using r by (simp add: claimable_def split: if_split_asm)
  with take have "\<exists>c2 s2. claim_delivery ?e (sample_time + 35 * second) (30 * second) s1 = (Inr c2, s2) \<and> cl_id c2 = cl_id c" by simp
  with c(1) early show ?thesis by blast
qed

end
