(* ===== verification/GoJsonLaws.thy ===== *)
theory GoJsonLaws
  imports GoJson "HOL-Library.Multiset"
begin

text \<open>
  The laws of the JSON text: a value that \<open>json_text\<close> prints is read back by \<open>json_decode\<close>, with the
  members of every object in key order.  Strings are valid UTF-8 and numbers are decimal integers, as
  every value that the program marshals.  \<open>struct_text\<close> prints a Go struct, whose fields keep their order,
  and \<open>struct_field\<close> is how \<open>Unmarshal\<close> fills a field: the last member whose name equals the field's up to
  (ASCII) case.
\<close>

section \<open>Strings\<close>

lemma hex_value_char: "n < 16 \<Longrightarrow> hex_value (hex_char n) = Some n"
  by (auto simp: hex_value_def hex_char_def digit_char_def Let_def)

lemma hex4_escape:
  "hex4 (CHR ''0'' # CHR ''0'' # hex_char (of_char c div 16) # hex_char (of_char c mod 16) # t) = Some (of_char c)"
  if "of_char c < (128 :: nat)" for c :: char
proof -
  have "hex_value (CHR ''0'') = Some 0" by (simp add: hex_value_def)
  moreover have "of_char c div 16 < (16 :: nat)" "of_char c mod 16 < (16 :: nat)" using that by simp_all
  ultimately show ?thesis by (simp add: hex_value_char)
qed

lemma parse_plain_char:
  assumes "of_char c < (128 :: nat)" "32 \<le> (of_char c :: nat)" "c \<noteq> quote" "c \<noteq> backslash"
  shows "parse_chars (Suc n) (c # t) = map_option (apfst (Cons c)) (parse_chars n t)"
proof -
  have "rune_width (c # t) = 1" using assms(1) by (simp add: rune_width_def in_bytes_def)
  moreover have "((@) [c] :: string \<Rightarrow> string) = Cons c" by (simp add: fun_eq_iff)
  ultimately show ?thesis using assms by simp
qed

lemma parse_escaped:
  "unescape d = Some [c] \<Longrightarrow> d \<noteq> CHR ''u'' \<Longrightarrow> parse_chars (Suc n) (backslash # d # t) = map_option (apfst (Cons c)) (parse_chars n t)"
proof -
  assume a: "unescape d = Some [c]" "d \<noteq> CHR ''u''"
  have "((@) [c] :: string \<Rightarrow> string) = Cons c" by (simp add: fun_eq_iff)
  then show ?thesis using a by (simp add: backslash_def quote_def)
qed

lemma parse_escape_u:
  assumes "of_char c < (128 :: nat)"
  shows "parse_chars (Suc n) (escape_u c @ t) = map_option (apfst (Cons c)) (parse_chars n t)"
proof -
  have "unescape_u (CHR ''0'' # CHR ''0'' # hex_char (of_char c div 16) # hex_char (of_char c mod 16) # t) = Some ([c], t)"
    using assms by (simp add: unescape_u_def hex4_escape rune_bytes_def del: hex4.simps)
  moreover have "((@) [c] :: string \<Rightarrow> string) = Cons c" by (simp add: fun_eq_iff)
  ultimately show ?thesis by (simp add: escape_u_def backslash_def quote_def)
qed

lemma parse_escape_ascii:
  assumes "of_char c < (128 :: nat)"
  shows "parse_chars (Suc n) (escape_ascii c @ t) = map_option (apfst (Cons c)) (parse_chars n t)"
proof -
  consider "c = quote" | "c = backslash" | "c = CHR 0x08" | "c = CHR 0x0C" | "c = CHR 0x0A" | "c = CHR 0x0D" | "c = CHR 0x09"
    | (u) "c \<notin> {quote, backslash, CHR 0x08, CHR 0x0C, CHR 0x0A, CHR 0x0D, CHR 0x09}" "of_char c < (32 :: nat) \<or> c = CHR ''<'' \<or> c = CHR ''>'' \<or> c = CHR ''&''"
    | (p) "c \<notin> {quote, backslash, CHR 0x08, CHR 0x0C, CHR 0x0A, CHR 0x0D, CHR 0x09}" "\<not> (of_char c < (32 :: nat) \<or> c = CHR ''<'' \<or> c = CHR ''>'' \<or> c = CHR ''&'')"
    by blast
  then show ?thesis
  proof cases
    case u
    then have "escape_ascii c = escape_u c" by (simp add: escape_ascii_def)
    then show ?thesis using parse_escape_u[OF assms] by simp
  next
    case p
    then have "escape_ascii c = [c]" by (simp add: escape_ascii_def)
    then show ?thesis using p parse_plain_char[OF assms, of n t] by (simp del: parse_chars.simps)
  qed (use parse_escaped in \<open>simp_all add: escape_ascii_def unescape_def backslash_def quote_def del: parse_chars.simps\<close>)
qed

text \<open>Valid UTF-8.\<close>

lemma rune_width_ascii [simp]: "of_char c < (128 :: nat) \<Longrightarrow> rune_width (c # s) = 1"
  by (simp add: rune_width_def in_bytes_def)

lemma rune_width_le: "rune_width s \<le> length s"
  unfolding rune_width_def by (simp split: list.split)

definition second_of_three :: "char \<Rightarrow> char \<Rightarrow> bool" where
  "second_of_three a b \<longleftrightarrow> (if a = CHR 0xE0 then in_bytes 160 191 b else if a = CHR 0xED then in_bytes 128 159 b else cont_byte b)"

definition second_of_four :: "char \<Rightarrow> char \<Rightarrow> bool" where
  "second_of_four a b \<longleftrightarrow> (if a = CHR 0xF0 then in_bytes 144 191 b else if a = CHR 0xF4 then in_bytes 128 143 b else cont_byte b)"

lemma rune_width_class: "rune_width s = (case s of
     [] \<Rightarrow> 0
   | a # r \<Rightarrow>
       if in_bytes 0 127 a then 1
       else if in_bytes 194 223 a then (case r of b # _ \<Rightarrow> if cont_byte b then 2 else 0 | _ \<Rightarrow> 0)
       else if in_bytes 224 239 a then (case r of b # c # _ \<Rightarrow> if second_of_three a b \<and> cont_byte c then 3 else 0 | _ \<Rightarrow> 0)
       else if in_bytes 240 244 a then (case r of b # c # d # _ \<Rightarrow>
           if second_of_four a b \<and> cont_byte c \<and> cont_byte d then 4 else 0 | _ \<Rightarrow> 0)
       else 0)"
  unfolding rune_width_def second_of_three_def second_of_four_def by (rule refl)

lemma rune_width_wide:
  assumes "rune_width (c # s) \<noteq> 0" "(128 :: nat) \<le> of_char c"
  shows "2 \<le> rune_width (c # s)"
proof -
  have "\<not> in_bytes 0 127 c" using assms(2) by (simp add: in_bytes_def)
  with assms(1) show ?thesis unfolding rune_width_class by (simp split: list.split_asm if_split_asm)
qed

lemma rune_width_prefix:
  assumes "2 \<le> rune_width s"
  shows "rune_width (s @ t) = rune_width s"
proof -
  consider "s = []" | (1) a where "s = [a]" | (2) a b where "s = [a, b]" | (3) a b c where "s = [a, b, c]"
    | (4) a b c d r where "s = a # b # c # d # r"
    by (metis list.exhaust)
  then show ?thesis
  proof cases
    case 1
    with assms show ?thesis unfolding rune_width_class by (simp split: if_split_asm)
  next
    case 2
    with assms show ?thesis unfolding rune_width_class by (simp split: if_split_asm)
  next
    case 3
    with assms show ?thesis unfolding rune_width_class by (simp split: if_split_asm)
  next
    case 4
    then show ?thesis by (simp add: rune_width_class)
  qed (use assms in \<open>simp add: rune_width_class\<close>)
qed

lemma rune_width_take:
  assumes "2 \<le> rune_width s"
  shows "rune_width (take (rune_width s) s) = rune_width s"
proof -
  consider "s = []" | (1) a where "s = [a]" | (2) a b where "s = [a, b]" | (3) a b c where "s = [a, b, c]"
    | (4) a b c d r where "s = a # b # c # d # r"
    by (metis list.exhaust)
  then show ?thesis
  proof cases
    case 1
    with assms show ?thesis unfolding rune_width_class by (simp split: if_split_asm)
  next
    case 2
    with assms show ?thesis unfolding rune_width_class by (simp split: if_split_asm)
  next
    case 3
    with assms show ?thesis unfolding rune_width_class by (simp split: if_split_asm)
  next
    case 4
    with assms show ?thesis unfolding rune_width_class by (simp split: if_split_asm)
  qed (use assms in \<open>simp add: rune_width_class\<close>)
qed

function valid_utf8 :: "string \<Rightarrow> bool" where
  "valid_utf8 s = (if s = [] then True else if rune_width s = 0 then False else valid_utf8 (drop (rune_width s) s))"
  by pat_completeness auto
termination
  by (relation "measure length") auto

declare valid_utf8.simps [simp del]

lemma valid_utf8_Nil [simp]: "valid_utf8 []"
  by (simp add: valid_utf8.simps)

lemma valid_utf8_ascii: "\<forall>c\<in>set s. of_char c < (128 :: nat) \<Longrightarrow> valid_utf8 s"
proof (induction s)
  case (Cons c s)
  then show ?case by (subst valid_utf8.simps) simp
qed simp

lemma parse_wide:
  assumes "2 \<le> rune_width (c # s)" "(128 :: nat) \<le> of_char c"
  shows "parse_chars (Suc n) ((c # s) @ t) =
    map_option (apfst ((@) (take (rune_width (c # s)) (c # s)))) (parse_chars n (drop (rune_width (c # s)) (c # s) @ t))"
proof -
  have w: "rune_width ((c # s) @ t) = rune_width (c # s)" by (rule rune_width_prefix[OF assms(1)])
  have l: "rune_width (c # s) \<le> length (c # s)" by (rule rune_width_le)
  have "c \<noteq> quote" "c \<noteq> backslash" using assms(2) by (auto simp: quote_def backslash_def)
  moreover have "take (rune_width (c # s)) ((c # s) @ t) = take (rune_width (c # s)) (c # s)"
    "drop (rune_width (c # s)) ((c # s) @ t) = drop (rune_width (c # s)) (c # s) @ t"
    using l by (simp_all only: take_append drop_append) simp_all
  moreover have "\<not> of_char c < (32 :: nat)" using assms(2) by simp
  ultimately show ?thesis using assms(1) w by (simp only: parse_chars.simps append_Cons list.case if_False) simp
qed

lemma separator_digits: "hex4 (CHR ''2'' # CHR ''0'' # CHR ''2'' # CHR ''8'' # t) = Some 8232"
  "hex4 (CHR ''2'' # CHR ''0'' # CHR ''2'' # CHR ''9'' # t) = Some 8233"
  by (simp_all add: hex_value_def)

lemma separator_bytes: "rune_bytes 8232 = [CHR 0xE2, CHR 0x80, CHR 0xA8]" "rune_bytes 8233 = [CHR 0xE2, CHR 0x80, CHR 0xA9]"
proof -
  have c: "char_of (226 :: nat) = CHR 0xE2" "char_of (128 :: nat) = CHR 0x80" "char_of (168 :: nat) = CHR 0xA8" "char_of (169 :: nat) = CHR 0xA9"
    using char_of_char[of "CHR 0xE2"] char_of_char[of "CHR 0x80"] char_of_char[of "CHR 0xA8"] char_of_char[of "CHR 0xA9"] by simp_all
  show "rune_bytes 8232 = [CHR 0xE2, CHR 0x80, CHR 0xA8]" "rune_bytes 8233 = [CHR 0xE2, CHR 0x80, CHR 0xA9]"
    by (simp_all add: rune_bytes_def c)
qed

lemma parse_line_separator:
  "parse_chars (Suc n) (backslash # ''u2028'' @ t) = map_option (apfst ((@) [CHR 0xE2, CHR 0x80, CHR 0xA8])) (parse_chars n t)"
  "parse_chars (Suc n) (backslash # ''u2029'' @ t) = map_option (apfst ((@) [CHR 0xE2, CHR 0x80, CHR 0xA9])) (parse_chars n t)"
  by (simp_all add: backslash_def quote_def unescape_u_def separator_digits separator_bytes del: hex4.simps)


text \<open>A printed string is read back up to its closing quote.\<close>

lemma escape_runes_wide:
  assumes "2 \<le> rune_width s" "s \<noteq> []"
  shows "escape_runes (Suc m) s = (if take 3 s = [CHR 0xE2, CHR 0x80, CHR 0xA8] then backslash # ''u2028'' @ escape_runes m (drop 3 s)
    else if take 3 s = [CHR 0xE2, CHR 0x80, CHR 0xA9] then backslash # ''u2029'' @ escape_runes m (drop 3 s)
    else take (rune_width s) s @ escape_runes m (drop (rune_width s) s))"
  using assms by (cases s) simp_all

lemma separator_width: "take 3 s = [CHR 0xE2, CHR 0x80, c] \<Longrightarrow> c \<in> {CHR 0xA8, CHR 0xA9} \<Longrightarrow> rune_width s = 3"
proof -
  assume a: "take 3 s = [CHR 0xE2, CHR 0x80, c]" "c \<in> {CHR 0xA8, CHR 0xA9}"
  then obtain r where s: "s = CHR 0xE2 # CHR 0x80 # c # r" by (metis append_Cons append_Nil append_take_drop_id)
  show ?thesis using a(2) unfolding s by (auto simp: rune_width_def in_bytes_def)
qed

lemma parse_escape_runes:
  "valid_utf8 s \<Longrightarrow> length s \<le> m \<Longrightarrow> length s < n \<Longrightarrow>
    parse_chars n (escape_runes m s @ quote # r) = Some (s, r)"
proof (induction m arbitrary: s n)
  case 0
  then obtain k where "n = Suc k" by (cases n) auto
  with 0 show ?case by simp
next
  case (Suc m)
  obtain k where n: "n = Suc k" using Suc.prems(3) by (cases n) auto
  show ?case
  proof (cases s)
    case Nil
    then show ?thesis by (simp add: n)
  next
    case (Cons c t)
    let ?w = "rune_width s"
    have w: "?w \<noteq> 0" "valid_utf8 (drop ?w s)" using Suc.prems(1) Cons valid_utf8.simps[of s] by (auto split: if_split_asm)
    have le: "?w \<le> length s" by (rule rune_width_le)
    have ih: "parse_chars k (escape_runes m (drop ?w s) @ quote # r) = Some (drop ?w s, r)"
      using Suc.IH[OF w(2)] Suc.prems(2,3) w(1) le by (simp add: n)
    show ?thesis
    proof (cases "of_char c < (128 :: nat)")
      case True
      then have "escape_runes (Suc m) s = escape_ascii c @ escape_runes m t" "?w = 1" by (simp_all add: Cons)
      with ih True show ?thesis by (simp add: n Cons parse_escape_ascii del: parse_chars.simps escape_runes.simps)
    next
      case False
      then have hi: "(128 :: nat) \<le> of_char c" and wide: "2 \<le> ?w" using rune_width_wide[of c t] w(1) Cons by simp_all
      show ?thesis
      proof (cases "\<exists>d\<in>{CHR 0xA8, CHR 0xA9}. take 3 s = [CHR 0xE2, CHR 0x80, d]")
        case True
        then obtain d where d: "d \<in> {CHR 0xA8, CHR 0xA9}" "take 3 s = [CHR 0xE2, CHR 0x80, d]" by blast
        have w3: "?w = 3" by (rule separator_width[OF d(2,1)])
        have s: "[CHR 0xE2, CHR 0x80, d] @ drop 3 s = s" by (metis d(2) append_take_drop_id)
        from d(1) have "parse_chars (Suc k) (escape_runes (Suc m) s @ quote # r) = Some ([CHR 0xE2, CHR 0x80, d] @ drop 3 s, r)"
        proof (elim insertE emptyE)
          assume "d = CHR 0xA8"
          then show ?thesis using escape_runes_wide[OF wide] d(2) Cons ih w3 parse_line_separator(1)[of k "escape_runes m (drop 3 s) @ quote # r"]
            by (simp del: parse_chars.simps escape_runes.simps)
        next
          assume "d = CHR 0xA9"
          then show ?thesis using escape_runes_wide[OF wide] d(2) Cons ih w3 parse_line_separator(2)[of k "escape_runes m (drop 3 s) @ quote # r"]
            by (simp del: parse_chars.simps escape_runes.simps)
        qed
        then show ?thesis unfolding n s .
      next
        case False
        then have "escape_runes (Suc m) s = take ?w s @ escape_runes m (drop ?w s)"
          using escape_runes_wide[OF wide] Cons by auto
        moreover obtain u where u: "take ?w s = c # u" using wide Cons by (cases ?w) simp_all
        moreover have wu: "rune_width (c # u) = ?w" using rune_width_take[OF wide] unfolding u .
        moreover have "length (c # u) = ?w" unfolding u[symmetric] using le by simp
        ultimately have "parse_chars n (escape_runes (Suc m) s @ quote # r) =
            map_option (apfst ((@) (c # u))) (parse_chars k (escape_runes m (drop ?w s) @ quote # r))"
          using parse_wide[of c u k "escape_runes m (drop ?w s) @ quote # r"] wide hi
          by (simp add: n del: parse_chars.simps escape_runes.simps)
        then show ?thesis unfolding ih by (simp flip: u)
      qed
    qed
  qed
qed


lemma escape_runes_length: "valid_utf8 s \<Longrightarrow> length s \<le> m \<Longrightarrow> length s \<le> length (escape_runes m s)"
proof (induction m arbitrary: s)
  case (Suc m)
  show ?case
  proof (cases s)
    case (Cons c t)
    let ?w = "rune_width s"
    have w: "?w \<noteq> 0" "valid_utf8 (drop ?w s)" using Suc.prems(1) Cons valid_utf8.simps[of s] by (auto split: if_split_asm)
    have le: "?w \<le> length s" by (rule rune_width_le)
    have ih: "length (drop ?w s) \<le> length (escape_runes m (drop ?w s))"
      by (rule Suc.IH[OF w(2)]) (use Suc.prems(2) w(1) le in simp)
    show ?thesis
    proof (cases "?w = 1")
      case True
      have "1 \<le> length (escape_ascii c)" by (simp add: escape_ascii_def escape_u_def)
      with ih True Cons show ?thesis by simp
    next
      case False
      with w have wide: "2 \<le> ?w" by simp
      have sep: "?w = 3" if "take 3 s = [CHR 0xE2, CHR 0x80, CHR 0xA8] \<or> take 3 s = [CHR 0xE2, CHR 0x80, CHR 0xA9]"
        using that separator_width by blast
      show ?thesis using ih sep le Cons unfolding escape_runes_wide[OF wide, OF list.discI[OF Cons]]
        by (auto split: if_split)
    qed
  qed simp
qed simp

lemma parse_json_string:
  "valid_utf8 s \<Longrightarrow> length s < n \<Longrightarrow> parse_chars n (tl (json_string s) @ r) = Some (s, r)"
  by (simp add: json_string_def parse_escape_runes)

section \<open>Values\<close>

fun jval_ok :: "jval \<Rightarrow> bool" where
  "jval_ok (JNum n) \<longleftrightarrow> (\<exists>k. n = int_text k)"
| "jval_ok (JStr s) \<longleftrightarrow> valid_utf8 s"
| "jval_ok (JArr xs) \<longleftrightarrow> (\<forall>x\<in>set xs. jval_ok x)"
| "jval_ok (JObj kvs) \<longleftrightarrow> distinct (map fst kvs) \<and> (\<forall>(k, v)\<in>set kvs. valid_utf8 k \<and> jval_ok v)"
| "jval_ok _ \<longleftrightarrow> True"

text \<open>The value with the members of every object in key order.\<close>

fun canon :: "jval \<Rightarrow> jval" where
  "canon (JArr xs) = JArr (map canon xs)"
| "canon (JObj kvs) = JObj (sort_key fst (map (\<lambda>(k, v). (k, canon v)) kvs))"
| "canon v = v"

fun jfuel :: "jval \<Rightarrow> nat" where
  "jfuel (JArr xs) = Suc (sum_list (map (\<lambda>x. Suc (jfuel x)) xs))"
| "jfuel (JObj kvs) = Suc (sum_list (map (\<lambda>(k, v). Suc (jfuel v)) kvs))"
| "jfuel _ = 1"

definition ends_value :: "string \<Rightarrow> bool" where
  "ends_value r \<longleftrightarrow> (case r of [] \<Rightarrow> True | c # _ \<Rightarrow> c \<in> set '',]}'')"

lemma skip_nonblank: "c \<notin> {CHR 0x20, CHR 0x09, CHR 0x0A, CHR 0x0D} \<Longrightarrow> skip_blanks (c # r) = c # r"
  by (simp add: skip_blanks_def)

lemma skip_blanks_digit: "is_digit c \<Longrightarrow> skip_blanks (c # r) = c # r"
  by (rule skip_nonblank) (auto simp: is_digit_def)

lemma takeWhile_digits: "\<forall>c\<in>set ds. is_digit c \<Longrightarrow> ends_value r \<Longrightarrow> take_digits (ds @ r) = (ds, r)"
proof -
  assume a: "\<forall>c\<in>set ds. is_digit c" "ends_value r"
  have "takeWhile is_digit r = [] \<and> dropWhile is_digit r = r"
    using a(2) by (cases r) (auto simp: ends_value_def is_digit_def)
  with a(1) show ?thesis by (simp add: take_digits_def takeWhile_append2 dropWhile_append2)
qed

lemma ends_no_exponent:
  "ends_value r \<Longrightarrow> (case r of [] \<Rightarrow> True | c # _ \<Rightarrow> c \<noteq> CHR ''.'' \<and> c \<noteq> CHR ''e'' \<and> c \<noteq> CHR ''E'')"
  by (cases r) (auto simp: ends_value_def)


lemma digit_char_0: "digit_char 0 = CHR ''0''"
  using char_of_char[of "CHR ''0''"] by (simp add: digit_char_def)

lemma dec_hd: "0 < n \<Longrightarrow> hd (dec n) \<noteq> CHR ''0''"
proof (induction n rule: dec.induct)
  case (1 n)
  show ?case
  proof (cases "n < 10")
    case True
    have "digit_char n \<noteq> digit_char 0" using digit_char_inj[of n 0] True 1(2) by simp
    then show ?thesis using True by (subst dec.simps) (simp add: digit_char_0)
  next
    case False
    then have "hd (dec (n div 10)) \<noteq> CHR ''0''" using 1(1) by simp
    with False show ?thesis by (subst dec.simps) (simp add: hd_append)
  qed
qed

lemma parse_digits:
  assumes "ends_value r"
  shows "(case dec n @ r of c # t \<Rightarrow> if c = CHR ''0'' then ([c], t) else take_digits (dec n @ r) | [] \<Rightarrow> ([], dec n @ r)) = (dec n, r)"
proof (cases "n = 0")
  case True
  then have "dec n = ''0''" by (subst dec.simps) (simp add: digit_char_0)
  then show ?thesis by simp
next
  case False
  obtain c t where c: "dec n = c # t" by (cases "dec n") auto
  with dec_hd[of n] False have "c \<noteq> CHR ''0''" by simp
  with c takeWhile_digits[OF dec_digits assms, of n] show ?thesis by simp
qed

lemma parse_number_int:
  assumes "ends_value r"
  shows "parse_number (int_text k @ r) = Some (int_text k, r)"
proof -
  have tail: "\<exists>c t. dec n = c # t \<and> c \<noteq> CHR ''-''" for n
  proof -
    obtain c t where "dec n = c # t" by (cases "dec n") auto
    moreover have "is_digit c" using dec_digits[of n] calculation by simp
    ultimately show ?thesis by (auto simp: is_digit_def)
  qed
  have sg: "(case int_text k @ r of c # t \<Rightarrow> if c = CHR ''-'' then ([c], t) else ([], int_text k @ r) | [] \<Rightarrow> ([], int_text k @ r)) =
      (if k < 0 then ''-'' else [], (if k < 0 then dec (nat (- k)) else dec (nat k)) @ r)"
    using tail[of "nat k"] by (auto simp: int_text_def)
  note pd = parse_digits[OF assms]
  have tailless: "(case r of c # t \<Rightarrow> if c = CHR ''.'' then (if fst (take_digits t) = [] then (None, t)
        else (Some (c # fst (take_digits t)), snd (take_digits t))) else (Some [], r) | [] \<Rightarrow> (Some [], r)) = (Some [], r)"
    "(case r of c # t \<Rightarrow> if c = CHR ''e'' \<or> c = CHR ''E'' then
         (let (es, t') = (case t of d # u \<Rightarrow> if d = CHR ''+'' \<or> d = CHR ''-'' then ([d], u) else ([], t) | [] \<Rightarrow> ([], t))
          in if fst (take_digits t') = [] then (None, t') else (Some (c # es @ fst (take_digits t')), snd (take_digits t')))
       else (Some [], r) | [] \<Rightarrow> (Some [], r)) = (Some [], r)"
    using ends_no_exponent[OF assms] by (cases r; simp)+
  have "int_text k = (if k < 0 then ''-'' else []) @ (if k < 0 then dec (nat (- k)) else dec (nat k))"
    by (simp add: int_text_def)
  then show ?thesis unfolding parse_number_def Let_def sg prod.case
    by (cases "k < 0") (simp_all add: pd tailless(1) tailless(2)[unfolded Let_def])
qed


lemma sort_key_map:
  fixes f :: "'b \<Rightarrow> 'c" and kvs :: "('a :: linorder \<times> 'b) list"
  shows "sort_key fst (map (\<lambda>(k, v). (k, f v)) kvs) = map (\<lambda>(k, v). (k, f v)) (sort_key fst kvs)"
proof -
  have "insort_key fst (k, f v) (map (\<lambda>(k, v). (k, f v)) xs) = map (\<lambda>(k, v). (k, f v)) (insort_key fst (k, v) xs)" for k v and xs :: "('a \<times> 'b) list"
    by (induction xs) auto
  then have "foldr (insort_key fst) (map (\<lambda>(k, v). (k, f v)) xs) [] = map (\<lambda>(k, v). (k, f v)) (foldr (insort_key fst) xs [])" for xs :: "('a \<times> 'b) list"
    by (induction xs) auto
  then show ?thesis by (simp add: sort_key_def)
qed

text \<open>The members of an object in the order of the list: a Go struct, or the sorted entries of a map.\<close>

definition members_text :: "(string \<times> string) list \<Rightarrow> string" where
  "members_text kts = ''{'' @ join '','' (map (\<lambda>(k, t). json_string k @ '':'' @ t) kts) @ ''}''"

lemma json_text_obj: "json_text (JObj kvs) = members_text (map (\<lambda>(k, v). (k, json_text v)) (sort_key fst kvs))"
  by (simp add: members_text_def sort_key_map[symmetric])

lemma map_put_new: "k \<notin> fst ` set kvs \<Longrightarrow> map_put k v kvs = kvs @ [(k, v)]"
  by (auto simp: map_put_def filter_id_conv image_iff)

lemma json_string_hd: "json_string s = quote # tl (json_string s)"
  by (simp add: json_string_def)

lemma join_Cons: "join sep (x # y # ys) = x @ sep @ join sep (y # ys)"
  by (simp add: join_def)

lemma quote_not_blank: "skip_blanks (quote # r) = quote # r"
  by (rule skip_nonblank) (simp add: quote_def)

lemma quote_opens: "\<not> starts ''}'' (skip_blanks (quote # t))"
  unfolding quote_not_blank by (simp add: starts_def quote_def)

text \<open>One member, then the whole list of members, given that each value is read back.\<close>

lemma parse_member_step:
  assumes "valid_utf8 k" "parse_value m (t @ d # r) = Some (v, d # r)" "d = CHR ''}'' \<or> d = CHR '',''"
  shows "parse_members (Suc m) acc (json_string k @ '':'' @ t @ d # r) =
    (if d = CHR ''}'' then Some (map_put k v acc, r) else parse_members m (map_put k v acc) r)"
proof -
  let ?s = "json_string k @ '':'' @ t @ d # r"
  have len: "length k < length ?s"
    using escape_runes_length[OF assms(1), of "length k"] by (simp add: json_string_def)
  have s: "?s = quote # (tl (json_string k) @ '':'' @ t @ d # r)" by (subst json_string_hd) simp
  have "skip_blanks ?s = quote # (tl (json_string k) @ '':'' @ t @ d # r)" unfolding s by (rule quote_not_blank)
  moreover have "parse_chars (length ?s) (tl (json_string k) @ '':'' @ t @ d # r) = Some (k, '':'' @ t @ d # r)"
    by (rule parse_json_string[OF assms(1) len])
  moreover have "skip_blanks ('':'' @ t @ d # r) = CHR '':'' # t @ d # r" by (simp add: skip_blanks_def)
  moreover have "skip_blanks (d # r) = d # r" using assms(3) by (intro skip_nonblank) auto
  ultimately show ?thesis using assms(2,3) by (simp only: parse_members.simps list.case option.case prod.case refl if_True not_True_eq_False if_False) auto
qed

lemma parse_members_text:
  assumes "\<forall>(k, v)\<in>set kvs. valid_utf8 k \<and> (\<forall>n r. jfuel v \<le> n \<longrightarrow> ends_value r \<longrightarrow> parse_value n (json_text v @ r) = Some (canon v, r))"
    and "kvs \<noteq> []" and "sum_list (map (\<lambda>(k, v). Suc (jfuel v)) kvs) \<le> n"
    and "distinct (map fst acc @ map fst kvs)"
  shows "parse_members n acc (join '','' (map (\<lambda>(k, v). json_string k @ '':'' @ json_text v) kvs) @ ''}'' @ r) =
    Some (acc @ map (\<lambda>(k, v). (k, canon v)) kvs, r)"
  using assms
proof (induction kvs arbitrary: acc n)
  case (Cons kv kvs)
  obtain k v where kv: "kv = (k, v)" by fastforce
  obtain m where n: "n = Suc m" using Cons.prems(3) by (cases n) (auto simp: kv)
  have kok: "valid_utf8 k" and vok: "\<And>n r. jfuel v \<le> n \<Longrightarrow> ends_value r \<Longrightarrow> parse_value n (json_text v @ r) = Some (canon v, r)"
    using Cons.prems(1) by (auto simp: kv)
  have knew: "map_put k w acc = acc @ [(k, w)]" for w using Cons.prems(4) by (intro map_put_new) (auto simp: kv)
  have step: "parse_members n acc (json_string k @ '':'' @ json_text v @ d # t) =
      (if d = CHR ''}'' then Some (acc @ [(k, canon v)], t) else parse_members m (acc @ [(k, canon v)]) t)"
    if "d = CHR ''}'' \<or> d = CHR '',''" for d t
    unfolding n knew[symmetric]
    by (rule parse_member_step[OF kok _ that], rule vok) (use Cons.prems(3) that in \<open>auto simp: n kv ends_value_def\<close>)
  show ?case
  proof (cases kvs)
    case Nil
    then show ?thesis using step[of "CHR ''}''" r] by (simp add: kv join_def)
  next
    case more: (Cons kv' kvs')
    have "parse_members m (acc @ [(k, canon v)]) (join '','' (map (\<lambda>(k, v). json_string k @ '':'' @ json_text v) kvs) @ ''}'' @ r) =
        Some ((acc @ [(k, canon v)]) @ map (\<lambda>(k, v). (k, canon v)) kvs, r)"
      by (rule Cons.IH) (use Cons.prems more in \<open>auto simp: n kv\<close>)
    then show ?thesis
      using step[of "CHR '',''" "join '','' (map (\<lambda>(k, v). json_string k @ '':'' @ json_text v) kvs) @ ''}'' @ r"]
      by (simp add: kv more join_Cons)
  qed
qed simp

lemma int_text_start: "\<exists>c t. int_text k = c # t \<and> (is_digit c \<or> c = CHR ''-'')"
proof -
  have "\<exists>c t. dec n = c # t \<and> is_digit c" for n
    using dec_digits[of n] by (cases "dec n") auto
  from this[of "nat k"] show ?thesis by (auto simp: int_text_def)
qed

lemma value_start:
  "jval_ok v \<Longrightarrow> \<exists>c t. json_text v = c # t \<and> c \<notin> {CHR 0x20, CHR 0x09, CHR 0x0A, CHR 0x0D, CHR '']'', CHR ''}''}"
proof (cases v)
  case (JNum n)
  moreover assume "jval_ok v"
  ultimately obtain k where k: "n = int_text k" by auto
  obtain c t where "int_text k = c # t" "is_digit c \<or> c = CHR ''-''" using int_text_start by blast
  then show ?thesis using JNum k by (auto simp: is_digit_def)
qed (auto simp: json_string_def quote_def)

lemma parse_elem_step:
  assumes "parse_value m (t @ d # r) = Some (v, d # r)" "d = CHR '']'' \<or> d = CHR '',''"
  shows "parse_elems (Suc m) (t @ d # r) = (if d = CHR '']'' then Some ([v], r) else map_option (apfst (Cons v)) (parse_elems m r))"
proof -
  have "skip_blanks (d # r) = d # r" using assms(2) by (intro skip_nonblank) auto
  with assms show ?thesis by auto
qed

lemma parse_elems_text:
  assumes "\<forall>v\<in>set vs. \<forall>n r. jfuel v \<le> n \<longrightarrow> ends_value r \<longrightarrow> parse_value n (json_text v @ r) = Some (canon v, r)"
    and "vs \<noteq> []" and "sum_list (map (\<lambda>v. Suc (jfuel v)) vs) \<le> n"
  shows "parse_elems n (join '','' (map json_text vs) @ '']'' @ r) = Some (map canon vs, r)"
  using assms
proof (induction vs arbitrary: n)
  case (Cons v vs)
  obtain m where n: "n = Suc m" using Cons.prems(3) by (cases n) auto
  have vok: "parse_value m (json_text v @ d # t) = Some (canon v, d # t)" if "d = CHR '']'' \<or> d = CHR '',''" for d t
    using Cons.prems(1,3) that by (auto simp: n ends_value_def)
  show ?case
  proof (cases vs)
    case Nil
    then show ?thesis using parse_elem_step[OF vok, of "CHR '']''" r] by (simp add: n join_def)
  next
    case more: (Cons v' vs')
    have "parse_elems m (join '','' (map json_text vs) @ '']'' @ r) = Some (map canon vs, r)"
      by (rule Cons.IH) (use Cons.prems more in \<open>auto simp: n\<close>)
    then show ?thesis using parse_elem_step[OF vok, of "CHR '',''" "join '','' (map json_text vs) @ '']'' @ r"]
      by (simp add: n more join_Cons)
  qed
qed simp

lemma starts_first: "c # p = w \<Longrightarrow> starts w (d # r) \<Longrightarrow> c = d"
  by (auto simp: starts_def)

lemma parse_open:
  assumes "c \<in> {CHR ''['', CHR ''{'', quote}"
  shows "parse_value (Suc n) (c # r) =
    (if c = quote then map_option (apfst JStr) (parse_chars (Suc (length r)) r)
     else if c = CHR ''['' then (if starts '']'' (skip_blanks r) then Some (JArr [], tl (skip_blanks r)) else map_option (apfst JArr) (parse_elems n r))
     else (if starts ''}'' (skip_blanks r) then Some (JObj [], tl (skip_blanks r)) else map_option (apfst JObj) (parse_members n [] r)))"
proof -
  have "skip_blanks (c # r) = c # r" using assms by (intro skip_nonblank) (auto simp: quote_def)
  moreover have "\<not> starts ''null'' (c # r)" "\<not> starts ''true'' (c # r)" "\<not> starts ''false'' (c # r)"
    using assms by (auto simp: starts_def quote_def)
  ultimately show ?thesis using assms by (auto simp: quote_def)
qed

lemma parse_quote: "parse_value (Suc n) (quote # r) = map_option (apfst JStr) (parse_chars (Suc (length r)) r)"
  using parse_open[of quote n r] by (simp del: parse_value.simps parse_chars.simps)

lemma starts_close: "c \<noteq> d \<Longrightarrow> \<not> starts [d] (c # t)"
  by (simp add: starts_def)

lemma parse_json_text:
  "jval_ok v \<Longrightarrow> jfuel v \<le> n \<Longrightarrow> ends_value r \<Longrightarrow> parse_value n (json_text v @ r) = Some (canon v, r)"
proof (induction v arbitrary: n r)
  case JNull
  then show ?case by (cases n) (auto simp: skip_blanks_def starts_def)
next
  case (JBool b)
  then show ?case by (cases n) (auto simp: skip_blanks_def starts_def)
next
  case (JNum x)
  then obtain m k where n: "n = Suc m" "x = int_text k" by (cases n) auto
  obtain c t where c: "int_text k = c # t" "is_digit c \<or> c = CHR ''-''" using int_text_start by blast
  have "skip_blanks (c # t @ r) = c # t @ r" using c(2) by (intro skip_nonblank) (auto simp: is_digit_def)
  moreover have "\<not> starts ''null'' (c # t @ r)" "\<not> starts ''true'' (c # t @ r)" "\<not> starts ''false'' (c # t @ r)"
    "c \<noteq> quote" "c \<noteq> CHR ''[''" "c \<noteq> CHR ''{''"
    using c(2) by (auto simp: starts_def quote_def is_digit_def)
  ultimately show ?case using parse_number_int[OF JNum(3), of k] c(1) by (simp add: n)
next
  case (JStr s)
  then obtain m where n: "n = Suc m" by (cases n) auto
  have "length s < Suc (length (tl (json_string s) @ r))"
    using escape_runes_length[of s "length s"] JStr(1) by (simp add: json_string_def)
  then have "parse_chars (Suc (length (tl (json_string s) @ r))) (tl (json_string s) @ r) = Some (s, r)"
    using JStr(1) by (intro parse_json_string) simp_all
  moreover have "json_text (JStr s) @ r = quote # tl (json_string s) @ r" by (simp add: json_string_def)
  ultimately show ?case unfolding n by (simp only: parse_quote canon.simps option.map apfst_conv)
next
  case (JArr xs)
  then obtain m where n: "n = Suc m" by (cases n) auto
  show ?case
  proof (cases xs)
    case Nil
    then show ?thesis by (simp add: n parse_open join_def skip_blanks_def starts_def quote_def del: parse_value.simps)
  next
    case (Cons x ys)
    obtain c t where c: "json_text x = c # t" "c \<notin> {CHR 0x20, CHR 0x09, CHR 0x0A, CHR 0x0D, CHR '']'', CHR ''}''}"
      using value_start[of x] JArr.prems(1) Cons by auto
    have "\<exists>t'. join '','' (map json_text xs) @ '']'' @ r = c # t'" using c(1) by (simp add: Cons join_def)
    then have "\<not> starts '']'' (skip_blanks (join '','' (map json_text xs) @ '']'' @ r))"
      using c(2) by (auto simp: skip_nonblank starts_close)
    moreover have "parse_elems m (join '','' (map json_text xs) @ '']'' @ r) = Some (map canon xs, r)"
      by (rule parse_elems_text) (use JArr Cons n in \<open>simp_all del: parse_value.simps\<close>)
    ultimately show ?thesis by (simp add: n parse_open quote_def del: parse_value.simps)
  qed
next
  case (JObj kvs)
  then obtain m where n: "n = Suc m" by (cases n) auto
  let ?kvs = "sort_key fst kvs"
  have shape: "json_text (JObj kvs) = ''{'' @ join '','' (map (\<lambda>(k, v). json_string k @ '':'' @ json_text v) ?kvs) @ ''}''"
    by (simp add: json_text_obj members_text_def case_prod_unfold comp_def del: json_text.simps)
  have can: "canon (JObj kvs) = JObj (map (\<lambda>(k, v). (k, canon v)) ?kvs)" by (simp add: sort_key_map)
  show ?case
  proof (cases kvs)
    case Nil
    then show ?thesis by (simp add: n parse_open join_def skip_blanks_def starts_def quote_def del: parse_value.simps)
  next
    case (Cons kv kvs')
    then obtain k v ys where ys: "?kvs = (k, v) # ys" by (metis list.exhaust length_0_conv length_sort list.discI surj_pair)
    have "\<exists>t'. join '','' (map (\<lambda>(k, v). json_string k @ '':'' @ json_text v) ?kvs) @ ''}'' @ r = quote # t'"
      by (simp add: ys join_def json_string_def)
    then have "\<not> starts ''}'' (skip_blanks (join '','' (map (\<lambda>(k, v). json_string k @ '':'' @ json_text v) ?kvs) @ ''}'' @ r))"
      using quote_opens by auto
    moreover have "parse_members m [] (join '','' (map (\<lambda>(k, v). json_string k @ '':'' @ json_text v) ?kvs) @ ''}'' @ r) =
        Some ([] @ map (\<lambda>(k, v). (k, canon v)) ?kvs, r)"
    proof (rule parse_members_text)
      show "\<forall>(k, v)\<in>set ?kvs. valid_utf8 k \<and>
          (\<forall>n r. jfuel v \<le> n \<longrightarrow> ends_value r \<longrightarrow> parse_value n (json_text v @ r) = Some (canon v, r))"
        using JObj.IH JObj.prems(1) by fastforce
      show "?kvs \<noteq> []" by (simp add: ys)
      have "mset (map (\<lambda>(k, v). Suc (jfuel v)) ?kvs) = mset (map (\<lambda>(k, v). Suc (jfuel v)) kvs)" by simp
      then have "sum_list (map (\<lambda>(k, v). Suc (jfuel v)) ?kvs) = sum_list (map (\<lambda>(k, v). Suc (jfuel v)) kvs)"
        by (metis sum_mset_sum_list)
      then show "sum_list (map (\<lambda>(k, v). Suc (jfuel v)) ?kvs) \<le> m" using JObj.prems(2) by (simp add: n)
      show "distinct (map fst [] @ map fst ?kvs)" using JObj.prems(1) by (simp add: distinct_map)
    qed
    ultimately show ?thesis unfolding shape can n by (simp add: parse_open quote_def del: parse_value.simps)
  qed
qed


lemma join_length: "length (join '','' ts) + 1 \<ge> sum_list (map length ts) + length ts"
  by (cases ts) (auto simp: join_def sum_list_triv length_concat comp_def sum_list_Suc)

lemma text_fuel: "jval_ok v \<Longrightarrow> jfuel v \<le> 2 * length (json_text v)"
proof (induction v)
  case (JNum x)
  then obtain k where k: "x = int_text k" by auto
  obtain c t where "int_text k = c # t" using int_text_start by blast
  then show ?case by (simp add: k)
next
  case (JArr xs)
  have "sum_list (map (\<lambda>x. Suc (jfuel x)) xs) \<le> sum_list (map (\<lambda>x. Suc (2 * length (json_text x))) xs)"
    using JArr by (intro sum_list_mono) simp
  also have "\<dots> = length xs + 2 * sum_list (map length (map json_text xs))"
    by (induction xs) auto
  finally show ?case using join_length[of "map json_text xs"] by simp
next
  case (JObj kvs)
  let ?ts = "map (\<lambda>(k, v). json_string k @ '':'' @ json_text v) (sort_key fst kvs)"
  have "sum_list (map (\<lambda>(k, v). Suc (jfuel v)) kvs) \<le> sum_list (map (\<lambda>(k, v). Suc (2 * length (json_text v))) kvs)"
    using JObj by (intro sum_list_mono) fastforce
  also have "\<dots> \<le> length kvs + 2 * sum_list (map (\<lambda>(k, v). length (json_string k @ '':'' @ json_text v)) kvs)"
    by (induction kvs) auto
  also have "sum_list (map (\<lambda>(k, v). length (json_string k @ '':'' @ json_text v)) kvs) = sum_list (map length ?ts)"
  proof -
    have "mset (map length ?ts) = mset (map (\<lambda>(k, v). length (json_string k @ '':'' @ json_text v)) kvs)"
      unfolding map_map mset_map mset_sort by (simp add: comp_def case_prod_unfold)
    then show ?thesis by (metis sum_mset_sum_list)
  qed
  finally show ?case using join_length[of ?ts] by (simp add: json_text_obj members_text_def comp_def case_prod_unfold del: json_text.simps)
qed (auto simp: json_string_def)

text \<open>Reading back what was printed.\<close>

lemma json_round_trip: "jval_ok v \<Longrightarrow> ends_value r \<Longrightarrow> json_decode (json_text v @ r) = Some (canon v, r)"
  unfolding json_decode_def using text_fuel[of v] by (intro parse_json_text) auto

lemma map_of_canon:
  assumes "distinct (map fst kvs)"
  shows "map_of (map (\<lambda>(k, v). (k, canon v)) (sort_key fst kvs)) k = map_option canon (map_of kvs k)"
proof -
  have "map_of (map (\<lambda>(k, v). (k, canon v)) (sort_key fst kvs)) k = map_option canon (map_of (sort_key fst kvs) k)"
    by (simp add: map_of_map)
  moreover have "map_of (sort_key fst kvs) = map_of kvs"
    using assms by (intro map_of_inject_set[THEN iffD2]) (simp_all add: distinct_map)
  ultimately show ?thesis by simp
qed

lemma json_map_round_trip:
  assumes "jval_ok (JObj kvs)"
  shows "\<exists>kvs'. json_decode_map (json_text (JObj kvs)) = Some kvs' \<and> (\<forall>k. map_of kvs' k = map_option canon (map_of kvs k))"
proof -
  have "json_decode (json_text (JObj kvs) @ []) = Some (canon (JObj kvs), [])"
    using assms by (intro json_round_trip) (simp_all add: ends_value_def)
  then have "json_decode_map (json_text (JObj kvs)) = Some (map (\<lambda>(k, v). (k, canon v)) (sort_key fst kvs))"
    by (simp add: json_decode_map_def sort_key_map del: json_text.simps)
  moreover have "distinct (map fst kvs)" using assms by simp
  ultimately show ?thesis using map_of_canon by blast
qed

section \<open>Structs\<close>

definition struct_text :: "(string \<times> jval) list \<Rightarrow> string" where
  "struct_text kvs = members_text (map (\<lambda>(k, v). (k, json_text v)) kvs)"

definition fold_lower :: "string \<Rightarrow> nat list" where
  "fold_lower = map (\<lambda>c. if 65 \<le> (of_char c :: nat) \<and> of_char c \<le> (90 :: nat) then of_char c + 32 else of_char c)"

definition struct_field :: "string \<Rightarrow> (string \<times> jval) list \<Rightarrow> jval option" where
  "struct_field f kvs = map_option snd (find (\<lambda>kv. fold_lower (fst kv) = fold_lower f) (rev kvs))"

text \<open>\<open>Unmarshal\<close> checks the whole text; a text \<open>null\<close> leaves the struct as it is.\<close>

definition json_unmarshal :: "string \<Rightarrow> jval option" where
  "json_unmarshal s = (case json_decode s of Some (v, r) \<Rightarrow> if skip_blanks r = [] then Some v else None | None \<Rightarrow> None)"

text \<open>A string field: an absent member or \<open>null\<close> leaves it empty, any other value is an error.\<close>

definition string_field :: "string \<Rightarrow> (string \<times> jval) list \<Rightarrow> string option" where
  "string_field f kvs = (case struct_field f kvs of None \<Rightarrow> Some [] | Some JNull \<Rightarrow> Some [] | Some (JStr s) \<Rightarrow> Some s | _ \<Rightarrow> None)"

lemma struct_round_trip:
  assumes "distinct (map fst kvs)" "\<forall>(k, v)\<in>set kvs. valid_utf8 k \<and> jval_ok v" "kvs \<noteq> []"
  shows "json_unmarshal (struct_text kvs) = Some (JObj (map (\<lambda>(k, v). (k, canon v)) kvs))"
proof -
  obtain k v ys where ys: "kvs = (k, v) # ys" using assms(3) by (metis list.exhaust surj_pair)
  let ?body = "join '','' (map (\<lambda>(k, v). json_string k @ '':'' @ json_text v) kvs) @ ''}''"
  have shape: "struct_text kvs = CHR ''{'' # ?body"
    by (simp add: struct_text_def members_text_def case_prod_unfold comp_def)
  obtain t where "?body = quote # t" by (simp add: ys join_def json_string_def)
  then have "\<not> starts ''}'' (skip_blanks ?body)" by (simp only: quote_opens not_False_eq_True)
  have fuel: "sum_list (map (\<lambda>(k, v). Suc (jfuel v)) kvs) \<le> 2 * length (struct_text kvs)"
  proof -
    have "sum_list (map (\<lambda>(k, v). Suc (jfuel v)) kvs) \<le> sum_list (map (\<lambda>(k, v). Suc (2 * length (json_text v))) kvs)"
      using assms(2) text_fuel by (intro sum_list_mono) fastforce
    also have "\<dots> \<le> length kvs + 2 * sum_list (map length (map (\<lambda>(k, v). json_string k @ '':'' @ json_text v) kvs))"
      by (induction kvs) auto
    finally show ?thesis using join_length[of "map (\<lambda>(k, v). json_string k @ '':'' @ json_text v) kvs"] unfolding shape by simp
  qed
  have "parse_members (2 * length (struct_text kvs)) [] (?body @ []) = Some ([] @ map (\<lambda>(k, v). (k, canon v)) kvs, [])"
    unfolding append_assoc
    by (rule parse_members_text) (use assms fuel parse_json_text in \<open>auto simp del: parse_value.simps\<close>)
  with \<open>\<not> starts ''}'' (skip_blanks ?body)\<close> have "json_decode (struct_text kvs) = Some (JObj (map (\<lambda>(k, v). (k, canon v)) kvs), [])"
    unfolding json_decode_def by (simp add: shape parse_open quote_def del: parse_value.simps)
  then show ?thesis by (simp add: json_unmarshal_def skip_blanks_def)
qed

end
