(* ===== verification/Crypto.thy ===== *)
theory Crypto
  imports GoJsonLaws GoEncoding GoText Schema
begin

text \<open>
  internal/security/crypto.go: the keyring and its envelopes.  AES-GCM of the Go library is the
  parameter \<open>aead\<close>: \<open>gcm_seal\<close> and \<open>gcm_open\<close> on key, nonce, text and associated data, with the law
  \<open>aead_ok\<close> that opening a sealed text under the same key, nonce and data returns it.  The random nonce is
  an argument.  \<open>gcm.Open\<close> panics on a nonce of another length than 12, which is the error \<open>Panic\<close>.
\<close>

section \<open>Encodings\<close>

text \<open>\<open>RawStdEncoding\<close> is the URL encoding with \<open>+\<close> and \<open>/\<close> in place of \<open>-\<close> and \<open>_\<close>.\<close>

definition to_std :: "char \<Rightarrow> char" where
  "to_std c = (if c = CHR ''-'' then CHR ''+'' else if c = CHR ''_'' then CHR ''/'' else c)"

definition of_std :: "char \<Rightarrow> char" where
  "of_std c = (if c = CHR ''+'' then CHR ''-'' else if c = CHR ''/'' then CHR ''_'' else c)"

definition std64_encode :: "string \<Rightarrow> string" where
  "std64_encode s = map to_std (b64_encode s)"

definition std64_decode :: "string \<Rightarrow> string option" where
  "std64_decode s = (if CHR ''-'' \<in> set s \<or> CHR ''_'' \<in> set s then None else b64_decode (map of_std s))"

text \<open>\<open>StdEncoding.DecodeString\<close>: whole groups of four, the last one padded with one or two \<open>=\<close>.\<close>

definition std64_padded_decode :: "string \<Rightarrow> string option" where
  "std64_padded_decode s0 =
     (let s = filter (\<lambda>c. c \<noteq> CHR 0x0A \<and> c \<noteq> CHR 0x0D) s0;
          body = takeWhile (\<lambda>c. c \<noteq> CHR ''='') s; pad = dropWhile (\<lambda>c. c \<noteq> CHR ''='') s
      in if length s mod 4 \<noteq> 0 \<or> pad \<notin> {[], ''='', ''==''} then None else std64_decode body)"

fun hex_decode :: "string \<Rightarrow> string option" where
  "hex_decode [] = Some []"
| "hex_decode [a] = None"
| "hex_decode (a # b # r) = (case (hex_value a, hex_value b, hex_decode r) of
     (Some x, Some y, Some t) \<Rightarrow> Some (char_of (16 * x + y) # t) | _ \<Rightarrow> None)"

lemma of_to_std: "c \<in> set alphabet \<Longrightarrow> of_std (to_std c) = c"
  by (auto simp: of_std_def to_std_def alphabet_def)

lemma b64_encode_alphabet: "set (b64_encode s) \<subseteq> set alphabet"
proof -
  have "sym n \<in> set alphabet" for n by (simp add: sym_def alphabet_facts)
  then show ?thesis by (induction s rule: b64_encode.induct) auto
qed

lemma std64_round_trip: "std64_decode (std64_encode s) = Some s"
proof -
  have "CHR ''-'' \<notin> set (std64_encode s)" "CHR ''_'' \<notin> set (std64_encode s)"
    by (auto simp: std64_encode_def to_std_def split: if_split_asm)
  moreover have "map of_std (std64_encode s) = b64_encode s"
    using b64_encode_alphabet[of s] of_to_std by (auto simp: std64_encode_def intro!: map_idI)
  ultimately show ?thesis by (simp add: std64_decode_def b64_round_trip)
qed

lemma hex_digit_value: "n < 16 \<Longrightarrow> hex_value (hex_digit n) = Some n"
  by (auto simp: hex_value_def hex_digit_def Let_def)

lemma hex_round_trip: "hex_decode (hex_of s) = Some s"
proof (induction s)
  case (Cons c s)
  have "of_char c div 16 < (16 :: nat)" "of_char c mod 16 < (16 :: nat)"
    using byte_less[of c] by (simp_all add: less_mult_imp_div_less)
  moreover have "char_of (16 * (of_char c div 16) + of_char c mod 16 :: nat) = c" by simp
  ultimately show ?case using Cons by (simp add: hex_of_def hex_digit_value)
qed (simp add: hex_of_def)

lemma length_hex_of: "length (hex_of s) = 2 * length s"
  by (induction s) (simp_all add: hex_of_def)

section \<open>Keyrings and envelopes\<close>

datatype crypto_err = ErrAuthenticationFailed | ErrUnsupportedEnvelope | ErrUnknownKeyID | ErrInvalidNonce
  | ErrInvalidCiphertext | KeySizeError | Panic

record aead =
  gcm_seal :: "string \<Rightarrow> string \<Rightarrow> string \<Rightarrow> string \<Rightarrow> string"
  gcm_open :: "string \<Rightarrow> string \<Rightarrow> string \<Rightarrow> string \<Rightarrow> string option"

definition aead_ok :: "aead \<Rightarrow> bool" where
  "aead_ok g \<longleftrightarrow> (\<forall>key nonce plain aad. length key = 32 \<longrightarrow> length nonce = 12 \<longrightarrow>
     gcm_open g key nonce (gcm_seal g key nonce plain aad) aad = Some plain)"

record keyring =
  kr_current :: string
  kr_keys :: "(string \<times> string) list"

record envelope =
  en_version :: string
  en_key :: string
  en_nonce :: string
  en_cipher :: string

definition envelope_version :: string where "envelope_version = ''v1''"

definition new_keyring :: "string \<Rightarrow> err + keyring" where
  "new_keyring key = (if length key \<noteq> 32 then Inl (ErrText ''master key must be 32 bytes'')
     else Inr \<lparr>kr_current = ''k1'', kr_keys = [(''k1'', key)]\<rparr>)"

text \<open>\<open>LoadKeyring\<close>: the argument is the content of the key file, \<open>None\<close> when it cannot be read.\<close>

definition text_key :: "string \<Rightarrow> string \<Rightarrow> string" where
  "text_key b s =
     (let hex = (if length s = 64 then (case hex_decode s of Some k \<Rightarrow> if length k = 32 then k else [] | None \<Rightarrow> []) else [])
      in if hex \<noteq> [] then hex
         else case std64_decode s of
           Some k \<Rightarrow> if length k = 32 then k
             else (case std64_padded_decode s of Some k' \<Rightarrow> if length k' = 32 then k' else if length b = 32 then b else []
                   | None \<Rightarrow> if length b = 32 then b else [])
         | None \<Rightarrow> (case std64_padded_decode s of Some k' \<Rightarrow> if length k' = 32 then k' else if length b = 32 then b else []
                   | None \<Rightarrow> if length b = 32 then b else []))"

definition load_keyring :: "string \<Rightarrow> string option \<Rightarrow> err + keyring" where
  "load_keyring path content =
     (if path = [] then Inl (ErrText ''master key file is not configured'')
      else case content of
        None \<Rightarrow> Inl (ErrText ''read master key'')
      | Some b \<Rightarrow>
          if length (text_key b (trim_space b)) \<noteq> 32
          then Inl (ErrText ''master key must be 32 bytes (raw, 64-char hex, or base64)'')
          else new_keyring (text_key b (trim_space b)))"

definition aes_key_size :: "string \<Rightarrow> bool" where
  "aes_key_size key \<longleftrightarrow> length key \<in> {16, 24, 32}"

definition encrypt :: "aead \<Rightarrow> keyring \<Rightarrow> string \<Rightarrow> string \<Rightarrow> string \<Rightarrow> crypto_err + envelope" where
  "encrypt g k nonce plain aad =
     (let key = (case map_of (kr_keys k) (kr_current k) of None \<Rightarrow> [] | Some key \<Rightarrow> key) in
      if \<not> aes_key_size key then Inl KeySizeError
      else Inr \<lparr>en_version = envelope_version, en_key = kr_current k, en_nonce = std64_encode nonce,
        en_cipher = std64_encode (gcm_seal g key nonce plain aad)\<rparr>)"

definition decrypt :: "aead \<Rightarrow> keyring \<Rightarrow> envelope \<Rightarrow> string \<Rightarrow> crypto_err + string" where
  "decrypt g k e aad =
     (if en_version e \<noteq> envelope_version then Inl ErrUnsupportedEnvelope
      else case map_of (kr_keys k) (en_key e) of
        None \<Rightarrow> Inl ErrUnknownKeyID
      | Some key \<Rightarrow>
          if \<not> aes_key_size key then Inl KeySizeError
          else case std64_decode (en_nonce e) of
            None \<Rightarrow> Inl ErrInvalidNonce
          | Some nonce \<Rightarrow> (case std64_decode (en_cipher e) of
              None \<Rightarrow> Inl ErrInvalidCiphertext
            | Some cipher \<Rightarrow>
                if length nonce \<noteq> 12 then Inl Panic
                else case gcm_open g key nonce cipher aad of
                  None \<Rightarrow> Inl ErrAuthenticationFailed
                | Some plain \<Rightarrow> Inr plain))"

text \<open>The stored text of an envelope (\<open>json.Marshal\<close> and \<open>json.Unmarshal\<close> of the struct).\<close>

definition envelope_text :: "envelope \<Rightarrow> string" where
  "envelope_text e = struct_text [(''Version'', JStr (en_version e)), (''KeyID'', JStr (en_key e)),
     (''Nonce'', JStr (en_nonce e)), (''Ciphertext'', JStr (en_cipher e))]"

definition parse_envelope :: "string \<Rightarrow> envelope option" where
  "parse_envelope s = (case json_unmarshal s of
     Some (JObj kvs) \<Rightarrow>
       (case (string_field ''Version'' kvs, string_field ''KeyID'' kvs, string_field ''Nonce'' kvs, string_field ''Ciphertext'' kvs) of
          (Some v, Some i, Some n, Some c) \<Rightarrow> Some \<lparr>en_version = v, en_key = i, en_nonce = n, en_cipher = c\<rparr>
        | _ \<Rightarrow> None)
   | Some JNull \<Rightarrow> Some \<lparr>en_version = [], en_key = [], en_nonce = [], en_cipher = []\<rparr>
   | _ \<Rightarrow> None)"

section \<open>Laws\<close>

lemma std64_ascii: "valid_utf8 (std64_encode s)"
proof (rule valid_utf8_ascii)
  have "\<forall>c\<in>set alphabet. of_char (to_std c) < (128 :: nat)" by (simp add: alphabet_def to_std_def)
  then show "\<forall>c\<in>set (std64_encode s). of_char c < (128 :: nat)"
    using b64_encode_alphabet[of s] by (auto simp: std64_encode_def)
qed

lemma envelope_round_trip:
  assumes "valid_utf8 (en_version e)" "valid_utf8 (en_key e)" "valid_utf8 (en_nonce e)" "valid_utf8 (en_cipher e)"
  shows "parse_envelope (envelope_text e) = Some e"
proof -
  let ?kvs = "[(''Version'', JStr (en_version e)), (''KeyID'', JStr (en_key e)), (''Nonce'', JStr (en_nonce e)), (''Ciphertext'', JStr (en_cipher e))]"
  have "json_unmarshal (struct_text ?kvs) = Some (JObj (map (\<lambda>(k, v). (k, canon v)) ?kvs))"
    using assms by (intro struct_round_trip) (simp_all add: valid_utf8_ascii)
  then show ?thesis
    by (simp add: parse_envelope_def envelope_text_def string_field_def struct_field_def fold_lower_def)
qed


definition sealed :: "aead \<Rightarrow> string \<Rightarrow> string \<Rightarrow> string \<Rightarrow> string \<Rightarrow> envelope" where
  "sealed g key nonce plain aad = \<lparr>en_version = envelope_version, en_key = ''k1'', en_nonce = std64_encode nonce,
    en_cipher = std64_encode (gcm_seal g key nonce plain aad)\<rparr>"

lemma sealed_opens:
  assumes "new_keyring key = Inr k" and "aead_ok g" and "length nonce = 12"
  shows "encrypt g k nonce plain aad = Inr (sealed g key nonce plain aad)" "decrypt g k (sealed g key nonce plain aad) aad = Inr plain"
    "parse_envelope (envelope_text (sealed g key nonce plain aad)) = Some (sealed g key nonce plain aad)"
proof -
  have k: "k = \<lparr>kr_current = ''k1'', kr_keys = [(''k1'', key)]\<rparr>" "length key = 32"
    using assms(1) by (auto simp: new_keyring_def split: if_split_asm)
  show "encrypt g k nonce plain aad = Inr (sealed g key nonce plain aad)" using k by (simp add: encrypt_def aes_key_size_def sealed_def)
  show "decrypt g k (sealed g key nonce plain aad) aad = Inr plain"
    using k assms(2,3) by (simp add: decrypt_def aes_key_size_def std64_round_trip aead_ok_def sealed_def)
  show "parse_envelope (envelope_text (sealed g key nonce plain aad)) = Some (sealed g key nonce plain aad)"
    by (rule envelope_round_trip) (simp_all add: std64_ascii valid_utf8_ascii envelope_version_def sealed_def)
qed

text \<open>
  C24.  Whatever is sealed under the current key of a keyring is opened again by the same keyring and the
  same associated data, also after the envelope went through its stored text.  Every keyring refuses every
  envelope of another version than \<open>v1\<close>, and every envelope whose key identifier it does not hold; the
  keyring made of one master key holds \<open>k1\<close> alone.
\<close>

theorem decrypt_encrypt:
  assumes "new_keyring key = Inr k" and "aead_ok g" and "length nonce = 12"
  shows "(\<exists>e. encrypt g k nonce plain aad = Inr e \<and> decrypt g k e aad = Inr plain \<and> parse_envelope (envelope_text e) = Some e) \<and>
    (en_version x \<noteq> ''v1'' \<longrightarrow> decrypt g l x ad = Inl ErrUnsupportedEnvelope) \<and>
    (en_version x = ''v1'' \<and> en_key x \<notin> fst ` set (kr_keys l) \<longrightarrow> decrypt g l x ad = Inl ErrUnknownKeyID) \<and>
    fst ` set (kr_keys k) = {''k1''}"
proof -
  have "fst ` set (kr_keys k) = {''k1''}" using assms(1) by (auto simp: new_keyring_def split: if_split_asm)
  moreover have "decrypt g l x ad = Inl ErrUnsupportedEnvelope" if "en_version x \<noteq> ''v1''"
    using that by (simp add: decrypt_def envelope_version_def)
  moreover have "decrypt g l x ad = Inl ErrUnknownKeyID" if "en_version x = ''v1''" "en_key x \<notin> fst ` set (kr_keys l)"
  proof -
    have "map_of (kr_keys l) (en_key x) = None" using that(2) by (simp add: map_of_eq_None_iff)
    with that(1) show ?thesis by (simp add: decrypt_def envelope_version_def)
  qed
  moreover note o = sealed_opens[OF assms, of plain aad]
  ultimately show ?thesis by (intro conjI exI[of _ "sealed g key nonce plain aad"] impI) simp_all
qed

definition sample_aead :: aead where
  "sample_aead = \<lparr>gcm_seal = (\<lambda>key nonce plain aad. key @ nonce @ plain @ aad),
     gcm_open = (\<lambda>key nonce cipher aad. Some (take (length cipher - 44 - length aad) (drop 44 cipher)))\<rparr>"

lemma sample_aead_ok: "aead_ok sample_aead"
  by (simp add: aead_ok_def sample_aead_def)

lemma decrypt_encrypt_witness:
  "\<exists>k e. new_keyring (replicate 32 (CHR ''x'')) = Inr k \<and> encrypt sample_aead k (replicate 12 (CHR ''n'')) ''secret'' ''data'' = Inr e \<and>
    decrypt sample_aead k e ''data'' = Inr ''secret'' \<and>
    decrypt sample_aead k \<lparr>en_version = ''v1'', en_key = ''k7'', en_nonce = [], en_cipher = []\<rparr> ''data'' = Inl ErrUnknownKeyID"
proof -
  have "\<exists>k. new_keyring (replicate 32 (CHR ''x'')) = Inr k" by (simp add: new_keyring_def)
  then obtain k where k: "new_keyring (replicate 32 (CHR ''x'')) = Inr k" ..
  have n: "length (replicate 12 (CHR ''n'')) = 12" by simp
  from decrypt_encrypt[OF k sample_aead_ok n, of "''secret''" "''data''" "\<lparr>en_version = ''v1'', en_key = ''k7'', en_nonce = [], en_cipher = []\<rparr>" k "''data''"] k
  show ?thesis by auto
qed

lemma printable_alphabet: "c \<in> set alphabet \<Longrightarrow> printable (to_std c)"
proof -
  have "\<forall>c\<in>set alphabet. printable (to_std c)" by (simp add: alphabet_def to_std_def printable_def)
  then show "c \<in> set alphabet \<Longrightarrow> printable (to_std c)" by blast
qed

lemma printable_std64: "c \<in> set (std64_encode s) \<Longrightarrow> printable c"
  using b64_encode_alphabet[of s] printable_alphabet by (auto simp: std64_encode_def)

lemma printable_hex: "c \<in> set (hex_of s) \<Longrightarrow> printable c"
proof -
  have "printable (hex_digit n)" if "n < 16" for n
    using that by (auto simp: hex_digit_def printable_def)
  moreover have "of_char d div 16 < (16 :: nat)" "of_char d mod 16 < (16 :: nat)" for d :: char
    using byte_less[of d] by (simp_all add: less_mult_imp_div_less)
  ultimately show "c \<in> set (hex_of s) \<Longrightarrow> printable c" by (auto simp: hex_of_def)
qed

lemma trim_line:
  assumes "s \<noteq> []" "\<forall>c\<in>set s. printable c"
  shows "trim_space (s @ [CHR 0x0A]) = s"
proof -
  have p: "printable (hd s)" "printable (last s)" using assms by simp_all
  have "trimmed s" using trimmed_printable[OF assms(1) p] .
  then have none: "find (\<lambda>e. e \<noteq> [] \<and> has_prefix (rev s) e) (map rev space_encodings) = None"
    by (auto simp: trimmed_def find_None_iff)
  have "\<not> has_prefix (s @ [CHR 0x0A]) e" if "e \<in> set space_encodings" for e
    using no_space_ends that has_prefix_hd[of "s @ [CHR 0x0A]" e] p(1) assms(1) by auto
  then have "trim_left (s @ [CHR 0x0A]) = s @ [CHR 0x0A]"
    unfolding trim_left_def by (intro strip_front_none) (auto simp: find_None_iff)
  moreover have "find (\<lambda>e. e \<noteq> [] \<and> has_prefix (CHR 0x0A # rev s) e) (map rev space_encodings) = Some [CHR 0x0A]"
    by (simp add: space_encodings_def has_prefix_def)
  then have "strip_front (map rev space_encodings) (CHR 0x0A # rev s) = strip_front (map rev space_encodings) (rev s)"
    by (subst strip_front.simps) simp
  ultimately show ?thesis using none by (simp add: trim_space_def trim_right_def strip_front_none)
qed

lemma b64_values_length: "b64_values s = Some ns \<Longrightarrow> length ns \<le> length s"
  by (induction s arbitrary: ns) (fastforce split: if_splits option.splits)+

lemma b64_groups_length: "b64_groups ns = Some t \<Longrightarrow> 4 * length t \<le> 3 * length ns"
proof (induction ns arbitrary: t rule: b64_groups.induct)
  case (5 a b c d r)
  from 5(2) obtain u where "b64_groups r = Some u" "length t = Suc (Suc (Suc (length u)))" by auto
  with 5(1) show ?case by fastforce
qed auto

lemma std64_decode_length: "std64_decode s = Some t \<Longrightarrow> 4 * length t \<le> 3 * length s"
proof -
  assume "std64_decode s = Some t"
  then obtain ns where ns: "b64_values (map of_std s) = Some ns" "b64_groups ns = Some t"
    by (auto simp: std64_decode_def b64_decode_def bind_eq_Some_conv split: if_split_asm)
  then show ?thesis using b64_groups_length[OF ns(2)] b64_values_length[OF ns(1)] by simp
qed

lemma padded_decode_length: "std64_padded_decode s = Some t \<Longrightarrow> 4 * length t \<le> 3 * length s"
proof -
  let ?f = "filter (\<lambda>c. c \<noteq> CHR 0x0A \<and> c \<noteq> CHR 0x0D) s"
  assume "std64_padded_decode s = Some t"
  then have "std64_decode (takeWhile (\<lambda>c. c \<noteq> CHR ''='') ?f) = Some t"
    by (auto simp: std64_padded_decode_def Let_def split: if_split_asm)
  note std64_decode_length[OF this]
  moreover have "length (takeWhile (\<lambda>c. c \<noteq> CHR ''='') ?f) \<le> length ?f" by (rule length_takeWhile_le)
  moreover have "length ?f \<le> length s" by (rule length_filter_le)
  ultimately show ?thesis by linarith
qed


lemma length_strip_front: "length (strip_front es s) \<le> length s"
proof (induction es s rule: strip_front.induct)
  case (1 es s)
  show ?case
  proof (cases "find (\<lambda>e. e \<noteq> [] \<and> has_prefix s e) es")
    case None
    then show ?thesis by (simp add: strip_front_none)
  next
    case (Some e)
    then have "s \<noteq> []" by (auto simp: find_Some_iff has_prefix_def)
    with 1[OF Some this] Some show ?thesis by (subst strip_front.simps) simp
  qed
qed

lemma length_trim_space: "length (trim_space s) \<le> length s"
  using length_strip_front[of "map rev space_encodings" "rev (trim_left s)"] length_strip_front[of space_encodings s]
  by (simp add: trim_space_def trim_right_def trim_left_def)

lemma std64_decode_std: "std64_decode (std64_encode s @ ''='') = None"
proof -
  have "unsym (CHR ''='') = None" by (simp add: unsym_def alphabet_def)
  then have "b64_values (xs @ ''='') = None" for xs by (induction xs) (auto split: option.splits)
  then show ?thesis by (simp add: std64_decode_def b64_decode_def of_std_def)
qed

lemma std64_length: "length s = 32 \<Longrightarrow> length (std64_encode s) = 43"
proof -
  have "length (b64_encode s) = 4 * (length s div 3) + (if length s mod 3 = 0 then 0 else Suc (length s mod 3))" for s
    by (induction s rule: b64_encode.induct) (auto simp: div_Suc mod_Suc)
  then show "length s = 32 \<Longrightarrow> length (std64_encode s) = 43" by (simp add: std64_encode_def)
qed

text \<open>
  A key file may hold the 32 bytes of the master key themselves, or a line with their hexadecimal text
  or their base64 text with or without padding: every form loads the same keyring.
\<close>

theorem load_keyring_forms:
  assumes "length key = 32" and "path \<noteq> []"
  shows "load_keyring path (Some key) = new_keyring key \<and> load_keyring path (Some (hex_of key @ [CHR 0x0A])) = new_keyring key \<and>
    load_keyring path (Some (std64_encode key @ [CHR 0x0A])) = new_keyring key \<and>
    load_keyring path (Some (std64_encode key @ ''='' @ [CHR 0x0A])) = new_keyring key"
proof -
  have form: "load_keyring path (Some b) = new_keyring key" if "text_key b (trim_space b) = key" for b
    using that assms by (simp add: load_keyring_def)
  let ?h = "hex_of key" and ?b = "std64_encode key"
  have len: "length ?h = 64" "length ?b = 43" using assms(1) by (simp_all add: length_hex_of std64_length)
  have "trim_space (?h @ [CHR 0x0A]) = ?h" using len printable_hex by (intro trim_line) auto
  then have h: "text_key (?h @ [CHR 0x0A]) (trim_space (?h @ [CHR 0x0A])) = key"
    using assms(1) len by (auto simp: text_key_def hex_round_trip Let_def)
  have "trim_space (?b @ [CHR 0x0A]) = ?b" using len printable_std64 by (intro trim_line) auto
  then have b: "text_key (?b @ [CHR 0x0A]) (trim_space (?b @ [CHR 0x0A])) = key"
    using assms(1) len by (simp add: text_key_def std64_round_trip)
  have "trim_space ((?b @ ''='') @ [CHR 0x0A]) = ?b @ ''=''"
    using printable_std64 by (intro trim_line) (auto simp: printable_def)
  moreover have "std64_padded_decode (?b @ ''='') = Some key"
  proof -
    have c: "\<forall>c\<in>set ?b. c \<noteq> CHR ''='' \<and> c \<noteq> CHR 0x0A \<and> c \<noteq> CHR 0x0D"
    proof -
      have "\<forall>c\<in>set alphabet. to_std c \<noteq> CHR ''='' \<and> to_std c \<noteq> CHR 0x0A \<and> to_std c \<noteq> CHR 0x0D"
        by (simp add: alphabet_def to_std_def)
      then show ?thesis using b64_encode_alphabet[of key] by (auto simp: std64_encode_def)
    qed
    then have "filter (\<lambda>c. c \<noteq> CHR 0x0A \<and> c \<noteq> CHR 0x0D) ?b = ?b" by (simp add: filter_id_conv)
    then show ?thesis using c len by (simp add: std64_padded_decode_def Let_def takeWhile_append2 dropWhile_append2 std64_round_trip)
  qed
  ultimately have p: "text_key (?b @ ''='' @ [CHR 0x0A]) (trim_space (?b @ ''='' @ [CHR 0x0A])) = key"
    using assms(1) len by (simp add: text_key_def std64_decode_std)
  have short: "length (trim_space key) \<le> 32" using length_trim_space[of key] assms(1) by simp
  then have "length k \<noteq> 32" if "std64_decode (trim_space key) = Some k \<or> std64_padded_decode (trim_space key) = Some k" for k
    using that std64_decode_length[of "trim_space key" k] padded_decode_length[of "trim_space key" k] by auto
  then have "text_key key (trim_space key) = key"
    using assms(1) short by (auto simp: text_key_def Let_def split: option.split)
  with h b p show ?thesis by (intro conjI form)
qed


lemma load_keyring_forms_witness:
  "load_keyring ''/run/master.key'' (Some (hex_of (replicate 32 (CHR ''x'')) @ [CHR 0x0A])) = new_keyring (replicate 32 (CHR ''x''))"
  using load_keyring_forms[of "replicate 32 (CHR ''x'')" "''/run/master.key''"] by simp

text \<open>
  C25.  A stored envelope whose nonce decodes to another length than 12 bytes passes every check of \<open>Decrypt\<close>
  and panics in \<open>gcm.Open\<close>, whatever the keys, although \<open>ErrInvalidNonce\<close> exists for a damaged nonce.
\<close>

theorem short_nonce_panics:
  assumes "new_keyring key = Inr k" and "length nonce \<noteq> 12"
    and "e = \<lparr>en_version = envelope_version, en_key = ''k1'', en_nonce = std64_encode nonce, en_cipher = std64_encode cipher\<rparr>"
  shows "parse_envelope (envelope_text e) = Some e \<and> decrypt g k e aad = Inl Panic"
proof
  show "parse_envelope (envelope_text e) = Some e"
    unfolding assms(3) by (rule envelope_round_trip) (simp_all add: std64_ascii valid_utf8_ascii envelope_version_def)
  show "decrypt g k e aad = Inl Panic"
    using assms by (auto simp: new_keyring_def decrypt_def aes_key_size_def std64_round_trip split: if_split_asm)
qed

lemma short_nonce_panics_witness:
  "\<exists>k. new_keyring (replicate 32 (CHR ''x'')) = Inr k \<and>
    decrypt sample_aead k \<lparr>en_version = envelope_version, en_key = ''k1'', en_nonce = std64_encode [], en_cipher = std64_encode []\<rparr> [] = Inl Panic"
proof -
  obtain k where k: "new_keyring (replicate 32 (CHR ''x'')) = Inr k" by (simp add: new_keyring_def)
  from short_nonce_panics[OF k _ refl, of "[]" "[]" sample_aead "[]"] k show ?thesis by simp
qed

end
