(* ===== verification/Channels.thy ===== *)
theory Channels
  imports Deliveries Crypto
begin

text \<open>
  The notification channels: internal/storage/notifications.go (Bark channels, updates, rotation of
  secrets, the target of a delivery), events.go (\<open>CreateEndpointWithSecret\<close>, \<open>EndpointDetails\<close>) and
  repository.go (\<open>CreateEndpoint\<close>, \<open>Endpoints\<close>).  An update appends a version, a rotation appends a
  secret, and a delivery names the version and the key it was created with.  \<open>vault\<close> is the keyring of
  the store; \<open>url_ok\<close> stands for \<open>security.ValidateWebhookURL\<close>.  Errors without a sentinel carry their
  text without the values that Go interpolates.
\<close>

section \<open>Bark settings\<close>

definition default_bark_config :: bark_config where
  "default_bark_config = \<lparr>bk_group = ''Giao d'' @ [CHR 0xE1, CHR 0xBB, CHR 0x8B] @ ''ch'', bk_level = ''timeSensitive'',
     bk_sound = ''shake'', bk_icon = [], bk_balance = True, bk_description = True, bk_dashboard = True\<rparr>"

definition pick_text :: "nat \<Rightarrow> string \<Rightarrow> string \<Rightarrow> string \<Rightarrow> err + string" where
  "pick_text lim msg old new =
     (let t = trim_space new in if t = [] then Inr old else if lim < length t then Inl (ErrText msg) else Inr t)"

definition pick_level :: "string \<Rightarrow> string \<Rightarrow> err + string" where
  "pick_level old new =
     (let t = trim_space new in if t = [] then Inr old
      else if t \<in> {''passive'', ''active'', ''timeSensitive''} then Inr t else Inl (ErrText ''invalid level''))"

definition validate_bark_config :: "bark_config option \<Rightarrow> err + bark_config" where
  "validate_bark_config cfg =
     (let res = default_bark_config in
      case cfg of None \<Rightarrow> Inr res
      | Some c \<Rightarrow>
          bnd (pick_text 64 ''group name too long (max 64)'' (bk_group res) (bk_group c)) (\<lambda>g.
          bnd (pick_level (bk_level res) (bk_level c)) (\<lambda>l.
          bnd (pick_text 64 ''sound name too long (max 64)'' (bk_sound res) (bk_sound c)) (\<lambda>snd.
          bnd (pick_text 500 ''icon URL too long (max 500)'' (bk_icon res) (bk_icon c)) (\<lambda>ic.
            Inr \<lparr>bk_group = g, bk_level = l, bk_sound = snd, bk_icon = ic, bk_balance = bk_balance c,
              bk_description = bk_description c, bk_dashboard = bk_dashboard c\<rparr>)))))"

definition valid_device_key :: "string \<Rightarrow> err + unit" where
  "valid_device_key k =
     (if k = [] then Inl (ErrText ''bark device key is required'')
      else if 500 < length k then Inl (ErrText ''bark device key exceeds max length of 500 characters'')
      else if \<exists>c\<in>set k. of_char c < (32 :: nat) \<or> c = CHR 0x7F
      then Inl (ErrText ''bark device key contains invalid control characters'')
      else Inr ())"

section \<open>Secrets\<close>

record vault =
  va_gcm :: aead
  va_keyring :: "keyring option"

definition seal_text :: "vault \<Rightarrow> string \<Rightarrow> string \<Rightarrow> string \<Rightarrow> err + string" where
  "seal_text v nonce plain aad =
     (case va_keyring v of
        None \<Rightarrow> Inl (ErrText ''master keyring required'')
      | Some k \<Rightarrow> (case encrypt (va_gcm v) k nonce plain aad of
          Inl _ \<Rightarrow> Inl (ErrText ''encrypt secret'') | Inr e \<Rightarrow> Inr (envelope_text e)))"

text \<open>
  A stored envelope whose nonce has another length than 12 makes \<open>Decrypt\<close> panic instead of failing
  (\<open>Crypto.short_nonce_panics\<close>); nothing writes such an envelope, and a read of one is an error here.
\<close>

definition unseal_text :: "vault \<Rightarrow> err \<Rightarrow> string \<Rightarrow> string \<Rightarrow> err + string" where
  "unseal_text v x blob aad =
     (case va_keyring v of
        None \<Rightarrow> Inl (ErrText ''master keyring required'')
      | Some k \<Rightarrow> (case parse_envelope blob of
          None \<Rightarrow> Inl (ErrText ''unmarshal secret envelope'')
        | Some e \<Rightarrow> (case decrypt (va_gcm v) k e aad of Inl _ \<Rightarrow> Inl x | Inr plain \<Rightarrow> Inr plain)))"

definition webhook_aad :: "string \<Rightarrow> string \<Rightarrow> string" where
  "webhook_aad ep key = ''webhook-secret:'' @ ep @ '':'' @ key"

definition bark_aad :: "string \<Rightarrow> string \<Rightarrow> string" where
  "bark_aad ep key = ''notification-secret:BARK:'' @ ep @ '':'' @ key"

definition looks_sealed :: "secret_row \<Rightarrow> bool" where
  "looks_sealed sc \<longleftrightarrow> sc_encoding sc = ''aes-gcm-v1'' \<or>
     has_prefix (sc_blob sc) (CHR ''{'' # quote # ''Version'' @ [quote, CHR '':''])"

section \<open>Creating\<close>

definition new_endpoint :: "string \<Rightarrow> string \<Rightarrow> string \<Rightarrow> string \<Rightarrow> endpoint" where
  "new_endpoint i name provider created = \<lparr>ep_id = i, ep_name = name, ep_status = ''DISABLED'', ep_revision = 1,
     ep_provider = provider, ep_created = created, ep_updated = created\<rparr>"

definition new_secret :: "string \<Rightarrow> string \<Rightarrow> string \<Rightarrow> string \<Rightarrow> string \<Rightarrow> string \<Rightarrow> secret_row" where
  "new_secret i key kind blob created encoding = \<lparr>sc_endpoint = i, sc_key = key, sc_kind = kind, sc_blob = blob,
     sc_status = ''ACTIVE'', sc_created = created, sc_retired = [], sc_encoding = encoding\<rparr>"

definition insert_endpoint :: "endpoint \<Rightarrow> db \<Rightarrow> err + db" where
  "insert_endpoint ep s = (if \<exists>x\<in>set (db_endpoints s). ep_id x = ep_id ep then Inl ErrConstraint
     else Inr (s\<lparr>db_endpoints := db_endpoints s @ [ep]\<rparr>))"

definition insert_version :: "version_row \<Rightarrow> db \<Rightarrow> err + db" where
  "insert_version v s = (if (\<exists>x\<in>set (db_epversions s). vr_endpoint x = vr_endpoint v \<and> vr_revision x = vr_revision v) \<or>
       (\<forall>ep\<in>set (db_endpoints s). ep_id ep \<noteq> vr_endpoint v) then Inl ErrConstraint
     else Inr (s\<lparr>db_epversions := db_epversions s @ [v]\<rparr>))"

definition insert_secret :: "secret_row \<Rightarrow> db \<Rightarrow> err + db" where
  "insert_secret sc s = (if (\<exists>x\<in>set (db_secrets s). sc_endpoint x = sc_endpoint sc \<and> sc_key x = sc_key sc) \<or>
       (\<forall>ep\<in>set (db_endpoints s). ep_id ep \<noteq> sc_endpoint sc) then Inl ErrConstraint
     else Inr (s\<lparr>db_secrets := db_secrets s @ [sc]\<rparr>))"

definition create_endpoint :: "env \<Rightarrow> string \<Rightarrow> string \<Rightarrow> db \<Rightarrow> (err + endpoint) \<times> db" where
  "create_endpoint e name0 url0 = run_tx (\<lambda>s. bnd (check_mutation_allowed e s) (\<lambda>_.
     let name = trim_space name0; url = trim_space url0; ep = new_endpoint (fresh_id e ''ep'' 0) name ''WEBHOOK'' (now_text e) in
     if name = [] \<or> url = [] then Inl (ErrText ''name and URL are required'')
     else bnd (insert_endpoint ep s) (\<lambda>s1.
       bnd (insert_version \<lparr>vr_endpoint = ep_id ep, vr_revision = 1, vr_url = url, vr_config = None, vr_created = now_text e\<rparr> s1)
         (\<lambda>s2. Inr (ep, s2)))))"

text \<open>The random secret is the draw 1, the nonce of its envelope the draw 2.\<close>

definition create_endpoint_with_secret ::
  "vault \<Rightarrow> env \<Rightarrow> string \<Rightarrow> string \<Rightarrow> db \<Rightarrow> (err + (endpoint \<times> string)) \<times> db" where
  "create_endpoint_with_secret v e name url = run_tx (\<lambda>s. bnd (check_mutation_allowed e s) (\<lambda>_.
     if name = [] \<or> url = [] then Inl (ErrText ''name and URL are required'')
     else let secret = hex_of (e_id e 1); i = fresh_id e ''ep'' 0; ep = new_endpoint i name ''WEBHOOK'' (now_text e) in
       bnd (if va_keyring v = None then Inr (secret, ''legacy-hex'')
            else bnd (seal_text v (e_id e 2) secret (webhook_aad i ''k1'')) (\<lambda>b. Inr (b, ''aes-gcm-v1''))) (\<lambda>(blob, encoding).
       bnd (insert_endpoint ep s) (\<lambda>s1.
       bnd (insert_version \<lparr>vr_endpoint = i, vr_revision = 1, vr_url = url, vr_config = None, vr_created = now_text e\<rparr> s1) (\<lambda>s2.
       bnd (insert_secret (new_secret i ''k1'' ''WEBHOOK_HMAC'' blob (now_text e) encoding) s2) (\<lambda>s3. Inr ((ep, secret), s3)))))))"

definition create_bark_channel ::
  "vault \<Rightarrow> env \<Rightarrow> string \<Rightarrow> string \<Rightarrow> bark_config option \<Rightarrow> db \<Rightarrow> (err + (endpoint \<times> bark_config)) \<times> db" where
  "create_bark_channel v e name0 key0 cfg = run_tx (\<lambda>s. bnd (check_mutation_allowed e s) (\<lambda>_.
     let name = trim_space name0; key = trim_space key0; i = fresh_id e ''ch_bark'' 0; ep = new_endpoint i name ''BARK'' (now_text e) in
     if name = [] then Inl (ErrText ''channel name is required'')
     else bnd (valid_device_key key) (\<lambda>_.
       bnd (validate_bark_config cfg) (\<lambda>norm.
       bnd (seal_text v (e_id e 2) key (bark_aad i ''k1'')) (\<lambda>blob.
       bnd (insert_endpoint ep s) (\<lambda>s1.
       bnd (insert_version \<lparr>vr_endpoint = i, vr_revision = 1, vr_url = [], vr_config = Some norm, vr_created = now_text e\<rparr> s1) (\<lambda>s2.
       bnd (insert_secret (new_secret i ''k1'' ''BARK_DEVICE_KEY'' blob (now_text e) ''aes-gcm-v1'') s2) (\<lambda>s3.
         Inr ((ep, norm), s3)))))))))"

section \<open>Reading\<close>

record channel_view =
  nc_id :: string
  nc_name :: string
  nc_provider :: string
  nc_status :: string
  nc_revision :: int
  nc_url :: string
  nc_bark :: "bark_config option"
  nc_has_key :: bool
  nc_created :: string
  nc_updated :: string

definition current_version :: "db \<Rightarrow> endpoint \<Rightarrow> version_row option" where
  "current_version s ep = find (\<lambda>v. vr_endpoint v = ep_id ep \<and> vr_revision v = ep_revision ep) (db_epversions s)"

definition view_channel :: "db \<Rightarrow> endpoint \<Rightarrow> version_row \<Rightarrow> channel_view" where
  "view_channel s ep v = \<lparr>nc_id = ep_id ep, nc_name = ep_name ep, nc_provider = ep_provider ep, nc_status = ep_status ep,
     nc_revision = ep_revision ep, nc_url = vr_url v, nc_bark = (if ep_provider ep = ''BARK'' then vr_config v else None),
     nc_has_key = (\<exists>sc\<in>set (db_secrets s). sc_endpoint sc = ep_id ep \<and> sc_status sc = ''ACTIVE''),
     nc_created = ep_created ep, nc_updated = ep_updated ep\<rparr>"

definition notification_channels :: "db \<Rightarrow> channel_view list" where
  "notification_channels s = rev (sort_key nc_created (rev (concat (map (\<lambda>ep.
     case current_version s ep of None \<Rightarrow> [] | Some v \<Rightarrow> [view_channel s ep v]) (db_endpoints s)))))"

definition notification_channel_by_id :: "string \<Rightarrow> db \<Rightarrow> err + channel_view" where
  "notification_channel_by_id i s =
     (case find (\<lambda>ep. ep_id ep = i \<and> current_version s ep \<noteq> None) (db_endpoints s) of
        None \<Rightarrow> Inl ErrNoRows
      | Some ep \<Rightarrow> (case current_version s ep of None \<Rightarrow> Inl ErrNoRows | Some v \<Rightarrow> Inr (view_channel s ep v)))"

section \<open>Changing\<close>

definition version_content ::
  "(string \<Rightarrow> bool) \<Rightarrow> string \<Rightarrow> string \<Rightarrow> bark_config option \<Rightarrow> err + (string \<times> bark_config option)" where
  "version_content url_ok provider url0 cfg =
     (if provider = ''WEBHOOK''
      then let url = trim_space url0 in
           if url = [] then Inl (ErrText ''target URL is required for webhook channel'')
           else if \<not> url_ok url then Inl (ErrText ''invalid webhook URL'') else Inr (url, None)
      else if provider = ''BARK'' then bnd (validate_bark_config cfg) (\<lambda>norm. Inr ([], Some norm))
      else Inl (ErrText ''unknown provider''))"

definition update_channel_tx ::
  "(string \<Rightarrow> bool) \<Rightarrow> env \<Rightarrow> string \<Rightarrow> int \<Rightarrow> string \<Rightarrow> string \<Rightarrow> bark_config option \<Rightarrow> db \<Rightarrow> err + (unit \<times> db)" where
  "update_channel_tx url_ok e i expected name url cfg s =
     (case find (\<lambda>ep. ep_id ep = i) (db_endpoints s) of
        None \<Rightarrow> Inl ErrNoRows
      | Some ep \<Rightarrow>
          if ep_revision ep \<noteq> expected then Inl ErrRevisionConflict
          else bnd (version_content url_ok (ep_provider ep) url cfg) (\<lambda>(url', cfg').
            bnd (insert_version \<lparr>vr_endpoint = i, vr_revision = ep_revision ep + 1, vr_url = url', vr_config = cfg', vr_created = now_text e\<rparr> s) (\<lambda>s1.
            Inr ((), s1\<lparr>db_endpoints := update_where (\<lambda>x. ep_id x = i)
              (\<lambda>x. x\<lparr>ep_name := name, ep_revision := ep_revision ep + 1, ep_updated := now_text e\<rparr>) (db_endpoints s1)\<rparr>))))"

definition update_channel ::
  "(string \<Rightarrow> bool) \<Rightarrow> env \<Rightarrow> string \<Rightarrow> int \<Rightarrow> string \<Rightarrow> string \<Rightarrow> bark_config option \<Rightarrow> db \<Rightarrow> (err + channel_view) \<times> db" where
  "update_channel url_ok e i expected name0 url cfg s =
     (case run_tx (\<lambda>s. bnd (check_mutation_allowed e s) (\<lambda>_. let name = trim_space name0 in
         if name = [] then Inl (ErrText ''channel name is required'')
         else update_channel_tx url_ok e i expected name url cfg s)) s of
        (Inl x, s') \<Rightarrow> (Inl x, s')
      | (Inr _, s') \<Rightarrow> (notification_channel_by_id i s', s'))"

definition retire_secrets :: "env \<Rightarrow> string \<Rightarrow> secret_row list \<Rightarrow> secret_row list" where
  "retire_secrets e i = update_where (\<lambda>sc. sc_endpoint sc = i \<and> sc_status sc = ''ACTIVE'')
     (\<lambda>sc. sc\<lparr>sc_status := ''RETIRED'', sc_retired := now_text e\<rparr>)"

text \<open>The kind, the blob, the encoding and the text shown of the new secret.\<close>

definition rotated_secret ::
  "vault \<Rightarrow> env \<Rightarrow> string \<Rightarrow> string \<Rightarrow> string \<Rightarrow> string \<Rightarrow> err + (string \<times> string \<times> string \<times> string)" where
  "rotated_secret v e provider i key bark0 =
     (if provider = ''WEBHOOK''
      then let secret = hex_of (e_id e 1) in
           if va_keyring v = None then Inr (''WEBHOOK_HMAC'', secret, ''legacy-hex'', secret)
           else bnd (seal_text v (e_id e 2) secret (webhook_aad i key)) (\<lambda>b. Inr (''WEBHOOK_HMAC'', b, ''aes-gcm-v1'', secret))
      else if provider = ''BARK''
      then let bark = trim_space bark0 in
           bnd (valid_device_key bark) (\<lambda>_.
           bnd (seal_text v (e_id e 2) bark (bark_aad i key)) (\<lambda>b. Inr (''BARK_DEVICE_KEY'', b, ''aes-gcm-v1'', [])))
      else Inl (ErrText ''unknown provider''))"

definition rotate_secret :: "vault \<Rightarrow> env \<Rightarrow> string \<Rightarrow> string \<Rightarrow> db \<Rightarrow> (err + string) \<times> db" where
  "rotate_secret v e i bark = run_tx (\<lambda>s. bnd (check_mutation_allowed e s) (\<lambda>_.
     case find (\<lambda>ep. ep_id ep = i) (db_endpoints s) of
       None \<Rightarrow> Inl ErrNoRows
     | Some ep \<Rightarrow> let key = fresh_id e ''key'' 0 in
         bnd (rotated_secret v e (ep_provider ep) i key bark) (\<lambda>(kind, blob, encoding, shown).
         bnd (insert_secret (new_secret i key kind blob (now_text e) encoding) (s\<lparr>db_secrets := retire_secrets e i (db_secrets s)\<rparr>)) (\<lambda>s'.
           Inr (shown, s')))))"

section \<open>The target of a delivery\<close>

record target =
  tg_provider :: string
  tg_url :: string
  tg_bark :: "bark_config option"
  tg_secret :: string
  tg_key :: string

definition active_key :: "string \<Rightarrow> db \<Rightarrow> string option" where
  "active_key i s = map_option sc_key (find (\<lambda>sc. sc_endpoint sc = i \<and> sc_status sc = ''ACTIVE'') (db_secrets s))"

definition target_rows :: "string \<Rightarrow> int \<Rightarrow> string \<Rightarrow> db \<Rightarrow> (endpoint \<times> version_row \<times> secret_row) option" where
  "target_rows i revision key s =
     (case find (\<lambda>ep. ep_id ep = i) (db_endpoints s) of None \<Rightarrow> None
      | Some ep \<Rightarrow>
          (case (find (\<lambda>v. vr_endpoint v = i \<and> vr_revision v = (if 0 < revision then revision else ep_revision ep)) (db_epversions s),
             find (\<lambda>sc. sc_endpoint sc = i \<and> (if key \<noteq> [] then sc_key sc = key else Some (sc_key sc) = active_key i s)) (db_secrets s)) of
             (Some v, Some sc) \<Rightarrow> Some (ep, v, sc) | _ \<Rightarrow> None))"

definition delivery_target :: "vault \<Rightarrow> claimed \<Rightarrow> db \<Rightarrow> err + target" where
  "delivery_target v c s =
     (case target_rows (cl_endpoint c) (cl_revision c) (cl_key c) s of
        None \<Rightarrow> Inl (ErrText ''fetch delivery target'')
      | Some (ep, vr, sc) \<Rightarrow>
          let t = \<lparr>tg_provider = ep_provider ep, tg_url = vr_url vr, tg_bark = None, tg_secret = [], tg_key = sc_key sc\<rparr> in
          if ep_provider ep = ''BARK''
          then bnd (unseal_text v ErrBarkDecryptionFailed (sc_blob sc) (bark_aad (cl_endpoint c) (sc_key sc))) (\<lambda>plain.
            Inr (t\<lparr>tg_secret := plain, tg_bark := Some (case vr_config vr of None \<Rightarrow> default_bark_config | Some b \<Rightarrow> b)\<rparr>))
          else if looks_sealed sc
          then bnd (unseal_text v (ErrText ''decrypt webhook secret'') (sc_blob sc) (webhook_aad (cl_endpoint c) (sc_key sc))) (\<lambda>plain.
            Inr (t\<lparr>tg_secret := plain\<rparr>))
          else Inr (t\<lparr>tg_secret := sc_blob sc\<rparr>))"

definition endpoint_details :: "vault \<Rightarrow> string \<Rightarrow> db \<Rightarrow> err + (string \<times> string)" where
  "endpoint_details v i s =
     (case find (\<lambda>ep. ep_id ep = i) (db_endpoints s) of
        None \<Rightarrow> Inl ErrNoRows
      | Some ep \<Rightarrow> (case (current_version s ep, find (\<lambda>sc. sc_endpoint sc = i \<and> sc_status sc = ''ACTIVE'') (db_secrets s)) of
          (Some vr, Some sc) \<Rightarrow>
            if looks_sealed sc
            then bnd (unseal_text v (ErrText ''decrypt webhook secret'') (sc_blob sc) (webhook_aad i (sc_key sc))) (\<lambda>plain. Inr (vr_url vr, plain))
            else if sc_encoding sc \<noteq> ''legacy-hex'' then Inl (ErrText ''unsupported webhook secret encoding'')
            else Inr (vr_url vr, sc_blob sc)
        | _ \<Rightarrow> Inl ErrNoRows))"

section \<open>The invariant of the channel tables\<close>

definition channels_inv :: "db \<Rightarrow> bool" where
  "channels_inv s \<longleftrightarrow> distinct (map ep_id (db_endpoints s)) \<and>
     distinct (map (\<lambda>v. (vr_endpoint v, vr_revision v)) (db_epversions s)) \<and>
     distinct (map (\<lambda>sc. (sc_endpoint sc, sc_key sc)) (db_secrets s)) \<and>
     distinct (map sc_endpoint (filter (\<lambda>sc. sc_status sc = ''ACTIVE'') (db_secrets s))) \<and>
     (\<forall>v\<in>set (db_epversions s). \<exists>ep\<in>set (db_endpoints s). ep_id ep = vr_endpoint v \<and> vr_revision v \<le> ep_revision ep) \<and>
     (\<forall>sc\<in>set (db_secrets s). \<exists>ep\<in>set (db_endpoints s). ep_id ep = sc_endpoint sc) \<and>
     (\<forall>ep\<in>set (db_endpoints s). current_version s ep \<noteq> None)"

text \<open>What every change keeps: the provider of an endpoint, every version, and what a secret seals.\<close>

definition channels_keep :: "db \<Rightarrow> db \<Rightarrow> bool" where
  "channels_keep s s' \<longleftrightarrow>
     (\<forall>ep\<in>set (db_endpoints s). \<exists>ep'\<in>set (db_endpoints s'). ep_id ep' = ep_id ep \<and> ep_provider ep' = ep_provider ep \<and>
        ep_revision ep \<le> ep_revision ep') \<and>
     set (db_epversions s) \<subseteq> set (db_epversions s') \<and>
     (\<forall>sc\<in>set (db_secrets s). \<exists>sc'\<in>set (db_secrets s'). sc_endpoint sc' = sc_endpoint sc \<and> sc_key sc' = sc_key sc \<and>
        sc_blob sc' = sc_blob sc \<and> sc_encoding sc' = sc_encoding sc)"

lemma channels_keep_refl: "channels_keep s s"
  by (auto simp: channels_keep_def)

lemma channels_keep_trans:
  assumes "channels_keep a b" "channels_keep b c"
  shows "channels_keep a c"
  unfolding channels_keep_def
proof (intro conjI ballI)
  fix ep assume "ep \<in> set (db_endpoints a)"
  with assms(1) obtain x where x: "x \<in> set (db_endpoints b)" "ep_id x = ep_id ep" "ep_provider x = ep_provider ep" "ep_revision ep \<le> ep_revision x"
    unfolding channels_keep_def by blast
  with assms(2) obtain y where "y \<in> set (db_endpoints c)" "ep_id y = ep_id x" "ep_provider y = ep_provider x" "ep_revision x \<le> ep_revision y"
    unfolding channels_keep_def by blast
  with x show "\<exists>y\<in>set (db_endpoints c). ep_id y = ep_id ep \<and> ep_provider y = ep_provider ep \<and> ep_revision ep \<le> ep_revision y"
    by (intro bexI[of _ y]) simp_all
next
  fix sc assume "sc \<in> set (db_secrets a)"
  with assms(1) obtain x where x: "x \<in> set (db_secrets b)" "sc_endpoint x = sc_endpoint sc" "sc_key x = sc_key sc"
    "sc_blob x = sc_blob sc" "sc_encoding x = sc_encoding sc"
    unfolding channels_keep_def by blast
  with assms(2) obtain y where "y \<in> set (db_secrets c)" "sc_endpoint y = sc_endpoint x" "sc_key y = sc_key x"
    "sc_blob y = sc_blob x" "sc_encoding y = sc_encoding x"
    unfolding channels_keep_def by blast
  with x show "\<exists>y\<in>set (db_secrets c). sc_endpoint y = sc_endpoint sc \<and> sc_key y = sc_key sc \<and> sc_blob y = sc_blob sc \<and>
      sc_encoding y = sc_encoding sc"
    by (intro bexI[of _ y]) simp_all
qed (use assms in \<open>auto simp: channels_keep_def\<close>)

definition channels_step :: "db \<Rightarrow> db \<Rightarrow> bool" where
  "channels_step s s' \<longleftrightarrow> channels_inv s' \<and> channels_keep s s'"

lemma channels_step_refl: "channels_inv s \<Longrightarrow> channels_step s s"
  by (simp add: channels_step_def channels_keep_refl)

lemma channels_step_trans: "channels_step a b \<Longrightarrow> channels_step b c \<Longrightarrow> channels_step a c"
  using channels_keep_trans by (auto simp: channels_step_def)

lemma current_version_cong:
  "db_epversions s' = db_epversions s \<Longrightarrow> ep_id ep' = ep_id ep \<Longrightarrow> ep_revision ep' = ep_revision ep \<Longrightarrow>
    current_version s' ep' = current_version s ep"
  by (simp add: current_version_def)

text \<open>A new endpoint with its first version.\<close>

lemma add_endpoint_step:
  assumes "channels_inv s" "insert_endpoint ep s = Inr s1" "insert_version v s1 = Inr s2"
    "vr_endpoint v = ep_id ep" "vr_revision v = ep_revision ep"
  shows "channels_step s s2"
proof -
  have s1: "s1 = s\<lparr>db_endpoints := db_endpoints s @ [ep]\<rparr>" and new: "\<forall>x\<in>set (db_endpoints s). ep_id x \<noteq> ep_id ep"
    using assms(2) by (auto simp: insert_endpoint_def split: if_split_asm)
  have s2: "s2 = s1\<lparr>db_epversions := db_epversions s @ [v]\<rparr>"
    using assms(3) by (auto simp: insert_version_def s1 split: if_split_asm)
  have nov: "\<forall>x\<in>set (db_epversions s). vr_endpoint x \<noteq> vr_endpoint v"
    using assms(1,4) new by (fastforce simp: channels_inv_def)
  have cur: "current_version s2 x \<noteq> None" if "x \<in> set (db_endpoints s2)" for x
    using that assms(1,4,5) by (auto simp: channels_inv_def current_version_def s1 s2 find_append split: option.split)
  have a: "distinct (map ep_id (db_endpoints s2))" "distinct (map (\<lambda>v. (vr_endpoint v, vr_revision v)) (db_epversions s2))"
    using assms(1) new nov by (auto simp: channels_inv_def s1 s2)
  have b: "\<forall>v\<in>set (db_epversions s2). \<exists>ep\<in>set (db_endpoints s2). ep_id ep = vr_endpoint v \<and> vr_revision v \<le> ep_revision ep"
    "\<forall>sc\<in>set (db_secrets s2). \<exists>ep\<in>set (db_endpoints s2). ep_id ep = sc_endpoint sc"
    using assms(1,4,5) by (auto simp: channels_inv_def s1 s2)
  have "channels_inv s2"
    using assms(1) a b cur unfolding channels_inv_def by (simp add: s1 s2)
  then show ?thesis by (auto simp: channels_step_def channels_keep_def s1 s2)
qed

text \<open>A new secret for an endpoint that has no active one.\<close>

lemma add_secret_step:
  assumes "channels_inv s" "insert_secret sc s = Inr s'"
    and "\<forall>x\<in>set (db_secrets s). sc_endpoint x = sc_endpoint sc \<longrightarrow> sc_status x \<noteq> ''ACTIVE''"
  shows "channels_step s s'"
proof -
  have s': "s' = s\<lparr>db_secrets := db_secrets s @ [sc]\<rparr>" "\<exists>ep\<in>set (db_endpoints s). ep_id ep = sc_endpoint sc"
    "\<forall>x\<in>set (db_secrets s). \<not> (sc_endpoint x = sc_endpoint sc \<and> sc_key x = sc_key sc)"
    using assms(2) by (auto simp: insert_secret_def split: if_split_asm)
  have cur: "current_version s' ep = current_version s ep" for ep by (simp add: current_version_def s'(1))
  have a: "distinct (map (\<lambda>sc. (sc_endpoint sc, sc_key sc)) (db_secrets s'))"
    "distinct (map sc_endpoint (filter (\<lambda>sc. sc_status sc = ''ACTIVE'') (db_secrets s')))"
    using assms(1,3) s'(3) by (auto simp: channels_inv_def s'(1))
  have b: "\<forall>sc\<in>set (db_secrets s'). \<exists>ep\<in>set (db_endpoints s'). ep_id ep = sc_endpoint sc"
    using assms(1) s'(2) by (simp add: channels_inv_def s'(1))
  have "channels_inv s'"
    using assms(1) a b cur unfolding channels_inv_def by (simp add: s'(1))
  then show ?thesis by (auto simp: channels_step_def channels_keep_def s'(1))
qed

lemma retire_step:
  assumes "channels_inv s"
  shows "channels_step s (s\<lparr>db_secrets := retire_secrets e i (db_secrets s)\<rparr>)"
proof -
  let ?f = "\<lambda>sc. if sc_endpoint sc = i \<and> sc_status sc = ''ACTIVE'' then sc\<lparr>sc_status := ''RETIRED'', sc_retired := now_text e\<rparr> else sc"
  have r: "retire_secrets e i xs = map ?f xs" for xs by (simp add: retire_secrets_def update_where_def)
  have k: "map (\<lambda>sc. (sc_endpoint sc, sc_key sc)) (map ?f xs) = map (\<lambda>sc. (sc_endpoint sc, sc_key sc)) xs" for xs by simp
  have act: "map sc_endpoint (filter (\<lambda>sc. sc_status sc = ''ACTIVE'') (map ?f xs)) =
      filter (\<lambda>x. x \<noteq> i) (map sc_endpoint (filter (\<lambda>sc. sc_status sc = ''ACTIVE'') xs))" for xs
    by (induction xs) auto
  let ?s = "s\<lparr>db_secrets := map ?f (db_secrets s)\<rparr>"
  have cur: "current_version ?s ep = current_version s ep" for ep by (simp add: current_version_def)
  have b: "\<forall>sc\<in>set (db_secrets ?s). \<exists>ep\<in>set (db_endpoints ?s). ep_id ep = sc_endpoint sc"
    using assms by (auto simp: channels_inv_def)
  have "distinct (map (\<lambda>sc. (sc_endpoint sc, sc_key sc)) (db_secrets ?s))"
    "distinct (map sc_endpoint (filter (\<lambda>sc. sc_status sc = ''ACTIVE'') (db_secrets ?s)))"
    using assms k[of "db_secrets s"] act[of "db_secrets s"] by (simp_all add: channels_inv_def del: map_map)
  then have "channels_inv ?s" using assms b cur unfolding channels_inv_def by simp
  moreover have "channels_keep s ?s"
  proof -
    have "\<exists>x\<in>set (map ?f (db_secrets s)). sc_endpoint x = sc_endpoint sc \<and> sc_key x = sc_key sc \<and> sc_blob x = sc_blob sc \<and>
        sc_encoding x = sc_encoding sc" if "sc \<in> set (db_secrets s)" for sc
      using that by (intro bexI[of _ "?f sc"]) simp_all
    moreover have "\<exists>ep'\<in>set (db_endpoints ?s). ep_id ep' = ep_id ep \<and> ep_provider ep' = ep_provider ep \<and> ep_revision ep \<le> ep_revision ep'"
      if "ep \<in> set (db_endpoints s)" for ep
      using that by (intro bexI[of _ ep]) simp_all
    ultimately show ?thesis unfolding channels_keep_def by (intro conjI ballI) simp_all
  qed
  ultimately show ?thesis unfolding r channels_step_def by blast
qed

lemma retired_none: "\<forall>x\<in>set (retire_secrets e i xs). sc_endpoint x = i \<longrightarrow> sc_status x \<noteq> ''ACTIVE''"
  unfolding retire_secrets_def by (induction xs) simp_all

text \<open>A change of the endpoint rows that keeps their identity and never lowers a revision.\<close>

lemma map_endpoints_keep:
  assumes "db_endpoints s' = map f (db_endpoints s)" "db_secrets s' = db_secrets s" "set (db_epversions s) \<subseteq> set (db_epversions s')"
    and "\<And>x. x \<in> set (db_endpoints s) \<Longrightarrow> ep_id (f x) = ep_id x \<and> ep_provider (f x) = ep_provider x \<and> ep_revision x \<le> ep_revision (f x)"
  shows "channels_keep s s'"
  unfolding channels_keep_def
proof (intro conjI ballI)
  fix ep assume "ep \<in> set (db_endpoints s)"
  then show "\<exists>ep'\<in>set (db_endpoints s'). ep_id ep' = ep_id ep \<and> ep_provider ep' = ep_provider ep \<and> ep_revision ep \<le> ep_revision ep'"
    using assms(4) by (intro bexI[of _ "f ep"]) (simp_all add: assms(1))
next
  fix sc assume "sc \<in> set (db_secrets s)"
  then show "\<exists>sc'\<in>set (db_secrets s'). sc_endpoint sc' = sc_endpoint sc \<and> sc_key sc' = sc_key sc \<and> sc_blob sc' = sc_blob sc \<and>
      sc_encoding sc' = sc_encoding sc"
    by (intro bexI[of _ sc]) (simp_all add: assms(2))
qed (use assms(3) in blast)

lemma map_endpoints_inv:
  assumes "channels_inv s" "db_endpoints s' = map f (db_endpoints s)" "db_secrets s' = db_secrets s"
    and "\<And>x. x \<in> set (db_endpoints s) \<Longrightarrow> ep_id (f x) = ep_id x \<and> ep_revision x \<le> ep_revision (f x)"
    and "distinct (map (\<lambda>v. (vr_endpoint v, vr_revision v)) (db_epversions s'))"
    and "\<And>v. v \<in> set (db_epversions s') \<Longrightarrow> v \<in> set (db_epversions s) \<or>
      (\<exists>x\<in>set (db_endpoints s). vr_endpoint v = ep_id x \<and> vr_revision v \<le> ep_revision (f x))"
    and "\<And>x. x \<in> set (db_endpoints s) \<Longrightarrow> current_version s' (f x) \<noteq> None"
  shows "channels_inv s'"
proof -
  have ids: "map ep_id (db_endpoints s') = map ep_id (db_endpoints s)" using assms(2,4) by simp
  have b: "\<exists>ep\<in>set (db_endpoints s'). ep_id ep = vr_endpoint v \<and> vr_revision v \<le> ep_revision ep" if v: "v \<in> set (db_epversions s')" for v
  proof -
    have old: "\<exists>x\<in>set (db_endpoints s). vr_endpoint v = ep_id x \<and> vr_revision v \<le> ep_revision (f x)"
      if w: "v \<in> set (db_epversions s)"
    proof -
      from assms(1) w obtain x where x: "x \<in> set (db_endpoints s)" "ep_id x = vr_endpoint v" "vr_revision v \<le> ep_revision x"
        unfolding channels_inv_def by blast
      then show ?thesis using assms(4)[OF x(1)] by (intro bexI[of _ x]) simp_all
    qed
    obtain x where x: "x \<in> set (db_endpoints s)" "ep_id x = vr_endpoint v" "vr_revision v \<le> ep_revision (f x)"
      using assms(6)[OF v] old by auto
    then show ?thesis using assms(4)[OF x(1)] by (intro bexI[of _ "f x"]) (simp_all add: assms(2))
  qed
  have c: "\<exists>ep\<in>set (db_endpoints s'). ep_id ep = sc_endpoint sc" if sc: "sc \<in> set (db_secrets s')" for sc
  proof -
    obtain x where x: "x \<in> set (db_endpoints s)" "ep_id x = sc_endpoint sc"
      using assms(1,3) sc by (auto simp: channels_inv_def)
    then show ?thesis using assms(4)[OF x(1)] by (intro bexI[of _ "f x"]) (simp_all add: assms(2))
  qed
  have d: "\<forall>ep\<in>set (db_endpoints s'). current_version s' ep \<noteq> None" using assms(7) by (auto simp: assms(2))
  show ?thesis using assms(1,3,5) ids b c d unfolding channels_inv_def by simp
qed

lemma status_channels:
  assumes "channels_inv s"
  shows "channels_step s (snd (set_endpoint_status e i st s))"
proof (cases "st \<noteq> ''ACTIVE'' \<and> st \<noteq> ''DISABLED''")
  case True
  with assms show ?thesis by (simp add: set_endpoint_status_def channels_step_refl)
next
  case False
  let ?f = "\<lambda>ep. if ep_id ep = i then ep\<lparr>ep_status := st, ep_updated := now_text e\<rparr> else ep"
  let ?s = "s\<lparr>db_endpoints := map ?f (db_endpoints s)\<rparr>"
  have "snd (set_endpoint_status e i st s) = ?s"
    using False by (auto simp: set_endpoint_status_def update_where_def)
  moreover have "channels_keep s ?s" by (rule map_endpoints_keep[of _ ?f]) simp_all
  moreover have "channels_inv ?s"
  proof (rule map_endpoints_inv[OF assms, of _ ?f])
    fix x assume x: "x \<in> set (db_endpoints s)"
    have "current_version ?s (?f x) = current_version s x" by (rule current_version_cong) simp_all
    then show "current_version ?s (?f x) \<noteq> None" using assms x by (simp add: channels_inv_def)
  qed (use assms in \<open>auto simp: channels_inv_def\<close>)
  ultimately show ?thesis by (simp add: channels_step_def)
qed

lemma update_channel_step:
  assumes "channels_inv s" "update_channel_tx url_ok e i expected name url cfg s = Inr (u, s')"
  shows "channels_step s s'"
proof -
  from assms(2) obtain ep url' cfg' s1 where ep: "find (\<lambda>ep. ep_id ep = i) (db_endpoints s) = Some ep" "ep_revision ep = expected"
    and v: "insert_version \<lparr>vr_endpoint = i, vr_revision = expected + 1, vr_url = url', vr_config = cfg', vr_created = now_text e\<rparr> s = Inr s1"
    and s': "s' = s1\<lparr>db_endpoints := update_where (\<lambda>x. ep_id x = i)
        (\<lambda>x. x\<lparr>ep_name := name, ep_revision := expected + 1, ep_updated := now_text e\<rparr>) (db_endpoints s1)\<rparr>"
    by (auto simp: update_channel_tx_def bnd_Inr split: option.split_asm if_split_asm)
  let ?v = "\<lparr>vr_endpoint = i, vr_revision = expected + 1, vr_url = url', vr_config = cfg', vr_created = now_text e\<rparr>"
  let ?f = "\<lambda>x. if ep_id x = i then x\<lparr>ep_name := name, ep_revision := expected + 1, ep_updated := now_text e\<rparr> else x"
  note epi = find_Some_iff2[OF ep(1)]
  have one: "x = ep" if "x \<in> set (db_endpoints s)" "ep_id x = i" for x
    using distinct_key_eq[of ep_id "db_endpoints s" x ep] assms(1) that epi by (simp add: channels_inv_def)
  have new: "\<forall>x\<in>set (db_epversions s). \<not> (vr_endpoint x = i \<and> vr_revision x = expected + 1)"
    and s2: "s' = s\<lparr>db_epversions := db_epversions s @ [?v], db_endpoints := map ?f (db_endpoints s)\<rparr>"
    using v by (auto simp: s' insert_version_def update_where_def split: if_split_asm)
  have f: "ep_id (?f x) = ep_id x \<and> ep_provider (?f x) = ep_provider x \<and> ep_revision x \<le> ep_revision (?f x)" if "x \<in> set (db_endpoints s)" for x
    using one[OF that] ep(2) by auto
  have "channels_keep s s'" by (rule map_endpoints_keep[of _ ?f]) (use f in \<open>auto simp: s2\<close>)
  moreover have "channels_inv s'"
  proof (rule map_endpoints_inv[OF assms(1), of _ ?f])
    fix x assume x: "x \<in> set (db_endpoints s)"
    have "current_version s x \<noteq> None" using assms(1) x by (simp add: channels_inv_def)
    then show "current_version s' (?f x) \<noteq> None"
      by (auto simp: current_version_def s2 find_append split: option.split)
  next
    fix w assume "w \<in> set (db_epversions s')"
    then show "w \<in> set (db_epversions s) \<or> (\<exists>x\<in>set (db_endpoints s). vr_endpoint w = ep_id x \<and> vr_revision w \<le> ep_revision (?f x))"
      using epi by (auto simp: s2 intro!: bexI[of _ ep])
  qed (use assms(1) f new in \<open>auto simp: s2 channels_inv_def\<close>)
  ultimately show ?thesis by (simp add: channels_step_def)
qed


section \<open>Histories of channel calls\<close>

lemma endpoint_secretless:
  assumes "channels_inv s" "insert_endpoint ep s = Inr s1" "insert_version v s1 = Inr s2"
  shows "\<forall>x\<in>set (db_secrets s2). sc_endpoint x \<noteq> ep_id ep"
proof -
  have "db_secrets s2 = db_secrets s" "\<forall>x\<in>set (db_endpoints s). ep_id x \<noteq> ep_id ep"
    using assms(2,3) by (auto simp: insert_endpoint_def insert_version_def split: if_split_asm)
  then show ?thesis using assms(1) by (fastforce simp: channels_inv_def)
qed

lemma run_tx_rel: "(\<And>a s'. f s = Inr (a, s') \<Longrightarrow> r s s') \<Longrightarrow> r s s \<Longrightarrow> r s (snd (run_tx f s))"
  by (auto simp: snd_run_tx split: sum.split)

lemma create_step:
  assumes "channels_inv s"
  shows "channels_step s (snd (create_endpoint e name url s))"
  unfolding create_endpoint_def
  by (rule run_tx_rel[where r = channels_step]) (use assms in \<open>auto simp: bnd_Inr Let_def channels_step_refl new_endpoint_def
    split: if_split_asm intro!: add_endpoint_step\<close>)

lemma keyed_endpoint_step:
  assumes "channels_inv s" "insert_endpoint (new_endpoint i name pr st) s = Inr s1" "insert_version v s1 = Inr s2"
    "insert_secret (new_secret i key kind blob st' enc) s2 = Inr s3" "vr_endpoint v = i" "vr_revision v = 1"
  shows "channels_step s s3"
proof -
  have "channels_step s s2" by (rule add_endpoint_step[OF assms(1-3)]) (simp_all add: assms(5,6) new_endpoint_def)
  moreover from this have "channels_step s2 s3"
    using endpoint_secretless[OF assms(1-3)]
    by (intro add_secret_step[OF _ assms(4)]) (simp_all add: channels_step_def new_endpoint_def new_secret_def)
  ultimately show ?thesis by (rule channels_step_trans)
qed

lemma create_secret_step:
  assumes "channels_inv s"
  shows "channels_step s (snd (create_endpoint_with_secret v e name url s))"
  unfolding create_endpoint_with_secret_def
proof (rule run_tx_rel[where r = channels_step], goal_cases)
  case (1 a s')
  then obtain s1 s2 blob enc where "insert_endpoint (new_endpoint (fresh_id e ''ep'' 0) name ''WEBHOOK'' (now_text e)) s = Inr s1"
    "insert_version \<lparr>vr_endpoint = fresh_id e ''ep'' 0, vr_revision = 1, vr_url = url, vr_config = None, vr_created = now_text e\<rparr> s1 = Inr s2"
    "insert_secret (new_secret (fresh_id e ''ep'' 0) ''k1'' ''WEBHOOK_HMAC'' blob (now_text e) enc) s2 = Inr s'"
    by (auto simp: bnd_Inr Let_def split: if_split_asm)
  from keyed_endpoint_step[OF assms this] show ?case by simp
qed (rule channels_step_refl[OF assms])

lemma create_bark_step:
  assumes "channels_inv s"
  shows "channels_step s (snd (create_bark_channel v e name key cfg s))"
  unfolding create_bark_channel_def
proof (rule run_tx_rel[where r = channels_step], goal_cases)
  case (1 a s')
  then obtain s1 s2 blob norm where "insert_endpoint (new_endpoint (fresh_id e ''ch_bark'' 0) (trim_space name) ''BARK'' (now_text e)) s = Inr s1"
    "insert_version \<lparr>vr_endpoint = fresh_id e ''ch_bark'' 0, vr_revision = 1, vr_url = [], vr_config = Some norm, vr_created = now_text e\<rparr> s1 = Inr s2"
    "insert_secret (new_secret (fresh_id e ''ch_bark'' 0) ''k1'' ''BARK_DEVICE_KEY'' blob (now_text e) ''aes-gcm-v1'') s2 = Inr s'"
    by (auto simp: bnd_Inr Let_def split: if_split_asm)
  from keyed_endpoint_step[OF assms this] show ?case by simp
qed (rule channels_step_refl[OF assms])

lemma rotate_step:
  assumes "channels_inv s"
  shows "channels_step s (snd (rotate_secret v e i bark s))"
  unfolding rotate_secret_def
proof (rule run_tx_rel[where r = channels_step], goal_cases)
  case (1 a s')
  let ?r = "s\<lparr>db_secrets := retire_secrets e i (db_secrets s)\<rparr>"
  from 1 obtain key kind blob enc where n: "insert_secret (new_secret i key kind blob (now_text e) enc) ?r = Inr s'"
    by (auto simp: bnd_Inr Let_def split: if_split_asm option.split_asm)
  have "channels_step ?r s'"
    using retire_step[OF assms, of e i] retired_none[where e = e and i = i and xs = "db_secrets s"]
    by (intro add_secret_step[OF _ n]) (simp_all add: channels_step_def new_secret_def)
  with retire_step[OF assms] show ?case by (rule channels_step_trans)
qed (rule channels_step_refl[OF assms])

lemma update_step:
  assumes "channels_inv s"
  shows "channels_step s (snd (update_channel url_ok e i expected name url cfg s))"
proof -
  define f where "f = (\<lambda>s. bnd (check_mutation_allowed e s) (\<lambda>_. let name = trim_space name in
         if name = [] then Inl (ErrText ''channel name is required'')
         else update_channel_tx url_ok e i expected name url cfg s))"
  have "snd (update_channel url_ok e i expected name url cfg s) = snd (run_tx f s)"
    by (cases "run_tx f s"; cases "fst (run_tx f s)") (simp_all add: update_channel_def f_def)
  moreover have "channels_step s (snd (run_tx f s))"
  proof (rule run_tx_rel[where r = channels_step])
    fix u s' assume "f s = Inr (u, s')"
    then have "update_channel_tx url_ok e i expected (trim_space name) url cfg s = Inr (u, s')"
      by (auto simp: f_def bnd_Inr Let_def split: if_split_asm)
    from update_channel_step[OF assms this] show "channels_step s s'" .
  qed (rule channels_step_refl[OF assms])
  ultimately show ?thesis by simp
qed

datatype channel_call =
    CCreate env string string
  | CWebhook vault env string string
  | CBark vault env string string "bark_config option"
  | CUpdate "string \<Rightarrow> bool" env string int string string "bark_config option"
  | CRotate vault env string string
  | CStatus env string string

fun channel_exec :: "channel_call \<Rightarrow> db \<Rightarrow> db" where
  "channel_exec (CCreate e name url) s = snd (create_endpoint e name url s)"
| "channel_exec (CWebhook v e name url) s = snd (create_endpoint_with_secret v e name url s)"
| "channel_exec (CBark v e name key cfg) s = snd (create_bark_channel v e name key cfg s)"
| "channel_exec (CUpdate url_ok e i expected name url cfg) s = snd (update_channel url_ok e i expected name url cfg s)"
| "channel_exec (CRotate v e i bark) s = snd (rotate_secret v e i bark s)"
| "channel_exec (CStatus e i st) s = snd (set_endpoint_status e i st s)"

lemma channel_exec_step: "channels_inv s \<Longrightarrow> channels_step s (channel_exec c s)"
  by (cases c) (simp_all add: create_step create_secret_step create_bark_step update_step rotate_step status_channels)

interpretation ch: call_machine channel_exec "\<lambda>_. True" channels_inv
proof
  show "channels_inv (channel_exec c s)" if "channels_inv s" for c s
    using channel_exec_step[OF that] by (simp add: channels_step_def)
qed

lemma history_channels_step:
  assumes "channels_inv s"
  shows "channels_step s (ch.history cs s)"
proof -
  have ok: "list_all (\<lambda>_. True) cs" by (induction cs) simp_all
  have "channels_keep s (ch.history cs s)"
    by (rule ch.history_rel[where r = channels_keep, OF channels_keep_refl channels_keep_trans _ ok assms])
      (use channel_exec_step channels_step_def in auto)
  then show ?thesis using ch.history_inv[OF ok assms] by (simp add: channels_step_def)
qed


section \<open>Results\<close>

lemma find_key:
  assumes "distinct (map k rs)" "r \<in> set rs" "\<And>x. p x = (k x = k r)"
  shows "find p rs = Some r"
proof -
  have "p = (\<lambda>x. k x = k r)" using assms(3) by auto
  then show ?thesis using find_key_unique[OF assms(1,2)] by simp
qed

lemma find_endpoint:
  "channels_inv s \<Longrightarrow> ep \<in> set (db_endpoints s) \<Longrightarrow> ep_id ep = i \<Longrightarrow> find (\<lambda>x. ep_id x = i) (db_endpoints s) = Some ep"
  by (rule find_key[of ep_id]) (simp_all add: channels_inv_def)

lemma find_version:
  "channels_inv s \<Longrightarrow> v \<in> set (db_epversions s) \<Longrightarrow> vr_endpoint v = i \<Longrightarrow> vr_revision v = n \<Longrightarrow>
    find (\<lambda>x. vr_endpoint x = i \<and> vr_revision x = n) (db_epversions s) = Some v"
  by (rule find_key[of "\<lambda>v. (vr_endpoint v, vr_revision v)"]) (simp_all add: channels_inv_def)

lemma find_secret:
  "channels_inv s \<Longrightarrow> x \<in> set (db_secrets s) \<Longrightarrow> sc_endpoint x = i \<Longrightarrow> sc_key x = k \<Longrightarrow>
    find (\<lambda>x. sc_endpoint x = i \<and> sc_key x = k) (db_secrets s) = Some x"
  by (rule find_key[of "\<lambda>sc. (sc_endpoint sc, sc_key sc)"]) (simp_all add: channels_inv_def)

lemma active_secrets_le_1:
  assumes "channels_inv s"
  shows "length (filter (\<lambda>sc. sc_endpoint sc = i \<and> sc_status sc = ''ACTIVE'') (db_secrets s)) \<le> 1"
proof -
  have "filter (\<lambda>sc. sc_endpoint sc = i \<and> sc_status sc = ''ACTIVE'') (db_secrets s) =
      filter (\<lambda>sc. sc_endpoint sc = i) (filter (\<lambda>sc. sc_status sc = ''ACTIVE'') (db_secrets s))"
    by (simp add: conj_commute)
  moreover have "length (filter (\<lambda>sc. sc_endpoint sc = i) (filter (\<lambda>sc. sc_status sc = ''ACTIVE'') (db_secrets s))) \<le> 1"
    by (rule count_key_le_1[unfolded count_where_def]) (use assms in \<open>simp add: channels_inv_def\<close>)
  ultimately show ?thesis by (simp only:)
qed

lemma refs_of_endpoints:
  assumes "channels_inv s" "set eps \<subseteq> set (db_endpoints s)"
  shows "map fst (concat (map (\<lambda>ep.
     case filter (\<lambda>sc. sc_endpoint sc = ep_id ep \<and> sc_status sc = ''ACTIVE'') (db_secrets s) of
       [] \<Rightarrow> [(ep_id ep, ep_revision ep, ''k1'')]
     | scs \<Rightarrow> map (\<lambda>sc. (ep_id ep, ep_revision ep, sc_key sc)) scs) eps)) = map ep_id eps"
  using assms(2)
proof (induction eps)
  case (Cons ep eps)
  then show ?case using active_secrets_le_1[OF assms(1), of "ep_id ep"]
    by (auto split: list.split)
qed simp

lemma refs_distinct:
  assumes "channels_inv s"
  shows "distinct (map fst (endpoint_refs s))"
proof -
  have "map fst (endpoint_refs s) = map ep_id (filter (\<lambda>ep. ep_status ep = ''ACTIVE'') (db_endpoints s))"
    unfolding endpoint_refs_def by (rule refs_of_endpoints[OF assms]) auto
  then show ?thesis using assms by (simp add: channels_inv_def distinct_map_filter)
qed

text \<open>
  C23.  Along any history of channel calls the keys of the tables stay unique, an endpoint has at most one
  ACTIVE secret and the version it names, no version, provider or sealed secret is ever changed or lost,
  and an event is fanned out to an endpoint at most once.
\<close>

theorem channels_sound:
  assumes "channels_inv s"
  shows "channels_inv (ch.history cs s) \<and> channels_keep s (ch.history cs s) \<and>
    distinct (map fst (endpoint_refs (ch.history cs s)))"
  using history_channels_step[OF assms, of cs] refs_distinct by (auto simp: channels_step_def)

lemma target_rows_keep:
  assumes "channels_step s s'" "key \<noteq> []" "0 < revision" "target_rows i revision key s = Some (ep, vr, sc)"
  shows "\<exists>ep' sc'. target_rows i revision key s' = Some (ep', vr, sc') \<and> ep_provider ep' = ep_provider ep \<and>
    sc_key sc' = sc_key sc \<and> sc_blob sc' = sc_blob sc \<and> sc_encoding sc' = sc_encoding sc"
proof -
  have inv: "channels_inv s'" and keep: "channels_keep s s'" using assms(1) by (simp_all add: channels_step_def)
  have f: "find (\<lambda>ep. ep_id ep = i) (db_endpoints s) = Some ep"
    "find (\<lambda>v. vr_endpoint v = i \<and> vr_revision v = revision) (db_epversions s) = Some vr"
    "find (\<lambda>sc. sc_endpoint sc = i \<and> sc_key sc = key) (db_secrets s) = Some sc"
    using assms(2-4) by (auto simp: target_rows_def split: option.split_asm)
  note m = f[THEN find_Some_iff2]
  from keep m(1) obtain ep' where ep': "ep' \<in> set (db_endpoints s')" "ep_id ep' = i" "ep_provider ep' = ep_provider ep"
    unfolding channels_keep_def by (metis (no_types, lifting))
  from keep m(3) obtain sc' where sc': "sc' \<in> set (db_secrets s')" "sc_endpoint sc' = i" "sc_key sc' = key"
    "sc_blob sc' = sc_blob sc" "sc_encoding sc' = sc_encoding sc"
    unfolding channels_keep_def by (metis (no_types, lifting))
  have "vr \<in> set (db_epversions s')" using keep m(2) by (auto simp: channels_keep_def)
  then have "target_rows i revision key s' = Some (ep', vr, sc')"
    using find_endpoint[OF inv ep'(1,2)] find_version[OF inv, of vr i revision] find_secret[OF inv sc'(1-3)] m(2) assms(2,3)
    by (simp add: target_rows_def)
  then show ?thesis using ep' sc' m(3) by (intro exI[of _ ep'] exI[of _ sc']) simp
qed

text \<open>
  C22.  A delivery that names its version and its key keeps its target: whatever is created, updated,
  rotated or switched afterwards, it is sent to the same address with the same settings and the same
  secret.
\<close>

theorem target_stable:
  assumes "delivery_target v c s = Inr t" and "channels_inv s" and "cl_key c \<noteq> []" and "0 < cl_revision c"
  shows "delivery_target v c (ch.history cs s) = Inr t"
proof -
  obtain ep vr sc where r: "target_rows (cl_endpoint c) (cl_revision c) (cl_key c) s = Some (ep, vr, sc)"
    using assms(1) by (auto simp: delivery_target_def split: option.split_asm)
  from target_rows_keep[OF history_channels_step[OF assms(2)] assms(3,4) r, of cs] obtain ep' sc'
    where r': "target_rows (cl_endpoint c) (cl_revision c) (cl_key c) (ch.history cs s) = Some (ep', vr, sc')"
      "ep_provider ep' = ep_provider ep" "sc_key sc' = sc_key sc" "sc_blob sc' = sc_blob sc" "sc_encoding sc' = sc_encoding sc"
    by blast
  have "looks_sealed sc' = looks_sealed sc" by (simp add: looks_sealed_def r'(4,5))
  then have "delivery_target v c (ch.history cs s) = delivery_target v c s"
    by (simp only: delivery_target_def r r' option.case prod.case)
  then show ?thesis using assms(1) by simp
qed


lemma seal_unseal:
  assumes "va_keyring v = Some k" "new_keyring key = Inr k" "aead_ok (va_gcm v)" "length nonce = 12"
  shows "\<exists>b. seal_text v nonce plain aad = Inr b \<and> (\<forall>x. unseal_text v x b aad = Inr plain)"
  using sealed_opens[OF assms(2-4), of plain aad] by (simp add: seal_text_def unseal_text_def assms(1))

lemma rotate_success:
  assumes "rotate_secret v e i bark s = (Inr shown, s')"
  shows "\<exists>ep kind blob enc. find (\<lambda>ep. ep_id ep = i) (db_endpoints s) = Some ep \<and>
    rotated_secret v e (ep_provider ep) i (fresh_id e ''key'' 0) bark = Inr (kind, blob, enc, shown) \<and>
    s' = s\<lparr>db_secrets := retire_secrets e i (db_secrets s) @ [new_secret i (fresh_id e ''key'' 0) kind blob (now_text e) enc]\<rparr>"
  using assms unfolding rotate_secret_def run_tx_Inr
  by (auto simp: bnd_Inr Let_def insert_secret_def split: option.split_asm if_split_asm)

lemma rotated_secret_opens:
  assumes "rotated_secret v e pr i key bark = Inr (kind, blob, enc, shown)"
    and "va_keyring v = Some k" "new_keyring mk = Inr k" "aead_ok (va_gcm v)" "length (e_id e 2) = 12"
  shows "pr = ''BARK'' \<Longrightarrow> unseal_text v x blob (bark_aad i key) = Inr (trim_space bark)"
    "pr \<noteq> ''BARK'' \<Longrightarrow> enc = ''aes-gcm-v1'' \<and> unseal_text v x blob (webhook_aad i key) = Inr shown"
  using assms(1) seal_unseal[OF assms(2-5), of "trim_space bark" "bark_aad i key"]
    seal_unseal[OF assms(2-5), of "hex_of (e_id e 1)" "webhook_aad i key"]
  by (auto simp: rotated_secret_def bnd_Inr Let_def assms(2) split: if_split_asm)

text \<open>
  After the secret of a channel was rotated, the target of a delivery that asks for the active key, or
  names the new one, carries exactly the new secret: the device key that was given to a Bark channel, the
  generated secret that was shown for a webhook.
\<close>

theorem rotated_secret_delivered:
  assumes "rotate_secret v e i bark s = (Inr shown, s')" and "channels_inv s"
    and "va_keyring v = Some k" and "new_keyring mk = Inr k" and "aead_ok (va_gcm v)" and "length (e_id e 2) = 12"
    and "cl_endpoint c = i" and "cl_revision c \<le> 0" and "cl_key c = [] \<or> cl_key c = fresh_id e ''key'' 0"
  shows "\<exists>t. delivery_target v c s' = Inr t \<and> tg_key t = fresh_id e ''key'' 0 \<and> active_key i s' = Some (tg_key t) \<and>
    tg_secret t = (if tg_provider t = ''BARK'' then trim_space bark else shown)"
proof -
  let ?key = "fresh_id e ''key'' 0"
  obtain ep kind blob enc where ep: "find (\<lambda>ep. ep_id ep = i) (db_endpoints s) = Some ep"
    and rs: "rotated_secret v e (ep_provider ep) i ?key bark = Inr (kind, blob, enc, shown)"
    and s': "s' = s\<lparr>db_secrets := retire_secrets e i (db_secrets s) @ [new_secret i ?key kind blob (now_text e) enc]\<rparr>"
    using rotate_success[OF assms(1)] by blast
  let ?sc = "new_secret i ?key kind blob (now_text e) enc"
  have inv: "channels_inv s'" using rotate_step[OF assms(2), of v e i bark] assms(1) by (simp add: channels_step_def)
  have "find (\<lambda>sc. sc_endpoint sc = i \<and> sc_status sc = ''ACTIVE'') (retire_secrets e i (db_secrets s)) = None"
    using retired_none[where e = e and i = i and xs = "db_secrets s"] by (auto simp: find_None_iff)
  then have act: "active_key i s' = Some ?key"
    by (simp add: active_key_def s' find_append new_secret_def)
  have "current_version s' ep \<noteq> None" using inv find_Some_iff2[OF ep] by (simp add: channels_inv_def s')
  then obtain vr where vr: "find (\<lambda>v. vr_endpoint v = i \<and> vr_revision v = ep_revision ep) (db_epversions s') = Some vr"
    using find_Some_iff2[OF ep] by (auto simp: current_version_def)
  have "find (\<lambda>sc. sc_endpoint sc = i \<and> sc_key sc = ?key) (db_secrets s') = Some ?sc"
    by (rule find_secret[OF inv]) (simp_all add: s' new_secret_def)
  moreover have db: "db_endpoints s' = db_endpoints s" by (simp add: s')
  ultimately have rows: "target_rows i (cl_revision c) (cl_key c) s' = Some (ep, vr, ?sc)"
    using assms(8,9) ep vr by (auto simp: target_rows_def act db)
  have "sc_key ?sc = ?key" "sc_blob ?sc = blob" "sc_encoding ?sc = enc" by (simp_all add: new_secret_def)
  then show ?thesis
    using rotated_secret_opens[OF rs assms(3-6)] rows act
    by (cases "ep_provider ep = ''BARK''") (simp_all add: delivery_target_def assms(7) looks_sealed_def)
qed

lemma update_success:
  assumes "update_channel url_ok e i expected name url cfg s = (Inr w, s')" "channels_inv s"
  shows "\<exists>ep\<in>set (db_endpoints s'). ep_id ep = i \<and> ep_name ep = trim_space name \<and> ep_revision ep = expected + 1"
proof -
  define f where "f = (\<lambda>s. bnd (check_mutation_allowed e s) (\<lambda>_. let name = trim_space name in
         if name = [] then Inl (ErrText ''channel name is required'')
         else update_channel_tx url_ok e i expected name url cfg s))"
  obtain u where "f s = Inr (u, s')"
    using assms(1) unfolding update_channel_def f_def[symmetric]
    by (cases "f s") (auto simp: run_tx_def split: prod.split_asm)
  then have "update_channel_tx url_ok e i expected (trim_space name) url cfg s = Inr (u, s')"
    by (auto simp: f_def bnd_Inr Let_def split: if_split_asm)
  then obtain ep url' cfg' s1 where ep: "find (\<lambda>ep. ep_id ep = i) (db_endpoints s) = Some ep" "ep_revision ep = expected"
    and v: "insert_version \<lparr>vr_endpoint = i, vr_revision = expected + 1, vr_url = url', vr_config = cfg', vr_created = now_text e\<rparr> s = Inr s1"
    and s': "s' = s1\<lparr>db_endpoints := update_where (\<lambda>x. ep_id x = i)
        (\<lambda>x. x\<lparr>ep_name := trim_space name, ep_revision := expected + 1, ep_updated := now_text e\<rparr>) (db_endpoints s1)\<rparr>"
    by (auto simp: update_channel_tx_def bnd_Inr split: option.split_asm if_split_asm)
  have "db_endpoints s1 = db_endpoints s" using v by (auto simp: insert_version_def split: if_split_asm)
  then show ?thesis using find_Some_iff2[OF ep(1)]
    by (intro bexI[of _ "ep\<lparr>ep_name := trim_space name, ep_revision := expected + 1, ep_updated := now_text e\<rparr>"])
      (simp_all add: s' set_update_where)
qed

lemma stale_update:
  assumes "channels_inv s" "ep \<in> set (db_endpoints s)" "ep_id ep = i" "expected < ep_revision ep"
  shows "\<exists>x. update_channel url_ok e i expected name url cfg s = (Inl x, s) \<and>
    (check_mutation_allowed e s = Inr () \<and> trim_space name \<noteq> [] \<longrightarrow> x = ErrRevisionConflict)"
proof -
  have "update_channel_tx url_ok e i expected n url cfg s = Inl ErrRevisionConflict" for n
    using assms(4) by (simp add: update_channel_tx_def find_endpoint[OF assms(1-3)])
  then show ?thesis by (cases "check_mutation_allowed e s") (auto simp: update_channel_def run_tx_def Let_def)
qed

text \<open>
  Optimistic updates: after an update that expected a revision went through, every later update that
  still expects this revision, whatever happened in between, is refused (as a revision conflict when the
  gate is open and it names the channel) and changes nothing.
\<close>

theorem update_conflict:
  assumes "update_channel url_ok e i expected name url cfg s = (Inr w, s')" and "channels_inv s"
  shows "\<exists>x. update_channel url_ok' e' i expected name' url' cfg' (ch.history cs s') = (Inl x, ch.history cs s') \<and>
    (check_mutation_allowed e' (ch.history cs s') = Inr () \<and> trim_space name' \<noteq> [] \<longrightarrow> x = ErrRevisionConflict)"
proof -
  have inv: "channels_inv s'" using update_step[OF assms(2), of url_ok e i expected name url cfg] assms(1) by (simp add: channels_step_def)
  from update_success[OF assms] obtain ep where ep: "ep \<in> set (db_endpoints s')" "ep_id ep = i" "ep_revision ep = expected + 1" by blast
  from history_channels_step[OF inv, of cs] have st: "channels_inv (ch.history cs s')" "channels_keep s' (ch.history cs s')"
    by (simp_all add: channels_step_def)
  from st(2) ep obtain ep' where "ep' \<in> set (db_endpoints (ch.history cs s'))" "ep_id ep' = i" "expected < ep_revision ep'"
    unfolding channels_keep_def by force
  from stale_update[OF st(1) this] show ?thesis by blast
qed


section \<open>Witnesses\<close>

definition sample_channel :: endpoint where "sample_channel = new_endpoint ''w1'' ''shop'' ''WEBHOOK'' []"

definition sample_channels :: db where
  "sample_channels = (initial_db [])\<lparr>db_endpoints := [sample_channel],
     db_epversions := [\<lparr>vr_endpoint = ''w1'', vr_revision = 1, vr_url = ''https://a'', vr_config = None, vr_created = []\<rparr>],
     db_secrets := [new_secret ''w1'' ''k1'' ''WEBHOOK_HMAC'' ''aa'' [] ''legacy-hex'']\<rparr>"

definition sample_vault :: vault where
  "sample_vault = \<lparr>va_gcm = sample_aead, va_keyring = Some \<lparr>kr_current = ''k1'', kr_keys = [(''k1'', replicate 32 (CHR ''x''))]\<rparr>\<rparr>"

definition nonce_env :: env where
  "nonce_env = (sample_env 0)\<lparr>e_id := \<lambda>k. replicate 12 (CHR ''n'')\<rparr>"

definition sample_claim :: claimed where
  "sample_claim = \<lparr>cl_id = ''d1'', cl_event = ''v1'', cl_endpoint = ''w1'', cl_revision = 1, cl_key = ''k1'', cl_provider = ''WEBHOOK'',
     cl_status = ''IN_FLIGHT'', cl_attempts = 1, cl_start = 0, cl_token = ''t'', cl_lease = [], cl_next = []\<rparr>"

lemma sample_channels_inv: "channels_inv sample_channels"
  by (simp add: channels_inv_def sample_channels_def sample_channel_def new_endpoint_def new_secret_def current_version_def)

lemma sample_channels_open: "check_mutation_allowed (sample_env 0) sample_channels = Inr ()"
  "check_mutation_allowed nonce_env sample_channels = Inr ()"
  by (simp_all add: sample_channels_def check_deployment_gate_def nonce_env_def)

lemma channels_sound_witness:
  "distinct (map fst (endpoint_refs (ch.history [CStatus (sample_env 0) ''w1'' ''ACTIVE'', CRotate sample_vault nonce_env ''w1'' []] sample_channels)))"
  using channels_sound[OF sample_channels_inv] by blast

lemma target_stable_witness:
  "\<exists>t. delivery_target sample_vault sample_claim sample_channels = Inr t \<and> tg_url t = ''https://a'' \<and>
    delivery_target sample_vault sample_claim (ch.history [CRotate sample_vault nonce_env ''w1'' [], CUpdate (\<lambda>_. True) (sample_env 0) ''w1'' 1 ''n'' ''https://b'' None] sample_channels) = Inr t"
proof -
  have "\<exists>t. delivery_target sample_vault sample_claim sample_channels = Inr t \<and> tg_url t = ''https://a''"
    by (simp add: delivery_target_def target_rows_def sample_channels_def sample_channel_def new_endpoint_def new_secret_def
        sample_claim_def looks_sealed_def has_prefix_def Let_def)
  then obtain t where t: "delivery_target sample_vault sample_claim sample_channels = Inr t" "tg_url t = ''https://a''" by blast
  have "cl_key sample_claim \<noteq> []" "0 < cl_revision sample_claim" by (simp_all add: sample_claim_def)
  from target_stable[OF t(1) sample_channels_inv this] t show ?thesis by blast
qed

lemma rotated_secret_delivered_witness:
  "\<exists>shown s' t. rotate_secret sample_vault nonce_env ''w1'' [] sample_channels = (Inr shown, s') \<and>
    delivery_target sample_vault (sample_claim\<lparr>cl_revision := 0, cl_key := []\<rparr>) s' = Inr t \<and>
    tg_secret t = (if tg_provider t = ''BARK'' then [] else shown)"
proof -
  have k: "new_keyring (replicate 32 (CHR ''x'')) = Inr \<lparr>kr_current = ''k1'', kr_keys = [(''k1'', replicate 32 (CHR ''x''))]\<rparr>"
    by (simp add: new_keyring_def)
  have v: "va_keyring sample_vault = Some \<lparr>kr_current = ''k1'', kr_keys = [(''k1'', replicate 32 (CHR ''x''))]\<rparr>" "aead_ok (va_gcm sample_vault)"
    by (simp_all add: sample_vault_def sample_aead_ok)
  have n: "length (e_id nonce_env 2) = 12" by (simp add: nonce_env_def)
  obtain b where b: "seal_text sample_vault (e_id nonce_env 2) (hex_of (e_id nonce_env 1)) (webhook_aad ''w1'' (fresh_id nonce_env ''key'' 0)) = Inr b"
    using seal_unseal[OF v(1) k v(2) n] by blast
  have "fresh_id nonce_env ''key'' 0 \<noteq> ''k1''" by (simp add: fresh_id_def)
  then obtain shown s' where r: "rotate_secret sample_vault nonce_env ''w1'' [] sample_channels = (Inr shown, s')"
    using b sample_channels_open(2)
    by (simp add: rotate_secret_def run_tx_def rotated_secret_def Let_def v insert_secret_def sample_channels_def sample_channel_def
        new_endpoint_def new_secret_def retire_secrets_def)
  have c: "cl_endpoint (sample_claim\<lparr>cl_revision := 0, cl_key := []\<rparr>) = ''w1''" "cl_revision (sample_claim\<lparr>cl_revision := 0, cl_key := []\<rparr>) \<le> 0"
    "cl_key (sample_claim\<lparr>cl_revision := 0, cl_key := []\<rparr>) = [] \<or> cl_key (sample_claim\<lparr>cl_revision := 0, cl_key := []\<rparr>) = fresh_id nonce_env ''key'' 0"
    by (simp_all add: sample_claim_def)
  from rotated_secret_delivered[OF r sample_channels_inv v(1) k v(2) n c] r show ?thesis by auto
qed

lemma update_conflict_witness:
  "\<exists>w s'. update_channel (\<lambda>_. True) (sample_env 0) ''w1'' 1 ''till'' ''https://b'' None sample_channels = (Inr w, s') \<and>
    (\<exists>x. fst (update_channel (\<lambda>_. True) (sample_env 0) ''w1'' 1 ''desk'' ''https://c'' None s') = Inl x)"
proof -
  have t: "trim_space ''till'' = ''till''" "trim_space ''https://b'' = ''https://b''" by (simp_all add: printable_def)
  have "\<exists>w s'. update_channel (\<lambda>_. True) (sample_env 0) ''w1'' 1 ''till'' ''https://b'' None sample_channels = (Inr w, s')"
    using sample_channels_open(1)
    by (simp add: t update_channel_def run_tx_def Let_def update_channel_tx_def version_content_def insert_version_def
        sample_channels_def sample_channel_def new_endpoint_def notification_channel_by_id_def current_version_def)
  then obtain w s' where u: "update_channel (\<lambda>_. True) (sample_env 0) ''w1'' 1 ''till'' ''https://b'' None sample_channels = (Inr w, s')" by blast
  from update_conflict[OF u sample_channels_inv, of "\<lambda>_. True" "sample_env 0" "''desk''" "''https://c''" None "[]"] u
  show ?thesis by auto
qed

end
