(* ===== verification/ProviderConfig.thy ===== *)
theory ProviderConfig
  imports Channels
begin

text \<open>
  internal/storage/payment_provider_config.go: the sealed credentials of the payOS channel with their
  revisions, the admission of provider operations under a five-minute lease, and the shared slots of
  provider requests.  The tables \<open>payment_provider_config\<close> and \<open>payment_provider_runtime\<close> are singleton
  rows that the migration creates; \<open>UPDATE .. SET id=id\<close>, which takes SQLite's writer lock, changes
  nothing.  The draw 0 of a save is the nonce of its envelope and the draw 1 the identifier of its audit row.
\<close>

section \<open>Credentials\<close>

record credentials =
  cr_client :: string
  cr_api :: string
  cr_checksum :: string

definition no_credentials :: credentials where
  "no_credentials = \<lparr>cr_client = [], cr_api = [], cr_checksum = []\<rparr>"

definition credentials_text :: "credentials \<Rightarrow> string" where
  "credentials_text k = struct_text [(''clientId'', JStr (cr_client k)), (''apiKey'', JStr (cr_api k)), (''checksumKey'', JStr (cr_checksum k))]"

definition parse_credentials :: "string \<Rightarrow> credentials option" where
  "parse_credentials s = (case json_unmarshal s of
     Some (JObj kvs) \<Rightarrow>
       (case (string_field ''clientId'' kvs, string_field ''apiKey'' kvs, string_field ''checksumKey'' kvs) of
          (Some c, Some a, Some k) \<Rightarrow> Some \<lparr>cr_client = c, cr_api = a, cr_checksum = k\<rparr> | _ \<Rightarrow> None)
   | Some JNull \<Rightarrow> Some no_credentials
   | _ \<Rightarrow> None)"

definition credentials_aad :: string where "credentials_aad = ''payment-provider:PAYOS:credentials''"

definition decrypt_credentials :: "vault \<Rightarrow> string \<Rightarrow> err + credentials" where
  "decrypt_credentials v raw =
     (case unseal_text v ErrProviderConfigUnavailable raw credentials_aad of
        Inl _ \<Rightarrow> Inl ErrProviderConfigUnavailable
      | Inr plain \<Rightarrow> (case parse_credentials plain of None \<Rightarrow> Inl ErrProviderConfigUnavailable | Some k \<Rightarrow> Inr k))"

definition encrypt_credentials :: "vault \<Rightarrow> env \<Rightarrow> credentials \<Rightarrow> err + string" where
  "encrypt_credentials v e k =
     (case seal_text v (e_id e 0) (credentials_text k) credentials_aad of Inl _ \<Rightarrow> Inl ErrProviderConfigUnavailable | Inr raw \<Rightarrow> Inr raw)"

section \<open>Operations\<close>

record provider_config =
  pv_credentials :: credentials
  pv_revision :: int
  pv_enabled :: bool
  pv_confirmed :: bool

record provider_actor =
  pa_subject :: string
  pa_role :: string
  pa_request :: string

definition read_provider_config :: "vault \<Rightarrow> db \<Rightarrow> err + provider_config" where
  "read_provider_config v s =
     (let r = db_provider s;
          cfg = \<lparr>pv_credentials = no_credentials, pv_revision = pc_revision r, pv_enabled = pc_enabled r, pv_confirmed = pc_confirmed r\<rparr> in
      if pc_envelope r = [] then Inr cfg
      else bnd (decrypt_credentials v (pc_envelope r)) (\<lambda>k. Inr (cfg\<lparr>pv_credentials := k\<rparr>)))"

fun collect_keys :: "vault \<Rightarrow> string \<Rightarrow> string list \<Rightarrow> err + credentials list" where
  "collect_keys v channel [] = Inr []"
| "collect_keys v channel (raw # raws) = bnd (decrypt_credentials v raw) (\<lambda>k.
     bnd (collect_keys v channel raws) (\<lambda>ks. Inr (if cr_client k = channel then k # ks else ks)))"

definition verification_keys :: "vault \<Rightarrow> string \<Rightarrow> int \<Rightarrow> db \<Rightarrow> err + credentials list" where
  "verification_keys v channel revision s =
     collect_keys v channel (map snd (rev (sort_key fst (filter (\<lambda>r. fst r < revision) (db_versions s)))))"

definition add_audit :: "env \<Rightarrow> nat \<Rightarrow> provider_actor \<Rightarrow> string \<Rightarrow> string \<Rightarrow> db \<Rightarrow> err + db" where
  "add_audit e k actor action target s =
     (if \<exists>a\<in>set (db_audit s). au_id a = fresh_id e ''audit'' k then Inl ErrConstraint
      else Inr (s\<lparr>db_audit := db_audit s @ [\<lparr>au_id = fresh_id e ''audit'' k, au_subject = pa_subject actor, au_role = pa_role actor,
        au_action = action, au_target = target, au_request = pa_request actor, au_created = now_text e\<rparr>]\<rparr>))"

definition trim_credentials :: "credentials \<Rightarrow> credentials" where
  "trim_credentials k = \<lparr>cr_client = trim_space (cr_client k), cr_api = trim_space (cr_api k), cr_checksum = trim_space (cr_checksum k)\<rparr>"

definition invalid_credentials :: "credentials \<Rightarrow> bool" where
  "invalid_credentials k \<longleftrightarrow> cr_client k = [] \<or> 512 < length (cr_client k) \<or> 4096 < length (cr_api k) \<or> 4096 < length (cr_checksum k) \<or>
     (\<exists>c\<in>set (cr_client k @ cr_api k @ cr_checksum k). c \<in> {CHR 0x0D, CHR 0x0A, CHR 0x00})"

text \<open>The keys that a save stores: a blank key of the same channel keeps the old one.\<close>

definition merged_credentials :: "credentials \<Rightarrow> credentials \<Rightarrow> db \<Rightarrow> err + credentials" where
  "merged_credentials k old s =
     bnd (if cr_client k \<noteq> cr_client old
          then (if count_where (\<lambda>r. o_channel r \<noteq> cr_client k \<or> cr_client old \<noteq> []) (db_orders s) \<noteq> 0
                then Inl ErrProviderChannelLocked else Inr k)
          else Inr (k\<lparr>cr_api := (if cr_api k = [] then cr_api old else cr_api k),
                      cr_checksum := (if cr_checksum k = [] then cr_checksum old else cr_checksum k)\<rparr>)) (\<lambda>m.
       if cr_api m = [] \<or> cr_checksum m = [] then Inl ErrProviderConfigInvalid else Inr m)"

definition active_requests :: "env \<Rightarrow> db \<Rightarrow> nat" where
  "active_requests e s = count_where (\<lambda>r. now_text e < po_lease r) (db_ops s)"

definition add_version :: "int \<Rightarrow> string \<Rightarrow> db \<Rightarrow> err + db" where
  "add_version revision raw s =
     (if revision \<in> fst ` set (db_versions s) then Inl ErrConstraint else Inr (s\<lparr>db_versions := db_versions s @ [(revision, raw)]\<rparr>))"

definition save_config_tx ::
  "vault \<Rightarrow> env \<Rightarrow> credentials \<Rightarrow> bool \<Rightarrow> provider_actor \<Rightarrow> db \<Rightarrow> err + (provider_config \<times> db)" where
  "save_config_tx v e keys enabled actor s =
     bnd (check_mutation_allowed e s) (\<lambda>_.
     bnd (read_provider_config v s) (\<lambda>old.
     bnd (merged_credentials keys (pv_credentials old) s) (\<lambda>k.
     let changed = k \<noteq> pv_credentials old in
     if changed \<and> active_requests e s \<noteq> 0 then Inl ErrProviderConfigBusy
     else bnd (encrypt_credentials v e k) (\<lambda>raw.
       let res = \<lparr>pv_credentials = k, pv_revision = pv_revision old + 1, pv_enabled = enabled, pv_confirmed = pv_confirmed old \<and> \<not> changed\<rparr> in
       bnd (if changed then add_version (pv_revision res) raw s else Inr s) (\<lambda>s1.
       bnd (add_audit e 1 actor ''payment-provider.config.save'' ''PAYOS''
         (s1\<lparr>db_provider := \<lparr>pc_revision = pv_revision res, pc_envelope = raw, pc_enabled = enabled, pc_confirmed = pv_confirmed res,
           pc_updated = now_text e\<rparr>\<rparr>)) (\<lambda>s2. Inr (res, s2)))))))"

definition save_config ::
  "vault \<Rightarrow> env \<Rightarrow> credentials \<Rightarrow> bool \<Rightarrow> provider_actor \<Rightarrow> db \<Rightarrow> (err + provider_config) \<times> db" where
  "save_config v e keys enabled actor s =
     (if invalid_credentials (trim_credentials keys) then (Inl ErrProviderConfigInvalid, s)
      else run_tx (save_config_tx v e (trim_credentials keys) enabled actor) s)"

definition provider_lease :: int where "provider_lease = 300 * second"

definition begin_operation_tx :: "vault \<Rightarrow> env \<Rightarrow> db \<Rightarrow> err + ((provider_config \<times> string) \<times> db)" where
  "begin_operation_tx v e s =
     (let token = random_payment_token (e_id e 0) in
      bnd (check_mutation_allowed e s) (\<lambda>_.
      if rt_quiesced (db_runtime s) then Inl ErrProviderConfigUnavailable
      else bnd (read_provider_config v s) (\<lambda>cfg.
        if cr_client (pv_credentials cfg) = [] then Inl ErrProviderConfigUnavailable
        else let ops = filter (\<lambda>r. \<not> po_lease r \<le> now_text e) (db_ops s) in
          if \<exists>r\<in>set ops. po_token r = token then Inl ErrConstraint
          else Inr ((cfg, token), s\<lparr>db_ops := ops @
            [\<lparr>po_token = token, po_revision = pv_revision cfg, po_lease = fmt_nano (e_now e + provider_lease)\<rparr>]\<rparr>))))"

definition begin_operation :: "vault \<Rightarrow> env \<Rightarrow> db \<Rightarrow> (err + (provider_config \<times> string)) \<times> db" where
  "begin_operation v e = run_tx (begin_operation_tx v e)"

definition renew_operation :: "env \<Rightarrow> string \<Rightarrow> db \<Rightarrow> (err + unit) \<times> db" where
  "renew_operation e token s =
     (let p = (\<lambda>r. po_token r = token \<and> now_text e < po_lease r) in
      (if count_where p (db_ops s) = 1 then Inr () else Inl ErrProviderConfigUnavailable,
       s\<lparr>db_ops := update_where p (\<lambda>r. r\<lparr>po_lease := fmt_nano (e_now e + provider_lease)\<rparr>) (db_ops s)\<rparr>))"

definition end_operation :: "string \<Rightarrow> db \<Rightarrow> db" where
  "end_operation token s = s\<lparr>db_ops := filter (\<lambda>r. po_token r \<noteq> token) (db_ops s)\<rparr>"

definition confirm_webhook_tx :: "env \<Rightarrow> int \<Rightarrow> provider_actor \<Rightarrow> db \<Rightarrow> err + (unit \<times> db)" where
  "confirm_webhook_tx e revision actor s =
     bnd (check_mutation_allowed e s) (\<lambda>_.
     if pc_revision (db_provider s) = revision \<and> pc_envelope (db_provider s) \<noteq> []
     then bnd (add_audit e 1 actor ''payment-provider.webhook.confirm'' ''PAYOS''
       (s\<lparr>db_provider := (db_provider s)\<lparr>pc_confirmed := True, pc_updated := now_text e\<rparr>\<rparr>)) (\<lambda>s'. Inr ((), s'))
     else Inl ErrProviderRevisionConflict)"

definition confirm_webhook :: "env \<Rightarrow> int \<Rightarrow> provider_actor \<Rightarrow> db \<Rightarrow> (err + unit) \<times> db" where
  "confirm_webhook e revision actor = run_tx (confirm_webhook_tx e revision actor)"

definition set_quiesced :: "bool \<Rightarrow> db \<Rightarrow> db" where
  "set_quiesced paused s = s\<lparr>db_runtime := (db_runtime s)\<lparr>rt_quiesced := paused\<rparr>\<rparr>"

definition provider_quiesced :: "db \<Rightarrow> bool" where
  "provider_quiesced s = rt_quiesced (db_runtime s)"

text \<open>A text that cannot be read is the zero time, which lies before every clock.\<close>

definition request_slot_tx :: "env \<Rightarrow> db \<Rightarrow> err + (instant \<times> db)" where
  "request_slot_tx e s =
     bnd (check_mutation_allowed e s) (\<lambda>_.
     if rt_quiesced (db_runtime s) then Inl ErrProviderConfigUnavailable
     else let at = (case parse_nano (rt_next_request (db_runtime s)) of None \<Rightarrow> e_now e | Some t \<Rightarrow> if t < e_now e then e_now e else t)
       in Inr (at, s\<lparr>db_runtime := (db_runtime s)\<lparr>rt_next_request := fmt_nano (at + second)\<rparr>\<rparr>))"

definition request_slot :: "env \<Rightarrow> db \<Rightarrow> (err + instant) \<times> db" where
  "request_slot e = run_tx (request_slot_tx e)"

section \<open>The invariant\<close>

definition vault_ok :: "vault \<Rightarrow> bool" where
  "vault_ok v \<longleftrightarrow> aead_ok (va_gcm v) \<and> (\<exists>key k. new_keyring key = Inr k \<and> va_keyring v = Some k)"

definition utf8_credentials :: "credentials \<Rightarrow> bool" where
  "utf8_credentials k \<longleftrightarrow> valid_utf8 (cr_client k) \<and> valid_utf8 (cr_api k) \<and> valid_utf8 (cr_checksum k)"

definition opens_to :: "vault \<Rightarrow> string \<Rightarrow> credentials \<Rightarrow> bool" where
  "opens_to v raw k \<longleftrightarrow> decrypt_credentials v raw = Inr k \<and> utf8_credentials k \<and> cr_client k \<noteq> []"

definition provider_inv :: "vault \<Rightarrow> db \<Rightarrow> bool" where
  "provider_inv v s \<longleftrightarrow> distinct (map po_token (db_ops s)) \<and> distinct (map fst (db_versions s)) \<and>
     (\<forall>(r, raw)\<in>set (db_versions s). r \<le> pc_revision (db_provider s) \<and> (\<exists>k. opens_to v raw k)) \<and>
     (if pc_envelope (db_provider s) = [] then \<not> pc_confirmed (db_provider s)
      else \<exists>k. opens_to v (pc_envelope (db_provider s)) k \<and> (\<exists>(r, raw)\<in>set (db_versions s). decrypt_credentials v raw = Inr k))"

lemma credentials_round_trip:
  assumes "utf8_credentials k"
  shows "parse_credentials (credentials_text k) = Some k"
proof -
  let ?kvs = "[(''clientId'', JStr (cr_client k)), (''apiKey'', JStr (cr_api k)), (''checksumKey'', JStr (cr_checksum k))]"
  have "json_unmarshal (struct_text ?kvs) = Some (JObj (map (\<lambda>(k, v). (k, canon v)) ?kvs))"
    using assms by (intro struct_round_trip) (simp_all add: utf8_credentials_def valid_utf8_ascii)
  then show ?thesis
    by (simp add: parse_credentials_def credentials_text_def string_field_def struct_field_def fold_lower_def)
qed

lemma encrypt_opens:
  assumes "vault_ok v" "length (e_id e 0) = 12" "utf8_credentials k"
  shows "\<exists>raw. encrypt_credentials v e k = Inr raw \<and> raw \<noteq> [] \<and> decrypt_credentials v raw = Inr k"
proof -
  obtain key kr where k: "new_keyring key = Inr kr" "va_keyring v = Some kr" "aead_ok (va_gcm v)"
    using assms(1) by (auto simp: vault_ok_def)
  note o = sealed_opens[OF k(1,3) assms(2), of "credentials_text k" credentials_aad]
  have "encrypt_credentials v e k = Inr (envelope_text (sealed (va_gcm v) key (e_id e 0) (credentials_text k) credentials_aad))"
    using o(1) by (simp add: encrypt_credentials_def seal_text_def k(2))
  moreover have "envelope_text x \<noteq> []" for x by (simp add: envelope_text_def struct_text_def members_text_def)
  ultimately show ?thesis
    using o(2,3) by (simp add: decrypt_credentials_def unseal_text_def k(2) credentials_round_trip[OF assms(3)])
qed

lemma read_config:
  assumes "provider_inv v s"
  shows "\<exists>cfg. read_provider_config v s = Inr cfg \<and> pv_revision cfg = pc_revision (db_provider s) \<and>
    pv_confirmed cfg = pc_confirmed (db_provider s) \<and>
    (pc_envelope (db_provider s) = [] \<and> pv_credentials cfg = no_credentials \<or>
      pc_envelope (db_provider s) \<noteq> [] \<and> opens_to v (pc_envelope (db_provider s)) (pv_credentials cfg))"
  using assms by (auto simp: provider_inv_def read_provider_config_def Let_def opens_to_def)

lemma merged_fields:
  assumes "merged_credentials k old s = Inr m"
  shows "cr_client m = cr_client k" "utf8_credentials k \<Longrightarrow> utf8_credentials old \<Longrightarrow> utf8_credentials m"
    "cr_client k \<noteq> cr_client old \<Longrightarrow> m = k \<and> (\<forall>r\<in>set (db_orders s). o_channel r = cr_client k \<and> cr_client old = [])"
  using assms by (auto simp: merged_credentials_def bnd_Inr count_where_0 utf8_credentials_def split: if_split_asm)

text \<open>What a successful save has done.\<close>

lemma save_success:
  assumes "save_config v e keys enabled actor s = (Inr res, s')"
  shows "\<exists>old k raw audit. read_provider_config v s = Inr old \<and> \<not> invalid_credentials (trim_credentials keys) \<and>
    check_mutation_allowed e s = Inr () \<and>
    merged_credentials (trim_credentials keys) (pv_credentials old) s = Inr k \<and> encrypt_credentials v e k = Inr raw \<and>
    (k \<noteq> pv_credentials old \<longrightarrow> active_requests e s = 0 \<and> pv_revision old + 1 \<notin> fst ` set (db_versions s)) \<and>
    res = \<lparr>pv_credentials = k, pv_revision = pv_revision old + 1, pv_enabled = enabled,
      pv_confirmed = pv_confirmed old \<and> k = pv_credentials old\<rparr> \<and>
    s' = s\<lparr>db_versions := db_versions s @ (if k \<noteq> pv_credentials old then [(pv_revision old + 1, raw)] else []),
      db_provider := \<lparr>pc_revision = pv_revision old + 1, pc_envelope = raw, pc_enabled = enabled, pc_confirmed = pv_confirmed res,
        pc_updated = now_text e\<rparr>, db_audit := db_audit s @ [audit]\<rparr>"
proof -
  have inval: "\<not> invalid_credentials (trim_credentials keys)"
    and tx: "save_config_tx v e (trim_credentials keys) enabled actor s = Inr (res, s')"
    using assms by (auto simp: save_config_def run_tx_Inr split: if_split_asm)
  from tx obtain u :: unit and old k where a: "check_mutation_allowed e s = Inr u" "read_provider_config v s = Inr old"
    "merged_credentials (trim_credentials keys) (pv_credentials old) s = Inr k"
    and t: "(let changed = k \<noteq> pv_credentials old in
     if changed \<and> active_requests e s \<noteq> 0 then Inl ErrProviderConfigBusy
     else bnd (encrypt_credentials v e k) (\<lambda>raw.
       let res = \<lparr>pv_credentials = k, pv_revision = pv_revision old + 1, pv_enabled = enabled, pv_confirmed = pv_confirmed old \<and> \<not> changed\<rparr> in
       bnd (if changed then add_version (pv_revision res) raw s else Inr s) (\<lambda>s1.
       bnd (add_audit e 1 actor ''payment-provider.config.save'' ''PAYOS''
         (s1\<lparr>db_provider := \<lparr>pc_revision = pv_revision res, pc_envelope = raw, pc_enabled = enabled, pc_confirmed = pv_confirmed res,
           pc_updated = now_text e\<rparr>\<rparr>)) (\<lambda>s2. Inr (res, s2))))) = Inr (res, s')"
    unfolding save_config_tx_def by (simp only: bnd_Inr) blast
  from t have b: "k \<noteq> pv_credentials old \<longrightarrow> active_requests e s = 0" by (auto simp: Let_def split: if_split_asm)
  define R where "R = \<lparr>pv_credentials = k, pv_revision = pv_revision old + 1, pv_enabled = enabled,
      pv_confirmed = pv_confirmed old \<and> k = pv_credentials old\<rparr>"
  define W where "W = (\<lambda>raw (s1 :: db). s1\<lparr>db_provider := \<lparr>pc_revision = pv_revision old + 1, pc_envelope = raw, pc_enabled = enabled,
      pc_confirmed = pv_confirmed R, pc_updated = now_text e\<rparr>\<rparr>)"
  from t b have t2: "bnd (encrypt_credentials v e k) (\<lambda>raw. bnd (if k \<noteq> pv_credentials old then add_version (pv_revision old + 1) raw s else Inr s)
      (\<lambda>s1. bnd (add_audit e 1 actor ''payment-provider.config.save'' ''PAYOS'' (W raw s1)) (\<lambda>s2. Inr (R, s2)))) = Inr (res, s')"
    by (simp add: Let_def R_def W_def split: if_split_asm cong: if_cong)
  then obtain raw s1 where raw: "encrypt_credentials v e k = Inr raw"
    and s1: "(if k \<noteq> pv_credentials old then add_version (pv_revision old + 1) raw s else Inr s) = Inr s1"
    and res: "res = R" and s2: "add_audit e 1 actor ''payment-provider.config.save'' ''PAYOS'' (W raw s1) = Inr s'"
    unfolding bnd_Inr by blast
  have v: "k \<noteq> pv_credentials old \<longrightarrow> pv_revision old + 1 \<notin> fst ` set (db_versions s)"
    and s1': "s1 = s\<lparr>db_versions := db_versions s @ (if k \<noteq> pv_credentials old then [(pv_revision old + 1, raw)] else [])\<rparr>"
    using s1 by (auto simp: add_version_def split: if_split_asm)
  from s2 obtain audit where "s' = s1\<lparr>db_provider := \<lparr>pc_revision = pv_revision old + 1, pc_envelope = raw, pc_enabled = enabled, pc_confirmed = pv_confirmed res,
           pc_updated = now_text e\<rparr>, db_audit := db_audit s @ [audit]\<rparr>"
    by (auto simp: add_audit_def s1' W_def res split: if_split_asm)
  then show ?thesis using inval a b v raw res by (intro exI conjI) (simp_all add: s1' R_def)
qed

lemma save_inv:
  assumes "provider_inv v s" "vault_ok v" "length (e_id e 0) = 12" "utf8_credentials (trim_credentials keys)"
  shows "provider_inv v (snd (save_config v e keys enabled actor s))"
proof (cases "save_config v e keys enabled actor s")
  case (Pair r s')
  show ?thesis
  proof (cases r)
    case Inl
    with Pair show ?thesis using assms(1) by (simp add: save_config_def run_tx_Inl split: if_split_asm)
  next
    case (Inr res)
    with Pair have "save_config v e keys enabled actor s = (Inr res, s')" by simp
    from save_success[OF this] obtain old k raw audit where old: "read_provider_config v s = Inr old"
      and inval: "\<not> invalid_credentials (trim_credentials keys)"
      and k: "merged_credentials (trim_credentials keys) (pv_credentials old) s = Inr k"
      and raw: "encrypt_credentials v e k = Inr raw"
      and new: "k \<noteq> pv_credentials old \<longrightarrow> active_requests e s = 0 \<and> pv_revision old + 1 \<notin> fst ` set (db_versions s)"
      and s': "s' = s\<lparr>db_versions := db_versions s @ (if k \<noteq> pv_credentials old then [(pv_revision old + 1, raw)] else []),
        db_provider := \<lparr>pc_revision = pv_revision old + 1, pc_envelope = raw, pc_enabled = enabled, pc_confirmed = pv_confirmed res,
          pc_updated = now_text e\<rparr>, db_audit := db_audit s @ [audit]\<rparr>" by blast
    from read_config[OF assms(1)] old have o: "pv_revision old = pc_revision (db_provider s)"
      "pc_envelope (db_provider s) = [] \<and> pv_credentials old = no_credentials \<or>
        pc_envelope (db_provider s) \<noteq> [] \<and> opens_to v (pc_envelope (db_provider s)) (pv_credentials old)"
      by auto
    have "utf8_credentials (pv_credentials old)"
      using o(2) by (auto simp: opens_to_def utf8_credentials_def no_credentials_def)
    with merged_fields(2)[OF k assms(4)] have u: "utf8_credentials k" by blast
    have c: "cr_client k \<noteq> []" using merged_fields(1)[OF k] inval by (simp add: invalid_credentials_def)
    from encrypt_opens[OF assms(2,3) u] raw have d: "decrypt_credentials v raw = Inr k" "raw \<noteq> []" by auto
    then have open_k: "opens_to v raw k" using u c by (simp add: opens_to_def)
    have vs: "\<forall>(r, raw)\<in>set (db_versions s). r \<le> pc_revision (db_provider s) \<and> (\<exists>k. opens_to v raw k)"
      using assms(1) by (simp add: provider_inv_def)
    have "\<forall>(r, raw)\<in>set (db_versions s'). r \<le> pc_revision (db_provider s') \<and> (\<exists>k. opens_to v raw k)"
      using vs open_k by (fastforce simp: s' o(1))
    moreover have "\<exists>(r, raw)\<in>set (db_versions s'). decrypt_credentials v raw = Inr k"
    proof (cases "k = pv_credentials old")
      case True
      with c have "pc_envelope (db_provider s) \<noteq> []" using o(2) by (auto simp: no_credentials_def)
      then show ?thesis using assms(1) o(2) True by (auto simp: provider_inv_def s' opens_to_def)
    next
      case False
      then show ?thesis using d by (auto simp: s')
    qed
    moreover have "distinct (map fst (db_versions s'))" "distinct (map po_token (db_ops s'))"
      using assms(1) new by (auto simp: provider_inv_def s')
    ultimately show ?thesis using open_k d by (auto simp: Pair provider_inv_def s')
  qed
qed

lemma provider_inv_cong:
  assumes "provider_inv v s" "db_versions s' = db_versions s" "db_provider s' = db_provider s" "distinct (map po_token (db_ops s'))"
  shows "provider_inv v s'"
  using assms by (simp add: provider_inv_def)

lemma begin_success:
  assumes "begin_operation v e s = (Inr (cfg, token), s')"
  shows "token = random_payment_token (e_id e 0) \<and> check_mutation_allowed e s = Inr () \<and> \<not> rt_quiesced (db_runtime s) \<and>
    read_provider_config v s = Inr cfg \<and> cr_client (pv_credentials cfg) \<noteq> [] \<and>
    (\<forall>r\<in>set (db_ops s). po_token r = token \<longrightarrow> po_lease r \<le> now_text e) \<and>
    s' = s\<lparr>db_ops := filter (\<lambda>r. \<not> po_lease r \<le> now_text e) (db_ops s) @
      [\<lparr>po_token = token, po_revision = pv_revision cfg, po_lease = fmt_nano (e_now e + provider_lease)\<rparr>]\<rparr>"
  using assms unfolding begin_operation_def run_tx_Inr
  by (auto simp: begin_operation_tx_def bnd_Inr Let_def split: if_split_asm)

lemma begin_inv:
  assumes "provider_inv v s"
  shows "provider_inv v (snd (begin_operation v e s))"
  unfolding begin_operation_def
proof (rule run_tx_rel[where r = "\<lambda>s. provider_inv v"])
  fix a s' assume "begin_operation_tx v e s = Inr (a, s')"
  then have "begin_operation v e s = (Inr (fst a, snd a), s')" by (simp add: begin_operation_def run_tx_Inr)
  note b = begin_success[OF this]
  have "distinct (map po_token (db_ops s'))"
    using b assms by (auto simp: provider_inv_def distinct_map_filter)
  then show "provider_inv v s'" using b by (auto intro: provider_inv_cong[OF assms])
qed (rule assms)


section \<open>Histories of provider calls\<close>

datatype provider_call =
    PSave env credentials bool provider_actor
  | PBegin env
  | PRenew env string
  | PEnd string
  | PConfirm env int provider_actor
  | PQuiesce bool
  | PSlot env

fun provider_exec :: "vault \<Rightarrow> provider_call \<Rightarrow> db \<Rightarrow> db" where
  "provider_exec v (PSave e keys enabled actor) s = snd (save_config v e keys enabled actor s)"
| "provider_exec v (PBegin e) s = snd (begin_operation v e s)"
| "provider_exec v (PRenew e token) s = snd (renew_operation e token s)"
| "provider_exec v (PEnd token) s = end_operation token s"
| "provider_exec v (PConfirm e revision actor) s = snd (confirm_webhook e revision actor s)"
| "provider_exec v (PQuiesce paused) s = set_quiesced paused s"
| "provider_exec v (PSlot e) s = snd (request_slot e s)"

fun call_env :: "provider_call \<Rightarrow> env option" where
  "call_env (PSave e _ _ _) = Some e"
| "call_env (PBegin e) = Some e"
| "call_env (PRenew e _) = Some e"
| "call_env (PConfirm e _ _) = Some e"
| "call_env (PSlot e) = Some e"
| "call_env _ = None"

text \<open>Clocks that timestamps can show, nonces of the length AES-GCM takes, credentials that JSON can carry.\<close>

fun provider_ok :: "vault \<Rightarrow> provider_call \<Rightarrow> bool" where
  "provider_ok v (PSave e keys enabled actor) \<longleftrightarrow>
     clock_ok (e_now e) \<and> vault_ok v \<and> length (e_id e 0) = 12 \<and> utf8_credentials (trim_credentials keys)"
| "provider_ok v c \<longleftrightarrow> (case call_env c of None \<Rightarrow> True | Some e \<Rightarrow> clock_ok (e_now e))"

lemma renew_inv: "provider_inv v s \<Longrightarrow> provider_inv v (snd (renew_operation e token s))"
  by (rule provider_inv_cong) (simp_all add: renew_operation_def Let_def map_update_where provider_inv_def)

lemma end_inv: "provider_inv v s \<Longrightarrow> provider_inv v (end_operation token s)"
  by (rule provider_inv_cong) (simp_all add: end_operation_def distinct_map_filter provider_inv_def)

lemma confirm_success:
  assumes "confirm_webhook_tx e revision actor s = Inr (u, s')"
  shows "check_mutation_allowed e s = Inr () \<and> pc_revision (db_provider s) = revision \<and> pc_envelope (db_provider s) \<noteq> [] \<and>
    (\<exists>audit. s' = s\<lparr>db_provider := (db_provider s)\<lparr>pc_confirmed := True, pc_updated := now_text e\<rparr>, db_audit := db_audit s @ [audit]\<rparr>)"
  using assms by (auto simp: confirm_webhook_tx_def bnd_Inr add_audit_def split: if_split_asm)

lemma confirm_inv:
  assumes "provider_inv v s"
  shows "provider_inv v (snd (confirm_webhook e revision actor s))"
  unfolding confirm_webhook_def
proof (rule run_tx_rel[where r = "\<lambda>s. provider_inv v"])
  fix u s' assume "confirm_webhook_tx e revision actor s = Inr (u, s')"
  from confirm_success[OF this] obtain audit where "pc_envelope (db_provider s) \<noteq> []"
    "s' = s\<lparr>db_provider := (db_provider s)\<lparr>pc_confirmed := True, pc_updated := now_text e\<rparr>, db_audit := db_audit s @ [audit]\<rparr>" by blast
  then show "provider_inv v s'" using assms by (simp add: provider_inv_def)
qed (rule assms)

lemma slot_success:
  assumes "request_slot_tx e s = Inr (at, s')"
  shows "check_mutation_allowed e s = Inr () \<and> \<not> rt_quiesced (db_runtime s) \<and>
    at = (case parse_nano (rt_next_request (db_runtime s)) of None \<Rightarrow> e_now e | Some t \<Rightarrow> max t (e_now e)) \<and>
    s' = s\<lparr>db_runtime := (db_runtime s)\<lparr>rt_next_request := fmt_nano (at + second)\<rparr>\<rparr>"
  using assms by (auto simp: request_slot_tx_def bnd_Inr Let_def split: if_split_asm option.split)

lemma slot_inv:
  assumes "provider_inv v s"
  shows "provider_inv v (snd (request_slot e s))"
  unfolding request_slot_def
proof (rule run_tx_rel[where r = "\<lambda>s. provider_inv v"])
  fix a s' assume "request_slot_tx e s = Inr (a, s')"
  from slot_success[OF this] show "provider_inv v s'" using assms by (auto simp: provider_inv_def)
qed (rule assms)

interpretation pv: call_machine "provider_exec v" "provider_ok v" "provider_inv v" for v
proof
  fix c s assume "provider_ok v c" "provider_inv v s"
  then show "provider_inv v (provider_exec v c s)"
    by (cases c) (simp_all add: save_inv begin_inv renew_inv end_inv confirm_inv slot_inv,
      simp add: provider_inv_def set_quiesced_def)
qed

section \<open>Results\<close>

subsection \<open>An admitted operation pins the credentials\<close>

text \<open>The operation \<open>token\<close> is admitted until the second \<open>sec\<close> at least, and the credentials are \<open>k\<close>.\<close>

definition admitted :: "vault \<Rightarrow> string \<Rightarrow> int \<Rightarrow> credentials \<Rightarrow> db \<Rightarrow> bool" where
  "admitted v token sec k s \<longleftrightarrow>
     (\<exists>r\<in>set (db_ops s). po_token r = token \<and> (\<exists>t. po_lease r = fmt_nano t \<and> in_range t \<and> sec \<le> t div second)) \<and>
     (\<exists>cfg. read_provider_config v s = Inr cfg \<and> pv_credentials cfg = k)"

definition during :: "int \<Rightarrow> int \<Rightarrow> provider_call \<Rightarrow> bool" where
  "during lo hi c \<longleftrightarrow> (case call_env c of None \<Rightarrow> True | Some e \<Rightarrow> lo \<le> e_now e div second \<and> e_now e div second < hi)"

lemma read_config_cong:
  "db_provider s' = db_provider s \<Longrightarrow> read_provider_config v s' = read_provider_config v s"
  by (simp add: read_provider_config_def)

lemma admitted_lease:
  assumes "admitted v token sec k s" "clock_ok (e_now e)" "e_now e div second < sec"
  shows "\<exists>r\<in>set (db_ops s). po_token r = token \<and> now_text e < po_lease r"
proof -
  obtain r t where r: "r \<in> set (db_ops s)" "po_token r = token" "po_lease r = fmt_nano t" "in_range t" "sec \<le> t div second"
    using assms(1) by (auto simp: admitted_def)
  have "now_text e < po_lease r"
    using fmt_nano_less_seconds[OF clock_in_range0[OF assms(2)] r(4)] r(3,5) assms(3) by (simp add: now_text_def)
  with r show ?thesis by blast
qed

lemma admitted_same_ops:
  "admitted v token sec k s \<Longrightarrow> db_ops s' = db_ops s \<Longrightarrow> db_provider s' = db_provider s \<Longrightarrow> admitted v token sec k s'"
  using read_config_cong[of s' s v] by (simp add: admitted_def)

lemma admitted_save:
  assumes "admitted v token sec k s" "provider_inv v s" "provider_ok v (PSave e keys enabled actor)" "e_now e div second < sec"
  shows "admitted v token sec k (snd (save_config v e keys enabled actor s))"
proof (cases "save_config v e keys enabled actor s")
  case (Pair r s')
  show ?thesis
  proof (cases r)
    case Inl
    with Pair show ?thesis using assms(1) by (simp add: save_config_def run_tx_Inl split: if_split_asm)
  next
    case (Inr res)
    with Pair have "save_config v e keys enabled actor s = (Inr res, s')" by simp
    note sv = save_success[OF this]
    from admitted_lease[OF assms(1) _ assms(4)] assms(3) have act: "active_requests e s \<noteq> 0"
      by (auto simp: active_requests_def count_where_0)
    from sv obtain old k' raw audit where o0: "read_provider_config v s = Inr old" "encrypt_credentials v e k' = Inr raw"
      and b: "k' \<noteq> pv_credentials old \<longrightarrow> active_requests e s = 0 \<and> pv_revision old + 1 \<notin> fst ` set (db_versions s)"
      and s': "s' = s\<lparr>db_versions := db_versions s @ (if k' \<noteq> pv_credentials old then [(pv_revision old + 1, raw)] else []),
        db_provider := \<lparr>pc_revision = pv_revision old + 1, pc_envelope = raw, pc_enabled = enabled, pc_confirmed = pv_confirmed res,
          pc_updated = now_text e\<rparr>, db_audit := db_audit s @ [audit]\<rparr>" by blast
    have k': "k' = pv_credentials old" using b act by blast
    note o = o0[unfolded k']
    have k: "pv_credentials old = k" using assms(1) o(1) by (auto simp: admitted_def)
    from read_config[OF assms(2)] o(1) have "utf8_credentials (pv_credentials old)"
      by (auto simp: opens_to_def utf8_credentials_def no_credentials_def)
    from encrypt_opens[OF _ _ this, of v e] assms(3) o(2) have d: "raw \<noteq> []" "decrypt_credentials v raw = Inr (pv_credentials old)"
      by auto
    then have "\<exists>cfg. read_provider_config v s' = Inr cfg \<and> pv_credentials cfg = k"
      by (simp add: read_provider_config_def s' k)
    then show ?thesis using assms(1) by (simp add: admitted_def Pair s')
  qed
qed


lemma admitted_ops:
  assumes "admitted v token sec k s" "db_provider s' = db_provider s"
    "\<And>r t. r \<in> set (db_ops s) \<Longrightarrow> po_token r = token \<Longrightarrow> po_lease r = fmt_nano t \<Longrightarrow> in_range t \<Longrightarrow> sec \<le> t div second \<Longrightarrow>
      \<exists>r'\<in>set (db_ops s'). po_token r' = token \<and> (\<exists>t. po_lease r' = fmt_nano t \<and> in_range t \<and> sec \<le> t div second)"
  shows "admitted v token sec k s'"
proof -
  obtain r t where "r \<in> set (db_ops s)" "po_token r = token" "po_lease r = fmt_nano t" "in_range t" "sec \<le> t div second"
    using assms(1) unfolding admitted_def by blast
  note n = assms(3)[OF this]
  have "\<exists>cfg. read_provider_config v s' = Inr cfg \<and> pv_credentials cfg = k"
    using assms(1) read_config_cong[OF assms(2), of v] by (simp add: admitted_def)
  with n show ?thesis by (simp add: admitted_def)
qed

lemma lease_after:
  assumes "clock_ok t" "t0 div second \<le> t div second"
  shows "in_range (t + provider_lease)" "(t0 + provider_lease) div second \<le> (t + provider_lease) div second"
proof -
  show "in_range (t + provider_lease)" using assms(1) by (intro clock_in_range) (simp_all add: provider_lease_def)
  have "(x + provider_lease) div second = x div second + 300" for x by (simp add: provider_lease_def)
  then show "(t0 + provider_lease) div second \<le> (t + provider_lease) div second" using assms(2) by simp
qed

lemma admitted_step:
  assumes "admitted v token sec k s" "provider_inv v s" "provider_ok v c" "during (t0 div second) sec c" "c \<noteq> PEnd token"
    and sec: "sec = (t0 + provider_lease) div second"
  shows "admitted v token sec k (provider_exec v c s)"
proof (cases c)
  case (PSave e keys enabled actor)
  with assms show ?thesis by (simp add: admitted_save during_def)
next
  case (PBegin e)
  have e: "clock_ok (e_now e)" "e_now e div second < sec" using assms(3,4) PBegin by (simp_all add: during_def)
  have "admitted v token sec k (snd (begin_operation v e s))"
    unfolding begin_operation_def
  proof (rule run_tx_rel[where r = "\<lambda>s. admitted v token sec k"])
    fix a s' assume "begin_operation_tx v e s = Inr (a, s')"
    then have "begin_operation v e s = (Inr (fst a, snd a), s')" by (simp add: begin_operation_def run_tx_Inr)
    note b = begin_success[OF this]
    show "admitted v token sec k s'"
    proof (rule admitted_ops[OF assms(1)])
      show "db_provider s' = db_provider s" using b by simp
      fix r t assume r: "r \<in> set (db_ops s)" "po_token r = token" "po_lease r = fmt_nano t" "in_range t" "sec \<le> t div second"
      have "now_text e < po_lease r"
        using fmt_nano_less_seconds[OF clock_in_range0[OF e(1)] r(4)] r(3,5) e(2) by (simp add: now_text_def)
      then have "r \<in> set (db_ops s')" using b r(1) by auto
      with r show "\<exists>r'\<in>set (db_ops s'). po_token r' = token \<and> (\<exists>t. po_lease r' = fmt_nano t \<and> in_range t \<and> sec \<le> t div second)"
        by blast
    qed
  qed (rule assms(1))
  with PBegin show ?thesis by simp
next
  case (PRenew e tok)
  let ?p = "\<lambda>r. po_token r = tok \<and> now_text e < po_lease r"
  let ?f = "\<lambda>r. r\<lparr>po_lease := fmt_nano (e_now e + provider_lease)\<rparr>"
  have s': "snd (renew_operation e tok s) = s\<lparr>db_ops := update_where ?p ?f (db_ops s)\<rparr>"
    by (simp add: renew_operation_def Let_def)
  have l: "in_range (e_now e + provider_lease)" "sec \<le> (e_now e + provider_lease) div second"
    using lease_after[of "e_now e" t0] assms(3,4) PRenew sec by (simp_all add: during_def)
  have "admitted v token sec k (snd (renew_operation e tok s))"
    unfolding s'
  proof (rule admitted_ops[OF assms(1)])
    fix r t assume r: "r \<in> set (db_ops s)" "po_token r = token" "po_lease r = fmt_nano t" "in_range t" "sec \<le> t div second"
    show "\<exists>r'\<in>set (db_ops (s\<lparr>db_ops := update_where ?p ?f (db_ops s)\<rparr>)). po_token r' = token \<and>
        (\<exists>t. po_lease r' = fmt_nano t \<and> in_range t \<and> sec \<le> t div second)"
    proof (cases "?p r")
      case True
      with r l show ?thesis by (intro bexI[of _ "?f r"]) (auto simp: set_update_where)
    next
      case False
      with r show ?thesis by (intro bexI[of _ r]) (auto simp: set_update_where)
    qed
  qed simp
  with PRenew show ?thesis by simp
next
  case (PEnd tok)
  have "admitted v token sec k (end_operation tok s)"
  proof (rule admitted_ops[OF assms(1)])
    fix r t assume r: "r \<in> set (db_ops s)" "po_token r = token" "po_lease r = fmt_nano t" "in_range t" "sec \<le> t div second"
    then have "r \<in> set (db_ops (end_operation tok s))" using assms(5) PEnd by (simp add: end_operation_def)
    with r show "\<exists>r'\<in>set (db_ops (end_operation tok s)). po_token r' = token \<and> (\<exists>t. po_lease r' = fmt_nano t \<and> in_range t \<and> sec \<le> t div second)"
      by blast
  qed (simp add: end_operation_def)
  with PEnd show ?thesis by simp
next
  case (PConfirm e revision actor)
  have "admitted v token sec k (snd (confirm_webhook e revision actor s))"
    unfolding confirm_webhook_def
  proof (rule run_tx_rel[where r = "\<lambda>s. admitted v token sec k"])
    fix u s' assume "confirm_webhook_tx e revision actor s = Inr (u, s')"
    from confirm_success[OF this] obtain audit where
      s': "s' = s\<lparr>db_provider := (db_provider s)\<lparr>pc_confirmed := True, pc_updated := now_text e\<rparr>, db_audit := db_audit s @ [audit]\<rparr>" by blast
    have "\<exists>cfg. read_provider_config v s' = Inr cfg \<and> pv_credentials cfg = k"
      using assms(1) by (auto simp: admitted_def read_provider_config_def s' Let_def bnd_Inr split: if_split_asm)
    then show "admitted v token sec k s'" using assms(1) by (simp add: admitted_def s')
  qed (rule assms(1))
  with PConfirm show ?thesis by simp
next
  case (PQuiesce paused)
  with assms(1) show ?thesis by (simp add: set_quiesced_def) (rule admitted_same_ops[OF assms(1)], simp_all)
next
  case (PSlot e)
  have "admitted v token sec k (snd (request_slot e s))"
    unfolding request_slot_def
  proof (rule run_tx_rel[where r = "\<lambda>s. admitted v token sec k"])
    fix a s' assume "request_slot_tx e s = Inr (a, s')"
    from slot_success[OF this] have "db_ops s' = db_ops s" "db_provider s' = db_provider s" by simp_all
    then show "admitted v token sec k s'" by (rule admitted_same_ops[OF assms(1)])
  qed (rule assms(1))
  with PSlot show ?thesis by simp
qed

lemma admitted_history:
  assumes "admitted v token sec k s" "provider_inv v s" "list_all (provider_ok v) cs"
    "list_all (\<lambda>c. during (t0 div second) sec c \<and> c \<noteq> PEnd token) cs" "sec = (t0 + provider_lease) div second"
  shows "admitted v token sec k (pv.history v cs s)"
  using assms(1-4)
proof (induction cs arbitrary: s)
  case (Cons c cs)
  have "admitted v token sec k (provider_exec v c s)"
    by (rule admitted_step[OF Cons.prems(1,2) _ _ _ assms(5)]) (use Cons.prems in simp_all)
  then show ?case using Cons pv.exec_inv[of v c s] by simp
qed simp


lemma count_where_mono: "(\<And>x. p x \<Longrightarrow> q x) \<Longrightarrow> count_where p xs \<le> count_where q xs"
  by (induction xs) (auto simp: le_SucI)

lemma op_unique:
  assumes "provider_inv v s" "r \<in> set (db_ops s)" "po_token r = token" "p r" "\<And>x. p x \<Longrightarrow> po_token x = token"
  shows "count_where p (db_ops s) = 1"
proof -
  have "count_where p (db_ops s) \<le> count_where (\<lambda>r. po_token r = token) (db_ops s)"
    by (rule count_where_mono) (rule assms(5))
  moreover have "count_where (\<lambda>r. po_token r = token) (db_ops s) \<le> 1"
    using assms(1) by (intro count_key_le_1) (simp add: provider_inv_def)
  moreover have "count_where p (db_ops s) \<noteq> 0" using assms(2,4) by (auto simp: count_where_0)
  ultimately show ?thesis by simp
qed

text \<open>
  C26.  An operation that was admitted keeps its credentials: until its five-minute lease ends, whatever
  configuration is saved and whatever other operations begin, renew and end, the stored credentials are
  those the operation got, its own writes pass the admission check, and every save that comes through (its own
  or an administrator's) keeps them: a save of well-formed credentials that would change them, made by anybody whom
  the gate lets through, is refused with \<open>ErrProviderConfigBusy\<close> and changes nothing.
\<close>

theorem operation_pins_credentials:
  assumes "begin_operation v e s = (Inr (cfg, token), s')" and "provider_inv v s" and "clock_ok (e_now e)"
    and "list_all (provider_ok v) cs"
    and "list_all (\<lambda>c. during (e_now e div second) ((e_now e + provider_lease) div second) c \<and> c \<noteq> PEnd token) cs"
    and "clock_ok (e_now e2)" and "e_now e2 div second < (e_now e + provider_lease) div second"
  shows "(\<exists>cfg2. read_provider_config v (pv.history v cs s') = Inr cfg2 \<and> pv_credentials cfg2 = pv_credentials cfg) \<and>
    (e_op e2 = token \<longrightarrow> check_payment_provider_operation e2 (pv.history v cs s') = Inr ()) \<and>
    (\<forall>keys enabled actor res s2. save_config v e2 keys enabled actor (pv.history v cs s') = (Inr res, s2) \<longrightarrow>
      pv_credentials res = pv_credentials cfg) \<and>
    (\<forall>keys enabled actor k. check_mutation_allowed e2 (pv.history v cs s') = Inr () \<longrightarrow> \<not> invalid_credentials (trim_credentials keys) \<longrightarrow>
      merged_credentials (trim_credentials keys) (pv_credentials cfg) (pv.history v cs s') = Inr k \<longrightarrow> k \<noteq> pv_credentials cfg \<longrightarrow>
      save_config v e2 keys enabled actor (pv.history v cs s') = (Inl ErrProviderConfigBusy, pv.history v cs s'))"
proof -
  let ?sec = "(e_now e + provider_lease) div second" and ?h = "pv.history v cs s'"
  note b = begin_success[OF assms(1)]
  have inv': "provider_inv v s'" using begin_inv[OF assms(2), of e] assms(1) by simp
  have "\<exists>cfg'. read_provider_config v s' = Inr cfg' \<and> pv_credentials cfg' = pv_credentials cfg"
    using b read_config_cong[of s' s v] by simp
  moreover have "in_range (e_now e + provider_lease)" using lease_after(1)[OF assms(3), of "e_now e"] by simp
  ultimately have "admitted v token ?sec (pv_credentials cfg) s'" unfolding admitted_def using b by simp blast
  from admitted_history[OF this inv' assms(4,5)] have adm: "admitted v token ?sec (pv_credentials cfg) ?h" by simp
  then obtain cfg2 where cfg2: "read_provider_config v ?h = Inr cfg2" "pv_credentials cfg2 = pv_credentials cfg"
    by (auto simp: admitted_def)
  have inv: "provider_inv v ?h" by (rule pv.history_inv[OF assms(4) inv'])
  from admitted_lease[OF adm assms(6,7)] obtain r where r: "r \<in> set (db_ops ?h)" "po_token r = token" "now_text e2 < po_lease r" by blast
  have "count_where (\<lambda>r. po_token r = token \<and> now_text e2 < po_lease r) (db_ops ?h) = 1"
    by (rule op_unique[OF inv r(1,2)]) (use r in simp_all)
  then have c: "e_op e2 = token \<longrightarrow> check_payment_provider_operation e2 ?h = Inr ()"
    by (simp add: check_payment_provider_operation_def)
  have act: "active_requests e2 ?h \<noteq> 0" using r by (auto simp: active_requests_def count_where_0)
  then have s: "pv_credentials res = pv_credentials cfg" if "save_config v e2 keys enabled actor ?h = (Inr res, s2)" for keys enabled actor res s2
    using save_success[OF that] adm by (auto simp: admitted_def)
  have busy: "save_config v e2 keys enabled actor ?h = (Inl ErrProviderConfigBusy, ?h)"
    if "check_mutation_allowed e2 ?h = Inr ()" "\<not> invalid_credentials (trim_credentials keys)"
      "merged_credentials (trim_credentials keys) (pv_credentials cfg) ?h = Inr k" "k \<noteq> pv_credentials cfg" for keys enabled actor k
    using that act cfg2 by (simp add: save_config_def run_tx_def save_config_tx_def Let_def)
  show ?thesis using cfg2 c s busy by blast
qed

subsection \<open>Operations that ended\<close>

definition dead :: "string \<Rightarrow> int \<Rightarrow> db \<Rightarrow> bool" where
  "dead token sec s \<longleftrightarrow> (\<forall>r\<in>set (db_ops s). po_token r = token \<longrightarrow> (\<exists>t. po_lease r = fmt_nano t \<and> in_range t \<and> t div second < sec))"

fun draws_token :: "provider_call \<Rightarrow> string \<Rightarrow> bool" where
  "draws_token (PBegin e) token \<longleftrightarrow> random_payment_token (e_id e 0) = token"
| "draws_token _ _ \<longleftrightarrow> False"

definition later :: "int \<Rightarrow> provider_call \<Rightarrow> bool" where
  "later sec c \<longleftrightarrow> (case call_env c of None \<Rightarrow> True | Some e \<Rightarrow> sec \<le> e_now e div second)"

lemma dead_cong: "dead token sec s \<Longrightarrow> db_ops s' = db_ops s \<Longrightarrow> dead token sec s'"
  by (simp add: dead_def)

lemma dead_expired:
  assumes "dead token sec s" "clock_ok (e_now e)" "sec \<le> e_now e div second" "r \<in> set (db_ops s)" "po_token r = token"
  shows "\<not> now_text e < po_lease r"
proof -
  obtain t where t: "po_lease r = fmt_nano t" "in_range t" "t div second < sec" using assms(1,4,5) by (auto simp: dead_def)
  have "po_lease r < now_text e"
    using fmt_nano_less_seconds[OF t(2) clock_in_range0[OF assms(2)]] t assms(3) by (simp add: now_text_def)
  then show ?thesis by simp
qed

lemma save_keeps_ops: "db_ops (snd (save_config v e keys enabled actor s)) = db_ops s"
proof (cases "save_config v e keys enabled actor s")
  case (Pair r s')
  show ?thesis
  proof (cases r)
    case Inl
    with Pair show ?thesis by (simp add: save_config_def run_tx_Inl split: if_split_asm)
  next
    case (Inr res)
    with Pair have "save_config v e keys enabled actor s = (Inr res, s')" by simp
    from save_success[OF this] show ?thesis by (auto simp: Pair)
  qed
qed

lemma dead_step:
  assumes "dead token sec s" "provider_ok v c" "later sec c" "\<not> draws_token c token"
  shows "dead token sec (provider_exec v c s)"
proof (cases c)
  case (PSave e keys enabled actor)
  with assms(1) show ?thesis using dead_cong save_keeps_ops by auto
next
  case (PBegin e)
  have "dead token sec (snd (begin_operation v e s))"
    unfolding begin_operation_def
  proof (rule run_tx_rel[where r = "\<lambda>s. dead token sec"])
    fix a s' assume "begin_operation_tx v e s = Inr (a, s')"
    then have "begin_operation v e s = (Inr (fst a, snd a), s')" by (simp add: begin_operation_def run_tx_Inr)
    note b = begin_success[OF this]
    have "set (db_ops s') \<subseteq> set (db_ops s) \<union> {r. po_token r \<noteq> token}" using b assms(4) PBegin by auto
    with assms(1) show "dead token sec s'" unfolding dead_def by blast
  qed (rule assms(1))
  with PBegin show ?thesis by simp
next
  case (PRenew e tok)
  have "\<not> (po_token r = tok \<and> now_text e < po_lease r)" if "r \<in> set (db_ops s)" "po_token r = token" for r
    using dead_expired[OF assms(1) _ _ that, of e] assms(2,3) PRenew by (simp add: later_def)
  then have "dead token sec (snd (renew_operation e tok s))"
    using assms(1) by (auto simp: dead_def renew_operation_def Let_def set_update_where)
  with PRenew show ?thesis by simp
next
  case (PEnd tok)
  with assms(1) show ?thesis by (simp add: dead_def end_operation_def)
next
  case (PConfirm e revision actor)
  have "dead token sec (snd (confirm_webhook e revision actor s))"
    unfolding confirm_webhook_def
  proof (rule run_tx_rel[where r = "\<lambda>s. dead token sec"])
    fix u s' assume "confirm_webhook_tx e revision actor s = Inr (u, s')"
    from confirm_success[OF this] have "db_ops s' = db_ops s" by auto
    with assms(1) show "dead token sec s'" by (rule dead_cong)
  qed (rule assms(1))
  with PConfirm show ?thesis by simp
next
  case (PQuiesce paused)
  with assms(1) show ?thesis by (simp add: dead_def set_quiesced_def)
next
  case (PSlot e)
  have "dead token sec (snd (request_slot e s))"
    unfolding request_slot_def
  proof (rule run_tx_rel[where r = "\<lambda>s. dead token sec"])
    fix a s' assume "request_slot_tx e s = Inr (a, s')"
    from slot_success[OF this] have "db_ops s' = db_ops s" by simp
    with assms(1) show "dead token sec s'" by (rule dead_cong)
  qed (rule assms(1))
  with PSlot show ?thesis by simp
qed

lemma dead_history:
  assumes "dead token sec s" "list_all (\<lambda>c. provider_ok v c \<and> later sec c \<and> \<not> draws_token c token) cs"
  shows "dead token sec (pv.history v cs s)"
  using assms by (induction cs arbitrary: s) (simp_all add: dead_step)

text \<open>
  C27.  Expired work cannot commit: once every lease of a token ended before the second \<open>sec\<close> (or the
  operation was ended), then along any later history in which the token is not drawn again, also when it
  tries to renew, every write that carries the token is refused.
\<close>

theorem ended_operation_refused:
  assumes "dead token sec s" and "list_all (\<lambda>c. provider_ok v c \<and> later sec c \<and> \<not> draws_token c token) cs"
    and "clock_ok (e_now e)" and "sec \<le> e_now e div second" and "e_op e = token" and "token \<noteq> []"
  shows "check_mutation_allowed e (pv.history v cs s) = Inl ErrProviderConfigUnavailable \<and>
    fst (renew_operation e token (pv.history v cs s)) = Inl ErrProviderConfigUnavailable"
proof -
  let ?h = "pv.history v cs s"
  have "count_where (\<lambda>r. po_token r = token \<and> now_text e < po_lease r) (db_ops ?h) = 0"
    using dead_expired[OF dead_history[OF assms(1,2)] assms(3,4)] by (auto simp: count_where_0)
  then show ?thesis
    using assms(5,6) by (simp add: check_mutation_allowed_def check_payment_provider_operation_def renew_operation_def Let_def)
qed


subsection \<open>Old keys stay available for verification\<close>

lemma collect_keys_all:
  assumes "\<forall>raw\<in>set raws. \<exists>k. decrypt_credentials v raw = Inr k"
  shows "\<exists>ks. collect_keys v channel raws = Inr ks \<and>
    set ks = {k. cr_client k = channel \<and> (\<exists>raw\<in>set raws. decrypt_credentials v raw = Inr k)}"
  using assms
proof (induction raws)
  case (Cons raw raws)
  then obtain ks where ks: "collect_keys v channel raws = Inr ks"
    "set ks = {k. cr_client k = channel \<and> (\<exists>raw\<in>set raws. decrypt_credentials v raw = Inr k)}" by auto
  from Cons.prems obtain k where k: "decrypt_credentials v raw = Inr k" by auto
  show ?case by (auto simp: k ks)
qed simp

lemma verification_keys_all:
  assumes "provider_inv v s"
  shows "\<exists>ks. verification_keys v channel revision s = Inr ks \<and>
    set ks = {k. cr_client k = channel \<and> (\<exists>(r, raw)\<in>set (db_versions s). r < revision \<and> decrypt_credentials v raw = Inr k)}"
proof -
  let ?raws = "map snd (rev (sort_key fst (filter (\<lambda>r. fst r < revision) (db_versions s))))"
  have "\<forall>raw\<in>set ?raws. \<exists>k. decrypt_credentials v raw = Inr k"
    using assms by (fastforce simp: provider_inv_def opens_to_def)
  from collect_keys_all[OF this, of channel] show ?thesis by (fastforce simp: verification_keys_def)
qed

text \<open>
  Saving other keys counts the revision up and resets the confirmation of the webhook.  The channel can
  only change while there is no order; on the same channel the replaced keys stay available for delayed
  callbacks: they are among the verification keys of the new revision, which are keys of its channel only.
\<close>

theorem replaced_keys_verify:
  assumes "save_config v e keys enabled actor s = (Inr res, s')" and "provider_inv v s" and "vault_ok v" and "length (e_id e 0) = 12"
    and "utf8_credentials (trim_credentials keys)"
    and "read_provider_config v s = Inr old" and "pc_envelope (db_provider s) \<noteq> []" and "pv_credentials res \<noteq> pv_credentials old"
  shows "pv_revision res = pv_revision old + 1 \<and> \<not> pv_confirmed res \<and>
    (cr_client (pv_credentials res) = cr_client (pv_credentials old) \<or> db_orders s = []) \<and>
    (\<exists>ks. verification_keys v (cr_client (pv_credentials res)) (pv_revision res) s' = Inr ks \<and>
      (cr_client (pv_credentials res) = cr_client (pv_credentials old) \<longrightarrow> pv_credentials old \<in> set ks) \<and>
      (\<forall>k\<in>set ks. cr_client k = cr_client (pv_credentials res)))"
proof -
  note sv = save_success[OF assms(1)]
  from sv obtain old' k raw audit where o': "read_provider_config v s = Inr old'"
    and m0: "merged_credentials (trim_credentials keys) (pv_credentials old') s = Inr k"
    and res0: "res = \<lparr>pv_credentials = k, pv_revision = pv_revision old' + 1, pv_enabled = enabled,
      pv_confirmed = pv_confirmed old' \<and> k = pv_credentials old'\<rparr>"
    and s0: "s' = s\<lparr>db_versions := db_versions s @ (if k \<noteq> pv_credentials old' then [(pv_revision old' + 1, raw)] else []),
      db_provider := \<lparr>pc_revision = pv_revision old' + 1, pc_envelope = raw, pc_enabled = enabled, pc_confirmed = pv_confirmed res,
        pc_updated = now_text e\<rparr>, db_audit := db_audit s @ [audit]\<rparr>"
    by blast
  have "old' = old" using o' assms(6) by simp
  note m = m0[unfolded this] and res = res0[unfolded this] and s' = s0[unfolded this]
  from read_config[OF assms(2)] assms(6,7) have o: "opens_to v (pc_envelope (db_provider s)) (pv_credentials old)"
    "pv_revision old = pc_revision (db_provider s)" by auto
  have c: "cr_client k = cr_client (pv_credentials old) \<or> db_orders s = []"
    using merged_fields(1,3)[OF m] o(1) by (auto simp: opens_to_def)
  have inv: "provider_inv v s'" using save_inv[OF assms(2-5), of enabled actor] assms(1) by simp
  from assms(2,7) o obtain r raw0 where "(r, raw0) \<in> set (db_versions s)" "decrypt_credentials v raw0 = Inr (pv_credentials old)"
    "r \<le> pc_revision (db_provider s)"
    by (auto simp: provider_inv_def opens_to_def)
  then have "\<exists>(r, raw)\<in>set (db_versions s'). r < pv_revision res \<and> decrypt_credentials v raw = Inr (pv_credentials old)"
    by (intro bexI[of _ "(r, raw0)"]) (simp_all add: s' res o(2))
  moreover obtain ks where ks: "verification_keys v (cr_client k) (pv_revision res) s' = Inr ks"
    "set ks = {x. cr_client x = cr_client k \<and> (\<exists>(r, raw)\<in>set (db_versions s'). r < pv_revision res \<and> decrypt_credentials v raw = Inr x)}"
    using verification_keys_all[OF inv, of "cr_client k" "pv_revision res"] by blast
  ultimately have "cr_client k = cr_client (pv_credentials old) \<longrightarrow> pv_credentials old \<in> set ks" "\<forall>x\<in>set ks. cr_client x = cr_client k"
    by simp_all
  with ks(1) have "\<exists>ks. verification_keys v (cr_client k) (pv_revision res) s' = Inr ks \<and>
      (cr_client k = cr_client (pv_credentials old) \<longrightarrow> pv_credentials old \<in> set ks) \<and> (\<forall>x\<in>set ks. cr_client x = cr_client k)" by blast
  then show ?thesis using assms(8) c by (simp add: res)
qed

subsection \<open>Quiescing\<close>

definition tokens :: "db \<Rightarrow> string set" where
  "tokens s = po_token ` set (db_ops s)"

lemma quiesced_step:
  assumes "rt_quiesced (db_runtime s)" "\<forall>paused. c = PQuiesce paused \<longrightarrow> paused"
  shows "rt_quiesced (db_runtime (provider_exec v c s)) \<and> tokens (provider_exec v c s) \<subseteq> tokens s \<and>
    rt_next_request (db_runtime (provider_exec v c s)) = rt_next_request (db_runtime s)"
proof (cases c)
  case (PSave e keys enabled actor)
  have "db_runtime (snd (save_config v e keys enabled actor s)) = db_runtime s"
  proof (cases "save_config v e keys enabled actor s")
    case (Pair r s')
    then show ?thesis using save_success[of v e keys enabled actor s _ s']
      by (cases r) (auto simp: save_config_def run_tx_Inl split: if_split_asm)
  qed
  then show ?thesis using assms(1) save_keeps_ops[of v e keys enabled actor s] PSave by (simp add: tokens_def)
next
  case (PBegin e)

  have "snd (begin_operation v e s) = s"
    using assms(1) by (cases "check_mutation_allowed e s") (simp_all add: begin_operation_def snd_run_tx begin_operation_tx_def Let_def)
  with PBegin assms(1) show ?thesis by simp
next
  case (PRenew e tok)
  with assms(1) show ?thesis
    by (simp add: renew_operation_def Let_def tokens_def set_update_where image_Un image_Collect) auto
next
  case (PEnd tok)
  with assms(1) show ?thesis by (auto simp: end_operation_def tokens_def)
next
  case (PConfirm e revision actor)
  have "rt_quiesced (db_runtime (snd (confirm_webhook e revision actor s))) \<and> tokens (snd (confirm_webhook e revision actor s)) \<subseteq> tokens s \<and>
    rt_next_request (db_runtime (snd (confirm_webhook e revision actor s))) = rt_next_request (db_runtime s)"
    unfolding confirm_webhook_def
  proof (rule run_tx_rel[where r = "\<lambda>s s'. rt_quiesced (db_runtime s') \<and> tokens s' \<subseteq> tokens s \<and>
      rt_next_request (db_runtime s') = rt_next_request (db_runtime s)"])
    fix u s' assume "confirm_webhook_tx e revision actor s = Inr (u, s')"
    from confirm_success[OF this] have "db_ops s' = db_ops s" "db_runtime s' = db_runtime s" by auto
    with assms(1) show "rt_quiesced (db_runtime s') \<and> tokens s' \<subseteq> tokens s \<and> rt_next_request (db_runtime s') = rt_next_request (db_runtime s)"
      by (simp add: tokens_def)
  qed (use assms(1) in simp)
  with PConfirm show ?thesis by simp
next
  case (PQuiesce paused)
  with assms show ?thesis by (simp add: set_quiesced_def tokens_def)
next
  case (PSlot e)
  have "snd (request_slot e s) = s"
    using assms(1) by (cases "check_mutation_allowed e s") (simp_all add: request_slot_def snd_run_tx request_slot_tx_def)
  with PSlot assms(1) show ?thesis by simp
qed

lemma quiesced_history:
  assumes "rt_quiesced (db_runtime s)" "\<forall>c\<in>set cs. c \<noteq> PQuiesce False"
  shows "rt_quiesced (db_runtime (pv.history v cs s)) \<and> tokens (pv.history v cs s) \<subseteq> tokens s \<and>
    rt_next_request (db_runtime (pv.history v cs s)) = rt_next_request (db_runtime s)"
  using assms
proof (induction cs arbitrary: s)
  case (Cons c cs)
  have "\<forall>paused. c = PQuiesce paused \<longrightarrow> paused" using Cons.prems(2) by auto
  note st = quiesced_step[OF Cons.prems(1) this, of v]
  from Cons.IH[of "provider_exec v c s"] st Cons.prems(2) show ?case by auto
qed simp

text \<open>
  Quiescing drains the channel: from then on, until it is lifted, no operation is admitted and no request
  slot is handed out, so the admitted operations are those from before and can only end.
\<close>

theorem quiesce_drains:
  assumes "\<forall>c\<in>set cs. c \<noteq> PQuiesce False"
  shows "tokens (pv.history v cs (set_quiesced True s)) \<subseteq> tokens s \<and>
    (\<exists>x. begin_operation v e (pv.history v cs (set_quiesced True s)) = (Inl x, pv.history v cs (set_quiesced True s))) \<and>
    (\<exists>x. request_slot e (pv.history v cs (set_quiesced True s)) = (Inl x, pv.history v cs (set_quiesced True s)))"
proof -
  let ?s = "set_quiesced True s" and ?h = "pv.history v cs (set_quiesced True s)"
  have "rt_quiesced (db_runtime ?s)" "tokens ?s = tokens s" by (simp_all add: set_quiesced_def tokens_def)
  with quiesced_history[OF _ assms, of ?s v] have q: "rt_quiesced (db_runtime ?h)" "tokens ?h \<subseteq> tokens s" by auto
  have "\<exists>x. begin_operation_tx v e ?h = Inl x" "\<exists>x. request_slot_tx e ?h = Inl x"
    using q(1) by (cases "check_mutation_allowed e ?h"; simp add: begin_operation_tx_def request_slot_tx_def Let_def)+
  then show ?thesis using q(2) by (auto simp: begin_operation_def request_slot_def run_tx_def)
qed

subsection \<open>Request slots\<close>

text \<open>A slot is the next one only if no call in between takes a slot.\<close>

definition takes_slot :: "provider_call \<Rightarrow> bool" where
  "takes_slot c \<longleftrightarrow> (\<exists>e. c = PSlot e)"

lemma runtime_step:
  assumes "\<not> takes_slot c"
  shows "rt_next_request (db_runtime (provider_exec v c s)) = rt_next_request (db_runtime s)"
proof (cases c)
  case (PSave e keys enabled actor)
  show ?thesis
  proof (cases "save_config v e keys enabled actor s")
    case (Pair r s')
    then show ?thesis using save_success[of v e keys enabled actor s _ s'] PSave
      by (cases r) (auto simp: save_config_def run_tx_Inl split: if_split_asm)
  qed
next
  case (PBegin e)
  then show ?thesis
    by (auto simp: begin_operation_def snd_run_tx begin_operation_tx_def bnd_def Let_def split: sum.split)
next
  case (PConfirm e revision actor)
  then show ?thesis
    by (auto simp: confirm_webhook_def snd_run_tx confirm_webhook_tx_def add_audit_def bnd_def split: sum.split)
qed (use assms in \<open>auto simp: renew_operation_def Let_def end_operation_def set_quiesced_def takes_slot_def\<close>)

lemma runtime_history:
  "\<forall>c\<in>set cs. \<not> takes_slot c \<Longrightarrow> rt_next_request (db_runtime (pv.history v cs s)) = rt_next_request (db_runtime s)"
  by (induction cs arbitrary: s) (simp_all add: runtime_step)

text \<open>
  C28.  Provider requests are spaced: a slot never lies before the clock that asked for it, and it lies at least
  one second after the slot that was handed out before it, whatever else the gateway and the worker did in
  between and whatever their clocks show.
\<close>

theorem slots_spaced:
  assumes "request_slot e s = (Inr t, s')" and "in_range (t + second)" and "\<forall>c\<in>set cs. \<not> takes_slot c"
    and "request_slot e2 (pv.history v cs s') = (Inr t2, s2)"
  shows "e_now e \<le> t \<and> e_now e2 \<le> t2 \<and> t + second \<le> t2"
proof -
  have a: "request_slot_tx e s = Inr (t, s')" "request_slot_tx e2 (pv.history v cs s') = Inr (t2, s2)"
    using assms(1,4) by (simp_all add: request_slot_def run_tx_Inr)
  note s1 = slot_success[OF a(1)] and s2 = slot_success[OF a(2)]
  have "rt_next_request (db_runtime (pv.history v cs s')) = fmt_nano (t + second)"
    using runtime_history[OF assms(3), of v s'] s1 by simp
  with s2 have "t2 = max (t + second) (e_now e2)" by (simp add: parse_fmt_nano[OF assms(2)])
  then show ?thesis using s1 by (auto split: option.splits)
qed


section \<open>Witnesses\<close>

definition sample_keys :: credentials where
  "sample_keys = \<lparr>cr_client = ''shop'', cr_api = ''a1'', cr_checksum = ''c1''\<rparr>"

definition sample_actor :: provider_actor where
  "sample_actor = \<lparr>pa_subject = ''ops'', pa_role = ''admin'', pa_request = ''r1''\<rparr>"

lemma sample_vault_ok: "vault_ok sample_vault"
proof -
  have "new_keyring (replicate 32 (CHR ''x'')) = Inr \<lparr>kr_current = ''k1'', kr_keys = [(''k1'', replicate 32 (CHR ''x''))]\<rparr>"
    by (simp add: new_keyring_def)
  then show ?thesis by (auto simp: vault_ok_def sample_vault_def sample_aead_ok)
qed

lemma nonce_env_simps [simp]: "e_now nonce_env = 0" "e_op nonce_env = []" "length (e_id nonce_env k) = 12"
  by (simp_all add: nonce_env_def)

lemma trim_sample_keys: "cr_checksum k = ''c1'' \<Longrightarrow> cr_client k = ''shop'' \<Longrightarrow> cr_api k \<in> {''a1'', ''a2''} \<Longrightarrow>
    trim_credentials k = k \<and> \<not> invalid_credentials k \<and> utf8_credentials k"
  by (auto simp: trim_credentials_def invalid_credentials_def utf8_credentials_def printable_def valid_utf8_ascii)

lemma save_works:
  assumes "read_provider_config v s = Inr old" "check_mutation_allowed e s = Inr ()" "trim_credentials k = k" "\<not> invalid_credentials k"
    "merged_credentials k (pv_credentials old) s = Inr m" "encrypt_credentials v e m = Inr raw" "active_requests e s = 0"
    "pv_revision old + 1 \<notin> fst ` set (db_versions s)" "\<forall>a\<in>set (db_audit s). au_id a \<noteq> fresh_id e ''audit'' 1"
  shows "\<exists>res s'. save_config v e k en actor s = (Inr res, s') \<and> (\<forall>a\<in>set (db_audit s'). a \<in> set (db_audit s) \<or> au_id a = fresh_id e ''audit'' 1)"
proof (cases "m = pv_credentials old")
  case True
  then show ?thesis using assms by (simp add: save_config_def run_tx_def save_config_tx_def Let_def add_audit_def)
next
  case False
  then show ?thesis using assms by (simp add: save_config_def run_tx_def save_config_tx_def Let_def add_audit_def add_version_def)
qed

lemma sample_provider_state:
  "\<exists>s :: db. provider_inv sample_vault s \<and> db_ops s = [] \<and> db_orders s = [] \<and> db_runtime s = \<lparr>rt_quiesced = False, rt_next_request = []\<rparr> \<and>
    (\<forall>e. e_op e = [] \<longrightarrow> check_mutation_allowed e s = Inr ()) \<and> pc_envelope (db_provider s) \<noteq> [] \<and> (\<forall>a\<in>set (db_audit s). au_id a = fresh_id nonce_env ''audit'' 1) \<and>
    (\<exists>cfg. read_provider_config sample_vault s = Inr cfg \<and> pv_credentials cfg = sample_keys \<and> pv_revision cfg = 1 \<and>
      fst ` set (db_versions s) = {1})"
proof -
  have k: "trim_credentials sample_keys = sample_keys" "\<not> invalid_credentials sample_keys" "utf8_credentials sample_keys"
    using trim_sample_keys[of sample_keys] by (simp_all add: sample_keys_def)
  obtain raw where raw: "encrypt_credentials sample_vault nonce_env sample_keys = Inr raw" "raw \<noteq> []" "decrypt_credentials sample_vault raw = Inr sample_keys"
    using encrypt_opens[OF sample_vault_ok _ k(3), of nonce_env] by auto
  let ?i = "initial_db [] :: db"
  have i: "provider_inv sample_vault ?i" by (simp add: provider_inv_def)
  have r: "read_provider_config sample_vault ?i = Inr \<lparr>pv_credentials = no_credentials, pv_revision = 0, pv_enabled = False, pv_confirmed = False\<rparr>"
    by (simp add: read_provider_config_def)
  have m: "merged_credentials sample_keys no_credentials ?i = Inr sample_keys"
    by (simp add: merged_credentials_def sample_keys_def no_credentials_def)
  have n: "sample_keys \<noteq> no_credentials" by (simp add: sample_keys_def no_credentials_def)
  have open': "check_mutation_allowed e s = Inr ()" if "e_op e = []" "db_control s = db_control ?i" for e and s :: db
    using that by (simp add: check_deployment_gate_def)
  obtain res s' where sv: "save_config sample_vault nonce_env sample_keys True sample_actor ?i = (Inr res, s')"
    and au: "\<forall>a\<in>set (db_audit s'). a \<in> set (db_audit ?i) \<or> au_id a = fresh_id nonce_env ''audit'' 1"
    using save_works[OF r _ k(1,2) _ raw(1), of True sample_actor] m open'[of nonce_env ?i] by (auto simp: active_requests_def)
  from save_success[OF sv] obtain old k' raw' audit where "read_provider_config sample_vault ?i = Inr old"
    "merged_credentials (trim_credentials sample_keys) (pv_credentials old) ?i = Inr k'" "encrypt_credentials sample_vault nonce_env k' = Inr raw'"
    and s': "s' = ?i\<lparr>db_versions := db_versions ?i @ (if k' \<noteq> pv_credentials old then [(pv_revision old + 1, raw')] else []),
        db_provider := \<lparr>pc_revision = pv_revision old + 1, pc_envelope = raw', pc_enabled = True, pc_confirmed = pv_confirmed res,
          pc_updated = now_text nonce_env\<rparr>, db_audit := db_audit ?i @ [audit]\<rparr>" by blast
  then have old: "pv_credentials old = no_credentials" "pv_revision old = 0" "k' = sample_keys" "raw' = raw"
    by (auto simp: r k m raw)
  have "provider_inv sample_vault s'"
    using save_inv[OF i sample_vault_ok, of nonce_env sample_keys True sample_actor] sv k by simp
  moreover have "read_provider_config sample_vault s' = Inr \<lparr>pv_credentials = sample_keys, pv_revision = 1, pv_enabled = True, pv_confirmed = pv_confirmed res\<rparr>"
    by (simp add: read_provider_config_def s' old raw)
  ultimately show ?thesis
    using au by (intro exI[of _ s']) (simp add: s' old raw n check_deployment_gate_def initial_db_def)
qed

lemma sample_begin:
  assumes "db_ops s = []" "db_runtime s = \<lparr>rt_quiesced = False, rt_next_request = []\<rparr>"
    "\<forall>e. e_op e = [] \<longrightarrow> check_mutation_allowed e s = Inr ()" "read_provider_config sample_vault s = Inr cfg" "pv_credentials cfg = sample_keys"
  shows "\<exists>s'. begin_operation sample_vault nonce_env s = (Inr (cfg, random_payment_token (e_id nonce_env 0)), s')"
  using assms by (simp add: begin_operation_def run_tx_def begin_operation_tx_def Let_def sample_keys_def)

lemma operation_pins_credentials_witness:
  "\<exists>s cfg token s'. begin_operation sample_vault nonce_env s = (Inr (cfg, token), s') \<and> pv_credentials cfg = sample_keys \<and>
    check_payment_provider_operation ((sample_env (10 * second))\<lparr>e_op := token\<rparr>) (pv.history sample_vault [PQuiesce True, PRenew (sample_env second) token] s') = Inr ()"
proof -
  obtain s :: db and cfg where s: "provider_inv sample_vault s" "db_ops s = []" "db_runtime s = \<lparr>rt_quiesced = False, rt_next_request = []\<rparr>"
    "\<forall>e. e_op e = [] \<longrightarrow> check_mutation_allowed e s = Inr ()" "read_provider_config sample_vault s = Inr cfg" "pv_credentials cfg = sample_keys"
    using sample_provider_state by blast
  let ?token = "random_payment_token (e_id nonce_env 0)"
  obtain s' where b: "begin_operation sample_vault nonce_env s = (Inr (cfg, ?token), s')" using sample_begin[OF s(2-6)] by blast
  have c: "clock_ok (e_now nonce_env)" "clock_ok (e_now ((sample_env (10 * second))\<lparr>e_op := ?token\<rparr>))" by (simp_all add: clock_sample)
  let ?cs = "[PQuiesce True, PRenew (sample_env second) ?token]"
  have "list_all (provider_ok sample_vault) ?cs" by (simp add: clock_sample)
  moreover have "list_all (\<lambda>c. during (e_now nonce_env div second) ((e_now nonce_env + provider_lease) div second) c \<and> c \<noteq> PEnd ?token) ?cs"
    by (simp add: during_def provider_lease_def)
  moreover have "e_now ((sample_env (10 * second))\<lparr>e_op := ?token\<rparr>) div second < (e_now nonce_env + provider_lease) div second"
    by (simp add: provider_lease_def)
  ultimately have "e_op ((sample_env (10 * second))\<lparr>e_op := ?token\<rparr>) = ?token \<longrightarrow>
      check_payment_provider_operation ((sample_env (10 * second))\<lparr>e_op := ?token\<rparr>) (pv.history sample_vault ?cs s') = Inr ()"
    by (intro operation_pins_credentials[OF b s(1) c(1) _ _ c(2), THEN conjunct2, THEN conjunct1])
  with b s(6) show ?thesis by auto
qed

lemma ended_operation_refused_witness:
  "check_mutation_allowed ((sample_env second)\<lparr>e_op := ''t''\<rparr>)
    (pv.history sample_vault [PRenew (sample_env second) ''t''] (end_operation ''t'' (initial_db []))) = Inl ErrProviderConfigUnavailable"
proof -
  have "dead ''t'' 1 (end_operation ''t'' (initial_db []))" by (simp add: dead_def end_operation_def)
  from ended_operation_refused[OF this, of sample_vault "[PRenew (sample_env second) ''t'']" "(sample_env second)\<lparr>e_op := ''t''\<rparr>"]
  show ?thesis by (simp add: clock_sample later_def)
qed

lemma replaced_keys_verify_witness:
  "\<exists>(e :: env) (s :: db) res s' ks. save_config sample_vault e (sample_keys\<lparr>cr_api := ''a2''\<rparr>) True sample_actor s = (Inr res, s') \<and>
    verification_keys sample_vault ''shop'' (pv_revision res) s' = Inr ks \<and> sample_keys \<in> set ks"
proof -
  obtain s :: db and cfg where s: "provider_inv sample_vault s" "db_ops s = []" "db_orders s = []"
    "\<forall>e. e_op e = [] \<longrightarrow> check_mutation_allowed e s = Inr ()" "pc_envelope (db_provider s) \<noteq> []"
    "\<forall>a\<in>set (db_audit s). au_id a = fresh_id nonce_env ''audit'' 1"
    "read_provider_config sample_vault s = Inr cfg" "pv_credentials cfg = sample_keys" "pv_revision cfg = 1" "fst ` set (db_versions s) = {1}"
    using sample_provider_state by blast
  let ?k = "sample_keys\<lparr>cr_api := ''a2''\<rparr>"
  let ?e = "nonce_env\<lparr>e_id := \<lambda>k. if k = 0 then replicate 12 (CHR ''n'') else replicate 16 (CHR ''m'')\<rparr>"
  have k: "trim_credentials ?k = ?k" "\<not> invalid_credentials ?k" "utf8_credentials ?k"
    using trim_sample_keys[of ?k] by (simp_all add: sample_keys_def)
  obtain raw where raw: "encrypt_credentials sample_vault ?e ?k = Inr raw"
    using encrypt_opens[OF sample_vault_ok _ k(3), of ?e] by auto
  have m: "merged_credentials ?k sample_keys s = Inr ?k" by (simp add: merged_credentials_def sample_keys_def)
  have "length (fresh_id ?e ''audit'' 1) \<noteq> length (fresh_id nonce_env ''audit'' 1)"
    by (simp add: fresh_id_def length_hex_of)
  then have a: "fresh_id ?e ''audit'' 1 \<noteq> fresh_id nonce_env ''audit'' 1" by metis
  have op: "check_mutation_allowed ?e s = Inr ()" using s(4) by simp
  have n: "?k \<noteq> sample_keys" by (simp add: sample_keys_def)
  have "active_requests ?e s = 0" "pv_revision cfg + 1 \<notin> fst ` set (db_versions s)" "\<forall>x\<in>set (db_audit s). au_id x \<noteq> fresh_id ?e ''audit'' 1"
    using s(2,6,9,10) a by (simp_all add: active_requests_def)
  from save_works[OF s(7) op k(1,2) _ raw this, of True sample_actor] m s(8)
  obtain res s' where sv: "save_config sample_vault ?e ?k True sample_actor s = (Inr res, s')" by auto
  have res: "pv_credentials res = ?k"
    using save_success[OF sv] by (auto simp: s(7,8) k m)
  have "pv_credentials res \<noteq> pv_credentials cfg" using res n s(8) by simp
  with replaced_keys_verify[OF sv s(1) sample_vault_ok _ _ s(7,5) this] k res s(8)
  have "\<exists>ks. verification_keys sample_vault ''shop'' (pv_revision res) s' = Inr ks \<and> sample_keys \<in> set ks"
    by (auto simp: sample_keys_def)
  with sv show ?thesis by blast
qed

lemma quiesce_drains_witness:
  "\<exists>x. begin_operation sample_vault nonce_env (pv.history sample_vault [PSlot nonce_env] (set_quiesced True (initial_db []))) =
    (Inl x, pv.history sample_vault [PSlot nonce_env] (set_quiesced True (initial_db [])))"
  using quiesce_drains[of "[PSlot nonce_env]" sample_vault "initial_db []" nonce_env] by simp

lemma slots_spaced_witness:
  "\<exists>t s' t2 s2. request_slot (sample_env second) (initial_db []) = (Inr t, s') \<and> request_slot (sample_env 0) s' = (Inr t2, s2) \<and> t + second \<le> t2"
proof -
  let ?s = "(initial_db [] :: db)\<lparr>db_runtime := \<lparr>rt_quiesced = False, rt_next_request = fmt_nano (second + second)\<rparr>\<rparr>"
  have z: "parse_nano [] = None"
    by (simp add: parse_nano_def parse_layout_def rfc3339_nano_layout_def ymd_layout_def get_year_def)
  have a: "request_slot (sample_env second) (initial_db []) = (Inr second, ?s)"
    by (simp add: request_slot_def run_tx_def request_slot_tx_def check_deployment_gate_def Let_def z)
  have r: "in_range (second + second)" by (simp add: clock_in_range0 clock_sample)
  obtain t2 s2 where b: "request_slot (sample_env 0) ?s = (Inr t2, s2)"
    by (simp add: request_slot_def run_tx_def request_slot_tx_def check_deployment_gate_def Let_def)
  have "second + second \<le> t2"
    using slots_spaced[OF a r, of "[]" "sample_env 0" sample_vault t2 s2] b by simp
  with a b show ?thesis by blast
qed

end
