(* ===== verification/BankDate.thy ===== *)
theory BankDate
  imports GoTime GoText
begin

text \<open>
  internal/bankdate/date.go.  \<open>parse_transaction_date\<close> is \<open>ParseTransactionDate\<close> and
  \<open>normalize_date\<close> is \<open>NormalizeDate\<close>; the location is the offset of Asia/Ho_Chi_Minh in seconds
  (the \<open>FixedZone\<close> of \<open>DefaultLocation\<close>) and \<open>ErrInvalidDate\<close> is \<open>None\<close>.
\<close>

definition default_location :: int where "default_location = 7 * 3600"

record canonical_date =
  cd_day :: string
  cd_iso :: string
  cd_precision :: string
  cd_time :: instant
  cd_has_time :: bool

definition dmy_layout :: "lay list" where
  "dmy_layout = [LDay, LLit CHR ''/'', LMonth, LLit CHR ''/'', LYear]"

definition layouts_with_time :: "lay list list" where
  "layouts_with_time =
    [dmy_layout @ LSpace # hms_layout,
     dmy_layout @ LSpace # hm_layout,
     dmy_layout @ LLit CHR ''T'' # hms_layout,
     ymd_layout @ LSpace # hms_layout,
     ymd_layout @ LLit CHR ''T'' # hms_layout,
     rfc3339_layout,
     rfc3339_nano_layout]"

definition layouts_date_only :: "lay list list" where
  "layouts_date_only = [dmy_layout, ymd_layout]"

fun first_layout :: "lay list list \<Rightarrow> int \<Rightarrow> string \<Rightarrow> instant option" where
  "first_layout [] off s = None"
| "first_layout (l # ls) off s =
     (case parse_layout l off s of Some t \<Rightarrow> Some t | None \<Rightarrow> first_layout ls off s)"

definition parse_transaction_date :: "string \<Rightarrow> int \<Rightarrow> (instant \<times> bool) option" where
  "parse_transaction_date raw off =
     (let s = trim_space raw in
      if s = [] then None
      else case first_layout layouts_with_time off s of
        Some t \<Rightarrow> Some (t, True)
      | None \<Rightarrow> (case first_layout layouts_date_only off s of
          Some t \<Rightarrow> Some (t, False)
        | None \<Rightarrow> None))"

definition normalize_date :: "string \<Rightarrow> int \<Rightarrow> canonical_date option" where
  "normalize_date raw off =
     (case parse_transaction_date raw off of
        None \<Rightarrow> None
      | Some (t, has_time) \<Rightarrow>
          let day = fmt_day off t in
          if has_time
          then Some \<lparr>cd_day = day, cd_iso = fmt_rfc3339 off t, cd_precision = ''datetime'',
                     cd_time = t, cd_has_time = True\<rparr>
          else Some \<lparr>cd_day = day, cd_iso = day, cd_precision = ''date'',
                     cd_time = t, cd_has_time = False\<rparr>)"

section \<open>Normalised dates are stable\<close>

lemma digit_printable: "is_digit c \<Longrightarrow> printable c"
  by (simp add: is_digit_def printable_def)

lemma digit_not_slash: "is_digit c \<Longrightarrow> c \<noteq> CHR ''/''"
  by (auto simp: is_digit_def)

lemma four_elements: "length xs = 4 \<Longrightarrow> \<exists>a b c d. xs = [a, b, c, d]"
  by (auto simp: numeral_eq_Suc length_Suc_conv)

lemma date_text_shape:
  assumes "date_range n"
  obtains a b c d e where "date_text n = a # b # c # d # e" "is_digit a" "is_digit b" "is_digit c" "is_digit d"
    "e \<noteq> []" "is_digit (last e)"
proof -
  obtain y m dd where c: "civil_of_days n = (y, m, dd)" by (metis prod_cases3)
  note v = date_range_year[OF assms c]
  have "0 \<le> dd" "dd < 100" using valid_month_day[OF v(1)] by auto
  then obtain k l where kl: "two dd = [k, l]" "is_digit l" by (rule two_cases)
  have "length (pad 4 (nat y)) = 4" by simp
  then obtain a b c d where p: "pad 4 (nat y) = [a, b, c, d]" using four_elements by blast
  with pad_digits[of 4 "nat y"] have dg: "is_digit a" "is_digit b" "is_digit c" "is_digit d" by simp_all
  have "date_text n = a # b # c # d # CHR ''-'' # two m @ CHR ''-'' # two dd"
    using v by (simp add: date_text_def c year_text_pad p)
  moreover have "CHR ''-'' # two m @ CHR ''-'' # two dd \<noteq> []" "is_digit (last (CHR ''-'' # two m @ CHR ''-'' # two dd))"
    using kl by simp_all
  ultimately show ?thesis by (intro that [of a b c d] dg)
qed

lemma last_zone_text: "zone_text off \<noteq> [] \<and> printable (last (zone_text off))"
proof (cases "off = 0")
  case False
  define z where "z = abs off div 60"
  have "0 \<le> z mod 60" "z mod 60 < 100" by (simp_all add: mod_60_less)
  then obtain a b where "two (z mod 60) = [a, b]" "is_digit b" by (rule two_cases)
  then show ?thesis using False by (simp add: zone_text_def z_def[symmetric] Let_def digit_printable)
qed (simp add: zone_text_def printable_def)

lemma trim_date_text: "date_range n \<Longrightarrow> trim_space (date_text n) = date_text n"
  by (rule trim_space_printable; elim date_text_shape) (auto simp: digit_printable)

lemma trim_rfc3339:
  assumes "secs_range (t div second + off)"
  shows "trim_space (fmt_rfc3339 off t) = fmt_rfc3339 off t"
proof (rule date_text_shape[OF secs_date_range[OF assms]])
  fix a b c d e
  assume "date_text ((t div second + off) div 86400) = a # b # c # d # e" "is_digit a"
  then show ?thesis
    using last_zone_text[of off]
    by (intro trim_space_printable) (auto simp: fmt_rfc3339_def secs_text_def digit_printable)
qed

lemma dmy_fails:
  assumes "date_range n"
  shows "parse_layout (dmy_layout @ ls) off (date_text n @ r) = None"
  using assms digit_not_slash
  by (elim date_text_shape) (auto simp: parse_layout_def dmy_layout_def)

lemma ymd_then:
  assumes "date_range n" "civil_of_days n = (y, m, d)"
  shows "parse_els (ymd_layout @ ls) p (date_text n @ r) = parse_els ls (p\<lparr>p_year := y, p_month := m, p_day := d\<rparr>) r"
  using date_range_year[OF assms] parse_date_parts[of y m d ls p r]
  by (simp add: date_text_def assms(2) year_text_pad)

lemma ymd_stops:
  assumes "date_range n" and "\<And>p. parse_els ls p r = None"
  shows "parse_layout (ymd_layout @ ls) off (date_text n @ r) = None"
proof -
  obtain y m d where c: "civil_of_days n = (y, m, d)" by (metis prod_cases3)
  show ?thesis by (simp add: parse_layout_def ymd_then[OF assms(1) c] assms(2))
qed

lemma ymd_only:
  assumes "date_range n"
  shows "parse_layout ymd_layout off (date_text n) = Some ((86400 * n - off) * second)"
proof -
  obtain y m d where c: "civil_of_days n = (y, m, d)" by (metis prod_cases3)
  note v = date_range_year[OF assms c]
  show ?thesis
    using ymd_then[OF assms c, of "[]" no_parts "[]"] v
    by (simp add: parse_layout_def parts_instant_def no_parts_def)
qed

lemma hms_empty: "parse_els (hms_layout @ ls) p [] = None" "parse_els (hm_layout @ ls) p [] = None"
  by (simp_all add: hms_layout_def hm_layout_def getnum_in_def)

lemma first_layout_rfc3339:
  assumes "secs_range (t div second + off)" "off mod 60 = 0" "abs off < 86400"
  shows "first_layout layouts_with_time off (fmt_rfc3339 off t) = Some (t div second * second)"
proof -
  define n where "n = (t div second + off) div 86400"
  have n: "date_range n" unfolding n_def using assms(1) by (rule secs_date_range)
  obtain r where r: "fmt_rfc3339 off t = date_text n @ CHR ''T'' # r"
    by (simp add: fmt_rfc3339_def secs_text_def n_def)
  have f: "\<not> is_fraction (zone_text off)"
    by (simp add: is_fraction_def zone_text_def Let_def split: list.split)
  have "zone_text off \<noteq> []" using last_zone_text by blast
  then have "parse_layout (ymd_layout @ LLit CHR ''T'' # hms_layout) off (fmt_rfc3339 off t) = None"
    unfolding parse_layout_def fmt_rfc3339_def
    using parse_secs[OF assms(1), of "[]" no_parts "zone_text off"]
    by (simp add: take_fraction_def f split: list.split)
  moreover have "parse_layout rfc3339_layout off (fmt_rfc3339 off t) = Some (t div second * second)"
    using parse_fmt_rfc3339_any[OF assms] .
  moreover have "parse_layout (ymd_layout @ LSpace # hms_layout) off (fmt_rfc3339 off t) = None"
    unfolding r by (rule ymd_stops[OF n]) simp
  ultimately show ?thesis
    unfolding layouts_with_time_def by (simp add: dmy_fails[OF n, of _ _ "CHR ''T'' # r", folded r])
qed

lemma first_layout_date:
  assumes "date_range n"
  shows "first_layout layouts_with_time off (date_text n) = None"
    and "first_layout layouts_date_only off (date_text n) = Some ((86400 * n - off) * second)"
proof -
  have d: "parse_layout (dmy_layout @ ls) off (date_text n) = None" for ls
    using dmy_fails[OF assms, of ls off "[]"] by simp
  have y: "parse_layout (ymd_layout @ LSpace # hms_layout) off (date_text n) = None"
    "parse_layout (ymd_layout @ LLit c # ls) off (date_text n) = None" for c ls
    using ymd_stops[OF assms, of _ "[]" off] hms_empty[of "[]"] by simp_all
  show "first_layout layouts_with_time off (date_text n) = None"
    by (simp add: layouts_with_time_def d y rfc3339_layout_def rfc3339_nano_layout_def)
  show "first_layout layouts_date_only off (date_text n) = Some ((86400 * n - off) * second)"
    using d[of "[]"] by (simp add: layouts_date_only_def ymd_only assms)
qed

lemma date_only_midnight:
  assumes "first_layout layouts_date_only off s = Some t"
  shows "\<exists>n. t = (86400 * n - off) * second"
proof -
  have "\<exists>n. u = (86400 * n - off) * second"
    if "l \<in> {dmy_layout, ymd_layout}" "parse_layout l off s = Some u" for l u
    using that by (auto simp: parse_layout_def dmy_layout_def ymd_layout_def parts_instant_def no_parts_def
      split: option.splits list.splits if_splits prod.splits)
  then show ?thesis using assms by (auto simp: layouts_date_only_def split: option.splits)
qed

text \<open>
  C20.  \<open>NormalizeDate\<close> is stable: the canonical \<open>transactionDate\<close> it produces is itself accepted and
  normalises to the same day, the same text and the same precision, and to the same instant (up to
  the fraction of a second that RFC3339 does not print).
\<close>

theorem normalize_date_stable:
  assumes "normalize_date raw off = Some c"
    and "secs_range (cd_time c div second + off)" "off mod 60 = 0" "abs off < 86400"
  shows "normalize_date (cd_iso c) off = Some (c\<lparr>cd_time := cd_time c div second * second\<rparr>)"
proof -
  obtain t h where p: "parse_transaction_date raw off = Some (t, h)"
    using assms(1) by (auto simp: normalize_date_def split: option.splits prod.splits)
  then have c: "cd_time c = t" "cd_has_time c = h" using assms(1) by (auto simp: normalize_date_def Let_def split: if_splits)
  define n where "n = (t div second + off) div 86400"
  have n: "date_range n" unfolding n_def using assms(2) by (intro secs_date_range) (simp add: c)
  show ?thesis
  proof (cases h)
    case True
    have "fmt_rfc3339 off t \<noteq> []" using last_zone_text[of off] by (simp add: fmt_rfc3339_def)
    then have "parse_transaction_date (fmt_rfc3339 off t) off = Some (t div second * second, True)"
      using first_layout_rfc3339[of t off] trim_rfc3339[of t off] assms(2-4)
      by (simp add: parse_transaction_date_def c)
    then show ?thesis
      using assms(1) p True by (auto simp: normalize_date_def Let_def fmt_day_def fmt_rfc3339_def)
  next
    case False
    then have "first_layout layouts_date_only off (trim_space raw) = Some t"
      using p by (auto simp: parse_transaction_date_def Let_def split: if_splits option.splits)
    then obtain k where k: "t = (86400 * k - off) * second" using date_only_midnight by blast
    then have t: "t div second + off = 86400 * k" by simp
    then have "n = k" by (simp add: n_def)
    moreover have "date_text n \<noteq> []" using n by (rule date_text_shape) simp
    ultimately have "parse_transaction_date (date_text n) off = Some (t, False)"
      using first_layout_date[OF n, of off] trim_date_text[OF n] by (simp add: parse_transaction_date_def k)
    moreover have "t div second * second = t" using k by simp
    ultimately show ?thesis
      using assms(1) p False by (auto simp: normalize_date_def Let_def fmt_day_def n_def)
  qed
qed

lemmas parse_eval = parse_layout_def dmy_layout_def ymd_layout_def hms_layout_def hm_layout_def rfc3339_layout_def
  rfc3339_nano_layout_def getnum_in_def is_digit_def digit_val_def get_year_def num_of_def take_fraction_def
  is_fraction_def no_parts_def parts_instant_def valid_date_def days_in_def month_lengths_def leap_def
  days_of_civil_def days_before_year_def

lemma parse_example: "parse_transaction_date ''31/12/2024 23:59:58'' default_location = Some (1735664398 * second, True)"
proof -
  have "trim_space ''31/12/2024 23:59:58'' = ''31/12/2024 23:59:58''"
    by (rule trim_space_printable) (simp_all add: printable_def)
  moreover have "parse_layout (dmy_layout @ LSpace # hms_layout) default_location ''31/12/2024 23:59:58'' =
      Some (1735664398 * second)"
    by (simp add: parse_eval default_location_def)
  ultimately show ?thesis by (simp add: parse_transaction_date_def layouts_with_time_def)
qed

lemma normalize_date_stable_witness:
  "\<exists>c. normalize_date ''31/12/2024 23:59:58'' default_location = Some c \<and>
    normalize_date (cd_iso c) default_location = Some (c\<lparr>cd_time := 1735664398 * second\<rparr>)"
proof -
  obtain c where c: "normalize_date ''31/12/2024 23:59:58'' default_location = Some c"
      "cd_time c = 1735664398 * second"
    by (simp add: normalize_date_def parse_example Let_def)
  from normalize_date_stable[OF c(1)] c show ?thesis
    by (simp add: default_location_def secs_range_def)
qed

end
