(* ===== verification/Settlement.thy ===== *)
theory Settlement
  imports Events BankDate
begin

text \<open>
  internal/storage/payos_receipts.go and settlement.go: the inbox of verified callbacks and
  \<open>SettlePayment\<close>, the only write path of payOS money.  A step of a transaction returns an error, which
  rolls everything back, or the result and the new database.  \<open>res.Order\<close> of a settlement that found no
  order is the zero value in Go and \<open>None\<close> here.
\<close>

section \<open>The inbox of verified callbacks\<close>

record callback =
  cb_data :: "(string \<times> jval) list option"
  cb_code :: int
  cb_link :: string
  cb_reference :: string
  cb_reason :: string

definition canonical_payment_callback :: "env \<Rightarrow> callback \<Rightarrow> err + (string \<times> string)" where
  "canonical_payment_callback e cb =
     (case cb_data cb of
        None \<Rightarrow> Inl (ErrText ''verified callback data and reason required'')
      | Some kvs \<Rightarrow>
          if cb_reason cb = [] then Inl (ErrText ''verified callback data and reason required'')
          else (let payload = json_text (JObj kvs) in Inr (sha_hex e payload, payload)))"

definition wake_payment_order_inbox_tx :: "env \<Rightarrow> int \<Rightarrow> db \<Rightarrow> err + db" where
  "wake_payment_order_inbox_tx e code s =
     (case payment_order_by_code code s of
        Inl _ \<Rightarrow> Inr s
      | Inr r \<Rightarrow>
          if o_status r = ''PAID'' then Inr s
          else bnd (if o_lease r = [] then Inr (e_now e)
              else (case parse_nano (o_lease r) of None \<Rightarrow> Inl ErrParse
                | Some lease \<Rightarrow> Inr (if e_now e < lease then lease else e_now e))) (\<lambda>due.
            Inr (s\<lparr>db_orders := update_where (\<lambda>x. o_id x = o_id r \<and> o_status x \<noteq> ''PAID'')
              (\<lambda>x. x\<lparr>o_next := fmt_nano due, o_updated := now_text e\<rparr>) (db_orders s)\<rparr>)))"

definition bind_reasons :: "string list" where
  "bind_reasons = [''AWAITING_ORDER_BIND'', ''PAYMENT_DETAILS_PENDING'', ''UNKNOWN_ORDER'']"

definition insert_payment_inbox_tx :: "env \<Rightarrow> callback \<Rightarrow> db \<Rightarrow> err + (string \<times> db)" where
  "insert_payment_inbox_tx e cb s =
     bnd (canonical_payment_callback e cb) (\<lambda>(hash, payload).
     if \<exists>i\<in>set (db_inbox s). ib_hash i = hash
     then Inr (hash,
       if cb_reason cb \<notin> set bind_reasons
       then s\<lparr>db_inbox := update_where (\<lambda>i. ib_hash i = hash \<and> ib_processed i = [] \<and> ib_reason i \<in> set bind_reasons)
              (\<lambda>i. i\<lparr>ib_reason := cb_reason cb\<rparr>) (db_inbox s)\<rparr>
       else s)
     else
       let s1 = s\<lparr>db_inbox := db_inbox s @ [\<lparr>ib_hash = hash, ib_code = cb_code cb, ib_link = cb_link cb,
             ib_reference = cb_reference cb, ib_payload = payload, ib_reason = cb_reason cb, ib_received = now_text e,
             ib_processed = []\<rparr>]\<rparr>
       in if cb_reason cb = ''AWAITING_ORDER_BIND'' \<or> cb_reason cb = ''PAYMENT_DETAILS_PENDING''
          then bnd (wake_payment_order_inbox_tx e (cb_code cb) s1) (\<lambda>s2.
            Inr (hash, if cb_reason cb = ''PAYMENT_DETAILS_PENDING''
              then s2\<lparr>db_orders := update_where (\<lambda>x. o_code x = cb_code cb \<and> o_status x \<noteq> ''PAID'')
                     (\<lambda>x. x\<lparr>o_error := ''PAYMENT_DETAILS_PENDING''\<rparr>) (db_orders s2)\<rparr>
              else s2))
          else Inr (hash, s1))"

definition save_verified_payment_callback :: "env \<Rightarrow> callback \<Rightarrow> db \<Rightarrow> (err + string) \<times> db" where
  "save_verified_payment_callback e cb =
     run_tx (\<lambda>s. bnd (check_mutation_allowed e s) (\<lambda>_. insert_payment_inbox_tx e cb s))"

text \<open>\<open>PaymentReview\<close> leaves the payload out.\<close>

record payment_review =
  pr_hash :: string
  pr_code :: int
  pr_link :: string
  pr_reference :: string
  pr_reason :: string
  pr_received :: string
  pr_processed :: string

definition review_of :: "inbox_row \<Rightarrow> payment_review" where
  "review_of i = \<lparr>pr_hash = ib_hash i, pr_code = ib_code i, pr_link = ib_link i, pr_reference = ib_reference i,
     pr_reason = ib_reason i, pr_received = ib_received i, pr_processed = ib_processed i\<rparr>"

definition list_payment_reviews :: "string \<Rightarrow> int \<Rightarrow> db \<Rightarrow> err + payment_review page" where
  "list_payment_reviews cursor limit s =
     (case list_page ib_received ib_hash cursor limit (filter (\<lambda>i. ib_processed i = []) (db_inbox s)) of
        None \<Rightarrow> Inl (ErrText ''invalid pagination cursor'')
      | Some p \<Rightarrow> Inr \<lparr>pg_items = map review_of (pg_items p), pg_next = pg_next p\<rparr>)"

definition pending_payment_callbacks :: "int \<Rightarrow> db \<Rightarrow> inbox_row list" where
  "pending_payment_callbacks code s = sort_key (\<lambda>i. (ib_received i, ib_hash i))
     (filter (\<lambda>i. ib_code i = code \<and> ib_processed i = [] \<and>
        (ib_reason i = ''AWAITING_ORDER_BIND'' \<or> ib_reason i = ''PAYMENT_DETAILS_PENDING'')) (db_inbox s))"

fun wake_codes :: "env \<Rightarrow> int list \<Rightarrow> db \<Rightarrow> err + db" where
  "wake_codes e [] s = Inr s"
| "wake_codes e (code # codes) s =
     bnd (wake_payment_order_inbox_tx e code (s\<lparr>db_inbox :=
        update_where (\<lambda>i. ib_code i = code \<and> ib_reason i = ''UNKNOWN_ORDER'' \<and> ib_processed i = [])
          (\<lambda>i. i\<lparr>ib_reason := ''AWAITING_ORDER_BIND''\<rparr>) (db_inbox s)\<rparr>)) (wake_codes e codes)"

definition wakeable_codes :: "string \<Rightarrow> db \<Rightarrow> int list" where
  "wakeable_codes channel s = take 20 (sort (remdups (map ib_code
     (filter (\<lambda>i. ib_reason i = ''UNKNOWN_ORDER'' \<and> ib_processed i = [] \<and>
        (\<exists>r\<in>set (db_orders s). o_code r = ib_code i \<and> o_channel r = channel)) (db_inbox s)))))"

definition wake_pending_payment_callbacks :: "env \<Rightarrow> string \<Rightarrow> db \<Rightarrow> (err + unit) \<times> db" where
  "wake_pending_payment_callbacks e channel =
     run_tx (\<lambda>s. bnd (check_mutation_allowed e s) (\<lambda>_.
       bnd (wake_codes e (wakeable_codes channel s) s) (\<lambda>s'. Inr ((), s'))))"

section \<open>Settlement\<close>

definition settlement_location :: int where "settlement_location = 7 * 60 * 60"

record evidence =
  sv_code :: int
  sv_link :: string
  sv_reference :: string
  sv_amount :: int
  sv_at :: instant
  sv_account :: string
  sv_virtual :: string

record settlement_input =
  si_channel :: string
  si_namespace :: string
  si_code :: int
  si_link :: string
  si_reference :: string
  si_amount :: int
  si_at :: instant
  si_account :: string
  si_virtual :: string
  si_source :: string
  si_detected :: instant
  si_inbox :: string
  si_callback :: "callback option"
  si_get :: "evidence option"

record settlement_result =
  sr_order :: "order option"
  sr_duplicate :: bool
  sr_event :: "event_note option"
  sr_review :: string
  sr_inbox :: string

definition no_result :: settlement_result where
  "no_result = \<lparr>sr_order = None, sr_duplicate = False, sr_event = None, sr_review = [], sr_inbox = []\<rparr>"

definition effective_payment_account :: "string \<Rightarrow> string \<Rightarrow> string" where
  "effective_payment_account account virtual = (if virtual \<noteq> [] then virtual else account)"

definition settlement_canonical_hash :: "env \<Rightarrow> settlement_input \<Rightarrow> string" where
  "settlement_canonical_hash e inp = sha_hex e (json_text (JArr [JStr (si_channel inp), JStr (si_link inp), JStr (si_reference inp),
     JNum (int_text (si_amount inp)), JStr ''VND'', JStr (fmt_nano (si_at inp))]))"

definition settlement_get_matches :: "settlement_input \<Rightarrow> bool" where
  "settlement_get_matches inp = (case si_get inp of
     None \<Rightarrow> False
   | Some v \<Rightarrow> sv_code v = si_code inp \<and> sv_link v = si_link inp \<and> sv_reference v = si_reference inp \<and>
       sv_amount v = si_amount inp \<and> sv_at v = si_at inp \<and>
       effective_payment_account (sv_account v) (sv_virtual v) \<noteq> [] \<and>
       effective_payment_account (sv_account v) (sv_virtual v) = effective_payment_account (si_account inp) (si_virtual inp))"

definition settlement_review ::
  "env \<Rightarrow> settlement_input \<Rightarrow> settlement_result \<Rightarrow> string \<Rightarrow> db \<Rightarrow> err + (settlement_result \<times> db)" where
  "settlement_review e inp res reason s =
     (case si_callback inp of
        Some cb \<Rightarrow> bnd (insert_payment_inbox_tx e (cb\<lparr>cb_reason := reason\<rparr>) s) (\<lambda>(hash, s').
          Inr (res\<lparr>sr_review := reason, sr_inbox := hash\<rparr>, s'))
      | None \<Rightarrow>
          if si_inbox inp = [] then Inl (SettlementReview reason)
          else let p = (\<lambda>i. ib_hash i = si_inbox inp \<and> ib_processed i = []) in
            if count_where p (db_inbox s) \<noteq> 1 then Inl ErrNoRows
            else Inr (res\<lparr>sr_review := reason, sr_inbox := si_inbox inp\<rparr>,
              s\<lparr>db_inbox := update_where p (\<lambda>i. i\<lparr>ib_reason := reason\<rparr>) (db_inbox s)\<rparr>))"

definition mark_settlement_inbox_processed :: "env \<Rightarrow> string \<Rightarrow> db \<Rightarrow> err + db" where
  "mark_settlement_inbox_processed e hash s =
     (if hash = [] then Inr s
      else if count_where (\<lambda>i. ib_hash i = hash) (db_inbox s) \<noteq> 1 then Inl ErrNoRows
      else Inr (s\<lparr>db_inbox := update_where (\<lambda>i. ib_hash i = hash)
        (\<lambda>i. i\<lparr>ib_processed := (if ib_processed i = [] then now_text e else ib_processed i)\<rparr>) (db_inbox s)\<rparr>))"

definition jstr :: "jval option \<Rightarrow> string" where
  "jstr v = (case v of Some (JStr x) \<Rightarrow> x | _ \<Rightarrow> [])"

definition jint :: "jval option \<Rightarrow> int option" where
  "jint v = (case v of Some (JNum n) \<Rightarrow> parse_int64 n | _ \<Rightarrow> None)"

definition settlement_date :: "string \<Rightarrow> instant option" where
  "settlement_date x = (case parse_layout (ymd_layout @ LSpace # hms_layout) settlement_location x of
     Some t \<Rightarrow> Some t | None \<Rightarrow> parse_nano x)"

definition payload_matches :: "settlement_input \<Rightarrow> (string \<times> jval) list \<Rightarrow> bool" where
  "payload_matches inp kvs \<longleftrightarrow>
     jint (map_of kvs ''orderCode'') = Some (si_code inp) \<and>
     map_of kvs ''paymentLinkId'' = Some (JStr (si_link inp)) \<and> map_of kvs ''reference'' = Some (JStr (si_reference inp)) \<and>
     jint (map_of kvs ''amount'') = Some (si_amount inp) \<and>
     map_of kvs ''currency'' = Some (JStr ''VND'') \<and> map_of kvs ''code'' = Some (JStr ''00'') \<and>
     effective_payment_account (jstr (map_of kvs ''accountNumber'')) (jstr (map_of kvs ''virtualAccountNumber'')) =
       effective_payment_account (si_account inp) (si_virtual inp) \<and>
     settlement_date (jstr (map_of kvs ''transactionDateTime'')) = Some (si_at inp)"

definition settlement_inbox_matches :: "settlement_input \<Rightarrow> db \<Rightarrow> err + bool" where
  "settlement_inbox_matches inp s =
     (case find (\<lambda>i. ib_hash i = si_inbox inp) (db_inbox s) of
        None \<Rightarrow> Inl ErrNoRows
      | Some i \<Rightarrow>
          if ib_code i \<noteq> si_code inp \<or> ib_link i \<noteq> si_link inp \<or> ib_reference i \<noteq> si_reference inp \<or>
             ib_reason i \<notin> set bind_reasons then Inr False
          else case json_decode_map (ib_payload i) of
            None \<Rightarrow> Inl (ErrText ''decode verified payment inbox'')
          | Some kvs \<Rightarrow> Inr (payload_matches inp kvs))"

definition settlement_namespace :: "env \<Rightarrow> settlement_input \<Rightarrow> string" where
  "settlement_namespace e inp = (if si_namespace inp = [] then sha_hex16 e (si_channel inp) else si_namespace inp)"

definition valid_namespace :: "string \<Rightarrow> bool" where
  "valid_namespace ns \<longleftrightarrow> length ns = 32 \<and> list_all (\<lambda>c. hex_value c \<noteq> None) ns"

definition settlement_data :: "settlement_input \<Rightarrow> order \<Rightarrow> string \<Rightarrow> string \<Rightarrow> jval" where
  "settlement_data inp r tid created = JObj (map (\<lambda>(k, v). (k, JStr v))
     [(''bank'', ''KienlongBank''), (''provider'', ''PAYOS''), (''orderCode'', int_text (o_code r)),
      (''paymentOrigin'', o_origin r), (''paymentLinkId'', si_link inp), (''transactionId'', tid),
      (''transactionNumber'', si_reference inp), (''credit'', int_text (si_amount inp)), (''debit'', ''0''),
      (''currency'', ''VND''), (''transactionDate'', fmt_nano (si_at inp)),
      (''transactionDay'', fmt_day settlement_location (si_at inp)), (''datePrecision'', ''datetime''),
      (''source'', si_source inp), (''description'', o_description r),
      (''detectedAt'', if si_detected inp = zero_time then created else fmt_nano (si_detected inp))])"

definition settled_transaction :: "env \<Rightarrow> settlement_input \<Rightarrow> order \<Rightarrow> string \<Rightarrow> string \<Rightarrow> transaction" where
  "settled_transaction e inp r tid key =
     (let iso = fmt_nano (si_at inp) in
      \<lparr>t_id = tid, t_connection = ''payos-klb'', t_key = key, t_hash = settlement_canonical_hash e inp, t_date = iso, t_effective = iso,
       t_debit = 0, t_credit = si_amount inp, t_balance = None, t_description = o_description r, t_parser = ''payos-v1'',
       t_baseline = ''NONE'', t_first_seen = now_text e, t_iso = iso, t_day = fmt_day settlement_location (si_at inp),
       t_precision = ''datetime'', t_source = si_source inp\<rparr>)"

definition settled_receipt :: "env \<Rightarrow> settlement_input \<Rightarrow> order \<Rightarrow> string \<Rightarrow> receipt" where
  "settled_receipt e inp r tid =
     \<lparr>rc_channel = si_channel inp, rc_reference = si_reference inp, rc_order = o_id r, rc_link = si_link inp, rc_amount = si_amount inp,
      rc_at = fmt_nano (si_at inp), rc_hash = settlement_canonical_hash e inp, rc_transaction = tid, rc_received = now_text e\<rparr>"

definition paid_order :: "env \<Rightarrow> settlement_input \<Rightarrow> string \<Rightarrow> order \<Rightarrow> order" where
  "paid_order e inp tid x = x\<lparr>o_status := ''PAID'', o_link := si_link inp,
     o_account := effective_payment_account (si_account inp) (si_virtual inp), o_transaction := tid,
     o_paid_at := fmt_nano (si_at inp), o_updated := now_text e, o_error := [], o_next := []\<rparr>"

text \<open>The financial writes of a settlement that passed every check.\<close>

definition settle_commit ::
  "env \<Rightarrow> settlement_input \<Rightarrow> order \<Rightarrow> db \<Rightarrow> err + (settlement_result \<times> db)" where
  "settle_commit e inp r s =
     (let ns = settlement_namespace e inp in
      if \<not> valid_namespace ns then Inl (ErrText ''invalid payment channel namespace'')
      else let key = ''PAYOS:'' @ ns @ '':'' @ si_reference inp; tid = fresh_id e ''txn'' 0 in
      if \<exists>t\<in>set (db_transactions s). t_id t = tid \<or> t_connection t = ''payos-klb'' \<and> t_key t = key then Inl ErrConstraint
      else if \<exists>c\<in>set (db_receipts s). rc_channel c = si_channel inp \<and> rc_reference c = si_reference inp \<or> rc_transaction c = tid
      then Inl ErrConstraint
      else let s1 = s\<lparr>db_transactions := db_transactions s @ [settled_transaction e inp r tid key],
                     db_receipts := db_receipts s @ [settled_receipt e inp r tid],
                     db_orders := update_where (\<lambda>x. o_id x = o_id r) (paid_order e inp tid) (db_orders s)\<rparr>
      in if link_clash (db_orders s1) \<or> transaction_clash (db_orders s1) then Inl ErrConstraint
      else bnd (emit_transaction_event_tx e 1 tid ''bank.transaction.credit'' (''payos:'' @ ns) key
             (settlement_data inp r tid (now_text e)) (now_text e) s1) (\<lambda>(note, s2).
        case note of None \<Rightarrow> Inl (ErrText ''new payment transaction did not produce an event'')
        | Some n \<Rightarrow> bnd (mark_settlement_inbox_processed e (si_inbox inp) s2) (\<lambda>s3.
            bnd (payment_order (o_id r) s3) (\<lambda>r'.
            Inr (\<lparr>sr_order = Some r', sr_duplicate = False, sr_event = Some n, sr_review = [], sr_inbox = []\<rparr>, s3)))))"

text \<open>The receipt that already used the reference.\<close>

definition receipt_of :: "settlement_input \<Rightarrow> db \<Rightarrow> receipt option" where
  "receipt_of inp s = find (\<lambda>c. rc_channel c = si_channel inp \<and> rc_reference c = si_reference inp) (db_receipts s)"

text \<open>The end of a settlement whose evidence fits its order: the replay of a known receipt, or the commit.\<close>

definition settle_accepted ::
  "env \<Rightarrow> settlement_input \<Rightarrow> order \<Rightarrow> db \<Rightarrow> err + (settlement_result \<times> db)" where
  "settle_accepted e inp r s =
     (let res = no_result\<lparr>sr_order := Some r\<rparr> in
      case receipt_of inp s of
        Some c \<Rightarrow>
          if o_transaction r \<noteq> rc_transaction c \<or> o_status r \<noteq> ''PAID''
          then Inl (ErrText ''payment receipt/order invariant violated'')
          else bnd (mark_settlement_inbox_processed e (si_inbox inp) s) (\<lambda>s'. Inr (res\<lparr>sr_duplicate := True\<rparr>, s'))
      | None \<Rightarrow>
          if o_status r = ''PAID'' \<or> o_transaction r \<noteq> [] then settlement_review e inp res ''EXTRA_PAYMENT_REVIEW'' s
          else settle_commit e inp r s)"

text \<open>The checks of the evidence against the order it names.\<close>

definition settle_order ::
  "env \<Rightarrow> settlement_input \<Rightarrow> order \<Rightarrow> db \<Rightarrow> err + (settlement_result \<times> db)" where
  "settle_order e inp r s =
     (let res = no_result\<lparr>sr_order := Some r\<rparr>;
          account = effective_payment_account (si_account inp) (si_virtual inp);
          review = (\<lambda>reason. settlement_review e inp res reason s)
      in if o_channel r \<noteq> si_channel inp then review ''PAYMENT_MISMATCH''
       else if (case receipt_of inp s of None \<Rightarrow> False
           | Some c \<Rightarrow> rc_hash c \<noteq> settlement_canonical_hash e inp \<or> rc_order c \<noteq> o_id r)
       then review ''REFERENCE_CONFLICT''
       else if o_amount r \<noteq> si_amount inp \<or> (o_link r \<noteq> [] \<and> o_link r \<noteq> si_link inp)
       then review ''PAYMENT_MISMATCH''
       else if account = [] then review ''PAYMENT_DETAILS_PENDING''
       else if o_account r \<noteq> [] \<and> o_account r \<noteq> account then review ''PAYMENT_MISMATCH''
       else if si_get inp \<noteq> None \<and> \<not> settlement_get_matches inp then review ''PAYMENT_MISMATCH''
       else if (o_link r = [] \<or> o_account r = []) \<and> \<not> settlement_get_matches inp
       then review ''AWAITING_ORDER_BIND''
       else if o_status r \<in> {''CANCELLED'', ''EXPIRED'', ''FAILED''} \<and> receipt_of inp s = None \<and> \<not> settlement_get_matches inp
       then review ''PAYMENT_DETAILS_PENDING''
       else if si_inbox inp \<noteq> [] \<and> \<not> settlement_get_matches inp
       then review ''PAYMENT_DETAILS_PENDING''
       else bnd (if si_inbox inp \<noteq> [] then settlement_inbox_matches inp s else Inr True) (\<lambda>matches.
         if \<not> matches then review ''PAYMENT_MISMATCH'' else settle_accepted e inp r s))"

definition settle_payment_tx :: "env \<Rightarrow> settlement_input \<Rightarrow> db \<Rightarrow> err + (settlement_result \<times> db)" where
  "settle_payment_tx e inp s =
     bnd (check_mutation_allowed e s) (\<lambda>_.
     if si_at inp = zero_time then settlement_review e inp no_result ''INVALID_TRANSACTION_DATE'' s
     else if si_channel inp = [] \<or> si_code inp \<le> 0 \<or> si_link inp = [] \<or> trim_space (si_reference inp) = [] \<or>
       si_amount inp \<le> 0 \<or> (si_source inp \<noteq> ''REALTIME'' \<and> si_source inp \<noteq> ''CATCH_UP'')
     then settlement_review e inp no_result ''PAYMENT_MISMATCH'' s
     else case payment_order_by_code (si_code inp) s of
       Inl _ \<Rightarrow> settlement_review e inp no_result ''UNKNOWN_ORDER'' s
     | Inr r \<Rightarrow> settle_order e inp r s)"

definition settle_payment :: "env \<Rightarrow> settlement_input \<Rightarrow> db \<Rightarrow> (err + settlement_result) \<times> db" where
  "settle_payment e inp s = (case run_tx (settle_payment_tx e inp) s of
     (Inl x, s') \<Rightarrow> (Inl x, s')
   | (Inr res, s') \<Rightarrow>
       (Inr (res\<lparr>sr_event := map_option (\<lambda>n. n\<lparr>n_committed := now_text e\<rparr>) (sr_event res)\<rparr>), s'))"

section \<open>Steps that move no money\<close>

definition books_same :: "db \<Rightarrow> db \<Rightarrow> bool" where
  "books_same s s' \<longleftrightarrow> db_receipts s' = db_receipts s \<and> db_transactions s' = db_transactions s \<and> db_events s' = db_events s \<and>
     db_deliveries s' = db_deliveries s \<and> db_journal s' = db_journal s \<and> db_journal_seq s' = db_journal_seq s"

lemma books_same_refl [simp]: "books_same s s"
  by (simp add: books_same_def)

lemma books_same_trans: "books_same a b \<Longrightarrow> books_same b c \<Longrightarrow> books_same a c"
  by (simp add: books_same_def)

lemma paid_before_trans: "paid_before a b \<Longrightarrow> paid_before b c \<Longrightarrow> paid_before a c"
  unfolding paid_before_def by (metis (no_types))

lemma orders_step_trans: "orders_step a b \<Longrightarrow> orders_step b c \<Longrightarrow> orders_step a c"
  unfolding orders_step_def using orders_extend_trans paid_before_trans by blast

lemma orders_step_same: "orders_inv (db_orders s) \<Longrightarrow> db_orders s' = db_orders s \<Longrightarrow> orders_step s s'"
  by (simp add: orders_step_def)

definition quiet_step :: "db \<Rightarrow> db \<Rightarrow> bool" where
  "quiet_step s s' \<longleftrightarrow> orders_step s s' \<and> books_same s s'"

lemma quiet_refl: "orders_inv (db_orders s) \<Longrightarrow> quiet_step s s"
  by (simp add: quiet_step_def orders_step_refl)

lemma quiet_trans: "quiet_step a b \<Longrightarrow> quiet_step b c \<Longrightarrow> quiet_step a c"
  unfolding quiet_step_def using orders_step_trans books_same_trans by blast

lemma quiet_inbox: "orders_inv (db_orders s) \<Longrightarrow> quiet_step s (s\<lparr>db_inbox := i\<rparr>)"
  by (simp add: quiet_step_def orders_step_same books_same_def)

lemma quiet_inv: "quiet_step s s' \<Longrightarrow> orders_inv (db_orders s')"
  by (simp add: quiet_step_def orders_step_def)

lemma wake_quiet:
  assumes "wake_payment_order_inbox_tx e code s = Inr s'" "orders_inv (db_orders s)" "clock_ok (e_now e)"
  shows "quiet_step s s'"
proof (cases "payment_order_by_code code s")
  case (Inl x)
  with assms show ?thesis by (simp add: wake_payment_order_inbox_tx_def quiet_refl)
next
  case (Inr r)
  then have wf: "order_wf r" using payment_order_by_code_in orders_inv_wf assms(2) by blast
  show ?thesis
  proof (cases "o_status r = ''PAID''")
    case True
    with assms Inr show ?thesis by (simp add: wake_payment_order_inbox_tx_def quiet_refl)
  next
    case False
    with assms(1) Inr obtain due where due: "due = e_now e \<or> o_lease r \<noteq> [] \<and> parse_nano (o_lease r) = Some due" and
      s': "s' = s\<lparr>db_orders := update_where (\<lambda>x. o_id x = o_id r \<and> o_status x \<noteq> ''PAID'')
        (\<lambda>x. x\<lparr>o_next := fmt_nano due, o_updated := now_text e\<rparr>) (db_orders s)\<rparr>"
      by (auto simp: wake_payment_order_inbox_tx_def bnd_Inr split: if_splits option.splits)
    have "in_range due"
      using due wf clock_in_range0[OF assms(3)] by (auto simp: order_wf_def dest: stamp_parse)
    then have st: "stamp_text (fmt_nano due)" by (rule stamp_now)
    have up: "db_orders s' = update_where (\<lambda>x. o_id x = o_id r \<and> o_status x \<noteq> ''PAID'')
        (\<lambda>x. x\<lparr>o_next := fmt_nano due, o_updated := now_text e\<rparr>) (db_orders s)"
      by (simp add: s')
    have "orders_step s s'"
      by (rule orders_step_update[OF assms(2) up]) (use st in \<open>auto simp: order_wf_def order_extends_def\<close>)
    then show ?thesis by (simp add: quiet_step_def books_same_def s')
  qed
qed

lemma insert_inbox_quiet:
  assumes "insert_payment_inbox_tx e cb s = Inr (h, s')" "orders_inv (db_orders s)" "clock_ok (e_now e)"
  shows "quiet_step s s'"
proof -
  obtain hash payload where c: "canonical_payment_callback e cb = Inr (hash, payload)"
    using assms(1) by (auto simp: insert_payment_inbox_tx_def bnd_Inr)
  show ?thesis
  proof (cases "\<exists>i\<in>set (db_inbox s). ib_hash i = hash")
    case True
    with assms c show ?thesis
      by (auto simp: insert_payment_inbox_tx_def quiet_inbox quiet_refl)
  next
    case False
    define s1 where "s1 = s\<lparr>db_inbox := db_inbox s @ [\<lparr>ib_hash = hash, ib_code = cb_code cb, ib_link = cb_link cb,
      ib_reference = cb_reference cb, ib_payload = payload, ib_reason = cb_reason cb, ib_received = now_text e, ib_processed = []\<rparr>]\<rparr>"
    have q1: "quiet_step s s1" unfolding s1_def using assms(2) by (rule quiet_inbox)
    show ?thesis
    proof (cases "cb_reason cb = ''AWAITING_ORDER_BIND'' \<or> cb_reason cb = ''PAYMENT_DETAILS_PENDING''")
      case True
      with assms(1) c False obtain s2 where w: "wake_payment_order_inbox_tx e (cb_code cb) s1 = Inr s2" and
        s': "s' = (if cb_reason cb = ''PAYMENT_DETAILS_PENDING''
              then s2\<lparr>db_orders := update_where (\<lambda>x. o_code x = cb_code cb \<and> o_status x \<noteq> ''PAID'')
                     (\<lambda>x. x\<lparr>o_error := ''PAYMENT_DETAILS_PENDING''\<rparr>) (db_orders s2)\<rparr>
              else s2)"
        by (auto simp: insert_payment_inbox_tx_def Let_def bnd_Inr s1_def)
      have q2: "quiet_step s1 s2" using w quiet_inv[OF q1] assms(3) by (rule wake_quiet)
      have err: "orders_step s2 (s2\<lparr>db_orders := update_where (\<lambda>x. o_code x = cb_code cb \<and> o_status x \<noteq> ''PAID'')
          (\<lambda>x. x\<lparr>o_error := ''PAYMENT_DETAILS_PENDING''\<rparr>) (db_orders s2)\<rparr>)"
        by (rule orders_step_update[OF quiet_inv[OF q2], of _ "\<lambda>x. o_code x = cb_code cb \<and> o_status x \<noteq> ''PAID''"
            "\<lambda>x. x\<lparr>o_error := ''PAYMENT_DETAILS_PENDING''\<rparr>"])
          (simp_all add: order_wf_def order_extends_def)
      have "quiet_step s2 s'"
      proof (cases "cb_reason cb = ''PAYMENT_DETAILS_PENDING''")
        case True
        then show ?thesis unfolding s' if_P[OF True] quiet_step_def using err by (simp add: books_same_def)
      next
        case False
        show ?thesis unfolding s' if_not_P[OF False] by (rule quiet_refl[OF quiet_inv[OF q2]])
      qed
      then show ?thesis using q1 q2 quiet_trans by blast
    next
      case no: False
      with assms(1) c False q1 show ?thesis by (auto simp: insert_payment_inbox_tx_def Let_def s1_def)
    qed
  qed
qed

lemma review_quiet:
  assumes "settlement_review e inp res reason s = Inr (res', s')" "orders_inv (db_orders s)" "clock_ok (e_now e)"
  shows "quiet_step s s' \<and> sr_review res' = reason \<and> sr_event res' = sr_event res \<and> sr_duplicate res' = sr_duplicate res"
  using assms
  by (auto simp: settlement_review_def bnd_Inr Let_def quiet_inbox intro: insert_inbox_quiet split: option.splits if_splits)

lemma mark_processed_quiet:
  "mark_settlement_inbox_processed e h s = Inr s' \<Longrightarrow> orders_inv (db_orders s) \<Longrightarrow> quiet_step s s' \<and> db_orders s' = db_orders s"
  by (auto simp: mark_settlement_inbox_processed_def quiet_inbox quiet_refl split: if_splits)

lemma wake_codes_quiet:
  "wake_codes e codes s = Inr s' \<Longrightarrow> orders_inv (db_orders s) \<Longrightarrow> clock_ok (e_now e) \<Longrightarrow> quiet_step s s'"
proof (induction e codes s rule: wake_codes.induct)
  case (2 e code codes s)
  then obtain s1 where w: "wake_payment_order_inbox_tx e code (s\<lparr>db_inbox :=
      update_where (\<lambda>i. ib_code i = code \<and> ib_reason i = ''UNKNOWN_ORDER'' \<and> ib_processed i = [])
        (\<lambda>i. i\<lparr>ib_reason := ''AWAITING_ORDER_BIND''\<rparr>) (db_inbox s)\<rparr>) = Inr s1" and r: "wake_codes e codes s1 = Inr s'"
    by (auto simp: bnd_Inr)
  let ?s = "s\<lparr>db_inbox := update_where (\<lambda>i. ib_code i = code \<and> ib_reason i = ''UNKNOWN_ORDER'' \<and> ib_processed i = [])
        (\<lambda>i. i\<lparr>ib_reason := ''AWAITING_ORDER_BIND''\<rparr>) (db_inbox s)\<rparr>"
  have q0: "quiet_step s ?s" by (rule quiet_inbox) fact
  have q1: "quiet_step ?s s1" using w quiet_inv[OF q0] 2(4) by (rule wake_quiet)
  have "quiet_step s1 s'" by (rule 2(1)[OF w r quiet_inv[OF q1] 2(4)])
  with q0 q1 show ?case using quiet_trans by blast
qed (auto simp: quiet_refl)

section \<open>The books\<close>

text \<open>
  Every receipt is the payment of one paid order, for its amount, by one transaction that credits that
  amount; every paid order has its receipt.  References and transactions are used once.
\<close>

definition receipt_backed :: "db \<Rightarrow> receipt \<Rightarrow> bool" where
  "receipt_backed s c \<longleftrightarrow>
     (\<exists>r\<in>set (db_orders s). o_id r = rc_order c \<and> o_status r = ''PAID'' \<and> o_transaction r = rc_transaction c \<and>
        o_link r = rc_link c \<and> o_amount r = rc_amount c \<and> o_channel r = rc_channel c) \<and>
     (\<exists>t\<in>set (db_transactions s). t_id t = rc_transaction c \<and> t_credit t = rc_amount c \<and> t_debit t = 0 \<and>
        t_connection t = ''payos-klb'' \<and> t_hash t = rc_hash c)"

definition money_inv :: "db \<Rightarrow> bool" where
  "money_inv s \<longleftrightarrow> orders_inv (db_orders s) \<and>
     distinct (map (\<lambda>c. (rc_channel c, rc_reference c)) (db_receipts s)) \<and> distinct (map rc_transaction (db_receipts s)) \<and>
     distinct (map t_id (db_transactions s)) \<and> distinct (map (\<lambda>t. (t_connection t, t_key t)) (db_transactions s)) \<and>
     (\<forall>c\<in>set (db_receipts s). receipt_backed s c) \<and>
     (\<forall>r\<in>set (db_orders s). o_status r = ''PAID'' \<longrightarrow>
        (\<exists>c\<in>set (db_receipts s). rc_order c = o_id r \<and> rc_transaction c = o_transaction r))"

lemma extends_paid:
  "order_extends r r' \<Longrightarrow> order_wf r \<Longrightarrow> o_status r = ''PAID'' \<Longrightarrow>
    o_status r' = ''PAID'' \<and> o_transaction r' = o_transaction r \<and> o_link r' = o_link r \<and> o_amount r' = o_amount r \<and>
    o_channel r' = o_channel r \<and> o_id r' = o_id r"
  by (auto simp: order_extends_def order_wf_def)

lemma quiet_money:
  assumes "quiet_step s s'" "money_inv s"
  shows "money_inv s'"
proof -
  have same: "db_receipts s' = db_receipts s" "db_transactions s' = db_transactions s"
    using assms(1) by (auto simp: quiet_step_def books_same_def)
  have step: "orders_inv (db_orders s')" "orders_extend (db_orders s) (db_orders s')" "paid_before (db_orders s) (db_orders s')"
    using assms(1) by (auto simp: quiet_step_def orders_step_def)
  have inv: "orders_inv (db_orders s)" using assms(2) by (simp add: money_inv_def)
  have "receipt_backed s' c" if "c \<in> set (db_receipts s)" for c
  proof -
    have b: "receipt_backed s c" using assms(2) that by (simp add: money_inv_def)
    then obtain r where r: "r \<in> set (db_orders s)" "o_id r = rc_order c" "o_status r = ''PAID''" "o_transaction r = rc_transaction c"
        "o_link r = rc_link c" "o_amount r = rc_amount c" "o_channel r = rc_channel c"
      unfolding receipt_backed_def by blast
    obtain r' where r': "r' \<in> set (db_orders s')" "order_extends r r'" using step(2) r(1) by (auto simp: orders_extend_def)
    from b show ?thesis
      using extends_paid[OF r'(2) orders_inv_wf[OF inv r(1)] r(3)] r r'(1)
      by (auto simp: receipt_backed_def same intro!: bexI[of _ r'])
  qed
  moreover have "\<exists>c\<in>set (db_receipts s). rc_order c = o_id r' \<and> rc_transaction c = o_transaction r'"
    if r': "r' \<in> set (db_orders s')" "o_status r' = ''PAID''" for r'
  proof -
    obtain r where r: "r \<in> set (db_orders s)" "o_id r = o_id r'" "o_status r = ''PAID''"
      using step(3) r' by (auto simp: paid_before_def)
    obtain r'' where r'': "r'' \<in> set (db_orders s')" "order_extends r r''" using step(2) r(1) by (auto simp: orders_extend_def)
    note p = extends_paid[OF r''(2) orders_inv_wf[OF inv r(1)] r(3)]
    have "r'' = r'" using row_unique[OF step(1) r''(1) r'(1)] p r(2) by simp
    have "\<exists>c\<in>set (db_receipts s). rc_order c = o_id r \<and> rc_transaction c = o_transaction r"
      using assms(2) r(1,3) unfolding money_inv_def by blast
    then show ?thesis using \<open>r'' = r'\<close> p r(2) by simp
  qed
  ultimately show ?thesis using assms(2) step(1) by (simp add: money_inv_def same)
qed

section \<open>What a settlement can do\<close>

definition reviewed :: "env \<Rightarrow> settlement_input \<Rightarrow> db \<Rightarrow> settlement_result \<times> db \<Rightarrow> bool" where
  "reviewed e inp s z \<longleftrightarrow>
     (\<exists>res reason. settlement_review e inp res reason s = Inr z \<and> reason \<noteq> [] \<and> sr_event res = None \<and> \<not> sr_duplicate res)"

lemma not_reviewed:
  "\<not> reviewed e inp s z \<Longrightarrow> reason \<noteq> [] \<Longrightarrow> sr_event res = None \<Longrightarrow> \<not> sr_duplicate res \<Longrightarrow>
    settlement_review e inp res reason s \<noteq> Inr z"
  unfolding reviewed_def by blast

definition evidence_fits :: "settlement_input \<Rightarrow> order \<Rightarrow> db \<Rightarrow> bool" where
  "evidence_fits inp r s \<longleftrightarrow>
     o_channel r = si_channel inp \<and> o_amount r = si_amount inp \<and> (o_link r = [] \<or> o_link r = si_link inp) \<and>
     effective_payment_account (si_account inp) (si_virtual inp) \<noteq> [] \<and>
     (o_account r = [] \<or> o_account r = effective_payment_account (si_account inp) (si_virtual inp)) \<and>
     (o_link r = [] \<or> o_account r = [] \<longrightarrow> settlement_get_matches inp) \<and>
     (si_get inp \<noteq> None \<longrightarrow> settlement_get_matches inp) \<and>
     (si_inbox inp = [] \<or> settlement_get_matches inp \<and> settlement_inbox_matches inp s = Inr True)"

lemma settle_order_outcome:
  assumes "settle_order e inp r s = Inr z" "\<not> reviewed e inp s z"
  shows "evidence_fits inp r s \<and> settle_accepted e inp r s = Inr z \<and>
    (\<forall>c. receipt_of inp s = Some c \<longrightarrow> rc_hash c = settlement_canonical_hash e inp \<and> rc_order c = o_id r)"
proof -
  have nr: "settlement_review e inp (no_result\<lparr>sr_order := Some r\<rparr>) reason s \<noteq> Inr z" if "reason \<noteq> []" for reason
    using assms(2) that by (rule not_reviewed) (simp_all add: no_result_def)
  from assms(1) show ?thesis
    unfolding settle_order_def Let_def
    by (auto simp: nr evidence_fits_def bnd_Inr split: if_split_asm option.split_asm)
qed

lemma settle_payment_outcome:
  assumes "settle_payment_tx e inp s = Inr z" "\<not> reviewed e inp s z"
  obtains r where "payment_order_by_code (si_code inp) s = Inr r" "settle_order e inp r s = Inr z"
    "check_mutation_allowed e s = Inr ()" "si_at inp \<noteq> zero_time"
    "si_channel inp \<noteq> []" "0 < si_code inp" "si_link inp \<noteq> []" "trim_space (si_reference inp) \<noteq> []" "0 < si_amount inp"
    "si_source inp = ''REALTIME'' \<or> si_source inp = ''CATCH_UP''"
proof -
  have nr: "settlement_review e inp no_result reason s \<noteq> Inr z" if "reason \<noteq> []" for reason
    using assms(2) that by (rule not_reviewed) (simp_all add: no_result_def)
  show ?thesis
    using assms(1) that
    by (auto simp: settle_payment_tx_def bnd_Inr nr split: if_split_asm sum.split_asm)
qed

lemma settle_commit_result:
  assumes "settle_commit e inp r s = Inr (res, s')"
  obtains tid key ns n s1 s2 where "ns = settlement_namespace e inp" "valid_namespace ns" "key = ''PAYOS:'' @ ns @ '':'' @ si_reference inp"
    "tid = fresh_id e ''txn'' 0"
    "\<forall>t\<in>set (db_transactions s). t_id t \<noteq> tid \<and> \<not> (t_connection t = ''payos-klb'' \<and> t_key t = key)"
    "\<forall>c\<in>set (db_receipts s). \<not> (rc_channel c = si_channel inp \<and> rc_reference c = si_reference inp) \<and> rc_transaction c \<noteq> tid"
    "s1 = s\<lparr>db_transactions := db_transactions s @ [settled_transaction e inp r tid key],
            db_receipts := db_receipts s @ [settled_receipt e inp r tid],
            db_orders := update_where (\<lambda>x. o_id x = o_id r) (paid_order e inp tid) (db_orders s)\<rparr>"
    "\<not> link_clash (db_orders s1)" "\<not> transaction_clash (db_orders s1)"
    "emit_transaction_event_tx e 1 tid ''bank.transaction.credit'' (''payos:'' @ ns) key
       (settlement_data inp r tid (now_text e)) (now_text e) s1 = Inr (Some n, s2)"
    "mark_settlement_inbox_processed e (si_inbox inp) s2 = Inr s'"
    "sr_event res = Some n" "\<not> sr_duplicate res" "sr_review res = []"
    "\<exists>r'. sr_order res = Some r' \<and> payment_order (o_id r) s' = Inr r'"
  using assms
  by (auto simp: settle_commit_def Let_def bnd_Inr split: if_split_asm option.split_asm)

lemma paid_order_wf:
  assumes "order_wf r" "si_link inp \<noteq> []" "effective_payment_account (si_account inp) (si_virtual inp) \<noteq> []" "tid \<noteq> []"
  shows "order_wf (paid_order e inp tid r)"
  using assms by (simp add: order_wf_def paid_order_def valid_payment_status_def)

lemma paid_order_extends:
  assumes "evidence_fits inp r s" "o_status r \<noteq> ''PAID''"
  shows "order_extends r (paid_order e inp tid r)"
  using assms by (auto simp: order_extends_def paid_order_def evidence_fits_def)

definition settled_rows :: "env \<Rightarrow> settlement_input \<Rightarrow> order \<Rightarrow> db \<Rightarrow> db \<Rightarrow> string \<Rightarrow> string \<Rightarrow> bool" where
  "settled_rows e inp r s s' tid key \<longleftrightarrow>
     db_transactions s' = db_transactions s @ [settled_transaction e inp r tid key] \<and>
     db_receipts s' = db_receipts s @ [settled_receipt e inp r tid] \<and>
     db_orders s' = update_where (\<lambda>x. o_id x = o_id r) (\<lambda>_. paid_order e inp tid r) (db_orders s)"

lemma commit_rows:
  assumes "settle_commit e inp r s = Inr (res, s')" "orders_inv (db_orders s)" "r \<in> set (db_orders s)"
  obtains tid key n where "settled_rows e inp r s s' tid key" "tid \<noteq> []"
    "\<forall>t\<in>set (db_transactions s). t_id t \<noteq> tid \<and> \<not> (t_connection t = ''payos-klb'' \<and> t_key t = key)"
    "\<forall>c\<in>set (db_receipts s). \<not> (rc_channel c = si_channel inp \<and> rc_reference c = si_reference inp) \<and> rc_transaction c \<noteq> tid"
    "\<not> link_clash (db_orders s')" "\<not> transaction_clash (db_orders s')"
    "sr_event res = Some n" "\<not> sr_duplicate res" "sr_review res = []" "sr_order res = Some (paid_order e inp tid r)"
    "n_transaction n = tid"
  using assms(1)
proof (rule settle_commit_result)
  fix tid key ns n s1 s2
  assume tid: "tid = fresh_id e ''txn'' 0"
    and ft: "\<forall>t\<in>set (db_transactions s). t_id t \<noteq> tid \<and> \<not> (t_connection t = ''payos-klb'' \<and> t_key t = key)"
    and fr: "\<forall>c\<in>set (db_receipts s). \<not> (rc_channel c = si_channel inp \<and> rc_reference c = si_reference inp) \<and> rc_transaction c \<noteq> tid"
    and s1: "s1 = s\<lparr>db_transactions := db_transactions s @ [settled_transaction e inp r tid key],
            db_receipts := db_receipts s @ [settled_receipt e inp r tid],
            db_orders := update_where (\<lambda>x. o_id x = o_id r) (paid_order e inp tid) (db_orders s)\<rparr>"
    and cl: "\<not> link_clash (db_orders s1)" "\<not> transaction_clash (db_orders s1)"
    and em: "emit_transaction_event_tx e 1 tid ''bank.transaction.credit'' (''payos:'' @ ns) key
       (settlement_data inp r tid (now_text e)) (now_text e) s1 = Inr (Some n, s2)"
    and mk: "mark_settlement_inbox_processed e (si_inbox inp) s2 = Inr s'"
    and res: "sr_event res = Some n" "\<not> sr_duplicate res" "sr_review res = []"
    and ord: "\<exists>r'. sr_order res = Some r' \<and> payment_order (o_id r) s' = Inr r'"
  note fr2 = emit_frame[OF em]
  have s3: "db_orders s' = db_orders s1" "db_receipts s' = db_receipts s1" "db_transactions s' = db_transactions s1"
    using mk fr2 by (auto simp: mark_settlement_inbox_processed_def split: if_splits)
  have only: "x = r" if "x \<in> set (db_orders s)" "o_id x = o_id r" for x
    using row_unique[OF assms(2) that(1) assms(3) that(2)] .
  have rows: "settled_rows e inp r s s' tid key"
    using only by (auto simp: settled_rows_def s3 s1 update_where_def)
  obtain r' where r': "sr_order res = Some r'" "payment_order (o_id r) s' = Inr r'" using ord by blast
  have "r' \<in> set (update_where (\<lambda>x. o_id x = o_id r) (\<lambda>_. paid_order e inp tid r) (db_orders s))" "o_id r' = o_id r"
    using payment_order_in[OF r'(2)] rows by (auto simp: settled_rows_def)
  then have "r' = paid_order e inp tid r" by (auto elim: in_update_whereE)
  moreover have "n_transaction n = tid" using em by (rule emit_new)
  ultimately show thesis
    using rows ft fr cl res r'(1) by (intro that[of tid key n]) (simp_all add: s3 tid)
qed

lemma paid_order_fields [simp]:
  "o_id (paid_order e inp tid r) = o_id r" "o_status (paid_order e inp tid r) = ''PAID''" "o_transaction (paid_order e inp tid r) = tid"
  "o_link (paid_order e inp tid r) = si_link inp" "o_amount (paid_order e inp tid r) = o_amount r"
  "o_channel (paid_order e inp tid r) = o_channel r" "o_code (paid_order e inp tid r) = o_code r" "o_key (paid_order e inp tid r) = o_key r"
  by (simp_all add: paid_order_def)

lemma settled_orders:
  assumes "settled_rows e inp r s s' tid key" "orders_inv (db_orders s)" "r \<in> set (db_orders s)" "evidence_fits inp r s"
    and "si_link inp \<noteq> []" "tid \<noteq> []" "o_status r \<noteq> ''PAID''" "\<not> link_clash (db_orders s')" "\<not> transaction_clash (db_orders s')"
  shows "orders_inv (db_orders s') \<and> orders_extend (db_orders s) (db_orders s')"
proof -
  have only: "x = r" if "x \<in> set (db_orders s)" "o_id x = o_id r" for x
    using row_unique[OF assms(2) that(1) assms(3) that(2)] .
  have up: "db_orders s' = update_where (\<lambda>x. o_id x = o_id r) (\<lambda>_. paid_order e inp tid r) (db_orders s)"
    using assms(1) by (simp add: settled_rows_def)
  have "update_where (\<lambda>x. o_id x = o_id r) (\<lambda>_. paid_order e inp tid r) (db_orders s) =
      update_where (\<lambda>x. o_id x = o_id r) (paid_order e inp tid) (db_orders s)"
    using only by (auto simp: update_where_def)
  then have up2: "db_orders s' = update_where (\<lambda>x. o_id x = o_id r) (paid_order e inp tid) (db_orders s)"
    using up by simp
  have wf: "order_wf (paid_order e inp tid r)"
    using orders_inv_wf[OF assms(2,3)] assms(4-6) by (intro paid_order_wf) (simp_all add: evidence_fits_def)
  have maps: "map o_id (db_orders s') = map o_id (db_orders s)" "map o_code (db_orders s') = map o_code (db_orders s)"
    "map (\<lambda>r. (o_channel r, o_key r)) (db_orders s') = map (\<lambda>r. (o_channel r, o_key r)) (db_orders s)"
    unfolding up2 by (rule map_update_where; simp)+
  have "list_all order_wf (db_orders s')"
    unfolding up using wf orders_inv_wf[OF assms(2)] by (auto simp: list_all_iff set_update_where)
  then have "orders_inv (db_orders s')"
    using assms(2,8,9) maps by (simp add: orders_inv_def)
  moreover have "orders_extend (db_orders s) (db_orders s')"
    unfolding up using only paid_order_extends[OF assms(4,7)] by (intro orders_extend_update) auto
  ultimately show ?thesis ..
qed

lemma settled_money:
  assumes rows: "settled_rows e inp r s s' tid key" and inv: "money_inv s" and r: "r \<in> set (db_orders s)" "evidence_fits inp r s"
    and "si_link inp \<noteq> []" "tid \<noteq> []" "o_status r \<noteq> ''PAID''" "\<not> link_clash (db_orders s')" "\<not> transaction_clash (db_orders s')"
    and ft: "\<forall>t\<in>set (db_transactions s). t_id t \<noteq> tid \<and> \<not> (t_connection t = ''payos-klb'' \<and> t_key t = key)"
    and fr: "\<forall>c\<in>set (db_receipts s). \<not> (rc_channel c = si_channel inp \<and> rc_reference c = si_reference inp) \<and> rc_transaction c \<noteq> tid"
  shows "money_inv s'"
proof -
  have oinv: "orders_inv (db_orders s)" using inv by (simp add: money_inv_def)
  have o': "orders_inv (db_orders s')" "orders_extend (db_orders s) (db_orders s')"
    using settled_orders[OF rows oinv r assms(5-9)] by simp_all
  let ?p = "paid_order e inp tid r" and ?c = "settled_receipt e inp r tid" and ?t = "settled_transaction e inp r tid key"
  have p: "?p \<in> set (db_orders s')"
    using rows r(1) by (auto simp: settled_rows_def set_update_where)
  have tx: "set (db_transactions s') = insert ?t (set (db_transactions s))" and rc: "set (db_receipts s') = insert ?c (set (db_receipts s))"
    using rows by (auto simp: settled_rows_def)
  have new: "receipt_backed s' ?c"
    unfolding receipt_backed_def tx using p r(2)
    by (intro conjI bexI[of _ ?p] bexI[of _ ?t])
      (auto simp: settled_receipt_def settled_transaction_def Let_def evidence_fits_def)
  have old: "receipt_backed s' c" if c: "c \<in> set (db_receipts s)" for c
  proof -
    have b: "receipt_backed s c" using inv c by (simp add: money_inv_def)
    then obtain x where x: "x \<in> set (db_orders s)" "o_id x = rc_order c" "o_status x = ''PAID''" "o_transaction x = rc_transaction c"
        "o_link x = rc_link c" "o_amount x = rc_amount c" "o_channel x = rc_channel c"
      unfolding receipt_backed_def by blast
    obtain x' where x': "x' \<in> set (db_orders s')" "order_extends x x'" using o'(2) x(1) by (auto simp: orders_extend_def)
    from b show ?thesis
      using extends_paid[OF x'(2) orders_inv_wf[OF oinv x(1)] x(3)] x x'(1) unfolding receipt_backed_def tx
      by (intro conjI bexI[of _ x']) auto
  qed
  have paid: "\<exists>c\<in>set (db_receipts s'). rc_order c = o_id x \<and> rc_transaction c = o_transaction x"
    if x: "x \<in> set (db_orders s')" "o_status x = ''PAID''" for x
  proof -
    from x(1) rows consider "x = ?p" | "x \<in> set (db_orders s)"
      by (auto simp: settled_rows_def elim: in_update_whereE)
    then show ?thesis
    proof cases
      case 1
      then show ?thesis unfolding rc by (intro bexI[of _ ?c]) (simp_all add: settled_receipt_def)
    next
      case 2
      then show ?thesis using inv x(2) unfolding money_inv_def rc by blast
    qed
  qed
  have "distinct (map (\<lambda>c. (rc_channel c, rc_reference c)) (db_receipts s'))" "distinct (map rc_transaction (db_receipts s'))"
    "distinct (map t_id (db_transactions s'))" "distinct (map (\<lambda>t. (t_connection t, t_key t)) (db_transactions s'))"
    using inv fr ft rows
    by (auto simp: money_inv_def settled_rows_def settled_receipt_def settled_transaction_def Let_def)
  then show ?thesis unfolding money_inv_def using o' new old paid rc by auto
qed

lemma no_result_event [simp]: "sr_event no_result = None" "\<not> sr_duplicate no_result" "sr_review no_result = []"
  by (simp_all add: no_result_def)

lemma settle_quiet:
  assumes "settle_payment_tx e inp s = Inr (res, s')" "sr_event res = None" "orders_inv (db_orders s)" "clock_ok (e_now e)"
  shows "quiet_step s s' \<and> (sr_review res \<noteq> [] \<or> sr_duplicate res \<and> db_orders s' = db_orders s)"
proof (cases "reviewed e inp s (res, s')")
  case True
  then show ?thesis unfolding reviewed_def using review_quiet assms(3,4) by fastforce
next
  case False
  from assms(1) False obtain r where o: "settle_order e inp r s = Inr (res, s')" by (rule settle_payment_outcome)
  have a: "settle_accepted e inp r s = Inr (res, s')" using settle_order_outcome[OF o False] by simp
  show ?thesis
  proof (cases "receipt_of inp s")
    case None
    with a assms(2) False have "settle_commit e inp r s = Inr (res, s')"
      by (auto simp: settle_accepted_def not_reviewed split: if_split_asm)
    with assms(2) show ?thesis by (auto elim: settle_commit_result)
  next
    case (Some c)
    with a show ?thesis
      using mark_processed_quiet assms(3) by (fastforce simp: settle_accepted_def bnd_Inr split: if_split_asm)
  qed
qed

lemma settle_committed:
  assumes "settle_payment_tx e inp s = Inr (res, s')" "sr_event res = Some n" "orders_inv (db_orders s)" "clock_ok (e_now e)"
  obtains r where "payment_order_by_code (si_code inp) s = Inr r" "r \<in> set (db_orders s)" "o_code r = si_code inp"
    "evidence_fits inp r s" "o_status r \<noteq> ''PAID''" "o_transaction r = []" "receipt_of inp s = None" "settle_commit e inp r s = Inr (res, s')"
    "si_at inp \<noteq> zero_time" "si_channel inp \<noteq> []" "0 < si_code inp" "si_link inp \<noteq> []" "trim_space (si_reference inp) \<noteq> []"
    "0 < si_amount inp" "si_source inp = ''REALTIME'' \<or> si_source inp = ''CATCH_UP''"
proof -
  have nr: "\<not> reviewed e inp s (res, s')"
    using review_quiet[OF _ assms(3,4)] assms(2) by (fastforce simp: reviewed_def)
  from assms(1) nr obtain r where r: "payment_order_by_code (si_code inp) s = Inr r" and o: "settle_order e inp r s = Inr (res, s')"
    and g: "si_at inp \<noteq> zero_time" "si_channel inp \<noteq> []" "0 < si_code inp" "si_link inp \<noteq> []" "trim_space (si_reference inp) \<noteq> []"
      "0 < si_amount inp" "si_source inp = ''REALTIME'' \<or> si_source inp = ''CATCH_UP''"
    by (rule settle_payment_outcome)
  have a: "settle_accepted e inp r s = Inr (res, s')" and fit: "evidence_fits inp r s"
    using settle_order_outcome[OF o nr] by simp_all
  have rn: "receipt_of inp s = None"
  proof (rule ccontr)
    assume "receipt_of inp s \<noteq> None"
    with a assms(2) show False by (auto simp: settle_accepted_def bnd_Inr split: if_split_asm)
  qed
  have "settlement_review e inp (no_result\<lparr>sr_order := Some r\<rparr>) ''EXTRA_PAYMENT_REVIEW'' s \<noteq> Inr (res, s')"
    using nr by (rule not_reviewed) simp_all
  with a rn have "o_status r \<noteq> ''PAID''" "o_transaction r = []" "settle_commit e inp r s = Inr (res, s')"
    by (auto simp: settle_accepted_def split: if_split_asm)
  with that r g fit rn payment_order_by_code_in[OF r] show thesis by blast
qed

lemma settle_payment_tx_of:
  "settle_payment e inp s = (Inr res, s') \<Longrightarrow>
    \<exists>res0. settle_payment_tx e inp s = Inr (res0, s') \<and> sr_review res = sr_review res0 \<and> sr_duplicate res = sr_duplicate res0 \<and>
      sr_order res = sr_order res0 \<and> sr_event res = map_option (\<lambda>n. n\<lparr>n_committed := now_text e\<rparr>) (sr_event res0)"
  by (auto simp: settle_payment_def run_tx_def split: sum.splits prod.splits)

lemma settle_payment_error: "settle_payment e inp s = (Inl x, s') \<Longrightarrow> s' = s"
  by (auto simp: settle_payment_def run_tx_def split: sum.splits prod.splits)

section \<open>Properties\<close>

lemma settle_books_step:
  assumes "settle_payment e inp s = (out, s')" and "money_inv s" and "clock_ok (e_now e)"
  shows "money_inv s' \<and> orders_extend (db_orders s) (db_orders s') \<and>
    (case out of
       Inl _ \<Rightarrow> s' = s
     | Inr res \<Rightarrow> (case sr_event res of
         None \<Rightarrow> books_same s s' \<and> (sr_review res \<noteq> [] \<or> sr_duplicate res)
       | Some n \<Rightarrow> \<exists>r tid key. r \<in> set (db_orders s) \<and> o_code r = si_code inp \<and> o_status r \<noteq> ''PAID'' \<and> evidence_fits inp r s \<and>
           o_amount r = si_amount inp \<and> settled_rows e inp r s s' tid key \<and> n_transaction n = tid \<and>
           sr_order res = Some (paid_order e inp tid r)))"
proof (cases out)
  case (Inl x)
  with assms settle_payment_error show ?thesis by fastforce
next
  case (Inr res)
  have oinv: "orders_inv (db_orders s)" using assms(2) by (simp add: money_inv_def)
  obtain res0 where tx: "settle_payment_tx e inp s = Inr (res0, s')" and eq: "sr_review res = sr_review res0"
    "sr_duplicate res = sr_duplicate res0" "sr_order res = sr_order res0"
    "sr_event res = map_option (\<lambda>n. n\<lparr>n_committed := now_text e\<rparr>) (sr_event res0)"
    using settle_payment_tx_of assms(1) Inr by metis
  show ?thesis
  proof (cases "sr_event res0")
    case None
    have q: "quiet_step s s' \<and> (sr_review res0 \<noteq> [] \<or> sr_duplicate res0 \<and> db_orders s' = db_orders s)"
      by (rule settle_quiet[OF tx None oinv assms(3)])
    then have "money_inv s'" using quiet_money assms(2) by blast
    with q show ?thesis by (auto simp: Inr eq None quiet_step_def orders_step_def)
  next
    case (Some n)
    obtain r where r: "r \<in> set (db_orders s)" "o_code r = si_code inp" "evidence_fits inp r s" "o_status r \<noteq> ''PAID''"
      "settle_commit e inp r s = Inr (res0, s')" "si_link inp \<noteq> []"
      by (rule settle_committed[OF tx Some oinv assms(3)])
    obtain tid key n' where c: "settled_rows e inp r s s' tid key" "tid \<noteq> []"
      "\<forall>t\<in>set (db_transactions s). t_id t \<noteq> tid \<and> \<not> (t_connection t = ''payos-klb'' \<and> t_key t = key)"
      "\<forall>c\<in>set (db_receipts s). \<not> (rc_channel c = si_channel inp \<and> rc_reference c = si_reference inp) \<and> rc_transaction c \<noteq> tid"
      "\<not> link_clash (db_orders s')" "\<not> transaction_clash (db_orders s')"
      "sr_event res0 = Some n'" "sr_order res0 = Some (paid_order e inp tid r)" "n_transaction n' = tid"
      by (rule commit_rows[OF r(5) oinv r(1)])
    have "money_inv s'" by (rule settled_money[OF c(1) assms(2) r(1,3,6) c(2) r(4) c(5,6,3,4)])
    moreover have "orders_extend (db_orders s) (db_orders s')"
      using settled_orders[OF c(1) oinv r(1,3,6) c(2) r(4) c(5,6)] by simp
    moreover have "o_amount r = si_amount inp" using r(3) by (simp add: evidence_fits_def)
    ultimately show ?thesis using r(1-4) c(1,7-9) by (auto simp: Inr eq)
  qed
qed

text \<open>
  C1.  Settling keeps the books: whatever the evidence, every receipt stays backed by one paid order
  and one transaction of its amount, and every paid order by its receipt; a settlement without an event
  (an error, a review or a replay) moves no money and emits nothing, and one with an event appends one
  receipt and one transaction of the amount of the order it pays.
\<close>

theorem settle_keeps_books:
  assumes "settle_payment e inp s = (out, s')" and "money_inv s" and "clock_ok (e_now e)"
  shows "money_inv s' \<and> orders_extend (db_orders s) (db_orders s') \<and>
    (case out of
       Inl _ \<Rightarrow> s' = s
     | Inr res \<Rightarrow> (case sr_event res of
         None \<Rightarrow> books_same s s' \<and> (sr_review res \<noteq> [] \<or> sr_duplicate res)
       | Some n \<Rightarrow> \<exists>r tid key. r \<in> set (db_orders s) \<and> o_code r = si_code inp \<and> o_status r \<noteq> ''PAID'' \<and> evidence_fits inp r s \<and>
           o_amount r = si_amount inp \<and> settled_rows e inp r s s' tid key \<and> n_transaction n = tid \<and>
           sr_order res = Some (paid_order e inp tid r)))"
  using assms by (rule settle_books_step)

text \<open>
  A callback that was marked as processed stays the only row of its hash and stays as it is: no operation
  on the inbox touches it again.
\<close>

definition callbacks_kept :: "db \<Rightarrow> db \<Rightarrow> bool" where
  "callbacks_kept s s' \<longleftrightarrow> (\<forall>h i. filter (\<lambda>j. ib_hash j = h) (db_inbox s) = [i] \<longrightarrow> ib_processed i \<noteq> [] \<longrightarrow>
     filter (\<lambda>j. ib_hash j = h) (db_inbox s') = [i])"

lemma callbacks_kept_refl [simp]: "callbacks_kept s s" by (simp add: callbacks_kept_def)

lemma callbacks_kept_trans: "callbacks_kept a b \<Longrightarrow> callbacks_kept b c \<Longrightarrow> callbacks_kept a c"
  by (simp add: callbacks_kept_def)

lemma callbacks_kept_same: "db_inbox s' = db_inbox s \<Longrightarrow> callbacks_kept s s'" by (simp add: callbacks_kept_def)

lemma filter_update_where_one:
  assumes "filter q rs = [i]" "\<And>r. q (f r) = q r" "p i \<Longrightarrow> f i = i"
  shows "filter q (update_where p f rs) = [i]"
proof -
  have "filter q (update_where p f rs) = update_where p f (filter q rs)"
    unfolding update_where_def using assms(2) by (induction rs) auto
  then show ?thesis using assms(1,3) by simp
qed

lemma callbacks_kept_update:
  assumes "db_inbox s' = update_where p f (db_inbox s)" "\<And>i. ib_hash (f i) = ib_hash i" "\<And>i. p i \<Longrightarrow> ib_processed i \<noteq> [] \<Longrightarrow> f i = i"
  shows "callbacks_kept s s'"
  unfolding callbacks_kept_def assms(1) using assms(2,3) by (auto intro!: filter_update_where_one)

lemma callbacks_kept_new:
  assumes "db_inbox s' = db_inbox s @ [i]" "\<forall>j\<in>set (db_inbox s). ib_hash j \<noteq> ib_hash i"
  shows "callbacks_kept s s'"
proof -
  have "ib_hash i \<noteq> h" if "filter (\<lambda>j. ib_hash j = h) (db_inbox s) = [x]" for h x
  proof -
    have "x \<in> set (filter (\<lambda>j. ib_hash j = h) (db_inbox s))" using that by simp
    then show ?thesis using assms(2) by auto
  qed
  then show ?thesis by (auto simp: callbacks_kept_def assms(1))
qed

lemma wake_callbacks: "wake_payment_order_inbox_tx e code s = Inr s' \<Longrightarrow> db_inbox s' = db_inbox s"
  by (auto simp: wake_payment_order_inbox_tx_def bnd_Inr split: sum.split_asm if_split_asm option.split_asm)

lemma insert_callbacks: "insert_payment_inbox_tx e cb s = Inr (h, s') \<Longrightarrow> callbacks_kept s s'"
proof -
  assume i: "insert_payment_inbox_tx e cb s = Inr (h, s')"
  then obtain hash payload where c: "canonical_payment_callback e cb = Inr (hash, payload)"
    by (auto simp: insert_payment_inbox_tx_def bnd_Inr)
  show ?thesis
  proof (cases "\<exists>i\<in>set (db_inbox s). ib_hash i = hash")
    case True
    show ?thesis
    proof (cases "cb_reason cb \<in> set bind_reasons")
      case bind: True
      with i c True have "s' = s" by (auto simp: insert_payment_inbox_tx_def)
      then show ?thesis by simp
    next
      case False
      with i c True have "db_inbox s' = update_where (\<lambda>i. ib_hash i = hash \<and> ib_processed i = [] \<and> ib_reason i \<in> set bind_reasons)
          (\<lambda>i. i\<lparr>ib_reason := cb_reason cb\<rparr>) (db_inbox s)" by (auto simp: insert_payment_inbox_tx_def)
      then show ?thesis by (rule callbacks_kept_update) simp_all
    qed
  next
    case False
    let ?i = "\<lparr>ib_hash = hash, ib_code = cb_code cb, ib_link = cb_link cb, ib_reference = cb_reference cb, ib_payload = payload,
      ib_reason = cb_reason cb, ib_received = now_text e, ib_processed = []\<rparr>"
    have "db_inbox s' = db_inbox s @ [?i]"
      using i c False
      by (auto simp: insert_payment_inbox_tx_def Let_def bnd_Inr split: if_split_asm dest!: wake_callbacks)
    then show ?thesis using False by (intro callbacks_kept_new[of s' s ?i]) auto
  qed
qed

lemma review_callbacks:
  assumes "settlement_review e inp res reason s = Inr (res', s')"
  shows "callbacks_kept s s'"
proof (cases "si_callback inp")
  case (Some cb)
  with assms show ?thesis by (auto simp: settlement_review_def bnd_Inr intro: insert_callbacks)
next
  case None
  with assms have "db_inbox s' = update_where (\<lambda>i. ib_hash i = si_inbox inp \<and> ib_processed i = []) (\<lambda>i. i\<lparr>ib_reason := reason\<rparr>) (db_inbox s)"
    by (auto simp: settlement_review_def Let_def split: if_split_asm)
  then show ?thesis by (rule callbacks_kept_update) simp_all
qed

lemma mark_callbacks:
  assumes "mark_settlement_inbox_processed e h s = Inr s'"
  shows "callbacks_kept s s'"
proof (cases "h = []")
  case False
  with assms have "db_inbox s' = update_where (\<lambda>i. ib_hash i = h)
      (\<lambda>i. i\<lparr>ib_processed := (if ib_processed i = [] then now_text e else ib_processed i)\<rparr>) (db_inbox s)"
    by (auto simp: mark_settlement_inbox_processed_def split: if_split_asm)
  then show ?thesis by (rule callbacks_kept_update) simp_all
qed (use assms in \<open>simp add: mark_settlement_inbox_processed_def\<close>)

lemma emit_inbox: "emit_transaction_event_tx e k tid ty ns key data created s = Inr (nt, s') \<Longrightarrow> db_inbox s' = db_inbox s"
  by (auto simp: emit_transaction_event_tx_def append_journal_def Let_def bnd_Inr split: if_split_asm)

lemma find_filter: "find q rs = (case filter q rs of [] \<Rightarrow> None | x # _ \<Rightarrow> Some x)"
  by (induction rs) auto

lemma length_filter_count: "length (filter q rs) = count_where q rs"
  by (induction rs) auto

lemma commit_callbacks: "settle_commit e inp r s = Inr (res, s') \<Longrightarrow> callbacks_kept s s'"
proof -
  assume c: "settle_commit e inp r s = Inr (res, s')"
  obtain s1 s2 nt tid key ns where s1: "db_inbox s1 = db_inbox s"
    and em: "emit_transaction_event_tx e 1 tid ''bank.transaction.credit'' (''payos:'' @ ns) key
       (settlement_data inp r tid (now_text e)) (now_text e) s1 = Inr (nt, s2)"
    and m: "mark_settlement_inbox_processed e (si_inbox inp) s2 = Inr s'"
    by (rule settle_commit_result[OF c]) (rule that; force)
  show ?thesis using callbacks_kept_trans[OF callbacks_kept_same mark_callbacks[OF m]] emit_inbox[OF em] s1 by simp
qed

text \<open>The callback that a settlement was driven by is processed afterwards.\<close>

lemma commit_inbox:
  assumes "settle_commit e inp r s = Inr (res, s')" "clock_ok (e_now e)"
    and h: "si_inbox inp \<noteq> []" and f: "find (\<lambda>i. ib_hash i = si_inbox inp) (db_inbox s) = Some i"
  shows "\<exists>t. t \<noteq> [] \<and> filter (\<lambda>j. ib_hash j = si_inbox inp) (db_inbox s') = [i\<lparr>ib_processed := t\<rparr>]"
proof -
  obtain s1 s2 nt tid key ns where s1: "db_inbox s1 = db_inbox s"
    and em: "emit_transaction_event_tx e 1 tid ''bank.transaction.credit'' (''payos:'' @ ns) key
       (settlement_data inp r tid (now_text e)) (now_text e) s1 = Inr (nt, s2)"
    and m: "mark_settlement_inbox_processed e (si_inbox inp) s2 = Inr s'"
    by (rule settle_commit_result[OF assms(1)]) (rule that; force)
  have same: "db_inbox s2 = db_inbox s" using emit_inbox[OF em] s1 by simp
  let ?q = "\<lambda>j. ib_hash j = si_inbox inp"
  let ?g = "\<lambda>i. i\<lparr>ib_processed := (if ib_processed i = [] then now_text e else ib_processed i)\<rparr>"
  have c: "count_where ?q (db_inbox s) = 1" and s': "db_inbox s' = update_where ?q ?g (db_inbox s)"
    using m h same by (auto simp: mark_settlement_inbox_processed_def split: if_split_asm)
  have "length (filter ?q (db_inbox s)) = 1" using length_filter_count[of ?q "db_inbox s"] c by simp
  then obtain j where j: "filter ?q (db_inbox s) = [j]" by (metis One_nat_def length_0_conv length_Suc_conv)
  then have "j = i" using f find_filter[of ?q "db_inbox s"] by simp
  have fm: "filter ?q (update_where ?q ?g rs) = map ?g (filter ?q rs)" for rs by (induction rs) auto
  have "filter ?q (db_inbox s') = [?g i]" unfolding s' fm j \<open>j = i\<close> by simp
  moreover have "now_text e \<noteq> []" using stamp_now[OF clock_in_range0[OF assms(2)]] by (auto simp: now_text_def stamp_text_def)
  ultimately show ?thesis
    by (intro exI[of _ "if ib_processed i = [] then now_text e else ib_processed i"]) simp
qed

text \<open>The stored callback of a committed settlement: it still matches later, and marking it again changes nothing.\<close>

lemma inbox_settled:
  assumes "settle_commit e inp r s = Inr (res, s')" "evidence_fits inp r s" "clock_ok (e_now e)" "callbacks_kept s' s''"
  shows "si_inbox inp \<noteq> [] \<longrightarrow> settlement_get_matches inp \<and> settlement_inbox_matches inp s'' = Inr True"
    "mark_settlement_inbox_processed e3 (si_inbox inp) s'' = Inr s''"
proof -
  let ?q = "\<lambda>j. ib_hash j = si_inbox inp"
  let ?g = "\<lambda>i. i\<lparr>ib_processed := (if ib_processed i = [] then now_text e3 else ib_processed i)\<rparr>"
  have "(si_inbox inp \<noteq> [] \<longrightarrow> settlement_get_matches inp \<and> settlement_inbox_matches inp s'' = Inr True) \<and>
      mark_settlement_inbox_processed e3 (si_inbox inp) s'' = Inr s''"
  proof (cases "si_inbox inp = []")
    case False
    then have fits: "settlement_get_matches inp" "settlement_inbox_matches inp s = Inr True"
      using assms(2) by (simp_all add: evidence_fits_def)
    then obtain i where i: "find ?q (db_inbox s) = Some i" by (auto simp: settlement_inbox_matches_def split: option.split_asm)
    obtain t where t: "t \<noteq> []" "filter ?q (db_inbox s') = [i\<lparr>ib_processed := t\<rparr>]"
      using commit_inbox[OF assms(1,3) False i] by blast
    then have f: "filter ?q (db_inbox s'') = [i\<lparr>ib_processed := t\<rparr>]" using assms(4) by (simp add: callbacks_kept_def)
    have i2: "find ?q (db_inbox s'') = Some (i\<lparr>ib_processed := t\<rparr>)" using find_filter[of ?q "db_inbox s''"] f by simp
    have m: "settlement_inbox_matches inp s'' = Inr True"
      using fits(2) unfolding settlement_inbox_matches_def i i2 by (simp split: if_split_asm option.split_asm)
    have one: "count_where ?q (db_inbox s'') = 1" using length_filter_count[of ?q "db_inbox s''"] f by simp
    have only: "x = i\<lparr>ib_processed := t\<rparr>" if "x \<in> set (db_inbox s'')" "?q x" for x
    proof -
      have "x \<in> set (filter ?q (db_inbox s''))" using that by simp
      then show ?thesis unfolding f by simp
    qed
    have "(if ?q x then ?g x else x) = x" if "x \<in> set (db_inbox s'')" for x
      using only[OF that] t(1) by (cases "?q x") simp_all
    then have "update_where ?q ?g (db_inbox s'') = db_inbox s''" unfolding update_where_def by (rule map_idI)
    then have "mark_settlement_inbox_processed e3 (si_inbox inp) s'' = Inr s''"
      using one False by (simp add: mark_settlement_inbox_processed_def)
    with fits(1) m show ?thesis by simp
  qed (simp add: mark_settlement_inbox_processed_def)
  then show "si_inbox inp \<noteq> [] \<longrightarrow> settlement_get_matches inp \<and> settlement_inbox_matches inp s'' = Inr True"
    "mark_settlement_inbox_processed e3 (si_inbox inp) s'' = Inr s''" by simp_all
qed

lemma settle_callbacks_tx:
  assumes "settle_payment_tx e inp s = Inr (res, s')"
  shows "callbacks_kept s s'"
proof -
  have acc: "callbacks_kept s s'" if "settle_accepted e inp r s = Inr (res, s')" for r
    using that unfolding settle_accepted_def Let_def
    by (auto simp: bnd_Inr intro: review_callbacks mark_callbacks commit_callbacks split: option.split_asm if_split_asm)
  have "callbacks_kept s s'" if "settle_order e inp r s = Inr (res, s')" for r
    using that unfolding settle_order_def Let_def
    by (auto simp: bnd_Inr intro: review_callbacks acc split: if_split_asm option.split_asm)
  with assms show ?thesis
    unfolding settle_payment_tx_def by (auto simp: bnd_Inr intro: review_callbacks split: if_split_asm sum.split_asm)
qed

text \<open>No settlement, whatever it ends with, touches a processed callback; nor does a stored or woken one.\<close>

lemma settle_callbacks: "callbacks_kept s (snd (settle_payment e inp s))"
  unfolding settle_payment_def using settle_callbacks_tx
  by (auto simp: run_tx_def split: sum.split)

lemma save_callbacks: "callbacks_kept s (snd (save_verified_payment_callback e cb s))"
  unfolding save_verified_payment_callback_def using insert_callbacks
  by (auto simp: run_tx_def bnd_Inr bnd_def split: sum.split)

lemma wake_codes_callbacks: "wake_codes e codes s = Inr s' \<Longrightarrow> callbacks_kept s s'"
proof (induction e codes s rule: wake_codes.induct)
  case (2 e code codes s)
  let ?s = "s\<lparr>db_inbox := update_where (\<lambda>i. ib_code i = code \<and> ib_reason i = ''UNKNOWN_ORDER'' \<and> ib_processed i = [])
        (\<lambda>i. i\<lparr>ib_reason := ''AWAITING_ORDER_BIND''\<rparr>) (db_inbox s)\<rparr>"
  from 2(2) obtain s1 where w: "wake_payment_order_inbox_tx e code ?s = Inr s1" and r: "wake_codes e codes s1 = Inr s'"
    by (auto simp: bnd_Inr)
  have "callbacks_kept s ?s"
    by (rule callbacks_kept_update[where p = "\<lambda>i. ib_code i = code \<and> ib_reason i = ''UNKNOWN_ORDER'' \<and> ib_processed i = []"
          and f = "\<lambda>i. i\<lparr>ib_reason := ''AWAITING_ORDER_BIND''\<rparr>"]) simp_all
  moreover have "callbacks_kept ?s s1" by (rule callbacks_kept_same[OF wake_callbacks[OF w]])
  ultimately show ?case using 2(1)[OF w r] callbacks_kept_trans by blast
qed simp

text \<open>
  C2.  An order is settled once.  After a settlement has paid an order, whether its evidence came from a
  request or from a stored callback, in every later state (orders only extended, receipts and processed
  callbacks kept, as every operation of the service leaves them) no evidence whatever for that order moves
  money again, and the same evidence sent again is recognised as a duplicate that returns the paid order
  and changes nothing.
\<close>

theorem settle_once:
  assumes "settle_payment e inp s = (Inr res, s')" and "sr_event res = Some n" and "money_inv s" and "clock_ok (e_now e)"
    and "money_inv s''" and "orders_extend (db_orders s') (db_orders s'')" and "set (db_receipts s') \<subseteq> set (db_receipts s'')"
    and "clock_ok (e_now e2)" and "si_code inp2 = si_code inp"
    and "e_sha256 e3 = e_sha256 e" and "check_mutation_allowed e3 s'' = Inr ()" and "callbacks_kept s' s''"
  shows "books_same s'' (snd (settle_payment e2 inp2 s'')) \<and>
    (\<exists>r'. o_status r' = ''PAID'' \<and> o_code r' = si_code inp \<and>
      settle_payment e3 inp s'' = (Inr (no_result\<lparr>sr_order := Some r', sr_duplicate := True\<rparr>), s''))"
proof -
  have oinv: "orders_inv (db_orders s)" "orders_inv (db_orders s'')" using assms(3,5) by (simp_all add: money_inv_def)
  obtain res0 where tx: "settle_payment_tx e inp s = Inr (res0, s')" and
    ev: "sr_event res = map_option (\<lambda>n. n\<lparr>n_committed := now_text e\<rparr>) (sr_event res0)"
    using settle_payment_tx_of[OF assms(1)] by blast
  obtain n0 where n0: "sr_event res0 = Some n0" using ev assms(2) by (cases "sr_event res0") simp_all
  obtain r where r: "r \<in> set (db_orders s)" "o_code r = si_code inp" "evidence_fits inp r s" "o_status r \<noteq> ''PAID''"
      "settle_commit e inp r s = Inr (res0, s')"
    and g: "si_at inp \<noteq> zero_time" "si_channel inp \<noteq> []" "0 < si_code inp" "si_link inp \<noteq> []" "trim_space (si_reference inp) \<noteq> []"
      "0 < si_amount inp" "si_source inp = ''REALTIME'' \<or> si_source inp = ''CATCH_UP''"
    by (rule settle_committed[OF tx n0 oinv(1) assms(4)])
  obtain tid key where rows: "settled_rows e inp r s s' tid key" and tid: "tid \<noteq> []"
    by (rule commit_rows[OF r(5) oinv(1) r(1)])
  let ?p = "paid_order e inp tid r" and ?c = "settled_receipt e inp r tid"
  have p: "?p \<in> set (db_orders s')" using rows r(1) by (auto simp: settled_rows_def set_update_where)
  obtain r' where r': "r' \<in> set (db_orders s'')" "order_extends ?p r'" using assms(6) p by (auto simp: orders_extend_def)
  have acc: "effective_payment_account (si_account inp) (si_virtual inp) \<noteq> []" using r(3) by (simp add: evidence_fits_def)
  have r'f: "o_id r' = o_id r" "o_code r' = si_code inp" "o_status r' = ''PAID''" "o_transaction r' = tid" "o_link r' = si_link inp"
    "o_amount r' = si_amount inp" "o_channel r' = si_channel inp"
    "o_account r' = effective_payment_account (si_account inp) (si_virtual inp)"
    using r'(2) r(2,3) g(4) acc by (auto simp: order_extends_def paid_order_def evidence_fits_def)
  have code: "payment_order_by_code (si_code inp) s'' = Inr r'"
  proof -
    have "find (\<lambda>x. o_code x = o_code r') (db_orders s'') = Some r'"
      using oinv(2) r'(1) by (intro find_key_unique) (simp_all add: orders_inv_def)
    then show ?thesis by (simp add: payment_order_by_code_def r'f)
  qed
  have "books_same s'' (snd (settle_payment e2 inp2 s''))"
  proof (cases "settle_payment e2 inp2 s''")
    case (Pair out t)
    note k = settle_books_step[OF Pair assms(5,8)]
    show ?thesis
    proof (cases out)
      case (Inr res2)
      show ?thesis
      proof (cases "sr_event res2")
        case (Some n2)
        with k Inr obtain x where x: "x \<in> set (db_orders s'')" "o_code x = si_code inp2" "o_status x \<noteq> ''PAID''" by auto
        then have "x = r'" using oinv(2) r'(1) r'f(2) assms(9) distinct_key_eq[of o_code "db_orders s''" x r']
          by (simp add: orders_inv_def)
        with x(3) r'f(3) show ?thesis by simp
      qed (use k Inr in \<open>simp add: Pair\<close>)
    qed (use k in \<open>simp add: Pair\<close>)
  qed
  moreover have "settle_payment e3 inp s'' = (Inr (no_result\<lparr>sr_order := Some r', sr_duplicate := True\<rparr>), s'')"
  proof -
    have c: "?c \<in> set (db_receipts s'')" using rows assms(7) by (auto simp: settled_rows_def)
    have "find (\<lambda>x. (rc_channel x, rc_reference x) = (rc_channel ?c, rc_reference ?c)) (db_receipts s'') = Some ?c"
      using assms(5) c by (intro find_key_unique) (simp_all add: money_inv_def)
    then have rof: "receipt_of inp s'' = Some ?c" by (simp add: receipt_of_def settled_receipt_def)
    have hash: "rc_hash ?c = settlement_canonical_hash e3 inp" "rc_order ?c = o_id r'" "rc_transaction ?c = tid"
      using r'f(1) assms(10) by (simp_all add: settled_receipt_def settlement_canonical_hash_def sha_hex_def)
    have get: "si_get inp \<noteq> None \<longrightarrow> settlement_get_matches inp" using r(3) by (simp add: evidence_fits_def)
    note box = inbox_settled[OF r(5,3) assms(4,12)]
    have "settle_accepted e3 inp r' s'' = Inr (no_result\<lparr>sr_order := Some r', sr_duplicate := True\<rparr>, s'')"
      using rof hash r'f by (simp add: settle_accepted_def box(2))
    then have "settle_order e3 inp r' s'' = Inr (no_result\<lparr>sr_order := Some r', sr_duplicate := True\<rparr>, s'')"
      using rof hash r'f get acc g(4) box(1) by (auto simp: settle_order_def Let_def)
    then have "settle_payment_tx e3 inp s'' = Inr (no_result\<lparr>sr_order := Some r', sr_duplicate := True\<rparr>, s'')"
      using code assms(11) g by (auto simp: settle_payment_tx_def)
    then show ?thesis by (simp add: settle_payment_def run_tx_def)
  qed
  ultimately show ?thesis using r'f by blast
qed

lemma receipt_order_unique:
  assumes "money_inv s" "c \<in> set (db_receipts s)" "c' \<in> set (db_receipts s)" "rc_order c = rc_order c'"
  shows "c = c'"
proof -
  have b: "receipt_backed s c" "receipt_backed s c'" and oinv: "orders_inv (db_orders s)"
    using assms by (simp_all add: money_inv_def)
  obtain x y where x: "x \<in> set (db_orders s)" "o_id x = rc_order c" "o_transaction x = rc_transaction c"
    and y: "y \<in> set (db_orders s)" "o_id y = rc_order c'" "o_transaction y = rc_transaction c'"
    using b unfolding receipt_backed_def by blast
  have "x = y" using row_unique[OF oinv x(1) y(1)] x y assms(4) by simp
  then have "rc_transaction c = rc_transaction c'" using x y by simp
  then show ?thesis using assms distinct_key_eq[of rc_transaction "db_receipts s"] by (simp add: money_inv_def)
qed

lemma receipts_paid_sum:
  assumes "money_inv s"
  shows "sum rc_amount (set (db_receipts s)) = sum o_amount {r \<in> set (db_orders s). o_status r = ''PAID''}"
proof (rule sum.reindex_bij_witness
    [of _ "\<lambda>r. the (find (\<lambda>c. rc_order c = o_id r) (db_receipts s))" "\<lambda>c. the (find (\<lambda>r. o_id r = rc_order c) (db_orders s))"])
  have oinv: "orders_inv (db_orders s)" using assms by (simp add: money_inv_def)
  {
    fix c assume c: "c \<in> set (db_receipts s)"
    then have "receipt_backed s c" using assms by (simp add: money_inv_def)
    then obtain x where x: "x \<in> set (db_orders s)" "o_id x = rc_order c" "o_status x = ''PAID''" "o_amount x = rc_amount c"
      unfolding receipt_backed_def by blast
    have f: "find (\<lambda>r. o_id r = rc_order c) (db_orders s) = Some x"
      using find_key_unique[of o_id "db_orders s" x] oinv x(1,2) by (simp add: orders_inv_def)
    have "find (\<lambda>d. rc_order d = o_id x) (db_receipts s) \<noteq> None" using c x(2) by (auto simp: find_None_iff)
    then obtain d where d: "find (\<lambda>d. rc_order d = o_id x) (db_receipts s) = Some d" by auto
    then have "d = c" using find_Some_iff2[OF d] receipt_order_unique[OF assms _ c] x(2) by simp
    with f d x show "the (find (\<lambda>d. rc_order d = o_id (the (find (\<lambda>r. o_id r = rc_order c) (db_orders s)))) (db_receipts s)) = c"
      "the (find (\<lambda>r. o_id r = rc_order c) (db_orders s)) \<in> {r \<in> set (db_orders s). o_status r = ''PAID''}"
      "o_amount (the (find (\<lambda>r. o_id r = rc_order c) (db_orders s))) = rc_amount c"
      by simp_all
  }
  fix r assume "r \<in> {r \<in> set (db_orders s). o_status r = ''PAID''}"
  then have r: "r \<in> set (db_orders s)" "o_status r = ''PAID''" by simp_all
  then have "\<exists>c\<in>set (db_receipts s). rc_order c = o_id r" using assms unfolding money_inv_def by blast
  then have "find (\<lambda>c. rc_order c = o_id r) (db_receipts s) \<noteq> None" by (auto simp: find_None_iff)
  then obtain c where c: "find (\<lambda>c. rc_order c = o_id r) (db_receipts s) = Some c" by auto
  note c' = find_Some_iff2[OF c]
  have "find (\<lambda>x. o_id x = o_id r) (db_orders s) = Some r"
    using find_key_unique[of o_id "db_orders s" r] oinv r(1) by (simp add: orders_inv_def)
  with c c' show "the (find (\<lambda>r'. o_id r' = rc_order (the (find (\<lambda>c. rc_order c = o_id r) (db_receipts s)))) (db_orders s)) = r"
    "the (find (\<lambda>c. rc_order c = o_id r) (db_receipts s)) \<in> set (db_receipts s)"
    by simp_all
qed

lemma receipts_credit_sum:
  assumes "money_inv s"
  shows "sum rc_amount (set (db_receipts s)) = sum t_credit {t \<in> set (db_transactions s). t_id t \<in> rc_transaction ` set (db_receipts s)}"
proof -
  let ?T = "{t \<in> set (db_transactions s). t_id t \<in> rc_transaction ` set (db_receipts s)}"
  have d: "distinct (map t_id (db_transactions s))" "distinct (map rc_transaction (db_receipts s))"
    using assms by (simp_all add: money_inv_def)
  have inj: "inj_on t_id ?T" "inj_on rc_transaction (set (db_receipts s))"
    using d by (auto simp: distinct_map inj_on_def)
  have img: "t_id ` ?T = rc_transaction ` set (db_receipts s)"
  proof
    show "rc_transaction ` set (db_receipts s) \<subseteq> t_id ` ?T"
    proof
      fix i assume "i \<in> rc_transaction ` set (db_receipts s)"
      then obtain c where c: "c \<in> set (db_receipts s)" "i = rc_transaction c" by blast
      then have "receipt_backed s c" using assms by (simp add: money_inv_def)
      then obtain t where "t \<in> set (db_transactions s)" "t_id t = i" unfolding receipt_backed_def c(2) by blast
      with c show "i \<in> t_id ` ?T" by (intro image_eqI[of _ _ t]) simp_all
    qed
  qed blast
  define amount where "amount i = rc_amount (the (find (\<lambda>c. rc_transaction c = i) (db_receipts s)))" for i
  have a: "amount (rc_transaction c) = rc_amount c" if "c \<in> set (db_receipts s)" for c
    using find_key_unique[OF d(2) that] by (simp add: amount_def)
  have t: "amount (t_id t) = t_credit t" if t: "t \<in> ?T" for t
  proof -
    from t obtain c where c: "c \<in> set (db_receipts s)" "t_id t = rc_transaction c" by auto
    have "receipt_backed s c" using assms c by (simp add: money_inv_def)
    then obtain u where u: "u \<in> set (db_transactions s)" "t_id u = rc_transaction c" "t_credit u = rc_amount c"
      unfolding receipt_backed_def by blast
    then have "u = t" using distinct_key_eq[OF d(1), of u t] t c(2) by simp
    then show ?thesis using a[OF c(1)] c(2) u(3) by simp
  qed
  have "sum rc_amount (set (db_receipts s)) = sum amount (rc_transaction ` set (db_receipts s))"
    using inj(2) a by (simp add: sum.reindex)
  also have "\<dots> = sum amount (t_id ` ?T)" by (simp only: img)
  also have "\<dots> = sum t_credit ?T" using inj(1) t by (simp add: sum.reindex)
  finally show ?thesis .
qed

text \<open>
  The books balance: the receipts add up to the amounts of the paid orders, and to the credits of
  the transactions that the receipts name.
\<close>

theorem books_balance:
  assumes "money_inv s"
  shows "sum_list (map rc_amount (db_receipts s)) = sum_list (map o_amount (filter (\<lambda>r. o_status r = ''PAID'') (db_orders s))) \<and>
    sum_list (map rc_amount (db_receipts s)) =
      sum_list (map t_credit (filter (\<lambda>t. t_id t \<in> rc_transaction ` set (db_receipts s)) (db_transactions s)))"
proof -
  have d: "distinct (db_receipts s)" "distinct (db_orders s)" "distinct (db_transactions s)"
    using assms by (auto simp: money_inv_def orders_inv_def distinct_map)
  then show ?thesis
    using receipts_paid_sum[OF assms] receipts_credit_sum[OF assms]
    by (simp add: sum_list_distinct_conv_sum_set distinct_map)
qed

section \<open>Instances\<close>

definition sample_evidence :: settlement_input where
  "sample_evidence = \<lparr>si_channel = ''channel'', si_namespace = ''0123456789abcdef0123456789abcdef'', si_code = 100000000005,
     si_link = ''link'', si_reference = ''FT1'', si_amount = 25000, si_at = sample_time, si_account = ''0123'', si_virtual = [],
     si_source = ''REALTIME'', si_detected = zero_time, si_inbox = [], si_callback = None,
     si_get = Some \<lparr>sv_code = 100000000005, sv_link = ''link'', sv_reference = ''FT1'', sv_amount = 25000, sv_at = sample_time,
       sv_account = ''0123'', sv_virtual = []\<rparr>\<rparr>"

lemma sample_db_simps [simp]:
  "db_orders sample_db = [sample_order]" "db_receipts sample_db = []" "db_transactions sample_db = []" "db_events sample_db = []"
  "db_endpoints sample_db = []" "db_deliveries sample_db = []" "db_inbox sample_db = []"
  by (simp_all add: sample_db_def)

lemma sample_order_more: "o_code sample_order = 100000000005" "o_amount sample_order = 25000" "o_account sample_order = []"
  "o_transaction sample_order = []"
  by (simp_all add: sample_order_def new_order_def Let_def sample_intent_def)

lemma sample_money: "money_inv sample_db"
  using sample_inv by (simp add: money_inv_def sample_order_fields)

lemma sample_namespace: "valid_namespace ''0123456789abcdef0123456789abcdef''"
  by (simp add: valid_namespace_def hex_value_def Let_def)

lemma sample_commit:
  "\<exists>res s'. settle_commit (sample_env sample_time) sample_evidence sample_order sample_db = Inr (res, s') \<and> sr_event res \<noteq> None"
proof -
  have ns: "settlement_namespace (sample_env sample_time) sample_evidence = ''0123456789abcdef0123456789abcdef''"
    and inbox: "si_inbox sample_evidence = []" and link: "si_link sample_evidence = ''link''"
    by (simp_all add: settlement_namespace_def sample_evidence_def)
  have tid: "t_id (settled_transaction e inp r tid key) = tid" for e inp r tid key
    by (simp add: settled_transaction_def Let_def)
  show ?thesis
    by (simp add: settle_commit_def ns sample_namespace Let_def link_clash_def transaction_clash_def
        emit_transaction_event_tx_def tid endpoint_refs_def bnd_Inr mark_settlement_inbox_processed_def inbox link payment_order_def)
qed

lemma sample_settle:
  "\<exists>res s' n. settle_payment (sample_env sample_time) sample_evidence sample_db = (Inr res, s') \<and> sr_event res = Some n"
proof -
  obtain res s' where c: "settle_commit (sample_env sample_time) sample_evidence sample_order sample_db = Inr (res, s')"
    "sr_event res \<noteq> None"
    using sample_commit by blast
  have f: "si_at sample_evidence = sample_time" "si_channel sample_evidence = ''channel''" "si_code sample_evidence = 100000000005"
    "si_link sample_evidence = ''link''" "si_reference sample_evidence = ''FT1''" "si_amount sample_evidence = 25000"
    "si_source sample_evidence = ''REALTIME''" "si_inbox sample_evidence = []"
    "effective_payment_account (si_account sample_evidence) (si_virtual sample_evidence) = ''0123''"
    "settlement_get_matches sample_evidence" "receipt_of sample_evidence sample_db = None"
    by (simp_all add: sample_evidence_def effective_payment_account_def settlement_get_matches_def receipt_of_def)
  have "settle_payment_tx (sample_env sample_time) sample_evidence sample_db = Inr (res, s')"
    using c(1)
    by (simp add: settle_payment_tx_def f zero_time_def payment_order_by_code_def sample_order_more printable_def
        settle_order_def Let_def sample_order_fields settle_accepted_def)
  then show ?thesis using c(2) by (simp add: settle_payment_def run_tx_def)
qed

lemma settle_keeps_books_witness:
  "\<exists>out s'. settle_payment (sample_env sample_time) sample_evidence sample_db = (out, s') \<and> money_inv s'"
proof -
  obtain out s' where s: "settle_payment (sample_env sample_time) sample_evidence sample_db = (out, s')" by fastforce
  from settle_keeps_books[OF s sample_money] s clock_sample[of sample_time] show ?thesis by simp
qed

lemma sample_settled:
  assumes "settle_payment (sample_env sample_time) sample_evidence sample_db = (Inr res, s')" "sr_event res = Some n"
  shows "money_inv s' \<and> check_deployment_gate e s' = Inr () \<and> length (db_receipts s') = 1"
proof -
  note k = settle_books_step[OF assms(1) sample_money]
  obtain res0 where tx: "settle_payment_tx (sample_env sample_time) sample_evidence sample_db = Inr (res0, s')"
    using settle_payment_tx_of[OF assms(1)] by blast
  have "db_control s' = db_control sample_db" if "settle_commit e inp r sample_db = Inr (res0, s')" for e inp r
    using that
    by (auto simp: settle_commit_def Let_def bnd_Inr emit_transaction_event_tx_def append_journal_def
        mark_settlement_inbox_processed_def split: if_split_asm option.split_asm)
  moreover obtain r where "settle_commit (sample_env sample_time) sample_evidence r sample_db = Inr (res0, s')"
  proof -
    obtain n0 where "sr_event res0 = Some n0"
      using settle_payment_tx_of[OF assms(1)] assms(2) tx by (cases "sr_event res0") auto
    then show thesis
      using settle_committed[OF tx _ sample_inv] clock_sample[of sample_time] that by auto
  qed
  ultimately have "db_control s' = db_control sample_db" by blast
  then have "check_deployment_gate e s' = Inr ()" by (intro gate_open_allows) (simp add: sample_db_def)
  with k assms(2) clock_sample[of sample_time] show ?thesis by (auto simp: settled_rows_def)
qed

lemma settle_once_witness:
  "\<exists>res s' r'. settle_payment (sample_env sample_time) sample_evidence sample_db = (Inr res, s') \<and> o_status r' = ''PAID'' \<and>
    settle_payment (sample_env (sample_time + 1)) sample_evidence s' =
      (Inr (no_result\<lparr>sr_order := Some r', sr_duplicate := True\<rparr>), s')"
proof -
  obtain res s' n where s: "settle_payment (sample_env sample_time) sample_evidence sample_db = (Inr res, s')" "sr_event res = Some n"
    using sample_settle by blast
  have "e_sha256 (sample_env (sample_time + 1)) = e_sha256 (sample_env sample_time)" by (simp add: sample_env_def)
  from settle_once[OF s sample_money _ _ orders_extend_refl order.refl, of "sample_env (sample_time + 1)" sample_evidence
      "sample_env (sample_time + 1)"] sample_settled[OF s] s(1) this
  show ?thesis by (simp add: clock_sample sample_evidence_def) blast
qed

lemma books_balance_witness:
  "\<exists>s' :: db. length (db_receipts s') = 1 \<and>
    sum_list (map rc_amount (db_receipts s')) = sum_list (map o_amount (filter (\<lambda>r. o_status r = ''PAID'') (db_orders s')))"
proof -
  obtain res s' n where s: "settle_payment (sample_env sample_time) sample_evidence sample_db = (Inr res, s')" "sr_event res = Some n"
    using sample_settle by blast
  have m: "money_inv s'" "length (db_receipts s') = 1" using sample_settled[OF s] by simp_all
  from books_balance[OF m(1)] m(2) show ?thesis by blast
qed

end
