(* ===== verification/SePay.thy ===== *)
theory SePay
  imports ProviderConfig Settlement
begin

text \<open>
  internal/storage/sepay.go and sepay_config.go: the SePay store.  A notification of the Telegram bot or
  of the native webhook is kept as encrypted evidence and becomes at most one credit.  The branches of
  an ingestion after its evidence row was written are a \<open>decision\<close>: finish the row with a reason, put the
  candidate into quarantine, or accept the credit.  The draws of an ingestion are the nonce of the evidence (0), of the
  receiver (1) and of the private details (3), the transaction (2) and the deliveries (from 4).  An
  error without a sentinel carries a fixed text.  The settings are the value that their JSON text encodes.
\<close>

section \<open>Data\<close>

record note_details =
  nd_balance :: "int option"
  nd_description :: string

record credit_note =
  cd_amount :: int
  cd_reference :: string
  cd_at :: instant
  cd_details :: note_details

record telegram_note =
  sn_store :: string
  sn_bank :: string
  sn_account :: string
  sn_mode :: string
  sn_review :: string
  sn_bot :: int
  sn_update :: int
  sn_chat :: int
  sn_message :: int
  sn_revision :: int
  sn_activation :: instant
  sn_message_at :: instant
  sn_payload :: string
  sn_credit :: "credit_note option"

record webhook_note =
  sw_store :: string
  sw_bank :: string
  sw_account :: string
  sw_mode :: string
  sw_review :: string
  sw_gateway :: string
  sw_notified :: string
  sw_sub :: string
  sw_reference :: string
  sw_type :: string
  sw_provider :: int
  sw_amount :: int
  sw_revision :: int
  sw_activation :: instant
  sw_at :: instant
  sw_payload :: string
  sw_verified :: bool
  sw_details :: note_details

record ingest_result =
  ig_duplicate :: bool
  ig_review :: string
  ig_event :: "event_note option"

datatype decision = Finish bool string string | Quarantine string string | Accept

section \<open>Evidence\<close>

definition sepay_canonical_hash :: "env \<Rightarrow> telegram_note \<Rightarrow> credit_note \<Rightarrow> string" where
  "sepay_canonical_hash e inp c = sha_hex e (json_text (JArr [JStr (sn_store inp), JStr (sn_bank inp), JStr (sn_account inp),
     JStr (cd_reference c), JNum (int_text (cd_amount c)), JStr (fmt_nano (cd_at c))]))"

definition sepay_payload_hashes :: "env \<Rightarrow> string \<Rightarrow> err + (string \<times> string)" where
  "sepay_payload_hashes e raw =
     (if raw = [] \<or> 64 * 1024 < length raw then Inl (ErrText ''invalid SePay payload size'')
      else case json_decode raw of
        Some (JObj kvs, rest) \<Rightarrow>
          if skip_blanks rest \<noteq> [] then Inl (ErrText ''invalid SePay trailing payload'')
          else Inr (sha_hex e (json_text (JObj kvs)), sha_hex e (json_text (JObj (filter (\<lambda>kv. fst kv \<noteq> ''update_id'') kvs))))
      | _ \<Rightarrow> Inl (ErrText ''invalid SePay payload object''))"

definition sepay_inbox_aad :: "int \<Rightarrow> int \<Rightarrow> string" where
  "sepay_inbox_aad b u = ''sepay-telegram:'' @ int_text b @ '':'' @ int_text u"

definition sepay_encrypt :: "vault \<Rightarrow> string \<Rightarrow> string \<Rightarrow> string \<Rightarrow> err + string" where
  "sepay_encrypt v nonce raw aad = seal_text v nonce raw aad"

definition sepay_decrypt :: "vault \<Rightarrow> string \<Rightarrow> string \<Rightarrow> err + string" where
  "sepay_decrypt v blob aad = unseal_text v (ErrText ''decrypt'') blob aad"

definition review_reasons :: "string set" where
  "review_reasons = {''INVALID_TEMPLATE'', ''OUTGOING'', ''ACCOUNT_MISMATCH'', ''INVALID_AMOUNT'', ''INVALID_TRANSACTION_DATE'',
     ''MISSING_REFERENCE'', ''REFERENCE_CONFLICT'', ''EDITED_MESSAGE''}"

definition valid_review_reason :: "string \<Rightarrow> bool" where
  "valid_review_reason reason \<longleftrightarrow> reason \<in> review_reasons"

section \<open>Shared steps\<close>

definition store_connection :: "string \<Rightarrow> string" where
  "store_connection store = ''sepay-store:'' @ store"

definition check_sepay_revision :: "int \<Rightarrow> db \<Rightarrow> err + unit" where
  "check_sepay_revision expected s =
     ensure (expected = (case db_managed s of None \<Rightarrow> 0 | Some m \<Rightarrow> mg_revision m)) ErrSePayRevisionConflict"

definition ensure_connection :: "vault \<Rightarrow> env \<Rightarrow> string \<Rightarrow> string \<Rightarrow> string \<Rightarrow> db \<Rightarrow> err + db" where
  "ensure_connection v e store bank account s =
     (let cid = store_connection store in
      case find (\<lambda>c. cn_id c = cid) (db_connections s) of
        Some c \<Rightarrow>
          if cn_bank c \<noteq> bank \<or> cn_account c = [] then Inl ErrSePayReceiverMismatch
          else bnd (sepay_decrypt v (cn_account c) cid) (\<lambda>plain.
            if plain \<noteq> account then Inl ErrSePayReceiverMismatch
            else Inr (s\<lparr>db_connections := update_where (\<lambda>c. cn_id c = cid)
              (\<lambda>c. c\<lparr>cn_state := ''WEBHOOK'', cn_updated := now_text e\<rparr>) (db_connections s)\<rparr>))
      | None \<Rightarrow> bnd (sepay_encrypt v (e_id e 1) account cid) (\<lambda>blob.
          Inr (s\<lparr>db_connections := db_connections s @ [\<lparr>cn_id = cid, cn_bank = bank, cn_account = blob, cn_state = ''WEBHOOK'',
            cn_created = now_text e, cn_updated = now_text e\<rparr>]\<rparr>)))"

definition ingest_finished :: "bool \<Rightarrow> string \<Rightarrow> ingest_result" where
  "ingest_finished dup reason = \<lparr>ig_duplicate = (dup \<or> reason = ''DUPLICATE''),
     ig_review = (if reason = ''DUPLICATE'' \<or> reason = ''ACCEPTED'' then [] else reason), ig_event = None\<rparr>"

definition add_quarantine :: "quarantine_row \<Rightarrow> db \<Rightarrow> db" where
  "add_quarantine r s = (if \<exists>x\<in>set (db_quarantine s). q_id x = q_id r then s else s\<lparr>db_quarantine := db_quarantine s @ [r]\<rparr>)"

definition details_text :: "note_details \<Rightarrow> string" where
  "details_text d = struct_text ((case nd_balance d of None \<Rightarrow> [] | Some b \<Rightarrow> [(''balanceVnd'', JNum (int_text b))]) @
     [(''description'', JStr (nd_description d))])"

definition details_aad :: "string \<Rightarrow> string" where
  "details_aad tid = ''sepay-notification:'' @ tid"

record accepted_credit =
  ac_store :: string
  ac_bank :: string
  ac_account :: string
  ac_key :: string
  ac_hash :: string
  ac_reference :: string
  ac_source :: string
  ac_parser :: string
  ac_amount :: int
  ac_at :: instant
  ac_details :: note_details

definition qr_description :: string where
  "qr_description = ''Thanh to'' @ [CHR 0xC3, CHR 0xA1] @ ''n QR c'' @ [CHR 0xE1, CHR 0xBB, CHR 0xAD] @ ''a h'' @ [CHR 0xC3, CHR 0xA0] @ ''ng''"

definition credit_transaction :: "env \<Rightarrow> accepted_credit \<Rightarrow> string \<Rightarrow> transaction" where
  "credit_transaction e c tid =
     \<lparr>t_id = tid, t_connection = store_connection (ac_store c), t_key = ac_key c, t_hash = ac_hash c, t_date = fmt_nano (ac_at c),
      t_effective = fmt_nano (ac_at c), t_debit = 0, t_credit = ac_amount c, t_balance = None, t_description = qr_description,
      t_parser = ac_parser c, t_baseline = ''NONE'', t_first_seen = now_text e, t_iso = fmt_nano (ac_at c),
      t_day = fmt_day default_location (ac_at c), t_precision = ''datetime'', t_source = ac_source c\<rparr>"

definition credit_data :: "env \<Rightarrow> accepted_credit \<Rightarrow> string \<Rightarrow> jval" where
  "credit_data e c tid = JObj (map (\<lambda>(k, v). (k, JStr v))
     [(''bank'', ac_bank c), (''provider'', ''SEPAY''), (''transactionId'', tid), (''transactionNumber'', ac_reference c),
      (''credit'', int_text (ac_amount c)), (''debit'', ''0''), (''currency'', ''VND''), (''transactionDate'', fmt_nano (ac_at c)),
      (''transactionDay'', fmt_day default_location (ac_at c)), (''datePrecision'', ''datetime''), (''source'', ac_source c),
      (''description'', qr_description), (''detectedAt'', now_text e)])"

definition insert_sepay_credit :: "vault \<Rightarrow> env \<Rightarrow> accepted_credit \<Rightarrow> db \<Rightarrow> err + ((string \<times> event_note) \<times> db)" where
  "insert_sepay_credit v e c s =
     (let tid = fresh_id e ''txn'' 2 in
      if \<exists>t\<in>set (db_transactions s). t_id t = tid \<or> t_connection t = store_connection (ac_store c) \<and> t_key t = ac_key c
      then Inl ErrConstraint
      else bnd (sepay_encrypt v (e_id e 3) (details_text (ac_details c)) (details_aad tid)) (\<lambda>blob.
        if \<exists>d\<in>set (db_details s). sd_transaction d = tid then Inl (ErrText ''store SePay notification details failed'')
        else bnd (emit_transaction_event_tx e 4 tid ''bank.transaction.credit'' (store_connection (ac_store c)) (ac_key c)
            (credit_data e c tid) (now_text e)
            (s\<lparr>db_transactions := db_transactions s @ [credit_transaction e c tid],
               db_details := db_details s @ [\<lparr>sd_transaction = tid, sd_blob = blob\<rparr>]\<rparr>)) (\<lambda>(note, s').
          case note of None \<Rightarrow> Inl (ErrText ''new SePay transaction did not produce an event'') | Some n \<Rightarrow> Inr ((tid, n), s'))))"

definition max_amount :: int where "max_amount = 9007199254740991"

definition realtime_window :: "instant \<Rightarrow> instant \<Rightarrow> bool" where
  "realtime_window received at \<longleftrightarrow> - 30 * second \<le> received - at \<and> received - at \<le> 120 * second"

function rune_count :: "string \<Rightarrow> nat" where
  "rune_count s = (if s = [] then 0 else Suc (rune_count (drop (max 1 (rune_width s)) s)))"
  by auto
termination by (relation "measure length") auto

declare rune_count.simps [simp del]

section \<open>Telegram notifications\<close>

definition invalid_telegram :: "telegram_note \<Rightarrow> bool" where
  "invalid_telegram inp \<longleftrightarrow> sn_store inp = [] \<or> sn_bank inp = [] \<or> sn_account inp = [] \<or> sn_bot inp \<le> 0 \<or> sn_update inp < 0 \<or>
     0 \<le> sn_chat inp \<or> sn_message inp \<le> 0 \<or> (sn_mode inp \<noteq> ''active'' \<and> sn_mode inp \<noteq> ''observe'') \<or> sn_activation inp = zero_time"

definition telegram_key :: "telegram_note \<Rightarrow> telegram_row \<Rightarrow> bool" where
  "telegram_key inp r \<longleftrightarrow> ti_bot r = sn_bot inp \<and> ti_update r = sn_update inp"

definition telegram_evidence :: "env \<Rightarrow> telegram_note \<Rightarrow> string \<Rightarrow> string \<Rightarrow> telegram_row" where
  "telegram_evidence e inp hash blob = \<lparr>ti_bot = sn_bot inp, ti_update = sn_update inp, ti_chat = sn_chat inp, ti_message = sn_message inp,
     ti_hash = hash, ti_blob = blob, ti_store = sn_store inp, ti_reason = ''INVALID_TEMPLATE'', ti_received = now_text e, ti_transaction = []\<rparr>"

definition finish_telegram :: "telegram_note \<Rightarrow> string \<Rightarrow> string \<Rightarrow> db \<Rightarrow> db" where
  "finish_telegram inp reason tid s = s\<lparr>db_telegram := update_where (telegram_key inp)
     (\<lambda>r. r\<lparr>ti_reason := reason, ti_transaction := tid\<rparr>) (db_telegram s)\<rparr>"

definition telegram_semantic :: "telegram_note \<Rightarrow> string" where
  "telegram_semantic inp = (case sn_credit inp of
     Some c \<Rightarrow> if cd_reference c \<noteq> [] then ''SEPAY:'' @ sn_store inp @ '':'' @ cd_reference c
       else ''SEPAY:'' @ sn_store inp @ '':telegram:'' @ int_text (sn_bot inp) @ '':'' @ int_text (sn_chat inp) @ '':'' @ int_text (sn_message inp)
   | None \<Rightarrow> ''SEPAY:'' @ sn_store inp @ '':telegram:'' @ int_text (sn_bot inp) @ '':'' @ int_text (sn_chat inp) @ '':'' @ int_text (sn_message inp))"

definition telegram_candidate :: "env \<Rightarrow> telegram_note \<Rightarrow> string \<Rightarrow> string \<Rightarrow> string \<Rightarrow> string \<Rightarrow> quarantine_row" where
  "telegram_candidate e inp hash blob reason existing =
     \<lparr>q_id = ''sepay_quarantine_'' @ sha_hex e (sn_store inp @ '':'' @ int_text (sn_bot inp) @ '':'' @ int_text (sn_update inp) @ '':'' @
        hash @ '':'' @ reason),
      q_connection = store_connection (sn_store inp), q_key = telegram_semantic inp, q_existing = existing, q_candidate = blob,
      q_reason = reason, q_created = now_text e\<rparr>"

text \<open>An earlier update about the same message.\<close>

definition previous_message :: "telegram_note \<Rightarrow> db \<Rightarrow> telegram_row option" where
  "previous_message inp s = find (\<lambda>r. ti_bot r = sn_bot inp \<and> ti_chat r = sn_chat inp \<and> ti_message r = sn_message inp \<and>
     ti_update r \<noteq> sn_update inp) (db_telegram s)"

definition decide_previous :: "vault \<Rightarrow> env \<Rightarrow> telegram_note \<Rightarrow> string \<Rightarrow> telegram_row \<Rightarrow> err + decision" where
  "decide_previous v e inp mhash p =
     bnd (sepay_decrypt v (ti_blob p) (sepay_inbox_aad (sn_bot inp) (ti_update p))) (\<lambda>raw.
     bnd (sepay_payload_hashes e raw) (\<lambda>(_, phash).
       if sn_review inp = ''EDITED_MESSAGE'' then Inr (Quarantine ''EDITED_MESSAGE'' (ti_hash p))
       else if phash \<noteq> mhash \<or> ti_store p \<noteq> sn_store inp then Inr (Quarantine ''REFERENCE_CONFLICT'' (ti_hash p))
       else if ti_reason p \<in> {''ACCEPTED'', ''DUPLICATE'', ''OBSERVATION''} then Inr (Finish True ''DUPLICATE'' (ti_transaction p))
       else Inr (Finish True (ti_reason p) [])))"

definition sepay_receipt_of :: "string \<Rightarrow> string \<Rightarrow> db \<Rightarrow> sepay_receipt option" where
  "sepay_receipt_of store reference s = find (\<lambda>r. sp_store r = store \<and> sp_reference r = reference) (db_sepay_receipts s)"

definition decide_credit :: "env \<Rightarrow> telegram_note \<Rightarrow> credit_note \<Rightarrow> db \<Rightarrow> decision" where
  "decide_credit e inp c s =
     (if cd_amount c \<le> 0 \<or> max_amount < cd_amount c then Finish False ''INVALID_AMOUNT'' []
      else if cd_at c = zero_time then Finish False ''INVALID_TRANSACTION_DATE'' []
      else if trim_space (cd_reference c) = [] \<or> 200 < rune_count (cd_reference c) then Finish False ''MISSING_REFERENCE'' []
      else case sepay_receipt_of (sn_store inp) (cd_reference c) s of
        Some r \<Rightarrow> if sp_hash r \<noteq> sepay_canonical_hash e inp c then Quarantine ''REFERENCE_CONFLICT'' (sp_hash r)
          else Finish False ''DUPLICATE'' (sp_transaction r)
      | None \<Rightarrow>
          if cd_at c < sn_activation inp then Finish False ''PRE_ACTIVATION'' []
          else if sn_mode inp = ''observe'' then Finish False ''OBSERVATION'' []
          else Accept)"

definition decide_telegram :: "vault \<Rightarrow> env \<Rightarrow> telegram_note \<Rightarrow> string \<Rightarrow> db \<Rightarrow> err + decision" where
  "decide_telegram v e inp mhash s =
     (case previous_message inp s of
        Some p \<Rightarrow> decide_previous v e inp mhash p
      | None \<Rightarrow>
          if sn_review inp \<noteq> [] then Inr (Finish False (sn_review inp) [])
          else case sn_credit inp of
            None \<Rightarrow> Inr (Finish False ''INVALID_TEMPLATE'' [])
          | Some c \<Rightarrow> Inr (decide_credit e inp c s))"

definition telegram_credit :: "env \<Rightarrow> telegram_note \<Rightarrow> credit_note \<Rightarrow> accepted_credit" where
  "telegram_credit e inp c = \<lparr>ac_store = sn_store inp, ac_bank = sn_bank inp, ac_account = sn_account inp,
     ac_key = ''SEPAY:'' @ sn_store inp @ '':'' @ cd_reference c, ac_hash = sepay_canonical_hash e inp c, ac_reference = cd_reference c,
     ac_source = (if sn_message_at inp \<noteq> zero_time \<and> realtime_window (e_now e) (sn_message_at inp) then ''REALTIME'' else ''CATCH_UP''),
     ac_parser = ''sepay-telegram-v1'', ac_amount = cd_amount c, ac_at = cd_at c, ac_details = cd_details c\<rparr>"

definition accept_telegram :: "vault \<Rightarrow> env \<Rightarrow> telegram_note \<Rightarrow> credit_note \<Rightarrow> db \<Rightarrow> err + (ingest_result \<times> db)" where
  "accept_telegram v e inp c s =
     bnd (insert_sepay_credit v e (telegram_credit e inp c) s) (\<lambda>((tid, n), s1).
     if \<exists>r\<in>set (db_sepay_receipts s1). sp_store r = sn_store inp \<and> sp_reference r = cd_reference c \<or> sp_transaction r = tid
     then Inl ErrConstraint
     else Inr ((ingest_finished False ''ACCEPTED'')\<lparr>ig_event := Some n\<rparr>,
       finish_telegram inp ''ACCEPTED'' tid (s1\<lparr>db_sepay_receipts := db_sepay_receipts s1 @
         [\<lparr>sp_store = sn_store inp, sp_bank = sn_bank inp, sp_account = sn_account inp, sp_reference = cd_reference c,
           sp_hash = sepay_canonical_hash e inp c, sp_transaction = tid, sp_message = sn_message inp, sp_received = now_text e\<rparr>]\<rparr>)))"

definition apply_telegram ::
  "vault \<Rightarrow> env \<Rightarrow> telegram_note \<Rightarrow> string \<Rightarrow> string \<Rightarrow> decision \<Rightarrow> db \<Rightarrow> err + (ingest_result \<times> db)" where
  "apply_telegram v e inp hash blob d s =
     (case d of
        Finish dup reason tid \<Rightarrow> Inr (ingest_finished dup reason, finish_telegram inp reason tid s)
      | Quarantine reason existing \<Rightarrow> Inr (ingest_finished False reason,
          finish_telegram inp reason [] (add_quarantine (telegram_candidate e inp hash blob reason existing) s))
      | Accept \<Rightarrow> (case sn_credit inp of None \<Rightarrow> Inl ErrNoRows | Some c \<Rightarrow> accept_telegram v e inp c s))"

text \<open>The update was stored before.\<close>

definition repeat_telegram :: "env \<Rightarrow> telegram_note \<Rightarrow> string \<Rightarrow> string \<Rightarrow> db \<Rightarrow> err + (ingest_result \<times> db)" where
  "repeat_telegram e inp hash blob s =
     (case find (telegram_key inp) (db_telegram s) of
        None \<Rightarrow> Inl ErrNoRows
      | Some r \<Rightarrow>
          if ti_hash r \<noteq> hash \<or> ti_store r \<noteq> sn_store inp
          then let reason = (if sn_review inp = ''EDITED_MESSAGE'' then ''EDITED_MESSAGE'' else ''REFERENCE_CONFLICT'')
            in Inr (ingest_finished False reason, add_quarantine (telegram_candidate e inp hash blob reason (ti_hash r)) s)
          else Inr (ingest_finished True (ti_reason r), s))"

definition ingest_telegram_tx :: "vault \<Rightarrow> env \<Rightarrow> telegram_note \<Rightarrow> string \<Rightarrow> string \<Rightarrow> string \<Rightarrow> db \<Rightarrow> err + (ingest_result \<times> db)" where
  "ingest_telegram_tx v e inp hash mhash blob s =
     (let known = (\<exists>r\<in>set (db_telegram s). telegram_key inp r);
          s1 = (if known then s else s\<lparr>db_telegram := db_telegram s @ [telegram_evidence e inp hash blob]\<rparr>) in
      bnd (check_mutation_allowed e s1) (\<lambda>_.
      bnd (check_sepay_revision (sn_revision inp) s1) (\<lambda>_.
      bnd (ensure_connection v e (sn_store inp) (sn_bank inp) (sn_account inp) s1) (\<lambda>s2.
      if known then repeat_telegram e inp hash blob s2
      else bnd (decide_telegram v e inp mhash s2) (\<lambda>d. apply_telegram v e inp hash blob d s2)))))"

definition committed :: "env \<Rightarrow> (err + ingest_result) \<times> db \<Rightarrow> (err + ingest_result) \<times> db" where
  "committed e r = (case r of (Inr res, s) \<Rightarrow>
     (Inr (res\<lparr>ig_event := map_option (\<lambda>n. n\<lparr>n_committed := now_text e\<rparr>) (ig_event res)\<rparr>), s) | _ \<Rightarrow> r)"

definition ingest_telegram :: "vault \<Rightarrow> env \<Rightarrow> telegram_note \<Rightarrow> db \<Rightarrow> (err + ingest_result) \<times> db" where
  "ingest_telegram v e inp s =
     (if va_keyring v = None then (Inl (ErrText ''master keyring required for SePay ingestion''), s)
      else if invalid_telegram inp then (Inl (ErrText ''incomplete SePay notification input''), s)
      else if sn_review inp \<noteq> [] \<and> \<not> valid_review_reason (sn_review inp) then (Inl (ErrText ''invalid SePay review reason''), s)
      else case sepay_payload_hashes e (sn_payload inp) of
        Inl x \<Rightarrow> (Inl x, s)
      | Inr (hash, mhash) \<Rightarrow> (case sepay_encrypt v (e_id e 0) (sn_payload inp) (sepay_inbox_aad (sn_bot inp) (sn_update inp)) of
          Inl x \<Rightarrow> (Inl x, s)
        | Inr blob \<Rightarrow> committed e (run_tx (ingest_telegram_tx v e inp hash mhash blob) s)))"

section \<open>Native webhooks\<close>

definition invalid_webhook :: "webhook_note \<Rightarrow> bool" where
  "invalid_webhook inp \<longleftrightarrow> sw_store inp = [] \<or> sw_bank inp = [] \<or> sw_account inp = [] \<or> sw_provider inp \<le> 0 \<or>
     (sw_mode inp \<noteq> ''active'' \<and> sw_mode inp \<noteq> ''observe'') \<or> sw_activation inp = zero_time"

definition native_aad :: "webhook_note \<Rightarrow> string" where
  "native_aad inp = ''sepay-native:'' @ sw_store inp @ '':'' @ int_text (sw_provider inp)"

definition native_hash :: "env \<Rightarrow> webhook_note \<Rightarrow> string" where
  "native_hash e inp = sha_hex e (json_text (JArr [JStr (sw_store inp), JNum (int_text (sw_provider inp)), JStr (sw_gateway inp),
     JStr (sw_notified inp), JStr (sw_sub inp), JNum (int_text (sw_amount inp)), JStr (sw_type inp), JStr (sw_reference inp),
     JStr (fmt_nano (sw_at inp))]))"

definition native_key :: "webhook_note \<Rightarrow> native_row \<Rightarrow> bool" where
  "native_key inp r \<longleftrightarrow> ni_store r = sw_store inp \<and> ni_provider r = sw_provider inp"

definition native_evidence :: "env \<Rightarrow> webhook_note \<Rightarrow> string \<Rightarrow> native_row" where
  "native_evidence e inp blob = \<lparr>ni_store = sw_store inp, ni_provider = sw_provider inp, ni_reference = sw_reference inp,
     ni_hash = native_hash e inp, ni_blob = blob, ni_reason = ''INVALID_TEMPLATE'', ni_transaction = [], ni_at = fmt_nano (sw_at inp),
     ni_received = now_text e\<rparr>"

definition finish_native :: "webhook_note \<Rightarrow> string \<Rightarrow> string \<Rightarrow> db \<Rightarrow> db" where
  "finish_native inp reason tid s = s\<lparr>db_native := update_where (native_key inp)
     (\<lambda>r. r\<lparr>ni_reason := reason, ni_transaction := tid\<rparr>) (db_native s)\<rparr>"

definition native_semantic :: "webhook_note \<Rightarrow> string" where
  "native_semantic inp = ''SEPAY_NATIVE:'' @ sw_store inp @ '':'' @ int_text (sw_provider inp)"

definition native_candidate :: "env \<Rightarrow> webhook_note \<Rightarrow> string \<Rightarrow> string \<Rightarrow> string \<Rightarrow> quarantine_row" where
  "native_candidate e inp blob reason existing =
     \<lparr>q_id = ''sepay_quarantine_'' @ sha_hex e (sw_store inp @ '':'' @ int_text (sw_provider inp) @ '':'' @ native_hash e inp @ '':'' @ reason),
      q_connection = store_connection (sw_store inp), q_key = native_semantic inp, q_existing = existing, q_candidate = blob,
      q_reason = reason, q_created = now_text e\<rparr>"

text \<open>A reference that another native notification or a Telegram receipt already used.\<close>

definition decide_reference :: "env \<Rightarrow> webhook_note \<Rightarrow> db \<Rightarrow> err + decision option" where
  "decide_reference e inp s =
     (if sw_reference inp = [] then Inr None
      else case find (\<lambda>r. ni_store r = sw_store inp \<and> ni_reference r = sw_reference inp \<and> ni_provider r \<noteq> sw_provider inp) (db_native s) of
        Some r \<Rightarrow> Inr (Some (Quarantine ''REFERENCE_CONFLICT'' (ni_hash r)))
      | None \<Rightarrow> (case sepay_receipt_of (sw_store inp) (sw_reference inp) s of
          None \<Rightarrow> Inr None
        | Some r \<Rightarrow>
            if \<not> sw_verified inp then Inr (Some (Quarantine ''REFERENCE_CONFLICT'' (sp_hash r)))
            else (case find (\<lambda>t. t_id t = sp_transaction r) (db_transactions s) of
              None \<Rightarrow> Inl ErrNoRows
            | Some t \<Rightarrow> Inr (Some (if t_credit t = sw_amount inp \<and> t_iso t = fmt_nano (sw_at inp)
                then Finish False ''DUPLICATE'' (sp_transaction r) else Quarantine ''REFERENCE_CONFLICT'' (sp_hash r))))))"

definition decide_native :: "env \<Rightarrow> webhook_note \<Rightarrow> db \<Rightarrow> err + decision" where
  "decide_native e inp s =
     (let receipts = count_where (\<lambda>r. sp_store r = sw_store inp) (db_sepay_receipts s) in
      if sw_review inp \<noteq> [] then Inr (Finish False (sw_review inp) [])
      else if sw_amount inp \<le> 0 \<or> max_amount < sw_amount inp then Inr (Finish False ''INVALID_AMOUNT'' [])
      else if sw_at inp = zero_time then Inr (Finish False ''INVALID_TRANSACTION_DATE'' [])
      else if receipts > 0 \<and> sw_reference inp = [] then Inr (Finish False ''MISSING_REFERENCE'' [])
      else if sw_mode inp = ''active'' \<and> receipts > 0 \<and> \<not> sw_verified inp then Inr (Finish False ''REFERENCE_CONFLICT'' [])
      else bnd (decide_reference e inp s) (\<lambda>d. case d of Some x \<Rightarrow> Inr x
        | None \<Rightarrow> Inr (if sw_at inp < sw_activation inp then Finish False ''PRE_ACTIVATION'' []
            else if sw_mode inp = ''observe'' then Finish False ''OBSERVATION'' [] else Accept)))"

definition native_credit :: "env \<Rightarrow> webhook_note \<Rightarrow> accepted_credit" where
  "native_credit e inp = \<lparr>ac_store = sw_store inp, ac_bank = sw_bank inp, ac_account = sw_account inp, ac_key = native_semantic inp,
     ac_hash = native_hash e inp, ac_reference = sw_reference inp,
     ac_source = (if realtime_window (e_now e) (sw_at inp) then ''REALTIME'' else ''CATCH_UP''),
     ac_parser = ''sepay-native-v1'', ac_amount = sw_amount inp, ac_at = sw_at inp, ac_details = sw_details inp\<rparr>"

definition apply_native :: "vault \<Rightarrow> env \<Rightarrow> webhook_note \<Rightarrow> string \<Rightarrow> decision \<Rightarrow> db \<Rightarrow> err + (ingest_result \<times> db)" where
  "apply_native v e inp blob d s =
     (case d of
        Finish dup reason tid \<Rightarrow> Inr (ingest_finished dup reason, finish_native inp reason tid s)
      | Quarantine reason existing \<Rightarrow> Inr (ingest_finished False reason,
          finish_native inp reason [] (add_quarantine (native_candidate e inp blob reason existing) s))
      | Accept \<Rightarrow> bnd (insert_sepay_credit v e (native_credit e inp) s) (\<lambda>((tid, n), s1).
          Inr ((ingest_finished False ''ACCEPTED'')\<lparr>ig_event := Some n\<rparr>, finish_native inp ''ACCEPTED'' tid s1)))"

definition repeat_native :: "env \<Rightarrow> webhook_note \<Rightarrow> string \<Rightarrow> db \<Rightarrow> err + (ingest_result \<times> db)" where
  "repeat_native e inp blob s =
     (case find (native_key inp) (db_native s) of
        None \<Rightarrow> Inl ErrNoRows
      | Some r \<Rightarrow>
          if ni_hash r \<noteq> native_hash e inp
          then Inr (ingest_finished False ''REFERENCE_CONFLICT'', add_quarantine (native_candidate e inp blob ''REFERENCE_CONFLICT'' (ni_hash r)) s)
          else Inr (ingest_finished True (ni_reason r), s))"

definition ingest_webhook_tx :: "vault \<Rightarrow> env \<Rightarrow> webhook_note \<Rightarrow> string \<Rightarrow> db \<Rightarrow> err + (ingest_result \<times> db)" where
  "ingest_webhook_tx v e inp blob s =
     (let known = (\<exists>r\<in>set (db_native s). native_key inp r);
          s1 = (if known then s else s\<lparr>db_native := db_native s @ [native_evidence e inp blob]\<rparr>) in
      bnd (check_mutation_allowed e s1) (\<lambda>_.
      bnd (check_sepay_revision (sw_revision inp) s1) (\<lambda>_.
      bnd (ensure_connection v e (sw_store inp) (sw_bank inp) (sw_account inp) s1) (\<lambda>s2.
      if known then repeat_native e inp blob s2
      else bnd (decide_native e inp s2) (\<lambda>d. apply_native v e inp blob d s2)))))"

definition ingest_webhook :: "vault \<Rightarrow> env \<Rightarrow> webhook_note \<Rightarrow> db \<Rightarrow> (err + ingest_result) \<times> db" where
  "ingest_webhook v e inp s =
     (if va_keyring v = None then (Inl (ErrText ''master keyring required for SePay ingestion''), s)
      else if invalid_webhook inp then (Inl (ErrText ''incomplete SePay webhook input''), s)
      else if sw_review inp \<noteq> [] \<and> \<not> valid_review_reason (sw_review inp) then (Inl (ErrText ''invalid SePay review reason''), s)
      else case sepay_encrypt v (e_id e 0) (sw_payload inp) (native_aad inp) of
          Inl x \<Rightarrow> (Inl x, s)
        | Inr blob \<Rightarrow> committed e (run_tx (ingest_webhook_tx v e inp blob) s))"

section \<open>Private details\<close>

definition parse_details :: "string \<Rightarrow> note_details option" where
  "parse_details x = (case json_unmarshal x of
     Some (JObj kvs) \<Rightarrow>
       (case (struct_field ''balanceVnd'' kvs, string_field ''description'' kvs) of
          (None, Some d) \<Rightarrow> Some \<lparr>nd_balance = None, nd_description = d\<rparr>
        | (Some JNull, Some d) \<Rightarrow> Some \<lparr>nd_balance = None, nd_description = d\<rparr>
        | (Some (JNum n), Some d) \<Rightarrow> map_option (\<lambda>b. \<lparr>nd_balance = Some b, nd_description = d\<rparr>) (parse_int64 n)
        | _ \<Rightarrow> None)
   | Some JNull \<Rightarrow> Some \<lparr>nd_balance = None, nd_description = []\<rparr>
   | _ \<Rightarrow> None)"

definition sepay_details_for_event :: "vault \<Rightarrow> string \<Rightarrow> db \<Rightarrow> err + note_details option" where
  "sepay_details_for_event v eid s =
     (case find (\<lambda>ev. ev_id ev = eid \<and> ev_type ev = ''bank.transaction.credit'') (db_events s) of
        None \<Rightarrow> Inr None
      | Some ev \<Rightarrow> (case find (\<lambda>d. sd_transaction d = ev_transaction ev) (db_details s) of
          None \<Rightarrow> Inr None
        | Some d \<Rightarrow>
            if va_keyring v = None then Inl (ErrText ''SePay notification details keyring unavailable'')
            else (case sepay_decrypt v (sd_blob d) (details_aad (sd_transaction d)) of
              Inl _ \<Rightarrow> Inl (ErrText ''decrypt SePay notification details failed'')
            | Inr plain \<Rightarrow> (case parse_details plain of
                None \<Rightarrow> Inl (ErrText ''decode SePay notification details failed'') | Some x \<Rightarrow> Inr (Some x)))))"

section \<open>Observation times and reviews\<close>

definition latest_text :: "string list \<Rightarrow> string" where
  "latest_text xs = fold max xs []"

definition last_sepay_at :: "string list \<Rightarrow> err + instant option" where
  "last_sepay_at xs = (if xs = [] then Inr None
     else case parse_nano (latest_text xs) of None \<Rightarrow> Inl ErrParse | Some t \<Rightarrow> Inr (Some t))"

definition valid_observation :: "string \<Rightarrow> bool" where
  "valid_observation reason \<longleftrightarrow> reason \<in> {''ACCEPTED'', ''OBSERVATION'', ''DUPLICATE''}"

definition last_sepay_message_at :: "string \<Rightarrow> db \<Rightarrow> err + instant option" where
  "last_sepay_message_at store s =
     last_sepay_at (map ti_received (filter (\<lambda>r. ti_store r = store \<and> valid_observation (ti_reason r)) (db_telegram s)))"

definition last_sepay_webhook_at :: "string \<Rightarrow> db \<Rightarrow> err + instant option" where
  "last_sepay_webhook_at store s =
     last_sepay_at (map ni_received (filter (\<lambda>r. ni_store r = store \<and> valid_observation (ni_reason r)) (db_native s)))"

record sepay_review =
  sv_store :: string
  sv_transport :: string
  sv_source :: string
  sv_reason :: string
  sv_received :: string

definition telegram_review :: "string \<Rightarrow> bool" where
  "telegram_review reason \<longleftrightarrow> reason \<in> {''INVALID_TEMPLATE'', ''ACCOUNT_MISMATCH'', ''INVALID_AMOUNT'', ''INVALID_TRANSACTION_DATE'',
     ''MISSING_REFERENCE'', ''REFERENCE_CONFLICT'', ''EDITED_MESSAGE''}"

definition native_review :: "string \<Rightarrow> bool" where
  "native_review reason \<longleftrightarrow> reason \<in> {''ACCOUNT_MISMATCH'', ''INVALID_AMOUNT'', ''INVALID_TRANSACTION_DATE'', ''MISSING_REFERENCE'',
     ''REFERENCE_CONFLICT''}"

definition sepay_reviews :: "db \<Rightarrow> sepay_review list" where
  "sepay_reviews s =
     map (\<lambda>r. \<lparr>sv_store = ti_store r, sv_transport = ''telegram'', sv_source = int_text (ti_bot r) @ '':'' @ int_text (ti_update r),
       sv_reason = ti_reason r, sv_received = ti_received r\<rparr>) (filter (\<lambda>r. telegram_review (ti_reason r)) (db_telegram s)) @
     map (\<lambda>r. \<lparr>sv_store = ni_store r, sv_transport = ''native'', sv_source = ni_store r @ '':'' @ int_text (ni_provider r),
       sv_reason = ni_reason r, sv_received = ni_received r\<rparr>) (filter (\<lambda>r. native_review (ni_reason r)) (db_native s))"

definition sepay_review_count :: "db \<Rightarrow> nat" where
  "sepay_review_count s = count_where (\<lambda>r. telegram_review (ti_reason r)) (db_telegram s) +
     count_where (\<lambda>r. native_review (ni_reason r)) (db_native s)"

definition encode_review_cursor :: "string \<Rightarrow> string \<Rightarrow> string \<Rightarrow> string" where
  "encode_review_cursor received transport key = b64_encode (json_text (JArr [JNum ''2'', JStr received, JStr transport, JStr key]))"

definition store_char :: "char \<Rightarrow> bool" where
  "store_char c \<longleftrightarrow> in_bytes 97 122 c \<or> in_bytes 48 57 c \<or> c = CHR ''_'' \<or> c = CHR ''-''"

text \<open>The source of a review: a bot and an update, or a store key and a provider identifier.\<close>

definition valid_source :: "string \<Rightarrow> string \<Rightarrow> bool" where
  "valid_source transport key = (case split_on (CHR '':'') key of
     [a, b] \<Rightarrow> (case parse_int64 b of
         None \<Rightarrow> False
       | Some n \<Rightarrow> int_text n = b \<and> 0 \<le> n \<and> \<not> (transport = ''native'' \<and> n = 0) \<and>
           (if transport = ''telegram'' then (case parse_int64 a of None \<Rightarrow> False | Some m \<Rightarrow> 0 < m \<and> int_text m = a)
            else a \<noteq> [] \<and> length a \<le> 48 \<and> list_all store_char a))
   | _ \<Rightarrow> False)"

text \<open>The last check, that the cursor is the encoding of what was read, leaves one number text, \<open>2\<close>.\<close>

definition decode_review_cursor :: "string \<Rightarrow> (string \<times> string \<times> string) option" where
  "decode_review_cursor cursor =
     (if cursor = [] then Some ([], [], [])
      else case b64_decode cursor of
        None \<Rightarrow> None
      | Some raw \<Rightarrow> (case json_unmarshal raw of
          Some (JArr [JNum v, JStr received, JStr transport, JStr key]) \<Rightarrow>
            if v = ''2'' \<and> (transport = ''telegram'' \<or> transport = ''native'') \<and> parse_nano received \<noteq> None \<and>
              valid_source transport key \<and> encode_review_cursor received transport key = cursor
            then Some (received, transport, key) else None
        | _ \<Rightarrow> None))"

definition review_rank :: "sepay_review \<Rightarrow> string \<times> string \<times> string" where
  "review_rank r = (sv_received r, sv_transport r, sv_source r)"

definition list_sepay_reviews :: "string \<Rightarrow> int \<Rightarrow> db \<Rightarrow> err + sepay_review page" where
  "list_sepay_reviews cursor limit s =
     (case decode_review_cursor cursor of
        None \<Rightarrow> Inl ErrInvalidSePayReviewCursor
      | Some after \<Rightarrow>
          let n = normalize_page_size limit;
              rows = rev (sort_key review_rank (filter (\<lambda>r. cursor = [] \<or> review_rank r < after) (sepay_reviews s)));
              items = take (n + 1) rows in
          Inr (if n < length items
            then (let l = items ! (n - 1) in \<lparr>pg_items = take n items, pg_next = encode_review_cursor (sv_received l) (sv_transport l) (sv_source l)\<rparr>)
            else \<lparr>pg_items = items, pg_next = []\<rparr>))"

section \<open>Managed settings\<close>

record managed_config =
  mc_revision :: int
  mc_config :: jval
  mc_token :: string

definition managed_aad :: string where "managed_aad = ''sepay-managed-config:v1''"

definition managed_text :: "managed_config \<Rightarrow> string" where
  "managed_text c = struct_text [(''config'', mc_config c), (''botToken'', JStr (mc_token c))]"

definition parse_managed :: "int \<Rightarrow> string \<Rightarrow> managed_config option" where
  "parse_managed revision x = (case json_unmarshal x of
     Some (JObj kvs) \<Rightarrow> map_option (\<lambda>t. \<lparr>mc_revision = revision,
         mc_config = (case struct_field ''config'' kvs of None \<Rightarrow> JNull | Some c \<Rightarrow> c), mc_token = t\<rparr>) (string_field ''botToken'' kvs)
   | Some JNull \<Rightarrow> Some \<lparr>mc_revision = revision, mc_config = JNull, mc_token = []\<rparr>
   | _ \<Rightarrow> None)"

definition read_managed :: "vault \<Rightarrow> db \<Rightarrow> err + managed_config option" where
  "read_managed v s =
     (case db_managed s of
        None \<Rightarrow> Inr None
      | Some m \<Rightarrow>
          if va_keyring v = None then Inl ErrSePayConfigUnavailable
          else (case sepay_decrypt v (mg_blob m) managed_aad of
            Inl _ \<Rightarrow> Inl ErrSePayConfigUnavailable
          | Inr plain \<Rightarrow> (case parse_managed (mg_revision m) plain of None \<Rightarrow> Inl ErrSePayConfigUnavailable | Some c \<Rightarrow> Inr (Some c))))"

definition bool_field :: "string \<Rightarrow> (string \<times> jval) list \<Rightarrow> bool option" where
  "bool_field f kvs = (case struct_field f kvs of None \<Rightarrow> Some False | Some JNull \<Rightarrow> Some False | Some (JBool b) \<Rightarrow> Some b | _ \<Rightarrow> None)"

text \<open>Whether the settings activate the native transport without a verified reference; \<open>None\<close> when they cannot be read.\<close>

definition unverified_native :: "jval \<Rightarrow> bool option" where
  "unverified_native cfg =
     (case (case cfg of JObj kvs \<Rightarrow> (case struct_field ''fields'' kvs of None \<Rightarrow> Some [] | Some JNull \<Rightarrow> Some [] | Some (JObj fs) \<Rightarrow> Some fs | _ \<Rightarrow> None)
        | JNull \<Rightarrow> Some [] | _ \<Rightarrow> None) of
        None \<Rightarrow> None
      | Some fs \<Rightarrow> (case (string_field ''mode'' fs, string_field ''activeTransport'' fs, string_field ''nativeMode'' fs,
            bool_field ''nativeReferenceVerified'' fs) of
          (Some m, Some t, Some n, Some b) \<Rightarrow> Some (m = ''active'' \<and> t = ''native'' \<and> n = ''active'' \<and> \<not> b)
        | _ \<Rightarrow> None))"

definition receiver_matches :: "vault \<Rightarrow> string \<Rightarrow> string \<Rightarrow> string \<Rightarrow> db \<Rightarrow> err + unit" where
  "receiver_matches v store bank account s =
     (if store = [] then Inr ()
      else case find (\<lambda>c. cn_id c = store_connection store) (db_connections s) of
        None \<Rightarrow> Inr ()
      | Some c \<Rightarrow> (case sepay_decrypt v (cn_account c) (store_connection store) of
          Inl _ \<Rightarrow> Inl ErrSePayConfigUnavailable
        | Inr plain \<Rightarrow> ensure (cn_bank c = bank \<and> plain = account) ErrSePayReceiverMismatch))"

definition save_managed_tx ::
  "vault \<Rightarrow> env \<Rightarrow> managed_config \<Rightarrow> string \<Rightarrow> string \<Rightarrow> string \<Rightarrow> string \<Rightarrow> provider_actor \<Rightarrow> db \<Rightarrow> err + (int \<times> db)" where
  "save_managed_tx v e cfg blob store bank account actor s =
     bnd (check_mutation_allowed e s) (\<lambda>_.
     bnd (check_sepay_revision (mc_revision cfg) s) (\<lambda>_.
     if \<exists>r\<in>set (db_native s). ni_reason r = ''ACCEPTED'' \<and> ni_store r \<noteq> store then Inl ErrSePayStoreKeyImmutable
     else case unverified_native (mc_config cfg) of
       None \<Rightarrow> Inl ErrSePayConfigUnavailable
     | Some unverified \<Rightarrow>
         if unverified \<and> (\<exists>r\<in>set (db_sepay_receipts s). sp_store r = store) then Inl ErrSePayReferenceUnverified
         else bnd (receiver_matches v store bank account s) (\<lambda>_.
           bnd (add_audit e 1 actor ''sepay-store.config.save'' ''SEPAY''
             (s\<lparr>db_managed := Some \<lparr>mg_revision = mc_revision cfg + 1, mg_blob = blob, mg_updated = now_text e\<rparr>\<rparr>)) (\<lambda>s'.
           Inr (mc_revision cfg + 1, s')))))"

definition save_managed ::
  "vault \<Rightarrow> env \<Rightarrow> managed_config \<Rightarrow> string \<Rightarrow> string \<Rightarrow> string \<Rightarrow> provider_actor \<Rightarrow> db \<Rightarrow> (err + int) \<times> db" where
  "save_managed v e cfg store bank account actor s =
     (case sepay_encrypt v (e_id e 0) (managed_text cfg) managed_aad of
        Inl _ \<Rightarrow> (Inl ErrSePayConfigUnavailable, s)
      | Inr blob \<Rightarrow> run_tx (save_managed_tx v e cfg blob store bank account actor) s)"


section \<open>The invariant of the SePay books\<close>

definition receipt_credit :: "sepay_receipt \<Rightarrow> transaction \<Rightarrow> bool" where
  "receipt_credit r t \<longleftrightarrow> t_id t = sp_transaction r \<and> t_parser t = ''sepay-telegram-v1'' \<and> t_connection t = store_connection (sp_store r) \<and>
     t_key t = ''SEPAY:'' @ sp_store r @ '':'' @ sp_reference r \<and> t_hash t = sp_hash r"

definition native_credit_of :: "native_row \<Rightarrow> transaction \<Rightarrow> bool" where
  "native_credit_of n t \<longleftrightarrow> t_id t = ni_transaction n \<and> t_parser t = ''sepay-native-v1'' \<and> t_connection t = store_connection (ni_store n) \<and>
     t_key t = ''SEPAY_NATIVE:'' @ ni_store n @ '':'' @ int_text (ni_provider n) \<and> t_hash t = ni_hash n"

abbreviation accepted_telegram :: "telegram_row \<Rightarrow> bool" where "accepted_telegram r \<equiv> ti_reason r = ''ACCEPTED''"
abbreviation accepted_native :: "native_row \<Rightarrow> bool" where "accepted_native r \<equiv> ni_reason r = ''ACCEPTED''"

definition sepay_keys :: "transaction list \<Rightarrow> sepay_receipt list \<Rightarrow> telegram_row list \<Rightarrow> native_row list \<Rightarrow> bool" where
  "sepay_keys ts rs tg nv \<longleftrightarrow> distinct (map t_id ts) \<and> distinct (map (\<lambda>r. (ti_bot r, ti_update r)) tg) \<and>
     distinct (map (\<lambda>r. (ni_store r, ni_provider r)) nv) \<and> distinct (map (\<lambda>r. (sp_store r, sp_reference r)) rs) \<and>
     distinct (map sp_transaction rs)"

definition sepay_books :: "transaction list \<Rightarrow> sepay_receipt list \<Rightarrow> telegram_row list \<Rightarrow> native_row list \<Rightarrow> bool" where
  "sepay_books ts rs tg nv \<longleftrightarrow> sepay_keys ts rs tg nv \<and>
     (\<forall>r\<in>set rs. (\<exists>t\<in>set ts. receipt_credit r t) \<and> (\<exists>x\<in>set tg. accepted_telegram x \<and> ti_transaction x = sp_transaction r)) \<and>
     (\<forall>t\<in>set ts. t_parser t = ''sepay-telegram-v1'' \<longrightarrow> (\<exists>r\<in>set rs. receipt_credit r t)) \<and>
     (\<forall>x\<in>set tg. accepted_telegram x \<longrightarrow> (\<exists>r\<in>set rs. sp_transaction r = ti_transaction x \<and> sp_store r = ti_store x)) \<and>
     (\<forall>n\<in>set nv. accepted_native n \<longrightarrow> (\<exists>t\<in>set ts. native_credit_of n t)) \<and>
     (\<forall>t\<in>set ts. t_parser t = ''sepay-native-v1'' \<longrightarrow> (\<exists>n\<in>set nv. accepted_native n \<and> native_credit_of n t))"

definition sepay_inv :: "db \<Rightarrow> bool" where
  "sepay_inv s \<longleftrightarrow> sepay_books (db_transactions s) (db_sepay_receipts s) (db_telegram s) (db_native s)"

text \<open>Evidence that is not accepted changes no money.\<close>

lemma books_telegram:
  assumes "sepay_books ts rs tg nv" "\<not> accepted_telegram x" "\<forall>r\<in>set tg. (ti_bot r, ti_update r) \<noteq> (ti_bot x, ti_update x)"
  shows "sepay_books ts rs (tg @ [x]) nv"
  using assms unfolding sepay_books_def sepay_keys_def by fastforce

lemma books_native:
  assumes "sepay_books ts rs tg nv" "\<not> accepted_native x" "\<forall>r\<in>set nv. (ni_store r, ni_provider r) \<noteq> (ni_store x, ni_provider x)"
  shows "sepay_books ts rs tg (nv @ [x])"
  using assms unfolding sepay_books_def sepay_keys_def by fastforce

lemma books_accept_telegram:
  assumes "sepay_books ts rs tg nv" "accepted_telegram x" "\<forall>r\<in>set tg. (ti_bot r, ti_update r) \<noteq> (ti_bot x, ti_update x)"
    "\<forall>y\<in>set ts. t_id y \<noteq> t_id t" "receipt_credit r t" "ti_transaction x = t_id t" "ti_store x = sp_store r"
    "\<forall>y\<in>set rs. (sp_store y, sp_reference y) \<noteq> (sp_store r, sp_reference r) \<and> sp_transaction y \<noteq> t_id t"
  shows "sepay_books (ts @ [t]) (rs @ [r]) (tg @ [x]) nv"
proof -
  have t: "sp_transaction r = t_id t" "t_parser t = ''sepay-telegram-v1''" using assms(5) by (simp_all add: receipt_credit_def)
  have k: "sepay_keys (ts @ [t]) (rs @ [r]) (tg @ [x]) nv"
    using assms(1,3,4,8) t by (fastforce simp: sepay_books_def sepay_keys_def)
  have a: "\<forall>y\<in>set (rs @ [r]). (\<exists>t\<in>set (ts @ [t]). receipt_credit y t) \<and> (\<exists>z\<in>set (tg @ [x]). accepted_telegram z \<and> ti_transaction z = sp_transaction y)"
    using assms(1,2,5,6) t by (auto simp: sepay_books_def)
  have b: "\<forall>y\<in>set (ts @ [t]). t_parser y = ''sepay-telegram-v1'' \<longrightarrow> (\<exists>r\<in>set (rs @ [r]). receipt_credit r y)"
    using assms(1,5) by (auto simp: sepay_books_def)
  have c: "\<forall>z\<in>set (tg @ [x]). accepted_telegram z \<longrightarrow> (\<exists>r\<in>set (rs @ [r]). sp_transaction r = ti_transaction z \<and> sp_store r = ti_store z)"
    using assms(1,6,7) t by (auto simp: sepay_books_def)
  have d: "\<forall>n\<in>set nv. accepted_native n \<longrightarrow> (\<exists>t\<in>set (ts @ [t]). native_credit_of n t)"
    using assms(1) by (auto simp: sepay_books_def)
  have e: "\<forall>y\<in>set (ts @ [t]). t_parser y = ''sepay-native-v1'' \<longrightarrow> (\<exists>n\<in>set nv. accepted_native n \<and> native_credit_of n y)"
    using assms(1) t by (auto simp: sepay_books_def)
  show ?thesis unfolding sepay_books_def using k a b c d e by blast
qed

lemma books_accept_native:
  assumes "sepay_books ts rs tg nv" "accepted_native x" "\<forall>r\<in>set nv. (ni_store r, ni_provider r) \<noteq> (ni_store x, ni_provider x)"
    "\<forall>y\<in>set ts. t_id y \<noteq> t_id t" "native_credit_of x t"
  shows "sepay_books (ts @ [t]) rs tg (nv @ [x])"
proof -
  have t: "t_parser t = ''sepay-native-v1''" using assms(5) by (simp add: native_credit_of_def)
  have k: "sepay_keys (ts @ [t]) rs tg (nv @ [x])"
    using assms(1,3,4) by (fastforce simp: sepay_books_def sepay_keys_def)
  have a: "\<forall>y\<in>set rs. (\<exists>t\<in>set (ts @ [t]). receipt_credit y t) \<and> (\<exists>z\<in>set tg. accepted_telegram z \<and> ti_transaction z = sp_transaction y)"
    using assms(1) by (auto simp: sepay_books_def)
  have b: "\<forall>y\<in>set (ts @ [t]). t_parser y = ''sepay-telegram-v1'' \<longrightarrow> (\<exists>r\<in>set rs. receipt_credit r y)"
    using assms(1) t by (auto simp: sepay_books_def)
  have c: "\<forall>z\<in>set tg. accepted_telegram z \<longrightarrow> (\<exists>r\<in>set rs. sp_transaction r = ti_transaction z \<and> sp_store r = ti_store z)"
    using assms(1) by (auto simp: sepay_books_def)
  have d: "\<forall>n\<in>set (nv @ [x]). accepted_native n \<longrightarrow> (\<exists>t\<in>set (ts @ [t]). native_credit_of n t)"
    using assms(1,5) by (auto simp: sepay_books_def)
  have e: "\<forall>y\<in>set (ts @ [t]). t_parser y = ''sepay-native-v1'' \<longrightarrow> (\<exists>n\<in>set (nv @ [x]). accepted_native n \<and> native_credit_of n y)"
    using assms(1,2,5) by (auto simp: sepay_books_def)
  show ?thesis unfolding sepay_books_def using k a b c d e by blast
qed

section \<open>The steps of an ingestion\<close>

lemma emit_sepay_frame:
  assumes "emit_transaction_event_tx e k tid ty ns key data created s = Inr (n, s')"
  shows "db_telegram s' = db_telegram s" "db_native s' = db_native s" "db_sepay_receipts s' = db_sepay_receipts s"
  using assms by (cases n; auto dest: emit_none elim!: emit_new simp: append_journal_def Let_def)+

lemma insert_credit_success:
  assumes "insert_sepay_credit v e c s = Inr ((tid, n), s')"
  shows "tid = fresh_id e ''txn'' 2" "\<forall>t\<in>set (db_transactions s). t_id t \<noteq> tid \<and> \<not> (t_connection t = store_connection (ac_store c) \<and> t_key t = ac_key c)"
    "db_transactions s' = db_transactions s @ [credit_transaction e c tid]" "db_telegram s' = db_telegram s" "db_native s' = db_native s"
    "db_sepay_receipts s' = db_sepay_receipts s"
proof -
  obtain blob where g: "tid = fresh_id e ''txn'' 2"
    "\<forall>t\<in>set (db_transactions s). t_id t \<noteq> tid \<and> \<not> (t_connection t = store_connection (ac_store c) \<and> t_key t = ac_key c)"
    and em: "emit_transaction_event_tx e 4 tid ''bank.transaction.credit'' (store_connection (ac_store c)) (ac_key c) (credit_data e c tid)
      (now_text e) (s\<lparr>db_transactions := db_transactions s @ [credit_transaction e c tid],
        db_details := db_details s @ [\<lparr>sd_transaction = tid, sd_blob = blob\<rparr>]\<rparr>) = Inr (Some n, s')"
    using assms unfolding insert_sepay_credit_def Let_def
    by (auto simp: bnd_Inr split: if_split_asm option.split_asm)
  show "tid = fresh_id e ''txn'' 2" by (rule g)
  show "\<forall>t\<in>set (db_transactions s). t_id t \<noteq> tid \<and> \<not> (t_connection t = store_connection (ac_store c) \<and> t_key t = ac_key c)" by (rule g)
  show "db_transactions s' = db_transactions s @ [credit_transaction e c tid]" using emit_frame(3)[OF em] by simp
  show "db_telegram s' = db_telegram s" "db_native s' = db_native s" "db_sepay_receipts s' = db_sepay_receipts s"
    using emit_sepay_frame[OF em] by simp_all
qed

lemma ensure_connection_frame:
  assumes "ensure_connection v e store bank account s = Inr s'"
  shows "\<exists>cs. s' = s\<lparr>db_connections := cs\<rparr>"
  using assms unfolding ensure_connection_def Let_def
  by (auto simp: bnd_Inr split: option.split_asm if_split_asm)

lemma add_quarantine_frame:
  "\<exists>q. add_quarantine r s = s\<lparr>db_quarantine := q\<rparr>"
proof (cases "\<exists>x\<in>set (db_quarantine s). q_id x = q_id r")
  case True
  then have "add_quarantine r s = s\<lparr>db_quarantine := db_quarantine s\<rparr>" by (simp add: add_quarantine_def)
  then show ?thesis ..
qed (auto simp: add_quarantine_def)

text \<open>A decision that finishes a row never calls it accepted, unless the review reason did.\<close>

lemma decide_not_accepted:
  assumes "decide_telegram v e inp mhash s = Inr (Finish dup reason tid)" "sn_review inp \<noteq> ''ACCEPTED''"
  shows "reason \<noteq> ''ACCEPTED''"
  using assms
  by (auto simp: decide_telegram_def decide_previous_def decide_credit_def bnd_Inr split: option.split_asm if_split_asm prod.split_asm)

lemma decide_quarantine:
  assumes "decide_telegram v e inp mhash s = Inr (Quarantine reason existing)"
  shows "reason \<in> {''EDITED_MESSAGE'', ''REFERENCE_CONFLICT''}"
  using assms
  by (auto simp: decide_telegram_def decide_previous_def decide_credit_def bnd_Inr split: option.split_asm if_split_asm prod.split_asm)

lemma native_not_accepted:
  assumes "decide_native e inp s = Inr (Finish dup reason tid)" "sw_review inp \<noteq> ''ACCEPTED''"
  shows "reason \<noteq> ''ACCEPTED''"
  using assms
  by (auto simp: decide_native_def decide_reference_def bnd_Inr Let_def split: option.split_asm if_split_asm)

lemma native_quarantine:
  assumes "decide_native e inp s = Inr (Quarantine reason existing)"
  shows "reason = ''REFERENCE_CONFLICT''"
  using assms
  by (auto simp: decide_native_def decide_reference_def bnd_Inr Let_def split: option.split_asm if_split_asm)


lemma update_last:
  assumes "\<forall>r\<in>set rs. \<not> p r" "p x"
  shows "update_where p f (rs @ [x]) = rs @ [f x]"
proof -
  have "update_where p f rs = rs" using assms(1) by (intro update_where_none) auto
  then show ?thesis using assms(2) by (simp add: update_where_def)
qed

definition telegram_quiet :: "telegram_note \<Rightarrow> db \<Rightarrow> db \<Rightarrow> bool" where
  "telegram_quiet inp s s' \<longleftrightarrow> db_transactions s' = db_transactions s \<and> db_sepay_receipts s' = db_sepay_receipts s \<and>
     db_native s' = db_native s \<and> db_events s' = db_events s \<and>
     (db_telegram s' = db_telegram s \<or> (\<exists>x. db_telegram s' = db_telegram s @ [x] \<and> telegram_key inp x \<and> \<not> accepted_telegram x \<and>
        (\<forall>r\<in>set (db_telegram s). \<not> telegram_key inp r)))"

definition telegram_accepts :: "env \<Rightarrow> telegram_note \<Rightarrow> db \<Rightarrow> db \<Rightarrow> bool" where
  "telegram_accepts e inp s s' \<longleftrightarrow> (\<exists>c tid x r. sn_credit inp = Some c \<and> decide_credit e inp c s = Accept \<and> sn_mode inp = ''active'' \<and>
     db_transactions s' = db_transactions s @ [credit_transaction e (telegram_credit e inp c) tid] \<and>
     (\<forall>t\<in>set (db_transactions s). t_id t \<noteq> tid) \<and>
     db_sepay_receipts s' = db_sepay_receipts s @ [r] \<and> sp_store r = sn_store inp \<and> sp_reference r = cd_reference c \<and>
     sp_hash r = sepay_canonical_hash e inp c \<and> sp_transaction r = tid \<and>
     (\<forall>y\<in>set (db_sepay_receipts s). \<not> (sp_store y = sn_store inp \<and> sp_reference y = cd_reference c) \<and> sp_transaction y \<noteq> tid) \<and>
     db_telegram s' = db_telegram s @ [x] \<and> telegram_key inp x \<and> accepted_telegram x \<and> ti_transaction x = tid \<and> ti_store x = sn_store inp \<and>
     (\<forall>y\<in>set (db_telegram s). \<not> telegram_key inp y) \<and> db_native s' = db_native s)"

lemma telegram_evidence_key: "telegram_key inp (telegram_evidence e inp h b)"
  by (simp add: telegram_key_def telegram_evidence_def)

lemma finish_telegram_last:
  assumes "db_telegram s2 = old @ [telegram_evidence e inp h b]" "\<forall>r\<in>set old. \<not> telegram_key inp r"
  shows "db_telegram (finish_telegram inp reason tid s2) =
    old @ [(telegram_evidence e inp h b)\<lparr>ti_reason := reason, ti_transaction := tid\<rparr>]"
  using update_last[OF assms(2) telegram_evidence_key] by (simp add: finish_telegram_def assms(1))

lemma finish_telegram_frame [simp]:
  "db_transactions (finish_telegram inp reason tid s) = db_transactions s" "db_native (finish_telegram inp reason tid s) = db_native s"
  "db_sepay_receipts (finish_telegram inp reason tid s) = db_sepay_receipts s" "db_events (finish_telegram inp reason tid s) = db_events s"
  by (simp_all add: finish_telegram_def)

lemma decide_credit_cong:
  "db_sepay_receipts s' = db_sepay_receipts s \<Longrightarrow> decide_credit e inp c s' = decide_credit e inp c s"
  by (simp add: decide_credit_def sepay_receipt_of_def)

lemma decide_accept:
  assumes "decide_telegram v e inp mhash s = Inr Accept"
  shows "\<exists>c. sn_credit inp = Some c \<and> decide_credit e inp c s = Accept"
  using assms by (auto simp: decide_telegram_def decide_previous_def bnd_Inr split: option.split_asm if_split_asm prod.split_asm)

lemma decide_credit_accept:
  "decide_credit e inp c s = Accept \<Longrightarrow> sn_mode inp \<noteq> ''observe'' \<and> 0 < cd_amount c \<and> cd_amount c \<le> max_amount \<and>
    sn_activation inp \<le> cd_at c \<and> sepay_receipt_of (sn_store inp) (cd_reference c) s = None"
  by (auto simp: decide_credit_def split: option.split_asm if_split_asm)

lemma ingest_telegram_tx_step:
  assumes tx: "ingest_telegram_tx v e inp h mh b s = Inr (res, s')" and rev: "sn_review inp \<noteq> ''ACCEPTED''" and val: "\<not> invalid_telegram inp"
  shows "telegram_quiet inp s s' \<or> telegram_accepts e inp s s'"
proof (cases "\<exists>r\<in>set (db_telegram s). telegram_key inp r")
  case True
  with tx obtain s2 where c: "ensure_connection v e (sn_store inp) (sn_bank inp) (sn_account inp) s = Inr s2"
    and r: "repeat_telegram e inp h b s2 = Inr (res, s')"
    by (auto simp: ingest_telegram_tx_def bnd_Inr Let_def)
  from ensure_connection_frame[OF c] obtain cs where s2: "s2 = s\<lparr>db_connections := cs\<rparr>" ..
  obtain q where "s' = s2\<lparr>db_quarantine := q\<rparr> \<or> s' = s2"
    using r add_quarantine_frame
    by (auto simp: repeat_telegram_def Let_def split: option.split_asm if_split_asm)
  then show ?thesis by (auto simp: telegram_quiet_def s2)
next
  case False
  let ?x = "telegram_evidence e inp h b" and ?s1 = "s\<lparr>db_telegram := db_telegram s @ [telegram_evidence e inp h b]\<rparr>"
  from False have new: "\<forall>r\<in>set (db_telegram s). \<not> telegram_key inp r" by blast
  from False tx obtain s2 d where c: "ensure_connection v e (sn_store inp) (sn_bank inp) (sn_account inp) ?s1 = Inr s2"
    and d: "decide_telegram v e inp mh s2 = Inr d" and a: "apply_telegram v e inp h b d s2 = Inr (res, s')"
    by (auto simp: ingest_telegram_tx_def bnd_Inr Let_def)
  from ensure_connection_frame[OF c] obtain cs where s2: "s2 = ?s1\<lparr>db_connections := cs\<rparr>" ..
  have tg: "db_telegram s2 = db_telegram s @ [?x]" by (simp add: s2)
  show ?thesis
  proof (cases d)
    case (Finish dup reason tid)
    then have s': "s' = finish_telegram inp reason tid s2" using a by (simp add: apply_telegram_def)
    have "reason \<noteq> ''ACCEPTED''" using decide_not_accepted d Finish rev by blast
    then have "telegram_quiet inp s s'"
      using finish_telegram_last[OF tg new, of reason tid] new telegram_evidence_key[of inp e h b]
      by (auto simp: telegram_quiet_def s' s2 telegram_key_def)
    then show ?thesis ..
  next
    case (Quarantine reason existing)
    obtain q where q: "add_quarantine (telegram_candidate e inp h b reason existing) s2 = s2\<lparr>db_quarantine := q\<rparr>"
      using add_quarantine_frame by blast
    then have s': "s' = finish_telegram inp reason [] (s2\<lparr>db_quarantine := q\<rparr>)"
      using a Quarantine by (simp add: apply_telegram_def)
    have "reason \<noteq> ''ACCEPTED''" using decide_quarantine d Quarantine by fastforce
    moreover have "db_telegram (s2\<lparr>db_quarantine := q\<rparr>) = db_telegram s @ [?x]" using tg by simp
    ultimately have "telegram_quiet inp s s'"
      using finish_telegram_last[of "s2\<lparr>db_quarantine := q\<rparr>" "db_telegram s" e inp h b reason "[]"] new telegram_evidence_key[of inp e h b]
      by (auto simp: telegram_quiet_def s' s2 telegram_key_def)
    then show ?thesis ..
  next
    case Accept
    with d decide_accept obtain cr where cr: "sn_credit inp = Some cr" "decide_credit e inp cr s2 = Accept" by blast
    from a Accept cr(1) obtain tid n s3 where ins: "insert_sepay_credit v e (telegram_credit e inp cr) s2 = Inr ((tid, n), s3)"
      and nr: "\<forall>r\<in>set (db_sepay_receipts s3). \<not> (sp_store r = sn_store inp \<and> sp_reference r = cd_reference cr) \<and> sp_transaction r \<noteq> tid"
      and s': "s' = finish_telegram inp ''ACCEPTED'' tid (s3\<lparr>db_sepay_receipts := db_sepay_receipts s3 @
         [\<lparr>sp_store = sn_store inp, sp_bank = sn_bank inp, sp_account = sn_account inp, sp_reference = cd_reference cr,
           sp_hash = sepay_canonical_hash e inp cr, sp_transaction = tid, sp_message = sn_message inp, sp_received = now_text e\<rparr>]\<rparr>)"
      by (auto simp: apply_telegram_def accept_telegram_def bnd_Inr split: if_split_asm)
    note f = insert_credit_success[OF ins]
    have "db_telegram s3 = db_telegram s @ [?x]" using f(4) tg by simp
    then have t': "db_telegram s' = db_telegram s @ [?x\<lparr>ti_reason := ''ACCEPTED'', ti_transaction := tid\<rparr>]"
      unfolding s' by (subst finish_telegram_last[OF _ new]) simp_all
    have acc: "decide_credit e inp cr s = Accept" using cr(2) decide_credit_cong[of s2 s e inp cr] by (simp add: s2)
    have "sn_mode inp = ''active''" using decide_credit_accept[OF acc] val by (auto simp: invalid_telegram_def)
    then have "telegram_accepts e inp s s'"
      unfolding telegram_accepts_def
      using f nr new t' cr(1) acc telegram_evidence_key[of inp e h b]
      by (intro exI[of _ cr] exI[of _ tid] exI[of _ "?x\<lparr>ti_reason := ''ACCEPTED'', ti_transaction := tid\<rparr>"]
          exI[of _ "\<lparr>sp_store = sn_store inp, sp_bank = sn_bank inp, sp_account = sn_account inp, sp_reference = cd_reference cr,
           sp_hash = sepay_canonical_hash e inp cr, sp_transaction = tid, sp_message = sn_message inp, sp_received = now_text e\<rparr>"])
        (simp add: s' s2 telegram_key_def telegram_evidence_def)
    then show ?thesis ..
  qed
qed


text \<open>A call of the Telegram ingestion.\<close>

lemma ingest_telegram_step:
  "telegram_quiet inp s (snd (ingest_telegram v e inp s)) \<or> telegram_accepts e inp s (snd (ingest_telegram v e inp s))"
proof -
  have same: "telegram_quiet inp s s" by (simp add: telegram_quiet_def)
  show ?thesis
  proof (cases "va_keyring v = None \<or> invalid_telegram inp \<or> sn_review inp \<noteq> [] \<and> \<not> valid_review_reason (sn_review inp)")
    case True
    with same show ?thesis by (auto simp: ingest_telegram_def)
  next
    case False
    show ?thesis
    proof (cases "sepay_payload_hashes e (sn_payload inp)")
      case Inl
      with False same show ?thesis by (simp add: ingest_telegram_def)
    next
      case (Inr hm)
      obtain h mh where hm: "hm = (h, mh)" by (cases hm) simp
      show ?thesis
      proof (cases "sepay_encrypt v (e_id e 0) (sn_payload inp) (sepay_inbox_aad (sn_bot inp) (sn_update inp))")
        case Inl
        with False same Inr hm show ?thesis by (auto simp: ingest_telegram_def)
      next
        case (Inr b)
        have "snd (committed e r) = snd r" for r by (cases r) (simp add: committed_def split: sum.split)
        then have st: "snd (ingest_telegram v e inp s) = snd (run_tx (ingest_telegram_tx v e inp h mh b) s)"
          using False \<open>sepay_payload_hashes e (sn_payload inp) = Inr hm\<close> Inr hm by (auto simp: ingest_telegram_def)
        have "sn_review inp \<noteq> ''ACCEPTED''" using False by (auto simp: valid_review_reason_def review_reasons_def)
        then show ?thesis
          unfolding st using False same
          by (intro run_tx_rel[where r = "\<lambda>s s'. telegram_quiet inp s s' \<or> telegram_accepts e inp s s'"])
            (auto dest: ingest_telegram_tx_step)
      qed
    qed
  qed
qed

lemma telegram_quiet_inv:
  assumes "sepay_inv s" "telegram_quiet inp s s'"
  shows "sepay_inv s'"
proof -
  from assms(2) consider (same) "db_telegram s' = db_telegram s"
    | (row) x where "db_telegram s' = db_telegram s @ [x]" "telegram_key inp x" "\<not> accepted_telegram x" "\<forall>r\<in>set (db_telegram s). \<not> telegram_key inp r"
    unfolding telegram_quiet_def by blast
  then show ?thesis
  proof cases
    case same
    with assms show ?thesis by (simp add: sepay_inv_def telegram_quiet_def)
  next
    case row
    have "\<forall>r\<in>set (db_telegram s). (ti_bot r, ti_update r) \<noteq> (ti_bot x, ti_update x)"
      using row(2,4) by (auto simp: telegram_key_def)
    from books_telegram[OF _ row(3) this] assms row(1) show ?thesis by (simp add: sepay_inv_def telegram_quiet_def)
  qed
qed

lemma telegram_accepts_inv:
  assumes "sepay_inv s" "telegram_accepts e inp s s'"
  shows "sepay_inv s'"
proof -
  from assms(2) obtain c tid x r where
    t: "db_transactions s' = db_transactions s @ [credit_transaction e (telegram_credit e inp c) tid]" "\<forall>t\<in>set (db_transactions s). t_id t \<noteq> tid"
    and r: "db_sepay_receipts s' = db_sepay_receipts s @ [r]" "sp_store r = sn_store inp" "sp_reference r = cd_reference c"
      "sp_hash r = sepay_canonical_hash e inp c" "sp_transaction r = tid"
      "\<forall>y\<in>set (db_sepay_receipts s). \<not> (sp_store y = sn_store inp \<and> sp_reference y = cd_reference c) \<and> sp_transaction y \<noteq> tid"
    and x: "db_telegram s' = db_telegram s @ [x]" "telegram_key inp x" "accepted_telegram x" "ti_transaction x = tid" "ti_store x = sn_store inp"
      "\<forall>y\<in>set (db_telegram s). \<not> telegram_key inp y" and n: "db_native s' = db_native s"
    unfolding telegram_accepts_def by blast
  let ?t = "credit_transaction e (telegram_credit e inp c) tid"
  have rc: "receipt_credit r ?t" using r by (simp add: receipt_credit_def credit_transaction_def telegram_credit_def)
  have id: "t_id ?t = tid" by (simp add: credit_transaction_def)
  have "sepay_books (db_transactions s @ [?t]) (db_sepay_receipts s @ [r]) (db_telegram s @ [x]) (db_native s)"
  proof (rule books_accept_telegram)
    show "sepay_books (db_transactions s) (db_sepay_receipts s) (db_telegram s) (db_native s)" using assms(1) by (simp add: sepay_inv_def)
    show "\<forall>r\<in>set (db_telegram s). (ti_bot r, ti_update r) \<noteq> (ti_bot x, ti_update x)"
      using x(2,6) by (auto simp: telegram_key_def)
  qed (use t(2) r x id rc in auto)
  then show ?thesis by (simp add: sepay_inv_def t(1) r(1) x(1) n)
qed

definition native_quiet :: "webhook_note \<Rightarrow> db \<Rightarrow> db \<Rightarrow> bool" where
  "native_quiet inp s s' \<longleftrightarrow> db_transactions s' = db_transactions s \<and> db_sepay_receipts s' = db_sepay_receipts s \<and>
     db_telegram s' = db_telegram s \<and> db_events s' = db_events s \<and>
     (db_native s' = db_native s \<or> (\<exists>x. db_native s' = db_native s @ [x] \<and> native_key inp x \<and> \<not> accepted_native x \<and>
        (\<forall>r\<in>set (db_native s). \<not> native_key inp r)))"

definition native_accepts :: "env \<Rightarrow> webhook_note \<Rightarrow> db \<Rightarrow> db \<Rightarrow> bool" where
  "native_accepts e inp s s' \<longleftrightarrow> (\<exists>tid x.
     db_transactions s' = db_transactions s @ [credit_transaction e (native_credit e inp) tid] \<and>
     (\<forall>t\<in>set (db_transactions s). t_id t \<noteq> tid) \<and> db_sepay_receipts s' = db_sepay_receipts s \<and> db_telegram s' = db_telegram s \<and>
     db_native s' = db_native s @ [x] \<and> native_key inp x \<and> accepted_native x \<and> ni_transaction x = tid \<and> ni_hash x = native_hash e inp \<and>
     ni_reference x = sw_reference inp \<and>
     (\<forall>y\<in>set (db_native s). \<not> native_key inp y) \<and> 0 < sw_amount inp \<and>
     (sw_reference inp \<noteq> [] \<longrightarrow> (\<forall>y\<in>set (db_native s). \<not> (ni_store y = sw_store inp \<and> ni_reference y = sw_reference inp)) \<and>
       sepay_receipt_of (sw_store inp) (sw_reference inp) s = None))"

lemma native_evidence_key: "native_key inp (native_evidence e inp b)"
  by (simp add: native_key_def native_evidence_def)

lemma finish_native_last:
  assumes "db_native s2 = old @ [native_evidence e inp b]" "\<forall>r\<in>set old. \<not> native_key inp r"
  shows "db_native (finish_native inp reason tid s2) = old @ [(native_evidence e inp b)\<lparr>ni_reason := reason, ni_transaction := tid\<rparr>]"
  using update_last[OF assms(2) native_evidence_key] by (simp add: finish_native_def assms(1))

lemma finish_native_frame [simp]:
  "db_transactions (finish_native inp reason tid s) = db_transactions s" "db_telegram (finish_native inp reason tid s) = db_telegram s"
  "db_sepay_receipts (finish_native inp reason tid s) = db_sepay_receipts s" "db_events (finish_native inp reason tid s) = db_events s"
  by (simp_all add: finish_native_def)

lemma decide_native_accept:
  assumes "decide_native e inp s = Inr Accept"
  shows "0 < sw_amount inp \<and> (sw_reference inp \<noteq> [] \<longrightarrow>
    (\<forall>y\<in>set (db_native s). \<not> (ni_store y = sw_store inp \<and> ni_reference y = sw_reference inp \<and> ni_provider y \<noteq> sw_provider inp)) \<and>
    sepay_receipt_of (sw_store inp) (sw_reference inp) s = None)"
  using assms
  by (auto simp: decide_native_def decide_reference_def bnd_Inr Let_def find_None_iff split: option.split_asm if_split_asm)

lemma ingest_webhook_tx_step:
  assumes tx: "ingest_webhook_tx v e inp b s = Inr (res, s')" and rev: "sw_review inp \<noteq> ''ACCEPTED''"
  shows "native_quiet inp s s' \<or> native_accepts e inp s s'"
proof (cases "\<exists>r\<in>set (db_native s). native_key inp r")
  case True
  with tx obtain s2 where c: "ensure_connection v e (sw_store inp) (sw_bank inp) (sw_account inp) s = Inr s2"
    and r: "repeat_native e inp b s2 = Inr (res, s')"
    by (auto simp: ingest_webhook_tx_def bnd_Inr Let_def)
  from ensure_connection_frame[OF c] obtain cs where s2: "s2 = s\<lparr>db_connections := cs\<rparr>" ..
  obtain q where "s' = s2\<lparr>db_quarantine := q\<rparr> \<or> s' = s2"
    using r add_quarantine_frame
    by (auto simp: repeat_native_def split: option.split_asm if_split_asm)
  then show ?thesis by (auto simp: native_quiet_def s2)
next
  case False
  let ?x = "native_evidence e inp b" and ?s1 = "s\<lparr>db_native := db_native s @ [native_evidence e inp b]\<rparr>"
  from False have new: "\<forall>r\<in>set (db_native s). \<not> native_key inp r" by blast
  from False tx obtain s2 d where c: "ensure_connection v e (sw_store inp) (sw_bank inp) (sw_account inp) ?s1 = Inr s2"
    and d: "decide_native e inp s2 = Inr d" and a: "apply_native v e inp b d s2 = Inr (res, s')"
    by (auto simp: ingest_webhook_tx_def bnd_Inr Let_def)
  from ensure_connection_frame[OF c] obtain cs where s2: "s2 = ?s1\<lparr>db_connections := cs\<rparr>" ..
  have nv: "db_native s2 = db_native s @ [?x]" by (simp add: s2)
  show ?thesis
  proof (cases d)
    case (Finish dup reason tid)
    then have s': "s' = finish_native inp reason tid s2" using a by (simp add: apply_native_def)
    have "reason \<noteq> ''ACCEPTED''" using native_not_accepted d Finish rev by blast
    then have "native_quiet inp s s'"
      using finish_native_last[OF nv new, of reason tid] new native_evidence_key[of inp e b]
      by (auto simp: native_quiet_def s' s2 native_key_def)
    then show ?thesis ..
  next
    case (Quarantine reason existing)
    obtain q where q: "add_quarantine (native_candidate e inp b reason existing) s2 = s2\<lparr>db_quarantine := q\<rparr>"
      using add_quarantine_frame by blast
    then have s': "s' = finish_native inp reason [] (s2\<lparr>db_quarantine := q\<rparr>)"
      using a Quarantine by (simp add: apply_native_def)
    have "reason \<noteq> ''ACCEPTED''" using native_quarantine d Quarantine by fastforce
    moreover have "db_native (s2\<lparr>db_quarantine := q\<rparr>) = db_native s @ [?x]" using nv by simp
    ultimately have "native_quiet inp s s'"
      using finish_native_last[of "s2\<lparr>db_quarantine := q\<rparr>" "db_native s" e inp b reason "[]"] new native_evidence_key[of inp e b]
      by (auto simp: native_quiet_def s' s2 native_key_def)
    then show ?thesis ..
  next
    case Accept
    from a Accept obtain tid n s3 where ins: "insert_sepay_credit v e (native_credit e inp) s2 = Inr ((tid, n), s3)"
      and s': "s' = finish_native inp ''ACCEPTED'' tid s3"
      by (auto simp: apply_native_def bnd_Inr)
    note f = insert_credit_success[OF ins]
    have "db_native s3 = db_native s @ [?x]" using f(5) nv by simp
    then have t': "db_native s' = db_native s @ [?x\<lparr>ni_reason := ''ACCEPTED'', ni_transaction := tid\<rparr>]"
      unfolding s' by (rule finish_native_last[OF _ new])
    have ac: "0 < sw_amount inp \<and> (sw_reference inp \<noteq> [] \<longrightarrow>
        (\<forall>y\<in>set (db_native s). \<not> (ni_store y = sw_store inp \<and> ni_reference y = sw_reference inp)) \<and>
        sepay_receipt_of (sw_store inp) (sw_reference inp) s = None)"
      using decide_native_accept[of e inp s2] d Accept new
      by (auto simp: s2 sepay_receipt_of_def native_key_def)
    have "native_accepts e inp s s'"
      unfolding native_accepts_def
      using f new t' ac
      by (intro exI[of _ tid] exI[of _ "?x\<lparr>ni_reason := ''ACCEPTED'', ni_transaction := tid\<rparr>"])
        (simp add: s' s2 native_key_def native_evidence_def)
    then show ?thesis ..
  qed
qed

lemma ingest_webhook_step:
  "native_quiet inp s (snd (ingest_webhook v e inp s)) \<or> native_accepts e inp s (snd (ingest_webhook v e inp s))"
proof -
  have same: "native_quiet inp s s" by (simp add: native_quiet_def)
  show ?thesis
  proof (cases "va_keyring v = None \<or> invalid_webhook inp \<or> sw_review inp \<noteq> [] \<and> \<not> valid_review_reason (sw_review inp)")
    case True
    with same show ?thesis by (auto simp: ingest_webhook_def)
  next
    case False
    show ?thesis
    proof (cases "sepay_encrypt v (e_id e 0) (sw_payload inp) (native_aad inp)")
      case Inl
      with False same show ?thesis by (auto simp: ingest_webhook_def)
    next
      case (Inr b)
      have "snd (committed e r) = snd r" for r by (cases r) (simp add: committed_def split: sum.split)
      then have st: "snd (ingest_webhook v e inp s) = snd (run_tx (ingest_webhook_tx v e inp b) s)"
        using False Inr by (auto simp: ingest_webhook_def)
      have "sw_review inp \<noteq> ''ACCEPTED''" using False by (auto simp: valid_review_reason_def review_reasons_def)
      then show ?thesis
        unfolding st using same
        by (intro run_tx_rel[where r = "\<lambda>s s'. native_quiet inp s s' \<or> native_accepts e inp s s'"])
          (auto dest: ingest_webhook_tx_step)
    qed
  qed
qed

lemma native_quiet_inv:
  assumes "sepay_inv s" "native_quiet inp s s'"
  shows "sepay_inv s'"
proof -
  from assms(2) consider (same) "db_native s' = db_native s"
    | (row) x where "db_native s' = db_native s @ [x]" "native_key inp x" "\<not> accepted_native x" "\<forall>r\<in>set (db_native s). \<not> native_key inp r"
    unfolding native_quiet_def by blast
  then show ?thesis
  proof cases
    case same
    with assms show ?thesis by (simp add: sepay_inv_def native_quiet_def)
  next
    case row
    have "\<forall>r\<in>set (db_native s). (ni_store r, ni_provider r) \<noteq> (ni_store x, ni_provider x)"
      using row(2,4) by (auto simp: native_key_def)
    from books_native[OF _ row(3) this] assms row(1) show ?thesis by (simp add: sepay_inv_def native_quiet_def)
  qed
qed

lemma native_accepts_inv:
  assumes "sepay_inv s" "native_accepts e inp s s'"
  shows "sepay_inv s'"
proof -
  from assms(2) obtain tid x where
    t: "db_transactions s' = db_transactions s @ [credit_transaction e (native_credit e inp) tid]" "\<forall>t\<in>set (db_transactions s). t_id t \<noteq> tid"
    and r: "db_sepay_receipts s' = db_sepay_receipts s" "db_telegram s' = db_telegram s"
    and x: "db_native s' = db_native s @ [x]" "native_key inp x" "accepted_native x" "ni_transaction x = tid" "ni_hash x = native_hash e inp"
      "\<forall>y\<in>set (db_native s). \<not> native_key inp y"
    unfolding native_accepts_def by blast
  let ?t = "credit_transaction e (native_credit e inp) tid"
  have nc: "native_credit_of x ?t"
    using x by (simp add: native_credit_of_def credit_transaction_def native_credit_def native_key_def native_semantic_def)
  have "sepay_books (db_transactions s @ [?t]) (db_sepay_receipts s) (db_telegram s) (db_native s @ [x])"
  proof (rule books_accept_native)
    show "sepay_books (db_transactions s) (db_sepay_receipts s) (db_telegram s) (db_native s)" using assms(1) by (simp add: sepay_inv_def)
    show "\<forall>r\<in>set (db_native s). (ni_store r, ni_provider r) \<noteq> (ni_store x, ni_provider x)"
      using x(2,6) by (auto simp: native_key_def)
    show "\<forall>y\<in>set (db_transactions s). t_id y \<noteq> t_id ?t" using t(2) by (simp add: credit_transaction_def)
  qed (use x nc in auto)
  then show ?thesis by (simp add: sepay_inv_def t(1) r x(1))
qed

end
