(* ===== verification/SePayLaws.thy ===== *)
theory SePayLaws
  imports SePay
begin

text \<open>
  What the SePay store promises: the calls of internal/storage/sepay.go and sepay_config.go as a
  machine, and the facts that hold along every history of them: the books balance, evidence that was
  stored is never credited again, a stale revision is refused, and what was sealed is read back.
\<close>

section \<open>The calls\<close>

datatype sepay_call =
    STelegram vault env telegram_note
  | SWebhook vault env webhook_note
  | SSave vault env managed_config string string string provider_actor

fun sepay_exec :: "sepay_call \<Rightarrow> db \<Rightarrow> db" where
  "sepay_exec (STelegram v e inp) s = snd (ingest_telegram v e inp s)"
| "sepay_exec (SWebhook v e inp) s = snd (ingest_webhook v e inp s)"
| "sepay_exec (SSave v e cfg store bank account actor) s = snd (save_managed v e cfg store bank account actor s)"

lemma save_managed_success:
  assumes "save_managed v e cfg store bank account actor s = (Inr r, s')"
  shows "check_mutation_allowed e s = Inr () \<and> check_sepay_revision (mc_revision cfg) s = Inr () \<and> r = mc_revision cfg + 1 \<and>
    receiver_matches v store bank account s = Inr () \<and>
    (\<exists>blob audit. sepay_encrypt v (e_id e 0) (managed_text cfg) managed_aad = Inr blob \<and>
      s' = s\<lparr>db_managed := Some \<lparr>mg_revision = mc_revision cfg + 1, mg_blob = blob, mg_updated = now_text e\<rparr>, db_audit := db_audit s @ [audit]\<rparr>)"
proof -
  obtain blob where b: "sepay_encrypt v (e_id e 0) (managed_text cfg) managed_aad = Inr blob"
    "save_managed_tx v e cfg blob store bank account actor s = Inr (r, s')"
    using assms by (auto simp: save_managed_def run_tx_Inr split: sum.split_asm)
  then have "check_mutation_allowed e s = Inr () \<and> check_sepay_revision (mc_revision cfg) s = Inr () \<and> r = mc_revision cfg + 1 \<and>
    receiver_matches v store bank account s = Inr () \<and>
    (\<exists>audit. s' = s\<lparr>db_managed := Some \<lparr>mg_revision = mc_revision cfg + 1, mg_blob = blob, mg_updated = now_text e\<rparr>, db_audit := db_audit s @ [audit]\<rparr>)"
    by (auto simp: save_managed_tx_def bnd_Inr add_audit_def split: if_split_asm option.split_asm)
  with b(1) show ?thesis by blast
qed

lemma save_managed_step:
  "snd (save_managed v e cfg store bank account actor s) = s \<or>
    (\<exists>m audit. snd (save_managed v e cfg store bank account actor s) = s\<lparr>db_managed := m, db_audit := audit\<rparr>)"
proof (cases "save_managed v e cfg store bank account actor s")
  case (Pair r s')
  show ?thesis
  proof (cases r)
    case (Inl x)
    with Pair have "s' = s" by (auto simp: save_managed_def run_tx_def split: sum.split_asm)
    then show ?thesis using Pair by simp
  next
    case (Inr n)
    with Pair save_managed_success[of v e cfg store bank account actor s n s'] show ?thesis by auto
  qed
qed

interpretation se: call_machine sepay_exec "\<lambda>_. True" sepay_inv
proof
  fix c s assume "sepay_inv s"
  then show "sepay_inv (sepay_exec c s)"
  proof (cases c)
    case (STelegram v e inp)
    from ingest_telegram_step[of inp s v e] show ?thesis
      using telegram_quiet_inv[OF \<open>sepay_inv s\<close>] telegram_accepts_inv[OF \<open>sepay_inv s\<close>] STelegram by simp blast
  next
    case (SWebhook v e inp)
    from ingest_webhook_step[of inp s v e] show ?thesis
      using native_quiet_inv[OF \<open>sepay_inv s\<close>] native_accepts_inv[OF \<open>sepay_inv s\<close>] SWebhook by simp blast
  next
    case (SSave v e cfg store bank account actor)
    from save_managed_step[of v e cfg store bank account actor s] show ?thesis
    proof
      assume "snd (save_managed v e cfg store bank account actor s) = s"
      then show ?thesis using SSave \<open>sepay_inv s\<close> by simp
    next
      assume "\<exists>m audit. snd (save_managed v e cfg store bank account actor s) = s\<lparr>db_managed := m, db_audit := audit\<rparr>"
      then obtain m audit where "snd (save_managed v e cfg store bank account actor s) = s\<lparr>db_managed := m, db_audit := audit\<rparr>" by blast
      then show ?thesis using SSave \<open>sepay_inv s\<close> by (simp add: sepay_inv_def)
    qed
  qed
qed

lemma sepay_history_inv: "sepay_inv s \<Longrightarrow> sepay_inv (se.history cs s)"
  by (rule se.history_inv) (simp_all add: list_all_iff)

text \<open>Evidence, receipts and transactions are only ever added.\<close>

definition sepay_grows :: "db \<Rightarrow> db \<Rightarrow> bool" where
  "sepay_grows s s' \<longleftrightarrow> (\<exists>ts rs tg nv. db_transactions s' = db_transactions s @ ts \<and> db_sepay_receipts s' = db_sepay_receipts s @ rs \<and>
     db_telegram s' = db_telegram s @ tg \<and> db_native s' = db_native s @ nv)"

lemma sepay_grows_refl: "sepay_grows s s"
  by (simp add: sepay_grows_def)

lemma sepay_grows_trans: "sepay_grows a b \<Longrightarrow> sepay_grows b c \<Longrightarrow> sepay_grows a c"
  by (fastforce simp: sepay_grows_def)

lemma sepay_exec_grows: "sepay_grows s (sepay_exec c s)"
proof (cases c)
  case (STelegram v e inp)
  with ingest_telegram_step[of inp s v e] show ?thesis
    by (auto simp: sepay_grows_def telegram_quiet_def telegram_accepts_def)
next
  case (SWebhook v e inp)
  with ingest_webhook_step[of inp s v e] show ?thesis
    by (auto simp: sepay_grows_def native_quiet_def native_accepts_def)
next
  case (SSave v e cfg store bank account actor)
  with save_managed_step[of v e cfg store bank account actor s] show ?thesis by (auto simp: sepay_grows_def)
qed

lemma sepay_history_grows: "sepay_inv s \<Longrightarrow> sepay_grows s (se.history cs s)"
  by (rule se.history_rel[where r = sepay_grows, OF sepay_grows_refl sepay_grows_trans sepay_exec_grows])
    (simp_all add: list_all_iff)

section \<open>The books balance\<close>

lemma dec_inj: "dec m = dec n \<Longrightarrow> m = n"
  by (metis num_of_dec)

lemma int_text_inj: "int_text a = int_text b \<Longrightarrow> a = b"
proof -
  assume a: "int_text a = int_text b"
  have "dec n \<noteq> CHR ''-'' # t" for n t
  proof
    assume "dec n = CHR ''-'' # t"
    then have "is_digit (CHR ''-'')" using dec_digits[of n] by simp
    then show False by (simp add: is_digit_def)
  qed
  then have "a < 0 \<longleftrightarrow> b < 0" using a by (auto simp: int_text_def split: if_split_asm) (metis+)
  with a show "a = b" by (auto simp: int_text_def dest!: dec_inj split: if_split_asm)
qed

lemma length_by_keys:
  assumes "distinct (map f xs)" "distinct (map g ys)" "f ` set xs = g ` set ys"
  shows "length xs = length ys"
  using assms by (metis distinct_card length_map set_map)

lemma distinct_filter_key: "distinct (map k xs) \<Longrightarrow> distinct (map k (filter p xs))"
  by (simp add: distinct_map_filter)

abbreviation from_parser :: "string \<Rightarrow> transaction \<Rightarrow> bool" where "from_parser p t \<equiv> t_parser t = p"

lemma telegram_counts:
  assumes "sepay_books ts rs tg nv"
  shows "count_where (from_parser ''sepay-telegram-v1'') ts = length rs"
proof -
  have "t_id ` set (filter (from_parser ''sepay-telegram-v1'') ts) = sp_transaction ` set rs" (is "?A = ?B")
  proof
    show "?A \<subseteq> ?B" using assms by (fastforce simp: sepay_books_def receipt_credit_def image_iff)
    show "?B \<subseteq> ?A" using assms by (fastforce simp: sepay_books_def receipt_credit_def image_iff)
  qed
  then show ?thesis unfolding count_where_def
    using assms by (intro length_by_keys[where f = t_id and g = sp_transaction])
      (auto simp: sepay_books_def sepay_keys_def distinct_filter_key)
qed

lemma native_rows_distinct:
  assumes "sepay_books ts rs tg nv"
  shows "distinct (map ni_transaction (filter accepted_native nv))"
proof -
  have k: "distinct (map (\<lambda>r. (ni_store r, ni_provider r)) nv)" "distinct (map t_id ts)"
    using assms by (simp_all add: sepay_books_def sepay_keys_def)
  have "inj_on ni_transaction (set (filter accepted_native nv))"
  proof (rule inj_onI)
    fix a b assume a: "a \<in> set (filter accepted_native nv)" "b \<in> set (filter accepted_native nv)" "ni_transaction a = ni_transaction b"
    have ex: "\<forall>n\<in>set nv. accepted_native n \<longrightarrow> (\<exists>t\<in>set ts. native_credit_of n t)"
      using assms by (simp add: sepay_books_def)
    obtain t where t1: "t \<in> set ts" "native_credit_of a t" using ex a(1) by auto
    obtain u where t2: "u \<in> set ts" "native_credit_of b u" using ex a(2) by auto
    note t = t1 t2
    then have "t = u" using distinct_key_eq[OF k(2), of t u] a(3) by (simp add: native_credit_of_def)
    then have "ni_store a = ni_store b" "int_text (ni_provider a) = int_text (ni_provider b)"
      using t by (auto simp: native_credit_of_def store_connection_def)
    then show "a = b" using distinct_key_eq[OF k(1), of a b] a(1,2) int_text_inj by auto
  qed
  moreover have "distinct nv" using k(1) by (simp add: distinct_map)
  ultimately show ?thesis by (simp add: distinct_map)
qed

lemma native_counts:
  assumes "sepay_books ts rs tg nv"
  shows "count_where (from_parser ''sepay-native-v1'') ts = count_where accepted_native nv"
proof -
  have "t_id ` set (filter (from_parser ''sepay-native-v1'') ts) = ni_transaction ` set (filter accepted_native nv)" (is "?A = ?B")
  proof
    show "?A \<subseteq> ?B" using assms by (fastforce simp: sepay_books_def native_credit_of_def image_iff)
    show "?B \<subseteq> ?A" using assms by (fastforce simp: sepay_books_def native_credit_of_def image_iff)
  qed
  then show ?thesis unfolding count_where_def
    using assms native_rows_distinct[OF assms]
    by (intro length_by_keys[where f = t_id and g = ni_transaction])
      (auto simp: sepay_books_def sepay_keys_def distinct_filter_key)
qed

text \<open>
  C30.  The SePay books balance along every history of notifications and configuration saves: the
  credits of the Telegram parser are exactly the receipts, those of the native parser exactly the
  accepted native notifications (each row naming its own transaction, with the same hash, connection and
  semantic key), keys stay unique and no evidence, receipt or transaction is ever removed or changed.
\<close>

theorem sepay_books_balance:
  assumes "sepay_inv s"
  shows "sepay_inv (se.history cs s) \<and> sepay_grows s (se.history cs s) \<and>
    count_where (from_parser ''sepay-telegram-v1'') (db_transactions (se.history cs s)) = length (db_sepay_receipts (se.history cs s)) \<and>
    count_where (from_parser ''sepay-native-v1'') (db_transactions (se.history cs s)) =
      count_where accepted_native (db_native (se.history cs s))"
  using sepay_history_inv[OF assms, of cs] sepay_history_grows[OF assms, of cs]
  by (simp add: sepay_inv_def telegram_counts native_counts)

section \<open>No credit twice\<close>

definition stamped :: "env \<Rightarrow> ingest_result \<Rightarrow> ingest_result" where
  "stamped e r = r\<lparr>ig_event := map_option (\<lambda>n. n\<lparr>n_committed := now_text e\<rparr>) (ig_event r)\<rparr>"

lemma stamped_simps [simp]:
  "ig_event (stamped e r) = map_option (\<lambda>n. n\<lparr>n_committed := now_text e\<rparr>) (ig_event r)"
  "ig_duplicate (stamped e r) = ig_duplicate r" "ig_review (stamped e r) = ig_review r"
  by (simp_all add: stamped_def)

lemma committed_event: "committed e r = (Inr res, s') \<Longrightarrow> \<exists>res0. r = (Inr res0, s') \<and>
    res = stamped e res0"
  by (cases r) (auto simp: committed_def stamped_def split: sum.split_asm)

lemma ingest_finished_event [simp]: "ig_event (ingest_finished dup reason) = None"
  by (simp add: ingest_finished_def)

lemma finish_transactions [simp]:
  "db_transactions (add_quarantine q s) = db_transactions s"
  by (simp add: add_quarantine_def)

lemma credit_moves:
  assumes "ensure_connection v e store bank account s = Inr s2"
  shows "db_transactions s2 = db_transactions s"
  using ensure_connection_frame[OF assms] by auto

lemma apply_telegram_event:
  assumes "apply_telegram v e inp h b d s2 = Inr (res, s')" "ig_event res \<noteq> None"
  shows "length (db_transactions s') = Suc (length (db_transactions s2))"
  using assms by (cases d) (auto simp: apply_telegram_def accept_telegram_def bnd_Inr dest!: insert_credit_success(3) split: option.split_asm if_split_asm)

lemma apply_native_event:
  assumes "apply_native v e inp b d s2 = Inr (res, s')" "ig_event res \<noteq> None"
  shows "length (db_transactions s') = Suc (length (db_transactions s2))"
  using assms by (cases d) (auto simp: apply_native_def bnd_Inr dest!: insert_credit_success(3))

lemma ingest_telegram_Inr:
  assumes "ingest_telegram v e inp s = (Inr res, s')"
  shows "\<exists>h mh b res0. sepay_payload_hashes e (sn_payload inp) = Inr (h, mh) \<and>
    ingest_telegram_tx v e inp h mh b s = Inr (res0, s') \<and>
    res = stamped e res0"
  using assms unfolding ingest_telegram_def
  by (fastforce split: if_split_asm sum.split_asm prod.split_asm dest!: committed_event simp: run_tx_Inr)

lemma ingest_webhook_Inr:
  assumes "ingest_webhook v e inp s = (Inr res, s')"
  shows "\<exists>b res0. ingest_webhook_tx v e inp b s = Inr (res0, s') \<and>
    res = stamped e res0"
  using assms unfolding ingest_webhook_def
  by (fastforce split: if_split_asm sum.split_asm dest!: committed_event simp: run_tx_Inr)

lemma ingest_telegram_event:
  assumes "ingest_telegram v e inp s = (Inr res, s')" "db_transactions s' = db_transactions s"
  shows "ig_event res = None"
proof (rule ccontr)
  assume n: "ig_event res \<noteq> None"
  obtain h mh b res0 where tx: "ingest_telegram_tx v e inp h mh b s = Inr (res0, s')" "ig_event res0 \<noteq> None"
    using ingest_telegram_Inr[OF assms(1)] n by auto
  show False
  proof (cases "\<exists>r\<in>set (db_telegram s). telegram_key inp r")
    case True
    with tx obtain s2 where "repeat_telegram e inp h b s2 = Inr (res0, s')"
      by (auto simp: ingest_telegram_tx_def bnd_Inr Let_def)
    then show False using tx(2) by (auto simp: repeat_telegram_def Let_def split: option.split_asm if_split_asm)
  next
    case False
    with tx(1) obtain s2 d where c: "ensure_connection v e (sn_store inp) (sn_bank inp) (sn_account inp)
        (s\<lparr>db_telegram := db_telegram s @ [telegram_evidence e inp h b]\<rparr>) = Inr s2" and a: "apply_telegram v e inp h b d s2 = Inr (res0, s')"
      by (auto simp: ingest_telegram_tx_def bnd_Inr Let_def)
    then show False using apply_telegram_event[OF a tx(2)] credit_moves[OF c] assms(2) by simp
  qed
qed

lemma ingest_webhook_event:
  assumes "ingest_webhook v e inp s = (Inr res, s')" "db_transactions s' = db_transactions s"
  shows "ig_event res = None"
proof (rule ccontr)
  assume n: "ig_event res \<noteq> None"
  obtain b res0 where tx: "ingest_webhook_tx v e inp b s = Inr (res0, s')" "ig_event res0 \<noteq> None"
    using ingest_webhook_Inr[OF assms(1)] n by auto
  show False
  proof (cases "\<exists>r\<in>set (db_native s). native_key inp r")
    case True
    with tx obtain s2 where "repeat_native e inp b s2 = Inr (res0, s')"
      by (auto simp: ingest_webhook_tx_def bnd_Inr Let_def)
    then show False using tx(2) by (auto simp: repeat_native_def split: option.split_asm if_split_asm)
  next
    case False
    with tx(1) obtain s2 d where c: "ensure_connection v e (sw_store inp) (sw_bank inp) (sw_account inp)
        (s\<lparr>db_native := db_native s @ [native_evidence e inp b]\<rparr>) = Inr s2" and a: "apply_native v e inp b d s2 = Inr (res0, s')"
      by (auto simp: ingest_webhook_tx_def bnd_Inr Let_def)
    then show False using apply_native_event[OF a tx(2)] credit_moves[OF c] assms(2) by simp
  qed
qed

text \<open>What was seen before: the update or its reference, the native notification or its reference.\<close>

definition telegram_seen :: "telegram_note \<Rightarrow> db \<Rightarrow> bool" where
  "telegram_seen inp s \<longleftrightarrow> (\<exists>r\<in>set (db_telegram s). telegram_key inp r) \<or>
     (\<exists>c. sn_credit inp = Some c \<and> (\<exists>r\<in>set (db_sepay_receipts s). sp_store r = sn_store inp \<and> sp_reference r = cd_reference c))"

definition native_seen :: "webhook_note \<Rightarrow> db \<Rightarrow> bool" where
  "native_seen inp s \<longleftrightarrow> (\<exists>r\<in>set (db_native s). native_key inp r) \<or> sw_reference inp \<noteq> [] \<and>
     ((\<exists>r\<in>set (db_native s). ni_store r = sw_store inp \<and> ni_reference r = sw_reference inp) \<or>
      (\<exists>r\<in>set (db_sepay_receipts s). sp_store r = sw_store inp \<and> sp_reference r = sw_reference inp))"

lemma seen_grows:
  assumes "sepay_grows s s'"
  shows "telegram_seen inp s \<Longrightarrow> telegram_seen inp s'" "native_seen w s \<Longrightarrow> native_seen w s'"
  using assms by (auto simp: sepay_grows_def telegram_seen_def native_seen_def)

lemma receipt_of_None: "sepay_receipt_of store reference s = None \<longleftrightarrow>
    (\<forall>r\<in>set (db_sepay_receipts s). \<not> (sp_store r = store \<and> sp_reference r = reference))"
  by (auto simp: sepay_receipt_of_def find_None_iff)

lemma seen_quiet:
  assumes "telegram_seen inp s"
  shows "telegram_quiet inp s (snd (ingest_telegram v e inp s))"
  using ingest_telegram_step[of inp s v e]
proof
  assume "telegram_accepts e inp s (snd (ingest_telegram v e inp s))"
  then obtain c where c: "sn_credit inp = Some c" "decide_credit e inp c s = Accept" "\<forall>y\<in>set (db_telegram s). \<not> telegram_key inp y"
    unfolding telegram_accepts_def by blast
  from decide_credit_accept[OF c(2)] c(1,3) assms show ?thesis by (auto simp: telegram_seen_def receipt_of_None)
qed

lemma early_quiet:
  assumes "sn_credit inp = Some c" "cd_at c < sn_activation inp"
  shows "telegram_quiet inp s (snd (ingest_telegram v e inp s))"
  using ingest_telegram_step[of inp s v e]
proof
  assume "telegram_accepts e inp s (snd (ingest_telegram v e inp s))"
  then have "decide_credit e inp c s = Accept" using assms(1) by (auto simp: telegram_accepts_def)
  from decide_credit_accept[OF this] assms(2) show ?thesis by simp
qed

lemma native_seen_quiet:
  assumes "native_seen inp s"
  shows "native_quiet inp s (snd (ingest_webhook v e inp s))"
  using ingest_webhook_step[of inp s v e]
proof
  assume "native_accepts e inp s (snd (ingest_webhook v e inp s))"
  then have "\<forall>y\<in>set (db_native s). \<not> native_key inp y" "sw_reference inp \<noteq> [] \<longrightarrow>
      (\<forall>y\<in>set (db_native s). \<not> (ni_store y = sw_store inp \<and> ni_reference y = sw_reference inp)) \<and>
       sepay_receipt_of (sw_store inp) (sw_reference inp) s = None"
    unfolding native_accepts_def by blast+
  with assms show ?thesis by (auto simp: native_seen_def receipt_of_None)
qed

text \<open>
  C29.  No credit twice.  Once the update of a Telegram notification has been recorded, or a receipt holds the reference of its
  credit (or if its credit lies before the activation time of the configuration, as every credit from before a
  change of the transport does), then whatever it contains and whatever happened in between, it adds no
  transaction, no receipt and no event.  The same holds for a native notification once its identifier has been recorded, or a
  native notification or a receipt of its store has its reference.  A reference that only the native inbox
  holds is not looked up for a Telegram notification: between the transports it is the activation time that
  separates.
\<close>

theorem sepay_no_double_credit:
  assumes "sepay_inv s" and "telegram_seen inp s \<or> (\<exists>c. sn_credit inp = Some c \<and> cd_at c < sn_activation inp)" and "native_seen w s"
  shows "db_transactions (snd (ingest_telegram v e inp (se.history cs s))) = db_transactions (se.history cs s) \<and>
    db_sepay_receipts (snd (ingest_telegram v e inp (se.history cs s))) = db_sepay_receipts (se.history cs s) \<and>
    db_events (snd (ingest_telegram v e inp (se.history cs s))) = db_events (se.history cs s) \<and>
    (\<forall>res. fst (ingest_telegram v e inp (se.history cs s)) = Inr res \<longrightarrow> ig_event res = None) \<and>
    db_transactions (snd (ingest_webhook v e w (se.history cs s))) = db_transactions (se.history cs s) \<and>
    db_events (snd (ingest_webhook v e w (se.history cs s))) = db_events (se.history cs s) \<and>
    (\<forall>res. fst (ingest_webhook v e w (se.history cs s)) = Inr res \<longrightarrow> ig_event res = None)"
proof -
  let ?h = "se.history cs s"
  note g = seen_grows[OF sepay_history_grows[OF assms(1), of cs]]
  have t: "telegram_quiet inp ?h (snd (ingest_telegram v e inp ?h))"
    using assms(2) seen_quiet[OF g(1)] early_quiet by blast
  have n: "native_quiet w ?h (snd (ingest_webhook v e w ?h))" by (rule native_seen_quiet[OF g(2)[OF assms(3)]])
  have te: "ig_event res = None" if "fst (ingest_telegram v e inp ?h) = Inr res" for res
    using ingest_telegram_event[of v e inp ?h res "snd (ingest_telegram v e inp ?h)"] t that
    by (cases "ingest_telegram v e inp ?h") (simp add: telegram_quiet_def)
  have we: "ig_event res = None" if "fst (ingest_webhook v e w ?h) = Inr res" for res
    using ingest_webhook_event[of v e w ?h res "snd (ingest_webhook v e w ?h)"] n that
    by (cases "ingest_webhook v e w ?h") (simp add: native_quiet_def)
  show ?thesis using t n te we by (simp add: telegram_quiet_def native_quiet_def)
qed

section \<open>Redelivery\<close>

text \<open>The row that the first delivery of an update leaves.\<close>

definition stored_update :: "telegram_note \<Rightarrow> string \<Rightarrow> ingest_result \<Rightarrow> telegram_row \<Rightarrow> bool" where
  "stored_update inp h res x \<longleftrightarrow> telegram_key inp x \<and> ti_hash x = h \<and> ti_store x = sn_store inp \<and>
     ig_review (ingest_finished True (ti_reason x)) = ig_review res"

lemma ingest_finished_review: "ig_review (ingest_finished b r) = ig_review (ingest_finished True r)"
  by (simp add: ingest_finished_def)

lemma stored_new:
  assumes "db_telegram s2 = old @ [telegram_evidence e inp h b]" "\<forall>r\<in>set old. \<not> telegram_key inp r"
    and "ig_review res = ig_review (ingest_finished dup reason)"
  shows "\<exists>x\<in>set (db_telegram (finish_telegram inp reason tid s2)). stored_update inp h res x"
  unfolding finish_telegram_last[OF assms(1,2)] stored_update_def
  using ingest_finished_review[of dup reason] assms(3)
  by (simp add: telegram_key_def telegram_evidence_def)

lemma accept_success:
  assumes "accept_telegram v e inp c s = Inr (res, s')"
  shows "\<exists>tid n s1 rs. insert_sepay_credit v e (telegram_credit e inp c) s = Inr ((tid, n), s1) \<and>
    s' = finish_telegram inp ''ACCEPTED'' tid (s1\<lparr>db_sepay_receipts := rs\<rparr>) \<and> res = (ingest_finished False ''ACCEPTED'')\<lparr>ig_event := Some n\<rparr>"
proof -
  obtain tid n s1 where i: "insert_sepay_credit v e (telegram_credit e inp c) s = Inr ((tid, n), s1)"
    using assms by (auto simp: accept_telegram_def bnd_Inr)
  have "\<exists>rs. s' = finish_telegram inp ''ACCEPTED'' tid (s1\<lparr>db_sepay_receipts := rs\<rparr>)" "res = (ingest_finished False ''ACCEPTED'')\<lparr>ig_event := Some n\<rparr>"
    using assms by (auto simp: accept_telegram_def i split: if_split_asm)
  with i show ?thesis by blast
qed

lemma first_delivery:
  assumes tx: "ingest_telegram_tx v e inp h mh b s = Inr (res, s')" and new: "\<forall>r\<in>set (db_telegram s). \<not> telegram_key inp r"
  shows "\<exists>x\<in>set (db_telegram s'). stored_update inp h res x"
proof -
  let ?x = "telegram_evidence e inp h b" and ?s1 = "s\<lparr>db_telegram := db_telegram s @ [telegram_evidence e inp h b]\<rparr>"
  have "\<not> (\<exists>r\<in>set (db_telegram s). telegram_key inp r)" using new by blast
  with tx obtain s2 d where c: "ensure_connection v e (sn_store inp) (sn_bank inp) (sn_account inp) ?s1 = Inr s2"
    and a: "apply_telegram v e inp h b d s2 = Inr (res, s')"
    by (auto simp: ingest_telegram_tx_def bnd_Inr Let_def)
  from ensure_connection_frame[OF c] obtain cs where s2: "s2 = ?s1\<lparr>db_connections := cs\<rparr>" ..
  have tg: "db_telegram s2 = db_telegram s @ [?x]" by (simp add: s2)
  show ?thesis
  proof (cases d)
    case (Finish dup reason tid)
    then show ?thesis using a stored_new[OF tg new] by (auto simp: apply_telegram_def)
  next
    case (Quarantine reason existing)
    have "db_telegram (add_quarantine q s2) = db_telegram s @ [?x]" for q using tg by (simp add: add_quarantine_def)
    then show ?thesis using a stored_new[OF _ new] Quarantine by (auto simp: apply_telegram_def)
  next
    case Accept
    with a obtain c where "accept_telegram v e inp c s2 = Inr (res, s')" by (auto simp: apply_telegram_def split: option.split_asm)
    from accept_success[OF this] obtain tid n s3 rs where ins: "insert_sepay_credit v e (telegram_credit e inp c) s2 = Inr ((tid, n), s3)"
      and s': "s' = finish_telegram inp ''ACCEPTED'' tid (s3\<lparr>db_sepay_receipts := rs\<rparr>)"
      and res: "res = (ingest_finished False ''ACCEPTED'')\<lparr>ig_event := Some n\<rparr>" by blast
    have "db_telegram (s3\<lparr>db_sepay_receipts := rs\<rparr>) = db_telegram s @ [?x]" using insert_credit_success(4)[OF ins] tg by simp
    then show ?thesis unfolding s' by (rule stored_new[OF _ new, where dup = False]) (simp add: res)
  qed
qed

lemma repeated_delivery:
  assumes "ingest_telegram_tx v e inp h mh b s = Inr (res, s')" "x \<in> set (db_telegram s)" "stored_update inp2 h res0 x"
    "sn_bot inp2 = sn_bot inp" "sn_update inp2 = sn_update inp" "sn_store inp2 = sn_store inp" "sepay_inv s"
  shows "ig_duplicate res \<and> ig_review res = ig_review res0 \<and> ig_event res = None"
proof -
  have k: "telegram_key inp x" using assms(3-5) by (simp add: stored_update_def telegram_key_def)
  then have known: "\<exists>r\<in>set (db_telegram s). telegram_key inp r" using assms(2) by blast
  with assms(1) obtain s2 where c: "ensure_connection v e (sn_store inp) (sn_bank inp) (sn_account inp) s = Inr s2"
    and r: "repeat_telegram e inp h b s2 = Inr (res, s')"
    by (auto simp: ingest_telegram_tx_def bnd_Inr Let_def)
  have d: "distinct (map (\<lambda>r. (ti_bot r, ti_update r)) (db_telegram s))"
    using assms(7) by (simp add: sepay_inv_def sepay_books_def sepay_keys_def)
  have "(\<lambda>r. (ti_bot r, ti_update r) = (ti_bot x, ti_update x)) = telegram_key inp"
    using k by (auto simp: telegram_key_def)
  then have "find (telegram_key inp) (db_telegram s) = Some x"
    using find_key_unique[OF d assms(2)] by simp
  moreover have "db_telegram s2 = db_telegram s" using ensure_connection_frame[OF c] by auto
  ultimately show ?thesis
    using r assms(3,6) by (auto simp: repeat_telegram_def stored_update_def ingest_finished_def split: if_split_asm)
qed

text \<open>
  Redelivery of a Telegram update.  The bot hands out an update until it is acknowledged; if the same
  update with the same payload arrives again after any history, the answer is the first one, marked as
  a duplicate and without an event.
\<close>

theorem sepay_redelivery:
  assumes "ingest_telegram v e inp s = (Inr res, s1)" and "sepay_inv s" and "\<forall>r\<in>set (db_telegram s). \<not> telegram_key inp r"
    and "ingest_telegram v2 e2 inp2 (se.history cs s1) = (Inr res2, s2)"
    and "sn_bot inp2 = sn_bot inp" and "sn_update inp2 = sn_update inp" and "sn_store inp2 = sn_store inp" and "sn_payload inp2 = sn_payload inp"
    and "e_sha256 e2 = e_sha256 e"
  shows "res2 = \<lparr>ig_duplicate = True, ig_review = ig_review res, ig_event = None\<rparr>"
proof -
  obtain h mh b res0 where p: "sepay_payload_hashes e (sn_payload inp) = Inr (h, mh)"
    and tx: "ingest_telegram_tx v e inp h mh b s = Inr (res0, s1)" and res: "res = stamped e res0"
    using ingest_telegram_Inr[OF assms(1)] by blast
  obtain h2 mh2 b2 res20 where p2: "sepay_payload_hashes e2 (sn_payload inp2) = Inr (h2, mh2)"
    and tx2: "ingest_telegram_tx v2 e2 inp2 h2 mh2 b2 (se.history cs s1) = Inr (res20, s2)" and res2: "res2 = stamped e2 res20"
    using ingest_telegram_Inr[OF assms(4)] by blast
  have "sepay_payload_hashes e2 (sn_payload inp2) = sepay_payload_hashes e (sn_payload inp)"
    unfolding sepay_payload_hashes_def sha_hex_def assms(8,9) ..
  then have h: "h2 = h" using p p2 by simp
  from first_delivery[OF tx assms(3)] obtain x where x: "x \<in> set (db_telegram s1)" "stored_update inp h res0 x" by blast
  have i1: "sepay_inv s1" using se.exec_inv[OF TrueI assms(2), of "STelegram v e inp"] assms(1) by simp
  have "x \<in> set (db_telegram (se.history cs s1))"
    using sepay_history_grows[OF i1, of cs] x(1) by (auto simp: sepay_grows_def)
  from repeated_delivery[OF tx2[unfolded h] this x(2) assms(5,6,7)[symmetric] sepay_history_inv[OF i1]]
  have "ig_duplicate res20 \<and> ig_review res20 = ig_review res0 \<and> ig_event res20 = None" .
  then show ?thesis by (simp add: res res2 stamped_def)
qed

section \<open>Configuration revisions\<close>

definition managed_revision :: "db \<Rightarrow> int" where
  "managed_revision s = (case db_managed s of None \<Rightarrow> 0 | Some m \<Rightarrow> mg_revision m)"

lemma check_revision: "check_sepay_revision expected s = ensure (expected = managed_revision s) ErrSePayRevisionConflict"
  by (simp add: check_sepay_revision_def managed_revision_def)

lemma emit_managed:
  assumes "emit_transaction_event_tx e k tid ty ns key data created s = Inr (n, s')"
  shows "db_managed s' = db_managed s"
  using assms by (cases n; auto dest: emit_none elim!: emit_new simp: append_journal_def Let_def)

lemma insert_credit_managed: "insert_sepay_credit v e c s = Inr (x, s') \<Longrightarrow> db_managed s' = db_managed s"
  by (auto simp: insert_sepay_credit_def Let_def bnd_Inr dest!: emit_managed split: if_split_asm option.split_asm)

lemma managed_frames [simp]:
  "db_managed (finish_telegram inp reason tid s) = db_managed s" "db_managed (finish_native w reason tid s) = db_managed s"
  "db_managed (add_quarantine q s) = db_managed s"
  by (simp_all add: finish_telegram_def finish_native_def add_quarantine_def)

lemma ensure_managed: "ensure_connection v e store bank account s = Inr s' \<Longrightarrow> db_managed s' = db_managed s"
  using ensure_connection_frame by fastforce

lemma apply_telegram_managed: "apply_telegram v e inp h b d s = Inr (r, s') \<Longrightarrow> db_managed s' = db_managed s"
  by (cases d) (auto simp: apply_telegram_def dest!: accept_success insert_credit_managed split: option.split_asm)

lemma apply_native_managed: "apply_native v e inp b d s = Inr (r, s') \<Longrightarrow> db_managed s' = db_managed s"
  by (cases d) (auto simp: apply_native_def bnd_Inr dest!: insert_credit_managed)

lemma repeat_managed:
  "repeat_telegram e inp h b s = Inr (r, s') \<Longrightarrow> db_managed s' = db_managed s"
  "repeat_native e w b s = Inr (r, s') \<Longrightarrow> db_managed s' = db_managed s"
  by (auto simp: repeat_telegram_def repeat_native_def Let_def split: option.split_asm if_split_asm)

lemma telegram_tx_managed:
  assumes "ingest_telegram_tx v e inp h mh b s = Inr (r, s')"
  shows "db_managed s' = db_managed s \<and> sn_revision inp = managed_revision s"
  using assms
  by (auto simp: ingest_telegram_tx_def Let_def bnd_Inr check_revision managed_revision_def
      dest!: ensure_managed repeat_managed apply_telegram_managed split: if_split_asm)

lemma webhook_tx_managed:
  assumes "ingest_webhook_tx v e inp b s = Inr (r, s')"
  shows "db_managed s' = db_managed s \<and> sw_revision inp = managed_revision s"
  using assms
  by (auto simp: ingest_webhook_tx_def Let_def bnd_Inr check_revision managed_revision_def
      dest!: ensure_managed repeat_managed apply_native_managed split: if_split_asm)

lemma telegram_failed: "ingest_telegram v e inp s = (Inl x, s') \<Longrightarrow> s' = s"
  by (auto simp: ingest_telegram_def committed_def run_tx_def split: if_split_asm sum.split_asm prod.split_asm)

lemma webhook_failed: "ingest_webhook v e inp s = (Inl x, s') \<Longrightarrow> s' = s"
  by (auto simp: ingest_webhook_def committed_def run_tx_def split: if_split_asm sum.split_asm prod.split_asm)

lemma save_failed: "save_managed v e cfg store bank account actor s = (Inl x, s') \<Longrightarrow> s' = s"
  by (auto simp: save_managed_def run_tx_def split: sum.split_asm)

lemma revision_step: "managed_revision s \<le> managed_revision (sepay_exec c s)"
proof (cases c)
  case (STelegram v e inp)
  obtain r s' where p: "ingest_telegram v e inp s = (r, s')" by force
  then have "db_managed s' = db_managed s"
    using telegram_failed ingest_telegram_Inr[of v e inp s _ s'] telegram_tx_managed by (cases r) blast+
  then show ?thesis using STelegram p by (simp add: managed_revision_def)
next
  case (SWebhook v e inp)
  obtain r s' where p: "ingest_webhook v e inp s = (r, s')" by force
  then have "db_managed s' = db_managed s"
    using webhook_failed ingest_webhook_Inr[of v e inp s _ s'] webhook_tx_managed by (cases r) blast+
  then show ?thesis using SWebhook p by (simp add: managed_revision_def)
next
  case (SSave v e cfg store bank account actor)
  obtain r s' where p: "save_managed v e cfg store bank account actor s = (r, s')" by force
  show ?thesis
  proof (cases r)
    case (Inl x)
    then show ?thesis using p save_failed SSave by fastforce
  next
    case (Inr n)
    with p save_managed_success[of v e cfg store bank account actor s n s'] have
      "mc_revision cfg = managed_revision s" "managed_revision s' = mc_revision cfg + 1"
      by (auto simp: check_revision managed_revision_def)
    then show ?thesis using p SSave by simp
  qed
qed

lemma revision_history: "sepay_inv s \<Longrightarrow> managed_revision s \<le> managed_revision (se.history cs s)"
  by (rule se.history_rel[where r = "\<lambda>a b. managed_revision a \<le> managed_revision b"])
    (use revision_step in \<open>auto simp: list_all_iff\<close>)

text \<open>
  C31.  A configuration save is a compare-and-swap.  A save that succeeded moves the revision to the next
  number; from then on, whatever happens, a save, a Telegram notification or a native notification
  prepared under that older revision (or one before it) fails and changes nothing.
\<close>

theorem stale_revision_refused:
  assumes "save_managed v e cfg store bank account actor s = (Inr r, s1)" and "sepay_inv s"
    and "mc_revision cfg2 \<le> mc_revision cfg" and "sn_revision inp \<le> mc_revision cfg" and "sw_revision w \<le> mc_revision cfg"
  shows "r = mc_revision cfg + 1 \<and>
    (\<exists>x. save_managed v2 e2 cfg2 store2 bank2 account2 actor2 (se.history cs s1) = (Inl x, se.history cs s1)) \<and>
    (\<exists>x. ingest_telegram v2 e2 inp (se.history cs s1) = (Inl x, se.history cs s1)) \<and>
    (\<exists>x. ingest_webhook v2 e2 w (se.history cs s1) = (Inl x, se.history cs s1))"
proof -
  let ?h = "se.history cs s1"
  note sv = save_managed_success[OF assms(1)]
  then obtain blob audit where s1: "s1 = s\<lparr>db_managed := Some \<lparr>mg_revision = mc_revision cfg + 1, mg_blob = blob, mg_updated = now_text e\<rparr>, db_audit := db_audit s @ [audit]\<rparr>"
    by blast
  have "sepay_inv s1" using assms(2) by (simp add: s1 sepay_inv_def)
  from revision_history[OF this, of cs] have rev: "mc_revision cfg < managed_revision ?h"
    by (simp add: s1 managed_revision_def)
  have a: "\<exists>x. save_managed v2 e2 cfg2 store2 bank2 account2 actor2 ?h = (Inl x, ?h)"
  proof (cases "save_managed v2 e2 cfg2 store2 bank2 account2 actor2 ?h")
    case (Pair y t)
    then show ?thesis
      using save_failed save_managed_success[of v2 e2 cfg2 store2 bank2 account2 actor2 ?h _ t] rev assms(3)
      by (cases y) (auto simp: check_revision)
  qed
  have b: "\<exists>x. ingest_telegram v2 e2 inp ?h = (Inl x, ?h)"
  proof (cases "ingest_telegram v2 e2 inp ?h")
    case (Pair y t)
    then show ?thesis
      using telegram_failed ingest_telegram_Inr[of v2 e2 inp ?h _ t] telegram_tx_managed[of v2 e2 inp _ _ _ ?h _ t] rev assms(4)
      by (cases y) fastforce+
  qed
  have c: "\<exists>x. ingest_webhook v2 e2 w ?h = (Inl x, ?h)"
  proof (cases "ingest_webhook v2 e2 w ?h")
    case (Pair y t)
    then show ?thesis
      using webhook_failed ingest_webhook_Inr[of v2 e2 w ?h _ t] webhook_tx_managed[of v2 e2 w _ ?h _ t] rev assms(5)
      by (cases y) fastforce+
  qed
  from sv a b c show ?thesis by blast
qed

section \<open>What was sealed is read back\<close>

lemma details_round_trip:
  assumes "valid_utf8 (nd_description d)" "\<forall>b. nd_balance d = Some b \<longrightarrow> min_int64 \<le> b \<and> b \<le> max_int64"
  shows "parse_details (details_text d) = Some d"
proof -
  let ?kvs = "(case nd_balance d of None \<Rightarrow> [] | Some b \<Rightarrow> [(''balanceVnd'', JNum (int_text b))]) @ [(''description'', JStr (nd_description d))]"
  have "json_unmarshal (struct_text ?kvs) = Some (JObj (map (\<lambda>(k, v). (k, canon v)) ?kvs))"
    using assms by (intro struct_round_trip) (auto simp: valid_utf8_ascii split: option.split)
  then show ?thesis
    using assms(2)
    by (cases "nd_balance d") (simp_all add: parse_details_def details_text_def string_field_def struct_field_def fold_lower_def int_text_parse)
qed

lemma seal_opens:
  assumes "vault_ok v" "length nonce = 12"
  shows "\<exists>b. sepay_encrypt v nonce plain aad = Inr b \<and> sepay_decrypt v b aad = Inr plain"
proof -
  obtain key k where k: "new_keyring key = Inr k" "va_keyring v = Some k" "aead_ok (va_gcm v)"
    using assms(1) by (auto simp: vault_ok_def)
  note o = sealed_opens[OF k(1,3) assms(2), of plain aad]
  show ?thesis by (simp add: sepay_encrypt_def sepay_decrypt_def seal_text_def unseal_text_def k(2) o)
qed

lemma insert_credit_rows:
  assumes "insert_sepay_credit v e c s = Inr ((tid, n), s')"
  shows "\<exists>blob ev. sepay_encrypt v (e_id e 3) (details_text (ac_details c)) (details_aad tid) = Inr blob \<and>
    (\<forall>d\<in>set (db_details s). sd_transaction d \<noteq> tid) \<and> db_details s' = db_details s @ [\<lparr>sd_transaction = tid, sd_blob = blob\<rparr>] \<and>
    (\<forall>x\<in>set (db_events s). ev_id x \<noteq> n_event n) \<and> db_events s' = db_events s @ [ev] \<and> ev_id ev = n_event n \<and>
    ev_type ev = ''bank.transaction.credit'' \<and> ev_transaction ev = tid"
proof -
  obtain blob where b: "sepay_encrypt v (e_id e 3) (details_text (ac_details c)) (details_aad tid) = Inr blob"
    "\<forall>d\<in>set (db_details s). sd_transaction d \<noteq> tid"
    and em: "emit_transaction_event_tx e 4 tid ''bank.transaction.credit'' (store_connection (ac_store c)) (ac_key c) (credit_data e c tid)
      (now_text e) (s\<lparr>db_transactions := db_transactions s @ [credit_transaction e c tid],
        db_details := db_details s @ [\<lparr>sd_transaction = tid, sd_blob = blob\<rparr>]\<rparr>) = Inr (Some n, s')"
    using assms unfolding insert_sepay_credit_def Let_def
    by (auto simp: bnd_Inr split: if_split_asm option.split_asm)
  from em have "db_details s' = db_details s @ [\<lparr>sd_transaction = tid, sd_blob = blob\<rparr>] \<and> (\<forall>x\<in>set (db_events s). ev_id x \<noteq> n_event n) \<and>
    (\<exists>ev. db_events s' = db_events s @ [ev] \<and> ev_id ev = n_event n \<and> ev_type ev = ''bank.transaction.credit'' \<and> ev_transaction ev = tid)"
    by (rule emit_new) (auto simp: append_journal_def Let_def)
  with b show ?thesis by blast
qed

text \<open>
  The private details of a credit reach its delivery: the balance and the description that came with the
  notification are sealed beside the transaction and are read back from the event, unchanged, by every
  later reader.
\<close>

theorem sepay_details_read_back:
  assumes "insert_sepay_credit v e c s = Inr ((tid, n), s')" and "vault_ok v" and "length (e_id e 3) = 12"
    and "valid_utf8 (nd_description (ac_details c))"
    and "\<forall>b. nd_balance (ac_details c) = Some b \<longrightarrow> min_int64 \<le> b \<and> b \<le> max_int64"
    and "db_events s2 = db_events s' @ evs" and "db_details s2 = db_details s' @ ds"
  shows "sepay_details_for_event v (n_event n) s2 = Inr (Some (ac_details c))"
proof -
  obtain blob ev where r: "sepay_encrypt v (e_id e 3) (details_text (ac_details c)) (details_aad tid) = Inr blob"
    "\<forall>d\<in>set (db_details s). sd_transaction d \<noteq> tid" "db_details s' = db_details s @ [\<lparr>sd_transaction = tid, sd_blob = blob\<rparr>]"
    "\<forall>x\<in>set (db_events s). ev_id x \<noteq> n_event n" "db_events s' = db_events s @ [ev]" "ev_id ev = n_event n"
    "ev_type ev = ''bank.transaction.credit''" "ev_transaction ev = tid"
    using insert_credit_rows[OF assms(1)] by blast
  have k: "va_keyring v \<noteq> None" using assms(2) by (auto simp: vault_ok_def)
  have ev: "find (\<lambda>ev. ev_id ev = n_event n \<and> ev_type ev = ''bank.transaction.credit'') (db_events s2) = Some ev"
  proof -
    have "find (\<lambda>ev. ev_id ev = n_event n \<and> ev_type ev = ''bank.transaction.credit'') (db_events s) = None"
      using r(4) by (auto simp: find_None_iff)
    then show ?thesis using r(5-7) assms(6) by (simp add: find_append)
  qed
  have d: "find (\<lambda>d. sd_transaction d = tid) (db_details s2) = Some \<lparr>sd_transaction = tid, sd_blob = blob\<rparr>"
  proof -
    have "find (\<lambda>d. sd_transaction d = tid) (db_details s) = None" using r(2) by (auto simp: find_None_iff)
    then show ?thesis using r(3) assms(7) by (simp add: find_append)
  qed
  have "sepay_decrypt v blob (details_aad tid) = Inr (details_text (ac_details c))"
    using seal_opens[OF assms(2,3), of "details_text (ac_details c)" "details_aad tid"] r(1) by auto
  then show ?thesis
    using ev d k r(8) by (simp add: sepay_details_for_event_def details_round_trip[OF assms(4,5)])
qed

lemma managed_round_trip:
  assumes "jval_ok (mc_config c)" "valid_utf8 (mc_token c)"
  shows "parse_managed n (managed_text c) = Some \<lparr>mc_revision = n, mc_config = canon (mc_config c), mc_token = mc_token c\<rparr>"
proof -
  let ?kvs = "[(''config'', mc_config c), (''botToken'', JStr (mc_token c))]"
  have "json_unmarshal (struct_text ?kvs) = Some (JObj (map (\<lambda>(k, v). (k, canon v)) ?kvs))"
    using assms by (intro struct_round_trip) (simp_all add: valid_utf8_ascii)
  then show ?thesis
    by (simp add: parse_managed_def managed_text_def string_field_def struct_field_def fold_lower_def)
qed

text \<open>
  The saved configuration is read back: settings (up to the order of their keys), bot token and the
  new revision.
\<close>

theorem managed_config_read_back:
  assumes "save_managed v e cfg store bank account actor s = (Inr r, s')" and "vault_ok v" and "length (e_id e 0) = 12"
    and "jval_ok (mc_config cfg)" and "valid_utf8 (mc_token cfg)"
  shows "read_managed v s' = Inr (Some \<lparr>mc_revision = r, mc_config = canon (mc_config cfg), mc_token = mc_token cfg\<rparr>)"
proof -
  note sv = save_managed_success[OF assms(1)]
  then obtain blob audit where b: "sepay_encrypt v (e_id e 0) (managed_text cfg) managed_aad = Inr blob"
    and s': "s' = s\<lparr>db_managed := Some \<lparr>mg_revision = mc_revision cfg + 1, mg_blob = blob, mg_updated = now_text e\<rparr>, db_audit := db_audit s @ [audit]\<rparr>"
    by blast
  have "sepay_decrypt v blob managed_aad = Inr (managed_text cfg)"
    using seal_opens[OF assms(2,3), of "managed_text cfg" managed_aad] b by auto
  moreover have "va_keyring v \<noteq> None" using assms(2) by (auto simp: vault_ok_def)
  ultimately show ?thesis using sv by (simp add: read_managed_def s' managed_round_trip[OF assms(4,5)])
qed

section \<open>Witnesses\<close>

definition sample_note_details :: note_details where
  "sample_note_details = \<lparr>nd_balance = Some 75000, nd_description = ''paid''\<rparr>"

definition sample_credit :: credit_note where
  "sample_credit = \<lparr>cd_amount = 50000, cd_reference = ''FT1'', cd_at = 0, cd_details = sample_note_details\<rparr>"

definition sample_note :: telegram_note where
  "sample_note = \<lparr>sn_store = ''s1'', sn_bank = ''B'', sn_account = ''123'', sn_mode = ''active'', sn_review = [], sn_bot = 1, sn_update = 0,
     sn_chat = - 1, sn_message = 1, sn_revision = 0, sn_activation = 0, sn_message_at = 0, sn_payload = ''{}'', sn_credit = Some sample_credit\<rparr>"

definition sample_webhook :: webhook_note where
  "sample_webhook = \<lparr>sw_store = ''s1'', sw_bank = ''B'', sw_account = ''123'', sw_mode = ''active'', sw_review = [], sw_gateway = ''g'',
     sw_notified = ''123'', sw_sub = [], sw_reference = ''FT1'', sw_type = ''in'', sw_provider = 7, sw_amount = 50000, sw_revision = 0,
     sw_activation = 0, sw_at = 0, sw_payload = ''{}'', sw_verified = True, sw_details = sample_note_details\<rparr>"

lemma sample_hashes: "\<exists>h mh. sepay_payload_hashes e ''{}'' = Inr (h, mh)"
proof -
  have "json_decode ''{}'' = Some (JObj [], [])" using json_round_trip[of "JObj []" "[]"] by (simp add: ends_value_def join_def)
  then show ?thesis by (simp add: sepay_payload_hashes_def skip_blanks_def)
qed

lemma initial_sepay [simp]: "sepay_inv (initial_db stamp)"
  by (simp add: sepay_inv_def sepay_books_def sepay_keys_def initial_db_def)

lemma initial_open: "e_op e = [] \<Longrightarrow> db_control s = db_control (initial_db []) \<Longrightarrow> check_mutation_allowed e s = Inr ()"
  by (simp add: check_deployment_gate_def)

lemma sample_emit:
  assumes "\<exists>t\<in>set ts. t_id t = tid"
  shows "\<exists>n s'. emit_transaction_event_tx nonce_env 4 tid ty ns key data created
    (initial_db []\<lparr>db_telegram := tg, db_native := nv, db_connections := cs, db_transactions := ts, db_details := ds\<rparr>) = Inr (Some n, s') \<and>
      db_sepay_receipts s' = [] \<and> db_control s' = db_control (initial_db []) \<and> db_connections s' = cs \<and> db_managed s' = None \<and> db_telegram s' = tg"
  using assms by (simp add: emit_transaction_event_tx_def Let_def bnd_Inr endpoint_refs_def initial_db_def append_journal_def)

text \<open>The first delivery of the sample note is credited.\<close>

lemma initial_connections: "store_connection x \<noteq> ''payos-klb''" "db_connections (initial_db []) = [\<lparr>cn_id = ''payos-klb'', cn_bank = ''KienlongBank'',
    cn_account = [], cn_state = ''WEBHOOK'', cn_created = [], cn_updated = []\<rparr>]"
  by (simp_all add: initial_db_def store_connection_def)

lemma initial_audit: "db_audit (initial_db stamp) = []"
  by (simp add: initial_db_def)

lemma sample_seals: "\<exists>b. sepay_encrypt sample_vault (e_id nonce_env k) plain aad = Inr b"
  using seal_opens[OF sample_vault_ok] by (metis nonce_env_simps(3))

lemma sample_insert:
  assumes "s = (initial_db [])\<lparr>db_telegram := tg, db_native := nv, db_connections := cs\<rparr>"
  shows "\<exists>n s3. insert_sepay_credit sample_vault nonce_env c s = Inr ((fresh_id nonce_env ''txn'' 2, n), s3) \<and> db_sepay_receipts s3 = [] \<and>
    db_control s3 = db_control (initial_db []) \<and> db_connections s3 = cs \<and> db_managed s3 = None \<and> db_telegram s3 = tg"
proof -
  let ?tid = "fresh_id nonce_env ''txn'' 2"
  obtain d where d: "sepay_encrypt sample_vault (e_id nonce_env 3) (details_text (ac_details c)) (details_aad ?tid) = Inr d"
    using sample_seals by blast
  let ?t = "credit_transaction nonce_env c ?tid"
  have "\<exists>t\<in>set [?t]. t_id t = ?tid" by (simp add: credit_transaction_def)
  from sample_emit[OF this, where ty = "''bank.transaction.credit''" and ns = "store_connection (ac_store c)" and key = "ac_key c"
      and data = "credit_data nonce_env c ?tid" and created = "now_text nonce_env" and tg = tg and nv = nv and cs = cs
      and ds = "[\<lparr>sd_transaction = ?tid, sd_blob = d\<rparr>]"]
  show ?thesis by (auto simp: insert_sepay_credit_def Let_def assms d bnd_Inr)
qed

definition sample_ready :: "db \<Rightarrow> bool" where
  "sample_ready s \<longleftrightarrow> db_control s = db_control (initial_db []) \<and> db_managed s = None \<and>
     (\<exists>r\<in>set (db_telegram s). telegram_key sample_note r) \<and>
     (\<exists>a. find (\<lambda>c. cn_id c = store_connection ''s1'') (db_connections s) = Some \<lparr>cn_id = store_connection ''s1'', cn_bank = ''B'',
        cn_account = a, cn_state = ''WEBHOOK'', cn_created = now_text nonce_env, cn_updated = now_text nonce_env\<rparr> \<and>
        a \<noteq> [] \<and> sepay_decrypt sample_vault a (store_connection ''s1'') = Inr ''123'')"

lemma sample_fields:
  "sn_store sample_note = ''s1''" "sn_bank sample_note = ''B''" "sn_account sample_note = ''123''" "sn_revision sample_note = 0"
  "sn_credit sample_note = Some sample_credit" "sn_payload sample_note = ''{}''" "sn_bot sample_note = 1" "sn_update sample_note = 0"
  "sn_review sample_note = []" "\<not> invalid_telegram sample_note"
  by (simp_all add: sample_note_def invalid_telegram_def zero_time_def)

lemma sample_receiver: "\<exists>a. sepay_encrypt sample_vault (e_id nonce_env 1) ''123'' x = Inr a \<and> a \<noteq> [] \<and> sepay_decrypt sample_vault a x = Inr ''123''"
proof -
  obtain a where a: "sepay_encrypt sample_vault (e_id nonce_env 1) ''123'' x = Inr a" "sepay_decrypt sample_vault a x = Inr ''123''"
    using seal_opens[OF sample_vault_ok, of "e_id nonce_env 1" "''123''" x] by auto
  have "a \<noteq> []" using a(1)
    by (auto simp: sepay_encrypt_def seal_text_def envelope_text_def struct_text_def members_text_def split: option.split_asm sum.split_asm)
  with a show ?thesis by blast
qed

lemma sample_accepted:
  "\<exists>res s'. ingest_telegram sample_vault nonce_env sample_note (initial_db []) = (Inr res, s') \<and> ig_review res = [] \<and> sample_ready s'"
proof -
  let ?e = nonce_env and ?s = "initial_db [] :: db" and ?v = sample_vault
  obtain h mh where h: "sepay_payload_hashes ?e ''{}'' = Inr (h, mh)" using sample_hashes by blast
  obtain b where b: "sepay_encrypt ?v (e_id ?e 0) ''{}'' (sepay_inbox_aad 1 0) = Inr b" using sample_seals by blast
  obtain a where a: "sepay_encrypt ?v (e_id ?e 1) ''123'' (store_connection ''s1'') = Inr a" "a \<noteq> []"
    "sepay_decrypt ?v a (store_connection ''s1'') = Inr ''123''" using sample_receiver by blast
  let ?s1 = "?s\<lparr>db_telegram := [telegram_evidence ?e sample_note h b]\<rparr>"
  let ?cs = "db_connections ?s @ [\<lparr>cn_id = store_connection ''s1'', cn_bank = ''B'', cn_account = a, cn_state = ''WEBHOOK'', cn_created = now_text ?e, cn_updated = now_text ?e\<rparr>]"
  let ?s2 = "?s1\<lparr>db_connections := ?cs\<rparr>"
  have c: "ensure_connection ?v ?e ''s1'' ''B'' ''123'' ?s1 = Inr ?s2"
    by (simp add: ensure_connection_def Let_def a(1)[unfolded One_nat_def] initial_connections initial_connections(1)[symmetric])
  have dec: "decide_telegram ?v ?e sample_note mh ?s2 = Inr Accept"
    by (simp add: decide_telegram_def previous_message_def sample_note_def telegram_evidence_def decide_credit_def sample_credit_def
        max_amount_def sepay_receipt_of_def rune_count.simps zero_time_def printable_def)
  obtain n s3 where i: "insert_sepay_credit ?v ?e (telegram_credit ?e sample_note sample_credit) ?s2 = Inr ((fresh_id ?e ''txn'' 2, n), s3)"
    "db_sepay_receipts s3 = []" "db_control s3 = db_control (initial_db [])" "db_connections s3 = ?cs" "db_managed s3 = None"
    "db_telegram s3 = [telegram_evidence ?e sample_note h b]"
    using sample_insert[where s = ?s2 and tg = "[telegram_evidence ?e sample_note h b]" and nv = "[]" and cs = ?cs
        and c = "telegram_credit ?e sample_note sample_credit"] by auto
  obtain rs where s': "accept_telegram ?v ?e sample_note sample_credit ?s2 = Inr ((ingest_finished False ''ACCEPTED'')\<lparr>ig_event := Some n\<rparr>,
      finish_telegram sample_note ''ACCEPTED'' (fresh_id ?e ''txn'' 2) (s3\<lparr>db_sepay_receipts := rs\<rparr>))"
    by (simp add: accept_telegram_def i)
  let ?t = "finish_telegram sample_note ''ACCEPTED'' (fresh_id ?e ''txn'' 2) (s3\<lparr>db_sepay_receipts := rs\<rparr>)"
  have rd: "sample_ready ?t"
    using i a(2,3) initial_connections(1)[symmetric, of "''s1''"]
    by (simp add: sample_ready_def finish_telegram_def telegram_key_def telegram_evidence_def sample_fields initial_connections(2))
  note f = sample_fields
  have g: "check_mutation_allowed ?e ?s1 = Inr ()" by (rule initial_open) simp_all
  have "ingest_telegram_tx ?v ?e sample_note h mh b ?s = Inr ((ingest_finished False ''ACCEPTED'')\<lparr>ig_event := Some n\<rparr>, ?t)"
    using c dec s' g by (simp add: ingest_telegram_tx_def Let_def f check_revision managed_revision_def apply_telegram_def)
  moreover have "va_keyring ?v \<noteq> None" by (simp add: sample_vault_def)
  ultimately show ?thesis
    using h b rd by (simp add: ingest_telegram_def f run_tx_def committed_def ingest_finished_def)
qed

lemma sepay_books_balance_witness:
  "count_where (from_parser ''sepay-telegram-v1'') (db_transactions (se.history [STelegram sample_vault nonce_env sample_note] (initial_db []))) =
    length (db_sepay_receipts (se.history [STelegram sample_vault nonce_env sample_note] (initial_db [])))"
  using sepay_books_balance[of "initial_db []" "[STelegram sample_vault nonce_env sample_note]"] by simp

definition sample_seen :: db where
  "sample_seen = (initial_db [])\<lparr>
     db_telegram := [\<lparr>ti_bot = 1, ti_update = 0, ti_chat = - 1, ti_message = 1, ti_hash = [], ti_blob = [], ti_store = ''s1'',
       ti_reason = ''OBSERVATION'', ti_received = [], ti_transaction = []\<rparr>],
     db_native := [\<lparr>ni_store = ''s1'', ni_provider = 7, ni_reference = ''FT1'', ni_hash = [], ni_blob = [], ni_reason = ''OBSERVATION'',
       ni_transaction = [], ni_at = [], ni_received = []\<rparr>]\<rparr>"

lemma sepay_no_double_credit_witness:
  "db_transactions (snd (ingest_telegram sample_vault nonce_env sample_note (se.history [] sample_seen))) = [] \<and>
    db_transactions (snd (ingest_webhook sample_vault nonce_env sample_webhook (se.history [] sample_seen))) = []"
proof -
  have "sepay_inv sample_seen" by (simp add: sample_seen_def sepay_inv_def sepay_books_def sepay_keys_def)
  moreover have "telegram_seen sample_note sample_seen" by (simp add: telegram_seen_def sample_seen_def sample_note_def telegram_key_def)
  moreover have "native_seen sample_webhook sample_seen" by (simp add: native_seen_def sample_seen_def sample_webhook_def native_key_def)
  ultimately show ?thesis
    using sepay_no_double_credit[of sample_seen sample_note sample_webhook sample_vault nonce_env "[]"] by (simp add: sample_seen_def)
qed

lemma sample_repeated:
  assumes "sample_ready s1"
  shows "\<exists>res2 s2. ingest_telegram sample_vault nonce_env sample_note s1 = (Inr res2, s2)"
proof -
  let ?e = nonce_env and ?v = sample_vault
  obtain h mh where h: "sepay_payload_hashes ?e ''{}'' = Inr (h, mh)" using sample_hashes by blast
  obtain b where b: "sepay_encrypt ?v (e_id ?e 0) ''{}'' (sepay_inbox_aad 1 0) = Inr b" using sample_seals by blast
  have g: "check_mutation_allowed ?e s1 = Inr ()" by (rule initial_open) (use assms in \<open>simp_all add: sample_ready_def\<close>)
  obtain s2 where c: "ensure_connection ?v ?e ''s1'' ''B'' ''123'' s1 = Inr s2"
    using assms by (auto simp: sample_ready_def ensure_connection_def)
  obtain x where x: "find (telegram_key sample_note) (db_telegram s1) = Some x"
    using assms by (cases "find (telegram_key sample_note) (db_telegram s1)") (auto simp: sample_ready_def find_None_iff)
  have "db_telegram s2 = db_telegram s1" using ensure_connection_frame[OF c] by auto
  then have "\<exists>r s3. repeat_telegram ?e sample_note h b s2 = Inr (r, s3)" by (auto simp: repeat_telegram_def x Let_def)
  then have "\<exists>r s3. ingest_telegram_tx ?v ?e sample_note h mh b s1 = Inr (r, s3)"
    using assms c g by (simp add: ingest_telegram_tx_def Let_def sample_fields check_revision managed_revision_def sample_ready_def)
  then obtain r s3 where "ingest_telegram_tx ?v ?e sample_note h mh b s1 = Inr (r, s3)" by blast
  moreover have "va_keyring ?v \<noteq> None" by (simp add: sample_vault_def)
  ultimately show ?thesis using h b by (simp add: ingest_telegram_def sample_fields run_tx_def committed_def)
qed

lemma sepay_redelivery_witness:
  "\<exists>res s1 s2. ingest_telegram sample_vault nonce_env sample_note (initial_db []) = (Inr res, s1) \<and>
    ingest_telegram sample_vault nonce_env sample_note s1 = (Inr \<lparr>ig_duplicate = True, ig_review = [], ig_event = None\<rparr>, s2)"
proof -
  obtain res s1 where a: "ingest_telegram sample_vault nonce_env sample_note (initial_db []) = (Inr res, s1)" "ig_review res = []" "sample_ready s1"
    using sample_accepted by blast
  obtain res2 s2 where b: "ingest_telegram sample_vault nonce_env sample_note s1 = (Inr res2, s2)" using sample_repeated[OF a(3)] by blast
  then have c: "ingest_telegram sample_vault nonce_env sample_note (se.history [] s1) = (Inr res2, s2)" by simp
  have "res2 = \<lparr>ig_duplicate = True, ig_review = ig_review res, ig_event = None\<rparr>"
    by (rule sepay_redelivery[OF a(1) _ _ c]) simp_all
  with a b show ?thesis by auto
qed

definition sample_managed :: managed_config where
  "sample_managed = \<lparr>mc_revision = 0, mc_config = JObj [(''fields'', JObj [(''mode'', JStr ''active'')])], mc_token = ''t''\<rparr>"

lemma sample_saved:
  "\<exists>s'. save_managed sample_vault nonce_env sample_managed ''s1'' ''B'' ''123'' sample_actor (initial_db []) = (Inr 1, s')"
proof -
  obtain b where b: "sepay_encrypt sample_vault (e_id nonce_env 0) (managed_text sample_managed) managed_aad = Inr b" using sample_seals by blast
  have g: "check_mutation_allowed nonce_env (initial_db []) = Inr ()" by (rule initial_open) simp_all
  have u: "unverified_native (mc_config sample_managed) = Some False"
    by (simp add: unverified_native_def sample_managed_def struct_field_def string_field_def bool_field_def fold_lower_def)
  show ?thesis
    using initial_connections(1)[symmetric, of "''s1''"]
    by (simp add: save_managed_def b run_tx_def save_managed_tx_def g check_revision managed_revision_def u receiver_matches_def
        initial_connections(2) add_audit_def initial_audit, simp add: sample_managed_def)
qed

lemma stale_revision_refused_witness:
  "\<exists>s1 x. save_managed sample_vault nonce_env sample_managed ''s1'' ''B'' ''123'' sample_actor (initial_db []) = (Inr 1, s1) \<and>
    ingest_telegram sample_vault nonce_env sample_note s1 = (Inl x, s1)"
proof -
  obtain s1 where s: "save_managed sample_vault nonce_env sample_managed ''s1'' ''B'' ''123'' sample_actor (initial_db []) = (Inr 1, s1)"
    using sample_saved by blast
  have r: "mc_revision sample_managed \<le> mc_revision sample_managed" "sn_revision sample_note \<le> mc_revision sample_managed"
    "sw_revision sample_webhook \<le> mc_revision sample_managed" by (simp_all add: sample_managed_def sample_note_def sample_webhook_def)
  from stale_revision_refused[OF s initial_sepay r, of sample_vault nonce_env "[]" "[]" "[]" sample_actor "[]"] s
  show ?thesis by auto
qed

lemma managed_config_read_back_witness:
  "\<exists>s1. save_managed sample_vault nonce_env sample_managed ''s1'' ''B'' ''123'' sample_actor (initial_db []) = (Inr 1, s1) \<and>
    read_managed sample_vault s1 = Inr (Some \<lparr>mc_revision = 1, mc_config = mc_config sample_managed, mc_token = ''t''\<rparr>)"
proof -
  obtain s1 where s: "save_managed sample_vault nonce_env sample_managed ''s1'' ''B'' ''123'' sample_actor (initial_db []) = (Inr 1, s1)"
    using sample_saved by blast
  have "jval_ok (mc_config sample_managed)" "valid_utf8 (mc_token sample_managed)" by (simp_all add: sample_managed_def valid_utf8_ascii)
  from managed_config_read_back[OF s sample_vault_ok _ this] s show ?thesis by (auto simp: sample_managed_def)
qed

lemma sepay_details_read_back_witness:
  "\<exists>n s3. insert_sepay_credit sample_vault nonce_env (telegram_credit nonce_env sample_note sample_credit) (initial_db []) =
      Inr ((fresh_id nonce_env ''txn'' 2, n), s3) \<and>
    sepay_details_for_event sample_vault (n_event n) s3 = Inr (Some sample_note_details)"
proof -
  let ?c = "telegram_credit nonce_env sample_note sample_credit"
  obtain n s3 where i: "insert_sepay_credit sample_vault nonce_env ?c (initial_db []) = Inr ((fresh_id nonce_env ''txn'' 2, n), s3)"
    using sample_insert[where s = "initial_db []" and tg = "[]" and nv = "[]" and cs = "db_connections (initial_db [])" and c = ?c]
    by (auto simp: initial_db_def)
  have d: "ac_details ?c = sample_note_details" by (simp add: telegram_credit_def sample_credit_def)
  have "valid_utf8 (nd_description (ac_details ?c))" "\<forall>b. nd_balance (ac_details ?c) = Some b \<longrightarrow> min_int64 \<le> b \<and> b \<le> max_int64"
    unfolding d by (simp_all add: sample_note_details_def valid_utf8_ascii min_int64_def max_int64_def)
  from sepay_details_read_back[OF i sample_vault_ok _ this, of s3 "[]" "[]"] i d show ?thesis by auto
qed

end
