(* ===== verification/GateLaws.thy ===== *)
theory GateLaws
  imports SePay
begin

text \<open>
  What the deployment gate stops: the operations of internal/storage that call \<open>checkMutationAllowedTx\<close> or
  \<open>CheckMutationAllowed\<close>, as one interface.  Not gated in the code, and so not here: \<open>SetEndpointStatus\<close>,
  the claims and outcomes of deliveries (\<open>ClaimDelivery\<close>, \<open>CompleteDelivery\<close>, \<open>FailDelivery\<close>,
  \<open>RecordAttempt\<close>, \<open>ReplayDelivery\<close>), the activity records, and the renewal and end of a provider operation.
\<close>

section \<open>The gated operations\<close>






section \<open>A closed gate\<close>











end
