(* ===== verification/Dispatch.thy ===== *)
theory Dispatch
  imports SePay
begin

text \<open>
  internal/notification/dispatcher.go and sender.go: one claimed delivery is sent and its outcome is
  written back.  A sender is an argument: a function from the request to its result, found in the
  registry by the provider of the target.  The clock, the draws and the state are those of the claim
  (\<open>e\<close>) and those after the request was sent (\<open>e2\<close>).
\<close>

section \<open>Senders\<close>

datatype outcome = Success | Retry | TerminalFailure

definition outcome_text :: "outcome \<Rightarrow> string" where
  "outcome_text r = (case r of Success \<Rightarrow> ''SUCCESS'' | Retry \<Rightarrow> ''RETRY'' | TerminalFailure \<Rightarrow> ''TERMINAL_FAILURE'')"

record send_request =
  rq_delivery :: string
  rq_event :: string
  rq_type :: string
  rq_target :: target
  rq_payload :: string
  rq_attempt :: int
  rq_details :: "note_details option"

record send_result =
  rs_outcome :: outcome
  rs_status :: int
  rs_latency :: int
  rs_code :: string
  rs_error :: string

type_synonym sender = "send_request \<Rightarrow> send_result"
type_synonym registry = "string \<Rightarrow> sender option"

definition new_registry :: registry where "new_registry = Map.empty"

definition register_sender :: "string \<Rightarrow> sender \<Rightarrow> registry \<Rightarrow> registry" where
  "register_sender provider s reg = reg(provider \<mapsto> s)"

section \<open>The dispatcher\<close>

record dispatcher =
  dp_retries :: int
  dp_backoffs :: "int list"
  dp_workers :: int
  dp_wakes :: nat
  dp_paused :: bool

definition minute :: int where "minute = 60 * second"

definition default_backoffs :: "int list" where
  "default_backoffs = [2 * second, 5 * second, 15 * second, 30 * second, minute, 2 * minute, 5 * minute, 10 * minute, 15 * minute, 30 * minute]"

definition default_max_retries :: int where "default_max_retries = 154"
definition reconcile_tick :: int where "reconcile_tick = minute"

definition new_dispatcher :: dispatcher where
  "new_dispatcher = \<lparr>dp_retries = default_max_retries, dp_backoffs = default_backoffs, dp_workers = 4, dp_wakes = 0, dp_paused = False\<rparr>"

definition set_max_retries :: "int \<Rightarrow> dispatcher \<Rightarrow> dispatcher" where
  "set_max_retries n d = (if n > 0 then d\<lparr>dp_retries := n\<rparr> else d)"

definition set_backoffs :: "int list \<Rightarrow> dispatcher \<Rightarrow> dispatcher" where
  "set_backoffs b d = (if b \<noteq> [] then d\<lparr>dp_backoffs := b, dp_retries := int (length b)\<rparr> else d)"

definition set_workers :: "int \<Rightarrow> dispatcher \<Rightarrow> dispatcher" where
  "set_workers n d = (if n > 0 then d\<lparr>dp_workers := n\<rparr> else d)"

text \<open>A wake-up for every worker goes into a channel of capacity 4; a full channel ends the loop.\<close>

definition wake_capacity :: nat where "wake_capacity = 4"

fun wake_loop :: "nat \<Rightarrow> nat \<Rightarrow> nat" where
  "wake_loop 0 wakes = wakes"
| "wake_loop (Suc n) wakes = (if wakes < wake_capacity then wake_loop n (wakes + 1) else wakes)"

definition wake :: "dispatcher \<Rightarrow> dispatcher" where
  "wake d = d\<lparr>dp_wakes := wake_loop (nat (dp_workers d)) (dp_wakes d)\<rparr>"

definition pause :: "dispatcher \<Rightarrow> dispatcher" where "pause d = d\<lparr>dp_paused := True\<rparr>"
definition resume :: "dispatcher \<Rightarrow> dispatcher" where "resume d = wake (d\<lparr>dp_paused := False\<rparr>)"

text \<open>How long a worker sleeps; \<open>woken\<close> is the clock after the query.\<close>

definition next_wait :: "dispatcher \<Rightarrow> env \<Rightarrow> instant \<Rightarrow> db \<Rightarrow> int" where
  "next_wait d e woken s =
     (if dp_paused d then reconcile_tick
      else case next_delivery_due (e_now e) s of
        Inl x \<Rightarrow> if x = ErrNoRows then reconcile_tick else 2 * second
      | Inr due \<Rightarrow>
          let w = due - woken in
          if w \<le> 0 then 0 else if reconcile_tick < w then reconcile_tick else w)"

definition effective_attempts :: "claimed \<Rightarrow> int" where
  "effective_attempts c = (let n = cl_attempts c - cl_start c in if n < 1 then 1 else n)"

definition backoff :: "int list \<Rightarrow> int \<Rightarrow> int" where
  "backoff bs eff = (let i = (if eff - 1 < 0 then 0 else eff - 1) in
     bs ! nat (if int (length bs) \<le> i then int (length bs) - 1 else i))"

text \<open>The private details that a Bark notification shows.\<close>

definition request_details :: "vault \<Rightarrow> claimed \<Rightarrow> target \<Rightarrow> db \<Rightarrow> err + note_details option" where
  "request_details v c t s =
     (let cfg = (case tg_bark t of None \<Rightarrow> default_bark_config | Some b \<Rightarrow> b) in
      if tg_provider t = ''BARK'' \<and> (bk_balance cfg \<or> bk_description cfg) then sepay_details_for_event v (cl_event c) s else Inr None)"

definition details_unavailable :: send_result where
  "details_unavailable = \<lparr>rs_outcome = Retry, rs_status = 0, rs_latency = 0, rs_code = ''SEPAY_NOTIFICATION_DETAILS_UNAVAILABLE'',
     rs_error = ''SePay notification details unavailable''\<rparr>"

definition request_for :: "claimed \<Rightarrow> target \<Rightarrow> string \<Rightarrow> note_details option \<Rightarrow> send_request" where
  "request_for c t payload details = \<lparr>rq_delivery = cl_id c, rq_event = cl_event c, rq_type = ''bank.transaction.credit'', rq_target = t,
     rq_payload = payload, rq_attempt = cl_attempts c, rq_details = details\<rparr>"

definition send_to :: "vault \<Rightarrow> sender \<Rightarrow> claimed \<Rightarrow> target \<Rightarrow> string \<Rightarrow> db \<Rightarrow> send_result" where
  "send_to v send c t payload s = (case request_details v c t s of
     Inl _ \<Rightarrow> details_unavailable | Inr details \<Rightarrow> send (request_for c t payload details))"

definition final_outcome :: "dispatcher \<Rightarrow> claimed \<Rightarrow> send_result \<Rightarrow> outcome" where
  "final_outcome d c res = (if rs_outcome res = Retry \<and> dp_retries d \<le> effective_attempts c then TerminalFailure else rs_outcome res)"

definition failure_reason :: "send_result \<Rightarrow> string" where
  "failure_reason res = (if rs_code res = [] then ''EXHAUSTED_RETRIES_STATUS_'' @ int_text (rs_status res) else rs_code res)"

definition error_of :: "err + 'a \<Rightarrow> err option" where
  "error_of r = (case r of Inl x \<Rightarrow> Some x | Inr _ \<Rightarrow> None)"

text \<open>The outcome is recorded (a failure to record it is only logged) and the claim is given up.\<close>

definition finish_dispatch :: "dispatcher \<Rightarrow> env \<Rightarrow> instant \<Rightarrow> claimed \<Rightarrow> string \<Rightarrow> send_result \<Rightarrow> db \<Rightarrow> err option \<times> db" where
  "finish_dispatch d e now c provider res s =
     (let s1 = snd (record_attempt e (cl_id c) (cl_attempts c) (rs_status res) (rs_latency res) (outcome_text (final_outcome d c res))
            (rs_error res) provider (rs_code res) s);
          eff = effective_attempts c in
      if rs_outcome res = Success then apfst error_of (complete_delivery e (cl_id c) (cl_token c) True zero_time s1)
      else if rs_outcome res = TerminalFailure \<or> dp_retries d \<le> eff
      then apfst error_of (fail_delivery e (cl_id c) (cl_token c) (failure_reason res) s1)
      else apfst error_of (complete_delivery e (cl_id c) (cl_token c) False (now + backoff (dp_backoffs d) eff) s1))"

definition delivery_lease :: int where "delivery_lease = 30 * second"

text \<open>Whether a delivery was processed, the error, and the state.\<close>

definition dispatch_claimed :: "vault \<Rightarrow> registry \<Rightarrow> dispatcher \<Rightarrow> env \<Rightarrow> instant \<Rightarrow> claimed \<Rightarrow> db \<Rightarrow> err option \<times> db" where
  "dispatch_claimed v reg d e now c s =
     (let give_up = (\<lambda>reason x. (Some x, snd (fail_delivery e (cl_id c) (cl_token c) reason s))) in
      case delivery_target v c s of
        Inl x \<Rightarrow> give_up ''ENDPOINT_UNAVAILABLE'' x
      | Inr t \<Rightarrow> (case reg (tg_provider t) of
          None \<Rightarrow> give_up ''PROVIDER_NOT_REGISTERED'' (ErrText ''provider not registered'')
        | Some send \<Rightarrow> (case event_payload (cl_event c) s of
            Inl x \<Rightarrow> give_up ''EVENT_NOT_FOUND'' x
          | Inr payload \<Rightarrow> finish_dispatch d e now c (tg_provider t) (send_to v send c t payload s) s)))"

definition dispatch_one :: "vault \<Rightarrow> registry \<Rightarrow> dispatcher \<Rightarrow> env \<Rightarrow> env \<Rightarrow> db \<Rightarrow> (bool \<times> err option) \<times> db" where
  "dispatch_one v reg d e e2 s =
     (if dp_paused d then ((False, None), s)
      else case claim_delivery e (e_now e) delivery_lease s of
        (Inl x, s1) \<Rightarrow> ((False, if x = ErrNoRows then None else Some x), s1)
      | (Inr c, s1) \<Rightarrow> apfst (Pair True) (dispatch_claimed v reg d e2 (e_now e) c s1))"

text \<open>The loop of a worker; one pair of clocks per round, it ends before them when nothing is left or a round fails.\<close>

fun drain_loop :: "vault \<Rightarrow> registry \<Rightarrow> dispatcher \<Rightarrow> (env \<times> env) list \<Rightarrow> db \<Rightarrow> db" where
  "drain_loop v reg d [] s = s"
| "drain_loop v reg d ((e, e2) # es) s =
     (if dp_paused d then s
      else case dispatch_one v reg d e e2 s of
        ((processed, x), s') \<Rightarrow> if x \<noteq> None \<or> \<not> processed then s' else drain_loop v reg d es s')"

section \<open>The outcome of a dispatch\<close>

text \<open>
  What the schedule means, independently of the code's index arithmetic: the waits of the ladder are used
  one after the other and the last one is used from then on; \<open>k\<close> counts the attempts of the cycle from 1.
\<close>

fun wait_after :: "int list \<Rightarrow> int \<Rightarrow> int" where
  "wait_after [] k = 0"
| "wait_after [w] k = w"
| "wait_after (w # v # ws) k = (if k \<le> 1 then w else wait_after (v # ws) (k - 1))"

text \<open>The row of a delivery after a result: \<open>n\<close> attempts may be used, \<open>at\<close> is the time of the claim.\<close>

definition row_after :: "int \<Rightarrow> int list \<Rightarrow> instant \<Rightarrow> string \<Rightarrow> outcome \<Rightarrow> delivery \<Rightarrow> delivery" where
  "row_after n ws at stamp oc x =
     (let k = d_attempts x - d_retry_start x; y = x\<lparr>d_token := [], d_lease := None, d_updated := stamp\<rparr> in
      case oc of
        Success \<Rightarrow> y\<lparr>d_status := ''DELIVERED'', d_next := fmt_nano zero_time\<rparr>
      | TerminalFailure \<Rightarrow> y\<lparr>d_status := ''DEAD_LETTER''\<rparr>
      | Retry \<Rightarrow> if k < n then y\<lparr>d_status := ''PENDING'', d_next := fmt_nano (at + wait_after ws k)\<rparr>
                 else y\<lparr>d_status := ''DEAD_LETTER''\<rparr>)"

text \<open>The attempt that is kept for it; a retry that is the last one of its cycle is kept as a terminal failure.\<close>

definition attempt_after :: "int \<Rightarrow> string \<Rightarrow> string \<Rightarrow> claimed \<Rightarrow> string \<Rightarrow> send_result \<Rightarrow> attempt" where
  "attempt_after n i stamp c provider res =
     \<lparr>at_id = i, at_delivery = cl_id c, at_number = cl_attempts c, at_status_code = rs_status res, at_latency = rs_latency res,
      at_outcome = (case rs_outcome res of Success \<Rightarrow> ''SUCCESS'' | TerminalFailure \<Rightarrow> ''TERMINAL_FAILURE''
        | Retry \<Rightarrow> if cl_attempts c - cl_start c < n then ''RETRY'' else ''TERMINAL_FAILURE''),
      at_error = rs_error res, at_provider = (if provider = [] then ''WEBHOOK'' else provider), at_provider_error = rs_code res,
      at_created = stamp\<rparr>"

lemma record_attempt_frame: "\<exists>as. snd (record_attempt e i n st l oc er p cd s) = s\<lparr>db_attempts := as\<rparr>"
proof -
  have pick: "snd (if P then (a, s) else (b, s\<lparr>db_attempts := as\<rparr>)) = s\<lparr>db_attempts := (if P then db_attempts s else as)\<rparr>" for P and a b :: "err + unit" and as
    by simp
  show ?thesis unfolding record_attempt_def Let_def pick by blast
qed

lemma fail_held:
  assumes "queue_inv s" "d \<in> set (db_deliveries s)" "held_by i k d" "i \<noteq> []" "k \<noteq> []"
  shows "fail_delivery e i k reason s = (Inr (), s\<lparr>db_deliveries := update_where (held_by i k) (given_up e ''DEAD_LETTER'') (db_deliveries s)\<rparr>)"
  using held_count[OF assms(1-3)] assms(4,5) by (simp add: fail_delivery_def run_tx_def fail_delivery_tx_def)

lemma update_held:
  assumes "queue_inv s" "r \<in> set (db_deliveries s)" "held_by i k r"
  shows "f r \<in> set (update_where (held_by i k) f (db_deliveries s))"
    "x \<in> set (db_deliveries s) \<Longrightarrow> d_id x \<noteq> i \<Longrightarrow> x \<in> set (update_where (held_by i k) f (db_deliveries s))"
  using assms(2,3) by (auto simp: set_update_where held_by_def)

lemma backoff_index: "bs \<noteq> [] \<Longrightarrow> backoff bs eff = bs ! min (length bs - 1) (nat (eff - 1))"
  by (auto simp: backoff_def Let_def min_def nat_diff_distrib intro!: arg_cong[of _ _ "nth bs"])

lemma wait_after_index: "bs \<noteq> [] \<Longrightarrow> wait_after bs k = bs ! min (length bs - 1) (nat (k - 1))"
proof (induction bs k rule: wait_after.induct)
  case (3 w v ws k)
  show ?case
  proof (cases "k \<le> 1")
    case False
    then have "nat (k - 1) = Suc (nat (k - 1 - 1))" by simp
    with False 3 show ?thesis by simp
  qed simp
qed simp_all

lemma backoff_wait: "bs \<noteq> [] \<Longrightarrow> backoff bs k = wait_after bs k"
  by (simp add: backoff_index wait_after_index)

definition attempts_after :: "attempt \<Rightarrow> attempt list \<Rightarrow> attempt list" where
  "attempts_after a as = (if \<exists>x\<in>set as. at_id x = at_id a \<or> at_delivery x = at_delivery a \<and> at_number x = at_number a then as else as @ [a])"

text \<open>The row that a claim holds is the only one with its identifier.\<close>

lemma update_only:
  assumes "queue_inv s" "r \<in> set (db_deliveries s)" "held_by i k r" "f r = g r"
  shows "update_where (held_by i k) f (db_deliveries s) = map (\<lambda>x. if d_id x = i then g x else x) (db_deliveries s)"
proof -
  have "x = r" if "x \<in> set (db_deliveries s)" "d_id x = i" for x
    using distinct_key_eq[OF queue_ids[OF assms(1)] that(1) assms(2)] that(2) assms(3) by (simp add: held_by_def)
  then show ?thesis using assms(3,4) unfolding update_where_def by (intro map_cong refl) (auto simp: held_by_def)
qed

lemma claim_counts:
  assumes "queue_inv s" "r \<in> set (db_deliveries s)" "held_by (cl_id c) (cl_token c) r" "d_attempts r = cl_attempts c" "d_retry_start r = cl_start c"
  shows "effective_attempts c = d_attempts r - d_retry_start r" "1 \<le> d_attempts r - d_retry_start r"
proof -
  have "delivery_wf r" "d_status r = ''IN_FLIGHT''" using queue_wf[OF assms(1,2)] assms(3) by (simp_all add: held_by_def)
  then show "1 \<le> d_attempts r - d_retry_start r" by (simp add: delivery_wf_def)
  then show "effective_attempts c = d_attempts r - d_retry_start r" using assms(4,5) by (simp add: effective_attempts_def Let_def)
qed

lemma record_attempt_after:
  assumes "r \<in> set (db_deliveries s)" "d_id r = cl_id c" "effective_attempts c = cl_attempts c - cl_start c"
  shows "snd (record_attempt e (cl_id c) (cl_attempts c) (rs_status res) (rs_latency res) (outcome_text (final_outcome d c res))
      (rs_error res) p (rs_code res) s)
    = s\<lparr>db_attempts := attempts_after (attempt_after (dp_retries d) (fresh_id e ''att'' 0) (now_text e) c p res) (db_attempts s)\<rparr>"
proof -
  have oc: "outcome_text (final_outcome d c res) = (case rs_outcome res of Success \<Rightarrow> ''SUCCESS'' | TerminalFailure \<Rightarrow> ''TERMINAL_FAILURE''
        | Retry \<Rightarrow> if cl_attempts c - cl_start c < dp_retries d then ''RETRY'' else ''TERMINAL_FAILURE'')"
    by (auto simp: outcome_text_def final_outcome_def assms(3) split: outcome.split)
  have row: "(\<forall>x\<in>set (db_deliveries s). d_id x \<noteq> cl_id c) = False" using assms(1,2) by blast
  show ?thesis
    unfolding record_attempt_def Let_def oc attempts_after_def attempt_after_def by (simp add: row)
qed

lemma finish_dispatch_effect:
  assumes "queue_inv s" "r \<in> set (db_deliveries s)" "held_by (cl_id c) (cl_token c) r" "cl_id c \<noteq> []" "cl_token c \<noteq> []"
    and "d_attempts r = cl_attempts c" "d_retry_start r = cl_start c" "dp_backoffs d \<noteq> []"
  shows "finish_dispatch d e now c p res s = (None, s\<lparr>
    db_attempts := attempts_after (attempt_after (dp_retries d) (fresh_id e ''att'' 0) (now_text e) c p res) (db_attempts s),
    db_deliveries := map (\<lambda>x. if d_id x = cl_id c then row_after (dp_retries d) (dp_backoffs d) now (now_text e) (rs_outcome res) x else x)
      (db_deliveries s)\<rparr>)"
proof -
  note k = claim_counts[OF assms(1,2,3,6,7)]
  have id: "d_id r = cl_id c" using assms(3) by (simp add: held_by_def)
  let ?as = "attempts_after (attempt_after (dp_retries d) (fresh_id e ''att'' 0) (now_text e) c p res) (db_attempts s)"
  let ?s1 = "s\<lparr>db_attempts := ?as\<rparr>" and ?g = "row_after (dp_retries d) (dp_backoffs d) now (now_text e) (rs_outcome res)"
  have s1: "snd (record_attempt e (cl_id c) (cl_attempts c) (rs_status res) (rs_latency res) (outcome_text (final_outcome d c res))
      (rs_error res) p (rs_code res) s) = ?s1" using k(1) assms(6,7) by (intro record_attempt_after[OF assms(2) id]) simp
  have inv: "queue_inv ?s1" using queue_same[of s ?s1] assms(1) by (simp add: queue_step_def)
  have m: "r \<in> set (db_deliveries ?s1)" using assms(2) by simp
  note ch = complete_held[OF inv m assms(3-5)] and fh = fail_held[OF inv m assms(3-5)] and only = update_only[OF assms(1-3)]
  note row = row_after_def Let_def given_up_def
  consider (ok) "rs_outcome res = Success"
    | (dead) "rs_outcome res \<noteq> Success" "rs_outcome res = TerminalFailure \<or> dp_retries d \<le> effective_attempts c"
    | (retry) "rs_outcome res \<noteq> Success" "\<not> (rs_outcome res = TerminalFailure \<or> dp_retries d \<le> effective_attempts c)" by blast
  then show ?thesis
  proof cases
    case ok
    let ?f = "\<lambda>x. (given_up e ''DELIVERED'' x)\<lparr>d_next := fmt_nano zero_time\<rparr>"
    have "?f r = row_after (dp_retries d) (dp_backoffs d) now (now_text e) (rs_outcome res) r" using ok by (simp add: row)
    from only[where f = ?f and g = ?g, OF this] ok show ?thesis by (simp add: finish_dispatch_def s1 ch Let_def error_of_def)
  next
    case dead
    have "given_up e ''DEAD_LETTER'' r = row_after (dp_retries d) (dp_backoffs d) now (now_text e) (rs_outcome res) r"
      using dead k(1) by (cases "rs_outcome res") (auto simp: row)
    from only[where f = "given_up e ''DEAD_LETTER''" and g = ?g, OF this] dead show ?thesis by (simp add: finish_dispatch_def s1 fh Let_def error_of_def)
  next
    case retry
    let ?f = "\<lambda>x. (given_up e ''PENDING'' x)\<lparr>d_next := fmt_nano (now + backoff (dp_backoffs d) (effective_attempts c))\<rparr>"
    have "rs_outcome res = Retry" using retry by (cases "rs_outcome res") auto
    then have "?f r = row_after (dp_retries d) (dp_backoffs d) now (now_text e) (rs_outcome res) r"
      using retry k(1) by (simp add: row backoff_wait[OF assms(8)])
    from only[where f = ?f and g = ?g, OF this] retry show ?thesis by (simp add: finish_dispatch_def s1 ch Let_def error_of_def)
  qed
qed

text \<open>The row of a claim.\<close>

lemma claim_row:
  assumes "claim_delivery e at lease s = (Inr c, s1)"
  shows "\<exists>r\<in>set (db_deliveries s1). held_by (cl_id c) (cl_token c) r \<and> d_attempts r = cl_attempts c \<and> d_retry_start r = cl_start c"
proof -
  from assms obtain d :: delivery and ep where d: "d \<in> set (claimable (fmt_nano at) s)"
    "c = claim_view ep d (fresh_id e ''claim'' 0) (fmt_nano (at + lease))"
    "s1 = s\<lparr>db_deliveries := update_where (\<lambda>x. d_id x = d_id d \<and> delivery_due (fmt_nano at) x)
       (taken e (fresh_id e ''claim'' 0) (fmt_nano (at + lease))) (db_deliveries s)\<rparr>"
    by (rule claim_success) (rule that; assumption)
  have "taken e (fresh_id e ''claim'' 0) (fmt_nano (at + lease)) d \<in> set (db_deliveries s1)"
    using d(1) by (auto simp: d(3) set_update_where claimable_def)
  then show ?thesis by (intro bexI) (auto simp: d(2) held_by_def claim_view_def taken_def)
qed

lemma claim_inv:
  assumes "claim_delivery e (e_now e) delivery_lease s = (Inr c, s1)" "queue_inv s" "clock_ok (e_now e)"
  shows "queue_inv s1"
  using delivery_claim_step[OF assms(2,3), of delivery_lease e] assms(1) by (simp add: queue_step_def delivery_lease_def)

text \<open>
  C32.  One dispatch, one verdict.  When the claimed delivery can be sent, the dispatch succeeds and the
  sender's answer decides everything that is kept.  With \<open>k\<close> attempts made in this cycle, a success makes
  the row \<open>DELIVERED\<close>; a terminal failure, or a retry when \<open>k\<close> has reached the budget, makes it
  \<open>DEAD_LETTER\<close>; any other retry makes it \<open>PENDING\<close> with the next attempt after the \<open>k\<close>-th wait of the ladder,
  counted from the claim.  The token and the lease are cleared, the counters stay, every other delivery is
  untouched, and the attempt is kept with the status, the code and the final outcome of the answer (only
  a row that already has that identifier or number keeps it out).
\<close>

theorem dispatch_one_outcome:
  assumes "claim_delivery e (e_now e) delivery_lease s = (Inr c, s1)" and "\<not> dp_paused d" and "queue_inv s" and "clock_ok (e_now e)"
    and "cl_id c \<noteq> []" and "dp_backoffs d \<noteq> []"
    and "delivery_target v c s1 = Inr t" and "reg (tg_provider t) = Some send" and "event_payload (cl_event c) s1 = Inr payload"
  shows "dispatch_one v reg d e e2 s = ((True, None), s1\<lparr>
    db_attempts := attempts_after (attempt_after (dp_retries d) (fresh_id e2 ''att'' 0) (now_text e2) c (tg_provider t) (send_to v send c t payload s1))
      (db_attempts s1),
    db_deliveries := map (\<lambda>x. if d_id x = cl_id c
        then row_after (dp_retries d) (dp_backoffs d) (e_now e) (now_text e2) (rs_outcome (send_to v send c t payload s1)) x else x)
      (db_deliveries s1)\<rparr>)"
proof -
  obtain r where r: "r \<in> set (db_deliveries s1)" "held_by (cl_id c) (cl_token c) r" "d_attempts r = cl_attempts c" "d_retry_start r = cl_start c"
    using claim_row[OF assms(1)] by blast
  note f = finish_dispatch_effect[OF claim_inv[OF assms(1,3,4)] r(1,2) assms(5) claim_token[OF assms(1)] r(3,4) assms(6)]
  show ?thesis using assms by (simp add: dispatch_one_def dispatch_claimed_def Let_def f)
qed

text \<open>
  A delivery that cannot be sent (its endpoint was removed or its secret does not open, no sender is
  registered for its provider, or its event is gone) is not retried: it becomes \<open>DEAD_LETTER\<close>, the dispatch
  reports the error, and no request is made.
\<close>

theorem unsendable_is_dead:
  assumes "claim_delivery e (e_now e) delivery_lease s = (Inr c, s1)" and "\<not> dp_paused d" and "queue_inv s" and "clock_ok (e_now e)"
    and "cl_id c \<noteq> []"
    and "\<forall>t. delivery_target v c s1 = Inr t \<longrightarrow> reg (tg_provider t) = None \<or> (\<exists>x. event_payload (cl_event c) s1 = Inl x)"
  shows "\<exists>x s2 r'. dispatch_one v reg d e e2 s = ((True, Some x), s2) \<and> r' \<in> set (db_deliveries s2) \<and> d_id r' = cl_id c \<and>
    d_status r' = ''DEAD_LETTER'' \<and> db_attempts s2 = db_attempts s1"
proof -
  obtain r where r: "r \<in> set (db_deliveries s1)" "held_by (cl_id c) (cl_token c) r" using claim_row[OF assms(1)] by blast
  note inv = claim_inv[OF assms(1,3,4)] and tok = claim_token[OF assms(1)]
  have f: "snd (fail_delivery e2 (cl_id c) (cl_token c) reason s1) =
      s1\<lparr>db_deliveries := update_where (held_by (cl_id c) (cl_token c)) (given_up e2 ''DEAD_LETTER'') (db_deliveries s1)\<rparr>" for reason
    by (simp add: fail_held[OF inv r assms(5) tok])
  let ?s2 = "s1\<lparr>db_deliveries := update_where (held_by (cl_id c) (cl_token c)) (given_up e2 ''DEAD_LETTER'') (db_deliveries s1)\<rparr>"
  have "\<exists>x. dispatch_claimed v reg d e2 (e_now e) c s1 = (Some x, ?s2)"
    using assms(6) by (auto simp: dispatch_claimed_def Let_def f split: sum.split option.split)
  then obtain x where "dispatch_claimed v reg d e2 (e_now e) c s1 = (Some x, ?s2)" ..
  then have "dispatch_one v reg d e e2 s = ((True, Some x), ?s2)"
    using assms(1,2) by (simp add: dispatch_one_def)
  moreover have "given_up e2 ''DEAD_LETTER'' r \<in> set (db_deliveries ?s2)" using update_held(1)[OF inv r] by simp
  ultimately show ?thesis using r(2)
    by (intro exI[of _ x] exI[of _ ?s2] exI[of _ "given_up e2 ''DEAD_LETTER'' r"]) (simp add: given_up_def held_by_def)
qed

section \<open>A dispatch is a few calls of the queue\<close>

definition backoffs_ok :: "dispatcher \<Rightarrow> bool" where
  "backoffs_ok d \<longleftrightarrow> dp_backoffs d \<noteq> [] \<and> (\<forall>b\<in>set (dp_backoffs d). 0 \<le> b \<and> b \<le> 86400 * second)"

lemma backoff_in: "bs \<noteq> [] \<Longrightarrow> backoff bs eff \<in> set bs"
  by (auto simp: backoff_def Let_def nat_less_iff intro!: nth_mem)

lemma zero_in_range: "in_range zero_time"
  by (simp add: in_range_def secs_range_def zero_time_def)

lemma finish_calls:
  assumes "backoffs_ok d" "clock_ok now"
  shows "\<exists>rec fin. snd (finish_dispatch d e now c p res s) = dq.history [rec, fin] s \<and> delivery_ok rec \<and> delivery_ok fin \<and>
    (case rec of DRecord _ i _ _ _ _ _ _ _ \<Rightarrow> i = cl_id c | _ \<Rightarrow> False) \<and>
    (case fin of DComplete _ i k del _ \<Rightarrow> i = cl_id c \<and> k = cl_token c \<and> (del \<longleftrightarrow> rs_outcome res = Success) \<and> (\<not> del \<longrightarrow> effective_attempts c < dp_retries d)
     | DFail _ i k _ \<Rightarrow> i = cl_id c \<and> k = cl_token c | _ \<Rightarrow> False)"
proof -
  let ?rec = "DRecord e (cl_id c) (cl_attempts c) (rs_status res) (rs_latency res) (outcome_text (final_outcome d c res)) (rs_error res) p (rs_code res)"
  have b: "in_range (now + backoff (dp_backoffs d) (effective_attempts c))"
    using assms backoff_in[of "dp_backoffs d"] by (intro clock_in_range) (auto simp: backoffs_ok_def)
  consider (ok) "rs_outcome res = Success"
    | (dead) "rs_outcome res \<noteq> Success" "rs_outcome res = TerminalFailure \<or> dp_retries d \<le> effective_attempts c"
    | (retry) "rs_outcome res \<noteq> Success" "\<not> (rs_outcome res = TerminalFailure \<or> dp_retries d \<le> effective_attempts c)" by blast
  then show ?thesis
  proof cases
    case ok
    then show ?thesis
      by (intro exI[of _ ?rec] exI[of _ "DComplete e (cl_id c) (cl_token c) True zero_time"]) (simp add: finish_dispatch_def Let_def zero_in_range)
  next
    case dead
    then show ?thesis
      by (intro exI[of _ ?rec] exI[of _ "DFail e (cl_id c) (cl_token c) (failure_reason res)"]) (simp add: finish_dispatch_def Let_def)
  next
    case retry
    then show ?thesis
      by (intro exI[of _ ?rec] exI[of _ "DComplete e (cl_id c) (cl_token c) False (now + backoff (dp_backoffs d) (effective_attempts c))"])
        (simp add: finish_dispatch_def Let_def b)
  qed
qed

definition give_up_call :: "env \<Rightarrow> claimed \<Rightarrow> string \<Rightarrow> delivery_call" where
  "give_up_call e c reason = DFail e (cl_id c) (cl_token c) reason"

lemma claimed_calls:
  "(\<exists>reason. snd (dispatch_claimed v reg d e now c s) = dq.history [give_up_call e c reason] s) \<or>
   (\<exists>p res. snd (dispatch_claimed v reg d e now c s) = snd (finish_dispatch d e now c p res s))"
  by (auto simp: dispatch_claimed_def give_up_call_def Let_def split: sum.split option.split)

fun replays :: "string \<Rightarrow> delivery_call \<Rightarrow> bool" where
  "replays i (DReplay e j) \<longleftrightarrow> j = i"
| "replays i _ \<longleftrightarrow> False"

text \<open>A dispatch is at most a claim, a recorded attempt and a completion or failure; it replays nothing.\<close>

lemma dispatch_refines:
  assumes "backoffs_ok d" and "clock_ok (e_now e)"
  shows "\<exists>cs. snd (dispatch_one v reg d e e2 s) = dq.history cs s \<and> list_all delivery_ok cs \<and> list_all (\<lambda>q. \<not> replays i q) cs"
proof (cases "dp_paused d")
  case True
  then show ?thesis by (intro exI[of _ "[]"]) (simp add: dispatch_one_def)
next
  case False
  let ?claim = "DClaim e (e_now e) delivery_lease"
  have ok: "delivery_ok ?claim" using assms(2) by (simp add: delivery_lease_def)
  show ?thesis
  proof (cases "claim_delivery e (e_now e) delivery_lease s")
    case (Pair r s1)
    show ?thesis
    proof (cases r)
      case (Inl x)
      then show ?thesis using Pair False ok by (intro exI[of _ "[?claim]"]) (simp add: dispatch_one_def)
    next
      case (Inr c)
      have d: "snd (dispatch_one v reg d e e2 s) = snd (dispatch_claimed v reg d e2 (e_now e) c s1)"
        using Pair False Inr by (simp add: dispatch_one_def)
      from claimed_calls[of v reg d e2 "e_now e" c s1] show ?thesis
      proof
        assume "\<exists>reason. snd (dispatch_claimed v reg d e2 (e_now e) c s1) = dq.history [give_up_call e2 c reason] s1"
        then obtain reason where "snd (dispatch_claimed v reg d e2 (e_now e) c s1) = dq.history [give_up_call e2 c reason] s1" ..
        then show ?thesis
          using Pair d Inr ok by (intro exI[of _ "[?claim, give_up_call e2 c reason]"]) (simp add: give_up_call_def)
      next
        assume "\<exists>p res. snd (dispatch_claimed v reg d e2 (e_now e) c s1) = snd (finish_dispatch d e2 (e_now e) c p res s1)"
        then obtain p res where f: "snd (dispatch_claimed v reg d e2 (e_now e) c s1) = snd (finish_dispatch d e2 (e_now e) c p res s1)" by blast
        from finish_calls[OF assms, of e2 c p res s1] obtain rec fin where rf: "snd (finish_dispatch d e2 (e_now e) c p res s1) = dq.history [rec, fin] s1"
          "delivery_ok rec" "delivery_ok fin" "case rec of DRecord _ i _ _ _ _ _ _ _ \<Rightarrow> i = cl_id c | _ \<Rightarrow> False"
          "case fin of DComplete _ i k del _ \<Rightarrow> i = cl_id c \<and> k = cl_token c \<and> (del \<longleftrightarrow> rs_outcome res = Success) \<and> (\<not> del \<longrightarrow> effective_attempts c < dp_retries d)
            | DFail _ i k _ \<Rightarrow> i = cl_id c \<and> k = cl_token c | _ \<Rightarrow> False" by blast
        have "\<not> replays i rec" "\<not> replays i fin" using rf(4,5) by (auto split: delivery_call.splits)
        then show ?thesis
          using Pair d f Inr ok rf(1-3) by (intro exI[of _ "[?claim, rec, fin]"]) simp
      qed
    qed
  qed
qed

section \<open>The mail that a dispatcher delivers\<close>

text \<open>
  The contract of the dispatcher: a delivery is a piece of mail that waits, is on its way, has arrived or
  cannot be delivered.  A dispatch takes the first piece that is due at an idle endpoint, and the answer
  (\<open>None\<close> when there was nobody to ask) decides what becomes of it.
\<close>

datatype mail = Waiting int string | Travelling int string | Arrived | Undeliverable

definition mail_of :: "delivery \<Rightarrow> mail" where
  "mail_of x = (let k = d_attempts x - d_retry_start x in
     if d_status x = ''PENDING'' then Waiting k (d_next x)
     else if d_status x = ''IN_FLIGHT'' then Travelling k (case d_lease x of None \<Rightarrow> [] | Some l \<Rightarrow> l)
     else if d_status x = ''DELIVERED'' then Arrived else Undeliverable)"

definition mails :: "db \<Rightarrow> string \<Rightarrow> mail option" where
  "mails s i = map_option mail_of (find (\<lambda>x. d_id x = i) (db_deliveries s))"

fun judged :: "int \<Rightarrow> int list \<Rightarrow> instant \<Rightarrow> int \<Rightarrow> outcome option \<Rightarrow> mail" where
  "judged n ws at k None = Undeliverable"
| "judged n ws at k (Some Success) = Arrived"
| "judged n ws at k (Some TerminalFailure) = Undeliverable"
| "judged n ws at k (Some Retry) = (if k < n then Waiting k (fmt_nano (at + wait_after ws k)) else Undeliverable)"

definition answer_of :: "vault \<Rightarrow> registry \<Rightarrow> claimed \<Rightarrow> db \<Rightarrow> outcome option" where
  "answer_of v reg c s = (case delivery_target v c s of Inl _ \<Rightarrow> None | Inr t \<Rightarrow> (case reg (tg_provider t) of None \<Rightarrow> None
     | Some send \<Rightarrow> (case event_payload (cl_event c) s of Inl _ \<Rightarrow> None | Inr payload \<Rightarrow> Some (rs_outcome (send_to v send c t payload s)))))"

lemma find_mapped:
  assumes "distinct (map d_id ds)" "r \<in> set ds" "d_id r = j" "\<And>x. d_id (f x) = d_id x"
  shows "find (\<lambda>x. d_id x = i) (map (\<lambda>x. if d_id x = j then f x else x) ds) = (if i = j then Some (f r) else find (\<lambda>x. d_id x = i) ds)"
proof -
  have "(\<lambda>x. d_id (if d_id x = j then f x else x) = i) = (\<lambda>x. d_id x = i)" by (rule ext) (auto simp: assms(4))
  then have "find (\<lambda>x. d_id (if d_id x = j then f x else x) = i) ds = find (\<lambda>x. d_id x = i) ds" by (rule arg_cong)
  then have fm: "find (\<lambda>x. d_id x = i) (map (\<lambda>x. if d_id x = j then f x else x) ds) =
      map_option (\<lambda>x. if d_id x = j then f x else x) (find (\<lambda>x. d_id x = i) ds)" by (simp only: find_map_pred)
  show ?thesis
  proof (cases "i = j")
    case True
    then have "find (\<lambda>x. d_id x = i) ds = Some r" using find_key_unique[OF assms(1,2)] assms(3) by simp
    with fm True assms(3) show ?thesis by simp
  next
    case False
    then show ?thesis unfolding fm using find_Some_iff2[of "\<lambda>x. d_id x = i" ds] by (cases "find (\<lambda>x. d_id x = i) ds") simp_all
  qed
qed

lemma mails_mapped:
  assumes "distinct (map d_id (db_deliveries s))" "r \<in> set (db_deliveries s)" "d_id r = j" "\<And>x. d_id (f x) = d_id x"
    and "db_deliveries s' = map (\<lambda>x. if d_id x = j then f x else x) (db_deliveries s)"
  shows "mails s' = (mails s)(j \<mapsto> mail_of (f r))"
  by (rule ext) (simp add: mails_def assms(5) find_mapped[OF assms(1-4)])

lemma claimed_unsendable:
  assumes "queue_inv s" "r \<in> set (db_deliveries s)" "held_by (cl_id c) (cl_token c) r" "cl_id c \<noteq> []" "cl_token c \<noteq> []" "answer_of v reg c s = None"
  shows "db_deliveries (snd (dispatch_claimed v reg d e now c s)) = map (\<lambda>x. if d_id x = cl_id c then given_up e ''DEAD_LETTER'' x else x) (db_deliveries s)"
  using assms(6) update_only[OF assms(1-3), where f = "given_up e ''DEAD_LETTER''" and g = "given_up e ''DEAD_LETTER''", OF refl]
  by (auto simp: dispatch_claimed_def answer_of_def fail_held[OF assms(1-5)] Let_def split: sum.split_asm option.split_asm)

lemma claimed_answered:
  assumes "queue_inv s" "r \<in> set (db_deliveries s)" "held_by (cl_id c) (cl_token c) r" "cl_id c \<noteq> []" "cl_token c \<noteq> []"
    and "d_attempts r = cl_attempts c" "d_retry_start r = cl_start c" "dp_backoffs d \<noteq> []" "answer_of v reg c s = Some oc"
  shows "db_deliveries (snd (dispatch_claimed v reg d e now c s)) =
    map (\<lambda>x. if d_id x = cl_id c then row_after (dp_retries d) (dp_backoffs d) now (now_text e) oc x else x) (db_deliveries s)"
  using assms(9) by (auto simp: dispatch_claimed_def answer_of_def finish_dispatch_effect[OF assms(1-8)] Let_def
      split: sum.split_asm option.split_asm)

lemma mail_judged:
  "d_attempts x - d_retry_start x = k \<Longrightarrow> mail_of (row_after n ws at stamp oc x) = judged n ws at k (Some oc)"
  "mail_of (given_up e ''DEAD_LETTER'' x) = Undeliverable"
  by (cases oc) (auto simp: mail_of_def row_after_def given_up_def Let_def)

lemma judged_fields [simp]: "d_id (row_after n ws at stamp oc x) = d_id x" "d_id (given_up e st x) = d_id x"
  by (cases oc) (auto simp: row_after_def given_up_def Let_def)

text \<open>
  C33.  A dispatch refines the delivery of mail.  When no delivery is due at an idle active endpoint, nothing
  happens.  Otherwise the dispatch takes the one with the smallest (next attempt, identifier) among them, and
  on the mail of all deliveries its whole effect is one step: that piece becomes what the answer makes of it
  after one more attempt (arrived; undeliverable when nobody could be asked, the failure is terminal or the
  budget is used; waiting for the next rung of the ladder otherwise), every other piece is as before.
\<close>

theorem dispatch_refines_mail:
  assumes "queue_inv s" and "clock_ok (e_now e)" and "\<not> dp_paused d" and "dp_backoffs d \<noteq> []" and "\<forall>x\<in>set (db_deliveries s). d_id x \<noteq> []"
  shows "(claimable (fmt_nano (e_now e)) s = [] \<and> dispatch_one v reg d e e2 s = ((False, None), s)) \<or>
    (\<exists>r\<in>set (claimable (fmt_nano (e_now e)) s). \<exists>c s1. claim_delivery e (e_now e) delivery_lease s = (Inr c, s1) \<and> cl_id c = d_id r \<and>
      (\<forall>x\<in>set (claimable (fmt_nano (e_now e)) s). (d_next r, d_id r) \<le> (d_next x, d_id x)) \<and>
      fst (fst (dispatch_one v reg d e e2 s)) \<and>
      mails (snd (dispatch_one v reg d e e2 s)) =
        (mails s)(d_id r \<mapsto> judged (dp_retries d) (dp_backoffs d) (e_now e) (d_attempts r - d_retry_start r + 1) (answer_of v reg c s1)))"
proof (cases "claimable (fmt_nano (e_now e)) s = []")
  case True
  then have "claim_delivery e (e_now e) delivery_lease s = (Inl ErrNoRows, s)"
    unfolding claim_delivery_def run_tx_def claim_delivery_tx_def delivery_lease_def Let_def True by simp
  then have "dispatch_one v reg d e e2 s = ((False, None), s)" using assms(3) by (simp add: dispatch_one_def)
  with True show ?thesis by (intro disjI1 conjI)
next
  case False
  have "0 < delivery_lease" by (simp add: delivery_lease_def)
  with assms(1) False obtain r c s1 where c: "claim_delivery e (e_now e) delivery_lease s = (Inr c, s1)"
    and r: "r \<in> set (claimable (fmt_nano (e_now e)) s)" "cl_id c = d_id r"
    and first: "\<forall>x\<in>set (claimable (fmt_nano (e_now e)) s). (d_next r, d_id r) \<le> (d_next x, d_id x)"
    and tok: "cl_token c \<noteq> []" and cnt: "cl_attempts c = d_attempts r + 1" "cl_start c = d_retry_start r"
    and ds: "db_deliveries s1 = map (\<lambda>x. if d_id x = d_id r then taken e (cl_token c) (fmt_nano (e_now e + delivery_lease)) x else x) (db_deliveries s)"
    by (rule claim_first[where e = e]) (rule that; assumption)
  have m: "r \<in> set (db_deliveries s)" using r(1) by (simp add: claimable_def)
  let ?t = "taken e (cl_token c) (fmt_nano (e_now e + delivery_lease)) r" and ?s2 = "snd (dispatch_one v reg d e e2 s)"
  have t: "?t \<in> set (db_deliveries s1)" "held_by (cl_id c) (cl_token c) ?t" "d_attempts ?t = cl_attempts c" "d_retry_start ?t = cl_start c"
    using m r(2) cnt by (auto simp: ds held_by_def image_iff)
  have i: "cl_id c \<noteq> []" using r(2) m assms(5) by auto
  note inv = claim_inv[OF c assms(1,2)]
  have d2: "?s2 = snd (dispatch_claimed v reg d e2 (e_now e) c s1)" "fst (fst (dispatch_one v reg d e e2 s))"
    using c assms(3) by (simp_all add: dispatch_one_def)
  have m1: "mails s1 = (mails s)(d_id r \<mapsto> mail_of ?t)"
    by (rule mails_mapped[OF queue_ids[OF assms(1)] m refl _ ds]) simp
  have k: "d_attempts ?t - d_retry_start ?t = d_attempts r - d_retry_start r + 1" by simp
  let ?j = "judged (dp_retries d) (dp_backoffs d) (e_now e) (d_attempts r - d_retry_start r + 1) (answer_of v reg c s1)"
  have "mails ?s2 = (mails s1)(d_id r \<mapsto> ?j)"
  proof (cases "answer_of v reg c s1")
    case None
    from mails_mapped[OF queue_ids[OF inv] t(1) _ _ claimed_unsendable[OF inv t(1,2) i tok None, of d e2 "e_now e"]]
    show ?thesis using r(2) None by (simp add: d2 mail_judged(2))
  next
    case (Some oc)
    from mails_mapped[OF queue_ids[OF inv] t(1) _ _ claimed_answered[OF inv t(1,2) i tok t(3,4) assms(4) Some, of e2 "e_now e"]]
    show ?thesis using r(2) Some by (simp add: d2 mail_judged(1)[OF k])
  qed
  then have "mails ?s2 = (mails s)(d_id r \<mapsto> ?j)" by (simp add: m1)
  with c r first d2(2) show ?thesis by blast
qed

section \<open>The retry budget\<close>

definition within_budget :: "int \<Rightarrow> db \<Rightarrow> bool" where
  "within_budget n s \<longleftrightarrow> (\<forall>x\<in>set (db_deliveries s). d_status x = ''PENDING'' \<longrightarrow> d_attempts x - d_retry_start x < n)"

lemma budget_rows:
  assumes "within_budget n s" "\<forall>x\<in>set (db_deliveries s'). x \<in> set (db_deliveries s) \<or> (d_status x = ''PENDING'' \<longrightarrow> d_attempts x - d_retry_start x < n)"
  shows "within_budget n s'"
  using assms by (auto simp: within_budget_def)

lemma budget_update:
  assumes "within_budget n s" "db_deliveries s' = update_where p f (db_deliveries s)"
    "\<And>x. x \<in> set (db_deliveries s) \<Longrightarrow> p x \<Longrightarrow> d_status (f x) = ''PENDING'' \<longrightarrow> d_attempts (f x) - d_retry_start (f x) < n"
  shows "within_budget n s'"
  by (rule budget_rows[OF assms(1)]) (use assms(2,3) in \<open>auto simp: set_update_where\<close>)

lemma budget_claim: "within_budget n s \<Longrightarrow> within_budget n (snd (claim_delivery e at lease s))"
proof -
  assume b: "within_budget n s"
  obtain r s' where p: "claim_delivery e at lease s = (r, s')" by force
  show ?thesis
  proof (cases r)
    case (Inl x)
    then have "s' = s" using p by (auto simp: claim_delivery_def run_tx_def split: sum.split_asm)
    with p b show ?thesis by simp
  next
    case (Inr c)
    with p have "claim_delivery e at lease s = (Inr c, s')" by simp
    then obtain d :: delivery where "s' = s\<lparr>db_deliveries := update_where (\<lambda>x. d_id x = d_id d \<and> delivery_due (fmt_nano at) x)
       (taken e (fresh_id e ''claim'' 0) (fmt_nano (at + lease))) (db_deliveries s)\<rparr>" by (rule claim_success) (rule that; assumption)
    then have "db_deliveries s' = update_where (\<lambda>x. d_id x = d_id d \<and> delivery_due (fmt_nano at) x)
       (taken e (fresh_id e ''claim'' 0) (fmt_nano (at + lease))) (db_deliveries s)" by simp
    then have "within_budget n s'" by (rule budget_update[OF b]) (simp add: taken_def)
    with p show ?thesis by simp
  qed
qed

lemma budget_complete:
  assumes "within_budget n s" "\<not> del \<longrightarrow> (\<forall>x\<in>set (db_deliveries s). held_by i k x \<longrightarrow> d_attempts x - d_retry_start x < n)"
  shows "within_budget n (snd (complete_delivery e i k del retry s))"
proof (cases "complete_delivery_tx e i k del retry s")
  case (Inl x)
  with assms(1) show ?thesis by (simp add: complete_delivery_def snd_run_tx)
next
  case (Inr r)
  then have "db_deliveries (snd r) = update_where (held_by i k)
      (\<lambda>d. (given_up e (if del then ''DELIVERED'' else ''PENDING'') d)\<lparr>d_next := fmt_nano retry\<rparr>) (db_deliveries s)"
    by (auto simp: complete_delivery_tx_def split: if_split_asm)
  then have "within_budget n (snd r)" by (rule budget_update[OF assms(1)]) (use assms(2) in \<open>auto simp: given_up_def\<close>)
  with Inr show ?thesis by (simp add: complete_delivery_def snd_run_tx)
qed

lemma budget_fail: "within_budget n s \<Longrightarrow> within_budget n (snd (fail_delivery e i k reason s))"
proof -
  assume b: "within_budget n s"
  show ?thesis
  proof (cases "fail_delivery_tx e i k reason s")
    case (Inl x)
    with b show ?thesis by (simp add: fail_delivery_def snd_run_tx)
  next
    case (Inr r)
    then have "db_deliveries (snd r) = update_where (held_by i k) (given_up e ''DEAD_LETTER'') (db_deliveries s)"
      by (auto simp: fail_delivery_tx_def split: if_split_asm)
    then have "within_budget n (snd r)" by (rule budget_update[OF b]) (simp add: given_up_def)
    with Inr show ?thesis by (simp add: fail_delivery_def snd_run_tx)
  qed
qed

lemma budget_replay: "within_budget n s \<Longrightarrow> 1 \<le> n \<Longrightarrow> within_budget n (snd (replay_delivery e i s))"
proof -
  assume b: "within_budget n s" and n: "1 \<le> n"
  show ?thesis
  proof (cases "replay_delivery_tx e i s")
    case (Inl x)
    with b show ?thesis by (simp add: replay_delivery_def snd_run_tx)
  next
    case (Inr r)
    have "db_deliveries (snd r) = update_where (\<lambda>x. d_id x = i \<and> d_status x = ''DEAD_LETTER'')
        (\<lambda>x. x\<lparr>d_status := ''PENDING'', d_next := now_text e, d_retry_start := d_attempts x, d_updated := now_text e\<rparr>) (db_deliveries s)"
      using replay_success[OF Inr] by simp
    then have "within_budget n (snd r)" by (rule budget_update[OF b]) (use n in simp)
    with Inr show ?thesis by (simp add: replay_delivery_def snd_run_tx)
  qed
qed

lemma budget_emit:
  assumes "within_budget n s" "1 \<le> n"
  shows "within_budget n (snd (emit_transaction_event e tid ty ns key data s))"
proof (cases "emit_transaction_event_tx e 0 tid ty ns key data (now_text e) s")
  case (Inl x)
  with assms(1) show ?thesis by (simp add: emit_transaction_event_def run_tx_def)
next
  case (Inr r)
  obtain m s' where r: "r = (m, s')" by fastforce
  have "within_budget n s'"
  proof (cases m)
    case None
    with emit_none Inr r assms(1) show ?thesis by blast
  next
    case (Some nt)
    obtain ds where ds: "insert_deliveries e 0 (n_event nt) (now_text e) (endpoint_refs s) (db_deliveries s) = Inr ds" "db_deliveries s' = ds"
      using Inr unfolding r Some by (rule emit_new) simp
    obtain new where "ds = db_deliveries s @ new" "\<forall>d\<in>set new. d_attempts d = 0 \<and> d_retry_start d = 0"
      using insert_deliveries_spec[OF ds(1)] unfolding deliveries_added_def by blast
    then show ?thesis using ds(2) assms(2) by (intro budget_rows[OF assms(1)]) auto
  qed
  with Inr r show ?thesis by (simp add: emit_transaction_event_def snd_run_tx)
qed

text \<open>Every call of the queue but a completion that asks for a retry, which only the dispatcher makes.\<close>

fun asks_retry :: "delivery_call \<Rightarrow> bool" where
  "asks_retry (DComplete e i k del retry) \<longleftrightarrow> \<not> del"
| "asks_retry _ \<longleftrightarrow> False"

lemma budget_call: "within_budget n s \<Longrightarrow> 1 \<le> n \<Longrightarrow> \<not> asks_retry c \<Longrightarrow> within_budget n (delivery_exec c s)"
proof (cases c)
  case (DRecord e i k st l oc er pv cd)
  moreover assume "within_budget n s"
  moreover obtain as where "snd (record_attempt e i k st l oc er pv cd s) = s\<lparr>db_attempts := as\<rparr>" using record_attempt_frame by blast
  ultimately show ?thesis by (simp add: within_budget_def)
next
  case (DStatus e i st)
  moreover assume "within_budget n s"
  ultimately show ?thesis by (simp add: within_budget_def set_endpoint_status_def Let_def)
qed (simp_all add: budget_claim budget_complete budget_fail budget_replay budget_emit)

section \<open>Histories of the dispatcher\<close>

datatype dispatch_call = DispatchOne vault registry env env | QueueCall delivery_call

fun dispatch_exec :: "dispatcher \<Rightarrow> dispatch_call \<Rightarrow> db \<Rightarrow> db" where
  "dispatch_exec d (DispatchOne v reg e e2) s = snd (dispatch_one v reg d e e2 s)"
| "dispatch_exec d (QueueCall c) s = delivery_exec c s"

fun dispatch_ok :: "dispatcher \<Rightarrow> dispatch_call \<Rightarrow> bool" where
  "dispatch_ok d (DispatchOne v reg e e2) \<longleftrightarrow> backoffs_ok d \<and> 1 \<le> dp_retries d \<and> clock_ok (e_now e)"
| "dispatch_ok d (QueueCall c) \<longleftrightarrow> 1 \<le> dp_retries d \<and> delivery_ok c \<and> \<not> asks_retry c"

definition dispatch_inv :: "dispatcher \<Rightarrow> db \<Rightarrow> bool" where
  "dispatch_inv d s \<longleftrightarrow> queue_inv s \<and> within_budget (dp_retries d) s"

lemma dispatch_budget:
  assumes "dispatch_inv d s" "backoffs_ok d" "1 \<le> dp_retries d" "clock_ok (e_now e)"
  shows "within_budget (dp_retries d) (snd (dispatch_one v reg d e e2 s))"
proof -
  have inv: "queue_inv s" and b: "within_budget (dp_retries d) s" using assms(1) by (simp_all add: dispatch_inv_def)
  obtain r s1 where cl: "claim_delivery e (e_now e) delivery_lease s = (r, s1)" by force
  have b1: "within_budget (dp_retries d) s1" using budget_claim[OF b, of e "e_now e" delivery_lease] cl by simp
  show ?thesis
  proof (cases "dp_paused d \<or> (\<exists>x. r = Inl x)")
    case True
    with b b1 cl show ?thesis by (auto simp: dispatch_one_def)
  next
    case False
    then obtain c where c: "claim_delivery e (e_now e) delivery_lease s = (Inr c, s1)" and p: "\<not> dp_paused d"
      using cl by (cases r) auto
    have d: "snd (dispatch_one v reg d e e2 s) = snd (dispatch_claimed v reg d e2 (e_now e) c s1)" using c p by (simp add: dispatch_one_def)
    from claimed_calls[of v reg d e2 "e_now e" c s1] show ?thesis
    proof
      assume "\<exists>reason. snd (dispatch_claimed v reg d e2 (e_now e) c s1) = dq.history [give_up_call e2 c reason] s1"
      then show ?thesis using d b1 by (auto simp: give_up_call_def budget_fail)
    next
      assume "\<exists>p res. snd (dispatch_claimed v reg d e2 (e_now e) c s1) = snd (finish_dispatch d e2 (e_now e) c p res s1)"
      then obtain p res where f: "snd (dispatch_claimed v reg d e2 (e_now e) c s1) = snd (finish_dispatch d e2 (e_now e) c p res s1)" by blast
      from finish_calls[OF assms(2,4), of e2 c p res s1] obtain rec fin where rf: "snd (finish_dispatch d e2 (e_now e) c p res s1) = delivery_exec fin (delivery_exec rec s1)"
        "case rec of DRecord _ i _ _ _ _ _ _ _ \<Rightarrow> i = cl_id c | _ \<Rightarrow> False"
        "case fin of DComplete _ i k del _ \<Rightarrow> i = cl_id c \<and> k = cl_token c \<and> (del \<longleftrightarrow> rs_outcome res = Success) \<and> (\<not> del \<longrightarrow> effective_attempts c < dp_retries d)
          | DFail _ i k _ \<Rightarrow> i = cl_id c \<and> k = cl_token c | _ \<Rightarrow> False" by auto
      let ?t = "delivery_exec rec s1"
      have bt: "within_budget (dp_retries d) ?t" using budget_call[OF b1 assms(3), of rec] rf(2) by (cases rec) auto
      have same: "db_deliveries ?t = db_deliveries s1"
        using rf(2) record_attempt_frame by (cases rec) (auto, metis delivery.select_convs db.select_convs db.surjective db.update_convs)
      obtain r where r: "r \<in> set (db_deliveries s1)" "held_by (cl_id c) (cl_token c) r" "d_attempts r = cl_attempts c" "d_retry_start r = cl_start c"
        using claim_row[OF c] by blast
      have one: "x = r" if "x \<in> set (db_deliveries s1)" "held_by (cl_id c) (cl_token c) x" for x
        using distinct_key_eq[OF queue_ids[OF claim_inv[OF c inv assms(4)]] that(1) r(1)] that(2) r(2) by (simp add: held_by_def)
      have eff: "d_attempts x - d_retry_start x < dp_retries d"
        if "x \<in> set (db_deliveries s1)" "held_by (cl_id c) (cl_token c) x" "effective_attempts c < dp_retries d" for x
        using one[OF that(1,2)] r(3,4) that(3) by (auto simp: effective_attempts_def Let_def split: if_split_asm)
      show ?thesis unfolding d f rf(1)
        using rf(3) bt same eff by (cases fin) (auto intro!: budget_complete budget_fail)
    qed
  qed
qed

interpretation dm: call_machine "dispatch_exec d" "dispatch_ok d" "dispatch_inv d" for d
proof
  fix c s assume ok: "dispatch_ok d c" and inv: "dispatch_inv d s"
  show "dispatch_inv d (dispatch_exec d c s)"
  proof (cases c)
    case (DispatchOne v reg e e2)
    with ok have a: "backoffs_ok d" "1 \<le> dp_retries d" "clock_ok (e_now e)" by simp_all
    obtain cs where "snd (dispatch_one v reg d e e2 s) = dq.history cs s" "list_all delivery_ok cs"
      using dispatch_refines[OF a(1,3)] by blast
    then have "queue_inv (snd (dispatch_one v reg d e e2 s))" using dq.history_inv inv by (simp add: dispatch_inv_def)
    with dispatch_budget[OF inv a] show ?thesis by (simp add: DispatchOne dispatch_inv_def)
  next
    case (QueueCall q)
    with ok inv dq.exec_inv[of q s] budget_call[of "dp_retries d" s q] show ?thesis by (simp add: dispatch_inv_def)
  qed
qed

section \<open>The answers that one retry cycle can get\<close>

text \<open>A row within its cycle: what no call but a replay undoes.\<close>

definition ended :: "delivery \<Rightarrow> bool" where "ended x \<longleftrightarrow> d_status x = ''DELIVERED'' \<or> d_status x = ''DEAD_LETTER''"

definition cycle_step :: "delivery \<Rightarrow> delivery \<Rightarrow> bool" where
  "cycle_step x y \<longleftrightarrow> d_id y = d_id x \<and> d_retry_start y = d_retry_start x \<and> d_attempts x \<le> d_attempts y \<and>
     (ended x \<longrightarrow> ended y \<and> d_attempts y = d_attempts x)"

definition same_cycle :: "string \<Rightarrow> db \<Rightarrow> db \<Rightarrow> bool" where
  "same_cycle i s s' \<longleftrightarrow> (\<forall>x\<in>set (db_deliveries s). d_id x = i \<longrightarrow> (\<exists>y\<in>set (db_deliveries s'). cycle_step x y))"

lemma cycle_step_refl: "cycle_step x x" by (simp add: cycle_step_def)

lemma cycle_step_trans: "cycle_step x y \<Longrightarrow> cycle_step y z \<Longrightarrow> cycle_step x z" by (auto simp: cycle_step_def)

lemma same_cycle_keeps: "set (db_deliveries s) \<subseteq> set (db_deliveries s') \<Longrightarrow> same_cycle i s s'"
  unfolding same_cycle_def using cycle_step_refl by blast

lemma same_cycle_trans: "same_cycle i a b \<Longrightarrow> same_cycle i b c \<Longrightarrow> same_cycle i a c"
  unfolding same_cycle_def using cycle_step_trans by (metis cycle_step_def)

lemma same_cycle_update:
  assumes "db_deliveries s' = update_where p f (db_deliveries s)" "\<And>x. d_id x = i \<Longrightarrow> p x \<Longrightarrow> cycle_step x (f x)"
  shows "same_cycle i s s'"
proof -
  have "\<exists>y\<in>set (update_where p f (db_deliveries s)). cycle_step x y" if "x \<in> set (db_deliveries s)" "d_id x = i" for x
    by (rule bexI[of _ "if p x then f x else x"]) (use that assms(2) cycle_step_refl in \<open>auto simp: set_update_where\<close>)
  then show ?thesis by (simp add: same_cycle_def assms(1))
qed

lemma same_cycle_tx:
  assumes "\<And>r. f s = Inr r \<Longrightarrow> same_cycle i s (snd r)"
  shows "same_cycle i s (snd (run_tx f s))"
  using assms by (cases "f s") (auto simp: snd_run_tx intro: same_cycle_keeps)

lemma cycle_claim: "same_cycle i s (snd (claim_delivery e at lease s))"
  unfolding claim_delivery_def
proof (rule same_cycle_tx)
  fix r assume r: "claim_delivery_tx e at lease s = Inr r"
  obtain c s' where cs: "r = (c, s')" by force
  with r have "claim_delivery e at lease s = (Inr c, s')" by (simp add: claim_delivery_def run_tx_Inr)
  then obtain d :: delivery where "s' = s\<lparr>db_deliveries := update_where (\<lambda>x. d_id x = d_id d \<and> delivery_due (fmt_nano at) x)
       (taken e (fresh_id e ''claim'' 0) (fmt_nano (at + lease))) (db_deliveries s)\<rparr>" by (rule claim_success) (rule that; assumption)
  then have "db_deliveries s' = update_where (\<lambda>x. d_id x = d_id d \<and> delivery_due (fmt_nano at) x)
       (taken e (fresh_id e ''claim'' 0) (fmt_nano (at + lease))) (db_deliveries s)" by simp
  then have "same_cycle i s s'" by (rule same_cycle_update) (auto simp: cycle_step_def ended_def delivery_due_def)
  with cs show "same_cycle i s (snd r)" by simp
qed

lemma cycle_complete: "same_cycle i s (snd (complete_delivery e j k del retry s))"
  unfolding complete_delivery_def
proof (rule same_cycle_tx)
  fix r assume "complete_delivery_tx e j k del retry s = Inr r"
  then have "db_deliveries (snd r) = update_where (held_by j k)
      (\<lambda>d. (given_up e (if del then ''DELIVERED'' else ''PENDING'') d)\<lparr>d_next := fmt_nano retry\<rparr>) (db_deliveries s)"
    by (auto simp: complete_delivery_tx_def split: if_split_asm)
  then show "same_cycle i s (snd r)" by (rule same_cycle_update) (simp add: cycle_step_def ended_def held_by_def given_up_def)
qed

lemma cycle_fail: "same_cycle i s (snd (fail_delivery e j k reason s))"
  unfolding fail_delivery_def
proof (rule same_cycle_tx)
  fix r assume "fail_delivery_tx e j k reason s = Inr r"
  then have "db_deliveries (snd r) = update_where (held_by j k) (given_up e ''DEAD_LETTER'') (db_deliveries s)"
    by (auto simp: fail_delivery_tx_def split: if_split_asm)
  then show "same_cycle i s (snd r)" by (rule same_cycle_update) (simp add: cycle_step_def ended_def held_by_def given_up_def)
qed

lemma cycle_replay: "j \<noteq> i \<Longrightarrow> same_cycle i s (snd (replay_delivery e j s))"
  unfolding replay_delivery_def
proof (rule same_cycle_tx)
  fix r assume j: "j \<noteq> i" and r: "replay_delivery_tx e j s = Inr r"
  have "db_deliveries (snd r) = update_where (\<lambda>x. d_id x = j \<and> d_status x = ''DEAD_LETTER'')
      (\<lambda>x. x\<lparr>d_status := ''PENDING'', d_next := now_text e, d_retry_start := d_attempts x, d_updated := now_text e\<rparr>) (db_deliveries s)"
    using replay_success[OF r] by simp
  then show "same_cycle i s (snd r)" by (rule same_cycle_update) (use j in simp)
qed

lemma cycle_emit: "same_cycle i s (snd (emit_transaction_event e tid ty ns key data s))"
proof (cases "emit_transaction_event_tx e 0 tid ty ns key data (now_text e) s")
  case (Inl x)
  then show ?thesis by (simp add: emit_transaction_event_def run_tx_def same_cycle_keeps)
next
  case (Inr r)
  obtain m s' where r: "r = (m, s')" by fastforce
  have "set (db_deliveries s) \<subseteq> set (db_deliveries s')"
  proof (cases m)
    case None
    with emit_none Inr r show ?thesis by blast
  next
    case (Some nt)
    obtain ds where ds: "insert_deliveries e 0 (n_event nt) (now_text e) (endpoint_refs s) (db_deliveries s) = Inr ds" "db_deliveries s' = ds"
      using Inr unfolding r Some by (rule emit_new) simp
    obtain new where "ds = db_deliveries s @ new" using insert_deliveries_spec[OF ds(1)] unfolding deliveries_added_def by blast
    with ds(2) show ?thesis by auto
  qed
  then show ?thesis using Inr r by (simp add: emit_transaction_event_def snd_run_tx same_cycle_keeps)
qed

lemma cycle_call: "\<not> replays i c \<Longrightarrow> same_cycle i s (delivery_exec c s)"
proof (cases c)
  case (DRecord e i k st l oc er pv cd)
  moreover obtain as where "snd (record_attempt e i k st l oc er pv cd s) = s\<lparr>db_attempts := as\<rparr>" using record_attempt_frame by blast
  ultimately show ?thesis by (simp add: same_cycle_keeps)
next
  case (DStatus e j st)
  have "set (db_deliveries s) \<subseteq> set (db_deliveries (snd (set_endpoint_status e j st s)))" by (simp add: set_endpoint_status_def Let_def)
  with DStatus show ?thesis by (simp add: same_cycle_keeps)
qed (simp_all add: cycle_claim cycle_complete cycle_fail cycle_replay cycle_emit)

lemma cycle_history: "list_all (\<lambda>q. \<not> replays i q) cs \<Longrightarrow> same_cycle i s (dq.history cs s)"
  by (induction cs arbitrary: s) (auto intro: same_cycle_keeps same_cycle_trans cycle_call)

definition new_cycle :: "string \<Rightarrow> dispatch_call \<Rightarrow> bool" where
  "new_cycle i c \<longleftrightarrow> (case c of QueueCall q \<Rightarrow> replays i q | DispatchOne _ _ _ _ \<Rightarrow> False)"

lemma cycle_dispatch: "dispatch_ok d c \<Longrightarrow> \<not> new_cycle i c \<Longrightarrow> same_cycle i s (dispatch_exec d c s)"
proof (cases c)
  case (DispatchOne v reg e e2)
  assume "dispatch_ok d c"
  with DispatchOne have "backoffs_ok d" "clock_ok (e_now e)" by simp_all
  then obtain cs where "snd (dispatch_one v reg d e e2 s) = dq.history cs s" "list_all (\<lambda>q. \<not> replays i q) cs"
    using dispatch_refines by blast
  with DispatchOne cycle_history show ?thesis by simp
next
  case (QueueCall q)
  assume "\<not> new_cycle i c"
  with QueueCall show ?thesis by (simp add: new_cycle_def cycle_call)
qed

text \<open>
  A call answers a delivery when it adds an attempt and gives the claim up again: the delivery was claimed,
  and the sender's answer was written back.  A worker that dies leaves its claim behind unanswered.
\<close>

definition row_of :: "string \<Rightarrow> db \<Rightarrow> delivery option" where
  "row_of i s = find (\<lambda>x. d_id x = i) (db_deliveries s)"

definition answered :: "string \<Rightarrow> db \<Rightarrow> db \<Rightarrow> bool" where
  "answered i s s' \<longleftrightarrow> (case (row_of i s, row_of i s') of
     (Some x, Some y) \<Rightarrow> d_attempts y = d_attempts x + 1 \<and> d_status y \<noteq> ''IN_FLIGHT'' | _ \<Rightarrow> False)"

fun answers :: "dispatcher \<Rightarrow> string \<Rightarrow> dispatch_call list \<Rightarrow> db \<Rightarrow> int" where
  "answers d i [] s = 0"
| "answers d i (c # cs) s = (if answered i s (dispatch_exec d c s) then 1 else 0) + answers d i cs (dispatch_exec d c s)"

text \<open>The answers that a row can still get before an administrator replays it.\<close>

definition answers_left :: "int \<Rightarrow> delivery \<Rightarrow> int" where
  "answers_left n x = (if ended x then 0 else max 1 (n - (d_attempts x - d_retry_start x)))"

lemma row_of_Some: "queue_inv s \<Longrightarrow> x \<in> set (db_deliveries s) \<Longrightarrow> row_of (d_id x) s = Some x"
  unfolding row_of_def by (rule find_key_unique[OF queue_ids])

lemma answer_spent:
  assumes "dispatch_ok d c" "\<not> new_cycle i c" "dispatch_inv d s" "dispatch_inv d (dispatch_exec d c s)" "x \<in> set (db_deliveries s)" "d_id x = i"
  obtains y where "y \<in> set (db_deliveries (dispatch_exec d c s))" "d_id y = i"
    "(if answered i s (dispatch_exec d c s) then 1 else 0) + answers_left (dp_retries d) y \<le> answers_left (dp_retries d) x"
proof -
  let ?s = "dispatch_exec d c s"
  obtain y where y: "y \<in> set (db_deliveries ?s)" "cycle_step x y"
    using cycle_dispatch[OF assms(1,2)] assms(5,6) unfolding same_cycle_def by blast
  then have i: "d_id y = i" using assms(6) by (simp add: cycle_step_def)
  have q: "queue_inv s" "queue_inv ?s" using assms(3,4) by (simp_all add: dispatch_inv_def)
  have rows: "row_of i s = Some x" "row_of i ?s = Some y"
    using row_of_Some[OF q(1) assms(5)] row_of_Some[OF q(2) y(1)] by (simp_all add: i assms(6))
  have wf: "d_status y \<in> {''PENDING'', ''IN_FLIGHT'', ''DELIVERED'', ''DEAD_LETTER''}"
    using queue_wf[OF q(2) y(1)] by (simp add: delivery_wf_def)
  have pend: "d_status y = ''PENDING'' \<longrightarrow> d_attempts y - d_retry_start y < dp_retries d"
    using assms(4) y(1) by (simp add: dispatch_inv_def within_budget_def)
  have "(if answered i s ?s then 1 else 0) + answers_left (dp_retries d) y \<le> answers_left (dp_retries d) x"
    using wf pend y(2) by (auto simp: answered_def rows answers_left_def cycle_step_def ended_def)
  with y(1) i show thesis by (rule that)
qed

text \<open>
  C34.  The retry budget.  Take any history of dispatches, new events, replays and endpoint switches, in which
  workers may also claim a delivery and die: until an administrator replays a delivery, the number of times
  it is sent and answered is at most what its budget has left (and at most one when claims of dead workers
  have used the budget up, none when it is delivered or dead).  No delivery is lost and no \<open>DELIVERED\<close> one
  changes.
\<close>

theorem retry_budget:
  assumes "list_all (dispatch_ok d) cs" and "dispatch_inv d s" and "x \<in> set (db_deliveries s)" and "list_all (\<lambda>c. \<not> new_cycle (d_id x) c) cs"
  shows "answers d (d_id x) cs s \<le> answers_left (dp_retries d) x \<and>
    deliveries_extend (db_deliveries s) (db_deliveries (dm.history d cs s))"
proof
  show "answers d (d_id x) cs s \<le> answers_left (dp_retries d) x" using assms
  proof (induction cs arbitrary: s x)
    case Nil
    show ?case by (simp add: answers_left_def max_def)
  next
    case (Cons c cs)
    let ?s = "dispatch_exec d c s"
    have ok: "dispatch_ok d c" "\<not> new_cycle (d_id x) c" "dispatch_inv d ?s" using Cons.prems dm.exec_inv by simp_all
    obtain y where y: "y \<in> set (db_deliveries ?s)" "d_id y = d_id x"
      "(if answered (d_id x) s ?s then 1 else 0) + answers_left (dp_retries d) y \<le> answers_left (dp_retries d) x"
      by (rule answer_spent[OF ok(1,2) Cons.prems(2) ok(3) Cons.prems(3) refl])
    have "answers d (d_id y) cs ?s \<le> answers_left (dp_retries d) y"
      using Cons.IH[OF _ ok(3) y(1)] Cons.prems(1,4) y(2) by simp
    with y(2,3) show ?case by simp
  qed
next
  show "deliveries_extend (db_deliveries s) (db_deliveries (dm.history d cs s))"
  proof (rule dm.history_rel[where r = "\<lambda>a b. deliveries_extend (db_deliveries a) (db_deliveries b)", OF _ _ _ assms(1,2)])
    fix c s assume ok: "dispatch_ok d c" and inv: "dispatch_inv d s"
    show "deliveries_extend (db_deliveries s) (db_deliveries (dispatch_exec d c s))"
    proof (cases c)
      case (DispatchOne v reg e e2)
      with ok have "backoffs_ok d" "clock_ok (e_now e)" by simp_all
      then obtain cs where "snd (dispatch_one v reg d e e2 s) = dq.history cs s" "list_all delivery_ok cs"
        using dispatch_refines by blast
      with history_queue_step inv show ?thesis by (simp add: DispatchOne queue_step_def dispatch_inv_def)
    next
      case (QueueCall q)
      with ok inv delivery_exec_step[of q s] show ?thesis by (simp add: queue_step_def dispatch_inv_def)
    qed
  qed (auto intro: deliveries_extend_trans)
qed

lemma backoff_mono:
  assumes "sorted bs" "bs \<noteq> []"
  shows "mono (backoff bs)"
proof (rule monoI)
  fix i j :: int assume "i \<le> j"
  then have "min (length bs - 1) (nat (i - 1)) \<le> min (length bs - 1) (nat (j - 1))" by auto
  moreover have "min (length bs - 1) (nat (j - 1)) < length bs" using assms(2) by (cases bs) auto
  ultimately show "backoff bs i \<le> backoff bs j" using assms by (simp add: backoff_index sorted_nth_mono)
qed

lemma default_sorted: "sorted default_backoffs" "default_backoffs \<noteq> []"
  by (simp_all add: default_backoffs_def minute_def)

lemma default_bounds: "2 * second \<le> backoff default_backoffs eff \<and> backoff default_backoffs eff \<le> 30 * minute"
  using backoff_in[OF default_sorted(2), of eff] by (auto simp: default_backoffs_def minute_def)

lemma default_wait: "sum_list (map (backoff default_backoffs) [1..153]) = 261232 * second"
  by code_simp

text \<open>
  The retry window of the dispatcher the gateway builds: 154 attempts whose waits grow from two
  seconds to half an hour and add up to more than the 72 hours that the code promises.
\<close>

theorem retry_window:
  "dp_retries new_dispatcher = 154 \<and> mono (backoff (dp_backoffs new_dispatcher)) \<and>
    (\<forall>eff. 2 * second \<le> backoff (dp_backoffs new_dispatcher) eff) \<and> (\<forall>eff. backoff (dp_backoffs new_dispatcher) eff \<le> 30 * minute) \<and>
    sum_list (map (backoff (dp_backoffs new_dispatcher)) [1..153]) = 261232 * second \<and> 72 * 60 * minute < 261232 * second"
  using backoff_mono[OF default_sorted] default_bounds default_wait by (simp add: new_dispatcher_def default_max_retries_def minute_def)

section \<open>Witnesses\<close>

definition sample_dispatch :: db where
  "sample_dispatch = sample_channels\<lparr>db_endpoints := [sample_channel\<lparr>ep_status := ''ACTIVE''\<rparr>], db_events := [\<lparr>ev_id = ''v1'', ev_transaction = ''t1'', ev_type = ''credit'', ev_payload = ''{}'',
     ev_hash = [], ev_created = []\<rparr>], db_deliveries := [new_delivery ''d1'' ''v1'' (''w1'', 1, ''k1'') (fmt_nano sample_time)]\<rparr>"

definition ok_sender :: sender where
  "ok_sender rq = \<lparr>rs_outcome = Success, rs_status = 204, rs_latency = 7, rs_code = [], rs_error = []\<rparr>"

definition sample_registry :: registry where "sample_registry = register_sender ''WEBHOOK'' ok_sender new_registry"

lemma sample_dispatch_inv: "queue_inv sample_dispatch"
proof -
  have "stamp_text (fmt_nano sample_time)" by (intro stamp_now clock_in_range0 clock_sample) simp_all
  then show ?thesis
    by (simp add: queue_inv_def events_inv_def journal_inv_def delivery_wf_def sample_dispatch_def new_delivery_def sample_channels_def)
qed

lemma sample_dispatch_claim:
  "\<exists>c s1. claim_delivery (sample_env sample_time) sample_time delivery_lease sample_dispatch = (Inr c, s1) \<and> cl_id c = ''d1'' \<and> cl_event c = ''v1'' \<and>
    map d_id (db_deliveries s1) = [''d1''] \<and> delivery_target sample_vault c s1 = delivery_target sample_vault sample_claim sample_channels \<and> event_payload ''v1'' s1 = Inr ''{}''"
proof -
  let ?d = "new_delivery ''d1'' ''v1'' (''w1'', 1, ''k1'') (fmt_nano sample_time)" and ?e = "sample_env sample_time"
  have f: "db_deliveries sample_dispatch = [?d]" by (simp add: sample_dispatch_def)
  have ep: "active_endpoint (d_endpoint ?d) sample_dispatch = Some (sample_channel\<lparr>ep_status := ''ACTIVE''\<rparr>)"
    by (simp add: active_endpoint_def sample_dispatch_def sample_channels_def sample_channel_def new_endpoint_def new_delivery_def)
  have due: "delivery_due (fmt_nano sample_time) ?d" by (simp add: delivery_due_def new_delivery_def)
  let ?c = "claim_view (sample_channel\<lparr>ep_status := ''ACTIVE''\<rparr>) ?d (fresh_id ?e ''claim'' 0) (fmt_nano (sample_time + delivery_lease))"
  let ?s1 = "sample_dispatch\<lparr>db_deliveries := [taken ?e (fresh_id ?e ''claim'' 0) (fmt_nano (sample_time + delivery_lease)) ?d]\<rparr>"
  have c: "claim_delivery ?e sample_time delivery_lease sample_dispatch = (Inr ?c, ?s1)"
    by (rule claim_single[OF f ep due]) (simp add: delivery_lease_def)
  have "delivery_target sample_vault ?c ?s1 = delivery_target sample_vault sample_claim sample_channels"
    by (simp add: delivery_target_def target_rows_def sample_dispatch_def sample_claim_def claim_view_def new_delivery_def sample_channels_def sample_channel_def
        new_endpoint_def new_secret_def looks_sealed_def has_prefix_def Let_def)
  moreover have "event_payload ''v1'' ?s1 = Inr ''{}''" by (simp add: event_payload_def sample_dispatch_def)
  ultimately show ?thesis using c by (intro exI[of _ ?c] exI[of _ ?s1]) (simp add: claim_view_def new_delivery_def)
qed

lemma sample_target: "\<exists>t. delivery_target sample_vault sample_claim sample_channels = Inr t \<and> tg_provider t = ''WEBHOOK''"
  by (simp add: delivery_target_def target_rows_def sample_channels_def sample_channel_def new_endpoint_def new_secret_def
      sample_claim_def looks_sealed_def has_prefix_def Let_def)

lemma dispatch_one_outcome_witness:
  "\<exists>s2. dispatch_one sample_vault sample_registry new_dispatcher (sample_env sample_time) (sample_env sample_time) sample_dispatch = ((True, None), s2) \<and>
    map (\<lambda>x. (d_id x, d_status x)) (db_deliveries s2) = [(''d1'', ''DELIVERED'')]"
proof -
  obtain t where t: "delivery_target sample_vault sample_claim sample_channels = Inr t" "tg_provider t = ''WEBHOOK''" using sample_target by blast
  obtain c s1 where c: "claim_delivery (sample_env sample_time) (e_now (sample_env sample_time)) delivery_lease sample_dispatch = (Inr c, s1)"
    "cl_id c = ''d1''" "cl_event c = ''v1''" "delivery_target sample_vault c s1 = Inr t" "event_payload ''v1'' s1 = Inr ''{}''"
    and one: "map d_id (db_deliveries s1) = [''d1'']"
    using sample_dispatch_claim t by auto
  have p: "\<not> dp_paused new_dispatcher" and b: "dp_backoffs new_dispatcher \<noteq> []" by (simp_all add: new_dispatcher_def default_backoffs_def)
  have k: "clock_ok (e_now (sample_env sample_time))" by (simp add: clock_sample)
  have i: "cl_id c \<noteq> []" "sample_registry (tg_provider t) = Some ok_sender" "event_payload (cl_event c) s1 = Inr ''{}''"
    using c(2,3,5) t(2) by (simp_all add: sample_registry_def register_sender_def)
  note d = dispatch_one_outcome[where reg = sample_registry and ?e2.0 = "sample_env sample_time", OF c(1) p sample_dispatch_inv k i(1) b c(4) i(2,3)]
  have ok: "rs_outcome (send_to sample_vault ok_sender c t ''{}'' s1) = Success"
    using t(2) by (simp add: send_to_def request_details_def ok_sender_def Let_def)
  obtain x where "db_deliveries s1 = [x]" "d_id x = ''d1''" using one by auto
  then show ?thesis unfolding d using c(2) by (simp add: ok row_after_def Let_def)
qed

lemma unsendable_is_dead_witness:
  "\<exists>x s2 r'. dispatch_one sample_vault new_registry new_dispatcher (sample_env sample_time) (sample_env sample_time) sample_dispatch = ((True, Some x), s2) \<and>
    r' \<in> set (db_deliveries s2) \<and> d_status r' = ''DEAD_LETTER''"
proof -
  obtain c s1 where c: "claim_delivery (sample_env sample_time) (e_now (sample_env sample_time)) delivery_lease sample_dispatch = (Inr c, s1)" "cl_id c = ''d1''"
    using sample_dispatch_claim by auto
  have p: "\<not> dp_paused new_dispatcher" by (simp add: new_dispatcher_def)
  have k: "clock_ok (e_now (sample_env sample_time))" by (simp add: clock_sample)
  have i: "cl_id c \<noteq> []" using c(2) by simp
  have n: "\<forall>t. delivery_target sample_vault c s1 = Inr t \<longrightarrow> new_registry (tg_provider t) = None \<or> (\<exists>x. event_payload (cl_event c) s1 = Inl x)"
    by (simp add: new_registry_def)
  from unsendable_is_dead[OF c(1) p sample_dispatch_inv k i n, of "sample_env sample_time"] show ?thesis by blast
qed

lemma new_dispatcher_ok: "backoffs_ok new_dispatcher" "1 \<le> dp_retries new_dispatcher"
  by (simp_all add: backoffs_ok_def new_dispatcher_def default_backoffs_def minute_def default_max_retries_def)

lemma dispatch_refines_mail_witness:
  "fst (fst (dispatch_one sample_vault new_registry new_dispatcher (sample_env sample_time) (sample_env sample_time) sample_dispatch)) \<and>
    mails (snd (dispatch_one sample_vault new_registry new_dispatcher (sample_env sample_time) (sample_env sample_time) sample_dispatch)) ''d1'' = Some Undeliverable"
proof -
  let ?e = "sample_env sample_time"
  have p: "\<not> dp_paused new_dispatcher" and b: "dp_backoffs new_dispatcher \<noteq> []" by (simp_all add: new_dispatcher_def default_backoffs_def)
  have k: "clock_ok (e_now ?e)" by (simp add: clock_sample)
  have i: "\<forall>x\<in>set (db_deliveries sample_dispatch). d_id x \<noteq> []" by (simp add: sample_dispatch_def new_delivery_def)
  obtain c s1 where "claim_delivery ?e (e_now ?e) delivery_lease sample_dispatch = (Inr c, s1)" using sample_dispatch_claim by auto
  then have ne: "claimable (fmt_nano (e_now ?e)) sample_dispatch \<noteq> []" by (auto simp: claim_delivery_def run_tx_Inr claim_delivery_tx_def Let_def split: list.split_asm if_split_asm)
  have id: "d_id r = ''d1''" if "r \<in> set (claimable t sample_dispatch)" for r t
  proof -
    have "r \<in> set (db_deliveries sample_dispatch)" using that by (simp add: claimable_def)
    then show ?thesis by (simp add: sample_dispatch_def new_delivery_def)
  qed
  have none: "answer_of sample_vault new_registry c s1 = None" for c s1 by (simp add: answer_of_def new_registry_def split: sum.split)
  from dispatch_refines_mail[OF sample_dispatch_inv k p b i, of sample_vault new_registry ?e] ne id show ?thesis
    by (auto simp: none)
qed

lemma retry_budget_witness:
  "answers new_dispatcher ''d1'' [QueueCall (DClaim (sample_env sample_time) sample_time delivery_lease),
     DispatchOne sample_vault sample_registry (sample_env (sample_time + 60 * second)) (sample_env (sample_time + 60 * second))] sample_dispatch \<le> 154"
proof -
  let ?x = "new_delivery ''d1'' ''v1'' (''w1'', 1, ''k1'') (fmt_nano sample_time)"
  have "dispatch_inv new_dispatcher sample_dispatch"
    using sample_dispatch_inv by (simp add: dispatch_inv_def within_budget_def sample_dispatch_def new_delivery_def new_dispatcher_def default_max_retries_def)
  moreover have "?x \<in> set (db_deliveries sample_dispatch)" by (simp add: sample_dispatch_def)
  moreover have "answers_left (dp_retries new_dispatcher) ?x = 154" "d_id ?x = ''d1''"
    by (simp_all add: answers_left_def ended_def new_delivery_def new_dispatcher_def default_max_retries_def)
  moreover have "clock_ok sample_time" "clock_ok (sample_time + 60 * second)" by (simp_all add: clock_sample)
  ultimately show ?thesis
    using retry_budget[of new_dispatcher "[QueueCall (DClaim (sample_env sample_time) sample_time delivery_lease),
     DispatchOne sample_vault sample_registry (sample_env (sample_time + 60 * second)) (sample_env (sample_time + 60 * second))]" sample_dispatch ?x]
      new_dispatcher_ok by (simp add: new_cycle_def delivery_lease_def)
qed

end
