(* ===== verification/DispatchLife.thy ===== *)
theory DispatchLife
  imports Prelude
begin

text \<open>
  The lifecycle lock of internal/notification/dispatcher.go: \<open>DispatchOne\<close> enters under the read lock,
  \<open>Pause\<close> and \<open>Resume\<close> store the flag under the write lock and \<open>Drain\<close> waits for the counter to reach zero.
  A step is one atomic operation of one goroutine; the read-write lock admits a writer only when no reader
  is inside and a reader only when no writer is.
\<close>

section \<open>The machine\<close>

text \<open>
  Where a worker is: outside, inside the read lock, past the check of the flag, counted but still inside
  the lock, or at work on a claimed delivery.
\<close>

datatype pc = Out | Reading | Passed | Counted | Working

text \<open>The writer holds the lock with the flag it will store, and whether it stored it.\<close>

record life =
  lf_pcs :: "pc list"
  lf_active :: int
  lf_paused :: bool
  lf_writer :: "(bool \<times> bool) option"

definition reader :: "pc \<Rightarrow> bool" where
  "reader p \<longleftrightarrow> p \<in> {Reading, Passed, Counted}"

definition start_life :: "nat \<Rightarrow> life" where
  "start_life n = \<lparr>lf_pcs = replicate n Out, lf_active = 0, lf_paused = False, lf_writer = None\<rparr>"

inductive life_step :: "life \<Rightarrow> life \<Rightarrow> bool" where
  rlock: "i < length (lf_pcs s) \<Longrightarrow> lf_pcs s ! i = Out \<Longrightarrow> lf_writer s = None \<Longrightarrow> life_step s (s\<lparr>lf_pcs := (lf_pcs s)[i := Reading]\<rparr>)"
| refused: "i < length (lf_pcs s) \<Longrightarrow> lf_pcs s ! i = Reading \<Longrightarrow> lf_paused s \<Longrightarrow> life_step s (s\<lparr>lf_pcs := (lf_pcs s)[i := Out]\<rparr>)"
| passed: "i < length (lf_pcs s) \<Longrightarrow> lf_pcs s ! i = Reading \<Longrightarrow> \<not> lf_paused s \<Longrightarrow> life_step s (s\<lparr>lf_pcs := (lf_pcs s)[i := Passed]\<rparr>)"
| counted: "i < length (lf_pcs s) \<Longrightarrow> lf_pcs s ! i = Passed \<Longrightarrow>
    life_step s (s\<lparr>lf_pcs := (lf_pcs s)[i := Counted], lf_active := lf_active s + 1\<rparr>)"
| runlock: "i < length (lf_pcs s) \<Longrightarrow> lf_pcs s ! i = Counted \<Longrightarrow> life_step s (s\<lparr>lf_pcs := (lf_pcs s)[i := Working]\<rparr>)"
| finish: "i < length (lf_pcs s) \<Longrightarrow> lf_pcs s ! i = Working \<Longrightarrow>
    life_step s (s\<lparr>lf_pcs := (lf_pcs s)[i := Out], lf_active := lf_active s - 1\<rparr>)"
| lock: "lf_writer s = None \<Longrightarrow> \<forall>p\<in>set (lf_pcs s). \<not> reader p \<Longrightarrow> life_step s (s\<lparr>lf_writer := Some (b, False)\<rparr>)"
| store: "lf_writer s = Some (b, False) \<Longrightarrow> life_step s (s\<lparr>lf_paused := b, lf_writer := Some (b, True)\<rparr>)"
| unlock: "lf_writer s = Some (b, True) \<Longrightarrow> life_step s (s\<lparr>lf_writer := None\<rparr>)"

code_pred life_step .

inductive_cases life_stepE: "life_step s t"

definition reachable :: "nat \<Rightarrow> life \<Rightarrow> bool" where
  "reachable n s \<longleftrightarrow> life_step\<^sup>*\<^sup>* (start_life n) s"

section \<open>The invariant\<close>

definition at_work :: "pc \<Rightarrow> bool" where
  "at_work p \<longleftrightarrow> p \<in> {Counted, Working}"

definition life_inv :: "life \<Rightarrow> bool" where
  "life_inv s \<longleftrightarrow> lf_active s = int (count_where at_work (lf_pcs s)) \<and>
     (lf_paused s \<longrightarrow> (\<forall>p\<in>set (lf_pcs s). p \<noteq> Passed \<and> p \<noteq> Counted)) \<and>
     (lf_writer s \<noteq> None \<longrightarrow> (\<forall>p\<in>set (lf_pcs s). \<not> reader p))"

lemma count_update:
  "i < length xs \<Longrightarrow> int (count_where p (xs[i := y])) = int (count_where p xs) - (if p (xs ! i) then 1 else 0) + (if p y then 1 else 0)"
proof (induction xs arbitrary: i)
  case (Cons x xs)
  then show ?case
  proof (cases i)
    case (Suc k)
    then have "int (count_where p (xs[k := y])) = int (count_where p xs) - (if p (xs ! k) then 1 else 0) + (if p y then 1 else 0)"
      using Cons by simp
    then show ?thesis by (auto simp: Suc split: if_split_asm)
  qed simp
qed simp

lemma moved:
  assumes "\<forall>x\<in>set xs. q x" "i < length xs" "q (xs ! i) \<Longrightarrow> q y"
  shows "\<forall>x\<in>set (xs[i := y]). q x"
  using assms set_update_subset_insert[of xs i y] nth_mem by blast

text \<open>One worker moves on.\<close>

lemma life_move:
  assumes inv: "life_inv s" and i: "i < length (lf_pcs s)" and p: "lf_pcs s ! i = p"
    and "lf_paused s \<Longrightarrow> q \<in> {Passed, Counted} \<Longrightarrow> p \<in> {Passed, Counted}" and "lf_writer s \<noteq> None \<Longrightarrow> reader q \<Longrightarrow> reader p"
    and a: "a = lf_active s - (if at_work p then 1 else 0) + (if at_work q then 1 else 0)"
  shows "life_inv (s\<lparr>lf_pcs := (lf_pcs s)[i := q], lf_active := a\<rparr>)"
proof -
  have "a = int (count_where at_work ((lf_pcs s)[i := q]))" using inv count_update[OF i, of at_work q] a p by (simp add: life_inv_def)
  moreover have "\<forall>x\<in>set ((lf_pcs s)[i := q]). x \<noteq> Passed \<and> x \<noteq> Counted" if "lf_paused s"
    by (rule moved[OF _ i]) (use inv that assms(4) p in \<open>auto simp: life_inv_def\<close>)
  moreover have "\<forall>x\<in>set ((lf_pcs s)[i := q]). \<not> reader x" if "lf_writer s \<noteq> None"
    by (rule moved[OF _ i]) (use inv that assms(5) p in \<open>auto simp: life_inv_def\<close>)
  ultimately show ?thesis by (simp add: life_inv_def)
qed

lemma life_move0:
  assumes "life_inv s" "i < length (lf_pcs s)" "lf_pcs s ! i = p" "lf_paused s \<Longrightarrow> q \<in> {Passed, Counted} \<Longrightarrow> p \<in> {Passed, Counted}"
    "lf_writer s \<noteq> None \<Longrightarrow> reader q \<Longrightarrow> reader p" "at_work p \<longleftrightarrow> at_work q"
  shows "life_inv (s\<lparr>lf_pcs := (lf_pcs s)[i := q]\<rparr>)"
  using life_move[OF assms(1-5), where a = "lf_active s"] assms(6) by simp

lemma life_step_inv: "life_step s t \<Longrightarrow> life_inv s \<Longrightarrow> life_inv t"
proof (induction rule: life_step.induct)
  case (rlock i s)
  then show ?case by (intro life_move0[where p = Out]) (simp_all add: at_work_def)
next
  case (refused i s)
  then show ?case by (intro life_move0[where p = Reading]) (simp_all add: at_work_def reader_def)
next
  case (passed i s)
  then show ?case by (intro life_move0[where p = Reading]) (simp_all add: at_work_def reader_def)
next
  case (counted i s)
  then show ?case by (intro life_move[where p = Passed]) (simp_all add: at_work_def reader_def)
next
  case (runlock i s)
  then show ?case by (intro life_move0[where p = Counted]) (simp_all add: at_work_def reader_def)
next
  case (finish i s)
  then show ?case by (intro life_move[where p = Working]) (simp_all add: at_work_def reader_def)
qed (auto simp: life_inv_def reader_def)

lemma reachable_inv: "reachable n s \<Longrightarrow> life_inv s"
  unfolding reachable_def
proof (induction rule: rtranclp_induct)
  case base
  show ?case by (simp add: life_inv_def start_life_def count_where_0 at_work_def)
qed (rule life_step_inv)

section \<open>Drained stays drained\<close>

definition paused_step :: "life \<Rightarrow> life \<Rightarrow> bool" where
  "paused_step s t \<longleftrightarrow> life_step s t \<and> lf_paused t"

definition idle :: "life \<Rightarrow> bool" where
  "idle s \<longleftrightarrow> lf_paused s \<and> lf_active s = 0 \<and> (\<forall>p\<in>set (lf_pcs s). p = Out \<or> p = Reading)"

lemma inv_idle:
  assumes "life_inv s" "lf_paused s" "lf_active s = 0"
  shows "idle s"
proof -
  have "\<forall>p\<in>set (lf_pcs s). \<not> at_work p" using assms by (simp add: life_inv_def count_where_0)
  then have "p = Out \<or> p = Reading" if "p \<in> set (lf_pcs s)" for p
    using assms(1,2) that by (cases p) (auto simp: life_inv_def at_work_def)
  with assms show ?thesis by (simp add: idle_def)
qed

lemma idle_step:
  assumes "idle s" "life_step s t" "lf_paused t"
  shows "lf_active t = 0"
proof -
  have n: "lf_pcs s ! i \<noteq> Passed \<and> lf_pcs s ! i \<noteq> Working" if "i < length (lf_pcs s)" for i
    using assms(1) nth_mem[OF that] by (auto simp: idle_def)
  from assms(2) show ?thesis
    by (cases rule: life_step.cases) (use assms(1) n in \<open>auto simp: idle_def\<close>)
qed

text \<open>
  C35.  A drained dispatcher stays drained.  Once \<open>Drain\<close> has paused the dispatcher and read an active count
  of zero, then as long as nobody resumes it no worker is at work or on its way to claim a delivery, in
  every interleaving of the workers and of further pauses.
\<close>

theorem drained_stays_drained:
  assumes "reachable n s" and "lf_paused s" and "lf_active s = 0" and "paused_step\<^sup>*\<^sup>* s t"
  shows "lf_active t = 0 \<and> (\<forall>p\<in>set (lf_pcs t). p = Out \<or> p = Reading)"
proof -
  from assms(4) have "life_inv t \<and> idle t"
  proof (induction rule: rtranclp_induct)
    case base
    show ?case using reachable_inv[OF assms(1)] inv_idle[OF _ assms(2,3)] by blast
  next
    case (step t u)
    then have st: "life_step t u" "lf_paused u" by (simp_all add: paused_step_def)
    from step st have "life_inv u" using life_step_inv by blast
    with inv_idle[OF this st(2)] idle_step[OF _ st] step show ?case by blast
  qed
  then show ?thesis by (simp add: idle_def)
qed

text \<open>While it is paused the work that is left can only shrink: every step keeps or lowers the count.\<close>

lemma paused_shrinks:
  assumes "life_inv s" "lf_paused s" "life_step s t"
  shows "lf_active t \<le> lf_active s"
proof -
  have n: "lf_pcs s ! i \<noteq> Passed" if "i < length (lf_pcs s)" for i
    using assms(1,2) nth_mem[OF that] by (auto simp: life_inv_def)
  from assms(3) show ?thesis by (cases rule: life_step.cases) (use n in auto)
qed

lemma finish_enabled:
  assumes "life_inv s" "lf_paused s" "0 < lf_active s"
  shows "\<exists>t. paused_step s t \<and> lf_active t = lf_active s - 1"
proof -
  have "count_where at_work (lf_pcs s) \<noteq> 0" using assms(1,3) by (simp add: life_inv_def)
  then obtain p where p: "p \<in> set (lf_pcs s)" "at_work p" by (auto simp: count_where_0)
  then obtain i where i: "i < length (lf_pcs s)" "lf_pcs s ! i = p" by (auto simp: in_set_conv_nth)
  have "p = Working" using assms(1,2) p by (auto simp: life_inv_def at_work_def)
  then have "life_step s (s\<lparr>lf_pcs := (lf_pcs s)[i := Out], lf_active := lf_active s - 1\<rparr>)" using life_step.finish i by simp
  then show ?thesis using assms(2) by (intro exI[of _ "s\<lparr>lf_pcs := (lf_pcs s)[i := Out], lf_active := lf_active s - 1\<rparr>"]) (simp add: paused_step_def)
qed

text \<open>
  \<open>Drain\<close> can always finish: from every reachable paused state the deliveries at work can end one by
  one until the count is zero, and no step of any goroutine raises the count meanwhile.
\<close>

theorem drain_finishes:
  assumes "reachable n s" and "lf_paused s"
  shows "(\<exists>t. paused_step\<^sup>*\<^sup>* s t \<and> lf_active t = 0) \<and> (\<forall>t. life_step s t \<longrightarrow> lf_active t \<le> lf_active s)"
proof -
  have "\<exists>t. paused_step\<^sup>*\<^sup>* s t \<and> lf_active t = 0" if "life_inv s" "lf_paused s" "nat (lf_active s) = k" for k s
    using that
  proof (induction k arbitrary: s)
    case 0
    then have "lf_active s = 0" by (simp add: life_inv_def)
    then show ?case by blast
  next
    case (Suc k)
    then have "0 < lf_active s" by linarith
    then obtain t where t: "paused_step s t" "lf_active t = lf_active s - 1" using finish_enabled[of s] Suc.prems by blast
    then have "life_inv t" "lf_paused t" using Suc.prems(1) life_step_inv by (auto simp: paused_step_def)
    moreover have "nat (lf_active t) = k" using Suc.prems(3) t(2) by simp
    ultimately obtain u where "paused_step\<^sup>*\<^sup>* t u" "lf_active u = 0" using Suc.IH by blast
    with t(1) show ?case by (meson converse_rtranclp_into_rtranclp)
  qed
  then show ?thesis using reachable_inv[OF assms(1)] assms(2) paused_shrinks by blast
qed

section \<open>Witnesses\<close>

definition paused_life :: life where
  "paused_life = \<lparr>lf_pcs = [Out], lf_active = 0, lf_paused = True, lf_writer = None\<rparr>"

lemma paused_reachable: "reachable 1 paused_life"
proof -
  let ?mk = "\<lambda>p w. \<lparr>lf_pcs = [Out], lf_active = 0, lf_paused = p, lf_writer = w\<rparr> :: life"
  have 0: "start_life 1 = ?mk False None" by (simp add: start_life_def)
  have 1: "life_step (?mk False None) (?mk False (Some (True, False)))"
    using life_step.lock[of "?mk False None" True] by (simp add: reader_def)
  have 2: "life_step (?mk False (Some (True, False))) (?mk True (Some (True, True)))"
    using life_step.store[of "?mk False (Some (True, False))" True] by simp
  have 3: "life_step (?mk True (Some (True, True))) (?mk True None)"
    using life_step.unlock[of "?mk True (Some (True, True))" True] by simp
  from 1 2 3 show ?thesis unfolding reachable_def paused_life_def 0
    by (intro rtranclp.rtrancl_into_rtrancl[OF rtranclp.rtrancl_into_rtrancl[OF rtranclp.rtrancl_into_rtrancl[OF rtranclp.rtrancl_refl]]])
qed

lemma drained_stays_drained_witness:
  "paused_step\<^sup>*\<^sup>* paused_life (paused_life\<lparr>lf_pcs := [Reading]\<rparr>) \<and> lf_active (paused_life\<lparr>lf_pcs := [Reading]\<rparr>) = 0"
proof -
  have "life_step paused_life (paused_life\<lparr>lf_pcs := (lf_pcs paused_life)[0 := Reading]\<rparr>)"
    by (rule life_step.rlock) (simp_all add: paused_life_def)
  then have "paused_step paused_life (paused_life\<lparr>lf_pcs := [Reading]\<rparr>)" by (simp add: paused_step_def paused_life_def)
  then have r: "paused_step\<^sup>*\<^sup>* paused_life (paused_life\<lparr>lf_pcs := [Reading]\<rparr>)" by blast
  from drained_stays_drained[OF paused_reachable _ _ r] r show ?thesis by (simp add: paused_life_def)
qed

lemma drain_finishes_witness: "\<exists>t. paused_step\<^sup>*\<^sup>* paused_life t \<and> lf_active t = 0"
proof -
  have "lf_paused paused_life" by (simp add: paused_life_def)
  from drain_finishes[OF paused_reachable this] show ?thesis by blast
qed

end
