(* ===== verification/GoNet.thy ===== *)
theory GoNet
  imports GoJson GoText Paging "HOL-Library.Word"
begin

unbundle bit_operations_syntax

text \<open>
  What the program uses of Go's \<open>net\<close> and \<open>net/url\<close>.  A \<open>net.IP\<close> is the list of its 4 or 16 bytes;
  \<open>parse_ip\<close> is \<open>net.ParseIP\<close> (an address with a zone is none), \<open>split_host_port\<close> is
  \<open>net.SplitHostPort\<close> and \<open>parse_url\<close> is \<open>url.Parse\<close> (paths and fragments in their decoded form).
\<close>

type_synonym ip = "8 word list"

section \<open>Properties of addresses\<close>

definition to4 :: "ip \<Rightarrow> ip option" where
  "to4 a = (if length a = 4 then Some a
     else if length a = 16 \<and> (\<forall>b\<in>set (take 10 a). b = 0) \<and> a ! 10 = 255 \<and> a ! 11 = 255 then Some (drop 12 a) else None)"

definition same_ip :: "ip \<Rightarrow> ip \<Rightarrow> bool" where
  "same_ip a b \<longleftrightarrow> (case (to4 a, to4 b) of (Some x, Some y) \<Rightarrow> x = y | (None, None) \<Rightarrow> a = b | _ \<Rightarrow> False)"

definition is_unspecified :: "ip \<Rightarrow> bool" where
  "is_unspecified a \<longleftrightarrow> same_ip a [0, 0, 0, 0] \<or> same_ip a (replicate 16 0)"

definition is_loopback :: "ip \<Rightarrow> bool" where
  "is_loopback a \<longleftrightarrow> (case to4 a of Some v \<Rightarrow> v ! 0 = 127 | None \<Rightarrow> same_ip a (replicate 15 0 @ [1]))"

definition is_private :: "ip \<Rightarrow> bool" where
  "is_private a \<longleftrightarrow> (case to4 a of
     Some v \<Rightarrow> v ! 0 = 10 \<or> v ! 0 = 172 \<and> v ! 1 AND 240 = 16 \<or> v ! 0 = 192 \<and> v ! 1 = 168
   | None \<Rightarrow> length a = 16 \<and> a ! 0 AND 254 = 252)"

definition is_multicast :: "ip \<Rightarrow> bool" where
  "is_multicast a \<longleftrightarrow> (case to4 a of Some v \<Rightarrow> v ! 0 AND 240 = 224 | None \<Rightarrow> length a = 16 \<and> a ! 0 = 255)"

definition is_link_local_multicast :: "ip \<Rightarrow> bool" where
  "is_link_local_multicast a \<longleftrightarrow> (case to4 a of Some v \<Rightarrow> v ! 0 = 224 \<and> v ! 1 = 0 \<and> v ! 2 = 0
   | None \<Rightarrow> length a = 16 \<and> a ! 0 = 255 \<and> a ! 1 AND 15 = 2)"

definition is_link_local_unicast :: "ip \<Rightarrow> bool" where
  "is_link_local_unicast a \<longleftrightarrow> (case to4 a of Some v \<Rightarrow> v ! 0 = 169 \<and> v ! 1 = 254
   | None \<Rightarrow> length a = 16 \<and> a ! 0 = 254 \<and> a ! 1 AND 192 = 128)"

section \<open>Parsing addresses\<close>

text \<open>Four decimal fields of at most 255 without leading zeros.\<close>

definition parse_octet :: "string \<Rightarrow> 8 word option" where
  "parse_octet s = (if s = [] \<or> \<not> list_all is_digit s \<or> (length s > 1 \<and> hd s = CHR ''0'') \<or> num_of s > 255 then None
     else Some (word_of_nat (num_of s)))"

fun parse_octets :: "string list \<Rightarrow> ip option" where
  "parse_octets [] = Some []"
| "parse_octets (s # ss) = (case (parse_octet s, parse_octets ss) of (Some b, Some bs) \<Rightarrow> Some (b # bs) | _ \<Rightarrow> None)"

definition parse_ipv4 :: "string \<Rightarrow> ip option" where
  "parse_ipv4 s = (let fs = split_on (CHR ''.'') s in if length fs \<noteq> 4 then None else parse_octets fs)"

text \<open>The hexadecimal digits at the front: their number and value.\<close>

fun hex_field :: "string \<Rightarrow> nat \<Rightarrow> nat \<Rightarrow> (nat \<times> nat) option" where
  "hex_field [] off acc = Some (off, acc)"
| "hex_field (c # r) off acc = (case hex_value c of
     None \<Rightarrow> Some (off, acc)
   | Some v \<Rightarrow> if off > 3 then None else hex_field r (off + 1) (acc * 16 + v))"

text \<open>The groups of an IPv6 address: the bytes so far, where \<open>::\<close> stood, and the rest of the text.\<close>

fun parse_groups :: "nat \<Rightarrow> ip \<Rightarrow> nat option \<Rightarrow> string \<Rightarrow> (ip \<times> nat option \<times> string) option" where
  "parse_groups 0 bs el s = Some (bs, el, s)"
| "parse_groups (Suc n) bs el s = (if length bs \<ge> 16 then Some (bs, el, s)
     else case hex_field s 0 0 of
       None \<Rightarrow> None
     | Some (off, acc) \<Rightarrow>
         if off = 0 then None
         else if off < length s \<and> s ! off = CHR ''.'' then
           (if el = None \<and> length bs \<noteq> 12 then None
            else if length bs + 4 > 16 then None
            else map_option (\<lambda>v. (bs @ v, el, [])) (parse_ipv4 s))
         else (let bs' = bs @ [word_of_nat (acc div 256), word_of_nat (acc mod 256)]; r = drop off s in
           case r of
             [] \<Rightarrow> Some (bs', el, [])
           | c # r1 \<Rightarrow>
               if c \<noteq> CHR '':'' \<or> r1 = [] then None
               else if hd r1 = CHR '':'' then
                 (if el \<noteq> None then None
                  else if tl r1 = [] then Some (bs', Some (length bs'), []) else parse_groups n bs' (Some (length bs')) (tl r1))
               else parse_groups n bs' el r1))"

definition expand_ellipsis :: "ip \<Rightarrow> nat option \<Rightarrow> ip option" where
  "expand_ellipsis bs el = (if length bs < 16
     then (case el of None \<Rightarrow> None | Some k \<Rightarrow> Some (take k bs @ replicate (16 - length bs) 0 @ drop k bs))
     else if el \<noteq> None then None else Some bs)"

definition parse_ipv6 :: "string \<Rightarrow> ip option" where
  "parse_ipv6 s0 = (if CHR ''%'' \<in> set s0 then None
     else let (el, s) = (if take 2 s0 = ''::'' then (Some 0, drop 2 s0) else (None, s0)) in
       if el \<noteq> None \<and> s = [] then Some (replicate 16 0)
       else case parse_groups 8 [] el s of
         None \<Rightarrow> None
       | Some (bs, el', r) \<Rightarrow> if r \<noteq> [] then None else expand_ellipsis bs el')"

definition mapped :: "ip \<Rightarrow> ip" where
  "mapped v = replicate 10 0 @ [255, 255] @ v"

definition parse_ip :: "string \<Rightarrow> ip option" where
  "parse_ip s = (case find (\<lambda>c. c \<in> {CHR ''.'', CHR '':'', CHR ''%''}) s of
     None \<Rightarrow> None
   | Some c \<Rightarrow> if c = CHR ''.'' then map_option mapped (parse_ipv4 s) else if c = CHR '':'' then parse_ipv6 s else None)"

section \<open>Hosts and ports\<close>

definition last_index :: "char \<Rightarrow> string \<Rightarrow> nat option" where
  "last_index c s = (if c \<in> set s then Some (length s - 1 - length (takeWhile (\<lambda>d. d \<noteq> c) (rev s))) else None)"

abbreviation last_colon :: "string \<Rightarrow> nat option" where "last_colon \<equiv> last_index (CHR '':'')"

definition first_index :: "char \<Rightarrow> string \<Rightarrow> nat option" where
  "first_index c s = (if c \<in> set s then Some (length (takeWhile (\<lambda>d. d \<noteq> c) s)) else None)"

definition split_host_port :: "string \<Rightarrow> (string \<times> string) option" where
  "split_host_port s = (case last_colon s of
     None \<Rightarrow> None
   | Some i \<Rightarrow>
       if hd s = CHR ''['' then
         (case first_index (CHR '']'') s of
            None \<Rightarrow> None
          | Some fin \<Rightarrow>
              if fin + 1 \<noteq> i then None
              else if CHR ''['' \<in> set (drop 1 s) \<or> CHR '']'' \<in> set (drop (fin + 1) s) then None
              else Some (take (fin - 1) (drop 1 s), drop (i + 1) s))
       else if CHR '':'' \<in> set (take i s) \<or> CHR ''['' \<in> set s \<or> CHR '']'' \<in> set s then None
       else Some (take i s, drop (i + 1) s))"

section \<open>URLs\<close>

record parsed_url =
  u_scheme :: string
  u_opaque :: string
  u_user :: bool
  u_host :: string
  u_path :: string
  u_query :: string
  u_fragment :: string

definition no_url :: parsed_url where
  "no_url = \<lparr>u_scheme = [], u_opaque = [], u_user = False, u_host = [], u_path = [], u_query = [], u_fragment = []\<rparr>"

text \<open>\<open>strings.Cut\<close>: the text before and after the first \<open>c\<close>.\<close>

definition cut_at :: "char \<Rightarrow> string \<Rightarrow> string \<times> string" where
  "cut_at c s = (takeWhile (\<lambda>d. d \<noteq> c) s, drop 1 (dropWhile (\<lambda>d. d \<noteq> c) s))"

definition is_letter :: "char \<Rightarrow> bool" where
  "is_letter c \<longleftrightarrow> in_bytes 65 90 c \<or> in_bytes 97 122 c"

definition valid_optional_port :: "string \<Rightarrow> bool" where
  "valid_optional_port s \<longleftrightarrow> s = [] \<or> hd s = CHR '':'' \<and> list_all is_digit (tl s)"

text \<open>The scheme and the rest; \<open>None\<close> is the missing scheme of a text that starts with a colon.\<close>

definition get_scheme :: "string \<Rightarrow> (string \<times> string) option" where
  "get_scheme s =
     (let front = takeWhile (\<lambda>c. is_letter c \<or> is_digit c \<or> c \<in> {CHR ''+'', CHR ''-'', CHR ''.''}) s; r = drop (length front) s in
      if front = [] then (if r \<noteq> [] \<and> hd r = CHR '':'' then None else Some ([], s))
      else if \<not> is_letter (hd front) then Some ([], s)
      else if r \<noteq> [] \<and> hd r = CHR '':'' then Some (front, tl r) else Some ([], s))"

text \<open>
  \<open>unescape\<close>: percent sequences are decoded.  In a host only bytes above 127 may be written so, and the
  other bytes must be ones that a host may hold.
\<close>

definition host_char :: "char \<Rightarrow> bool" where
  "host_char c \<longleftrightarrow> is_letter c \<or> is_digit c \<or> \<not> in_bytes 0 127 c \<or>
     c \<in> set ''!$&()*+,;=:[]<>-_.~'' \<or> c = CHR 0x27 \<or> c = CHR 0x22"

fun unescape_url :: "bool \<Rightarrow> string \<Rightarrow> string option" where
  "unescape_url host [] = Some []"
| "unescape_url host (c # r) =
     (if c = CHR ''%'' then
        (case r of
           a # b # r' \<Rightarrow>
             (case (hex_value a, hex_value b) of
                (Some x, Some y) \<Rightarrow>
                  if host \<and> x < 8 \<and> \<not> (a = CHR ''2'' \<and> b = CHR ''5'') then None
                  else map_option (Cons (char_of (16 * x + y))) (unescape_url host r')
              | _ \<Rightarrow> None)
         | _ \<Rightarrow> None)
      else if host \<and> \<not> host_char c then None
      else map_option (Cons c) (unescape_url host r))"

text \<open>
  The zone of an IPv6 address, from its percent sequence on: only bytes a host may hold, the space and
  the percent sign may be escaped.
\<close>

fun unescape_zone :: "string \<Rightarrow> string option" where
  "unescape_zone [] = Some []"
| "unescape_zone (c # r) =
     (if c = CHR ''%'' then
        (case r of
           a # b # r' \<Rightarrow>
             (case (hex_value a, hex_value b) of
                (Some x, Some y) \<Rightarrow>
                  let v = char_of (16 * x + y) in
                  if \<not> (a = CHR ''2'' \<and> b = CHR ''5'') \<and> v \<noteq> CHR '' '' \<and> (\<not> host_char v \<or> \<not> in_bytes 0 127 v) then None
                  else map_option (Cons v) (unescape_zone r')
              | _ \<Rightarrow> None)
         | _ \<Rightarrow> None)
      else if \<not> host_char c then None
      else map_option (Cons c) (unescape_zone r))"

fun find_zone :: "string \<Rightarrow> string \<Rightarrow> (string \<times> string) option" where
  "find_zone before s = (if take 3 s = ''%25'' then Some (rev before, s)
     else case s of [] \<Rightarrow> None | c # r \<Rightarrow> find_zone (c # before) r)"

text \<open>\<open>parseHost\<close>: the host of an authority with its port; a bracketed host must be an IPv6 address.\<close>

definition parse_host :: "string \<Rightarrow> string option" where
  "parse_host h =
     (if has_prefix h ''['' then
        (case last_index (CHR '']'') h of
           None \<Rightarrow> None
         | Some i \<Rightarrow>
             if \<not> valid_optional_port (drop (i + 1) h) then None
             else (case find_zone [] (take i h) of
               Some (front, zone) \<Rightarrow>
                 (case (unescape_url True front, unescape_zone zone, unescape_url True (drop i h)) of
                    (Some a, Some z, Some b) \<Rightarrow> if parse_ipv6 (drop 1 a) = None then None else Some (a @ z @ b)
                  | _ \<Rightarrow> None)
             | None \<Rightarrow> if parse_ipv6 (drop 1 (take i h)) = None then None else unescape_url True h))
      else (case last_index (CHR '':'') h of
          None \<Rightarrow> unescape_url True h
        | Some i \<Rightarrow> if \<not> valid_optional_port (drop i h) \<or> CHR '':'' \<in> set (take i h) then None else unescape_url True h))"

definition userinfo_char :: "char \<Rightarrow> bool" where
  "userinfo_char c \<longleftrightarrow> is_letter c \<or> is_digit c \<or> c \<in> set ''-._:~!$&()*+,;=%@'' \<or> c = CHR 0x27"

text \<open>Whether there is user information, and the host.\<close>

definition parse_authority :: "string \<Rightarrow> (bool \<times> string) option" where
  "parse_authority a = (case last_index (CHR ''@'') a of
     None \<Rightarrow> map_option (Pair False) (parse_host a)
   | Some i \<Rightarrow> (case parse_host (drop (i + 1) a) of
       None \<Rightarrow> None
     | Some h \<Rightarrow> if \<not> list_all userinfo_char (take i a) \<or> unescape_url False (take i a) = None then None else Some (True, h)))"

text \<open>The part of a URL before its fragment.\<close>

definition parse_reference :: "string \<Rightarrow> parsed_url option" where
  "parse_reference s =
     (if \<exists>c\<in>set s. in_bytes 0 31 c \<or> c = CHR 0x7F then None
      else if s = ''*'' then Some (no_url\<lparr>u_path := ''*''\<rparr>)
      else case get_scheme s of
        None \<Rightarrow> None
      | Some (scheme, rest0) \<Rightarrow>
          let (r, query) = cut_at (CHR ''?'') rest0; u = no_url\<lparr>u_scheme := to_lower scheme, u_query := query\<rparr> in
          if \<not> has_prefix r ''/'' \<and> scheme \<noteq> [] then Some (u\<lparr>u_opaque := r\<rparr>)
          else if \<not> has_prefix r ''/'' \<and> CHR '':'' \<in> set (fst (cut_at (CHR ''/'') r)) then None
          else if (scheme \<noteq> [] \<or> \<not> has_prefix r ''///'') \<and> has_prefix r ''//'' then
            (let authority = takeWhile (\<lambda>c. c \<noteq> CHR ''/'') (drop 2 r); path = dropWhile (\<lambda>c. c \<noteq> CHR ''/'') (drop 2 r) in
             case (parse_authority authority, unescape_url False path) of
               (Some (user, h), Some p) \<Rightarrow> Some (u\<lparr>u_user := user, u_host := h, u_path := p\<rparr>)
             | _ \<Rightarrow> None)
          else map_option (\<lambda>p. u\<lparr>u_path := p\<rparr>) (unescape_url False r))"

text \<open>\<open>url.Parse\<close>.\<close>

definition parse_url :: "string \<Rightarrow> parsed_url option" where
  "parse_url raw = (let (s, frag) = cut_at (CHR ''#'') raw in
     case parse_reference s of
       None \<Rightarrow> None
     | Some u \<Rightarrow> map_option (\<lambda>f. u\<lparr>u_fragment := f\<rparr>) (unescape_url False frag))"

text \<open>\<open>URL.Hostname\<close> and \<open>URL.Port\<close>.\<close>

definition url_split :: "string \<Rightarrow> string \<times> string" where
  "url_split s =
     (let (host, port) = (case last_colon s of
          Some i \<Rightarrow> if valid_optional_port (drop i s) then (take i s, drop (i + 1) s) else (s, [])
        | None \<Rightarrow> (s, [])) in
      (if has_prefix host ''['' \<and> host \<noteq> [] \<and> last host = CHR '']'' then butlast (tl host) else host, port))"

definition url_hostname :: "parsed_url \<Rightarrow> string" where "url_hostname u = fst (url_split (u_host u))"
definition url_port :: "parsed_url \<Rightarrow> string" where "url_port u = snd (url_split (u_host u))"

section \<open>Address blocks\<close>

text \<open>An IPv4 address as a number, and membership in a block of the given prefix length.\<close>

definition v4_number :: "ip \<Rightarrow> nat" where
  "v4_number v = foldl (\<lambda>n b. n * 256 + unat b) 0 v"

definition in_block :: "nat \<Rightarrow> nat \<Rightarrow> nat \<Rightarrow> nat \<Rightarrow> bool" where
  "in_block width net len n \<longleftrightarrow> n div 2 ^ (width - len) = net div 2 ^ (width - len)"

text \<open>The value of the bit tests: the high bits of a byte are its quotient by a power of two.\<close>

lemma unat_lt_256: "unat (b :: 8 word) < 256"
  using unsigned_less[of b] by simp

lemma word_of_nat_unat_drop: "drop_bit n b = word_of_nat (unat (b :: 8 word) div 2 ^ n)"
  unfolding drop_bit_eq_div[symmetric] unat_drop_bit_eq[symmetric] by simp

lemma high_bits:
  assumes "m = NOT (mask n :: 8 word)"
  shows "b AND m = word_of_nat (2 ^ n * (unat b div 2 ^ n))"
proof -
  have "b AND m = push_bit n (drop_bit n b)"
    unfolding assms by (rule bit_word_eqI) (auto simp: bit_simps)
  also have "\<dots> = 2 ^ n * drop_bit n b" by (simp add: push_bit_eq_mult mult.commute)
  also have "drop_bit n b = word_of_nat (unat b div 2 ^ n)"
    using word_of_nat_unat_drop[of n b] .
  finally show ?thesis by simp
qed

lemma high_masks: "240 = NOT (mask 4 :: 8 word)" "254 = NOT (mask 1 :: 8 word)" "192 = NOT (mask 6 :: 8 word)"
  by code_simp+

lemma high_bits_eq:
  assumes "m = NOT (mask n :: 8 word)" "2 ^ n * k < 256"
  shows "b AND m = word_of_nat (2 ^ n * k) \<longleftrightarrow> unat b div 2 ^ n = k"
proof -
  have "2 ^ n * (unat b div 2 ^ n) < 256"
    by (rule le_less_trans[OF times_div_less_eq_dividend unat_lt_256])
  then show ?thesis unfolding high_bits[OF assms(1)] using assms(2) 
    by (simp add: word_of_nat_eq_iff take_bit_nat_eq_self del: of_nat_mult of_nat_power)
qed

text \<open>The IPv4 blocks that are not public, and the IPv6 ones.\<close>

definition v4_blocks :: "(nat \<times> nat) list" where
  "v4_blocks = [(0, 32), (10 * 2 ^ 24, 8), (100 * 2 ^ 24 + 64 * 2 ^ 16, 10), (127 * 2 ^ 24, 8), (169 * 2 ^ 24 + 254 * 2 ^ 16, 16),
     (172 * 2 ^ 24 + 16 * 2 ^ 16, 12), (192 * 2 ^ 24 + 168 * 2 ^ 16, 16), (224 * 2 ^ 24, 3)]"

definition v6_blocks :: "(nat \<times> nat) list" where
  "v6_blocks = [(0, 128), (1, 128), (252 * 2 ^ 120, 7), (254 * 2 ^ 120 + 128 * 2 ^ 112, 10), (255 * 2 ^ 120, 8)]"

section \<open>Addresses as numbers\<close>

lemma number_snoc: "v4_number (bs @ [b]) = v4_number bs * 256 + unat b"
  by (simp add: v4_number_def)

lemma number_append: "foldl (\<lambda>n b. n * 256 + unat b) k (bs :: ip) = k * 256 ^ length bs + v4_number bs"
proof (induction bs arbitrary: k rule: rev_induct)
  case (snoc b bs)
  then show ?case by (simp add: number_snoc)
qed (simp add: v4_number_def)

lemma number_take:
  assumes "j \<le> length bs"
  shows "v4_number bs div 256 ^ (length bs - j) = v4_number (take j bs)"
proof -
  have lt: "v4_number bs' < 256 ^ length bs'" for bs' :: ip
  proof (induction bs' rule: rev_induct)
    case (snoc b bs')
    have "v4_number (bs' @ [b]) = v4_number bs' * 256 + unat b" by (rule number_snoc)
    also have "\<dots> < (v4_number bs' + 1) * 256" using unat_lt_256[of b] by simp
    also have "\<dots> \<le> 256 ^ length bs' * 256" using snoc by (intro mult_right_mono) auto
    finally show ?case by (simp add: mult.commute)
  qed (simp add: v4_number_def)
  have "v4_number bs = v4_number (take j bs) * 256 ^ length (drop j bs) + v4_number (drop j bs)"
    using number_append[of "v4_number (take j bs)" "drop j bs"]
    by (metis append_take_drop_id foldl_append v4_number_def)
  moreover have "v4_number (drop j bs) < 256 ^ (length bs - j)" using lt[of "drop j bs"] by simp
  ultimately show ?thesis by simp
qed

lemma number_simps: "v4_number [] = 0" "v4_number [a] = unat a" "v4_number [a, b] = unat a * 256 + unat b"
  "v4_number [a, b, c] = (unat a * 256 + unat b) * 256 + unat c"
  "v4_number [a, b, c, d] = ((unat a * 256 + unat b) * 256 + unat c) * 256 + unat d"
  by (simp_all add: v4_number_def)

lemma two_bytes: "unat (a :: 8 word) * 256 + unat (b :: 8 word) = x * 256 + y \<longleftrightarrow> unat a = x \<and> unat b = y" if "y < 256"
proof
  assume e: "unat a * 256 + unat b = x * 256 + y"
  have "(unat a * 256 + unat b) div 256 = unat a" "(x * 256 + y) div 256 = x" using unat_lt_256[of b] that by simp_all
  with e show "unat a = x \<and> unat b = y" by simp
qed simp

lemma number_0: "v4_number bs = 0 \<longleftrightarrow> list_all (\<lambda>b. b = 0) bs"
proof (induction bs rule: rev_induct)
  case (snoc b bs)
  then show ?case by (simp add: number_snoc unat_eq_0)
qed (simp add: v4_number_def)

end
