(* ===== verification/Webhook.thy ===== *)
theory Webhook
  imports GoNet Dispatch
begin

unbundle bit_operations_syntax

text \<open>
  internal/webhook (webhook.go, sender.go, dispatcher.go) and internal/security/url.go: signing and
  verifying of event posts, the dialer that only reaches public addresses, the checks of an endpoint URL
  and the sender that maps an HTTP exchange to an outcome.  The resolver, the connection and the HTTP
  exchange are arguments.
\<close>

section \<open>Signatures\<close>

definition xor_char :: "char \<Rightarrow> char \<Rightarrow> char" where
  "xor_char a b = char_of (of_char a XOR (of_char b :: nat))"

text \<open>HMAC over the SHA-256 of the environment (blocks of 64 bytes).\<close>

definition hmac_key :: "(string \<Rightarrow> string) \<Rightarrow> string \<Rightarrow> string" where
  "hmac_key sha key = (let k = (if length key > 64 then sha key else key) in k @ replicate (64 - length k) (CHR 0x00))"

definition hmac :: "(string \<Rightarrow> string) \<Rightarrow> string \<Rightarrow> string \<Rightarrow> string" where
  "hmac sha key msg = (let k = hmac_key sha key in
     sha (map (xor_char (CHR 0x5C)) k @ sha (map (xor_char (CHR 0x36)) k @ msg)))"

record signed_request =
  sg_timestamp :: string
  sg_nonce :: string
  sg_signature :: string

definition unix_seconds :: "instant \<Rightarrow> int" where
  "unix_seconds t = t div second"

definition mac_text :: "string \<Rightarrow> string \<Rightarrow> string \<Rightarrow> string" where
  "mac_text timestamp nonce body = timestamp @ ''.'' @ nonce @ ''.'' @ body"

definition sign :: "(string \<Rightarrow> string) \<Rightarrow> string \<Rightarrow> string \<Rightarrow> instant \<Rightarrow> string \<Rightarrow> signed_request" where
  "sign sha secret body at nonce = (let timestamp = int_text (unix_seconds at) in
     \<lparr>sg_timestamp = timestamp, sg_nonce = nonce, sg_signature = ''v1='' @ hex_of (hmac sha secret (mac_text timestamp nonce body))\<rparr>)"

text \<open>\<open>NewNonce\<close>: 24 random bytes.\<close>

definition new_nonce :: "string \<Rightarrow> string" where
  "new_nonce draw = hex_of draw"

text \<open>
  \<open>time.Unix\<close> counts from the year 1 in a 64-bit integer that wraps; \<open>Time.Sub\<close> saturates at the limits of
  a 64-bit duration.
\<close>

definition wrap64 :: "int \<Rightarrow> int" where
  "wrap64 n = (n + 2 ^ 63) mod 2 ^ 64 - 2 ^ 63"

definition unix_time :: "int \<Rightarrow> instant" where
  "unix_time n = (wrap64 (n + 62135596800) - 62135596800) * second"

definition time_sub :: "instant \<Rightarrow> instant \<Rightarrow> int" where
  "time_sub a b = max min_int64 (min max_int64 (a - b))"

datatype webhook_err = InvalidNonce | InvalidTimestamp | OutsideWindow | InvalidSignature

definition verify :: "(string \<Rightarrow> string) \<Rightarrow> string \<Rightarrow> string \<Rightarrow> string \<Rightarrow> string \<Rightarrow> string \<Rightarrow> instant \<Rightarrow> int \<Rightarrow> webhook_err + unit" where
  "verify sha secret body timestamp nonce signature t leeway =
     (if nonce = [] \<or> length nonce > 256 then Inl InvalidNonce
      else case parse_int64 timestamp of
        None \<Rightarrow> Inl InvalidTimestamp
      | Some at \<Rightarrow>
          let delta = time_sub t (unix_time at) in
          if leeway < delta \<or> delta < - leeway then Inl OutsideWindow
          else if sg_signature (sign sha secret body (unix_time at) nonce) = signature then Inr () else Inl InvalidSignature)"

definition stable_event_id :: "(string \<Rightarrow> string) \<Rightarrow> string \<Rightarrow> string \<Rightarrow> string \<Rightarrow> string" where
  "stable_event_id sha namespace key event_type =
     ''bevt_'' @ hex_of (take 16 (sha (namespace @ CHR 0x00 # key @ CHR 0x00 # event_type)))"

section \<open>Public addresses\<close>

definition valid_public_ip :: "ip \<Rightarrow> bool" where
  "valid_public_ip a =
     (if is_loopback a \<or> is_private a \<or> is_link_local_unicast a \<or> is_link_local_multicast a \<or> is_multicast a \<or> is_unspecified a
      then False
      else case to4 a of
        Some v \<Rightarrow> if v ! 0 = 100 \<and> 64 \<le> v ! 1 \<and> v ! 1 \<le> 127 then False else \<not> 224 \<le> v ! 0
      | None \<Rightarrow> True)"

text \<open>\<open>isPublicIP\<close> of internal/security/url.go is the same function, written again.\<close>

definition is_public_ip :: "ip \<Rightarrow> bool" where
  "is_public_ip a =
     (if is_loopback a \<or> is_private a \<or> is_link_local_unicast a \<or> is_link_local_multicast a \<or> is_multicast a \<or> is_unspecified a
      then False
      else case to4 a of
        Some v \<Rightarrow> if v ! 0 = 100 \<and> 64 \<le> v ! 1 \<and> v ! 1 \<le> 127 then False else \<not> 224 \<le> v ! 0
      | None \<Rightarrow> True)"

text \<open>
  \<open>DialContext\<close>: the resolver gives the addresses of a host (or an error), \<open>connect\<close> tells whether a
  connection to an address and port comes about.  The result carries the attempts in their order.
\<close>

datatype dial_error = BadAddress | LookupFailed | NoAddresses | NonPublic | ConnectFailed

fun dial_each :: "(ip \<Rightarrow> string \<Rightarrow> bool) \<Rightarrow> string \<Rightarrow> ip list \<Rightarrow> (dial_error + ip) \<times> ip list" where
  "dial_each connect port [] = (Inl ConnectFailed, [])"
| "dial_each connect port (a # as) =
     (if connect a port then (Inr a, [a]) else map_prod id (Cons a) (dial_each connect port as))"

definition dial_context ::
  "(string \<Rightarrow> ip list option) \<Rightarrow> (ip \<Rightarrow> string \<Rightarrow> bool) \<Rightarrow> string \<Rightarrow> (dial_error + ip) \<times> ip list" where
  "dial_context lookup connect address =
     (case split_host_port address of
        None \<Rightarrow> (Inl BadAddress, [])
      | Some (host, port) \<Rightarrow>
          (case lookup host of
             None \<Rightarrow> (Inl LookupFailed, [])
           | Some ips \<Rightarrow>
               if ips = [] then (Inl NoAddresses, [])
               else if \<not> list_all valid_public_ip ips then (Inl NonPublic, [])
               else dial_each connect port ips))"

section \<open>Endpoint URLs\<close>

definition drop_suffix :: "string \<Rightarrow> string \<Rightarrow> string" where
  "drop_suffix suf s = (if drop (length s - length suf) s = suf then take (length s - length suf) s else s)"

definition url_error :: string where
  "url_error = ''webhook URL must be an absolute HTTPS URL without userinfo or fragment''"

definition validate_webhook_url :: "string \<Rightarrow> string + parsed_url" where
  "validate_webhook_url raw =
     (case parse_url raw of
        None \<Rightarrow> Inl url_error
      | Some u \<Rightarrow>
          if u_scheme u \<noteq> ''https'' \<or> u_host u = [] \<or> u_user u \<or> u_fragment u \<noteq> [] then Inl url_error
          else if url_port u \<noteq> [] \<and> (case parse_int64 (url_port u) of None \<Rightarrow> True | Some n \<Rightarrow> n < 1 \<or> 65535 < n)
          then Inl ''invalid webhook port''
          else let host = drop_suffix ''.'' (to_lower (url_hostname u)) in
            if host = [] then Inl ''webhook hostname is required''
            else if (case parse_ip host of None \<Rightarrow> False | Some a \<Rightarrow> \<not> is_public_ip a)
            then Inl ''webhook IP address must be public''
            else Inr u)"

section \<open>Helpers kept for receivers\<close>

definition headers :: "string \<Rightarrow> string \<Rightarrow> string \<Rightarrow> signed_request \<Rightarrow> (string \<times> string) list" where
  "headers event delivery_id key_id sg =
     [(''Content-Type'', ''application/json''), (''X-Bank-Event-Id'', event), (''X-Bank-Delivery-Id'', delivery_id),
      (''X-Bank-Timestamp'', sg_timestamp sg), (''X-Bank-Nonce'', sg_nonce sg), (''X-Bank-Key-Id'', key_id),
      (''X-Bank-Signature'', sg_signature sg)]"

definition is_retriable :: "int \<Rightarrow> bool" where
  "is_retriable status \<longleftrightarrow> status = 0 \<or> status = 408 \<or> status = 429 \<or> 500 \<le> status"

definition next_attempt :: "int \<Rightarrow> instant \<Rightarrow> instant" where
  "next_attempt attempt t =
     (let schedule = [2 * second, 5 * second, 15 * second, 30 * second, minute, 2 * minute, 5 * minute, 15 * minute];
          a = (if attempt < 0 then 0 else attempt);
          b = (if int (length schedule) \<le> a then int (length schedule) - 1 else a) in
      t + schedule ! nat b)"

section \<open>The sender\<close>

record http_post =
  hp_url :: string
  hp_headers :: "(string \<times> string) list"
  hp_body :: string

definition signed_post :: "send_request \<Rightarrow> signed_request \<Rightarrow> http_post" where
  "signed_post req sg = \<lparr>hp_url = tg_url (rq_target req),
     hp_headers = [(''Content-Type'', ''application/json''), (''X-Bank-Event-Id'', rq_event req),
       (''X-Bank-Delivery-Id'', rq_delivery req), (''X-Idempotency-Key'', rq_delivery req),
       (''X-Bank-Timestamp'', sg_timestamp sg), (''X-Bank-Nonce'', sg_nonce sg), (''X-Bank-Signature'', sg_signature sg)],
     hp_body = rq_payload req\<rparr>"

definition status_outcome :: "int \<Rightarrow> outcome" where
  "status_outcome status =
     (if 400 \<le> status \<and> status < 500 \<and> status \<noteq> 408 \<and> status \<noteq> 429 then TerminalFailure else Retry)"

text \<open>
  What the sender takes from outside: the clock, the nonce (\<open>None\<close> when no random bytes came), the HTTP
  exchange (an error text or a status) and its latency.
\<close>

record exchange =
  ex_sha :: "string \<Rightarrow> string"
  ex_now :: instant
  ex_nonce :: "string option"
  ex_do :: "http_post \<Rightarrow> string + int"
  ex_latency :: int

definition no_exchange :: "outcome \<Rightarrow> string \<Rightarrow> string \<Rightarrow> send_result" where
  "no_exchange out code text_of = \<lparr>rs_outcome = out, rs_status = 0, rs_latency = 0, rs_code = code, rs_error = text_of\<rparr>"

definition exchange_result :: "exchange \<Rightarrow> http_post \<Rightarrow> send_result" where
  "exchange_result x post =
     (case ex_do x post of
        Inl failure \<Rightarrow> \<lparr>rs_outcome = Retry, rs_status = 0, rs_latency = ex_latency x, rs_code = ''NETWORK_ERROR'',
          rs_error = (if length failure > 500 then take 500 failure else failure)\<rparr>
      | Inr status \<Rightarrow>
          if 200 \<le> status \<and> status < 300
          then \<lparr>rs_outcome = Success, rs_status = status, rs_latency = ex_latency x, rs_code = [], rs_error = []\<rparr>
          else \<lparr>rs_outcome = status_outcome status, rs_status = status, rs_latency = ex_latency x,
            rs_code = ''HTTP_'' @ int_text status, rs_error = ''endpoint returned HTTP '' @ int_text status\<rparr>)"

definition send_webhook :: "bool \<Rightarrow> exchange \<Rightarrow> sender" where
  "send_webhook skip x req =
     (case (if skip then None else (case validate_webhook_url (tg_url (rq_target req)) of Inl e \<Rightarrow> Some e | Inr _ \<Rightarrow> None)) of
        Some e \<Rightarrow> no_exchange TerminalFailure ''INVALID_URL'' e
      | None \<Rightarrow>
          (case ex_nonce x of
             None \<Rightarrow> no_exchange Retry ''NONCE_ERROR'' ''failed to generate nonce''
           | Some draw \<Rightarrow>
               let sg = sign (ex_sha x) (tg_secret (rq_target req)) (rq_payload req) (ex_now x) (new_nonce draw) in
               if parse_url (tg_url (rq_target req)) = None
               then no_exchange TerminalFailure ''INVALID_REQUEST'' ''failed to create request''
               else exchange_result x (signed_post req sg)))"

text \<open>\<open>webhook.Dispatcher\<close>: the dispatcher with one sender; a positive budget is set before every dispatch.\<close>

definition webhook_dispatcher :: "bool \<Rightarrow> exchange \<Rightarrow> registry \<times> dispatcher" where
  "webhook_dispatcher skip x = (register_sender ''WEBHOOK'' (send_webhook skip x) new_registry, new_dispatcher)"

definition webhook_dispatch_one ::
  "vault \<Rightarrow> registry \<times> dispatcher \<Rightarrow> int \<Rightarrow> env \<Rightarrow> env \<Rightarrow> db \<Rightarrow> (bool \<times> err option) \<times> db" where
  "webhook_dispatch_one v wd retries e e2 s =
     dispatch_one v (fst wd) (if 0 < retries then set_max_retries retries (snd wd) else snd wd) e e2 s"

section \<open>Which addresses are public\<close>

definition blocked :: "ip \<Rightarrow> bool" where
  "blocked a \<longleftrightarrow> (case to4 a of
     Some v \<Rightarrow> list_ex (\<lambda>(net, len). in_block 32 net len (v4_number v)) v4_blocks
   | None \<Rightarrow> list_ex (\<lambda>(net, len). in_block 128 net len (v4_number a)) v6_blocks)"

lemma byte_eq: "(b :: 8 word) = c \<longleftrightarrow> unat b = unat c"
  by (auto intro: unsigned_word_eqI)

lemma four_bytes: "length (v :: ip) = 4 \<Longrightarrow> \<exists>p q r s. v = [p, q, r, s]"
  by (simp add: numeral_eq_Suc length_Suc_conv) blast

lemma two_digits: "(x :: nat) < k \<Longrightarrow> y < k \<Longrightarrow> a * k + x = b * k + y \<longleftrightarrow> a = b \<and> x = y"
  by (metis add.commute add_right_cancel div_mult_self3 div_less add_0 bot_nat_0.not_eq_extremum less_nat_zero_code)

lemma to4_length: "to4 a = Some v \<Longrightarrow> length v = 4"
  by (auto simp: to4_def split: if_splits)

lemma to4_none: "to4 a = None \<Longrightarrow> length a \<in> {4, 16} \<Longrightarrow> length a = 16"
  by (auto simp: to4_def split: if_splits)

lemma v4_blocks_meaning:
  fixes p q r s :: "8 word"
  shows "list_ex (\<lambda>(net, len). in_block 32 net len (v4_number [p, q, r, s])) v4_blocks \<longleftrightarrow>
    (p = 0 \<and> q = 0 \<and> r = 0 \<and> s = 0) \<or> p = 10 \<or> (p = 100 \<and> unat q div 64 = 1) \<or> p = 127 \<or> (p = 169 \<and> q = 254) \<or>
    (p = 172 \<and> unat q div 16 = 1) \<or> (p = 192 \<and> q = 168) \<or> unat p div 32 = 7"
proof -
  let ?n = "v4_number [p, q, r, s]" and ?h = "unat p * 256 + unat q"
  have b: "unat p < 256" "unat q < 256" by (rule unat_lt_256)+
  have d24: "?n div 2 ^ 24 = unat p" using number_take[of 1 "[p, q, r, s]"] by (simp add: number_simps)
  have d16: "?n div 2 ^ 16 = ?h" using number_take[of 2 "[p, q, r, s]"] by (simp add: number_simps)
  have d: "?n div 2 ^ 29 = unat p div 32" "?n div 2 ^ 22 = ?h div 64" "?n div 2 ^ 20 = ?h div 16"
    using div_mult2_eq[of ?n "2 ^ 24" 32] div_mult2_eq[of ?n "2 ^ 16" 64] div_mult2_eq[of ?n "2 ^ 16" 16]
    unfolding d24 d16 by simp_all
  have q: "?h div 64 = unat p * 4 + unat q div 64" "?h div 16 = unat p * 16 + unat q div 16" by presburger+
  have "unat q div 64 < 4" "unat q div 16 < 16" using b by auto
  then have e: "?h div 64 = 401 \<longleftrightarrow> unat p = 100 \<and> unat q div 64 = 1" "?h div 16 = 2753 \<longleftrightarrow> unat p = 172 \<and> unat q div 16 = 1"
    unfolding q using two_digits[of "unat q div 64" 4 1 "unat p" 100] two_digits[of "unat q div 16" 16 1 "unat p" 172] by simp_all
  have two: "?h = 43518 \<longleftrightarrow> unat p = 169 \<and> unat q = 254" "?h = 49320 \<longleftrightarrow> unat p = 192 \<and> unat q = 168"
    using two_bytes[of 254 p q 169] two_bytes[of 168 p q 192] by simp_all
  have z: "?n = 0 \<longleftrightarrow> p = 0 \<and> q = 0 \<and> r = 0 \<and> s = 0" unfolding number_0 by simp
  have "list_ex (\<lambda>(net, len). in_block 32 net len ?n) v4_blocks \<longleftrightarrow>
      ?n div 2 ^ 0 = 0 \<or> ?n div 2 ^ 24 = 10 \<or> ?n div 2 ^ 22 = 401 \<or> ?n div 2 ^ 24 = 127 \<or> ?n div 2 ^ 16 = 43518 \<or>
      ?n div 2 ^ 20 = 2753 \<or> ?n div 2 ^ 16 = 49320 \<or> ?n div 2 ^ 29 = 7"
    by (simp add: v4_blocks_def in_block_def)
  then show ?thesis unfolding d d24 d16 e two using z by (simp add: byte_eq)
qed

lemma v6_blocks_meaning:
  assumes "length (a :: ip) = 16"
  shows "list_ex (\<lambda>(net, len). in_block 128 net len (v4_number a)) v6_blocks \<longleftrightarrow>
    a = replicate 16 0 \<or> a = replicate 15 0 @ [1] \<or> unat (a ! 0) div 2 = 126 \<or>
    (a ! 0 = 254 \<and> unat (a ! 1) div 64 = 2) \<or> a ! 0 = 255"
proof -
  obtain p q as where a: "a = p # q # as" using assms by (cases a; cases "tl a") auto
  let ?n = "v4_number a" and ?h = "unat p * 256 + unat q"
  have b: "unat p < 256" "unat q < 256" by (rule unat_lt_256)+
  have d120: "?n div 2 ^ 120 = unat p" using number_take[of 1 a] assms by (simp add: a number_simps power_mult[of 2 8, simplified, symmetric])
  have d112: "?n div 2 ^ 112 = ?h" using number_take[of 2 a] assms by (simp add: a number_simps)
  have d: "?n div 2 ^ 121 = unat p div 2" "?n div 2 ^ 118 = ?h div 64"
    using div_mult2_eq[of ?n "2 ^ 120" 2] div_mult2_eq[of ?n "2 ^ 112" 64] unfolding d120 d112 by simp_all
  have "?h div 64 = unat p * 4 + unat q div 64" by presburger
  moreover have "unat q div 64 < 4" using b by auto
  ultimately have e: "?h div 64 = 1018 \<longleftrightarrow> unat p = 254 \<and> unat q div 64 = 2"
    using two_digits[of "unat q div 64" 4 2 "unat p" 254] by simp
  have z: "?n = 0 \<longleftrightarrow> a = replicate 16 0"
    unfolding number_0 using assms by (auto simp: list_all_iff intro: replicate_eqI)
  have o: "?n = 1 \<longleftrightarrow> a = replicate 15 0 @ [1]"
  proof
    assume n: "?n = 1"
    obtain bs c where bc: "a = bs @ [c]" using assms by (cases a rule: rev_cases) auto
    then have l: "length bs = 15" using assms by simp
    have "v4_number bs * 256 + unat c = 1" using n by (simp add: bc number_snoc)
    then have "v4_number bs = 0" "unat c = 1" by presburger+
    then have "list_all (\<lambda>b. b = 0) bs" "c = 1" by (simp_all add: number_0 byte_eq)
    then have "bs = replicate 15 0" using l by (auto simp: list_all_iff intro: replicate_eqI)
    with \<open>c = 1\<close> show "a = replicate 15 0 @ [1]" by (simp add: bc)
  next
    assume e: "a = replicate 15 0 @ [1]"
    have "v4_number (replicate 15 0 :: ip) = 0" unfolding number_0 by (simp add: list_all_iff)
    then show "?n = 1" unfolding e number_snoc by simp
  qed
  have "list_ex (\<lambda>(net, len). in_block 128 net len ?n) v6_blocks \<longleftrightarrow>
      ?n = 0 \<or> ?n = 1 \<or> ?n div 2 ^ 121 = 126 \<or> ?n div 2 ^ 118 = 1018 \<or> ?n div 2 ^ 120 = 255"
    by (simp add: v6_blocks_def in_block_def)
  then show ?thesis unfolding d d120 e z o by (simp add: a byte_eq)
qed

lemma public_v4:
  assumes v: "to4 a = Some v" "v = [p, q, r, s]"
  shows "valid_public_ip a \<longleftrightarrow> \<not> ((p = 0 \<and> q = 0 \<and> r = 0 \<and> s = 0) \<or> p = 10 \<or> (p = 100 \<and> unat q div 64 = 1) \<or> p = 127 \<or>
    (p = 169 \<and> q = 254) \<or> (p = 172 \<and> unat q div 16 = 1) \<or> (p = 192 \<and> q = 168) \<or> unat p div 32 = 7)"
proof -
  have unspec: "is_unspecified a \<longleftrightarrow> p = 0 \<and> q = 0 \<and> r = 0 \<and> s = 0"
    using v by (auto simp: is_unspecified_def same_ip_def to4_def[of "[0,0,0,0]"] to4_def[of "replicate 16 0"] split: option.splits)
  have m: "(q AND 240 = 16) = (unat q div 16 = 1)" "(p AND 240 = 224) = (unat p div 16 = 14)"
    using high_bits_eq[of 240 4 1 q, OF high_masks(1)] high_bits_eq[of 240 4 14 p, OF high_masks(1)] by simp_all
  have le: "(64 \<le> q) = (64 \<le> unat q)" "(q \<le> 127) = (unat q \<le> 127)" "(224 \<le> p) = (224 \<le> unat p)"
    by (simp_all add: word_le_nat_alt)
  have b: "unat p < 256" by (rule unat_lt_256)
  have q: "x div 64 = 1 \<longleftrightarrow> 64 \<le> x \<and> x \<le> 127" for x :: nat by arith
  have p: "x < 256 \<Longrightarrow> x div 32 = 7 \<longleftrightarrow> 224 \<le> x" "x < 256 \<Longrightarrow> x div 16 = 14 \<Longrightarrow> 224 \<le> x" for x :: nat by arith+
  have kinds: "is_loopback a \<longleftrightarrow> p = 127" "is_private a \<longleftrightarrow> p = 10 \<or> p = 172 \<and> unat q div 16 = 1 \<or> p = 192 \<and> q = 168"
    "is_link_local_unicast a \<longleftrightarrow> p = 169 \<and> q = 254" "is_link_local_multicast a \<longleftrightarrow> p = 224 \<and> q = 0 \<and> r = 0"
    "is_multicast a \<longleftrightarrow> unat p div 16 = 14"
    using v m by (simp_all add: is_loopback_def is_private_def is_link_local_unicast_def is_link_local_multicast_def is_multicast_def)
  have "p = 224 \<Longrightarrow> 224 \<le> unat p" by simp
  then show ?thesis
    unfolding valid_public_ip_def kinds unspec q p(1)[OF b] using v p(2)[OF b] le by simp
qed

lemma public_v6:
  assumes v: "to4 a = None" "length a = 16"
  shows "valid_public_ip a \<longleftrightarrow> \<not> (a = replicate 16 0 \<or> a = replicate 15 0 @ [1] \<or> unat (a ! 0) div 2 = 126 \<or>
    (a ! 0 = 254 \<and> unat (a ! 1) div 64 = 2) \<or> a ! 0 = 255)"
proof -
  have z: "to4 (replicate 16 0) = None" "to4 (replicate 15 0 @ [1]) = None" "to4 [0, 0, 0, 0] = Some [0, 0, 0, 0]"
    by (simp_all add: to4_def nth_append)
  have m: "(a ! 0 AND 254 = 252) = (unat (a ! 0) div 2 = 126)" "(a ! 1 AND 192 = 128) = (unat (a ! 1) div 64 = 2)"
    using high_bits_eq[of 254 1 126 "a ! 0", OF high_masks(2)] high_bits_eq[of 192 6 2 "a ! 1", OF high_masks(3)] by simp_all
  show ?thesis
    using v z unfolding valid_public_ip_def
    by (auto simp: is_loopback_def is_private_def is_link_local_unicast_def is_link_local_multicast_def is_multicast_def
        is_unspecified_def same_ip_def m m(2)[unfolded One_nat_def])
qed

lemma blocked_public:
  assumes "length b = 4 \<or> length b = 16"
  shows "valid_public_ip b \<longleftrightarrow> \<not> blocked b"
proof (cases "to4 b")
  case None
  then have l: "length b = 16" using to4_none assms by auto
  show ?thesis unfolding public_v6[OF None l] blocked_def None using v6_blocks_meaning[OF l] by simp
next
  case (Some v)
  obtain p q r s where v: "v = [p, q, r, s]" using four_bytes[OF to4_length[OF Some]] by blast
  show ?thesis unfolding public_v4[OF Some v] blocked_def Some using v4_blocks_meaning[of p q r s] by (simp add: v)
qed

text \<open>
  C36.  The dialer's test of an address is membership in blocks: an address is public exactly when it lies in
  none of the IPv4 blocks 0.0.0.0/32, 10/8, 100.64/10, 127/8, 169.254/16, 172.16/12, 192.168/16 and 224/3 or
  IPv6 blocks ::/128, ::1/128, fc00::/7, fe80::/10 and ff00::/8, an IPv4 address written as an IPv6 one being
  judged as the IPv4 address it is; the test that endpoint URLs go through is the same function.
\<close>

theorem public_is_outside_blocks:
  assumes "length a = 4 \<or> length a = 16"
  shows "(valid_public_ip a \<longleftrightarrow> \<not> blocked a) \<and> is_public_ip a = valid_public_ip a \<and>
    (length a = 4 \<longrightarrow> valid_public_ip (mapped a) = valid_public_ip a)"
proof (intro conjI impI)
  show "valid_public_ip a \<longleftrightarrow> \<not> blocked a" by (rule blocked_public[OF assms])
  show "is_public_ip a = valid_public_ip a" by (simp add: is_public_ip_def valid_public_ip_def)
  assume l: "length a = 4"
  then have "to4 (mapped a) = to4 a" "length (mapped a) = 16" by (simp_all add: to4_def mapped_def nth_append)
  then have "blocked (mapped a) = blocked a" using l by (simp add: blocked_def to4_def[of a])
  then show "valid_public_ip (mapped a) = valid_public_ip a" using blocked_public[of a] blocked_public[of "mapped a"] l \<open>length (mapped a) = 16\<close> by simp
qed

lemma public_is_outside_blocks_witness: "valid_public_ip [8, 8, 8, 8] = (\<not> blocked [8, 8, 8, 8])"
  using public_is_outside_blocks[of "[8, 8, 8, 8]"] by simp

lemma dial_each_attempts:
  "dial_each connect port ips = (r, tries) \<Longrightarrow>
    (\<exists>n. tries = take n ips) \<and> (\<forall>a. r = Inr a \<longrightarrow> tries \<noteq> [] \<and> a = last tries \<and> connect a port) \<and>
    (r = Inl ConnectFailed \<longrightarrow> tries = ips) \<and> list_all (\<lambda>a. \<not> connect a port) (butlast tries)"
proof (induction ips arbitrary: r tries)
  case (Cons a ips)
  show ?case
  proof (cases "connect a port")
    case True
    then have "tries = [a]" "r = Inr a" using Cons.prems by auto
    then show ?thesis using True by (auto intro: exI[of _ 1])
  next
    case False
    obtain r0 t0 where d: "dial_each connect port ips = (r0, t0)" by fastforce
    have e: "r = r0" "tries = a # t0" using Cons.prems False d by auto
    obtain n where "t0 = take n ips" using Cons.IH[OF d] by blast
    then have "tries = take (Suc n) (a # ips)" by (simp add: e)
    then have "\<exists>n. tries = take n (a # ips)" by blast
    moreover have "\<forall>b. r = Inr b \<longrightarrow> tries \<noteq> [] \<and> b = last tries \<and> connect b port" using Cons.IH[OF d] by (simp add: e)
    moreover have "r = Inl ConnectFailed \<longrightarrow> tries = a # ips" using Cons.IH[OF d] by (simp add: e)
    moreover have "list_all (\<lambda>a. \<not> connect a port) (butlast tries)" using Cons.IH[OF d] False by (simp add: e)
    ultimately show ?thesis by blast
  qed
qed auto

text \<open>
  C37.  No request leaves for an address that is not public.  Whatever the resolver says and however the
  connections go, every attempt goes to an address that the resolver named for the host, in its order, all of
  them outside the blocked blocks; if any address of the host is blocked, nothing is attempted at all.
\<close>

theorem dial_only_public:
  assumes "dial_context lookup connect address = (r, tries)"
    and "\<forall>host ips. lookup host = Some ips \<longrightarrow> (\<forall>a\<in>set ips. length a = 4 \<or> length a = 16)"
  shows "(\<forall>a\<in>set tries. \<not> blocked a) \<and>
    (\<forall>a. r = Inr a \<longrightarrow> a \<in> set tries) \<and>
    (tries \<noteq> [] \<longrightarrow> (\<exists>host port ips n. split_host_port address = Some (host, port) \<and> lookup host = Some ips \<and>
       tries = take n ips \<and> (\<forall>a\<in>set ips. \<not> blocked a)))"
proof (cases "tries = [] \<and> (\<forall>a. r \<noteq> Inr a)")
  case False
  then obtain host port ips where s: "split_host_port address = Some (host, port)" "lookup host = Some ips" "ips \<noteq> []"
    "list_all valid_public_ip ips" and d: "dial_each connect port ips = (r, tries)"
    using assms(1) by (auto simp: dial_context_def split: option.splits if_splits prod.splits)
  obtain n where n: "tries = take n ips" and last: "\<And>a. r = Inr a \<Longrightarrow> tries \<noteq> [] \<and> a = last tries"
    using dial_each_attempts[OF d] by blast
  have pub: "\<not> blocked a" if "a \<in> set ips" for a
  proof -
    have "valid_public_ip a" "length a = 4 \<or> length a = 16" using that s(4) assms(2) s(2) by (auto simp: list_all_iff)
    then show ?thesis using blocked_public by blast
  qed
  show ?thesis using n last pub s in_set_takeD last_in_set by metis
qed auto

lemma dial_only_public_witness:
  "dial_context (\<lambda>host. Some [[8, 8, 8, 8], [1, 1, 1, 1]]) (\<lambda>a port. a = [1, 1, 1, 1]) ''a:1'' =
      (Inr [1, 1, 1, 1], [[8, 8, 8, 8], [1, 1, 1, 1]]) \<and>
    \<not> blocked [8, 8, 8, 8] \<and> \<not> blocked [1, 1, 1, 1]"
proof -
  define look where "look = (\<lambda>host :: string. Some [[8, 8, 8, 8], [1, 1, 1, 1 :: 8 word]])"
  have pub: "valid_public_ip [8, 8, 8, 8]" "valid_public_ip [1, 1, 1, 1]"
    by (subst public_v4[OF _ refl], simp add: to4_def, simp)+
  have split: "split_host_port ''a:1'' = Some (''a'', ''1'')" by (simp add: split_host_port_def last_index_def)
  have d: "dial_context look (\<lambda>a port. a = [1, 1, 1, 1]) ''a:1'' = (Inr [1, 1, 1, 1], [[8, 8, 8, 8], [1, 1, 1, 1]])"
    by (simp add: dial_context_def look_def split pub)
  have l: "\<forall>host ips. look host = Some ips \<longrightarrow> (\<forall>a\<in>set ips. length a = 4 \<or> length a = 16)" by (auto simp: look_def)
  from dial_only_public[OF d l] d show ?thesis by (simp add: look_def)
qed

section \<open>What a send reports\<close>

definition url_accepted :: "bool \<Rightarrow> string \<Rightarrow> bool" where
  "url_accepted skip raw \<longleftrightarrow> (if skip then parse_url raw \<noteq> None else (\<exists>u. validate_webhook_url raw = Inr u))"

definition posted :: "exchange \<Rightarrow> send_request \<Rightarrow> string \<Rightarrow> http_post" where
  "posted x req draw = signed_post req (sign (ex_sha x) (tg_secret (rq_target req)) (rq_payload req) (ex_now x) (new_nonce draw))"

lemma validated_parses: "validate_webhook_url raw = Inr u \<Longrightarrow> parse_url raw = Some u"
  by (auto simp: validate_webhook_url_def Let_def split: option.splits if_splits)

text \<open>
  C38.  The verdict of a send.  A post is reported as delivered exactly when the endpoint answered with a 2xx
  status; it is given up exactly when the URL is not acceptable or the endpoint answered with a 4xx status
  other than 408 and 429; everything else (no random bytes, no answer, redirects, 408, 429, 5xx) is tried
  again.
\<close>

theorem send_verdict:
  "(rs_outcome (send_webhook skip x req) = Success \<longleftrightarrow>
     url_accepted skip (tg_url (rq_target req)) \<and>
     (\<exists>draw status. ex_nonce x = Some draw \<and> ex_do x (posted x req draw) = Inr status \<and> 200 \<le> status \<and> status < 300)) \<and>
   (rs_outcome (send_webhook skip x req) = TerminalFailure \<longleftrightarrow>
     (if url_accepted skip (tg_url (rq_target req))
      then \<exists>draw status. ex_nonce x = Some draw \<and> ex_do x (posted x req draw) = Inr status \<and> 400 \<le> status \<and> status < 500 \<and>
        status \<noteq> 408 \<and> status \<noteq> 429
      else \<not> (skip \<and> ex_nonce x = None)))"
proof (cases "url_accepted skip (tg_url (rq_target req))")
  case True
  then have send: "send_webhook skip x req = (case ex_nonce x of None \<Rightarrow> no_exchange Retry ''NONCE_ERROR'' ''failed to generate nonce''
      | Some draw \<Rightarrow> exchange_result x (posted x req draw))"
    by (auto simp: send_webhook_def url_accepted_def posted_def Let_def validated_parses split: if_splits option.splits)
  show ?thesis unfolding send
    using True by (auto simp: no_exchange_def exchange_result_def status_outcome_def split: option.splits sum.splits if_splits)
next
  case False
  then have "rs_outcome (send_webhook skip x req) = (if skip \<and> ex_nonce x = None then Retry else TerminalFailure)"
    by (auto simp: send_webhook_def url_accepted_def no_exchange_def Let_def split: if_splits option.splits sum.splits)
  then show ?thesis using False by auto
qed

section \<open>Signed posts verify\<close>

lemma unix_time_range:
  assumes "in_range t"
  shows "unix_time (unix_seconds t) = t div second * second" "min_int64 \<le> unix_seconds t" "unix_seconds t \<le> max_int64"
  using assms by (simp_all add: in_range_def secs_range_def unix_time_def unix_seconds_def wrap64_def min_int64_def max_int64_def)

lemma verify_at:
  assumes "nonce \<noteq> []" "length nonce \<le> 256" "in_range at"
  shows "verify sha secret body (int_text (unix_seconds at)) nonce signature t leeway =
    (let delta = time_sub t (at div second * second) in
     if leeway < delta \<or> delta < - leeway then Inl OutsideWindow
     else if signature = sg_signature (sign sha secret body at nonce) then Inr () else Inl InvalidSignature)"
proof -
  have s: "sign sha secret body (at div second * second) nonce = sign sha secret body at nonce"
    by (simp add: sign_def unix_seconds_def)
  have p: "parse_int64 (int_text (unix_seconds at)) = Some (unix_seconds at)"
    using unix_time_range[OF assms(3)] by (intro int_text_parse)
  show ?thesis using assms(1,2) by (auto simp: verify_def p unix_time_range(1)[OF assms(3)] s Let_def)
qed

text \<open>
  C39.  A signed post verifies inside its replay window and only there.  The timestamp, nonce and signature that
  \<open>Sign\<close> makes are accepted for the same secret and body as long as the clocks differ by at most the leeway
  (in whole seconds of the signing clock), and after that the same post is refused as outside the window.
\<close>

theorem signed_post_verifies:
  fixes sha :: "string \<Rightarrow> string" and secret body :: string
  assumes "nonce \<noteq> []" "length nonce \<le> 256" "in_range at" "0 \<le> leeway" "leeway < max_int64"
  defines "sg \<equiv> sign sha secret body at nonce"
  shows "verify sha secret body (sg_timestamp sg) (sg_nonce sg) (sg_signature sg) t leeway =
    (if \<bar>t - at div second * second\<bar> \<le> leeway then Inr () else Inl OutsideWindow)"
proof -
  have f: "sg_timestamp sg = int_text (unix_seconds at)" "sg_nonce sg = nonce"
    by (simp_all add: sg_def sign_def Let_def)
  have d: "(leeway < time_sub t u \<or> time_sub t u < - leeway) = (\<not> \<bar>t - u\<bar> \<le> leeway)" for u
    using assms(4,5) by (auto simp: time_sub_def min_int64_def max_int64_def)
  show ?thesis unfolding f verify_at[OF assms(1-3)] Let_def d by (simp add: sg_def)
qed

lemma signed_post_verifies_witness:
  "verify id ''k'' ''{}'' (sg_timestamp (sign id ''k'' ''{}'' 1700000000000000000 ''ab''))
     (sg_nonce (sign id ''k'' ''{}'' 1700000000000000000 ''ab'')) (sg_signature (sign id ''k'' ''{}'' 1700000000000000000 ''ab''))
     1700000100000000000 300000000000 = Inr ()"
  using signed_post_verifies[of "''ab''" 1700000000000000000 300000000000 id "''k''" "''{}''" 1700000100000000000]
  by (simp add: in_range_def secs_range_def max_int64_def)

text \<open>
  C40.  The signature does not tell the nonce from the body: a body that contains a full stop can give up its
  part before the stop to the nonce.  Such a shifted message (another nonce, another body) gets exactly the
  verdict of the original one, so a receiver that remembers nonces does not recognise the replay.
\<close>

theorem nonce_boundary_open:
  assumes "nonce \<noteq> []" "length (nonce @ ''.'' @ front) \<le> 256"
  shows "verify sha secret rest timestamp (nonce @ ''.'' @ front) signature t leeway =
    verify sha secret (front @ ''.'' @ rest) timestamp nonce signature t leeway"
proof -
  have "mac_text ts (nonce @ ''.'' @ front) rest = mac_text ts nonce (front @ ''.'' @ rest)" for ts
    by (simp add: mac_text_def)
  then have "sg_signature (sign sha secret rest at (nonce @ ''.'' @ front)) = sg_signature (sign sha secret (front @ ''.'' @ rest) at nonce)" for at
    by (simp add: sign_def Let_def)
  then show ?thesis using assms by (simp add: verify_def Let_def split: option.split)
qed

lemma nonce_boundary_open_witness:
  "verify id ''k'' ''5}'' ''1700000000'' ''ab.{a:1'' ''v1=00'' 1700000000000000000 0 =
    verify id ''k'' ''{a:1.5}'' ''1700000000'' ''ab'' ''v1=00'' 1700000000000000000 0"
  using nonce_boundary_open[of "''ab''" "''{a:1''" id "''k''" "''5}''" "''1700000000''" "''v1=00''" 1700000000000000000 0] by simp

end
