(* ===== verification/PayRules.thy ===== *)
theory PayRules
  imports GoNet Settlement ProviderConfig
begin

text \<open>
  The decisions of internal/payments that need no store: the payOS adapter's judgement of numbers, responses
  and failures (payos.go), the shape of a callback (webhook_service.go), the checks of a new order
  (order_create.go) and the rules by which a payment link is matched, settled or tried again (reconcile.go).
  The records of the payOS library (responses, links, webhook data) have the fields the code reads.
\<close>

section \<open>Errors and provider data\<close>

record provider_error =
  pe_status :: int
  pe_code :: string
  pe_retry :: int
  pe_indeterminate :: bool

datatype svc_err = StoreErr err | ProviderErr provider_error | ServiceErr string int
  | ErrInvalidWebhook | BadSignature | ErrWebhookUnavailable | Interrupted

abbreviation "ErrInvalidAmount \<equiv> ServiceErr ''INVALID_AMOUNT'' 400"
abbreviation "ErrInvalidOrigin \<equiv> ServiceErr ''INVALID_ORIGIN'' 400"
abbreviation "ErrInvalidIdempotencyKey \<equiv> ServiceErr ''INVALID_IDEMPOTENCY_KEY'' 400"
abbreviation "ErrIdempotencyConflict \<equiv> ServiceErr ''IDEMPOTENCY_CONFLICT'' 409"
abbreviation "ErrPaymentUnavailable \<equiv> ServiceErr ''PAYMENT_UNAVAILABLE'' 503"
abbreviation "ErrPaymentsDisabled \<equiv> ServiceErr ''PAYMENTS_DISABLED'' 503"
abbreviation "ErrWebhookUnconfirmed \<equiv> ServiceErr ''WEBHOOK_UNCONFIRMED'' 503"
abbreviation "ErrPaymentAlreadyPaid \<equiv> ServiceErr ''PAYMENT_ALREADY_PAID'' 409"
abbreviation "ErrPaymentNotFound \<equiv> ServiceErr ''PAYMENT_NOT_FOUND'' 404"

record create_request =
  cq_code :: int
  cq_amount :: int
  cq_description :: string
  cq_return :: string
  cq_cancel :: string
  cq_expired :: int

record create_response =
  rp_code :: int
  rp_amount :: int
  rp_currency :: string
  rp_status :: string
  rp_link :: string
  rp_qr :: string
  rp_checkout :: string
  rp_bin :: string
  rp_account :: string
  rp_account_name :: string

record link_transaction =
  lt_reference :: string
  lt_amount :: int
  lt_account :: string
  lt_description :: string
  lt_date :: string
  lt_virtual :: "string option"

record payment_link =
  pl_id :: string
  pl_code :: int
  pl_amount :: int
  pl_paid :: int
  pl_remaining :: int
  pl_status :: string
  pl_transactions :: "link_transaction list"

record webhook_data =
  wd_code :: int
  wd_amount :: int
  wd_description :: string
  wd_account :: string
  wd_reference :: string
  wd_date :: string
  wd_currency :: string
  wd_link :: string
  wd_result :: string
  wd_virtual :: "string option"

section \<open>Numbers\<close>

definition max_safe_integer :: int where "max_safe_integer = 9007199254740991"

definition in_safe :: "int \<Rightarrow> bool" where
  "in_safe n \<longleftrightarrow> - max_safe_integer \<le> n \<and> n \<le> max_safe_integer"

text \<open>
  The exact value of a JSON number: its digits without the point times a power of ten.  \<open>big.Rat\<close> reads it so;
  the number is an integer when the negative power divides the digits.
\<close>

definition number_parts :: "string \<Rightarrow> bool \<times> string \<times> string \<times> string" where
  "number_parts s =
     (let neg = has_prefix s ''-''; r = (if neg then tl s else s); ip = takeWhile is_digit r; r1 = dropWhile is_digit r;
          fr = (if has_prefix r1 ''.'' then takeWhile is_digit (tl r1) else []);
          r2 = (if has_prefix r1 ''.'' then dropWhile is_digit (tl r1) else r1)
      in (neg, ip, fr, drop 1 r2))"

definition exact_integer :: "string \<Rightarrow> int option" where
  "exact_integer s =
     (let (neg, ip, fr, ex) = number_parts s; n = int (num_of (ip @ fr));
          k = (if ex = [] then 0 else (case parse_int64 ex of None \<Rightarrow> 0 | Some j \<Rightarrow> j)) - int (length fr);
          sg = (if neg then - 1 else 1) in
      if 0 \<le> k then Some (sg * n * 10 ^ nat k)
      else if n mod 10 ^ nat (- k) = 0 then Some (sg * (n div 10 ^ nat (- k))) else None)"

definition index_any :: "char set \<Rightarrow> string \<Rightarrow> nat option" where
  "index_any cs s = (if \<exists>c\<in>set s. c \<in> cs then Some (length (takeWhile (\<lambda>c. c \<notin> cs) s)) else None)"

definition parse_int32 :: "string \<Rightarrow> int option" where
  "parse_int32 s = (case parse_int64 s of
     None \<Rightarrow> None | Some n \<Rightarrow> if - 2147483648 \<le> n \<and> n \<le> 2147483647 then Some n else None)"

definition safe_number_text :: "string \<Rightarrow> bool" where
  "safe_number_text s =
     (case parse_int64 s of
        Some n \<Rightarrow> in_safe n
      | None \<Rightarrow>
          if length s > 128 then False
          else if (case index_any {CHR ''e'', CHR ''E''} s of None \<Rightarrow> False
              | Some at \<Rightarrow> (case parse_int32 (drop (at + 1) s) of None \<Rightarrow> True | Some x \<Rightarrow> x < - 128 \<or> 128 < x)) then False
          else (case exact_integer s of None \<Rightarrow> False | Some n \<Rightarrow> in_safe n))"

definition safe_number :: "jval option \<Rightarrow> bool" where
  "safe_number v = (case v of Some (JNum s) \<Rightarrow> safe_number_text s | _ \<Rightarrow> False)"

fun valid_json_numbers :: "jval \<Rightarrow> bool" where
  "valid_json_numbers (JObj kvs) = list_all (\<lambda>kv. valid_json_numbers (snd kv)) kvs"
| "valid_json_numbers (JArr vs) = list_all valid_json_numbers vs"
| "valid_json_numbers (JNum s) = safe_number_text s"
| "valid_json_numbers (JStr s) = True"
| "valid_json_numbers (JBool b) = True"
| "valid_json_numbers JNull = True"

text \<open>
  The numbers of verified data are rewritten as the integers they are: \<open>json.Marshal\<close>, then
  \<open>json.Unmarshal\<close> into floats, whose text is that integer again (a negative zero stays one).
\<close>

definition normal_number :: "string \<Rightarrow> string" where
  "normal_number s = (let n = (case parse_int64 s of Some n \<Rightarrow> n | None \<Rightarrow> (case exact_integer s of Some n \<Rightarrow> n | None \<Rightarrow> 0)) in
     if n = 0 \<and> has_prefix s ''-'' then ''-0'' else int_text n)"

fun normalize_numbers :: "jval \<Rightarrow> jval" where
  "normalize_numbers (JObj kvs) = JObj (map (\<lambda>kv. (fst kv, normalize_numbers (snd kv))) kvs)"
| "normalize_numbers (JArr vs) = JArr (map normalize_numbers vs)"
| "normalize_numbers (JNum s) = JNum (normal_number s)"
| "normalize_numbers v = v"

section \<open>Callbacks\<close>

definition is_string :: "jval option \<Rightarrow> bool" where
  "is_string v = (case v of Some (JStr _) \<Rightarrow> True | _ \<Rightarrow> False)"

text \<open>A key that is absent passes; the nullable ones may also hold null.\<close>

definition string_or_absent :: "(string \<times> jval) list \<Rightarrow> string \<Rightarrow> bool" where
  "string_or_absent kvs k \<longleftrightarrow> map_of kvs k = None \<or> is_string (map_of kvs k)"

definition string_or_null :: "(string \<times> jval) list \<Rightarrow> string \<Rightarrow> bool" where
  "string_or_null kvs k \<longleftrightarrow> map_of kvs k = None \<or> map_of kvs k = Some JNull \<or> is_string (map_of kvs k)"

definition valid_webhook_shape :: "(string \<times> jval) list \<Rightarrow> bool" where
  "valid_webhook_shape body \<longleftrightarrow>
     valid_json_numbers (JObj body) \<and> is_string (map_of body ''code'') \<and>
     (case map_of body ''success'' of Some (JBool _) \<Rightarrow> True | _ \<Rightarrow> False) \<and> string_or_absent body ''desc'' \<and>
     (case map_of body ''data'' of
        Some (JObj data) \<Rightarrow>
          safe_number (map_of data ''orderCode'') \<and> safe_number (map_of data ''amount'') \<and>
          list_all (string_or_absent data) [''description'', ''accountNumber'', ''reference'', ''transactionDateTime'', ''currency'',
            ''paymentLinkId'', ''code'', ''desc''] \<and>
          list_all (string_or_null data) [''counterAccountBankId'', ''counterAccountBankName'', ''counterAccountName'',
            ''counterAccountNumber'', ''virtualAccountName'', ''virtualAccountNumber'']
      | _ \<Rightarrow> False)"

definition is_confirmation_sample :: "webhook_data \<Rightarrow> bool" where
  "is_confirmation_sample d \<longleftrightarrow> wd_code d = 123 \<and> wd_amount d = 3000 \<and> wd_description d = ''VQRIO123'' \<and>
     wd_account d = ''12345678'' \<and> wd_reference d = ''TF230204212323'' \<and> wd_date d = ''2023-02-04 18:25:00'' \<and>
     wd_currency d = ''VND'' \<and> wd_link d = ''124c33293c43417ab7879e14c8d9eb18'' \<and> wd_result d = ''00''"

text \<open>
  \<open>PayOSAdapter.Verify\<close>: the signature check itself and the decoding into webhook data are the payOS library's
  (\<open>sdk\<close>): \<open>None\<close> when the signature does not fit, \<open>Some None\<close> when the verified data cannot be decoded.  The body comes back with its data normalised when it was verified.
\<close>

type_synonym sdk_verify = "credentials \<Rightarrow> string \<Rightarrow> (string \<times> jval) list \<Rightarrow> webhook_data option option"

definition hex_text :: "string \<Rightarrow> bool" where
  "hex_text s \<longleftrightarrow> even (length s) \<and> list_all (\<lambda>c. hex_value c \<noteq> None) s"

definition adapter_verify ::
  "sdk_verify \<Rightarrow> credentials \<Rightarrow> (string \<times> jval) list \<Rightarrow> svc_err + (webhook_data \<times> (string \<times> jval) list)" where
  "adapter_verify sdk keys body =
     (case map_of body ''signature'' of
        Some (JStr sig) \<Rightarrow>
          if length sig \<noteq> 64 \<or> \<not> hex_text sig then Inl BadSignature
          else (case map_of body ''data'' of
            Some (JObj data) \<Rightarrow>
              if \<not> valid_json_numbers (JObj data) \<or> \<not> safe_number (map_of data ''orderCode'') \<or> \<not> safe_number (map_of data ''amount'')
              then Inl ErrInvalidWebhook
              else (case normalize_numbers (JObj data) of
                JObj normal \<Rightarrow> (case sdk keys sig normal of
                  None \<Rightarrow> Inl BadSignature
                | Some None \<Rightarrow> Inl ErrInvalidWebhook
                | Some (Some d) \<Rightarrow> Inr (d, map_put ''data'' (JObj normal) body))
              | _ \<Rightarrow> Inl ErrInvalidWebhook)
          | _ \<Rightarrow> Inl ErrInvalidWebhook)
      | _ \<Rightarrow> Inl BadSignature)"

section \<open>Provider failures\<close>

record response_capture =
  rc_status :: int
  rc_envelope :: string
  rc_retry :: int
  rc_transport :: bool

definition capture_failure :: "response_capture \<Rightarrow> provider_error" where
  "capture_failure c =
     (let definitive = \<not> rc_transport c \<and> 400 \<le> rc_status c \<and> rc_status c < 500 \<and> rc_status c \<noteq> 408 \<and> rc_status c \<noteq> 429 in
      \<lparr>pe_status = rc_status c, pe_code = rc_envelope c, pe_retry = rc_retry c, pe_indeterminate = \<not> definitive\<rparr>)"

definition code_char :: "char \<Rightarrow> bool" where
  "code_char c \<longleftrightarrow> is_letter c \<or> is_digit c \<or> c \<in> {CHR ''_'', CHR ''-'', CHR ''.''}"

definition sanitized_code :: "string \<Rightarrow> string" where
  "sanitized_code code = (if length code > 128 \<or> \<not> list_all code_char code then [] else code)"

text \<open>\<open>parseRetryAfter\<close>: seconds, saturating, or a date of \<open>http.ParseTime\<close> (the argument \<open>http_date\<close>).\<close>

definition parse_retry_after :: "(string \<Rightarrow> instant option) \<Rightarrow> string \<Rightarrow> instant \<Rightarrow> int" where
  "parse_retry_after http_date value now =
     (if value \<noteq> [] \<and> list_all is_digit value \<and> num_of value < 2 ^ 64
      then (if int (num_of value) > max_int64 div second then max_int64 else int (num_of value) * second)
      else case http_date value of None \<Rightarrow> 0 | Some d \<Rightarrow> if now < d then min max_int64 (d - now) else 0)"

text \<open>
  \<open>captureResponse\<close>, one HTTP exchange of the payOS client: no response, a body that could not be read, or a
  response with its status, Retry-After header and body.
\<close>

datatype exchange = NoResponse | Unreadable int string | Response int string string

definition max_response_bytes :: nat where "max_response_bytes = 1048576"

definition note_delay :: "(string \<Rightarrow> instant option) \<Rightarrow> string \<Rightarrow> instant \<Rightarrow> response_capture \<Rightarrow> response_capture" where
  "note_delay http_date header now c =
     (let d = parse_retry_after http_date header now in if rc_retry c < d then c\<lparr>rc_retry := d\<rparr> else c)"

text \<open>The capture after the exchange, and whether the payOS client sees the response.\<close>

definition capture_response :: "(string \<Rightarrow> instant option) \<Rightarrow> instant \<Rightarrow> exchange \<Rightarrow> response_capture \<Rightarrow> response_capture \<times> bool" where
  "capture_response http_date now x c0 =
     (let c = c0\<lparr>rc_status := 0, rc_envelope := [], rc_transport := False\<rparr> in
      case x of
        NoResponse \<Rightarrow> (c\<lparr>rc_transport := True\<rparr>, False)
      | Unreadable status header \<Rightarrow> ((note_delay http_date header now (c\<lparr>rc_status := status\<rparr>))\<lparr>rc_transport := True\<rparr>, False)
      | Response status header body \<Rightarrow>
          let c1 = note_delay http_date header now (c\<lparr>rc_status := status\<rparr>) in
          if length body > max_response_bytes then (c1\<lparr>rc_transport := True\<rparr>, False)
          else (case json_unmarshal body of
              Some (JObj kvs) \<Rightarrow>
                (case string_field ''code'' kvs of
                   None \<Rightarrow> (c1, True)
                 | Some code \<Rightarrow>
                     let c2 = c1\<lparr>rc_envelope := sanitized_code code\<rparr> in
                     if (case struct_field ''data'' kvs of None \<Rightarrow> True | Some v \<Rightarrow> valid_json_numbers v) then (c2, True)
                     else (c2\<lparr>rc_transport := True\<rparr>, False))
            | Some JNull \<Rightarrow> (c1, True)
            | _ \<Rightarrow> (c1, True)))"

section \<open>New orders\<close>

definition payment_request_hash :: "env \<Rightarrow> int \<Rightarrow> string \<Rightarrow> string" where
  "payment_request_hash e amount origin = sha_hex e (int_text amount @ CHR 0x0A # origin)"

definition uuid_char :: "char \<Rightarrow> bool" where
  "uuid_char c \<longleftrightarrow> is_digit c \<or> in_bytes 97 102 c"

definition canonical_uuid :: "string \<Rightarrow> bool" where
  "canonical_uuid v \<longleftrightarrow> length v = 36 \<and> in_bytes 49 56 (v ! 14) \<and> v ! 19 \<in> set ''89ab'' \<and>
     (\<forall>i\<in>set [0..<36]. if i \<in> {8, 13, 18, 23} then v ! i = CHR ''-'' else uuid_char (v ! i))"

definition blank :: "string \<Rightarrow> bool" where
  "blank s \<longleftrightarrow> trim_space s = []"

definition valid_create_response :: "order \<Rightarrow> create_response \<Rightarrow> bool" where
  "valid_create_response r p \<longleftrightarrow>
     rp_code p = o_code r \<and> rp_amount p = o_amount r \<and> rp_currency p = ''VND'' \<and> rp_status p = ''PENDING'' \<and>
     \<not> blank (rp_link p) \<and> \<not> blank (rp_qr p) \<and> \<not> blank (rp_bin p) \<and> \<not> blank (rp_account p) \<and> \<not> blank (rp_account_name p) \<and>
     (case parse_url (rp_checkout p) of
        None \<Rightarrow> False
      | Some u \<Rightarrow> u_scheme u = ''https'' \<and> url_hostname u = ''pay.payos.vn'' \<and> \<not> u_user u \<and> (url_port u = [] \<or> url_port u = ''443''))"

section \<open>Links\<close>

definition verified_link_matches :: "order \<Rightarrow> payment_link \<Rightarrow> bool" where
  "verified_link_matches r l \<longleftrightarrow> pl_code l = o_code r \<and> pl_amount l = o_amount r \<and> \<not> blank (pl_id l) \<and>
     (o_link r = [] \<or> o_link r = pl_id l)"

text \<open>A day after the expiry the order is looked at one last time; past that, never (the zero time).\<close>

definition day :: int where "day = 24 * 3600 * second"

definition terminal_reconcile_at :: "order \<Rightarrow> instant \<Rightarrow> instant" where
  "terminal_reconcile_at r now =
     (case parse_nano (o_expires r) of
        None \<Rightarrow> now + day
      | Some expires \<Rightarrow> if now < expires + day then expires + day else zero_time)"

definition no_update :: order_update where
  "no_update = \<lparr>ou_status = [], ou_link = [], ou_qr = [], ou_checkout = [], ou_bin = [], ou_account = [], ou_account_name = [],
     ou_error = [], ou_next = zero_time, ou_attempts = 0, ou_reset = False, ou_qr_recovery = False\<rparr>"

text \<open>
  \<open>failureUpdate\<close>: the delay doubles from 30 seconds to 15 minutes with the attempts, grows by a random fifth
  (\<open>jitter\<close> draws it; \<open>None\<close> when no random bytes came) and respects the provider's Retry-After.
\<close>

fun doubled :: "nat \<Rightarrow> int \<Rightarrow> int" where
  "doubled 0 d = d"
| "doubled (Suc n) d = (if d < 900 * second then doubled n (d * 2) else d)"

definition failure_delay :: "int \<Rightarrow> nat option \<Rightarrow> svc_err option \<Rightarrow> int" where
  "failure_delay attempt jitter failure =
     (let d0 = doubled (nat (attempt - 1)) (30 * second); d1 = (if 900 * second < d0 then 900 * second else d0);
          d2 = (case jitter of None \<Rightarrow> d1 | Some j \<Rightarrow> d1 + int j mod (d1 div 5 + 1)) in
      case failure of Some (ProviderErr f) \<Rightarrow> if d2 < pe_retry f then pe_retry f else d2 | _ \<Rightarrow> d2)"

definition failure_code :: "order \<Rightarrow> string \<Rightarrow> instant \<Rightarrow> string" where
  "failure_code r code now =
     (let c = (if code = ''PROVIDER_UNAVAILABLE'' \<and>
               (has_prefix (o_error r) ''CREATE_REJECTED_HTTP_'' \<or> o_error r = ''CANCEL_OUTCOME_UNKNOWN'' \<or>
                o_error r = ''QR_RECOVERY_CANCEL_PENDING'') then o_error r else code) in
      case parse_nano (o_expires r) of
        None \<Rightarrow> c
      | Some expires \<Rightarrow> if \<not> now < expires + day \<and> o_status r = ''CREATING'' then ''CREATE_OUTCOME_UNKNOWN'' else c)"

definition failure_update :: "order \<Rightarrow> svc_err option \<Rightarrow> string \<Rightarrow> nat option \<Rightarrow> instant \<Rightarrow> order_update" where
  "failure_update r failure code jitter now =
     no_update\<lparr>ou_error := failure_code r code now, ou_attempts := o_attempts r + 1,
       ou_next := now + failure_delay (o_attempts r + 1) jitter failure\<rparr>"

text \<open>The rejection of a Create that names a definitive client error.\<close>

definition rejected_create :: "svc_err \<Rightarrow> string option" where
  "rejected_create x = (case x of
     ProviderErr f \<Rightarrow> if \<not> pe_indeterminate f \<and> 400 \<le> pe_status f \<and> pe_status f < 500 \<and> pe_status f \<noteq> 408 \<and> pe_status f \<noteq> 429
       then Some (''CREATE_REJECTED_HTTP_'' @ int_text (pe_status f)) else None
   | _ \<Rightarrow> None)"

section \<open>Evidence for a settlement\<close>

definition parse_payment_time :: "string \<Rightarrow> instant option" where
  "parse_payment_time v = (case parse_nano v of
     Some t \<Rightarrow> Some t | None \<Rightarrow> parse_layout (ymd_layout @ LSpace # hms_layout) (7 * 60 * 60) v)"

definition text_or_empty :: "string option \<Rightarrow> string" where
  "text_or_empty v = (case v of None \<Rightarrow> [] | Some x \<Rightarrow> x)"

definition no_input :: settlement_input where
  "no_input = \<lparr>si_channel = [], si_namespace = [], si_code = 0, si_link = [], si_reference = [], si_amount = 0, si_at = zero_time,
     si_account = [], si_virtual = [], si_source = [], si_detected = zero_time, si_inbox = [], si_callback = None, si_get = None\<rparr>"

definition details_pending :: svc_err where
  "details_pending = StoreErr (SettlementReview ''PAYMENT_DETAILS_PENDING'')"

definition verified_link_settlement :: "order \<Rightarrow> payment_link \<Rightarrow> svc_err + settlement_input" where
  "verified_link_settlement r l =
     (if \<not> verified_link_matches r l \<or> pl_status l \<noteq> ''PAID'' \<or> pl_paid l \<noteq> o_amount r \<or> pl_remaining l \<noteq> 0 then Inl details_pending
      else case pl_transactions l of
        [t] \<Rightarrow>
          (case parse_payment_time (lt_date t) of
             None \<Rightarrow> Inl details_pending
           | Some at \<Rightarrow>
               let virtual = text_or_empty (lt_virtual t) in
               if blank (lt_reference t) \<or> lt_amount t \<noteq> o_amount r \<or> blank (effective_payment_account (lt_account t) virtual)
               then Inl details_pending
               else Inr (no_input\<lparr>si_channel := o_channel r, si_code := o_code r, si_link := pl_id l, si_reference := lt_reference t,
                 si_amount := lt_amount t, si_at := at, si_account := lt_account t, si_virtual := virtual, si_source := ''CATCH_UP'',
                 si_get := Some \<lparr>sv_code = o_code r, sv_link = pl_id l, sv_reference = lt_reference t, sv_amount = lt_amount t,
                   sv_at = at, sv_account = lt_account t, sv_virtual = virtual\<rparr>\<rparr>))
      | _ \<Rightarrow> Inl details_pending)"

definition callback_matches_settlement :: "webhook_data \<Rightarrow> settlement_input \<Rightarrow> bool" where
  "callback_matches_settlement c inp \<longleftrightarrow>
     (case parse_payment_time (wd_date c) of
        None \<Rightarrow> False
      | Some at \<Rightarrow> wd_result c = ''00'' \<and> wd_currency c = ''VND'' \<and> wd_code c = si_code inp \<and> wd_link c = si_link inp \<and>
          wd_reference c = si_reference inp \<and> wd_amount c = si_amount inp \<and> at = si_at inp \<and>
          effective_payment_account (wd_account c) (text_or_empty (wd_virtual c)) =
            effective_payment_account (si_account inp) (si_virtual inp))"

definition is_settlement_review :: "svc_err \<Rightarrow> bool" where
  "is_settlement_review x = (case x of StoreErr (SettlementReview _) \<Rightarrow> True | _ \<Rightarrow> False)"

end
