(* ===== verification/Jobs.thy ===== *)
theory Jobs
  imports Prelude
begin

text \<open>
  Operations that talk to the outside between their transactions.  A \<open>job\<close> is a finite tree: it ends with
  a result, performs one atomic action on the shared state (with the environment of that moment) and goes
  on with what it saw, or asks a question over the network and goes on with whatever answer arrives.
  Jobs of any number run interleaved (\<open>run_step\<close>): between two actions of one job the others may have done
  anything, an answer may be any answer, and a job that crashes is one that is never scheduled again.
\<close>

section \<open>Jobs\<close>

datatype ('e, 's, 'q, 'p, 'a) job =
    Done 'a
  | Act "'e \<Rightarrow> 's \<Rightarrow> 's" "'e \<Rightarrow> 's \<Rightarrow> ('e, 's, 'q, 'p, 'a) job"
  | Ask 'q "'p \<Rightarrow> ('e, 's, 'q, 'p, 'a) job"

lemma job_induct [case_names Done Act Ask]:
  assumes "\<And>a. P (Done a)" and "\<And>u k. (\<And>e s. P (k e s)) \<Longrightarrow> P (Act u k)" and "\<And>q k. (\<And>p. P (k p)) \<Longrightarrow> P (Ask q k)"
  shows "P m"
proof (induction m)
  case (Done a)
  show ?case by (rule assms(1))
next
  case (Act u k)
  show ?case by (rule assms(2)) (rule Act.IH[OF rangeI rangeI])
next
  case (Ask q k)
  show ?case by (rule assms(3)) (rule Ask.IH[OF rangeI])
qed

definition act :: "('e \<Rightarrow> 's \<Rightarrow> 'a \<times> 's) \<Rightarrow> ('e, 's, 'q, 'p, 'a) job" where
  "act f = Act (\<lambda>e s. snd (f e s)) (\<lambda>e s. Done (fst (f e s)))"

definition ask :: "'q \<Rightarrow> ('e, 's, 'q, 'p, 'p) job" where
  "ask q = Ask q Done"

primrec andthen :: "('e, 's, 'q, 'p, 'a) job \<Rightarrow> ('a \<Rightarrow> ('e, 's, 'q, 'p, 'b) job) \<Rightarrow> ('e, 's, 'q, 'p, 'b) job" where
  "andthen (Done a) f = f a"
| "andthen (Act u k) f = Act u (\<lambda>e s. andthen (k e s) f)"
| "andthen (Ask q k) f = Ask q (\<lambda>p. andthen (k p) f)"

text \<open>Go's \<open>if err != nil { return err }\<close> around a job.\<close>

definition attempt :: "('e, 's, 'q, 'p, 'x + 'a) job \<Rightarrow> ('a \<Rightarrow> ('e, 's, 'q, 'p, 'x + 'b) job) \<Rightarrow> ('e, 's, 'q, 'p, 'x + 'b) job" where
  "attempt m f = andthen m (\<lambda>r. case r of Inl x \<Rightarrow> Done (Inl x) | Inr a \<Rightarrow> f a)"

text \<open>The same job under another environment: a context that carries a value.\<close>

primrec with_env :: "('e \<Rightarrow> 'e) \<Rightarrow> ('e, 's, 'q, 'p, 'a) job \<Rightarrow> ('e, 's, 'q, 'p, 'a) job" where
  "with_env g (Done a) = Done a"
| "with_env g (Act u k) = Act (\<lambda>e. u (g e)) (\<lambda>e s. with_env g (k (g e) s))"
| "with_env g (Ask q k) = Ask q (\<lambda>p. with_env g (k p))"

lemma andthen_act [simp]: "andthen (act f) k = Act (\<lambda>e s. snd (f e s)) (\<lambda>e s. k (fst (f e s)))"
  by (simp add: act_def)

lemma andthen_ask [simp]: "andthen (ask q) k = Ask q k"
  by (simp add: ask_def)

lemma andthen_assoc: "andthen (andthen m f) g = andthen m (\<lambda>a. andthen (f a) g)"
  by (induction m rule: job_induct) auto

lemma with_env_andthen: "with_env g (andthen m f) = andthen (with_env g m) (\<lambda>a. with_env g (f a))"
  by (induction m rule: job_induct) auto

section \<open>How many questions a job asks\<close>

text \<open>
  Every job ends; \<open>asks_at_most counted m n\<close> bounds the questions of the counted kind on every path, whatever
  the job sees and hears.
\<close>

primrec asks_at_most :: "('q \<Rightarrow> bool) \<Rightarrow> ('e, 's, 'q, 'p, 'a) job \<Rightarrow> nat \<Rightarrow> bool" where
  "asks_at_most c (Done a) n = True"
| "asks_at_most c (Act u k) n = (\<forall>e s. asks_at_most c (k e s) n)"
| "asks_at_most c (Ask q k) n =
     (if c q then 0 < n \<and> (\<forall>p. asks_at_most c (k p) (n - 1)) else \<forall>p. asks_at_most c (k p) n)"

lemma asks_mono: "asks_at_most c m n \<Longrightarrow> n \<le> n' \<Longrightarrow> asks_at_most c m n'"
proof (induction m arbitrary: n n' rule: job_induct)
  case (Ask q k)
  show ?case
  proof (cases "c q")
    case True
    have "asks_at_most c (k p) (n' - 1)" for p
      using Ask.prems True by (intro Ask.IH[of p "n - 1" "n' - 1"]) auto
    then show ?thesis using Ask.prems True by auto
  qed (use Ask in auto)
next
  case (Act u k)
  then show ?case by simp blast
qed simp

lemma asks_andthen:
  "asks_at_most c m n \<Longrightarrow> (\<And>a. asks_at_most c (f a) n') \<Longrightarrow> asks_at_most c (andthen m f) (n + n')"
proof (induction m arbitrary: n rule: job_induct)
  case (Ask q k)
  show ?case
  proof (cases "c q")
    case True
    then obtain j where j: "n = Suc j" using Ask.prems(1) by (cases n) auto
    with True Ask.prems(1) have "asks_at_most c (k p) j" for p by simp
    with Ask.IH Ask.prems(2) have "asks_at_most c (andthen (k p) f) (j + n')" for p by blast
    then show ?thesis using j True by simp
  qed (use Ask in auto)
next
  case (Done a)
  then show ?case using asks_mono[of c "f a" n' "n + n'"] by simp
qed auto

lemma asks_act [simp]: "asks_at_most c (act f) n"
  by (simp add: act_def)

lemma asks_ask: "c q \<longrightarrow> 0 < n \<Longrightarrow> asks_at_most c (ask q) n"
  by (simp add: ask_def)

lemma asks_with_env: "asks_at_most c m n \<Longrightarrow> asks_at_most c (with_env g m) n"
  by (induction m arbitrary: n rule: job_induct) auto

lemma asks_attempt:
  "asks_at_most c m n \<Longrightarrow> (\<And>a. asks_at_most c (f a) n') \<Longrightarrow> asks_at_most c (attempt m f) (n + n')"
  unfolding attempt_def by (rule asks_andthen) (auto split: sum.splits)

section \<open>What a job guarantees\<close>

text \<open>What a job has done, with what it saw of the environment, and heard so far, latest first.\<close>

datatype ('o, 's, 'q, 'p) trace = Did 'o 's 's | Heard 'q 'p

text \<open>
  \<open>allowed\<close> is what the environments satisfy, \<open>sees\<close> what a trace keeps of one, and \<open>heard\<close> what the answers satisfy, \<open>inv\<close> the invariant of the state, \<open>le\<close> what any step of any
  job respects, \<open>may\<close> which change a job with this past may make and \<open>asks\<close> which question it may ask.
\<close>

locale job_rules =
  fixes allowed :: "'e \<Rightarrow> bool"
    and sees :: "'e \<Rightarrow> 'o"
    and heard :: "'p \<Rightarrow> bool"
    and inv :: "'s \<Rightarrow> bool"
    and le :: "'s \<Rightarrow> 's \<Rightarrow> bool"
    and may :: "('o, 's, 'q, 'p) trace list \<Rightarrow> 's \<Rightarrow> 's \<Rightarrow> bool"
    and asks :: "('o, 's, 'q, 'p) trace list \<Rightarrow> 'q \<Rightarrow> bool"
  assumes le_refl: "le s s"
    and le_trans: "le a b \<Longrightarrow> le b c \<Longrightarrow> le a c"
begin

text \<open>A step with this past, from a state that every earlier state of the job has led to.\<close>

definition after :: "('o, 's, 'q, 'p) trace list \<Rightarrow> 's \<Rightarrow> bool" where
  "after h s \<longleftrightarrow> (\<forall>v a b. Did v a b \<in> set h \<longrightarrow> le b s)"

primrec safe :: "('e, 's, 'q, 'p, 'a) job \<Rightarrow> ('a \<Rightarrow> ('o, 's, 'q, 'p) trace list \<Rightarrow> bool) \<Rightarrow> ('o, 's, 'q, 'p) trace list \<Rightarrow> bool" where
  "safe (Done a) post h = post a h"
| "safe (Act u k) post h = (\<forall>e s. allowed e \<longrightarrow> inv s \<longrightarrow> after h s \<longrightarrow>
     inv (u e s) \<and> le s (u e s) \<and> may h s (u e s) \<and> safe (k e s) post (Did (sees e) s (u e s) # h))"
| "safe (Ask q k) post h = (asks h q \<and> (\<forall>p. heard p \<longrightarrow> safe (k p) post (Heard q p # h)))"

lemma safe_mono: "safe m post h \<Longrightarrow> (\<And>a h'. post a h' \<Longrightarrow> post' a h') \<Longrightarrow> safe m post' h"
  by (induction m arbitrary: h rule: job_induct) auto

lemma safe_andthen: "safe (andthen m f) post h = safe m (\<lambda>a h'. safe (f a) post h') h"
  by (induction m arbitrary: h rule: job_induct) auto

lemma safe_attempt:
  "safe (attempt m f) post h =
    safe m (\<lambda>r h'. case r of Inl x \<Rightarrow> post (Inl x) h' | Inr a \<Rightarrow> safe (f a) post h') h"
  unfolding attempt_def safe_andthen by (rule arg_cong[where f = "\<lambda>p. safe m p h"]) (auto simp: fun_eq_iff split: sum.splits)

lemma safe_act:
  "safe (act f) post h = (\<forall>e s. allowed e \<longrightarrow> inv s \<longrightarrow> after h s \<longrightarrow>
     inv (snd (f e s)) \<and> le s (snd (f e s)) \<and> may h s (snd (f e s)) \<and> post (fst (f e s)) (Did (sees e) s (snd (f e s)) # h))"
  by (simp add: act_def)

lemma safe_ask: "safe (ask q) post h = (asks h q \<and> (\<forall>p. heard p \<longrightarrow> post p (Heard q p # h)))"
  by (simp add: ask_def)

lemma safe_with_env: "safe m post h \<Longrightarrow> (\<And>e. allowed e \<Longrightarrow> allowed (g e) \<and> sees (g e) = sees e) \<Longrightarrow> safe (with_env g m) post h"
  by (induction m arbitrary: h rule: job_induct) (auto, metis+)

lemma after_le: "after h s \<Longrightarrow> le s t \<Longrightarrow> after h t"
  unfolding after_def using le_trans by blast

section \<open>Interleaved jobs\<close>

text \<open>
  A system is the state and the jobs with their pasts.  Any job of \<open>start\<close> may join at any time.
\<close>

inductive run_step :: "('e, 's, 'q, 'p, 'a) job set \<Rightarrow>
    's \<times> (('e, 's, 'q, 'p, 'a) job \<times> ('o, 's, 'q, 'p) trace list) list \<Rightarrow>
    's \<times> (('e, 's, 'q, 'p, 'a) job \<times> ('o, 's, 'q, 'p) trace list) list \<Rightarrow> bool" for start where
  join: "m \<in> start \<Longrightarrow> run_step start (s, js) (s, js @ [(m, [])])"
| step: "i < length js \<Longrightarrow> js ! i = (Act u k, h) \<Longrightarrow> allowed e \<Longrightarrow>
    run_step start (s, js) (u e s, js[i := (k e s, Did (sees e) s (u e s) # h)])"
| answer: "i < length js \<Longrightarrow> js ! i = (Ask q k, h) \<Longrightarrow> heard p \<Longrightarrow> run_step start (s, js) (s, js[i := (k p, Heard q p # h)])"

definition system_ok :: "('a \<Rightarrow> ('o, 's, 'q, 'p) trace list \<Rightarrow> bool) \<Rightarrow>
    's \<times> (('e, 's, 'q, 'p, 'a) job \<times> ('o, 's, 'q, 'p) trace list) list \<Rightarrow> bool" where
  "system_ok post c \<longleftrightarrow> inv (fst c) \<and> (\<forall>(m, h)\<in>set (snd c). after h (fst c) \<and> safe m post h)"

lemma system_member:
  "system_ok post (s, js) \<Longrightarrow> (m, h) \<in> set js \<Longrightarrow> inv s \<and> after h s \<and> safe m post h"
  unfolding system_ok_def by fastforce

lemma system_nth:
  "system_ok post (s, js) \<Longrightarrow> i < length js \<Longrightarrow> js ! i = (m, h) \<Longrightarrow> inv s \<and> after h s \<and> safe m post h"
  using system_member nth_mem by metis

lemma system_ok_update:
  assumes "system_ok post (s, js)" "inv t" "le s t" "after h t" "safe m post h"
  shows "system_ok post (t, js[i := (m, h)])"
proof -
  have "after h' t \<and> safe m' post h'" if "(m', h') \<in> set (js[i := (m, h)])" for m' h'
  proof (cases "(m', h') = (m, h)")
    case False
    with that have "(m', h') \<in> set js" using set_update_subset_insert by fastforce
    then show ?thesis using after_le assms(3) system_member[OF assms(1)] by blast
  qed (use assms in simp)
  then show ?thesis using assms(2) unfolding system_ok_def by auto
qed

lemma step_ok:
  assumes "run_step start c d" "system_ok post c" "\<And>m. m \<in> start \<Longrightarrow> safe m post []"
  shows "system_ok post d"
  using assms(1,2)
proof cases
  case (join m s js)
  have "after [] s" by (simp add: after_def)
  with join assms(2,3) show ?thesis unfolding system_ok_def by auto
next
  case (step i js u k h e s)
  have ok: "inv s \<and> after h s \<and> safe (Act u k) post h" using system_nth[OF assms(2)[unfolded step(1)] step(3,4)] .
  then have n: "inv (u e s)" "le s (u e s)" "safe (k e s) post (Did (sees e) s (u e s) # h)" using step(5) by auto
  have "after (Did (sees e) s (u e s) # h) (u e s)"
    using after_le[OF _ n(2)] ok le_refl by (auto simp: after_def)
  then show ?thesis unfolding step(2) by (rule system_ok_update[OF assms(2)[unfolded step(1)] n(1,2) _ n(3)])
next
  case (answer i js q k h p s)
  have ok: "inv s \<and> after h s \<and> safe (Ask q k) post h" using system_nth[OF assms(2)[unfolded answer(1)] answer(3,4)] .
  have "after (Heard q p # h) s" using ok by (auto simp: after_def)
  moreover have "safe (k p) post (Heard q p # h)" using ok answer(5) by simp
  ultimately show ?thesis unfolding answer(2)
    by (rule system_ok_update[OF assms(2)[unfolded answer(1)] conjunct1[OF ok] le_refl])
qed

lemma steps_ok:
  assumes "(run_step start)\<^sup>*\<^sup>* c d" "system_ok post c" "\<And>m. m \<in> start \<Longrightarrow> safe m post []"
  shows "system_ok post d"
  using assms(1,2) by induction (auto intro: step_ok assms(3))

lemma system_start: "inv s \<Longrightarrow> system_ok post (s, [])"
  by (simp add: system_ok_def)

text \<open>What a step of a sound system does: each action is one that its job may take with its past.\<close>

lemma step_may:
  assumes "system_ok post (s, js)" "i < length js" "js ! i = (Act u k, h)" "allowed e"
  shows "may h s (u e s) \<and> le s (u e s) \<and> inv (u e s)"
  using system_nth[OF assms(1-3)] assms(4) by auto

lemma step_asks:
  assumes "system_ok post (s, js)" "i < length js" "js ! i = (Ask q k, h)"
  shows "asks h q"
  using system_nth[OF assms] by auto

lemma step_le:
  assumes "run_step start c d" "system_ok post c"
  shows "le (fst c) (fst d)"
  using assms by cases (auto simp: le_refl dest: step_may)

lemma steps_le:
  assumes "(run_step start)\<^sup>*\<^sup>* c d" "system_ok post c" "\<And>m. m \<in> start \<Longrightarrow> safe m post []"
  shows "le (fst c) (fst d)"
  using assms(1)
proof induction
  case (step d f)
  have "system_ok post d" using step(1) assms(2,3) steps_ok by blast
  then show ?case using step(2,3) step_le le_trans by blast
qed (rule le_refl)

text \<open>Every question in a past was one that the job could ask then.\<close>

primrec asked_ok :: "('o, 's, 'q, 'p) trace list \<Rightarrow> bool" where
  "asked_ok [] = True"
| "asked_ok (t # h) = ((case t of Did v a b \<Rightarrow> True | Heard q p \<Rightarrow> asks h q) \<and> asked_ok h)"

lemma asked_at: "asked_ok (h1 @ Heard q p # h2) \<Longrightarrow> asks h2 q"
  by (induction h1) auto

lemma steps_asked:
  assumes "(run_step start)\<^sup>*\<^sup>* (s0, []) (s, js)" "inv s0" "\<And>m. m \<in> start \<Longrightarrow> safe m post []"
  shows "\<forall>(m, h)\<in>set js. asked_ok h"
  using assms(1)
proof (induction "(s, js)" arbitrary: s js rule: rtranclp_induct)
  case (step d)
  obtain t ks where d: "d = (t, ks)" by fastforce
  have ok: "system_ok post (t, ks)" using steps_ok[OF step(1)[unfolded d] system_start[OF assms(2)] assms(3)] .
  have ih: "\<forall>(m, h)\<in>set ks. asked_ok h" by (rule step(3)[OF d])
  have upd: "\<forall>(m, h)\<in>set (ks[i := (m', h')]). asked_ok h" if "asked_ok h'" for i m' h'
    using ih that set_update_subset_insert[of ks i "(m', h')"] by fastforce
  have old: "asked_ok h" if "i < length ks" "ks ! i = (m, h)" for i m h
    using ih nth_mem[OF that(1)] that(2) by fastforce
  from step(2)[unfolded d] show ?case
  proof cases
    case (join m)
    then show ?thesis using ih by simp
  next
    case (step i u k h e)
    show ?thesis unfolding step(2) by (rule upd) (simp add: old[OF step(3,4)])
  next
    case (answer i q k h x)
    show ?thesis unfolding answer(2) by (rule upd) (simp add: old[OF answer(3,4)] step_asks[OF ok answer(3,4)])
  qed
qed simp

section \<open>What can happen only once\<close>

text \<open>How often a job itself brought about a fact that no step undoes: over all jobs of a run, at most once.\<close>

definition made :: "('s \<Rightarrow> bool) \<Rightarrow> ('o, 's, 'q, 'p) trace list \<Rightarrow> nat" where
  "made p h = length (filter (\<lambda>t. case t of Did v a b \<Rightarrow> \<not> p a \<and> p b | Heard q x \<Rightarrow> False) h)"

lemma made_Did: "made p (Did v a b # h) = made p h + (if \<not> p a \<and> p b then 1 else 0)"
  by (simp add: made_def)

lemma made_Heard: "made p (Heard q x # h) = made p h"
  by (simp add: made_def)

lemma made_pos: "0 < made p h \<longleftrightarrow> (\<exists>v a b. Did v a b \<in> set h \<and> \<not> p a \<and> p b)"
proof (induction h)
  case (Cons t h)
  then show ?case by (cases t) (auto simp: made_Did made_Heard)
qed (simp add: made_def)

definition made_total :: "('s \<Rightarrow> bool) \<Rightarrow> (('e, 's, 'q, 'p, 'a) job \<times> ('o, 's, 'q, 'p) trace list) list \<Rightarrow> nat" where
  "made_total p js = sum_list (map (\<lambda>j. made p (snd j)) js)"

lemma made_total_update:
  assumes "i < length js" "js ! i = (m, h)" "made p h' = made p h + d"
  shows "made_total p (js[i := (m', h')]) = made_total p js + d"
proof -
  have *: "sum_list (xs[i := (x::nat) + d]) = sum_list xs + d" if "i < length xs" "xs ! i = x" for xs x
    using that by (simp add: sum_list_update)
  show ?thesis
    unfolding made_total_def map_update
    using *[of "map (\<lambda>j. made p (snd j)) js" "made p h"] assms by simp
qed

lemma made_once:
  assumes "(run_step start)\<^sup>*\<^sup>* (s0, []) (s, js)" "inv s0" "\<And>m. m \<in> start \<Longrightarrow> safe m post []"
    and "\<And>a b. p a \<Longrightarrow> le a b \<Longrightarrow> p b"
  shows "made_total p js \<le> (if p s then 1 else 0)"
  using assms(1)
proof (induction "(s, js)" arbitrary: s js rule: rtranclp_induct)
  case base
  then show ?case by (simp add: made_total_def)
next
  case (step d)
  obtain t ks where d: "d = (t, ks)" by fastforce
  have ok: "system_ok post (t, ks)" using steps_ok[OF step(1)[unfolded d] system_start[OF assms(2)] assms(3)] .
  have ih: "made_total p ks \<le> (if p t then 1 else 0)" by (rule step(3)[OF d])
  from step(2)[unfolded d] show ?case
  proof cases
    case (join m)
    then show ?thesis using ih by (simp add: made_total_def made_def)
  next
    case (step i u k h e)
    have l: "le t s" using step_may[OF ok step(3,4,5)] step(1) by simp
    have "made_total p js = made_total p ks + (if \<not> p t \<and> p s then 1 else 0)"
      unfolding step(2) by (rule made_total_update[OF step(3,4)]) (simp add: made_Did step(1))
    then show ?thesis using ih assms(4)[OF _ l] by (auto split: if_splits)
  next
    case (answer i q k h x)
    have "made_total p js = made_total p ks + 0"
      unfolding answer(2) by (rule made_total_update[OF answer(3,4)]) (simp add: made_Heard)
    then show ?thesis using ih answer(1) by simp
  qed
qed

lemma made_apart:
  assumes "made_total p js \<le> 1" "i < length js" "j < length js" "i \<noteq> j" "0 < made p (snd (js ! i))"
  shows "made p (snd (js ! j)) = 0"
proof -
  let ?f = "\<lambda>j. made p (snd (js ! j))"
  have "?f i + ?f j = sum ?f {i, j}" using assms(4) by simp
  also have "\<dots> \<le> sum ?f {0..<length js}" using assms(2,3) by (intro sum_mono2) auto
  also have "\<dots> = made_total p js" by (simp add: made_total_def sum_list_sum_nth)
  finally show ?thesis using assms(1,5) by simp
qed

section \<open>What one job can do undisturbed\<close>

text \<open>From this state the job, alone, gets to that state and rest, whatever its past.\<close>

inductive goes :: "'s \<Rightarrow> ('e, 's, 'q, 'p, 'a) job \<Rightarrow> 's \<Rightarrow> ('e, 's, 'q, 'p, 'a) job \<Rightarrow> bool" where
  stay: "goes s m s m"
| at: "allowed e \<Longrightarrow> goes (u e s) (k e s) s' m' \<Longrightarrow> goes s (Act u k) s' m'"
| says: "heard p \<Longrightarrow> goes s (k p) s' m' \<Longrightarrow> goes s (Ask q k) s' m'"

lemma goes_then: "goes s m s' (Done a) \<Longrightarrow> goes s' (f a) s'' m'' \<Longrightarrow> goes s (andthen m f) s'' m''"
  by (induction s m s' "Done a :: ('e, 's, 'q, 'p, 'a) job" rule: goes.induct) (auto intro: goes.intros)

lemma goes_part: "goes s m s' m' \<Longrightarrow> goes s (andthen m f) s' (andthen m' f)"
  by (induction rule: goes.induct) (auto intro: goes.intros)

lemma goes_attempt: "goes s m s' (Done (Inr a)) \<Longrightarrow> goes s' (f a) s'' m'' \<Longrightarrow> goes s (attempt m f) s'' m''"
  unfolding attempt_def by (erule goes_then) simp

lemma goes_act: "allowed e \<Longrightarrow> f e s = (a, s') \<Longrightarrow> goes s (act f) s' (Done a)"
  unfolding act_def by (rule at[of e]) (simp_all add: stay)

lemma goes_ask: "heard p \<Longrightarrow> goes s (ask q) s (Done p)"
  unfolding ask_def by (rule says[of p]) (simp_all add: stay)

lemma goes_run:
  assumes "goes s m s' m'" "(run_step start)\<^sup>*\<^sup>* c (s, js)" "i < length js" "js ! i = (m, h)"
  shows "\<exists>h'. (run_step start)\<^sup>*\<^sup>* c (s', js[i := (m', h')]) \<and> (\<forall>t\<in>set h. t \<in> set h')"
  using assms
proof (induction arbitrary: js h rule: goes.induct)
  case (stay s m)
  then show ?case by (metis list_update_id)
next
  case (at e u s k s' m')
  let ?h = "Did (sees e) s (u e s) # h"
  have "run_step start (s, js) (u e s, js[i := (k e s, ?h)])" using at by (intro step) auto
  then have "(run_step start)\<^sup>*\<^sup>* c (u e s, js[i := (k e s, ?h)])" using at(4) by (meson rtranclp.rtrancl_into_rtrancl)
  from at(3)[OF this, of ?h] show ?case using at(5) by auto
next
  case (says p s k s' m' q)
  let ?h = "Heard q p # h"
  have "run_step start (s, js) (s, js[i := (k p, ?h)])" using says by (intro answer) auto
  then have "(run_step start)\<^sup>*\<^sup>* c (s, js[i := (k p, ?h)])" using says(4) by (meson rtranclp.rtrancl_into_rtrancl)
  from says(3)[OF this, of ?h] show ?case using says(5) by auto
qed

lemma goes_alone:
  assumes "m \<in> start" "goes s m s' m'"
  shows "\<exists>h. (run_step start)\<^sup>*\<^sup>* (s, []) (s', [(m', h)])"
proof -
  have "(run_step start)\<^sup>*\<^sup>* (s, []) (s, [(m, [])])" using join[OF assms(1), of s "[]"] by simp
  from goes_run[OF assms(2) this, of 0 "[]"] show ?thesis by auto
qed

end

end
