(* ===== verification/PayService.thy ===== *)
theory PayService
  imports PayRules Jobs
begin

text \<open>
  The payment service of internal/payments as jobs over the shared world: the database, and per process the
  reconciler's state.  A provider call, or the wait for a request slot, is a question; between its actions
  the other jobs of all processes run.  Time limits, the cancellation of a caller and the loss of the
  database are not modelled beyond an interrupted question; the nil-store guards never fire.
\<close>

section \<open>The world\<close>

text \<open>\<open>reconcileState\<close> and \<open>providerCache\<close> of one process.\<close>

record local =
  lc_quiesced :: bool
  lc_active :: int
  lc_next :: instant
  lc_wake :: bool
  lc_cache :: "(int \<times> credentials \<times> string) option"

definition fresh_local :: local where
  "fresh_local = \<lparr>lc_quiesced = False, lc_active = 0, lc_next = zero_time, lc_wake = False, lc_cache = None\<rparr>"

record world =
  w_db :: db
  w_local :: "nat \<Rightarrow> local"
  w_published :: "event_note list"

text \<open>The moment of an action: clock and draws, the draws of Reserve and the jitter.\<close>

record moment =
  mo_env :: env
  mo_draws :: "(string \<times> int) list"
  mo_jitter :: "nat option"

datatype question =
    QCreate credentials create_request
  | QGet credentials int
  | QCancel credentials int
  | QConfirm credentials string
  | QWait instant

text \<open>An answer that does not belong to its question is no answer.\<close>

datatype answer =
    Failed "provider_error option"
  | Created create_response
  | Link payment_link
  | Confirmed string
  | Elapsed

type_synonym 'a pay_job = "(moment, world, question, answer, 'a) job"

text \<open>The parts of the payOS library and of SQLite that the service uses.\<close>

record vendor =
  vn_verify :: sdk_verify
  vn_client :: "credentials \<Rightarrow> bool"
  vn_decode :: "string \<Rightarrow> webhook_data option"
  vn_jd :: "string \<Rightarrow> int option"
  vn_vault :: vault

section \<open>Building blocks\<close>

definition db_act :: "(env \<Rightarrow> db \<Rightarrow> 'a \<times> db) \<Rightarrow> 'a pay_job" where
  "db_act f = act (\<lambda>m w. (fst (f (mo_env m) (w_db w)), w\<lparr>w_db := snd (f (mo_env m) (w_db w))\<rparr>))"

definition db_get :: "(env \<Rightarrow> db \<Rightarrow> 'a) \<Rightarrow> 'a pay_job" where
  "db_get f = act (\<lambda>m w. (f (mo_env m) (w_db w), w))"

definition moment_now :: "moment pay_job" where
  "moment_now = act (\<lambda>m w. (m, w))"

definition local_act :: "nat \<Rightarrow> (moment \<Rightarrow> local \<Rightarrow> 'a \<times> local) \<Rightarrow> 'a pay_job" where
  "local_act p f = act (\<lambda>m w. (fst (f m (w_local w p)), w\<lparr>w_local := (w_local w)(p := snd (f m (w_local w p)))\<rparr>))"

definition store :: "(err + 'a) pay_job \<Rightarrow> (svc_err + 'a) pay_job" where
  "store m = andthen m (\<lambda>r. Done (case r of Inl x \<Rightarrow> Inl (StoreErr x) | Inr a \<Rightarrow> Inr a))"

definition failed :: "provider_error option \<Rightarrow> svc_err" where
  "failed p = (case p of None \<Rightarrow> Interrupted | Some f \<Rightarrow> ProviderErr f)"

definition ask_create :: "credentials \<Rightarrow> create_request \<Rightarrow> (svc_err + create_response) pay_job" where
  "ask_create k q = andthen (ask (QCreate k q)) (\<lambda>a. Done (case a of Created p \<Rightarrow> Inr p | Failed f \<Rightarrow> Inl (failed f) | _ \<Rightarrow> Inl Interrupted))"

definition ask_get :: "credentials \<Rightarrow> int \<Rightarrow> (svc_err + payment_link) pay_job" where
  "ask_get k code = andthen (ask (QGet k code)) (\<lambda>a. Done (case a of Link l \<Rightarrow> Inr l | Failed f \<Rightarrow> Inl (failed f) | _ \<Rightarrow> Inl Interrupted))"

definition ask_cancel :: "credentials \<Rightarrow> int \<Rightarrow> (svc_err + payment_link) pay_job" where
  "ask_cancel k code = andthen (ask (QCancel k code)) (\<lambda>a. Done (case a of Link l \<Rightarrow> Inr l | Failed f \<Rightarrow> Inl (failed f) | _ \<Rightarrow> Inl Interrupted))"

definition ask_confirm :: "credentials \<Rightarrow> string \<Rightarrow> (svc_err + string) pay_job" where
  "ask_confirm k url = andthen (ask (QConfirm k url)) (\<lambda>a. Done (case a of Confirmed u \<Rightarrow> Inr u | Failed f \<Rightarrow> Inl (failed f) | _ \<Rightarrow> Inl Interrupted))"

definition wait_until :: "instant \<Rightarrow> (svc_err + unit) pay_job" where
  "wait_until at = andthen (ask (QWait at)) (\<lambda>a. Done (case a of Elapsed \<Rightarrow> Inr () | _ \<Rightarrow> Inl Interrupted))"

section \<open>The service\<close>

text \<open>
  A service that is not managed works with the credentials and flags it was built with; a managed one reads
  them from the database and works through a snapshot, whose provider was built for the revision it keeps.
\<close>

record service =
  sv_process :: nat
  sv_client :: string
  sv_api :: string
  sv_checksum :: string
  sv_enabled :: bool
  sv_confirmed :: bool
  sv_provider :: "credentials option"
  sv_namespace :: string
  sv_managed :: bool
  sv_snapshot :: bool
  sv_revision :: int
  sv_origin :: string
  sv_max :: int
  sv_vendor :: vendor

definition provider_keys :: "service \<Rightarrow> credentials" where
  "provider_keys sv = (case sv_provider sv of None \<Rightarrow> no_credentials | Some k \<Rightarrow> k)"

definition new_service :: "env \<Rightarrow> nat \<Rightarrow> credentials \<Rightarrow> bool \<Rightarrow> bool \<Rightarrow> credentials option \<Rightarrow> string \<Rightarrow> int \<Rightarrow> vendor \<Rightarrow> service" where
  "new_service e p keys enabled confirmed provider origin max_vnd vendor =
     \<lparr>sv_process = p, sv_client = cr_client keys, sv_api = cr_api keys, sv_checksum = cr_checksum keys, sv_enabled = enabled,
      sv_confirmed = confirmed, sv_provider = provider, sv_namespace = sha_hex16 e (cr_client keys), sv_managed = False,
      sv_snapshot = False, sv_revision = 0, sv_origin = origin, sv_max = max_vnd, sv_vendor = vendor\<rparr>"

definition new_managed_service :: "env \<Rightarrow> nat \<Rightarrow> string \<Rightarrow> int \<Rightarrow> vendor \<Rightarrow> service" where
  "new_managed_service e p origin max_vnd vendor =
     (new_service e p no_credentials False False None origin max_vnd vendor)\<lparr>sv_managed := True\<rparr>"

text \<open>\<open>NewPayOS\<close> refuses incomplete credentials; the library's own refusal is \<open>vn_client\<close>.\<close>

definition new_payos :: "vendor \<Rightarrow> credentials \<Rightarrow> bool" where
  "new_payos v k \<longleftrightarrow> cr_client k \<noteq> [] \<and> cr_api k \<noteq> [] \<and> cr_checksum k \<noteq> [] \<and> vn_client v k"

definition snapshot_of :: "service \<Rightarrow> provider_config \<Rightarrow> credentials option \<Rightarrow> string \<Rightarrow> service" where
  "snapshot_of sv saved provider namespace = sv\<lparr>
     sv_client := cr_client (pv_credentials saved), sv_api := cr_api (pv_credentials saved), sv_checksum := cr_checksum (pv_credentials saved),
     sv_enabled := pv_enabled saved, sv_confirmed := pv_confirmed saved, sv_provider := provider, sv_namespace := namespace,
     sv_managed := False, sv_snapshot := True, sv_revision := pv_revision saved\<rparr>"

definition build_provider :: "service \<Rightarrow> provider_config \<Rightarrow> moment \<Rightarrow> local \<Rightarrow> (svc_err + service) \<times> local" where
  "build_provider sv saved m l =
     (if \<not> new_payos (sv_vendor sv) (pv_credentials saved) then (Inl ErrPaymentUnavailable, l)
      else let ns = sha_hex16 (mo_env m) (cr_client (pv_credentials saved)) in
        (Inr (snapshot_of sv saved (Some (pv_credentials saved)) ns), l\<lparr>lc_cache := Some (pv_revision saved, pv_credentials saved, ns)\<rparr>))"

definition take_snapshot :: "service \<Rightarrow> provider_config \<Rightarrow> moment \<Rightarrow> local \<Rightarrow> (svc_err + service) \<times> local" where
  "take_snapshot sv saved m l =
     (if cr_client (pv_credentials saved) = [] then (Inr (snapshot_of sv saved None []), l)
      else case lc_cache l of
        Some (revision, keys, ns) \<Rightarrow>
          if revision = pv_revision saved then (Inr (snapshot_of sv saved (Some keys) ns), l) else build_provider sv saved m l
      | None \<Rightarrow> build_provider sv saved m l)"

definition snapshot :: "service \<Rightarrow> provider_config \<Rightarrow> (svc_err + service) pay_job" where
  "snapshot sv saved = local_act (sv_process sv) (take_snapshot sv saved)"

definition resolve :: "service \<Rightarrow> (svc_err + service) pay_job" where
  "resolve sv = andthen (db_get (\<lambda>e. read_provider_config (vn_vault (sv_vendor sv)))) (\<lambda>r. case r of
     Inl _ \<Rightarrow> Done (Inl ErrPaymentUnavailable) | Inr saved \<Rightarrow> snapshot sv saved)"

text \<open>
  \<open>pin\<close>: the operation is admitted in the database, runs on its snapshot under a context that carries the
  token, and ends.  The renewal of the admission runs beside it (\<open>renew_admission\<close>).
\<close>

definition with_token :: "string \<Rightarrow> 'a pay_job \<Rightarrow> 'a pay_job" where
  "with_token token = with_env (\<lambda>m. m\<lparr>mo_env := (mo_env m)\<lparr>e_op := token\<rparr>\<rparr>)"

definition end_admission :: "string \<Rightarrow> unit pay_job" where
  "end_admission token = db_act (\<lambda>e s. ((), end_operation token s))"

definition pin :: "service \<Rightarrow> (svc_err \<Rightarrow> 'a pay_job) \<Rightarrow> (service \<Rightarrow> 'a pay_job) \<Rightarrow> 'a pay_job" where
  "pin sv refused f =
     andthen (db_act (begin_operation (vn_vault (sv_vendor sv)))) (\<lambda>r. case r of
       Inl _ \<Rightarrow> refused ErrPaymentUnavailable
     | Inr (saved, token) \<Rightarrow>
         andthen (snapshot sv saved) (\<lambda>r2. case r2 of
           Inl x \<Rightarrow> andthen (end_admission token) (\<lambda>_. refused x)
         | Inr op \<Rightarrow> andthen (with_token token (f op)) (\<lambda>a. andthen (end_admission token) (\<lambda>_. Done a))))"

definition renew_admission :: "string \<Rightarrow> (svc_err + unit) pay_job" where
  "renew_admission token = store (db_act (\<lambda>e. renew_operation e token))"

text \<open>\<open>Config().Status\<close>.\<close>

definition config_status :: "service \<Rightarrow> string" where
  "config_status sv =
     (if sv_client sv = [] \<or> sv_api sv = [] \<or> sv_checksum sv = [] then ''UNCONFIGURED''
      else if \<not> sv_enabled sv then ''DISABLED''
      else if \<not> sv_confirmed sv then ''WEBHOOK_UNCONFIRMED''
      else if sv_provider sv = None then ''UNAVAILABLE''
      else ''READY'')"

definition service_status :: "service \<Rightarrow> string pay_job" where
  "service_status sv =
     (if sv_managed sv then andthen (resolve sv) (\<lambda>r. Done (case r of Inl _ \<Rightarrow> ''UNAVAILABLE'' | Inr op \<Rightarrow> config_status op))
      else Done (config_status sv))"

section \<open>Admission and slots\<close>

definition begin_payment_request :: "service \<Rightarrow> (svc_err + unit) pay_job" where
  "begin_payment_request sv = act (\<lambda>m w.
     let l = w_local w (sv_process sv) in
     if lc_quiesced l \<or> sv_provider sv = None then (Inl ErrPaymentUnavailable, w)
     else case check_mutation_allowed (mo_env m) (w_db w) of
       Inl x \<Rightarrow> (Inl (StoreErr x), w)
     | Inr _ \<Rightarrow> (Inr (), w\<lparr>w_local := (w_local w)(sv_process sv := l\<lparr>lc_active := lc_active l + 1\<rparr>)\<rparr>))"

definition end_payment_request :: "service \<Rightarrow> unit pay_job" where
  "end_payment_request sv = local_act (sv_process sv) (\<lambda>_ l. ((), l\<lparr>lc_active := lc_active l - 1\<rparr>))"

text \<open>\<open>defer s.endPaymentRequest()\<close>.\<close>

definition counted_request :: "service \<Rightarrow> 'a pay_job \<Rightarrow> 'a pay_job" where
  "counted_request sv f = andthen f (\<lambda>a. andthen (end_payment_request sv) (\<lambda>_. Done a))"

definition mutation_allowed :: "(svc_err + unit) pay_job" where
  "mutation_allowed = store (db_get check_mutation_allowed)"

definition provider_slot :: "service \<Rightarrow> (svc_err + unit) pay_job" where
  "provider_slot sv =
     (if sv_snapshot sv then
        attempt (store (db_act request_slot)) (\<lambda>at.
        andthen moment_now (\<lambda>m.
        attempt (if e_now (mo_env m) < at then wait_until at else Done (Inr ())) (\<lambda>_. mutation_allowed)))
      else
        attempt (local_act (sv_process sv) (\<lambda>m l.
          if lc_quiesced l then (Inl ErrPaymentUnavailable, l)
          else let at = (if lc_next l < e_now (mo_env m) then e_now (mo_env m) else lc_next l) in
            (Inr at, l\<lparr>lc_next := at + second\<rparr>))) (\<lambda>at.
        andthen moment_now (\<lambda>m.
        attempt (if e_now (mo_env m) < at then wait_until at else Done (Inr ())) (\<lambda>_.
        attempt (local_act (sv_process sv) (\<lambda>_ l. (if lc_quiesced l then Inl ErrPaymentUnavailable else Inr (), l))) (\<lambda>_.
        mutation_allowed)))))"

text \<open>The wake-up of the reconciler of this process: a channel that holds one.\<close>

definition wake_reconciler :: "service \<Rightarrow> unit pay_job" where
  "wake_reconciler sv = local_act (sv_process sv) (\<lambda>_ l. ((), l\<lparr>lc_wake := True\<rparr>))"

definition publish_settlement :: "settlement_result \<Rightarrow> unit pay_job" where
  "publish_settlement res = act (\<lambda>_ w. ((), case sr_event res of None \<Rightarrow> w | Some n \<Rightarrow> w\<lparr>w_published := w_published w @ [n]\<rparr>))"

section \<open>Activity\<close>

text \<open>internal/storage/payment_activity.go.\<close>

definition activity_key :: "env \<Rightarrow> string \<Rightarrow> string \<Rightarrow> string" where
  "activity_key e channel kind = ''PAYOS_ACTIVITY:'' @ sha_hex16 e channel @ '':'' @ kind"

definition record_payment_activity :: "env \<Rightarrow> string \<Rightarrow> string \<Rightarrow> db \<Rightarrow> (err + unit) \<times> db" where
  "record_payment_activity e channel kind s =
     (if channel = [] \<or> (kind \<noteq> ''WEBHOOK'' \<and> kind \<noteq> ''RECONCILED'') then (Inl (ErrText ''invalid payment activity''), s)
      else let key = activity_key e channel kind in
        (Inr (), if \<exists>v\<in>set (db_system s). se_id v = key
           then s\<lparr>db_system := update_where (\<lambda>v. se_id v = key) (\<lambda>v. v\<lparr>se_created := now_text e\<rparr>) (db_system s)\<rparr>
           else s\<lparr>db_system := db_system s @ [\<lparr>se_id = key, se_type = ''PAYOS_'' @ kind, se_created = now_text e\<rparr>]\<rparr>))"

record activity =
  ac_webhook :: "string option"
  ac_reconciled :: "string option"
  ac_pending :: nat
  ac_reviews :: nat

definition payment_activity :: "env \<Rightarrow> string \<Rightarrow> db \<Rightarrow> activity" where
  "payment_activity e channel s =
     (let seen = (\<lambda>kind. case find (\<lambda>v. se_id v = activity_key e channel kind) (db_system s) of
          None \<Rightarrow> None | Some v \<Rightarrow> if se_created v = [] then None else Some (se_created v)) in
      \<lparr>ac_webhook = seen ''WEBHOOK'', ac_reconciled = seen ''RECONCILED'',
       ac_pending = count_where (\<lambda>r. o_channel r = channel \<and> o_status r \<in> {''CREATING'', ''PENDING'', ''PROCESSING'', ''UNDERPAID''}) (db_orders s),
       ac_reviews = count_where (\<lambda>i. ib_processed i = []) (db_inbox s) +
         count_where (\<lambda>r. o_channel r = channel \<and> o_error r \<noteq> []) (db_orders s)\<rparr>)"

definition record_activity :: "service \<Rightarrow> string \<Rightarrow> unit pay_job" where
  "record_activity sv kind = andthen (db_act (\<lambda>e. record_payment_activity e (sv_client sv) kind)) (\<lambda>_. Done ())"

section \<open>Creating an order\<close>

text \<open>The order, whether it is new, and the error.\<close>

type_synonym created = "order option \<times> bool \<times> svc_err option"

definition create_request_for :: "service \<Rightarrow> order \<Rightarrow> instant \<Rightarrow> create_request" where
  "create_request_for sv r expires = (let url = sv_origin sv @ ''/pay/'' @ o_id r in
     \<lparr>cq_code = o_code r, cq_amount = o_amount r, cq_description = o_description r, cq_return = url, cq_cancel = url,
      cq_expired = expires div second\<rparr>)"

definition pending_update :: "create_response \<Rightarrow> instant \<Rightarrow> order_update" where
  "pending_update p now = no_update\<lparr>ou_status := ''PENDING'', ou_link := rp_link p, ou_qr := rp_qr p, ou_checkout := rp_checkout p,
     ou_bin := rp_bin p, ou_account := rp_account p, ou_account_name := rp_account_name p, ou_next := now + 60 * second\<rparr>"

text \<open>What is recorded of the answer to the first Create, at the time \<open>now\<close>.\<close>

definition create_outcome :: "order \<Rightarrow> instant \<Rightarrow> svc_err + create_response \<Rightarrow> instant \<Rightarrow> order_update" where
  "create_outcome r lease answer now =
     (let u = no_update\<lparr>ou_status := ''CREATING'', ou_next := lease\<rparr> in
      case answer of
        Inl x \<Rightarrow>
          (let u1 = u\<lparr>ou_error := (case rejected_create x of None \<Rightarrow> ''CREATE_OUTCOME_UNKNOWN'' | Some c \<Rightarrow> c)\<rparr> in
           case x of ProviderErr f \<Rightarrow> if lease < now + pe_retry f then u1\<lparr>ou_next := now + pe_retry f\<rparr> else u1 | _ \<Rightarrow> u1)
      | Inr p \<Rightarrow> if \<not> valid_create_response r p then u\<lparr>ou_error := ''INVALID_CREATE_RESPONSE''\<rparr> else pending_update p now)"

definition persist_created :: "order \<Rightarrow> order_update \<Rightarrow> created pay_job" where
  "persist_created r u =
     andthen (db_act (\<lambda>e. complete_payment_order_operation e (o_id r) (o_token r) u)) (\<lambda>res. case res of
       Inr r' \<Rightarrow> Done (Some r', True, None)
     | Inl x \<Rightarrow>
         if x = ErrPaymentOperationLost
         then andthen (db_get (\<lambda>_. payment_order (o_id r))) (\<lambda>found. Done (case found of
             Inl _ \<Rightarrow> (Some r, True, Some ErrPaymentUnavailable) | Inr r' \<Rightarrow> (Some r', True, None)))
         else Done (Some r, True, Some ErrPaymentUnavailable))"

definition create_new :: "service \<Rightarrow> order \<Rightarrow> created pay_job" where
  "create_new sv r =
     (case parse_nano (o_expires r) of
        None \<Rightarrow> Done (Some r, True, Some ErrPaymentUnavailable)
      | Some expires \<Rightarrow>
          andthen (ask_create (provider_keys sv) (create_request_for sv r expires)) (\<lambda>answer.
          case parse_nano (o_lease r) of
            None \<Rightarrow> Done (Some r, True, Some ErrPaymentUnavailable)
          | Some lease \<Rightarrow> andthen moment_now (\<lambda>m. persist_created r (create_outcome r lease answer (e_now (mo_env m))))))"

definition reserve_act :: "order_intent \<Rightarrow> (err + (order \<times> bool)) pay_job" where
  "reserve_act intent = act (\<lambda>m w. let (r, s') = reserve_payment_order (mo_env m) (mo_draws m) intent (w_db w) in (r, w\<lparr>w_db := s'\<rparr>))"

definition reserve_and_create :: "service \<Rightarrow> order_intent \<Rightarrow> created pay_job" where
  "reserve_and_create sv intent =
     andthen (reserve_act intent) (\<lambda>res. case res of
       Inl x \<Rightarrow> Done (None, False, Some (if x = ErrPaymentIdempotencyConflict then ErrIdempotencyConflict else ErrPaymentUnavailable))
     | Inr (r, fresh) \<Rightarrow> if \<not> fresh then Done (Some r, False, None) else create_new sv r)"

definition closed_error :: "string \<Rightarrow> svc_err option" where
  "closed_error status = (if status = ''DISABLED'' then Some ErrPaymentsDisabled
     else if status = ''WEBHOOK_UNCONFIRMED'' then Some ErrWebhookUnconfirmed
     else if status = ''READY'' then None else Some ErrPaymentUnavailable)"

definition invalid_intent :: "service \<Rightarrow> int \<Rightarrow> string \<Rightarrow> string \<Rightarrow> svc_err option" where
  "invalid_intent sv amount origin key =
     (if amount < 1 \<or> sv_max sv < amount \<or> max_safe_integer < amount then Some ErrInvalidAmount
      else if origin \<noteq> ''STATIC_URL'' \<and> origin \<noteq> ''OPERATOR_DYNAMIC'' then Some ErrInvalidOrigin
      else if \<not> canonical_uuid key then Some ErrInvalidIdempotencyKey
      else None)"

definition create_on :: "service \<Rightarrow> int \<Rightarrow> string \<Rightarrow> string \<Rightarrow> created pay_job" where
  "create_on sv amount origin key =
     (case invalid_intent sv amount origin key of
        Some x \<Rightarrow> Done (None, False, Some x)
      | None \<Rightarrow>
          andthen (db_get (\<lambda>e s. (payment_request_hash e amount origin, payment_order_by_key (sv_client sv) key s))) (\<lambda>(hash, found).
          case found of
            Inr r \<Rightarrow> Done (if o_hash r \<noteq> hash then (None, False, Some ErrIdempotencyConflict) else (Some r, False, None))
          | Inl x \<Rightarrow>
              if x \<noteq> ErrNoRows then Done (None, False, Some ErrPaymentUnavailable)
              else case closed_error (config_status sv) of
                Some c \<Rightarrow> Done (None, False, Some c)
              | None \<Rightarrow>
                  andthen (begin_payment_request sv) (\<lambda>b. case b of
                    Inl _ \<Rightarrow> Done (None, False, Some ErrPaymentUnavailable)
                  | Inr _ \<Rightarrow> counted_request sv (reserve_and_create sv \<lparr>oi_channel = sv_client sv, oi_key = key, oi_hash = hash,
                      oi_amount = amount, oi_origin = origin\<rparr>))))"

definition create_order :: "service \<Rightarrow> int \<Rightarrow> string \<Rightarrow> string \<Rightarrow> created pay_job" where
  "create_order sv amount origin key =
     (if sv_managed sv then pin sv (\<lambda>x. Done (None, False, Some x)) (\<lambda>op. create_on op amount origin key)
      else create_on sv amount origin key)"

text \<open>\<open>ExistingOrderIntent\<close>: the order, whether it exists, and the error.\<close>

definition existing_on :: "service \<Rightarrow> int \<Rightarrow> string \<Rightarrow> string \<Rightarrow> created pay_job" where
  "existing_on sv amount origin key =
     (case invalid_intent sv amount origin key of
        Some x \<Rightarrow> Done (None, False, Some x)
      | None \<Rightarrow>
          andthen (db_get (\<lambda>e s. (payment_request_hash e amount origin, payment_order_by_key (sv_client sv) key s))) (\<lambda>(hash, found). Done (
          case found of
            Inl x \<Rightarrow> if x = ErrNoRows then (None, False, None) else (None, False, Some ErrPaymentUnavailable)
          | Inr r \<Rightarrow> if o_hash r \<noteq> hash then (None, False, Some ErrIdempotencyConflict) else (Some r, True, None))))"

definition existing_order_intent :: "service \<Rightarrow> int \<Rightarrow> string \<Rightarrow> string \<Rightarrow> created pay_job" where
  "existing_order_intent sv amount origin key =
     (if sv_managed sv then andthen (resolve sv) (\<lambda>r. case r of Inl x \<Rightarrow> Done (None, False, Some x) | Inr op \<Rightarrow> existing_on op amount origin key)
      else existing_on sv amount origin key)"

text \<open>\<open>Order\<close> and \<open>Orders\<close> read committed state only.\<close>

definition read_order :: "service \<Rightarrow> string \<Rightarrow> (svc_err + order) pay_job" where
  "read_order sv i = db_get (\<lambda>_ s. case payment_order i s of
     Inl x \<Rightarrow> Inl (if x = ErrNoRows then ErrPaymentNotFound else ErrPaymentUnavailable)
   | Inr r \<Rightarrow> if \<not> sv_managed sv \<and> o_channel r \<noteq> sv_client sv then Inl ErrPaymentNotFound else Inr r)"

definition read_orders :: "service \<Rightarrow> string \<Rightarrow> string \<Rightarrow> int \<Rightarrow> (svc_err + order page) pay_job" where
  "read_orders sv status cursor limit = store (db_get (\<lambda>_.
     list_payment_orders \<lparr>of_channel = (if sv_managed sv then [] else sv_client sv), of_status = status, of_cursor = cursor, of_limit = limit\<rparr>))"

section \<open>Settling what a link proves\<close>

definition stored_time :: "string \<Rightarrow> instant option" where
  "stored_time s = (case (case parse_nano s of Some t \<Rightarrow> Some t | None \<Rightarrow> parse_rfc3339 s) of
     Some t \<Rightarrow> if t = zero_time then None else Some t | None \<Rightarrow> None)"

definition matching_callback :: "vendor \<Rightarrow> settlement_input \<Rightarrow> inbox_row \<Rightarrow> bool" where
  "matching_callback v inp i = (case vn_decode v (ib_payload i) of None \<Rightarrow> False | Some c \<Rightarrow> callback_matches_settlement c inp)"

definition earlier :: "instant option \<Rightarrow> instant option \<Rightarrow> instant option" where
  "earlier a b = (case (a, b) of (Some x, Some y) \<Rightarrow> Some (if y < x then y else x) | (None, y) \<Rightarrow> y | (x, None) \<Rightarrow> x)"

definition earliest_received :: "inbox_row list \<Rightarrow> instant option" where
  "earliest_received items = foldl (\<lambda>t i. earlier t (stored_time (ib_received i))) None items"

text \<open>A payment whose callback came at most 30 seconds ago counts as seen in real time.\<close>

definition seen_at :: "instant option \<Rightarrow> instant \<Rightarrow> settlement_input \<Rightarrow> settlement_input" where
  "seen_at received now inp = (case received of
     Some t \<Rightarrow> if 0 \<le> now - t \<and> now - t \<le> 30 * second then inp\<lparr>si_source := ''REALTIME'', si_detected := t\<rparr>
       else inp\<lparr>si_source := ''CATCH_UP'', si_detected := zero_time\<rparr>
   | None \<Rightarrow> inp\<lparr>si_source := ''CATCH_UP'', si_detected := zero_time\<rparr>)"

text \<open>Each matching callback is settled in turn; the first error or review ends the loop.\<close>

fun settle_items :: "settlement_input \<Rightarrow> instant option \<Rightarrow> inbox_row list \<Rightarrow> settlement_result \<Rightarrow> event_note option \<Rightarrow>
    (svc_err + settlement_result) pay_job" where
  "settle_items inp received [] res event = Done (Inr (res\<lparr>sr_event := event\<rparr>))"
| "settle_items inp received (i # items) res event =
     andthen moment_now (\<lambda>m.
     andthen (store (db_act (\<lambda>e. settle_payment e (seen_at received (e_now (mo_env m)) (inp\<lparr>si_inbox := ib_hash i\<rparr>))))) (\<lambda>r. case r of
       Inl x \<Rightarrow> Done (Inl x)
     | Inr out \<Rightarrow>
         if sr_review out \<noteq> [] then Done (Inr out)
         else settle_items inp received items out (case sr_event out of None \<Rightarrow> event | Some n \<Rightarrow> Some n)))"

definition settle_verified_link :: "service \<Rightarrow> order \<Rightarrow> payment_link \<Rightarrow> (svc_err + settlement_result) pay_job" where
  "settle_verified_link sv r l =
     (case verified_link_settlement r l of
        Inl x \<Rightarrow> Done (Inl x)
      | Inr inp0 \<Rightarrow>
          let inp = inp0\<lparr>si_namespace := sv_namespace sv\<rparr> in
          andthen (db_get (\<lambda>_. pending_payment_callbacks (o_code r))) (\<lambda>items.
          let fitting = filter (matching_callback (sv_vendor sv) inp) items in
          if fitting \<noteq> [] then settle_items inp (earliest_received fitting) fitting no_result None
          else if items \<noteq> [] then Done (Inl details_pending)
          else store (db_act (\<lambda>e. settle_payment e (inp\<lparr>si_source := ''CATCH_UP'', si_detected := zero_time\<rparr>)))))"

section \<open>Provider calls under a claim\<close>

definition renew_claim :: "order \<Rightarrow> bool \<Rightarrow> (svc_err + order) pay_job" where
  "renew_claim r attempted = store (db_act (\<lambda>e. renew_payment_order_operation e (o_id r) (o_token r) attempted))"

definition get_claimed_link :: "service \<Rightarrow> order \<Rightarrow> (svc_err + payment_link) pay_job" where
  "get_claimed_link sv r =
     attempt (provider_slot sv) (\<lambda>_.
     attempt (renew_claim r False) (\<lambda>_.
     attempt (ask_get (provider_keys sv) (o_code r)) (\<lambda>l.
     andthen (record_activity sv ''RECONCILED'') (\<lambda>_. Done (Inr l)))))"

definition cancel_claimed_link :: "service \<Rightarrow> order \<Rightarrow> (svc_err + payment_link) pay_job" where
  "cancel_claimed_link sv r =
     attempt (provider_slot sv) (\<lambda>_.
     attempt (renew_claim r False) (\<lambda>_.
     ask_cancel (provider_keys sv) (o_code r)))"

definition finish_reconcile :: "order \<Rightarrow> order_update \<Rightarrow> (svc_err + unit) pay_job" where
  "finish_reconcile r u =
     andthen (db_act (\<lambda>e. complete_payment_order_operation e (o_id r) (o_token r) u)) (\<lambda>res. Done (case res of
       Inr _ \<Rightarrow> Inr () | Inl x \<Rightarrow> if x = ErrPaymentOperationLost then Inr () else Inl (StoreErr x)))"

definition finish_failed :: "order \<Rightarrow> svc_err option \<Rightarrow> string \<Rightarrow> (svc_err + unit) pay_job" where
  "finish_failed r failure code =
     andthen moment_now (\<lambda>m. finish_reconcile r (failure_update r failure code (mo_jitter m) (e_now (mo_env m))))"

text \<open>Neither Cancel nor Get settled the matter: the later of the two retry times counts.\<close>

definition err_of :: "svc_err + 'a \<Rightarrow> svc_err option" where
  "err_of r = (case r of Inl x \<Rightarrow> Some x | Inr _ \<Rightarrow> None)"

definition finish_undecided :: "order \<Rightarrow> svc_err option \<Rightarrow> svc_err option \<Rightarrow> string \<Rightarrow> (svc_err + unit) pay_job" where
  "finish_undecided r cancel_err get_err code =
     andthen moment_now (\<lambda>m1.
     andthen moment_now (\<lambda>m2.
     let u = failure_update r cancel_err code (mo_jitter m1) (e_now (mo_env m1));
         g = failure_update r get_err code (mo_jitter m2) (e_now (mo_env m2))
     in finish_reconcile r (if ou_next u < ou_next g then u\<lparr>ou_next := ou_next g\<rparr> else u)))"

definition link_in :: "order \<Rightarrow> string set \<Rightarrow> svc_err + payment_link \<Rightarrow> bool" where
  "link_in r states a = (case a of Inl _ \<Rightarrow> False | Inr l \<Rightarrow> verified_link_matches r l \<and> pl_status l \<in> states)"

text \<open>
  Cancel, and when its answer does not prove the end of the link, a Get: a proof goes to \<open>proved\<close>, otherwise
  the operation ends undecided with \<open>code\<close>.
\<close>

definition cancel_then_get ::
  "service \<Rightarrow> order \<Rightarrow> string \<Rightarrow> (payment_link \<Rightarrow> (svc_err + unit) pay_job) \<Rightarrow> (svc_err + unit) pay_job" where
  "cancel_then_get sv r code proved =
     andthen (cancel_claimed_link sv r) (\<lambda>c.
     if link_in r {''CANCELLED'', ''EXPIRED''} c then (case c of Inr l \<Rightarrow> proved l | Inl x \<Rightarrow> Done (Inl x))
     else andthen (get_claimed_link sv r) (\<lambda>g.
       if link_in r {''PAID'', ''CANCELLED'', ''EXPIRED''} g then (case g of Inr l \<Rightarrow> proved l | Inl x \<Rightarrow> Done (Inl x))
       else finish_undecided r (err_of c) (err_of g) code))"

section \<open>Cancelling\<close>

definition finish_settled :: "order \<Rightarrow> settlement_result \<Rightarrow> (svc_err + unit) pay_job" where
  "finish_settled r out = andthen (publish_settlement out) (\<lambda>_. andthen (finish_reconcile r no_update) (\<lambda>_. Done (Inr ())))"

definition complete_cancellation :: "service \<Rightarrow> order \<Rightarrow> payment_link \<Rightarrow> (svc_err + unit) pay_job" where
  "complete_cancellation sv r l =
     (if pl_status l = ''PAID'' then
        andthen (settle_verified_link sv r l) (\<lambda>res. case res of
          Inl x \<Rightarrow> if is_settlement_review x then finish_failed r None ''PAYMENT_DETAILS_PENDING'' else Done (Inl x)
        | Inr out \<Rightarrow> if sr_review out \<noteq> [] then finish_failed r None ''PAYMENT_DETAILS_PENDING'' else finish_settled r out)
      else andthen moment_now (\<lambda>m. finish_reconcile r (no_update\<lparr>ou_status := pl_status l, ou_link := pl_id l,
        ou_next := terminal_reconcile_at r (e_now (mo_env m)), ou_reset := True\<rparr>)))"

definition reconcile_cancellation :: "service \<Rightarrow> order \<Rightarrow> (svc_err + unit) pay_job" where
  "reconcile_cancellation sv r = cancel_then_get sv r ''CANCEL_OUTCOME_UNKNOWN'' (complete_cancellation sv r)"

text \<open>The order that the caller sees, and the error.\<close>

type_synonym cancelled = "order option \<times> svc_err option"

definition read_back :: "order \<Rightarrow> string \<Rightarrow> cancelled pay_job" where
  "read_back r i = db_get (\<lambda>_ s. case payment_order i s of
     Inl _ \<Rightarrow> (Some r, Some ErrPaymentUnavailable)
   | Inr r' \<Rightarrow> (Some r', if o_status r' = ''PAID'' then Some ErrPaymentAlreadyPaid else None))"

definition cancel_claimed :: "service \<Rightarrow> string \<Rightarrow> order \<Rightarrow> cancelled pay_job" where
  "cancel_claimed sv i r0 =
     andthen (db_act (\<lambda>e. claim_payment_order e i (e_now e))) (\<lambda>res. case res of
       Inl x \<Rightarrow> Done (None, Some (StoreErr x))
     | Inr (r, claimed) \<Rightarrow>
         if o_status r = ''PAID'' then Done (Some r, Some ErrPaymentAlreadyPaid)
         else if \<not> claimed then Done (Some r, None)
         else andthen (cancel_then_get sv r ''CANCEL_OUTCOME_UNKNOWN'' (complete_cancellation sv r)) (\<lambda>done. case done of
           Inl x \<Rightarrow> Done (Some r, Some x)
         | Inr _ \<Rightarrow> read_back r i))"

definition cancel_on :: "service \<Rightarrow> string \<Rightarrow> cancelled pay_job" where
  "cancel_on sv i =
     andthen (db_get (\<lambda>_. payment_order i)) (\<lambda>found. case found of
       Inl x \<Rightarrow> Done (None, Some (if x = ErrNoRows then ErrPaymentNotFound else ErrPaymentUnavailable))
     | Inr r \<Rightarrow>
         if o_channel r \<noteq> sv_client sv then Done (None, Some ErrPaymentNotFound)
         else if o_status r = ''PAID'' then Done (Some r, Some ErrPaymentAlreadyPaid)
         else andthen (begin_payment_request sv) (\<lambda>b. case b of
           Inl x \<Rightarrow> Done (Some r, Some x)
         | Inr _ \<Rightarrow> counted_request sv (cancel_claimed sv i r)))"

definition cancel_order :: "service \<Rightarrow> string \<Rightarrow> cancelled pay_job" where
  "cancel_order sv i =
     (if sv_managed sv then pin sv (\<lambda>x. Done (None, Some x)) (\<lambda>op. cancel_on op i) else cancel_on sv i)"

section \<open>Reconciling\<close>

definition apply_paid :: "service \<Rightarrow> order \<Rightarrow> payment_link \<Rightarrow> (svc_err + unit) pay_job" where
  "apply_paid sv r l =
     andthen (settle_verified_link sv r l) (\<lambda>res. case res of
       Inr out \<Rightarrow> if sr_review out = [] then finish_settled r out else finish_failed r None ''PAYMENT_DETAILS_PENDING''
     | Inl x \<Rightarrow> finish_failed r (if is_settlement_review x then None else Some x) ''PAYMENT_DETAILS_PENDING'')"

definition closed_update :: "order \<Rightarrow> payment_link \<Rightarrow> instant \<Rightarrow> order_update" where
  "closed_update r l now = no_update\<lparr>ou_status := pl_status l, ou_link := pl_id l,
     ou_error := (if o_qr_recovery r \<and> o_qr r = [] \<and> pl_status l = ''CANCELLED'' then ''QR_RECOVERY_CANCELLED'' else []),
     ou_next := terminal_reconcile_at r now, ou_reset := True\<rparr>"

text \<open>
  \<open>applyVerifiedLink\<close>; what happens to a link that is still open is the argument \<open>still_open\<close>, because the
  recovery of an order comes back here with links that are not.
\<close>

definition apply_link ::
  "service \<Rightarrow> (order \<Rightarrow> payment_link \<Rightarrow> (svc_err + unit) pay_job) \<Rightarrow> order \<Rightarrow> payment_link \<Rightarrow> (svc_err + unit) pay_job" where
  "apply_link sv still_open r l =
     (if \<not> verified_link_matches r l then finish_failed r None ''PAYMENT_MISMATCH''
      else if pl_status l = ''PAID'' then apply_paid sv r l
      else if pl_status l \<in> {''PENDING'', ''PROCESSING'', ''UNDERPAID''} then still_open r l
      else if pl_status l \<in> {''CANCELLED'', ''EXPIRED'', ''FAILED''}
      then andthen moment_now (\<lambda>m. finish_reconcile r (closed_update r l (e_now (mo_env m))))
      else finish_failed r None ''PAYMENT_DETAILS_PENDING'')"

definition keep_open :: "order \<Rightarrow> payment_link \<Rightarrow> (svc_err + unit) pay_job" where
  "keep_open r l = andthen moment_now (\<lambda>m. finish_reconcile r (no_update\<lparr>ou_status := pl_status l, ou_link := pl_id l,
     ou_next := e_now (mo_env m) + 60 * second, ou_reset := True\<rparr>))"

definition recover_cancel :: "service \<Rightarrow> order \<Rightarrow> (svc_err + unit) pay_job" where
  "recover_cancel sv r = cancel_then_get sv r ''QR_RECOVERY_CANCEL_PENDING'' (apply_link sv keep_open r)"

text \<open>\<open>recoverCreate\<close>: the answer to the repeated Create, the order under its renewed claim, and the whole.\<close>

definition recovered :: "service \<Rightarrow> order \<Rightarrow> bool \<Rightarrow> svc_err + create_response \<Rightarrow> (svc_err + unit) pay_job" where
  "recovered sv r known a =
     (if (case a of Inl _ \<Rightarrow> False | Inr p \<Rightarrow> valid_create_response r p \<and> (o_link r = [] \<or> o_link r = rp_link p))
      then (case a of Inl x \<Rightarrow> Done (Inl x) | Inr p \<Rightarrow>
        andthen moment_now (\<lambda>m. finish_reconcile r ((pending_update p (e_now (mo_env m)))\<lparr>ou_reset := True\<rparr>)))
      else if known then recover_cancel sv r
      else andthen moment_now (\<lambda>m.
        let u = failure_update r (err_of a) ''CREATE_OUTCOME_UNKNOWN'' (mo_jitter m) (e_now (mo_env m)) in
        finish_reconcile r (case (case a of Inl x \<Rightarrow> rejected_create x | Inr _ \<Rightarrow> None) of
          None \<Rightarrow> u | Some c \<Rightarrow> u\<lparr>ou_error := c\<rparr>)))"

definition create_again :: "service \<Rightarrow> order \<Rightarrow> bool \<Rightarrow> (svc_err + unit) pay_job" where
  "create_again sv r known =
     (case parse_nano (o_expires r) of
        None \<Rightarrow> Done (Inl (StoreErr ErrParse))
      | Some expires \<Rightarrow> andthen (ask_create (provider_keys sv) (create_request_for sv r expires)) (recovered sv r known))"

definition recover_create :: "service \<Rightarrow> order \<Rightarrow> bool \<Rightarrow> (svc_err + unit) pay_job" where
  "recover_create sv r known =
     andthen (provider_slot sv) (\<lambda>slot. case slot of
       Inl x \<Rightarrow> finish_failed r (Some x) ''CREATE_OUTCOME_UNKNOWN''
     | Inr _ \<Rightarrow> attempt (renew_claim r known) (\<lambda>renewed.
         create_again sv (if o_link r \<noteq> [] then renewed\<lparr>o_link := o_link r\<rparr> else renewed) known))"

definition apply_open :: "service \<Rightarrow> order \<Rightarrow> payment_link \<Rightarrow> (svc_err + unit) pay_job" where
  "apply_open sv r l =
     (if o_error r = ''CANCEL_OUTCOME_UNKNOWN'' then reconcile_cancellation sv r
      else if o_qr r = [] \<and> pl_status l = ''PENDING'' then
        (let r2 = r\<lparr>o_link := pl_id l\<rparr> in if o_qr_recovery r2 then recover_cancel sv r2 else recover_create sv r2 True)
      else keep_open r l)"

definition apply_verified_link :: "service \<Rightarrow> order \<Rightarrow> payment_link \<Rightarrow> (svc_err + unit) pay_job" where
  "apply_verified_link sv = apply_link sv (apply_open sv)"

definition recover_absent :: "service \<Rightarrow> order \<Rightarrow> (svc_err + unit) pay_job" where
  "recover_absent sv r =
     (case parse_nano (o_expires r) of
        None \<Rightarrow> Done (Inl (StoreErr ErrParse))
      | Some expires \<Rightarrow>
          if o_qr_recovery r then recover_cancel sv r
          else if o_error r = ''CANCEL_OUTCOME_UNKNOWN'' then reconcile_cancellation sv r
          else if has_prefix (o_error r) ''CREATE_REJECTED_HTTP_'' then
            andthen moment_now (\<lambda>m. finish_reconcile r (no_update\<lparr>ou_status := ''FAILED'', ou_error := o_error r,
              ou_next := terminal_reconcile_at r (e_now (mo_env m))\<rparr>))
          else andthen moment_now (\<lambda>m.
            if e_now (mo_env m) < expires \<and> (o_status r = ''CREATING'' \<or> o_error r = ''CREATE_OUTCOME_UNKNOWN'' \<or> o_error r = ''INVALID_CREATE_RESPONSE'')
            then recover_create sv r False
            else andthen moment_now (\<lambda>m2. finish_reconcile r (no_update\<lparr>ou_status := o_status r, ou_error := ''CREATE_OUTCOME_UNKNOWN'',
              ou_next := terminal_reconcile_at r (e_now (mo_env m2))\<rparr>))))"

definition reconcile_claimed :: "service \<Rightarrow> order \<Rightarrow> (svc_err + unit) pay_job" where
  "reconcile_claimed sv r =
     andthen (get_claimed_link sv r) (\<lambda>g. case g of
       Inr l \<Rightarrow> apply_verified_link sv r l
     | Inl x \<Rightarrow>
         if (case x of ProviderErr f \<Rightarrow> pe_status f = 404 | _ \<Rightarrow> False) then recover_absent sv r
         else finish_failed r (Some x) ''PROVIDER_UNAVAILABLE'')"

definition reconcile_on :: "service \<Rightarrow> string \<Rightarrow> (svc_err + unit) pay_job" where
  "reconcile_on sv i =
     attempt (begin_payment_request sv) (\<lambda>_.
     counted_request sv (andthen (db_act (\<lambda>e. claim_payment_order e i (e_now e))) (\<lambda>res. case res of
       Inl x \<Rightarrow> Done (Inl (StoreErr x))
     | Inr (r, claimed) \<Rightarrow> if \<not> claimed then Done (Inr ()) else reconcile_claimed sv r)))"

definition reconcile_order :: "service \<Rightarrow> string \<Rightarrow> (svc_err + unit) pay_job" where
  "reconcile_order sv i =
     (if sv_managed sv then pin sv (\<lambda>x. Done (Inl x)) (\<lambda>op. reconcile_on op i) else reconcile_on sv i)"

text \<open>
  \<open>reconcileDue\<close>: one pass over the due orders.  Managed, the first error ends the pass; unmanaged, only an
  interruption or the closed gate does.
\<close>

fun reconcile_all :: "service \<Rightarrow> string list \<Rightarrow> (svc_err + unit) pay_job" where
  "reconcile_all sv [] = Done (Inr ())"
| "reconcile_all sv (i # is) = andthen (reconcile_order sv i) (\<lambda>r. case r of
     Inl x \<Rightarrow> if sv_managed sv \<or> x = Interrupted \<or> x = StoreErr ErrMutationGateLocked then Done (Inl x) else reconcile_all sv is
   | Inr _ \<Rightarrow> reconcile_all sv is)"

definition due_orders :: "service \<Rightarrow> string \<Rightarrow> (svc_err + order list) pay_job" where
  "due_orders sv channel = store (db_get (\<lambda>e. due_payment_orders e (vn_jd (sv_vendor sv)) channel (e_now e) 20))"

definition reconcile_due :: "service \<Rightarrow> (svc_err + unit) pay_job" where
  "reconcile_due sv =
     (if sv_managed sv then
        andthen (db_get (\<lambda>_. provider_quiesced)) (\<lambda>paused.
        if paused then Done (Inr ())
        else attempt (resolve sv) (\<lambda>op.
          if sv_provider op = None then Done (Inr ())
          else attempt (store (db_act (\<lambda>e. wake_pending_payment_callbacks e (sv_client op)))) (\<lambda>_.
            attempt (due_orders sv (sv_client op)) (\<lambda>rs. reconcile_all sv (map o_id rs)))))
      else
        andthen (local_act (sv_process sv) (\<lambda>_ l. (lc_quiesced l, l))) (\<lambda>paused.
        if paused \<or> sv_provider sv = None then Done (Inr ())
        else attempt mutation_allowed (\<lambda>_.
          attempt (store (db_act (\<lambda>e. wake_pending_payment_callbacks e (sv_client sv)))) (\<lambda>_.
          attempt (due_orders sv (sv_client sv)) (\<lambda>rs. reconcile_all sv (map o_id rs))))))"

section \<open>Callbacks\<close>

text \<open>The replaced keys of the channel are tried in turn when the current ones do not fit the signature.\<close>

fun verify_previous ::
  "service \<Rightarrow> (string \<times> jval) list \<Rightarrow> credentials list \<Rightarrow> svc_err + (webhook_data \<times> (string \<times> jval) list)" where
  "verify_previous sv body [] = Inl BadSignature"
| "verify_previous sv body (k # ks) =
     (if cr_checksum k = sv_checksum sv then verify_previous sv body ks
      else if \<not> new_payos (sv_vendor sv) k then Inl ErrWebhookUnavailable
      else case adapter_verify (vn_verify (sv_vendor sv)) k body of
        Inr d \<Rightarrow> Inr d
      | Inl x \<Rightarrow> if x = BadSignature then verify_previous sv body ks else Inl x)"

definition verify_webhook :: "service \<Rightarrow> (string \<times> jval) list \<Rightarrow> (svc_err + (webhook_data \<times> (string \<times> jval) list)) pay_job" where
  "verify_webhook sv body =
     (let first = adapter_verify (vn_verify (sv_vendor sv)) (provider_keys sv) body in
      if \<not> sv_snapshot sv \<or> first \<noteq> Inl BadSignature then Done first
      else db_get (\<lambda>_ s. case verification_keys (vn_vault (sv_vendor sv)) (sv_client sv) (sv_revision sv) s of
          Inl _ \<Rightarrow> Inl ErrWebhookUnavailable
        | Inr ks \<Rightarrow> verify_previous sv body ks))"

definition save_webhook_review :: "service \<Rightarrow> callback \<Rightarrow> string \<Rightarrow> (svc_err + unit) pay_job" where
  "save_webhook_review sv cb reason =
     andthen (db_act (\<lambda>e. save_verified_payment_callback e (cb\<lparr>cb_reason := reason\<rparr>))) (\<lambda>r. case r of
       Inl _ \<Rightarrow> Done (Inl ErrWebhookUnavailable)
     | Inr _ \<Rightarrow>
         if reason = ''AWAITING_ORDER_BIND'' \<or> reason = ''PAYMENT_DETAILS_PENDING''
         then andthen (wake_reconciler sv) (\<lambda>_. Done (Inr ())) else Done (Inr ()))"

definition webhook_input :: "service \<Rightarrow> webhook_data \<Rightarrow> instant \<Rightarrow> callback \<Rightarrow> settlement_input" where
  "webhook_input sv d at cb = no_input\<lparr>si_channel := sv_client sv, si_namespace := sv_namespace sv, si_code := wd_code d,
     si_link := wd_link d, si_reference := wd_reference d, si_amount := wd_amount d, si_at := at, si_account := wd_account d,
     si_virtual := text_or_empty (wd_virtual d), si_source := ''REALTIME'', si_callback := Some cb\<rparr>"

definition settle_webhook :: "service \<Rightarrow> settlement_input \<Rightarrow> (svc_err + unit) pay_job" where
  "settle_webhook sv inp =
     andthen (db_act (\<lambda>e. settle_payment e inp)) (\<lambda>r. case r of
       Inl _ \<Rightarrow> Done (Inl ErrWebhookUnavailable)
     | Inr out \<Rightarrow>
         andthen (publish_settlement out) (\<lambda>_.
         if sr_review out = ''AWAITING_ORDER_BIND'' \<or> sr_review out = ''PAYMENT_DETAILS_PENDING''
         then andthen (wake_reconciler sv) (\<lambda>_. Done (Inr ())) else Done (Inr ())))"

text \<open>What a verified callback comes to.\<close>

definition accept_webhook :: "service \<Rightarrow> (string \<times> jval) list \<Rightarrow> webhook_data \<Rightarrow> (svc_err + unit) pay_job" where
  "accept_webhook sv body d =
     (let cb = \<lparr>cb_data = (case map_of body ''data'' of Some (JObj kvs) \<Rightarrow> Some kvs | _ \<Rightarrow> None), cb_code = wd_code d, cb_link = wd_link d,
            cb_reference = wd_reference d, cb_reason = []\<rparr> in
      if map_of body ''code'' \<noteq> Some (JStr ''00'') \<or> map_of body ''success'' \<noteq> Some (JBool True) \<or> wd_result d \<noteq> ''00''
      then save_webhook_review sv cb ''NON_SUCCESS''
      else if is_confirmation_sample d
      then andthen mutation_allowed (\<lambda>r. Done (case r of Inl _ \<Rightarrow> Inl ErrWebhookUnavailable | Inr _ \<Rightarrow> Inr ()))
      else case parse_payment_time (wd_date d) of
        None \<Rightarrow> save_webhook_review sv cb ''INVALID_TRANSACTION_DATE''
      | Some at \<Rightarrow>
          if wd_currency d \<noteq> ''VND'' \<or> wd_reference d = [] \<or> wd_link d = [] \<or> wd_amount d \<le> 0 \<or> wd_code d \<le> 0
          then save_webhook_review sv cb ''PAYMENT_MISMATCH''
          else settle_webhook sv (webhook_input sv d at cb))"

text \<open>An accepted callback leaves a mark of activity before its request is counted off.\<close>

definition handle_on :: "service \<Rightarrow> (string \<times> jval) list \<Rightarrow> (svc_err + unit) pay_job" where
  "handle_on sv body =
     (if \<not> valid_webhook_shape body then Done (Inl ErrInvalidWebhook)
      else if sv_provider sv = None \<or> sv_client sv = [] then Done (Inl ErrWebhookUnavailable)
      else andthen (verify_webhook sv body) (\<lambda>v. case v of
        Inl x \<Rightarrow> Done (Inl (if x = BadSignature \<or> x = ErrInvalidWebhook then x else ErrWebhookUnavailable))
      | Inr (d, verified) \<Rightarrow>
          andthen (begin_payment_request sv) (\<lambda>b. case b of
            Inl _ \<Rightarrow> Done (Inl ErrWebhookUnavailable)
          | Inr _ \<Rightarrow> counted_request sv (andthen (accept_webhook sv verified d) (\<lambda>r. case r of
              Inl x \<Rightarrow> Done (Inl x)
            | Inr _ \<Rightarrow> andthen (record_activity sv ''WEBHOOK'') (\<lambda>_. Done (Inr ())))))))"

definition handle_webhook :: "service \<Rightarrow> (string \<times> jval) list \<Rightarrow> (svc_err + unit) pay_job" where
  "handle_webhook sv body =
     (if sv_managed sv then pin sv (\<lambda>_. Done (Inl ErrWebhookUnavailable)) (\<lambda>op. handle_on op body) else handle_on sv body)"

section \<open>Administration\<close>

definition webhook_url :: "service \<Rightarrow> string" where
  "webhook_url sv = sv_origin sv @ ''/api/integrations/payos/webhook''"

definition confirm_on :: "service \<Rightarrow> (svc_err + unit) pay_job" where
  "confirm_on sv =
     (if sv_provider sv = None \<or> sv_client sv = [] \<or> sv_api sv = [] \<or> sv_checksum sv = [] then Done (Inl ErrPaymentUnavailable)
      else andthen (begin_payment_request sv) (\<lambda>b. case b of
        Inl _ \<Rightarrow> Done (Inl ErrPaymentUnavailable)
      | Inr _ \<Rightarrow> counted_request sv (andthen (ask_confirm (provider_keys sv) (webhook_url sv)) (\<lambda>a. Done (case a of
          Inl _ \<Rightarrow> Inl ErrPaymentUnavailable
        | Inr u \<Rightarrow> if u \<noteq> webhook_url sv then Inl ErrPaymentUnavailable else Inr ())))))"

definition provider_config_error :: "err \<Rightarrow> svc_err" where
  "provider_config_error x = (case x of
     ErrProviderConfigInvalid \<Rightarrow> ServiceErr ''INVALID_PROVIDER_CONFIG'' 400
   | ErrProviderChannelLocked \<Rightarrow> ServiceErr ''PROVIDER_CHANNEL_LOCKED'' 409
   | ErrProviderConfigBusy \<Rightarrow> ServiceErr ''PROVIDER_CONFIG_BUSY'' 409
   | ErrProviderRevisionConflict \<Rightarrow> ServiceErr ''PROVIDER_CONFIG_CHANGED'' 409
   | _ \<Rightarrow> ErrPaymentUnavailable)"

definition confirm_provider_webhook :: "service \<Rightarrow> provider_actor \<Rightarrow> (svc_err + unit) pay_job" where
  "confirm_provider_webhook sv actor =
     (if \<not> sv_managed sv then confirm_on sv
      else pin sv (\<lambda>x. Done (Inl x)) (\<lambda>op.
        attempt (confirm_on op) (\<lambda>_.
        andthen (db_act (\<lambda>e. ProviderConfig.confirm_webhook e (sv_revision op) actor)) (\<lambda>r. Done (case r of
          Inl x \<Rightarrow> Inl (provider_config_error x) | Inr _ \<Rightarrow> Inr ())))))"

record safe_config =
  sf_configured :: bool
  sf_client :: string
  sf_api :: bool
  sf_checksum :: bool
  sf_confirmed :: bool
  sf_enabled :: bool
  sf_static :: string
  sf_webhook :: string

text \<open>\<open>safeProviderConfig\<close>: what an administrator sees of the credentials.\<close>

definition safe_provider_config :: "service \<Rightarrow> provider_config \<Rightarrow> safe_config" where
  "safe_provider_config sv saved = (let k = pv_credentials saved in
     \<lparr>sf_configured = (cr_client k \<noteq> [] \<and> cr_api k \<noteq> [] \<and> cr_checksum k \<noteq> []), sf_client = cr_client k, sf_api = (cr_api k \<noteq> []),
      sf_checksum = (cr_checksum k \<noteq> []), sf_confirmed = pv_confirmed saved, sf_enabled = pv_enabled saved,
      sf_static = sv_origin sv @ ''/pay'', sf_webhook = webhook_url sv\<rparr>)"

definition service_provider_config :: "service \<Rightarrow> (svc_err + safe_config) pay_job" where
  "service_provider_config sv = db_get (\<lambda>_ s. case read_provider_config (vn_vault (sv_vendor sv)) s of
     Inl _ \<Rightarrow> Inl ErrPaymentUnavailable | Inr saved \<Rightarrow> Inr (safe_provider_config sv saved))"

definition save_provider_config :: "service \<Rightarrow> credentials \<Rightarrow> bool \<Rightarrow> provider_actor \<Rightarrow> (svc_err + safe_config) pay_job" where
  "save_provider_config sv keys enabled actor =
     andthen (db_act (\<lambda>e. save_config (vn_vault (sv_vendor sv)) e keys enabled actor)) (\<lambda>r. case r of
       Inl x \<Rightarrow> Done (Inl (provider_config_error x))
     | Inr saved \<Rightarrow> andthen (wake_reconciler sv) (\<lambda>_. Done (Inr (safe_provider_config sv saved))))"

record status =
  st_configured :: bool
  st_status :: string
  st_confirmed :: bool
  st_webhook :: "string option"
  st_reconciled :: "string option"
  st_pending :: nat
  st_reviews :: nat

definition status_on :: "service \<Rightarrow> (svc_err + status) pay_job" where
  "status_on sv =
     andthen (db_get (\<lambda>e. payment_activity e (sv_client sv))) (\<lambda>ac.
     andthen mutation_allowed (\<lambda>open_gate.
     andthen (if sv_snapshot sv then db_get (\<lambda>_. provider_quiesced) else Done False) (\<lambda>paused.
     andthen (local_act (sv_process sv) (\<lambda>_ l. (lc_quiesced l, l))) (\<lambda>quiesced.
     Done (Inr \<lparr>st_configured = (sv_client sv \<noteq> [] \<and> sv_api sv \<noteq> [] \<and> sv_checksum sv \<noteq> []),
       st_status = (if open_gate \<noteq> Inr () \<or> paused \<or> quiesced then ''UNAVAILABLE'' else config_status sv),
       st_confirmed = sv_confirmed sv, st_webhook = ac_webhook ac, st_reconciled = ac_reconciled ac, st_pending = ac_pending ac,
       st_reviews = ac_reviews ac\<rparr>)))))"

definition read_status :: "service \<Rightarrow> (svc_err + status) pay_job" where
  "read_status sv = (if sv_managed sv then attempt (resolve sv) status_on else status_on sv)"

text \<open>
  \<open>Quiesce\<close> first closes admission in the database and waits for its operations, then closes this process and
  waits for its requests.  It polls at most as often as its context allows; the result tells whether it drained.
\<close>

fun drain_process :: "service \<Rightarrow> nat \<Rightarrow> bool pay_job" where
  "drain_process sv 0 = Done False"
| "drain_process sv (Suc n) = andthen (local_act (sv_process sv) (\<lambda>_ l. (lc_active l = 0, l))) (\<lambda>idle.
     if idle then Done True else drain_process sv n)"

definition close_process :: "service \<Rightarrow> nat \<Rightarrow> bool pay_job" where
  "close_process sv n = andthen (local_act (sv_process sv) (\<lambda>_ l. ((), l\<lparr>lc_quiesced := True\<rparr>))) (\<lambda>_. drain_process sv n)"

fun drain_database :: "service \<Rightarrow> nat \<Rightarrow> bool pay_job" where
  "drain_database sv 0 = Done False"
| "drain_database sv (Suc n) = andthen (db_get active_requests) (\<lambda>active.
     if active = 0 then close_process sv n else drain_database sv n)"

definition quiesce :: "service \<Rightarrow> nat \<Rightarrow> bool pay_job" where
  "quiesce sv n =
     (if sv_managed sv then andthen (db_act (\<lambda>_ s. ((), set_quiesced True s))) (\<lambda>_. drain_database sv n)
      else close_process sv n)"

definition resume_service :: "service \<Rightarrow> unit pay_job" where
  "resume_service sv =
     andthen (if sv_managed sv then db_act (\<lambda>_ s. ((), set_quiesced False s)) else Done ()) (\<lambda>_.
     local_act (sv_process sv) (\<lambda>_ l. ((), l\<lparr>lc_quiesced := False, lc_wake := True\<rparr>)))"

definition active_requests_of :: "service \<Rightarrow> int pay_job" where
  "active_requests_of sv = (if sv_managed sv then db_get (\<lambda>e s. int (active_requests e s))
     else local_act (sv_process sv) (\<lambda>_ l. (lc_active l, l)))"

end
