(* ===== verification/PayBooks.thy ===== *)
theory PayBooks
  imports PayService
begin

text \<open>
  What each store operation that the payment service uses does to the books: \<open>store_step\<close> is the common
  contract (the money invariant, the intents, the receipts and the statuses of the orders), with the one
  exception an operation is allowed as its argument.
\<close>

section \<open>The contract of a step\<close>

text \<open>Clocks stay far enough before the year 10000 for every delay of the service to have a text.\<close>

definition horizon :: instant where "horizon = 240000000000 * second"

definition moment_ok :: "moment \<Rightarrow> bool" where
  "moment_ok m \<longleftrightarrow> 0 \<le> e_now (mo_env m) \<and> e_now (mo_env m) < horizon \<and> (\<forall>d\<in>set (mo_draws m). fst d \<noteq> [])"

lemma moment_clock: "moment_ok m \<Longrightarrow> clock_ok (e_now (mo_env m))"
  by (auto simp: moment_ok_def clock_ok_def horizon_def)

lemma in_range_between: "0 \<le> t \<Longrightarrow> t < 253402300800 * second \<Longrightarrow> in_range t"
  by (auto simp: in_range_def secs_range_def)

definition in_time :: "order list \<Rightarrow> bool" where
  "in_time rows \<longleftrightarrow> (\<forall>r\<in>set rows. \<forall>t. parse_nano (o_expires r) = Some t \<longrightarrow> 0 \<le> t \<and> t < horizon + 3600 * second)"

definition status_step :: "(order \<Rightarrow> bool) \<Rightarrow> order list \<Rightarrow> order list \<Rightarrow> bool" where
  "status_step except rows rows' \<longleftrightarrow> (\<forall>r'\<in>set rows'.
     (\<exists>r\<in>set rows. o_id r = o_id r' \<and> (o_status r' = o_status r \<or> o_status r' = ''PAID'')) \<or> except r')"

definition db_ok :: "db \<Rightarrow> bool" where
  "db_ok s \<longleftrightarrow> money_inv s \<and> in_time (db_orders s)"

definition db_le :: "db \<Rightarrow> db \<Rightarrow> bool" where
  "db_le s s' \<longleftrightarrow> orders_extend (db_orders s) (db_orders s') \<and> set (db_receipts s) \<subseteq> set (db_receipts s')"

definition store_step :: "(order \<Rightarrow> bool) \<Rightarrow> db \<Rightarrow> db \<Rightarrow> bool" where
  "store_step except s s' \<longleftrightarrow> db_ok s' \<and> db_le s s' \<and> status_step except (db_orders s) (db_orders s')"

abbreviation plain_step :: "db \<Rightarrow> db \<Rightarrow> bool" where
  "plain_step \<equiv> store_step (\<lambda>_. False)"

lemma status_refl: "status_step P rows rows"
  unfolding status_step_def by blast

lemma status_mono: "status_step P a b \<Longrightarrow> (\<And>r. P r \<Longrightarrow> Q r) \<Longrightarrow> status_step Q a b"
  unfolding status_step_def by blast

lemma status_trans:
  assumes "status_step (\<lambda>_. False) a b" "status_step (\<lambda>_. False) b c"
  shows "status_step (\<lambda>_. False) a c"
  unfolding status_step_def
proof (intro ballI disjI1)
  fix r' assume "r' \<in> set c"
  then obtain r where r: "r \<in> set b" "o_id r = o_id r'" "o_status r' = o_status r \<or> o_status r' = ''PAID''"
    using assms(2) unfolding status_step_def by blast
  obtain r0 where "r0 \<in> set a" "o_id r0 = o_id r" "o_status r = o_status r0 \<or> o_status r = ''PAID''"
    using assms(1) r(1) unfolding status_step_def by blast
  then show "\<exists>r\<in>set a. o_id r = o_id r' \<and> (o_status r' = o_status r \<or> o_status r' = ''PAID'')"
    using r(2,3) by (intro bexI[of _ r0]) auto
qed

lemma status_update:
  "(\<And>r. r \<in> set rows \<Longrightarrow> p r \<Longrightarrow> o_id (f r) = o_id r \<and> (o_status (f r) = o_status r \<or> o_status (f r) = ''PAID'')) \<Longrightarrow>
    status_step P rows (update_where p f rows)"
  unfolding status_step_def set_update_where by fastforce

lemma db_le_refl: "db_le s s"
  by (simp add: db_le_def)

lemma db_le_trans: "db_le a b \<Longrightarrow> db_le b c \<Longrightarrow> db_le a c"
  unfolding db_le_def using orders_extend_trans by blast

lemma money_orders: "money_inv s \<Longrightarrow> orders_inv (db_orders s)"
  by (simp add: money_inv_def)

lemma money_cong:
  assumes "db_orders s' = db_orders s" "db_receipts s' = db_receipts s" "db_transactions s' = db_transactions s"
  shows "money_inv s' = money_inv s"
  by (simp add: money_inv_def receipt_backed_def assms)

text \<open>An operation that leaves the orders and the books alone.\<close>

lemma step_frame:
  assumes "db_ok s" "db_orders s' = db_orders s" "db_receipts s' = db_receipts s" "db_transactions s' = db_transactions s"
  shows "store_step P s s'"
  using assms by (simp add: store_step_def db_ok_def db_le_def status_refl money_cong[OF assms(2-4)])

text \<open>The rows of a step come from rows of the same intent, so the expiry times stay in range.\<close>

lemma in_time_step:
  assumes "in_time rows" "orders_inv rows'" "orders_extend rows rows'"
    and "\<And>r'. r' \<in> set rows' \<Longrightarrow> (\<exists>r\<in>set rows. o_id r = o_id r') \<or>
      (\<forall>t. parse_nano (o_expires r') = Some t \<longrightarrow> 0 \<le> t \<and> t < horizon + 3600 * second)"
  shows "in_time rows'"
  unfolding in_time_def
proof (intro ballI allI impI)
  fix r' t assume r': "r' \<in> set rows'" and t: "parse_nano (o_expires r') = Some t"
  from assms(4)[OF r'] show "0 \<le> t \<and> t < horizon + 3600 * second"
  proof
    assume "\<exists>r\<in>set rows. o_id r = o_id r'"
    then obtain r where r: "r \<in> set rows" "o_id r = o_id r'" by blast
    obtain r'' where r'': "r'' \<in> set rows'" "order_extends r r''" using assms(3) r(1) unfolding orders_extend_def by blast
    then have "o_id r'' = o_id r'" using r(2) by (simp add: order_extends_def)
    then have "r'' = r'" using row_unique[OF assms(2) r''(1) r'] by simp
    then have "o_expires r' = o_expires r" using r''(2) by (simp add: order_extends_def)
    then show ?thesis using assms(1) r(1) t unfolding in_time_def by simp
  qed (use t in blast)
qed

lemma store_stepI:
  assumes "db_ok s" "money_inv s'" "orders_extend (db_orders s) (db_orders s')" "set (db_receipts s) \<subseteq> set (db_receipts s')"
    "status_step P (db_orders s) (db_orders s')"
    and "\<And>r'. P r' \<Longrightarrow> r' \<in> set (db_orders s') \<Longrightarrow> (\<exists>r\<in>set (db_orders s). o_id r = o_id r') \<or>
      (\<forall>t. parse_nano (o_expires r') = Some t \<longrightarrow> 0 \<le> t \<and> t < horizon + 3600 * second)"
  shows "store_step P s s'"
proof -
  have "in_time (db_orders s')"
  proof (rule in_time_step[OF _ money_orders[OF assms(2)] assms(3)])
    show "in_time (db_orders s)" using assms(1) by (simp add: db_ok_def)
    fix r' assume r': "r' \<in> set (db_orders s')"
    then show "(\<exists>r\<in>set (db_orders s). o_id r = o_id r') \<or>
      (\<forall>t. parse_nano (o_expires r') = Some t \<longrightarrow> 0 \<le> t \<and> t < horizon + 3600 * second)"
      using assms(5) assms(6)[OF _ r'] unfolding status_step_def by blast
  qed
  then show ?thesis using assms by (simp add: store_step_def db_ok_def db_le_def)
qed

section \<open>The operations\<close>

text \<open>A step of the orders alone, books untouched.\<close>

lemma orders_only:
  assumes "db_ok s" "orders_step s s'" "books_same s s'" "status_step P (db_orders s) (db_orders s')"
    and "\<And>r'. P r' \<Longrightarrow> r' \<in> set (db_orders s') \<Longrightarrow> (\<exists>r\<in>set (db_orders s). o_id r = o_id r') \<or>
      (\<forall>t. parse_nano (o_expires r') = Some t \<longrightarrow> 0 \<le> t \<and> t < horizon + 3600 * second)"
  shows "store_step P s s'"
proof -
  have q: "quiet_step s s'" using assms(2,3) by (simp add: quiet_step_def)
  have "money_inv s'" using quiet_money[OF q] assms(1) by (simp add: db_ok_def)
  then show ?thesis
    using assms by (intro store_stepI) (auto simp: orders_step_def books_same_def)
qed

lemma ok_orders: "db_ok s \<Longrightarrow> orders_inv (db_orders s)"
  by (simp add: db_ok_def money_inv_def)

lemma claim_store:
  assumes "db_ok s" "clock_ok (e_now e)"
  shows "plain_step s (snd (claim_payment_order e i (e_now e) s))"
proof (rule orders_only[OF assms(1)])
  show "orders_step s (snd (claim_payment_order e i (e_now e) s))"
    using claim_step[where e = e and t = "e_now e" and i = i and s = s] assms(2) ok_orders[OF assms(1)] by simp
qed (auto simp: claim_payment_order_def run_tx_def claim_payment_order_tx_def Let_def bnd_Inr books_same_def
      intro!: status_refl status_update split: sum.splits if_splits)

lemma renew_store:
  assumes "db_ok s" "clock_ok (e_now e)"
  shows "plain_step s (snd (renew_payment_order_operation e i token attempted s))"
proof (rule orders_only[OF assms(1)])
  show "orders_step s (snd (renew_payment_order_operation e i token attempted s))"
    using renew_step[OF assms(2) ok_orders[OF assms(1)]] .
qed (auto simp: renew_payment_order_operation_def run_tx_def renew_payment_order_operation_tx_def Let_def bnd_Inr books_same_def
      intro!: status_refl status_update split: sum.splits if_splits option.splits)

text \<open>The one operation that moves a status: to the status of its update, on the order it holds.\<close>

definition completes :: "string \<Rightarrow> string \<Rightarrow> order_update \<Rightarrow> order list \<Rightarrow> order \<Rightarrow> bool" where
  "completes i token u rows r' \<longleftrightarrow> (\<exists>r\<in>set rows. o_id r = i \<and> o_token r = token \<and> o_id r' = i \<and> order_extends r r') \<and>
     o_status r' = ou_status u \<and> ou_status u \<noteq> [] \<and> ou_status u \<noteq> ''PAID''"

lemma complete_store:
  assumes "db_ok s" "ou_next u = zero_time \<or> in_range (ou_next u)"
  shows "store_step (completes i token u (db_orders s)) s (snd (complete_payment_order_operation e i token u s))"
proof (rule orders_only[OF assms(1)])
  let ?s = "snd (complete_payment_order_operation e i token u s)"
  show "orders_step s ?s" using complete_step[OF assms(2) ok_orders[OF assms(1)]] .
  show "books_same s ?s"
    by (auto simp: complete_payment_order_operation_def run_tx_def complete_payment_order_operation_tx_def Let_def bnd_Inr books_same_def
        split: sum.splits if_splits option.splits)
  show "status_step (completes i token u (db_orders s)) (db_orders s) (db_orders ?s)"
  proof (cases "db_orders ?s = db_orders s")
    case False
    then obtain nxt where s': "db_orders ?s = update_where (\<lambda>x. o_id x = i \<and> o_token x = token) (completed_order e u nxt) (db_orders s)"
      and u: "ou_status u \<noteq> ''PAID''"
      by (auto simp: complete_payment_order_operation_def run_tx_def complete_payment_order_operation_tx_def Let_def bnd_Inr
          valid_payment_status_def split: sum.splits if_splits option.splits)
    show ?thesis
      unfolding status_step_def s'
    proof (intro ballI)
      fix r' assume "r' \<in> set (update_where (\<lambda>x. o_id x = i \<and> o_token x = token) (completed_order e u nxt) (db_orders s))"
      then show "(\<exists>r\<in>set (db_orders s). o_id r = o_id r' \<and> (o_status r' = o_status r \<or> o_status r' = ''PAID'')) \<or>
          completes i token u (db_orders s) r'"
      proof (cases rule: in_update_whereE)
        case (new r0)
        show ?thesis
        proof (cases "o_status r' = o_status r0")
          case False
          have "order_extends r0 r'" unfolding new(3) by (rule completed_extends[OF u])
          moreover have "o_id r' = i" "o_status r' = ou_status u" "ou_status u \<noteq> []"
            using False new by (auto simp: completed_order_def split: if_splits)
          ultimately show ?thesis using new u unfolding completes_def by blast
        next
          case True
          then show ?thesis using new by (intro disjI1 bexI[of _ r0]) (auto simp: completed_order_def)
        qed
      qed blast
    qed
  qed (simp add: status_refl)
qed (auto simp: completes_def)

lemma reserve_store:
  assumes "db_ok s" "0 \<le> e_now e" "e_now e < horizon" "\<forall>d\<in>set draws. fst d \<noteq> []"
  shows "store_step (\<lambda>r. o_status r = ''CREATING'' \<and> (\<forall>x\<in>set (db_orders s). o_id x \<noteq> o_id r)) s
    (snd (reserve_payment_order e draws inp s))"
proof (rule orders_only[OF assms(1)])
  let ?s = "snd (reserve_payment_order e draws inp s)"
  have c: "clock_ok (e_now e)" using assms(2,3) by (auto simp: clock_ok_def horizon_def)
  show "orders_step s ?s" by (rule reserve_step[OF c ok_orders[OF assms(1)] assms(4)])
  show "books_same s ?s"
    by (auto simp: reserve_payment_order_def run_tx_def reserve_payment_order_tx_def bnd_Inr books_same_def split: sum.splits)
  have new: "db_orders ?s = db_orders s \<or> (\<exists>i code. db_orders ?s = db_orders s @ [new_order e (random_payment_token (e_id e 0)) inp i code] \<and>
      (\<forall>x\<in>set (db_orders s). o_id x \<noteq> i))"
  proof (cases "db_orders ?s = db_orders s")
    case False
    then obtain r where r: "reserve_loop e (random_payment_token (e_id e 0)) inp draws (db_orders s) = Inr r"
        "db_orders ?s = db_orders s @ [r]"
      by (auto simp: reserve_payment_order_def run_tx_def reserve_payment_order_tx_def bnd_Inr split: if_splits sum.splits)
    show ?thesis using reserve_loop_new[OF r(1) assms(4)] r(2) by blast
  qed simp
  then show "status_step (\<lambda>r. o_status r = ''CREATING'' \<and> (\<forall>x\<in>set (db_orders s). o_id x \<noteq> o_id r)) (db_orders s) (db_orders ?s)"
    unfolding status_step_def by (auto simp: new_order_def Let_def)
  fix r' assume fresh: "o_status r' = ''CREATING'' \<and> (\<forall>x\<in>set (db_orders s). o_id x \<noteq> o_id r')" and r': "r' \<in> set (db_orders ?s)"
  have "r' \<notin> set (db_orders s)" using fresh by blast
  with new r' obtain i code where "r' = new_order e (random_payment_token (e_id e 0)) inp i code" by auto
  moreover have "in_range (e_now e + 30 * 60 * second)" using assms(2,3) by (intro in_range_between) (auto simp: horizon_def)
  ultimately have "parse_nano (o_expires r') = Some (e_now e + 30 * 60 * second)"
    by (simp add: new_order_def Let_def parse_fmt_nano)
  then show "(\<exists>r\<in>set (db_orders s). o_id r = o_id r') \<or>
      (\<forall>t. parse_nano (o_expires r') = Some t \<longrightarrow> 0 \<le> t \<and> t < horizon + 3600 * second)"
    using assms(2,3) by auto
qed

text \<open>Inbox work changes the errors and times of orders, never a status.\<close>

lemma wake_status: "wake_payment_order_inbox_tx e code s = Inr s' \<Longrightarrow> status_step P (db_orders s) (db_orders s')"
  by (auto simp: wake_payment_order_inbox_tx_def bnd_Inr intro!: status_refl status_update split: sum.splits if_splits option.splits)

definition in_inbox :: "env \<Rightarrow> callback \<Rightarrow> db \<Rightarrow> bool" where
  "in_inbox e cb s \<longleftrightarrow> (\<exists>kvs. cb_data cb = Some kvs \<and> (\<exists>i\<in>set (db_inbox s). ib_hash i = sha_hex e (json_text (JObj kvs))))"

lemma insert_inbox_effect:
  assumes "insert_payment_inbox_tx e cb s = Inr (h, s')"
  shows "status_step (\<lambda>_. False) (db_orders s) (db_orders s') \<and> in_inbox e cb s'"
proof -
  obtain kvs where kvs: "cb_data cb = Some kvs"
    and c: "canonical_payment_callback e cb = Inr (sha_hex e (json_text (JObj kvs)), json_text (JObj kvs))"
    using assms by (auto simp: insert_payment_inbox_tx_def bnd_Inr canonical_payment_callback_def Let_def split: option.splits if_splits)
  let ?h = "sha_hex e (json_text (JObj kvs))"
  show ?thesis
  proof (cases "\<exists>i\<in>set (db_inbox s). ib_hash i = ?h")
    case True
    have keep: "map ib_hash (db_inbox s') = map ib_hash (db_inbox s)"
      using assms c True by (auto simp: insert_payment_inbox_tx_def map_update_where split: if_splits)
    have "?h \<in> set (map ib_hash (db_inbox s))" using True unfolding set_map image_iff by metis
    then have "?h \<in> set (map ib_hash (db_inbox s'))" unfolding keep .
    then have "\<exists>i\<in>set (db_inbox s'). ib_hash i = ?h" unfolding set_map image_iff by metis
    moreover have "db_orders s' = db_orders s"
      using assms c True by (auto simp: insert_payment_inbox_tx_def split: if_splits)
    ultimately show ?thesis using kvs by (auto simp: in_inbox_def status_refl)
  next
    case False
    let ?row = "\<lparr>ib_hash = ?h, ib_code = cb_code cb, ib_link = cb_link cb, ib_reference = cb_reference cb,
      ib_payload = json_text (JObj kvs), ib_reason = cb_reason cb, ib_received = now_text e, ib_processed = []\<rparr>"
    let ?s1 = "s\<lparr>db_inbox := db_inbox s @ [?row]\<rparr>"
    have wake_inbox: "wake_payment_order_inbox_tx e code a = Inr b \<Longrightarrow> db_inbox b = db_inbox a" for code a b
      by (auto simp: wake_payment_order_inbox_tx_def bnd_Inr split: sum.splits if_splits option.splits)
    show ?thesis
    proof (cases "cb_reason cb = ''AWAITING_ORDER_BIND'' \<or> cb_reason cb = ''PAYMENT_DETAILS_PENDING''")
      case True
      with assms c False obtain s2 where w: "wake_payment_order_inbox_tx e (cb_code cb) ?s1 = Inr s2" and
        s': "s' = (if cb_reason cb = ''PAYMENT_DETAILS_PENDING''
              then s2\<lparr>db_orders := update_where (\<lambda>x. o_code x = cb_code cb \<and> o_status x \<noteq> ''PAID'')
                     (\<lambda>x. x\<lparr>o_error := ''PAYMENT_DETAILS_PENDING''\<rparr>) (db_orders s2)\<rparr> else s2)"
        by (auto simp: insert_payment_inbox_tx_def Let_def bnd_Inr)
      have a: "status_step (\<lambda>_. False) (db_orders s) (db_orders s2)" using wake_status[OF w] by simp
      have "status_step (\<lambda>_. False) (db_orders s2) (db_orders s')" unfolding s' by (auto intro!: status_refl status_update)
      with a have "status_step (\<lambda>_. False) (db_orders s) (db_orders s')" by (rule status_trans)
      moreover have "db_inbox s' = db_inbox s @ [?row]" using wake_inbox[OF w] by (simp add: s')
      ultimately show ?thesis using kvs by (auto simp: in_inbox_def)
    next
      case no: False
      with assms c False have "s' = ?s1" by (auto simp: insert_payment_inbox_tx_def Let_def)
      then show ?thesis using kvs by (auto simp: in_inbox_def status_refl)
    qed
  qed
qed

lemma callback_store:
  assumes "db_ok s" "clock_ok (e_now e)"
  shows "plain_step s (snd (save_verified_payment_callback e cb s)) \<and>
    (\<forall>h. fst (save_verified_payment_callback e cb s) = Inr h \<longrightarrow> in_inbox e cb (snd (save_verified_payment_callback e cb s)))"
proof (cases "bnd (check_mutation_allowed e s) (\<lambda>_. insert_payment_inbox_tx e cb s)")
  case (Inl x)
  then show ?thesis using assms(1) by (auto simp: save_verified_payment_callback_def run_tx_def intro: step_frame)
next
  case (Inr r)
  obtain h s' where r: "r = (h, s')" by fastforce
  have i: "insert_payment_inbox_tx e cb s = Inr (h, s')" using Inr by (auto simp: bnd_Inr r)
  have "quiet_step s s'" by (rule insert_inbox_quiet[OF i ok_orders[OF assms(1)] assms(2)])
  then have "plain_step s s'" using assms(1) insert_inbox_effect[OF i] by (intro orders_only) (auto simp: quiet_step_def)
  then show ?thesis using insert_inbox_effect[OF i] Inr by (auto simp: save_verified_payment_callback_def run_tx_def r)
qed

lemma wake_codes_status: "wake_codes e codes s = Inr s' \<Longrightarrow> status_step (\<lambda>_. False) (db_orders s) (db_orders s')"
proof (induction e codes s rule: wake_codes.induct)
  case (2 e code codes s)
  from 2(2) obtain s1 where w: "wake_payment_order_inbox_tx e code (s\<lparr>db_inbox :=
      update_where (\<lambda>i. ib_code i = code \<and> ib_reason i = ''UNKNOWN_ORDER'' \<and> ib_processed i = [])
        (\<lambda>i. i\<lparr>ib_reason := ''AWAITING_ORDER_BIND''\<rparr>) (db_inbox s)\<rparr>) = Inr s1" and r: "wake_codes e codes s1 = Inr s'"
    by (auto simp: bnd_Inr)
  have "status_step (\<lambda>_. False) (db_orders s) (db_orders s1)" using wake_status[OF w] by simp
  then show ?case using 2(1)[OF w r] by (rule status_trans)
qed (simp add: status_refl)

lemma wake_pending_store:
  assumes "db_ok s" "clock_ok (e_now e)"
  shows "plain_step s (snd (wake_pending_payment_callbacks e channel s))"
proof (cases "check_mutation_allowed e s")
  case (Inr u)
  show ?thesis
  proof (cases "wake_codes e (wakeable_codes channel s) s")
    case (Inr s')
    have "quiet_step s s'" by (rule wake_codes_quiet[OF Inr ok_orders[OF assms(1)] assms(2)])
    then have "plain_step s s'" using assms(1) wake_codes_status[OF Inr] by (intro orders_only) (auto simp: quiet_step_def)
    then show ?thesis using \<open>check_mutation_allowed e s = Inr u\<close> Inr by (simp add: wake_pending_payment_callbacks_def run_tx_def)
  qed (use assms(1) Inr in \<open>simp add: wake_pending_payment_callbacks_def run_tx_def step_frame\<close>)
qed (use assms(1) in \<open>simp add: wake_pending_payment_callbacks_def run_tx_def step_frame\<close>)

section \<open>Settlement\<close>

definition has_receipt :: "settlement_input \<Rightarrow> db \<Rightarrow> bool" where
  "has_receipt inp s \<longleftrightarrow> (\<exists>c\<in>set (db_receipts s). rc_channel c = si_channel inp \<and> rc_reference c = si_reference inp)"

lemma review_effect:
  assumes "settlement_review e inp res reason s = Inr (res', s')"
  shows "status_step (\<lambda>_. False) (db_orders s) (db_orders s') \<and> (\<forall>cb. si_callback inp = Some cb \<longrightarrow> in_inbox e cb s')"
proof (cases "si_callback inp")
  case None
  then show ?thesis using assms by (auto simp: settlement_review_def Let_def status_refl split: if_splits)
next
  case (Some cb)
  then obtain h where "insert_payment_inbox_tx e (cb\<lparr>cb_reason := reason\<rparr>) s = Inr (h, s')"
    using assms by (auto simp: settlement_review_def bnd_Inr)
  from insert_inbox_effect[OF this] show ?thesis using Some by (auto simp: in_inbox_def)
qed

text \<open>
  A settlement that answers has left a trace: the receipt of the reference, or the callback in the inbox.  An
  event it announces is the event of a receipt.
\<close>

lemma settle_store:
  assumes "db_ok s" "clock_ok (e_now e)" "settle_payment e inp s = (out, s')"
  shows "plain_step s s' \<and>
    (\<forall>res. out = Inr res \<longrightarrow> (has_receipt inp s' \<or> (\<forall>cb. si_callback inp = Some cb \<longrightarrow> in_inbox e cb s')) \<and>
      (\<forall>n. sr_event res = Some n \<longrightarrow> (\<exists>c\<in>set (db_receipts s'). rc_transaction c = n_transaction n)))"
proof (cases out)
  case (Inl x)
  then have "s' = s" using assms(3) settle_payment_error by blast
  then show ?thesis using assms(1) Inl by (simp add: step_frame)
next
  case (Inr res)
  have inv: "money_inv s" using assms(1) by (simp add: db_ok_def)
  note step = settle_books_step[OF assms(3) inv assms(2)]
  show ?thesis
  proof (cases "sr_event res")
    case (Some n)
    then obtain r tid key where r: "r \<in> set (db_orders s)" and rows: "settled_rows e inp r s s' tid key" and tid: "n_transaction n = tid"
      using step Inr by auto
    have o: "db_orders s' = update_where (\<lambda>x. o_id x = o_id r) (\<lambda>_. paid_order e inp tid r) (db_orders s)"
      and c: "db_receipts s' = db_receipts s @ [settled_receipt e inp r tid]"
      using rows by (simp_all add: settled_rows_def)
    have "status_step (\<lambda>_. False) (db_orders s) (db_orders s')" unfolding o by (rule status_update) auto
    then have "plain_step s s'" using step assms(1) c by (intro store_stepI) auto
    moreover have "has_receipt inp s'" unfolding has_receipt_def c by (simp add: settled_receipt_def)
    moreover have "rc_transaction (settled_receipt e inp r tid) = n_transaction n" by (simp add: settled_receipt_def tid)
    ultimately show ?thesis using Inr Some c by auto
  next
    case None
    obtain res0 where tx: "settle_payment_tx e inp s = Inr (res0, s')" and n0: "sr_event res0 = None"
      using settle_payment_tx_of[OF assms(3)[unfolded Inr]] None by auto
    have q: "quiet_step s s'" using settle_quiet[OF tx n0 ok_orders[OF assms(1)] assms(2)] by blast
    have "status_step (\<lambda>_. False) (db_orders s) (db_orders s') \<and> (has_receipt inp s' \<or> (\<forall>cb. si_callback inp = Some cb \<longrightarrow> in_inbox e cb s'))"
    proof (cases "reviewed e inp s (res0, s')")
      case True
      then show ?thesis unfolding reviewed_def using review_effect by blast
    next
      case False
      from settle_payment_outcome[OF tx False] obtain r where "settle_order e inp r s = Inr (res0, s')" by blast
      from settle_order_outcome[OF this False] have acc: "settle_accepted e inp r s = Inr (res0, s')" by blast
      show ?thesis
      proof (cases "receipt_of inp s")
        case None
        with acc n0 False have "settle_commit e inp r s = Inr (res0, s')"
          by (auto simp: settle_accepted_def not_reviewed split: if_split_asm)
        then show ?thesis using n0 by (auto elim: settle_commit_result)
      next
        case (Some c)
        then have "mark_settlement_inbox_processed e (si_inbox inp) s = Inr s'"
          using acc by (auto simp: settle_accepted_def bnd_Inr split: if_splits)
        from mark_processed_quiet[OF this ok_orders[OF assms(1)]]
        have "db_orders s' = db_orders s" "db_receipts s' = db_receipts s" by (simp_all add: quiet_step_def books_same_def)
        moreover have "has_receipt inp s" using Some by (auto simp: receipt_of_def has_receipt_def find_Some_iff)
        ultimately show ?thesis by (simp add: has_receipt_def status_refl)
      qed
    qed
    then show ?thesis using q assms(1) Inr None by (auto simp: quiet_step_def intro!: orders_only)
  qed
qed

section \<open>Operations beside the books\<close>

lemma record_activity_store: "db_ok s \<Longrightarrow> plain_step s (snd (record_payment_activity e channel kind s))"
  by (rule step_frame) (auto simp: record_payment_activity_def Let_def)

lemma begin_operation_store: "db_ok s \<Longrightarrow> plain_step s (snd (begin_operation v e s))"
  by (rule step_frame) (auto simp: begin_operation_def begin_operation_tx_def run_tx_def Let_def bnd_Inr split: sum.splits if_splits)

lemma end_operation_store: "db_ok s \<Longrightarrow> plain_step s (end_operation token s)"
  by (rule step_frame) (auto simp: end_operation_def)

lemma renew_operation_store: "db_ok s \<Longrightarrow> plain_step s (snd (renew_operation e token s))"
  by (rule step_frame) (auto simp: renew_operation_def Let_def)

lemma request_slot_store: "db_ok s \<Longrightarrow> plain_step s (snd (request_slot e s))"
  by (rule step_frame) (auto simp: request_slot_def request_slot_tx_def run_tx_def Let_def bnd_Inr split: sum.splits if_splits)

lemma set_quiesced_store: "db_ok s \<Longrightarrow> plain_step s (set_quiesced b s)"
  by (rule step_frame) (auto simp: set_quiesced_def)

lemma add_audit_books:
  "add_audit e k actor action target s = Inr s' \<Longrightarrow>
    db_orders s' = db_orders s \<and> db_receipts s' = db_receipts s \<and> db_transactions s' = db_transactions s"
  by (auto simp: add_audit_def Let_def split: if_splits)

lemma confirm_webhook_store: "db_ok s \<Longrightarrow> plain_step s (snd (confirm_webhook e revision actor s))"
  by (rule step_frame)
    (auto simp: confirm_webhook_def confirm_webhook_tx_def run_tx_def bnd_Inr dest!: add_audit_books split: sum.splits if_splits)

lemma save_config_store: "db_ok s \<Longrightarrow> plain_step s (snd (save_config v e keys enabled actor s))"
  by (rule step_frame)
    (auto simp: save_config_def save_config_tx_def run_tx_def Let_def bnd_Inr add_version_def dest!: add_audit_books
      split: sum.splits if_splits)

end
