(* ===== verification/PayLaws.thy ===== *)
theory PayLaws
  imports PayBooks
begin

text \<open>
  What the jobs of the payment service guarantee in every interleaving with any number of other jobs of any
  number of processes, whatever the provider answers: the books stay balanced, only committed payments are
  announced, and the status of an order moves only on evidence.
\<close>

section \<open>The contract of the jobs\<close>

type_synonym past = "(string \<Rightarrow> string, world, question, answer) trace list"

text \<open>A trace keeps the hash function of the moment.\<close>

abbreviation hash_of :: "moment \<Rightarrow> string \<Rightarrow> string" where
  "hash_of m \<equiv> sha_hex (mo_env m)"

definition answer_ok :: "answer \<Rightarrow> bool" where
  "answer_ok a \<longleftrightarrow> (case a of Failed (Some f) \<Rightarrow> pe_retry f \<le> max_int64 | _ \<Rightarrow> True)"

definition world_ok :: "world \<Rightarrow> bool" where
  "world_ok w \<longleftrightarrow> db_ok (w_db w) \<and> (\<forall>n\<in>set (w_published w). \<exists>c\<in>set (db_receipts (w_db w)). rc_transaction c = n_transaction n)"

definition world_le :: "world \<Rightarrow> world \<Rightarrow> bool" where
  "world_le w w' \<longleftrightarrow> db_le (w_db w) (w_db w')"

text \<open>The job saw the order in a state it left behind.\<close>

definition saw :: "past \<Rightarrow> (order \<Rightarrow> bool) \<Rightarrow> bool" where
  "saw h p \<longleftrightarrow> (\<exists>m a b r. Did m a b \<in> set h \<and> r \<in> set (db_orders (w_db b)) \<and> p r)"

definition told_link :: "past \<Rightarrow> int \<Rightarrow> payment_link \<Rightarrow> bool" where
  "told_link h code l \<longleftrightarrow> (\<exists>k. Heard (QGet k code) (Link l) \<in> set h \<or> Heard (QCancel k code) (Link l) \<in> set h)"

definition told_absent :: "past \<Rightarrow> int \<Rightarrow> bool" where
  "told_absent h code \<longleftrightarrow> (\<exists>k f. Heard (QGet k code) (Failed (Some f)) \<in> set h \<and> pe_status f = 404)"

definition told_created :: "past \<Rightarrow> order \<Rightarrow> bool" where
  "told_created h r \<longleftrightarrow> (\<exists>k q p. Heard (QCreate k q) (Created p) \<in> set h \<and> rp_code p = o_code r \<and> rp_amount p = o_amount r \<and>
     rp_status p = ''PENDING'')"

text \<open>
  Evidence for a status: the provider told the job so in a link of the order's number and amount, or in the
  answer to a Create; FAILED needs a rejected Create and a 404; and a job may write back what it saw.
\<close>

definition evidence_for :: "past \<Rightarrow> order \<Rightarrow> string \<Rightarrow> bool" where
  "evidence_for h r status \<longleftrightarrow>
     (\<exists>l. told_link h (o_code r) l \<and> pl_code l = o_code r \<and> pl_amount l = o_amount r \<and> pl_status l = status) \<or>
     (status = ''PENDING'' \<and> told_created h r) \<or>
     (status = ''FAILED'' \<and> told_absent h (o_code r) \<and> saw h (\<lambda>x. o_id x = o_id r \<and> has_prefix (o_error x) ''CREATE_REJECTED_HTTP_'')) \<or>
     saw h (\<lambda>x. o_id x = o_id r \<and> o_status x = status)"

definition may_change :: "past \<Rightarrow> world \<Rightarrow> world \<Rightarrow> bool" where
  "may_change h w w' \<longleftrightarrow> status_step
     (\<lambda>r. o_status r = ''CREATING'' \<and> (\<forall>x\<in>set (db_orders (w_db w)). o_id x \<noteq> o_id r) \<or> evidence_for h r (o_status r))
     (db_orders (w_db w)) (db_orders (w_db w'))"

text \<open>
  A link is created for an order that this job itself has just reserved, or after the provider answered about
  the order: it does not know it, or it showed a link of it.
\<close>

definition created_here :: "past \<Rightarrow> int \<Rightarrow> bool" where
  "created_here h code \<longleftrightarrow> (\<exists>H a b. Did H a b \<in> set h \<and> (\<forall>r\<in>set (db_orders (w_db a)). o_code r \<noteq> code) \<and>
     (\<exists>r\<in>set (db_orders (w_db b)). o_code r = code))"

definition told :: "past \<Rightarrow> int \<Rightarrow> bool" where
  "told h code \<longleftrightarrow> told_absent h code \<or> (\<exists>l. told_link h code l)"

definition may_ask :: "past \<Rightarrow> question \<Rightarrow> bool" where
  "may_ask h q \<longleftrightarrow> (case q of QCreate k cq \<Rightarrow> created_here h (cq_code cq) \<or> told h (cq_code cq) | _ \<Rightarrow> True)"

lemma may_ask_simps [simp]: "may_ask h (QGet k c)" "may_ask h (QCancel k c)" "may_ask h (QConfirm k u)" "may_ask h (QWait t)"
  by (simp_all add: may_ask_def)

interpretation svc: job_rules moment_ok hash_of answer_ok world_ok world_le may_change may_ask
  by unfold_locales (auto simp: world_le_def db_le_refl intro: db_le_trans)

section \<open>Chaining\<close>

definition ext :: "past \<Rightarrow> ('a \<Rightarrow> past \<Rightarrow> bool) \<Rightarrow> 'a \<Rightarrow> past \<Rightarrow> bool" where
  "ext h Q a h' \<longleftrightarrow> set h \<subseteq> set h' \<and> Q a h'"

abbreviation fine :: "'a pay_job \<Rightarrow> past \<Rightarrow> bool" where
  "fine m h \<equiv> svc.safe m (ext h (\<lambda>_ _. True)) h"

lemma ext_weaken:
  "svc.safe m (ext h' R) h' \<Longrightarrow> set h \<subseteq> set h' \<Longrightarrow> (\<And>a g. R a g \<Longrightarrow> R' a g) \<Longrightarrow> svc.safe m (ext h R') h'"
  by (erule svc.safe_mono) (auto simp: ext_def)

lemma fine_any: "svc.safe m (ext h' R) h' \<Longrightarrow> set h \<subseteq> set h' \<Longrightarrow> svc.safe m (ext h (\<lambda>_ _. True)) h'"
  by (erule ext_weaken) auto

lemma chain:
  assumes "svc.safe m (ext h Q) h" "\<And>a h'. set h \<subseteq> set h' \<Longrightarrow> Q a h' \<Longrightarrow> svc.safe (f a) (ext h' R) h'"
  shows "svc.safe (andthen m f) (ext h R) h"
  unfolding svc.safe_andthen
  by (rule svc.safe_mono[OF assms(1)]) (auto simp: ext_def intro!: ext_weaken[OF assms(2)])

lemma chain_attempt:
  assumes "svc.safe m (ext h Q) h" "\<And>a h'. set h \<subseteq> set h' \<Longrightarrow> Q (Inr a) h' \<Longrightarrow> svc.safe (f a) (ext h' R) h'"
    and "\<And>x h'. set h \<subseteq> set h' \<Longrightarrow> Q (Inl x) h' \<Longrightarrow> R (Inl x) h'"
  shows "svc.safe (attempt m f) (ext h R) h"
  unfolding attempt_def
  by (rule chain[OF assms(1)]) (auto simp: ext_def assms(2,3) split: sum.split)

lemma ext_here [simp]: "ext h R a h \<longleftrightarrow> R a h"
  by (simp add: ext_def)

lemma after_world: "svc.after h w \<Longrightarrow> Did m a b \<in> set h \<Longrightarrow> db_le (w_db b) (w_db w)"
  by (auto simp: svc.after_def world_le_def)

text \<open>An action that leaves database and announcements alone.\<close>

definition look :: "past \<Rightarrow> (moment \<Rightarrow> world \<Rightarrow> 'a \<times> world) \<Rightarrow> 'a \<Rightarrow> past \<Rightarrow> bool" where
  "look h f a h' \<longleftrightarrow> (\<exists>m w. moment_ok m \<and> world_ok w \<and> svc.after h w \<and> a = fst (f m w) \<and> h' = Did (hash_of m) w (snd (f m w)) # h)"

lemma safe_look:
  assumes "\<And>m w. w_db (snd (f m w)) = w_db w \<and> w_published (snd (f m w)) = w_published w"
  shows "svc.safe (act f) (ext h (look h f)) h"
  unfolding svc.safe_act
  using assms by (auto simp: ext_def look_def world_ok_def world_le_def db_le_refl may_change_def status_refl)

lemma fine_look: "(\<And>m w. w_db (snd (f m w)) = w_db w \<and> w_published (snd (f m w)) = w_published w) \<Longrightarrow> fine (act f) h"
  by (rule ext_weaken[OF safe_look]) auto

lemma safe_moment: "svc.safe moment_now (ext h (\<lambda>m _. moment_ok m)) h"
  unfolding moment_now_def by (rule ext_weaken[OF safe_look]) (auto simp: look_def)

lemma fine_local: "fine (local_act p f) h"
  unfolding local_act_def by (rule fine_look) simp

lemma safe_get: "svc.safe (db_get f) (ext h (\<lambda>a h'. \<exists>m w. moment_ok m \<and> world_ok w \<and> svc.after h w \<and> a = f (mo_env m) (w_db w) \<and> Did (hash_of m) w w \<in> set h')) h"
  unfolding db_get_def
proof (rule ext_weaken[OF safe_look])
  fix a h' assume "look h (\<lambda>m w. (f (mo_env m) (w_db w), w)) a h'"
  then obtain m w where "moment_ok m" "world_ok w" "svc.after h w" "a = f (mo_env m) (w_db w)" "h' = Did (hash_of m) w w # h"
    unfolding look_def by auto
  then show "\<exists>m w. moment_ok m \<and> world_ok w \<and> svc.after h w \<and> a = f (mo_env m) (w_db w) \<and> Did (hash_of m) w w \<in> set h'"
    by (intro exI[of _ m] exI[of _ w]) simp
qed auto

text \<open>A database action within its contract.\<close>

definition did :: "past \<Rightarrow> (env \<Rightarrow> db \<Rightarrow> 'a \<times> db) \<Rightarrow> 'a \<Rightarrow> past \<Rightarrow> bool" where
  "did h f a h' \<longleftrightarrow> (\<exists>m w. moment_ok m \<and> world_ok w \<and> svc.after h w \<and> a = fst (f (mo_env m) (w_db w)) \<and>
     world_ok (w\<lparr>w_db := snd (f (mo_env m) (w_db w))\<rparr>) \<and> Did (hash_of m) w (w\<lparr>w_db := snd (f (mo_env m) (w_db w))\<rparr>) \<in> set h')"

lemma didE:
  assumes "did h f a h'"
  obtains m w s where "moment_ok m" "world_ok w" "svc.after h w" "f (mo_env m) (w_db w) = (a, s)" "world_ok (w\<lparr>w_db := s\<rparr>)"
    "Did (hash_of m) w (w\<lparr>w_db := s\<rparr>) \<in> set h'"
  using assms unfolding did_def by (metis prod.collapse)

lemma world_step:
  assumes "world_ok w" "store_step P (w_db w) s'"
    and "\<And>r. P r \<Longrightarrow> o_status r = ''CREATING'' \<and> (\<forall>x\<in>set (db_orders (w_db w)). o_id x \<noteq> o_id r) \<or> evidence_for h r (o_status r)"
  shows "world_ok (w\<lparr>w_db := s'\<rparr>) \<and> world_le w (w\<lparr>w_db := s'\<rparr>) \<and> may_change h w (w\<lparr>w_db := s'\<rparr>)"
proof -
  have st: "db_ok s'" "db_le (w_db w) s'" "status_step P (db_orders (w_db w)) (db_orders s')"
    using assms(2) by (simp_all add: store_step_def)
  have "may_change h w (w\<lparr>w_db := s'\<rparr>)"
    unfolding may_change_def using status_mono[OF st(3)] assms(3) by simp
  moreover have "world_ok (w\<lparr>w_db := s'\<rparr>)"
    using assms(1) st(1,2) by (auto simp: world_ok_def db_le_def)
  ultimately show ?thesis using st(2) by (simp add: world_le_def)
qed

lemma safe_db:
  assumes "\<And>m w. moment_ok m \<Longrightarrow> world_ok w \<Longrightarrow> svc.after h w \<Longrightarrow>
    \<exists>P. store_step P (w_db w) (snd (f (mo_env m) (w_db w))) \<and>
      (\<forall>r. P r \<longrightarrow> o_status r = ''CREATING'' \<and> (\<forall>x\<in>set (db_orders (w_db w)). o_id x \<noteq> o_id r) \<or> evidence_for h r (o_status r))"
  shows "svc.safe (db_act f) (ext h (did h f)) h"
  unfolding db_act_def svc.safe_act
proof (intro allI impI, goal_cases)
  case (1 m w)
  from assms[OF 1] obtain P where "store_step P (w_db w) (snd (f (mo_env m) (w_db w)))"
    "\<forall>r. P r \<longrightarrow> o_status r = ''CREATING'' \<and> (\<forall>x\<in>set (db_orders (w_db w)). o_id x \<noteq> o_id r) \<or> evidence_for h r (o_status r)" by blast
  from world_step[OF 1(2) this(1)] this(2) 1 show ?case by (auto simp: ext_def did_def)
qed

lemma safe_db_plain:
  assumes "\<And>e s. db_ok s \<Longrightarrow> clock_ok (e_now e) \<Longrightarrow> plain_step s (snd (f e s))"
  shows "svc.safe (db_act f) (ext h (did h f)) h"
proof (rule safe_db)
  fix m w assume "moment_ok m" "world_ok w"
  then have "plain_step (w_db w) (snd (f (mo_env m) (w_db w)))" by (intro assms moment_clock) (auto simp: world_ok_def)
  then show "\<exists>P. store_step P (w_db w) (snd (f (mo_env m) (w_db w))) \<and>
      (\<forall>r. P r \<longrightarrow> o_status r = ''CREATING'' \<and> (\<forall>x\<in>set (db_orders (w_db w)). o_id x \<noteq> o_id r) \<or> evidence_for h r (o_status r))" by blast
qed

lemma safe_store:
  assumes "svc.safe m (ext h Q) h"
  shows "svc.safe (store m) (ext h (\<lambda>a h'. \<exists>r. Q r h' \<and> a = (case r of Inl x \<Rightarrow> Inl (StoreErr x) | Inr b \<Rightarrow> Inr b))) h"
  unfolding store_def by (rule chain[OF assms]) (simp add: ext_def, blast)

section \<open>What a job knows of an order\<close>

text \<open>Intent, status, error and times of the order as the job read it.\<close>

definition known :: "past \<Rightarrow> order \<Rightarrow> bool" where
  "known h r \<longleftrightarrow> saw h (\<lambda>x. o_id x = o_id r \<and> o_code x = o_code r \<and> o_amount x = o_amount r \<and> o_status x = o_status r \<and>
     o_error x = o_error r) \<and> (\<forall>t. parse_nano (o_expires r) = Some t \<longrightarrow> 0 \<le> t \<and> t < horizon + 3600 * second) \<and>
     (\<forall>t. parse_nano (o_lease r) = Some t \<longrightarrow> in_range t)"

lemma saw_mono: "saw h p \<Longrightarrow> set h \<subseteq> set h' \<Longrightarrow> saw h' p"
  unfolding saw_def by blast

lemma known_mono: "known h r \<Longrightarrow> set h \<subseteq> set h' \<Longrightarrow> known h' r"
  unfolding known_def using saw_mono by blast

lemma told_mono: "told_link h c l \<Longrightarrow> set h \<subseteq> set h' \<Longrightarrow> told_link h' c l"
  unfolding told_link_def by blast

lemma evidence_mono: "evidence_for h r st \<Longrightarrow> set h \<subseteq> set h' \<Longrightarrow> evidence_for h' r st"
  unfolding evidence_for_def told_link_def told_absent_def told_created_def saw_def by blast

lemma evidence_cong:
  "o_id r = o_id r' \<Longrightarrow> o_code r = o_code r' \<Longrightarrow> o_amount r = o_amount r' \<Longrightarrow> evidence_for h r st = evidence_for h r' st"
  by (simp add: evidence_for_def told_created_def)

lemma parse_nano_Nil: "parse_nano [] = None"
  by (simp add: parse_nano_def parse_layout_def rfc3339_nano_layout_def ymd_layout_def get_year_def)

lemma known_row:
  assumes "Did m a b \<in> set h" "r \<in> set (db_orders (w_db b))" "world_ok b"
  shows "known h r"
proof -
  have "in_time (db_orders (w_db b))" "order_wf r"
    using assms(2,3) ok_orders orders_inv_wf by (auto simp: world_ok_def db_ok_def)
  moreover have "in_range t" if "parse_nano (o_lease r) = Some t" for t
    using \<open>order_wf r\<close> that stamp_parse[of "o_lease r"] by (cases "o_lease r = []") (auto simp: order_wf_def parse_nano_Nil)
  ultimately show ?thesis
    using assms(1,2) unfolding known_def saw_def in_time_def by blast
qed

lemma known_link: "known h r \<Longrightarrow> known h (r\<lparr>o_link := l\<rparr>)"
  by (simp add: known_def)

text \<open>A later row with the identifier of a known order is that order.\<close>

lemma known_later:
  assumes "known h r" "svc.after h w" "world_ok w" "x \<in> set (db_orders (w_db w))" "o_id x = o_id r"
  shows "o_code x = o_code r \<and> o_amount x = o_amount r"
proof -
  obtain m a b y where y: "Did m a b \<in> set h" "y \<in> set (db_orders (w_db b))" "o_id y = o_id r" "o_code y = o_code r" "o_amount y = o_amount r"
    using assms(1) unfolding known_def saw_def by blast
  have "orders_extend (db_orders (w_db b)) (db_orders (w_db w))" using after_world[OF assms(2) y(1)] by (simp add: db_le_def)
  then obtain z where z: "z \<in> set (db_orders (w_db w))" "order_extends y z" using y(2) unfolding orders_extend_def by blast
  have "orders_inv (db_orders (w_db w))" using assms(3) ok_orders by (auto simp: world_ok_def)
  then have "z = x" using row_unique[OF _ z(1) assms(4)] z(2) y(3) assms(5) by (simp add: order_extends_def)
  then show ?thesis using z(2) y(4,5) by (simp add: order_extends_def)
qed

definition time_ok :: "instant \<Rightarrow> bool" where
  "time_ok t \<longleftrightarrow> t = zero_time \<or> in_range t"

text \<open>Giving up the claim writes only a status there is evidence for.\<close>

lemma complete_safe:
  assumes "known h r" "ou_status u = [] \<or> evidence_for h r (ou_status u)" "time_ok (ou_next u)"
  shows "svc.safe (db_act (\<lambda>e. complete_payment_order_operation e (o_id r) token u))
    (ext h (did h (\<lambda>e. complete_payment_order_operation e (o_id r) token u))) h"
proof (rule safe_db)
  fix m w assume mw: "moment_ok m" "world_ok w" "svc.after h w"
  let ?P = "completes (o_id r) token u (db_orders (w_db w))"
  have "store_step ?P (w_db w) (snd (complete_payment_order_operation (mo_env m) (o_id r) token u (w_db w)))"
    using mw(2) assms(3) by (intro complete_store) (auto simp: world_ok_def time_ok_def)
  moreover have "evidence_for h x (o_status x)" if "?P x" for x
  proof -
    obtain y where y: "y \<in> set (db_orders (w_db w))" "o_id y = o_id r" "o_id x = o_id r" "order_extends y x"
      and st: "o_status x = ou_status u" "ou_status u \<noteq> []" using \<open>?P x\<close> by (auto simp: completes_def)
    have "o_code x = o_code r" "o_amount x = o_amount r"
      using known_later[OF assms(1) mw(3,2) y(1,2)] y(4) by (simp_all add: order_extends_def)
    then have "evidence_for h x (ou_status u) = evidence_for h r (ou_status u)" using y(3) by (intro evidence_cong)
    then show ?thesis using assms(2) st by simp
  qed
  ultimately show "\<exists>P. store_step P (w_db w) (snd (complete_payment_order_operation (mo_env m) (o_id r) token u (w_db w))) \<and>
      (\<forall>x. P x \<longrightarrow> o_status x = ''CREATING'' \<and> (\<forall>y\<in>set (db_orders (w_db w)). o_id y \<noteq> o_id x) \<or> evidence_for h x (o_status x))" by blast
qed

lemma finish_safe:
  assumes "known h r" "ou_status u = [] \<or> evidence_for h r (ou_status u)" "time_ok (ou_next u)"
  shows "fine (finish_reconcile r u) h"
  unfolding finish_reconcile_def by (rule chain[OF complete_safe[OF assms]]) (simp add: ext_def)

section \<open>Errors and times\<close>

definition good :: "svc_err + 'a \<Rightarrow> bool" where
  "good a \<longleftrightarrow> (\<forall>f. a = Inl (ProviderErr f) \<longrightarrow> pe_retry f \<le> max_int64)"

text \<open>An error that is not the provider's.\<close>

definition calm :: "svc_err + 'a \<Rightarrow> bool" where
  "calm a \<longleftrightarrow> (\<forall>f. a \<noteq> Inl (ProviderErr f))"

lemma calm_good: "calm a \<Longrightarrow> good a"
  by (simp add: calm_def good_def)

lemma calm_simps [simp]: "calm (Inr b)" "calm (Inl (StoreErr x))" "calm (Inl ErrPaymentUnavailable)" "calm (Inl Interrupted)"
  by (simp_all add: calm_def)

lemma good_simps [simp]: "good (Inr b)" "good (Inl (StoreErr x))" "good (Inl ErrPaymentUnavailable)" "good (Inl Interrupted)"
  by (simp_all add: calm_good)

lemma doubled_bounds: "0 < d \<Longrightarrow> d \<le> doubled n d"
proof (induction n d rule: doubled.induct)
  case (2 n d)
  show ?case
  proof (cases "d < 900 * second")
    case True
    then have "d * 2 \<le> doubled n (d * 2)" using 2 by simp
    then show ?thesis using True 2(2) by simp
  qed simp
qed simp

lemma failure_delay_bounds:
  assumes "\<And>f. x = Some (ProviderErr f) \<Longrightarrow> pe_retry f \<le> max_int64"
  shows "30 * second \<le> failure_delay n jitter x \<and> failure_delay n jitter x \<le> max_int64"
proof -
  define d1 where "d1 = (if 900 * second < doubled (nat (n - 1)) (30 * second) then 900 * second
    else doubled (nat (n - 1)) (30 * second))"
  define d2 where "d2 = (case jitter of None \<Rightarrow> d1 | Some j \<Rightarrow> d1 + int j mod (d1 div 5 + 1))"
  have d1: "30 * second \<le> d1 \<and> d1 \<le> 900 * second"
    using doubled_bounds[of "30 * second" "nat (n - 1)"] by (auto simp: d1_def)
  have m: "0 \<le> int j mod (d1 div 5 + 1) \<and> int j mod (d1 div 5 + 1) \<le> d1 div 5" for j
  proof -
    have "0 < d1 div 5 + 1" using d1 by auto
    then show ?thesis using pos_mod_sign[of "d1 div 5 + 1" "int j"] pos_mod_bound[of "d1 div 5 + 1" "int j"] by linarith
  qed
  have "d1 div 5 \<le> d1" using d1 by auto
  then have d2: "30 * second \<le> d2 \<and> d2 \<le> 1800 * second"
    unfolding d2_def using d1 m by (cases jitter) (simp, simp, smt (verit))
  have "failure_delay n jitter x = (case x of Some (ProviderErr f) \<Rightarrow> if d2 < pe_retry f then pe_retry f else d2 | _ \<Rightarrow> d2)"
    unfolding failure_delay_def Let_def d2_def d1_def ..
  then show ?thesis
    using d2 assms by (auto simp: max_int64_def split: option.splits svc_err.splits)
qed

lemma time_okI: "0 \<le> t \<Longrightarrow> t \<le> horizon + max_int64 \<Longrightarrow> time_ok t"
  unfolding time_ok_def by (intro disjI2 in_range_between) (auto simp: horizon_def max_int64_def)

lemma failure_time:
  assumes "moment_ok m" "good a"
  shows "time_ok (ou_next (failure_update r (err_of a) code j (e_now (mo_env m))))"
proof -
  have "30 * second \<le> failure_delay (o_attempts r + 1) j (err_of a) \<and> failure_delay (o_attempts r + 1) j (err_of a) \<le> max_int64"
    using assms(2) by (intro failure_delay_bounds) (auto simp: good_def err_of_def split: sum.splits)
  then show ?thesis
    using assms(1) by (intro time_okI) (auto simp: failure_update_def moment_ok_def)
qed

lemma terminal_time:
  assumes "moment_ok m" "known h r"
  shows "time_ok (terminal_reconcile_at r (e_now (mo_env m)))"
proof (cases "parse_nano (o_expires r)")
  case None
  then show ?thesis
    using assms(1) by (intro time_okI) (auto simp: terminal_reconcile_at_def moment_ok_def day_def horizon_def max_int64_def)
next
  case (Some t)
  have t: "0 \<le> t \<and> t < horizon + 3600 * second" using assms(2) Some unfolding known_def by blast
  show ?thesis
  proof (cases "e_now (mo_env m) < t + day")
    case True
    then show ?thesis
      using t Some by (intro time_okI) (auto simp: terminal_reconcile_at_def day_def horizon_def max_int64_def)
  next
    case False
    then show ?thesis using Some by (simp add: terminal_reconcile_at_def time_ok_def)
  qed
qed

lemma soon_time: "moment_ok m \<Longrightarrow> time_ok (e_now (mo_env m) + 60 * second)"
  by (rule time_okI) (auto simp: moment_ok_def max_int64_def)

lemma no_update_simps [simp]: "ou_status no_update = []" "ou_next no_update = zero_time"
  by (simp_all add: no_update_def)

lemma failure_status [simp]: "ou_status (failure_update r x code j t) = []"
  by (simp add: failure_update_def)

lemma time_ok_zero [simp]: "time_ok zero_time"
  by (simp add: time_ok_def)

section \<open>Calls\<close>

lemma post_weaken: "svc.safe m (ext h Q) h \<Longrightarrow> (\<And>a g. Q a g \<Longrightarrow> R a g) \<Longrightarrow> svc.safe m (ext h R) h"
  by (erule ext_weaken) auto

lemma calm_store: "svc.safe m (ext h Q) h \<Longrightarrow> svc.safe (store m) (ext h (\<lambda>a _. calm a)) h"
proof (rule post_weaken[OF safe_store[where Q = Q]])
  fix a :: "svc_err + 'a" and g
  assume "\<exists>r. Q r g \<and> a = (case r of Inl x \<Rightarrow> Inl (StoreErr x) | Inr b \<Rightarrow> Inr b)"
  then show "calm a" by (metis calm_simps(1,2) sum.case old.sum.exhaust)
qed

lemma calm_mutation: "svc.safe mutation_allowed (ext h (\<lambda>a _. calm a)) h"
  unfolding mutation_allowed_def by (rule calm_store[OF safe_get])

lemma calm_wait: "svc.safe (wait_until at) (ext h (\<lambda>a _. calm a)) h"
  unfolding wait_until_def by (auto simp: ext_def split: answer.split)

lemma calm_local: "(\<And>m l. calm (fst (f m l))) \<Longrightarrow> svc.safe (local_act p f) (ext h (\<lambda>a _. calm a)) h"
  unfolding local_act_def by (rule post_weaken[OF safe_look]) (auto simp: look_def)

lemma calm_attempt:
  "svc.safe m (ext h (\<lambda>a _. calm a)) h \<Longrightarrow> (\<And>a h'. set h \<subseteq> set h' \<Longrightarrow> svc.safe (f a) (ext h' (\<lambda>a _. calm a)) h') \<Longrightarrow>
    svc.safe (attempt m f) (ext h (\<lambda>a _. calm a)) h"
  by (rule chain_attempt[where Q = "\<lambda>a _. calm a"]) (simp_all add: calm_def)

lemma calm_slot: "svc.safe (provider_slot sv) (ext h (\<lambda>a _. calm a)) h"
proof -
  have w: "svc.safe (if b then wait_until at else Done (Inr ())) (ext g (\<lambda>a _. calm a)) g" for b at g
    using calm_wait by simp
  have s: "svc.safe (store (db_act request_slot)) (ext h (\<lambda>a _. calm a)) h"
    by (rule calm_store[OF safe_db_plain]) (rule request_slot_store)
  show ?thesis
    unfolding provider_slot_def
    by (auto simp: Let_def intro!: calm_attempt chain[OF safe_moment] s w calm_mutation calm_local)
qed

lemma activity_fine: "fine (record_activity sv kind) h"
  unfolding record_activity_def
  by (rule chain[OF safe_db_plain[OF record_activity_store]]) (simp_all add: ext_def)

definition heard_link :: "int \<Rightarrow> svc_err + payment_link \<Rightarrow> past \<Rightarrow> bool" where
  "heard_link code a h \<longleftrightarrow> good a \<and> (\<forall>l. a = Inr l \<longrightarrow> told_link h code l) \<and>
     (\<forall>f. a = Inl (ProviderErr f) \<longrightarrow> pe_status f = 404 \<longrightarrow> told_absent h code)"

lemma heard_calm: "calm a \<Longrightarrow> (\<And>l. a \<noteq> Inr l) \<Longrightarrow> heard_link code a h"
  by (simp add: heard_link_def calm_good) (simp add: calm_def)

lemma good_answer: "answer_ok (Failed p) \<Longrightarrow> good (Inl (failed p))"
  by (auto simp: good_def failed_def answer_ok_def split: option.splits)

lemma ask_get_heard: "svc.safe (ask_get k code) (ext h (heard_link code)) h"
  unfolding ask_get_def
proof (simp add: svc.safe_andthen, intro allI impI)
  fix a assume a: "answer_ok a"
  show "ext h (heard_link code) (case a of Failed f \<Rightarrow> Inl (failed f) | Link l \<Rightarrow> Inr l | _ \<Rightarrow> Inl Interrupted) (Heard (QGet k code) a # h)"
  proof (cases a)
    case (Failed p)
    show ?thesis
      using a good_answer[of p] unfolding Failed
      by (auto simp: ext_def heard_link_def told_absent_def failed_def split: option.splits)
  qed (auto simp: ext_def heard_link_def told_link_def)
qed

lemma ask_cancel_heard:
  "svc.safe (ask_cancel k code) (ext h (\<lambda>a h'. good a \<and> (\<forall>l. a = Inr l \<longrightarrow> told_link h' code l))) h"
  unfolding ask_cancel_def
proof (simp add: svc.safe_andthen, intro allI impI)
  fix a assume a: "answer_ok a"
  show "ext h (\<lambda>a h'. good a \<and> (\<forall>l. a = Inr l \<longrightarrow> told_link h' code l))
      (case a of Failed f \<Rightarrow> Inl (failed f) | Link l \<Rightarrow> Inr l | _ \<Rightarrow> Inl Interrupted) (Heard (QCancel k code) a # h)"
    using a good_answer by (cases a) (auto simp: ext_def told_link_def)
qed

lemma did_row:
  assumes "did h f a h'" "\<And>e s. (case fst (f e s) of Inl _ \<Rightarrow> True | Inr r \<Rightarrow> r \<in> set (db_orders (snd (f e s))))" "a = Inr r"
  shows "known h' r"
proof -
  from assms(1) show ?thesis
  proof (rule didE)
    fix m w s assume w: "f (mo_env m) (w_db w) = (a, s)" "world_ok (w\<lparr>w_db := s\<rparr>)" "Did (hash_of m) w (w\<lparr>w_db := s\<rparr>) \<in> set h'"
    have "r \<in> set (db_orders s)" using assms(2)[of "mo_env m" "w_db w"] w(1) assms(3) by simp
    then show ?thesis using known_row[OF w(3)] w(2) by simp
  qed
qed

lemma renew_row: "case fst (renew_payment_order_operation e i token b s) of Inl _ \<Rightarrow> True
    | Inr r \<Rightarrow> r \<in> set (db_orders (snd (renew_payment_order_operation e i token b s)))"
proof (cases "token = []")
  case False
  show ?thesis
  proof (cases "renew_payment_order_operation_tx e i token b s")
    case (Inr p)
    then obtain s' r where "p = (r, s')" "payment_order i s' = Inr r"
      by (auto simp: renew_payment_order_operation_tx_def bnd_Inr Let_def split: option.splits if_splits)
    then show ?thesis using False Inr payment_order_in by (auto simp: renew_payment_order_operation_def run_tx_def)
  qed (simp add: renew_payment_order_operation_def run_tx_def False)
qed (simp add: renew_payment_order_operation_def)

lemma renew_row_id:
  "case fst (renew_payment_order_operation e i token b s) of Inl _ \<Rightarrow> True | Inr r \<Rightarrow> o_id r = i"
proof (cases "token = []")
  case False
  show ?thesis
  proof (cases "renew_payment_order_operation_tx e i token b s")
    case (Inr p)
    then obtain s' r where "p = (r, s')" "payment_order i s' = Inr r"
      by (auto simp: renew_payment_order_operation_tx_def bnd_Inr Let_def split: option.splits if_splits)
    then show ?thesis using False Inr payment_order_in by (auto simp: renew_payment_order_operation_def run_tx_def)
  qed (simp add: renew_payment_order_operation_def run_tx_def False)
qed (simp add: renew_payment_order_operation_def)

lemma renew_known: "svc.safe (renew_claim r b) (ext h (\<lambda>a h'. calm a \<and> (\<forall>r'. a = Inr r' \<longrightarrow> known h' r'))) h"
  unfolding renew_claim_def
proof (rule post_weaken[OF safe_store[OF safe_db_plain[OF renew_store]]])
  fix a g
  assume "\<exists>x. did h (\<lambda>e. renew_payment_order_operation e (o_id r) (o_token r) b) x g \<and>
    a = (case x of Inl y \<Rightarrow> Inl (StoreErr y) | Inr c \<Rightarrow> Inr c)"
  then obtain x where x: "did h (\<lambda>e. renew_payment_order_operation e (o_id r) (o_token r) b) x g"
    "a = (case x of Inl y \<Rightarrow> Inl (StoreErr y) | Inr c \<Rightarrow> Inr c)" by blast
  show "calm a \<and> (\<forall>r'. a = Inr r' \<longrightarrow> known g r')"
    using did_row[OF x(1) renew_row] x(2) by (cases x) auto
qed

lemma renew_same:
  assumes "known h r"
  shows "svc.safe (renew_claim r b) (ext h (\<lambda>a h'. calm a \<and> (\<forall>r'. a = Inr r' \<longrightarrow> known h' r' \<and> o_code r' = o_code r))) h"
  unfolding renew_claim_def
proof (rule post_weaken[OF safe_store[OF safe_db_plain[OF renew_store]]])
  let ?f = "\<lambda>e. renew_payment_order_operation e (o_id r) (o_token r) b"
  fix a g
  assume "\<exists>x. did h ?f x g \<and> a = (case x of Inl y \<Rightarrow> Inl (StoreErr y) | Inr c \<Rightarrow> Inr c)"
  then obtain x where x: "did h ?f x g" "a = (case x of Inl y \<Rightarrow> Inl (StoreErr y) | Inr c \<Rightarrow> Inr c)" by blast
  have "known g r' \<and> o_code r' = o_code r" if r': "x = Inr r'" for r'
    using x(1)
  proof (rule didE)
    fix m w s assume w: "moment_ok m" "world_ok w" "svc.after h w" "?f (mo_env m) (w_db w) = (x, s)" "world_ok (w\<lparr>w_db := s\<rparr>)"
    have row: "r' \<in> set (db_orders s)" "o_id r' = o_id r"
      using renew_row[of "mo_env m" "o_id r" "o_token r" b "w_db w"] renew_row_id[of "o_id r" "mo_env m" "o_token r" b "w_db w"] w(4) r' by simp_all
    have "plain_step (w_db w) s" using renew_store[of "w_db w" "mo_env m" "o_id r" "o_token r" b] w(1,2,4) moment_clock by (simp add: world_ok_def)
    then have "world_le w (w\<lparr>w_db := s\<rparr>)" by (simp add: world_le_def store_step_def)
    then have "svc.after h (w\<lparr>w_db := s\<rparr>)" by (rule svc.after_le[OF w(3)])
    then have "o_code r' = o_code r" using known_later[OF assms _ w(5), of r'] row by simp
    then show ?thesis using did_row[OF x(1) renew_row r'] by simp
  qed
  then show "calm a \<and> (\<forall>r'. a = Inr r' \<longrightarrow> known g r' \<and> o_code r' = o_code r)"
    using x(2) by (cases x) auto
qed

lemma get_claimed_heard: "svc.safe (get_claimed_link sv r) (ext h (heard_link (o_code r))) h"
  unfolding get_claimed_link_def
proof (rule chain_attempt[OF calm_slot])
  fix a h1
  show "svc.safe (attempt (renew_claim r False) (\<lambda>_. attempt (ask_get (provider_keys sv) (o_code r)) (\<lambda>l.
      andthen (record_activity sv ''RECONCILED'') (\<lambda>_. Done (Inr l))))) (ext h1 (heard_link (o_code r))) h1"
  proof (rule chain_attempt[OF renew_known])
    fix b h2
    show "svc.safe (attempt (ask_get (provider_keys sv) (o_code r)) (\<lambda>l.
      andthen (record_activity sv ''RECONCILED'') (\<lambda>_. Done (Inr l)))) (ext h2 (heard_link (o_code r))) h2"
    proof (rule chain_attempt[OF ask_get_heard])
      fix l h3 assume h3: "heard_link (o_code r) (Inr l) h3"
      show "svc.safe (andthen (record_activity sv ''RECONCILED'') (\<lambda>_. Done (Inr l))) (ext h3 (heard_link (o_code r))) h3"
        by (rule chain[OF activity_fine]) (use h3 told_mono in \<open>auto simp: heard_link_def\<close>)
    qed (auto simp: heard_link_def good_def)
  qed (auto intro: heard_calm simp: calm_def)
qed (auto intro: heard_calm simp: calm_def)

lemma cancel_claimed_heard:
  "svc.safe (cancel_claimed_link sv r) (ext h (\<lambda>a h'. good a \<and> (\<forall>l. a = Inr l \<longrightarrow> told_link h' (o_code r) l))) h"
  unfolding cancel_claimed_link_def
proof (rule chain_attempt[OF calm_slot])
  fix a h1
  show "svc.safe (attempt (renew_claim r False) (\<lambda>_. ask_cancel (provider_keys sv) (o_code r)))
    (ext h1 (\<lambda>a h'. good a \<and> (\<forall>l. a = Inr l \<longrightarrow> told_link h' (o_code r) l))) h1"
    by (rule chain_attempt[OF renew_known]) (auto intro: ask_cancel_heard simp: calm_def good_simps(1) intro: calm_good)
qed (auto simp: good_def calm_def)

section \<open>Settlements and announcements\<close>

text \<open>The event names a transaction whose receipt the job saw committed.\<close>

definition committed :: "past \<Rightarrow> event_note \<Rightarrow> bool" where
  "committed h n \<longleftrightarrow> (\<exists>m a b. Did m a b \<in> set h \<and> (\<exists>c\<in>set (db_receipts (w_db b)). rc_transaction c = n_transaction n))"

definition settled :: "svc_err + settlement_result \<Rightarrow> past \<Rightarrow> bool" where
  "settled a h \<longleftrightarrow> calm a \<and> (\<forall>res n. a = Inr res \<longrightarrow> sr_event res = Some n \<longrightarrow> committed h n)"

lemma committed_mono: "committed h n \<Longrightarrow> set h \<subseteq> set h' \<Longrightarrow> committed h' n"
  unfolding committed_def by blast

lemma settle_plain:
  "db_ok s \<Longrightarrow> clock_ok (e_now e) \<Longrightarrow> plain_step s (snd (settle_payment e inp s))"
  using settle_store[of s e inp "fst (settle_payment e inp s)" "snd (settle_payment e inp s)"] by simp

lemma settle_act: "svc.safe (db_act (\<lambda>e. settle_payment e inp)) (ext h (did h (\<lambda>e. settle_payment e inp))) h"
  by (rule safe_db_plain) (rule settle_plain)

lemma did_settle:
  assumes "did h (\<lambda>e. settle_payment e inp) (Inr res) h'" "sr_event res = Some n"
  shows "committed h' n"
  using assms(1)
proof (rule didE)
  fix m w s assume w: "moment_ok m" "world_ok w" "settle_payment (mo_env m) inp (w_db w) = (Inr res, s)"
    "Did (hash_of m) w (w\<lparr>w_db := s\<rparr>) \<in> set h'"
  have "\<exists>c\<in>set (db_receipts s). rc_transaction c = n_transaction n"
    using settle_store[OF _ moment_clock[OF w(1)] w(3)] w(2) assms(2) by (simp add: world_ok_def)
  then show ?thesis
    unfolding committed_def using w(4) by (intro exI[of _ "hash_of m"] exI[of _ w] exI[of _ "w\<lparr>w_db := s\<rparr>"]) simp
qed

lemma settle_settled: "svc.safe (store (db_act (\<lambda>e. settle_payment e inp))) (ext h settled) h"
proof (rule post_weaken[OF safe_store[OF settle_act]])
  fix a g
  assume "\<exists>x. did h (\<lambda>e. settle_payment e inp) x g \<and> a = (case x of Inl y \<Rightarrow> Inl (StoreErr y) | Inr c \<Rightarrow> Inr c)"
  then obtain x where "did h (\<lambda>e. settle_payment e inp) x g" "a = (case x of Inl y \<Rightarrow> Inl (StoreErr y) | Inr c \<Rightarrow> Inr c)" by blast
  then show "settled a g"
    using did_settle by (cases x) (auto simp: settled_def)
qed

lemma publish_fine:
  assumes "\<And>n. sr_event out = Some n \<Longrightarrow> committed h n"
  shows "fine (publish_settlement out) h"
proof (cases "sr_event out")
  case None
  then show ?thesis unfolding publish_settlement_def by (intro fine_look) simp
next
  case (Some n)
  obtain m a b c where b: "Did m a b \<in> set h" "c \<in> set (db_receipts (w_db b))" "rc_transaction c = n_transaction n"
    using assms[OF Some] unfolding committed_def by blast
  have "c \<in> set (db_receipts (w_db w))" if "svc.after h w" for w
    using after_world[OF that b(1)] b(2) by (auto simp: db_le_def)
  then show ?thesis
    unfolding publish_settlement_def svc.safe_act
    using Some b(3) by (auto simp: ext_def world_ok_def world_le_def db_le_refl may_change_def status_refl)
qed

lemma settle_items_settled:
  "(\<And>n. event = Some n \<Longrightarrow> committed h n) \<Longrightarrow> svc.safe (settle_items inp received items res event) (ext h settled) h"
proof (induction items arbitrary: res event h)
  case Nil
  then show ?case by (simp add: settled_def)
next
  case (Cons i items)
  show ?case
    unfolding settle_items.simps
  proof (rule chain[OF safe_moment])
    fix m h1 assume h1: "set h \<subseteq> set h1"
    let ?inp = "seen_at received (e_now (mo_env m)) (inp\<lparr>si_inbox := ib_hash i\<rparr>)"
    show "svc.safe (andthen (store (db_act (\<lambda>e. settle_payment e ?inp))) (\<lambda>r. case r of Inl x \<Rightarrow> Done (Inl x)
     | Inr out \<Rightarrow> if sr_review out \<noteq> [] then Done (Inr out)
         else settle_items inp received items out (case sr_event out of None \<Rightarrow> event | Some n \<Rightarrow> Some n))) (ext h1 settled) h1"
    proof (rule chain[OF settle_settled])
      fix r h2 assume h2: "set h1 \<subseteq> set h2" "settled r h2"
      show "svc.safe (case r of Inl x \<Rightarrow> Done (Inl x) | Inr out \<Rightarrow> if sr_review out \<noteq> [] then Done (Inr out)
         else settle_items inp received items out (case sr_event out of None \<Rightarrow> event | Some n \<Rightarrow> Some n)) (ext h2 settled) h2"
      proof (cases r)
        case (Inr out)
        have "committed h2 n" if "(case sr_event out of None \<Rightarrow> event | Some n \<Rightarrow> Some n) = Some n" for n
          using that Cons.prems committed_mono h1 h2 Inr by (auto simp: settled_def split: option.splits)
        from Cons.IH[OF this] show ?thesis using h2(2) Inr by simp
      qed (use h2(2) in simp)
    qed
  qed
qed

lemma link_settled: "svc.safe (settle_verified_link sv r l) (ext h settled) h"
proof (cases "verified_link_settlement r l")
  case (Inl x)
  then have "x = details_pending"
    by (auto simp: verified_link_settlement_def Let_def split: if_splits list.splits option.splits)
  then show ?thesis using Inl by (simp add: settle_verified_link_def settled_def details_pending_def)
next
  case (Inr inp)
  show ?thesis
    unfolding settle_verified_link_def Inr sum.case Let_def
    by (rule chain[OF safe_get]) (auto intro: settle_items_settled settle_settled simp: settled_def details_pending_def)
qed

section \<open>Ends of an operation\<close>

lemma finish_failed_fine:
  assumes "known h r" "good a" "x = err_of a"
  shows "fine (finish_failed r x code) h"
  unfolding finish_failed_def
proof (rule chain[OF safe_moment])
  fix m h' assume "set h \<subseteq> set h'" "moment_ok m"
  then show "fine (finish_reconcile r (failure_update r x code (mo_jitter m) (e_now (mo_env m)))) h'"
    using assms known_mono failure_time[OF _ assms(2)] by (intro finish_safe) auto
qed

lemma finish_failed_none: "known h r \<Longrightarrow> fine (finish_failed r None code) h"
  by (rule finish_failed_fine[where a = "Inr ()"]) (simp_all add: err_of_def)

lemma finish_undecided_fine:
  assumes "known h r" "good a" "good b"
  shows "fine (finish_undecided r (err_of a) (err_of b) code) h"
  unfolding finish_undecided_def
proof (rule chain[OF safe_moment])
  fix m1 h1 assume h1: "set h \<subseteq> set h1" "moment_ok m1"
  show "fine (andthen moment_now (\<lambda>m2. let u = failure_update r (err_of a) code (mo_jitter m1) (e_now (mo_env m1));
         g = failure_update r (err_of b) code (mo_jitter m2) (e_now (mo_env m2))
     in finish_reconcile r (if ou_next u < ou_next g then u\<lparr>ou_next := ou_next g\<rparr> else u))) h1"
  proof (rule chain[OF safe_moment])
    fix m2 h2 assume h2: "set h1 \<subseteq> set h2" "moment_ok m2"
    have "known h2 r" using assms(1) h1 h2 known_mono by blast
    then show "fine (let u = failure_update r (err_of a) code (mo_jitter m1) (e_now (mo_env m1));
         g = failure_update r (err_of b) code (mo_jitter m2) (e_now (mo_env m2))
     in finish_reconcile r (if ou_next u < ou_next g then u\<lparr>ou_next := ou_next g\<rparr> else u)) h2"
      using failure_time[OF h1(2) assms(2)] failure_time[OF h2(2) assms(3)]
      unfolding Let_def by (intro finish_safe) auto
  qed
qed

text \<open>What a verified link of the provider allows.\<close>

definition proves :: "past \<Rightarrow> order \<Rightarrow> payment_link \<Rightarrow> bool" where
  "proves h r l \<longleftrightarrow> known h r \<and> told_link h (o_code r) l \<and> verified_link_matches r l"

lemma proves_mono: "proves h r l \<Longrightarrow> set h \<subseteq> set h' \<Longrightarrow> proves h' r l"
  unfolding proves_def using known_mono told_mono by blast

lemma proves_evidence: "proves h r l \<Longrightarrow> evidence_for h r (pl_status l)"
  unfolding proves_def evidence_for_def verified_link_matches_def by blast

lemma cancel_then_get_fine:
  assumes "known h r" and "\<And>l h'. set h \<subseteq> set h' \<Longrightarrow> proves h' r l \<Longrightarrow> fine (proved l) h'"
  shows "fine (cancel_then_get sv r code proved) h"
  unfolding cancel_then_get_def
proof (rule chain[OF cancel_claimed_heard])
  fix c h1 assume h1: "set h \<subseteq> set h1" and c: "good c \<and> (\<forall>l. c = Inr l \<longrightarrow> told_link h1 (o_code r) l)"
  have k1: "known h1 r" using assms(1) h1 known_mono by blast
  show "fine (if link_in r {''CANCELLED'', ''EXPIRED''} c then (case c of Inr l \<Rightarrow> proved l | Inl x \<Rightarrow> Done (Inl x))
     else andthen (get_claimed_link sv r) (\<lambda>g.
       if link_in r {''PAID'', ''CANCELLED'', ''EXPIRED''} g then (case g of Inr l \<Rightarrow> proved l | Inl x \<Rightarrow> Done (Inl x))
       else finish_undecided r (err_of c) (err_of g) code)) h1"
  proof (cases "link_in r {''CANCELLED'', ''EXPIRED''} c")
    case True
    then obtain l where l: "c = Inr l" "verified_link_matches r l" by (auto simp: link_in_def split: sum.splits)
    then have "proves h1 r l" using k1 c by (simp add: proves_def)
    then show ?thesis using True l assms(2)[OF h1] by simp
  next
    case False
    have "fine (andthen (get_claimed_link sv r) (\<lambda>g.
       if link_in r {''PAID'', ''CANCELLED'', ''EXPIRED''} g then (case g of Inr l \<Rightarrow> proved l | Inl x \<Rightarrow> Done (Inl x))
       else finish_undecided r (err_of c) (err_of g) code)) h1"
    proof (rule chain[OF get_claimed_heard])
      fix g h2 assume h2: "set h1 \<subseteq> set h2" and g: "heard_link (o_code r) g h2"
      have k2: "known h2 r" using k1 h2 known_mono by blast
      show "fine (if link_in r {''PAID'', ''CANCELLED'', ''EXPIRED''} g then (case g of Inr l \<Rightarrow> proved l | Inl x \<Rightarrow> Done (Inl x))
       else finish_undecided r (err_of c) (err_of g) code) h2"
      proof (cases "link_in r {''PAID'', ''CANCELLED'', ''EXPIRED''} g")
        case True
        then obtain l where l: "g = Inr l" "verified_link_matches r l" by (auto simp: link_in_def split: sum.splits)
        then have "proves h2 r l" using k2 g by (simp add: proves_def heard_link_def)
        then show ?thesis using True l assms(2)[of h2] h1 h2 by auto
      next
        case False
        moreover have "fine (finish_undecided r (err_of c) (err_of g) code) h2"
          using c g by (intro finish_undecided_fine[OF k2]) (simp_all add: heard_link_def)
        ultimately show ?thesis by simp
      qed
    qed
    then show ?thesis using False by simp
  qed
qed

lemma finish_settled_fine:
  assumes "known h r" "settled (Inr out) h"
  shows "fine (finish_settled r out) h"
  unfolding finish_settled_def
proof (rule chain[OF publish_fine])
  show "sr_event out = Some n \<Longrightarrow> committed h n" for n using assms(2) by (simp add: settled_def)
  fix a :: unit and h' assume "set h \<subseteq> set h'"
  then have "known h' r" using assms(1) known_mono by blast
  then show "fine (andthen (finish_reconcile r no_update) (\<lambda>_. Done (Inr ()))) h'"
    by (intro chain[OF finish_safe]) simp_all
qed

lemma paid_end_fine:
  assumes "known h r" "settled res h"
  shows "fine (case res of Inr out \<Rightarrow> if sr_review out = [] then finish_settled r out else finish_failed r None code
     | Inl x \<Rightarrow> finish_failed r (if is_settlement_review x then None else Some x) code) h"
proof (cases res)
  case (Inl x)
  have "good res" using assms(2) by (simp add: settled_def calm_good)
  then show ?thesis
    using Inl finish_failed_none[OF assms(1)] finish_failed_fine[OF assms(1), of res] by (auto simp: err_of_def)
next
  case (Inr out)
  then show ?thesis using assms finish_settled_fine finish_failed_none by auto
qed

lemma complete_cancellation_fine:
  assumes "proves h r l"
  shows "fine (complete_cancellation sv r l) h"
proof (cases "pl_status l = ''PAID''")
  case True
  have "fine (andthen (settle_verified_link sv r l) (\<lambda>res. case res of
          Inl x \<Rightarrow> if is_settlement_review x then finish_failed r None ''PAYMENT_DETAILS_PENDING'' else Done (Inl x)
        | Inr out \<Rightarrow> if sr_review out \<noteq> [] then finish_failed r None ''PAYMENT_DETAILS_PENDING'' else finish_settled r out)) h"
  proof (rule chain[OF link_settled])
    fix res h' assume h': "set h \<subseteq> set h'" "settled res h'"
    then have "known h' r" using assms known_mono unfolding proves_def by blast
    then show "fine (case res of Inl x \<Rightarrow> if is_settlement_review x then finish_failed r None ''PAYMENT_DETAILS_PENDING'' else Done (Inl x)
        | Inr out \<Rightarrow> if sr_review out \<noteq> [] then finish_failed r None ''PAYMENT_DETAILS_PENDING'' else finish_settled r out) h'"
      using h'(2) finish_failed_none finish_settled_fine by (cases res) auto
  qed
  then show ?thesis using True by (simp add: complete_cancellation_def)
next
  case False
  have "fine (andthen moment_now (\<lambda>m. finish_reconcile r (no_update\<lparr>ou_status := pl_status l, ou_link := pl_id l,
        ou_next := terminal_reconcile_at r (e_now (mo_env m)), ou_reset := True\<rparr>))) h"
  proof (rule chain[OF safe_moment])
    fix m h' assume "set h \<subseteq> set h'" "moment_ok m"
    then have "proves h' r l" "moment_ok m" using assms proves_mono by blast+
    then show "fine (finish_reconcile r (no_update\<lparr>ou_status := pl_status l, ou_link := pl_id l,
        ou_next := terminal_reconcile_at r (e_now (mo_env m)), ou_reset := True\<rparr>)) h'"
      using proves_evidence terminal_time by (intro finish_safe) (auto simp: proves_def)
  qed
  then show ?thesis using False by (simp add: complete_cancellation_def)
qed

lemma reconcile_cancellation_fine: "known h r \<Longrightarrow> fine (reconcile_cancellation sv r) h"
  unfolding reconcile_cancellation_def by (rule cancel_then_get_fine) (auto intro: complete_cancellation_fine)

section \<open>Verified links and recovery\<close>

lemma closed_fine:
  assumes "proves h r l"
  shows "fine (andthen moment_now (\<lambda>m. finish_reconcile r (closed_update r l (e_now (mo_env m))))) h"
proof (rule chain[OF safe_moment])
  fix m h' assume "set h \<subseteq> set h'" "moment_ok m"
  then have "proves h' r l" "moment_ok m" using assms proves_mono by blast+
  then show "fine (finish_reconcile r (closed_update r l (e_now (mo_env m)))) h'"
    using proves_evidence terminal_time by (intro finish_safe) (auto simp: proves_def closed_update_def)
qed

lemma keep_open_fine:
  assumes "proves h r l"
  shows "fine (keep_open r l) h"
  unfolding keep_open_def
proof (rule chain[OF safe_moment])
  fix m h' assume "set h \<subseteq> set h'" "moment_ok m"
  then have "proves h' r l" "moment_ok m" using assms proves_mono by blast+
  then show "fine (finish_reconcile r (no_update\<lparr>ou_status := pl_status l, ou_link := pl_id l,
     ou_next := e_now (mo_env m) + 60 * second, ou_reset := True\<rparr>)) h'"
    using proves_evidence soon_time by (intro finish_safe) (auto simp: proves_def)
qed

lemma apply_paid_fine:
  assumes "known h r"
  shows "fine (apply_paid sv r l) h"
  unfolding apply_paid_def
proof (rule chain[OF link_settled])
  fix res h' assume "set h \<subseteq> set h'" "settled res h'"
  then show "fine (case res of
       Inr out \<Rightarrow> if sr_review out = [] then finish_settled r out else finish_failed r None ''PAYMENT_DETAILS_PENDING''
     | Inl x \<Rightarrow> finish_failed r (if is_settlement_review x then None else Some x) ''PAYMENT_DETAILS_PENDING'') h'"
    using paid_end_fine[OF known_mono[OF assms]] by blast
qed

lemma apply_link_fine:
  assumes "known h r" "told_link h (o_code r) l" and "proves h r l \<Longrightarrow> fine (still_open r l) h"
  shows "fine (apply_link sv still_open r l) h"
proof (cases "verified_link_matches r l")
  case True
  then have p: "proves h r l" using assms(1,2) by (simp add: proves_def)
  show ?thesis
    unfolding apply_link_def
    using True apply_paid_fine[OF assms(1)] assms(3)[OF p] closed_fine[OF p] finish_failed_none[OF assms(1)] by simp
qed (simp add: apply_link_def finish_failed_none[OF assms(1)])

lemma recover_cancel_fine: "known h r \<Longrightarrow> fine (recover_cancel sv r) h"
  unfolding recover_cancel_def
  by (rule cancel_then_get_fine) (auto intro!: apply_link_fine keep_open_fine simp: proves_def)

lemma ask_create_heard:
  assumes "may_ask h (QCreate k q)"
  shows "svc.safe (ask_create k q) (ext h (\<lambda>a h'. good a \<and> (\<forall>p. a = Inr p \<longrightarrow> Heard (QCreate k q) (Created p) \<in> set h'))) h"
  unfolding ask_create_def
proof (simp add: svc.safe_andthen assms, intro allI impI)
  fix a assume a: "answer_ok a"
  show "ext h (\<lambda>a h'. good a \<and> (\<forall>p. a = Inr p \<longrightarrow> Heard (QCreate k q) (Created p) \<in> set h'))
      (case a of Failed f \<Rightarrow> Inl (failed f) | Created p \<Rightarrow> Inr p | _ \<Rightarrow> Inl Interrupted) (Heard (QCreate k q) a # h)"
    using a good_answer by (cases a) (auto simp: ext_def)
qed

lemma told_later: "told h c \<Longrightarrow> set h \<subseteq> set h' \<Longrightarrow> told h' c"
  unfolding told_def told_absent_def told_link_def by blast

lemma may_create:
  assumes "created_here h (o_code r) \<or> told h (o_code r)"
  shows "may_ask h (QCreate k (create_request_for sv r expires))"
  using assms by (simp add: may_ask_def create_request_for_def Let_def)

lemma created_evidence:
  assumes "Heard (QCreate k q) (Created p) \<in> set h" "valid_create_response r p"
  shows "evidence_for h r ''PENDING''"
  using assms unfolding evidence_for_def told_created_def valid_create_response_def by blast

lemma recovered_fine:
  assumes "known h r" "good a" "\<And>p. a = Inr p \<Longrightarrow> Heard (QCreate k q) (Created p) \<in> set h"
  shows "fine (recovered sv r link_known a) h"
proof -
  have w: "fine (andthen moment_now (\<lambda>m. finish_reconcile r ((pending_update p (e_now (mo_env m)))\<lparr>ou_reset := True\<rparr>))) h"
    if p: "a = Inr p" "valid_create_response r p" for p
  proof (rule chain[OF safe_moment])
    fix m h' assume h': "set h \<subseteq> set h'" "moment_ok m"
    have "evidence_for h' r ''PENDING''" using created_evidence[OF assms(3)[OF p(1)] p(2)] evidence_mono h'(1) by blast
    then show "fine (finish_reconcile r ((pending_update p (e_now (mo_env m)))\<lparr>ou_reset := True\<rparr>)) h'"
      using known_mono[OF assms(1) h'(1)] soon_time[OF h'(2)] by (intro finish_safe) (auto simp: pending_update_def)
  qed
  have f: "fine (andthen moment_now (\<lambda>m.
             let u = failure_update r (err_of a) ''CREATE_OUTCOME_UNKNOWN'' (mo_jitter m) (e_now (mo_env m)) in
             finish_reconcile r (case (case a of Inl x \<Rightarrow> rejected_create x | Inr _ \<Rightarrow> None) of
               None \<Rightarrow> u | Some c \<Rightarrow> u\<lparr>ou_error := c\<rparr>))) h"
  proof (rule chain[OF safe_moment])
    fix m h' assume h': "set h \<subseteq> set h'" "moment_ok m"
    show "fine (let u = failure_update r (err_of a) ''CREATE_OUTCOME_UNKNOWN'' (mo_jitter m) (e_now (mo_env m)) in
             finish_reconcile r (case (case a of Inl x \<Rightarrow> rejected_create x | Inr _ \<Rightarrow> None) of
               None \<Rightarrow> u | Some c \<Rightarrow> u\<lparr>ou_error := c\<rparr>)) h'"
      unfolding Let_def using known_mono[OF assms(1) h'(1)] failure_time[OF h'(2) assms(2)]
      by (intro finish_safe) (auto split: option.split)
  qed
  show ?thesis using w f recover_cancel_fine[OF assms(1)] unfolding recovered_def by (cases a) auto
qed

lemma create_again_fine:
  assumes "known h r" "told h (o_code r)"
  shows "fine (create_again sv r link_known) h"
proof (cases "parse_nano (o_expires r)")
  case (Some expires)
  show ?thesis
    unfolding create_again_def Some option.case
  proof (rule chain[OF ask_create_heard[OF may_create[OF disjI2[OF assms(2)]]]])
    fix a h' assume h': "set h \<subseteq> set h'" and
      a: "good a \<and> (\<forall>p. a = Inr p \<longrightarrow> Heard (QCreate (provider_keys sv) (create_request_for sv r expires)) (Created p) \<in> set h')"
    show "fine (recovered sv r link_known a) h'"
      by (rule recovered_fine[OF known_mono[OF assms(1) h'] conjunct1[OF a]]) (use a in blast)
  qed
qed (simp add: create_again_def)

lemma recover_create_fine:
  assumes "known h r" "told h (o_code r)"
  shows "fine (recover_create sv r link_known) h"
  unfolding recover_create_def
proof (rule chain[OF calm_slot])
  fix slot h1 assume h1: "set h \<subseteq> set h1" and slot: "calm slot"
  have k1: "known h1 r" "told h1 (o_code r)" using assms h1 known_mono told_later by blast+
  have "fine (attempt (renew_claim r link_known) (\<lambda>renewed.
         create_again sv (if o_link r \<noteq> [] then renewed\<lparr>o_link := o_link r\<rparr> else renewed) link_known)) h1"
  proof (rule chain_attempt[OF renew_same[OF k1(1)]])
    fix renewed h2
    assume "set h1 \<subseteq> set h2" "calm (Inr renewed) \<and> (\<forall>r'. Inr renewed = Inr r' \<longrightarrow> known h2 r' \<and> o_code r' = o_code r)"
    then have "known h2 (if o_link r \<noteq> [] then renewed\<lparr>o_link := o_link r\<rparr> else renewed)"
      "told h2 (o_code (if o_link r \<noteq> [] then renewed\<lparr>o_link := o_link r\<rparr> else renewed))"
      using known_link told_later[OF k1(2)] by auto
    then show "fine (create_again sv (if o_link r \<noteq> [] then renewed\<lparr>o_link := o_link r\<rparr> else renewed) link_known) h2"
      by (rule create_again_fine)
  qed simp
  then show "fine (case slot of
       Inl x \<Rightarrow> finish_failed r (Some x) ''CREATE_OUTCOME_UNKNOWN''
     | Inr _ \<Rightarrow> attempt (renew_claim r link_known) (\<lambda>renewed.
         create_again sv (if o_link r \<noteq> [] then renewed\<lparr>o_link := o_link r\<rparr> else renewed) link_known)) h1"
    using finish_failed_fine[OF k1(1), of slot] slot by (cases slot) (simp_all add: calm_good err_of_def)
qed

lemma apply_verified_fine:
  assumes "known h r" "told_link h (o_code r) l"
  shows "fine (apply_verified_link sv r l) h"
  unfolding apply_verified_link_def
proof (rule apply_link_fine[OF assms])
  assume p: "proves h r l"
  have "told h (o_code (r\<lparr>o_link := pl_id l\<rparr>))" using assms(2) unfolding told_def by auto
  then show "fine (apply_open sv r l) h"
    unfolding apply_open_def Let_def
    using reconcile_cancellation_fine[OF assms(1)] recover_cancel_fine[OF known_link[OF assms(1)]]
      recover_create_fine[OF known_link[OF assms(1)]] keep_open_fine[OF p] by simp
qed

lemma finish_at_moment:
  assumes "\<And>m h'. set h \<subseteq> set h' \<Longrightarrow> moment_ok m \<Longrightarrow> fine (f m) h'"
  shows "fine (andthen moment_now f) h"
  by (rule chain[OF safe_moment]) (rule assms)

lemma known_status: "known h r \<Longrightarrow> evidence_for h r (o_status r)"
  unfolding known_def evidence_for_def saw_def by blast

lemma rejected_evidence:
  assumes "known h r" "told_absent h (o_code r)" "has_prefix (o_error r) ''CREATE_REJECTED_HTTP_''"
  shows "evidence_for h r ''FAILED''"
  using assms unfolding known_def evidence_for_def saw_def by (metis (no_types, lifting))

lemma told_absent_mono: "told_absent h c \<Longrightarrow> set h \<subseteq> set h' \<Longrightarrow> told_absent h' c"
  unfolding told_absent_def by blast

lemma recover_absent_fine:
  assumes "known h r" "told_absent h (o_code r)"
  shows "fine (recover_absent sv r) h"
proof (cases "parse_nano (o_expires r)")
  case (Some expires)
  have f: "fine (andthen moment_now (\<lambda>m. finish_reconcile r (no_update\<lparr>ou_status := ''FAILED'', ou_error := o_error r,
              ou_next := terminal_reconcile_at r (e_now (mo_env m))\<rparr>))) h" if p: "has_prefix (o_error r) ''CREATE_REJECTED_HTTP_''"
  proof (rule finish_at_moment)
    fix m h' assume h': "set h \<subseteq> set h'" "moment_ok m"
    have k: "known h' r" "told_absent h' (o_code r)" using assms known_mono told_absent_mono h'(1) by blast+
    then show "fine (finish_reconcile r (no_update\<lparr>ou_status := ''FAILED'', ou_error := o_error r,
              ou_next := terminal_reconcile_at r (e_now (mo_env m))\<rparr>)) h'"
      using rejected_evidence[OF k p] terminal_time[OF h'(2) k(1)] by (intro finish_safe) auto
  qed
  have u: "fine (andthen moment_now (\<lambda>m2. finish_reconcile r (no_update\<lparr>ou_status := o_status r, ou_error := ''CREATE_OUTCOME_UNKNOWN'',
              ou_next := terminal_reconcile_at r (e_now (mo_env m2))\<rparr>))) h'" if "known h' r" for h'
  proof (rule finish_at_moment)
    fix m h'' assume "set h' \<subseteq> set h''" "moment_ok m"
    then have "known h'' r" "moment_ok m" using that known_mono by blast+
    then show "fine (finish_reconcile r (no_update\<lparr>ou_status := o_status r, ou_error := ''CREATE_OUTCOME_UNKNOWN'',
              ou_next := terminal_reconcile_at r (e_now (mo_env m))\<rparr>)) h''"
      using known_status terminal_time by (intro finish_safe) auto
  qed
  have c: "fine (andthen moment_now (\<lambda>m.
            if e_now (mo_env m) < expires \<and> (o_status r = ''CREATING'' \<or> o_error r = ''CREATE_OUTCOME_UNKNOWN'' \<or> o_error r = ''INVALID_CREATE_RESPONSE'')
            then recover_create sv r False
            else andthen moment_now (\<lambda>m2. finish_reconcile r (no_update\<lparr>ou_status := o_status r, ou_error := ''CREATE_OUTCOME_UNKNOWN'',
              ou_next := terminal_reconcile_at r (e_now (mo_env m2))\<rparr>)))) h"
  proof (rule finish_at_moment)
    fix m h' assume "set h \<subseteq> set h'"
    then have k: "known h' r" "told h' (o_code r)"
      using assms known_mono told_later unfolding told_def by blast+
    show "fine (if e_now (mo_env m) < expires \<and> (o_status r = ''CREATING'' \<or> o_error r = ''CREATE_OUTCOME_UNKNOWN'' \<or> o_error r = ''INVALID_CREATE_RESPONSE'')
            then recover_create sv r False
            else andthen moment_now (\<lambda>m2. finish_reconcile r (no_update\<lparr>ou_status := o_status r, ou_error := ''CREATE_OUTCOME_UNKNOWN'',
              ou_next := terminal_reconcile_at r (e_now (mo_env m2))\<rparr>))) h'"
      using recover_create_fine[OF k] u[OF k(1)] by (simp split: if_split)
  qed
  show ?thesis
    unfolding recover_absent_def Some option.case
    using recover_cancel_fine[OF assms(1)] reconcile_cancellation_fine[OF assms(1)] f c by (simp split: if_split)
qed (simp add: recover_absent_def)

lemma reconcile_claimed_fine:
  assumes "known h r"
  shows "fine (reconcile_claimed sv r) h"
  unfolding reconcile_claimed_def
proof (rule chain[OF get_claimed_heard])
  fix g h' assume h': "set h \<subseteq> set h'" "heard_link (o_code r) g h'"
  have k: "known h' r" using assms h'(1) known_mono by blast
  show "fine (case g of Inr l \<Rightarrow> apply_verified_link sv r l
     | Inl x \<Rightarrow> if (case x of ProviderErr f \<Rightarrow> pe_status f = 404 | _ \<Rightarrow> False) then recover_absent sv r
         else finish_failed r (Some x) ''PROVIDER_UNAVAILABLE'') h'"
  proof (cases g)
    case (Inl x)
    have "fine (finish_failed r (Some x) ''PROVIDER_UNAVAILABLE'') h'"
      using h'(2) Inl by (intro finish_failed_fine[OF k, of g]) (simp_all add: heard_link_def err_of_def)
    moreover have "fine (recover_absent sv r) h'" if "case x of ProviderErr f \<Rightarrow> pe_status f = 404 | _ \<Rightarrow> False"
      using that h'(2) Inl by (intro recover_absent_fine[OF k]) (auto simp: heard_link_def split: svc_err.splits)
    ultimately show ?thesis using Inl by (simp split: if_split)
  next
    case (Inr l)
    then show ?thesis using apply_verified_fine[OF k] h'(2) by (simp add: heard_link_def)
  qed
qed

section \<open>Requests\<close>

lemma did_known:
  assumes "did h f a h'" "\<And>e s s'. f e s = (a, s') \<Longrightarrow> orders_inv (db_orders s) \<Longrightarrow> r \<in> set (db_orders s')"
  shows "known h' r"
  using assms(1)
proof (rule didE)
  fix m w s assume w: "world_ok w" "f (mo_env m) (w_db w) = (a, s)" "world_ok (w\<lparr>w_db := s\<rparr>)" "Did (hash_of m) w (w\<lparr>w_db := s\<rparr>) \<in> set h'"
  have "r \<in> set (db_orders s)" using assms(2)[OF w(2)] w(1) ok_orders by (simp add: world_ok_def)
  then show ?thesis using known_row[OF w(4)] w(3) by simp
qed

lemma claim_act: "svc.safe (db_act (\<lambda>e. claim_payment_order e i (e_now e))) (ext h (did h (\<lambda>e. claim_payment_order e i (e_now e)))) h"
  by (rule safe_db_plain) (rule claim_store)

lemma claim_known:
  assumes "did h (\<lambda>e. claim_payment_order e i (e_now e)) (Inr (r, True)) h'"
  shows "known h' r"
  by (rule did_known[OF assms]) (use claim_result in blast)

lemma begin_fine: "fine (begin_payment_request sv) h"
  unfolding begin_payment_request_def by (rule fine_look) (simp add: Let_def split: sum.split)

lemma counted_safe:
  assumes "svc.safe f (ext h Q) h" "\<And>a g g'. Q a g \<Longrightarrow> set g \<subseteq> set g' \<Longrightarrow> Q a g'"
  shows "svc.safe (counted_request sv f) (ext h Q) h"
  unfolding counted_request_def
proof (rule chain[OF assms(1)])
  fix a h' assume q: "Q a h'"
  show "svc.safe (andthen (end_payment_request sv) (\<lambda>_. Done a)) (ext h' Q) h'"
    unfolding end_payment_request_def by (rule chain[OF fine_local]) (use q assms(2) in simp)
qed

lemma counted_fine: "fine f h \<Longrightarrow> fine (counted_request sv f) h"
  by (rule counted_safe) simp_all

lemma reconcile_on_fine: "fine (reconcile_on sv i) h"
  unfolding reconcile_on_def
proof (rule chain_attempt[OF begin_fine])
  fix u h1
  have "fine (andthen (db_act (\<lambda>e. claim_payment_order e i (e_now e))) (\<lambda>res. case res of
       Inl x \<Rightarrow> Done (Inl (StoreErr x)) | Inr (r, claimed) \<Rightarrow> if \<not> claimed then Done (Inr ()) else reconcile_claimed sv r)) h1"
  proof (rule chain[OF claim_act])
    fix res h2 assume d: "did h1 (\<lambda>e. claim_payment_order e i (e_now e)) res h2"
    show "fine (case res of Inl x \<Rightarrow> Done (Inl (StoreErr x))
       | Inr (r, claimed) \<Rightarrow> if \<not> claimed then Done (Inr ()) else reconcile_claimed sv r) h2"
      using d claim_known reconcile_claimed_fine by (cases res) (auto split: prod.split)
  qed
  then show "fine (counted_request sv (andthen (db_act (\<lambda>e. claim_payment_order e i (e_now e))) (\<lambda>res. case res of
       Inl x \<Rightarrow> Done (Inl (StoreErr x)) | Inr (r, claimed) \<Rightarrow> if \<not> claimed then Done (Inr ()) else reconcile_claimed sv r))) h1"
    by (rule counted_fine)
qed simp

lemma read_back_fine: "fine (read_back r i) h"
  unfolding read_back_def by (rule post_weaken[OF safe_get]) simp

lemma cancel_on_fine: "fine (cancel_on sv i) h"
proof -
  have c: "fine (cancel_claimed sv i r0) g" for r0 g
    unfolding cancel_claimed_def
  proof (rule chain[OF claim_act])
    fix res h2 assume d: "did g (\<lambda>e. claim_payment_order e i (e_now e)) res h2"
    have "fine (andthen (cancel_then_get sv r ''CANCEL_OUTCOME_UNKNOWN'' (complete_cancellation sv r)) (\<lambda>done. case done of
           Inl x \<Rightarrow> Done (Some r, Some x) | Inr _ \<Rightarrow> read_back r i)) h2" if "res = Inr (r, True)" for r
      using d that claim_known reconcile_cancellation_fine
      by (intro chain[OF reconcile_cancellation_fine[unfolded reconcile_cancellation_def]]) (auto split: sum.split intro: read_back_fine)
    then show "fine (case res of Inl x \<Rightarrow> Done (None, Some (StoreErr x))
     | Inr (r, claimed) \<Rightarrow>
         if o_status r = ''PAID'' then Done (Some r, Some ErrPaymentAlreadyPaid)
         else if \<not> claimed then Done (Some r, None)
         else andthen (cancel_then_get sv r ''CANCEL_OUTCOME_UNKNOWN'' (complete_cancellation sv r)) (\<lambda>done. case done of
           Inl x \<Rightarrow> Done (Some r, Some x) | Inr _ \<Rightarrow> read_back r i)) h2"
      by (auto split: sum.split prod.split)
  qed
  show ?thesis
    unfolding cancel_on_def
    by (rule chain[OF safe_get])
      (auto split: sum.split intro!: chain[OF begin_fine] counted_fine c)
qed

lemma plain_fine:
  "(\<And>e s. db_ok s \<Longrightarrow> clock_ok (e_now e) \<Longrightarrow> plain_step s (snd (f e s))) \<Longrightarrow> fine (db_act f) h"
  by (rule post_weaken[OF safe_db_plain]) auto

lemma snapshot_fine: "fine (snapshot sv saved) h"
  unfolding snapshot_def by (rule fine_local)

lemma get_fine: "fine (db_get f) h"
  by (rule post_weaken[OF safe_get]) simp

lemma resolve_fine: "fine (resolve sv) h"
  unfolding resolve_def by (rule chain[OF get_fine]) (auto split: sum.split intro: snapshot_fine)

lemma with_token_safe: "svc.safe m post h \<Longrightarrow> svc.safe (with_token token m) post h"
  unfolding with_token_def by (erule svc.safe_with_env) (simp add: moment_ok_def sha_hex_def fun_eq_iff)

text \<open>
  The operation works on a snapshot: the vendor of the service, and credentials that the cache of the process holds.
\<close>

definition snapped :: "service \<Rightarrow> service \<Rightarrow> past \<Rightarrow> bool" where
  "snapped sv op h \<longleftrightarrow> sv_vendor op = sv_vendor sv \<and> (\<forall>k. sv_provider op = Some k \<longrightarrow>
     (\<exists>H a b. Did H a b \<in> set h \<and> (\<exists>revision ns. lc_cache (w_local b (sv_process sv)) = Some (revision, k, ns))))"

lemma take_snapshot_cached:
  assumes "take_snapshot sv saved m l = (Inr op, l')"
  shows "sv_vendor op = sv_vendor sv \<and> (\<forall>k. sv_provider op = Some k \<longrightarrow> (\<exists>revision ns. lc_cache l' = Some (revision, k, ns)))"
  using assms
  by (auto simp: take_snapshot_def build_provider_def snapshot_of_def Let_def split: if_splits option.splits prod.splits)

lemma snapshot_snapped: "svc.safe (snapshot sv saved) (ext h (\<lambda>r h'. \<forall>op. r = Inr op \<longrightarrow> snapped sv op h')) h"
  unfolding snapshot_def local_act_def
proof (rule post_weaken[OF safe_look], simp, intro allI impI)
  fix r g op
  assume "look h (\<lambda>m w. (fst (take_snapshot sv saved m (w_local w (sv_process sv))),
      w\<lparr>w_local := (w_local w)(sv_process sv := snd (take_snapshot sv saved m (w_local w (sv_process sv))))\<rparr>)) r g" "r = Inr op"
  then obtain m w l where s: "take_snapshot sv saved m (w_local w (sv_process sv)) = (Inr op, l)"
    and g: "g = Did (hash_of m) w (w\<lparr>w_local := (w_local w)(sv_process sv := l)\<rparr>) # h"
    unfolding look_def by (metis fst_conv snd_conv surj_pair)
  have "Did (hash_of m) w (w\<lparr>w_local := (w_local w)(sv_process sv := l)\<rparr>) \<in> set g" by (simp add: g)
  moreover have "w_local (w\<lparr>w_local := (w_local w)(sv_process sv := l)\<rparr>) (sv_process sv) = l" by simp
  ultimately show "snapped sv op g"
    using take_snapshot_cached[OF s] unfolding snapped_def by metis
qed

text \<open>A pinned operation keeps what it promised when it is counted off.\<close>

lemma pin_safe:
  assumes "\<And>op h'. snapped sv op h' \<Longrightarrow> svc.safe (f op) (ext h' Q) h'"
    and "\<And>x h'. svc.safe (refused x) (ext h' Q) h'" "\<And>a g g'. Q a g \<Longrightarrow> set g \<subseteq> set g' \<Longrightarrow> Q a g'"
  shows "svc.safe (pin sv refused f) (ext h Q) h"
  unfolding pin_def
proof (rule chain[OF plain_fine[OF begin_operation_store]])
  fix r h1
  have e: "fine (end_admission token) g" for token g
    unfolding end_admission_def by (rule plain_fine) (simp add: end_operation_store)
  have "svc.safe (andthen (snapshot sv saved) (\<lambda>r2. case r2 of
           Inl x \<Rightarrow> andthen (end_admission token) (\<lambda>_. refused x)
         | Inr op \<Rightarrow> andthen (with_token token (f op)) (\<lambda>a. andthen (end_admission token) (\<lambda>_. Done a)))) (ext h1 Q) h1" for saved token
  proof (rule chain[OF snapshot_snapped])
    fix r2 :: "svc_err + service" and h2 assume sn: "\<forall>op. r2 = Inr op \<longrightarrow> snapped sv op h2"
    show "svc.safe (case r2 of Inl x \<Rightarrow> andthen (end_admission token) (\<lambda>_. refused x)
         | Inr op \<Rightarrow> andthen (with_token token (f op)) (\<lambda>a. andthen (end_admission token) (\<lambda>_. Done a))) (ext h2 Q) h2"
    proof (cases r2)
      case (Inr op)
      have "svc.safe (andthen (with_token token (f op)) (\<lambda>a. andthen (end_admission token) (\<lambda>_. Done a))) (ext h2 Q) h2"
      proof (rule chain[OF with_token_safe[OF assms(1)]])
        show "snapped sv op h2" using sn Inr by blast
        fix a h3 assume "Q a h3"
        then show "svc.safe (andthen (end_admission token) (\<lambda>_. Done a)) (ext h3 Q) h3"
          using assms(3) by (intro chain[OF e]) simp
      qed
      then show ?thesis using Inr by simp
    qed (use assms(2) in \<open>auto intro!: chain[OF e]\<close>)
  qed
  then show "svc.safe (case r of Inl _ \<Rightarrow> refused ErrPaymentUnavailable
     | Inr (saved, token) \<Rightarrow> andthen (snapshot sv saved) (\<lambda>r2. case r2 of
           Inl x \<Rightarrow> andthen (end_admission token) (\<lambda>_. refused x)
         | Inr op \<Rightarrow> andthen (with_token token (f op)) (\<lambda>a. andthen (end_admission token) (\<lambda>_. Done a)))) (ext h1 Q) h1"
    using assms(2) by (auto split: sum.split prod.split)
qed

lemma pin_fine: "(\<And>op g. fine (f op) g) \<Longrightarrow> (\<And>x g. fine (refused x) g) \<Longrightarrow> fine (pin sv refused f) h"
  by (rule pin_safe) simp_all

section \<open>New orders\<close>

lemma reserve_fresh:
  "reserve_payment_order e draws inp s = (Inr (r, True), s') \<Longrightarrow>
    o_status r = ''CREATING'' \<and> (\<forall>x\<in>set (db_orders s). o_code x \<noteq> o_code r) \<and> r \<in> set (db_orders s')"
proof -
  have *: "o_status x = ''CREATING'' \<and> (\<forall>y\<in>set rows. o_code y \<noteq> o_code x)" if "reserve_loop e token inp ds rows = Inr x" for token ds rows x
    using that by (induction e token inp ds rows rule: reserve_loop.induct) (auto simp: Let_def new_order_def split: if_splits)
  show "reserve_payment_order e draws inp s = (Inr (r, True), s') \<Longrightarrow>
      o_status r = ''CREATING'' \<and> (\<forall>x\<in>set (db_orders s). o_code x \<noteq> o_code r) \<and> r \<in> set (db_orders s')"
    by (auto simp: reserve_payment_order_def run_tx_Inr reserve_payment_order_tx_def bnd_Inr dest: * split: if_splits sum.splits)
qed

definition reserved :: "err + (order \<times> bool) \<Rightarrow> past \<Rightarrow> bool" where
  "reserved a h \<longleftrightarrow> (\<forall>r fresh. a = Inr (r, fresh) \<longrightarrow> known h r \<and> (fresh \<longrightarrow> o_status r = ''CREATING'' \<and> created_here h (o_code r)))"

lemma reserve_safe: "svc.safe (reserve_act intent) (ext h reserved) h"
  unfolding reserve_act_def svc.safe_act
proof (intro allI impI, goal_cases)
  case (1 m w)
  obtain a s where rs: "reserve_payment_order (mo_env m) (mo_draws m) intent (w_db w) = (a, s)" by fastforce
  have st: "store_step (\<lambda>r. o_status r = ''CREATING'' \<and> (\<forall>x\<in>set (db_orders (w_db w)). o_id x \<noteq> o_id r)) (w_db w) s"
    using reserve_store[of "w_db w" "mo_env m" "mo_draws m" intent] 1(1,2) rs by (simp add: world_ok_def moment_ok_def)
  note w = world_step[OF 1(2) st disjI1]
  have "known (Did (hash_of m) w (w\<lparr>w_db := s\<rparr>) # h) r" if "a = Inr (r, fresh)" for r fresh
    using reserve_result rs that w by (intro known_row[of "hash_of m" w "w\<lparr>w_db := s\<rparr>"]) auto
  moreover have "created_here (Did (hash_of m) w (w\<lparr>w_db := s\<rparr>) # h) (o_code r)" if "a = Inr (r, True)" for r
    using reserve_fresh[of "mo_env m" "mo_draws m" intent "w_db w" r s] rs that unfolding created_here_def
    by (intro exI[of _ "hash_of m"] exI[of _ w] exI[of _ "w\<lparr>w_db := s\<rparr>"]) auto
  ultimately show ?case using w rs reserve_fresh by (auto simp: ext_def reserved_def)
qed

lemma outcome_fine:
  assumes "known h r" "o_status r = ''CREATING''" "moment_ok m" "parse_nano (o_lease r) = Some lease" "good a"
    and "\<And>p. a = Inr p \<Longrightarrow> Heard (QCreate k q) (Created p) \<in> set h"
  shows "fine (persist_created r (create_outcome r lease a (e_now (mo_env m)))) h"
proof -
  let ?u = "create_outcome r lease a (e_now (mo_env m))"
  have l: "in_range lease" using assms(1,4) unfolding known_def by blast
  have e: "ou_status ?u = [] \<or> evidence_for h r (ou_status ?u)"
  proof (cases a)
    case (Inl x)
    have "ou_status ?u = ''CREATING''" by (simp add: create_outcome_def Let_def Inl split: svc_err.split)
    then show ?thesis using known_status[OF assms(1)] assms(2) by simp
  next
    case (Inr p)
    then show ?thesis
      using known_status[OF assms(1)] assms(2) created_evidence[OF assms(6)[OF Inr]]
      by (auto simp: create_outcome_def Let_def pending_update_def)
  qed
  have retry: "time_ok (e_now (mo_env m) + pe_retry f)" if "a = Inl (ProviderErr f)" "lease < e_now (mo_env m) + pe_retry f" for f
  proof -
    have "pe_retry f \<le> max_int64" using assms(5) that(1) by (simp add: good_def)
    moreover have "lease div second \<le> (e_now (mo_env m) + pe_retry f) div second" using that(2) by (intro zdiv_mono1) auto
    moreover have "(e_now (mo_env m) + pe_retry f) div second \<le> (horizon + max_int64) div second"
      using assms(3) calculation(1) by (intro zdiv_mono1) (auto simp: moment_ok_def)
    ultimately show ?thesis
      using l unfolding time_ok_def by (intro disjI2) (auto simp: in_range_def secs_range_def horizon_def max_int64_def)
  qed
  have t: "time_ok (ou_next ?u)"
    using l retry soon_time[OF assms(3)]
    by (cases a) (auto simp: create_outcome_def Let_def pending_update_def time_ok_def[of lease] split: svc_err.split)
  show ?thesis
    unfolding persist_created_def
    by (rule chain[OF complete_safe[OF assms(1) e t]]) (auto split: sum.split intro!: chain[OF get_fine])
qed

lemma create_new_fine:
  assumes "known h r" "o_status r = ''CREATING''" "created_here h (o_code r)"
  shows "fine (create_new sv r) h"
proof (cases "parse_nano (o_expires r)")
  case (Some expires)
  show ?thesis
    unfolding create_new_def Some option.case
  proof (rule chain[OF ask_create_heard[OF may_create[OF disjI1[OF assms(3)]]]])
    fix a h1 assume h1: "set h \<subseteq> set h1" and
      a: "good a \<and> (\<forall>p. a = Inr p \<longrightarrow> Heard (QCreate (provider_keys sv) (create_request_for sv r expires)) (Created p) \<in> set h1)"
    show "fine (case parse_nano (o_lease r) of None \<Rightarrow> Done (Some r, True, Some ErrPaymentUnavailable)
          | Some lease \<Rightarrow> andthen moment_now (\<lambda>m. persist_created r (create_outcome r lease a (e_now (mo_env m))))) h1"
    proof (cases "parse_nano (o_lease r)")
      case (Some lease)
      show ?thesis
        unfolding Some option.case
      proof (rule finish_at_moment)
        fix m h2 assume h2: "set h1 \<subseteq> set h2" "moment_ok m"
        have "known h2 r" using assms(1) h1 h2(1) known_mono by blast
        then show "fine (persist_created r (create_outcome r lease a (e_now (mo_env m)))) h2"
          using a h2(1) by (intro outcome_fine[OF _ assms(2) h2(2) Some conjunct1[OF a], where k = "provider_keys sv" and
              q = "create_request_for sv r expires"]) blast+
      qed
    qed simp
  qed
qed (simp add: create_new_def)

lemma create_on_fine: "fine (create_on sv amount origin key) h"
proof -
  have r: "fine (reserve_and_create sv intent) g" for intent g
    unfolding reserve_and_create_def
  proof (rule chain[OF reserve_safe])
    fix res h' assume "reserved res h'"
    then show "fine (case res of
       Inl x \<Rightarrow> Done (None, False, Some (if x = ErrPaymentIdempotencyConflict then ErrIdempotencyConflict else ErrPaymentUnavailable))
     | Inr (r, fresh) \<Rightarrow> if \<not> fresh then Done (Some r, False, None) else create_new sv r) h'"
      using create_new_fine by (cases res) (auto simp: reserved_def split: prod.split)
  qed
  show ?thesis
  proof (cases "invalid_intent sv amount origin key")
    case None
    show ?thesis
      unfolding create_on_def None option.case
      by (rule chain[OF get_fine])
        (auto split: prod.split sum.split option.split intro!: chain[OF begin_fine] counted_fine r)
  qed (simp add: create_on_def)
qed

section \<open>Callbacks\<close>

text \<open>
  The keys a callback was verified with: those of a service that is not managed, those in the cache of the
  process, or replaced ones of the database.
\<close>

definition trusted :: "service \<Rightarrow> credentials \<Rightarrow> past \<Rightarrow> bool" where
  "trusted sv k h \<longleftrightarrow> (\<not> sv_managed sv \<and> k = provider_keys sv) \<or>
     (\<exists>H a b. Did H a b \<in> set h \<and>
       ((\<exists>revision ns. lc_cache (w_local b (sv_process sv)) = Some (revision, k, ns)) \<or>
        (\<exists>client revision ks. verification_keys (vn_vault (sv_vendor sv)) client revision (w_db b) = Inr ks \<and> k \<in> set ks)))"

text \<open>The callback left a trace: a row of its data in the inbox, or the receipt of its reference.\<close>

definition kept :: "webhook_data \<Rightarrow> (string \<times> jval) list \<Rightarrow> past \<Rightarrow> bool" where
  "kept d body h \<longleftrightarrow> is_confirmation_sample d \<or> (\<exists>H a b. Did H a b \<in> set h \<and>
     ((\<exists>kvs. map_of body ''data'' = Some (JObj kvs) \<and> (\<exists>i\<in>set (db_inbox (w_db b)). ib_hash i = H (json_text (JObj kvs)))) \<or>
      (\<exists>c\<in>set (db_receipts (w_db b)). rc_reference c = wd_reference d)))"

definition acknowledged :: "service \<Rightarrow> (string \<times> jval) list \<Rightarrow> past \<Rightarrow> bool" where
  "acknowledged sv body h \<longleftrightarrow> (\<exists>k d verified. trusted sv k h \<and> adapter_verify (vn_verify (sv_vendor sv)) k body = Inr (d, verified) \<and>
     kept d verified h)"

lemma trusted_mono: "trusted sv k h \<Longrightarrow> set h \<subseteq> set h' \<Longrightarrow> trusted sv k h'"
  unfolding trusted_def by blast

lemma kept_mono: "kept d body h \<Longrightarrow> set h \<subseteq> set h' \<Longrightarrow> kept d body h'"
  unfolding kept_def by (elim disjE) blast+

lemma acknowledged_mono: "acknowledged sv body h \<Longrightarrow> set h \<subseteq> set h' \<Longrightarrow> acknowledged sv body h'"
  unfolding acknowledged_def using trusted_mono kept_mono by blast

definition callback_data :: "(string \<times> jval) list \<Rightarrow> (string \<times> jval) list option" where
  "callback_data body = (case map_of body ''data'' of Some (JObj kvs) \<Rightarrow> Some kvs | _ \<Rightarrow> None)"

lemma callback_data_Some: "callback_data body = Some kvs \<Longrightarrow> map_of body ''data'' = Some (JObj kvs)"
  by (auto simp: callback_data_def split: option.splits jval.splits)

lemma inbox_kept:
  assumes "Did (hash_of m) a b \<in> set h" "in_inbox (mo_env m) cb (w_db b)" "cb_data cb = callback_data body"
  shows "kept d body h"
  using assms callback_data_Some unfolding kept_def in_inbox_def by (metis option.inject)

lemma wake_fine: "fine (wake_reconciler sv) h"
  unfolding wake_reconciler_def by (rule fine_local)

abbreviation acks :: "webhook_data \<Rightarrow> (string \<times> jval) list \<Rightarrow> svc_err + unit \<Rightarrow> past \<Rightarrow> bool" where
  "acks d body a h \<equiv> a = Inr () \<longrightarrow> kept d body h"

lemma review_kept:
  assumes "cb_data cb = callback_data body"
  shows "svc.safe (save_webhook_review sv cb reason) (ext h (acks d body)) h"
  unfolding save_webhook_review_def
proof (rule chain[OF safe_db_plain])
  let ?f = "\<lambda>e. save_verified_payment_callback e (cb\<lparr>cb_reason := reason\<rparr>)"
  show "db_ok s \<Longrightarrow> clock_ok (e_now e) \<Longrightarrow> plain_step s (snd (?f e s))" for e s
    using callback_store by blast
  fix r h1 assume d1: "did h ?f r h1"
  have k: "kept d body h1" if "r = Inr x" for x
    using d1
  proof (rule didE)
    fix m w s assume w: "moment_ok m" "world_ok w" "?f (mo_env m) (w_db w) = (r, s)" "Did (hash_of m) w (w\<lparr>w_db := s\<rparr>) \<in> set h1"
    have "in_inbox (mo_env m) (cb\<lparr>cb_reason := reason\<rparr>) s"
      using callback_store[of "w_db w" "mo_env m" "cb\<lparr>cb_reason := reason\<rparr>"] w(1-3) moment_clock that by (auto simp: world_ok_def)
    then show ?thesis using inbox_kept[OF w(4), of "cb\<lparr>cb_reason := reason\<rparr>" body] assms by simp
  qed
  show "svc.safe (case r of Inl _ \<Rightarrow> Done (Inl ErrWebhookUnavailable)
     | Inr _ \<Rightarrow> if reason = ''AWAITING_ORDER_BIND'' \<or> reason = ''PAYMENT_DETAILS_PENDING''
         then andthen (wake_reconciler sv) (\<lambda>_. Done (Inr ())) else Done (Inr ())) (ext h1 (acks d body)) h1"
  proof (cases r)
    case (Inr x)
    have "svc.safe (andthen (wake_reconciler sv) (\<lambda>_. Done (Inr ()))) (ext h1 (acks d body)) h1"
      by (rule chain[OF wake_fine]) (use k[OF Inr] kept_mono in auto)
    then show ?thesis using k[OF Inr] Inr by simp
  qed simp
qed

lemma settle_kept:
  assumes "si_callback inp = Some cb" "cb_data cb = callback_data body" "si_reference inp = wd_reference d"
  shows "svc.safe (settle_webhook sv inp) (ext h (acks d body)) h"
  unfolding settle_webhook_def
proof (rule chain[OF settle_act])
  let ?f = "\<lambda>e. settle_payment e inp"
  fix r h1 assume d1: "did h ?f r h1"
  have k: "kept d body h1" if "r = Inr out" for out
    using d1
  proof (rule didE)
    fix m w s assume w: "moment_ok m" "world_ok w" "?f (mo_env m) (w_db w) = (r, s)" "Did (hash_of m) w (w\<lparr>w_db := s\<rparr>) \<in> set h1"
    have "has_receipt inp s \<or> in_inbox (mo_env m) cb s"
      using settle_store[OF _ moment_clock[OF w(1)] w(3)] w(2) that assms(1) by (auto simp: world_ok_def)
    then show ?thesis
    proof
      assume "has_receipt inp s"
      then have "\<exists>c\<in>set (db_receipts (w_db (w\<lparr>w_db := s\<rparr>))). rc_reference c = wd_reference d"
        using assms(3) unfolding has_receipt_def by auto
      then show ?thesis using w(4) unfolding kept_def by blast
    next
      assume "in_inbox (mo_env m) cb s"
      then show ?thesis using inbox_kept[OF w(4), of cb body] assms(2) by simp
    qed
  qed
  show "svc.safe (case r of Inl _ \<Rightarrow> Done (Inl ErrWebhookUnavailable)
     | Inr out \<Rightarrow> andthen (publish_settlement out) (\<lambda>_.
         if sr_review out = ''AWAITING_ORDER_BIND'' \<or> sr_review out = ''PAYMENT_DETAILS_PENDING''
         then andthen (wake_reconciler sv) (\<lambda>_. Done (Inr ())) else Done (Inr ()))) (ext h1 (acks d body)) h1"
  proof (cases r)
    case (Inr out)
    have p: "fine (publish_settlement out) h1" using did_settle d1 Inr by (intro publish_fine) blast
    have w: "svc.safe (andthen (wake_reconciler sv) (\<lambda>_. Done (Inr ()))) (ext g (acks d body)) g" if "kept d body g" for g
      by (rule chain[OF wake_fine]) (use that kept_mono in auto)
    have "svc.safe (andthen (publish_settlement out) (\<lambda>_.
         if sr_review out = ''AWAITING_ORDER_BIND'' \<or> sr_review out = ''PAYMENT_DETAILS_PENDING''
         then andthen (wake_reconciler sv) (\<lambda>_. Done (Inr ())) else Done (Inr ()))) (ext h1 (acks d body)) h1"
    proof (rule chain[OF p])
      fix u g assume "set h1 \<subseteq> set g"
      then have "kept d body g" using k[OF Inr] kept_mono by blast
      then show "svc.safe (if sr_review out = ''AWAITING_ORDER_BIND'' \<or> sr_review out = ''PAYMENT_DETAILS_PENDING''
         then andthen (wake_reconciler sv) (\<lambda>_. Done (Inr ())) else Done (Inr ())) (ext g (acks d body)) g"
        using w by simp
    qed
    then show ?thesis using Inr by simp
  qed simp
qed

lemma accept_kept: "svc.safe (accept_webhook sv body d) (ext h (acks d body)) h"
proof -
  have s: "svc.safe (andthen mutation_allowed (\<lambda>r. Done (case r of Inl _ \<Rightarrow> Inl ErrWebhookUnavailable | Inr _ \<Rightarrow> Inr ()))) (ext h (acks d body)) h"
    if "is_confirmation_sample d"
    by (rule chain[OF calm_mutation]) (simp add: kept_def that)
  have r: "svc.safe (save_webhook_review sv \<lparr>cb_data = callback_data body, cb_code = c, cb_link = l, cb_reference = f, cb_reason = []\<rparr> reason)
      (ext h (acks d body)) h" for c l f reason
    by (rule review_kept) simp
  have w: "svc.safe (settle_webhook sv (webhook_input sv d at \<lparr>cb_data = callback_data body, cb_code = c, cb_link = l, cb_reference = f, cb_reason = []\<rparr>))
      (ext h (acks d body)) h" for at c l f
    by (rule settle_kept, simp add: webhook_input_def) (simp_all add: webhook_input_def)
  show ?thesis
    unfolding accept_webhook_def Let_def callback_data_def[symmetric]
    using s r w by (auto split: option.split)
qed

definition acks_body :: "service \<Rightarrow> (string \<times> jval) list \<Rightarrow> svc_err + unit \<Rightarrow> past \<Rightarrow> bool" where
  "acks_body sv body a h \<longleftrightarrow> (a = Inr () \<longrightarrow> acknowledged sv body h)"

lemma acks_body_simps [simp]: "acks_body sv body (Inl x) h" "acks_body sv body (Inr u) h = acknowledged sv body h"
  by (simp_all add: acks_body_def)

lemma verify_previous_key:
  "verify_previous sv body ks = Inr (d, v) \<Longrightarrow> \<exists>k\<in>set ks. adapter_verify (vn_verify (sv_vendor sv)) k body = Inr (d, v)"
  by (induction sv body ks rule: verify_previous.induct) (auto split: if_splits sum.splits)

lemma verify_trusted:
  assumes "sv_vendor op = sv_vendor sv" "trusted sv (provider_keys op) h"
  shows "svc.safe (verify_webhook op body) (ext h (\<lambda>r h'. \<forall>d v. r = Inr (d, v) \<longrightarrow>
    (\<exists>k. trusted sv k h' \<and> adapter_verify (vn_verify (sv_vendor sv)) k body = Inr (d, v)))) h"
proof (cases "\<not> sv_snapshot op \<or> adapter_verify (vn_verify (sv_vendor op)) (provider_keys op) body \<noteq> Inl BadSignature")
  case True
  then show ?thesis using assms by (simp add: verify_webhook_def Let_def) metis
next
  case False
  let ?look = "\<lambda>(e::env) s. case verification_keys (vn_vault (sv_vendor op)) (sv_client op) (sv_revision op) s of
          Inl _ \<Rightarrow> Inl ErrWebhookUnavailable | Inr ks \<Rightarrow> verify_previous op body ks"
  have "svc.safe (db_get ?look) (ext h (\<lambda>r h'. \<forall>d v. r = Inr (d, v) \<longrightarrow>
    (\<exists>k. trusted sv k h' \<and> adapter_verify (vn_verify (sv_vendor sv)) k body = Inr (d, v)))) h"
  proof (rule post_weaken[OF safe_get], intro allI impI)
    fix r d v and g :: past
    assume g: "\<exists>m w. moment_ok m \<and> world_ok w \<and> svc.after h w \<and> r = ?look (mo_env m) (w_db w) \<and> Did (hash_of m) w w \<in> set g"
      and r: "r = Inr (d, v)"
    from g obtain m w where mw: "r = ?look (mo_env m) (w_db w)" "Did (hash_of m) w w \<in> set g" by blast
    obtain ks where w: "verification_keys (vn_vault (sv_vendor op)) (sv_client op) (sv_revision op) (w_db w) = Inr ks"
      "verify_previous op body ks = Inr (d, v)"
      using mw(1) r by (cases "verification_keys (vn_vault (sv_vendor op)) (sv_client op) (sv_revision op) (w_db w)") auto
    obtain k where k: "k \<in> set ks" "adapter_verify (vn_verify (sv_vendor sv)) k body = Inr (d, v)"
      using verify_previous_key[OF w(2)] assms(1) by auto
    have "trusted sv k g" using w(1) mw(2) k(1) assms(1) unfolding trusted_def by (intro disjI2) metis
    then show "\<exists>k. trusted sv k g \<and> adapter_verify (vn_verify (sv_vendor sv)) k body = Inr (d, v)" using k(2) by blast
  qed
  then show ?thesis using False by (simp add: verify_webhook_def Let_def)
qed

lemma handle_on_acks:
  assumes "sv_vendor op = sv_vendor sv" "\<And>k. sv_provider op = Some k \<Longrightarrow> trusted sv k h"
  shows "svc.safe (handle_on op body) (ext h (acks_body sv body)) h"
proof (cases "\<not> valid_webhook_shape body \<or> sv_provider op = None \<or> sv_client op = []")
  case True
  then show ?thesis by (auto simp: handle_on_def)
next
  case False
  then have "trusted sv (provider_keys op) h" using assms(2) by (auto simp: provider_keys_def)
  note v = verify_trusted[OF assms(1) this]
  have "svc.safe (andthen (verify_webhook op body) (\<lambda>v. case v of
        Inl x \<Rightarrow> Done (Inl (if x = BadSignature \<or> x = ErrInvalidWebhook then x else ErrWebhookUnavailable))
      | Inr (d, verified) \<Rightarrow>
          andthen (begin_payment_request op) (\<lambda>b. case b of
            Inl _ \<Rightarrow> Done (Inl ErrWebhookUnavailable)
          | Inr _ \<Rightarrow> counted_request op (andthen (accept_webhook op verified d) (\<lambda>r. case r of
              Inl x \<Rightarrow> Done (Inl x)
            | Inr _ \<Rightarrow> andthen (record_activity op ''WEBHOOK'') (\<lambda>_. Done (Inr ()))))))) (ext h (acks_body sv body)) h"
  proof (rule chain[OF v])
    fix r :: "svc_err + webhook_data \<times> (string \<times> jval) list" and h1
    assume r: "\<forall>d v. r = Inr (d, v) \<longrightarrow> (\<exists>k. trusted sv k h1 \<and> adapter_verify (vn_verify (sv_vendor sv)) k body = Inr (d, v))"
    have in_request: "svc.safe (counted_request op (andthen (accept_webhook op verified d) (\<lambda>r. case r of
              Inl x \<Rightarrow> Done (Inl x)
            | Inr _ \<Rightarrow> andthen (record_activity op ''WEBHOOK'') (\<lambda>_. Done (Inr ()))))) (ext g (acks_body sv body)) g"
      if rd: "r = Inr (d, verified)" and sub: "set h1 \<subseteq> set g" for d verified g
    proof (rule counted_safe)
      obtain k where k: "trusted sv k g" "adapter_verify (vn_verify (sv_vendor sv)) k body = Inr (d, verified)"
        using r rd trusted_mono[OF _ sub] by blast
      have ack: "acknowledged sv body g'" if "set g \<subseteq> set g'" "kept d verified g'" for g'
        using that k trusted_mono unfolding acknowledged_def by blast
      show "svc.safe (andthen (accept_webhook op verified d) (\<lambda>r. case r of
              Inl x \<Rightarrow> Done (Inl x) | Inr _ \<Rightarrow> andthen (record_activity op ''WEBHOOK'') (\<lambda>_. Done (Inr ())))) (ext g (acks_body sv body)) g"
      proof (rule chain[OF accept_kept])
        fix a g1 assume g1: "set g \<subseteq> set g1" "acks d verified a g1"
        show "svc.safe (case a of Inl x \<Rightarrow> Done (Inl x)
            | Inr _ \<Rightarrow> andthen (record_activity op ''WEBHOOK'') (\<lambda>_. Done (Inr ()))) (ext g1 (acks_body sv body)) g1"
        proof (cases a)
          case (Inr u)
          have "acknowledged sv body g2" if "set g1 \<subseteq> set g2" for g2
            using ack[OF g1(1)] g1(2) Inr acknowledged_mono that by simp
          then have "svc.safe (andthen (record_activity op ''WEBHOOK'') (\<lambda>_. Done (Inr ()))) (ext g1 (acks_body sv body)) g1"
            by (intro chain[OF activity_fine]) simp
          then show ?thesis using Inr by simp
        qed simp
      qed
    qed (auto simp: acks_body_def intro: acknowledged_mono)
    show "svc.safe (case r of
        Inl x \<Rightarrow> Done (Inl (if x = BadSignature \<or> x = ErrInvalidWebhook then x else ErrWebhookUnavailable))
      | Inr (d, verified) \<Rightarrow>
          andthen (begin_payment_request op) (\<lambda>b. case b of
            Inl _ \<Rightarrow> Done (Inl ErrWebhookUnavailable)
          | Inr _ \<Rightarrow> counted_request op (andthen (accept_webhook op verified d) (\<lambda>r. case r of
              Inl x \<Rightarrow> Done (Inl x)
            | Inr _ \<Rightarrow> andthen (record_activity op ''WEBHOOK'') (\<lambda>_. Done (Inr ())))))) (ext h1 (acks_body sv body)) h1"
    proof (cases r)
      case (Inr p)
      obtain d verified where p: "r = Inr (d, verified)" using Inr by (cases p) simp
      have "svc.safe (andthen (begin_payment_request op) (\<lambda>b. case b of
            Inl _ \<Rightarrow> Done (Inl ErrWebhookUnavailable)
          | Inr _ \<Rightarrow> counted_request op (andthen (accept_webhook op verified d) (\<lambda>r. case r of
              Inl x \<Rightarrow> Done (Inl x)
            | Inr _ \<Rightarrow> andthen (record_activity op ''WEBHOOK'') (\<lambda>_. Done (Inr ())))))) (ext h1 (acks_body sv body)) h1"
        by (rule chain[OF begin_fine]) (auto split: sum.split intro!: in_request p)
      then show ?thesis using p by simp
    qed simp
  qed
  then show ?thesis using False by (simp add: handle_on_def)
qed

lemma handle_acks: "svc.safe (handle_webhook sv body) (ext h (acks_body sv body)) h"
proof (cases "sv_managed sv")
  case True
  have "svc.safe (pin sv (\<lambda>_. Done (Inl ErrWebhookUnavailable)) (\<lambda>op. handle_on op body)) (ext h (acks_body sv body)) h"
  proof (rule pin_safe)
    fix op h' assume "snapped sv op h'"
    then show "svc.safe (handle_on op body) (ext h' (acks_body sv body)) h'"
      by (intro handle_on_acks) (auto simp: snapped_def trusted_def)
  qed (auto simp: acks_body_def intro: acknowledged_mono)
  then show ?thesis using True by (simp add: handle_webhook_def)
next
  case False
  then have "trusted sv k h" if "sv_provider sv = Some k" for k using that by (simp add: trusted_def provider_keys_def)
  then show ?thesis using False handle_on_acks[of sv sv h body] by (simp add: handle_webhook_def)
qed

end
