(* ===== verification/PaySamples.thy ===== *)
theory PaySamples
  imports PayLaws
begin

text \<open>
  Sample runs of the payment service: an order is cancelled, an order is created and the answer gets lost, a
  callback is acknowledged.
\<close>

section \<open>A service and its world\<close>

definition sample_hook :: webhook_data where
  "sample_hook = \<lparr>wd_code = 123, wd_amount = 3000, wd_description = ''VQRIO123'', wd_account = ''12345678'', wd_reference = ''TF230204212323'',
     wd_date = ''2023-02-04 18:25:00'', wd_currency = ''VND'', wd_link = ''124c33293c43417ab7879e14c8d9eb18'', wd_result = ''00'', wd_virtual = None\<rparr>"

definition pay_keys :: credentials where
  "pay_keys = \<lparr>cr_client = ''channel'', cr_api = ''api'', cr_checksum = ''sum''\<rparr>"

definition sample_vendor :: vendor where
  "sample_vendor = \<lparr>vn_verify = (\<lambda>k sig data. Some (Some sample_hook)), vn_client = (\<lambda>k. True), vn_decode = (\<lambda>s. None), vn_jd = (\<lambda>s. None), vn_vault = sample_vault\<rparr>"

definition sample_service :: service where
  "sample_service = new_service (sample_env sample_time) 0 pay_keys True True (Some pay_keys) ''https://pay.example'' 1000000 sample_vendor"

lemma sample_service_simps [simp]:
  "sv_process sample_service = 0" "sv_client sample_service = ''channel''" "sv_managed sample_service = False" "sv_snapshot sample_service = False"
  "sv_provider sample_service = Some pay_keys" "sv_vendor sample_service = sample_vendor" "sv_max sample_service = 1000000"
  by (simp_all add: sample_service_def new_service_def pay_keys_def)

definition in_world :: "order list \<Rightarrow> local \<Rightarrow> world" where
  "in_world rows l = \<lparr>w_db = sample_db\<lparr>db_orders := rows\<rparr>, w_local = (\<lambda>_. fresh_local)(0 := l), w_published = []\<rparr>"

definition sample_moment :: moment where
  "sample_moment = \<lparr>mo_env = sample_env (sample_time + 60 * second), mo_draws = [], mo_jitter = None\<rparr>"

definition claimed :: order where
  "claimed = sample_order\<lparr>o_token := b64_encode [CHR 0x00], o_lease := fmt_nano (sample_time + 90 * second),
     o_updated := fmt_nano (sample_time + 60 * second), o_next := fmt_nano (sample_time + 90 * second)\<rparr>"

lemma claimed_fields [simp]:
  "o_id claimed = b64_encode ''id''" "o_status claimed = ''CREATING''" "o_token claimed = b64_encode [CHR 0x00]"
  "o_lease claimed = fmt_nano (sample_time + 90 * second)" "o_next claimed = fmt_nano (sample_time + 90 * second)"
  "o_channel claimed = ''channel''" "o_link claimed = []" "o_code claimed = 100000000005" "o_amount claimed = 25000"
  by (simp_all add: claimed_def sample_order_fields) (simp_all add: sample_order_def new_order_def Let_def sample_intent_def)

lemma token_nonempty [simp]: "b64_encode [CHR 0x00] \<noteq> []" "b64_encode ''id'' \<noteq> []"
  by simp_all

lemma sample_gate [simp]: "check_mutation_allowed (sample_env t) (sample_db\<lparr>db_orders := rows\<rparr>) = Inr ()"
  by (simp add: sample_db_def gate_open_allows)

lemma sample_claimed:
  "claim_payment_order (sample_env (sample_time + 60 * second)) (b64_encode ''id'') (sample_time + 60 * second) (sample_db\<lparr>db_orders := [sample_order]\<rparr>) =
    (Inr (claimed, True), sample_db\<lparr>db_orders := [claimed]\<rparr>)"
proof -
  have l: "live_lease (sample_time + 60 * second) sample_order = Inr False"
    using parse_lease[of sample_time] clock_sample[of sample_time]
    by (simp add: live_lease_def sample_order_fields payment_operation_lease_def)
  have n: "next_after_lease sample_order (sample_time + 90 * second) = Inr (fmt_nano (sample_time + 90 * second))"
    using parse_lease[of sample_time] clock_sample[of sample_time]
    by (simp add: next_after_lease_def sample_order_fields payment_operation_lease_def)
  show ?thesis
    using l n
    by (simp add: claim_payment_order_def run_tx_Inr claim_payment_order_tx_def Let_def zero_time_def payment_operation_lease_def
        payment_order_def sample_order_fields bnd_Inr claimed_def random_payment_token_def)
qed
lemma renew_claimed:
  "renew_payment_order_operation (sample_env (sample_time + 60 * second)) (b64_encode ''id'') (b64_encode [CHR 0x00]) b (sample_db\<lparr>db_orders := [claimed]\<rparr>) =
    (Inr (claimed\<lparr>o_qr_recovery := b\<rparr>), sample_db\<lparr>db_orders := [claimed\<lparr>o_qr_recovery := b\<rparr>]\<rparr>)"
proof -
  have n: "next_after_lease claimed (sample_time + 90 * second) = Inr (fmt_nano (sample_time + 90 * second))"
    using clock_in_range0[OF clock_sample[of "sample_time + 90 * second"]]
    by (simp add: next_after_lease_def parse_fmt_nano)
  have "o_qr_recovery claimed = False" by (simp add: claimed_def sample_order_def new_order_def Let_def)
  then show ?thesis
    using n
    by (simp add: renew_payment_order_operation_def run_tx_Inr renew_payment_order_operation_tx_def Let_def payment_operation_lease_def
        payment_order_def order_held_by_def bnd_Inr) (simp add: claimed_def)
qed

lemma claimed_same: "claimed\<lparr>o_qr_recovery := False\<rparr> = claimed"
  by (simp add: claimed_def sample_order_def new_order_def Let_def)

definition cancelled_link :: payment_link where
  "cancelled_link = \<lparr>pl_id = ''link'', pl_code = 100000000005, pl_amount = 25000, pl_paid = 0, pl_remaining = 25000, pl_status = ''CANCELLED'',
    pl_transactions = []\<rparr>"

lemma moment_simps [simp]: "mo_env sample_moment = sample_env (sample_time + 60 * second)" "mo_draws sample_moment = []" "mo_jitter sample_moment = None"
  by (simp_all add: sample_moment_def)

lemma in_world_simps [simp]: "w_db (in_world rows l) = sample_db\<lparr>db_orders := rows\<rparr>" "w_local (in_world rows l) 0 = l"
  "w_published (in_world rows l) = []"
  "(in_world rows l)\<lparr>w_db := sample_db\<lparr>db_orders := rows'\<rparr>\<rparr> = in_world rows' l"
  "(in_world rows l)\<lparr>w_local := (w_local (in_world rows l))(0 := l')\<rparr> = in_world rows l'"
  by (simp_all add: in_world_def)

lemma sample_found: "payment_order (b64_encode ''id'') (sample_db\<lparr>db_orders := [sample_order]\<rparr>) = Inr sample_order"
  by (simp add: payment_order_def sample_order_fields)

lemma cancelled_proof: "link_in claimed {''CANCELLED'', ''EXPIRED''} (Inr cancelled_link)"
  by (simp add: link_in_def cancelled_link_def verified_link_matches_def blank_def printable_def)

lemma goes_db_act:
  "moment_ok m \<Longrightarrow> f (mo_env m) (w_db w) = (a, d) \<Longrightarrow> svc.goes w (db_act f) (w\<lparr>w_db := d\<rparr>) (Done a)"
  unfolding db_act_def by (rule svc.goes_act[of m]) simp_all

lemma goes_db_get: "moment_ok m \<Longrightarrow> svc.goes w (db_get f) w (Done (f (mo_env m) (w_db w)))"
  unfolding db_get_def by (rule svc.goes_act[of m]) simp_all

lemma goes_now: "moment_ok m \<Longrightarrow> svc.goes w moment_now w (Done m)"
  unfolding moment_now_def by (rule svc.goes_act[of m]) simp_all

lemma goes_local: "moment_ok m \<Longrightarrow> f m (w_local w p) = (a, l) \<Longrightarrow>
    svc.goes w (local_act p f) (w\<lparr>w_local := (w_local w)(p := l)\<rparr>) (Done a)"
  unfolding local_act_def by (rule svc.goes_act[of m]) simp_all

lemma goes_store: "svc.goes w m w' (Done (Inr a)) \<Longrightarrow> svc.goes w (store m) w' (Done (Inr a))"
  unfolding store_def by (erule svc.goes_then) (simp, rule svc.stay)

lemma sample_moment_ok [simp]: "moment_ok sample_moment"
  by (simp add: moment_ok_def horizon_def)

lemma goes_mutation: "svc.goes (in_world rows l) mutation_allowed (in_world rows l) (Done (Inr ()))"
  unfolding mutation_allowed_def using goes_db_get[OF sample_moment_ok, of "in_world rows l" check_mutation_allowed]
  by (intro goes_store) simp

lemma goes_begin:
  "\<not> lc_quiesced l \<Longrightarrow> svc.goes (in_world rows l) (begin_payment_request sample_service)
    (in_world rows (l\<lparr>lc_active := lc_active l + 1\<rparr>)) (Done (Inr ()))"
  unfolding begin_payment_request_def by (rule svc.goes_act[OF sample_moment_ok]) (simp add: Let_def)

lemma goes_db_in:
  "f (sample_env (sample_time + 60 * second)) (sample_db\<lparr>db_orders := rows\<rparr>) = (a, sample_db\<lparr>db_orders := rows'\<rparr>) \<Longrightarrow>
    svc.goes (in_world rows l) (db_act f) (in_world rows' l) (Done a)"
  using goes_db_act[OF sample_moment_ok, of f "in_world rows l" a "sample_db\<lparr>db_orders := rows'\<rparr>"] by simp

lemma goes_local_in:
  "f sample_moment l = (a, l') \<Longrightarrow> svc.goes (in_world rows l) (local_act 0 f) (in_world rows l') (Done a)"
  using goes_local[OF sample_moment_ok, of f "in_world rows l" 0 a l'] by simp

lemma goes_slot:
  assumes "\<not> lc_quiesced l" "lc_next l < sample_time"
  shows "\<exists>l'. svc.goes (in_world rows l) (provider_slot sample_service) (in_world rows l') (Done (Inr ())) \<and> \<not> lc_quiesced l'"
proof -
  let ?l = "l\<lparr>lc_next := sample_time + 60 * second + second\<rparr>"
  have "svc.goes (in_world rows l) (local_act 0 (\<lambda>m l. if lc_quiesced l then (Inl ErrPaymentUnavailable, l)
      else let at = (if lc_next l < e_now (mo_env m) then e_now (mo_env m) else lc_next l) in (Inr at, l\<lparr>lc_next := at + second\<rparr>)))
      (in_world rows ?l) (Done (Inr (sample_time + 60 * second)))"
    by (rule goes_local_in) (use assms in \<open>simp add: Let_def\<close>)
  moreover have "svc.goes (in_world rows ?l) (local_act 0 (\<lambda>_ l. (if lc_quiesced l then Inl ErrPaymentUnavailable else Inr (), l)))
      (in_world rows ?l) (Done (Inr ()))"
    by (rule goes_local_in) (use assms in simp)
  moreover have "svc.goes (in_world rows ?l) (if e_now (mo_env sample_moment) < sample_time + 60 * second
      then wait_until (sample_time + 60 * second) else Done (Inr ())) (in_world rows ?l) (Done (Inr ()))"
    by (simp add: svc.stay)
  ultimately have "svc.goes (in_world rows l) (provider_slot sample_service) (in_world rows ?l) (Done (Inr ()))"
    unfolding provider_slot_def sample_service_simps if_False
    by - (erule svc.goes_attempt, rule svc.goes_then[OF goes_now[OF sample_moment_ok]], erule svc.goes_attempt, erule svc.goes_attempt,
        rule goes_mutation)
  then show ?thesis using assms by auto
qed

section \<open>An order is cancelled\<close>

lemma goes_cancel_link:
  assumes "\<not> lc_quiesced l" "lc_next l < sample_time"
  shows "\<exists>l'. svc.goes (in_world [claimed] l) (cancel_claimed_link sample_service claimed) (in_world [claimed] l') (Done (Inr cancelled_link))"
proof -
  obtain l' where slot: "svc.goes (in_world [claimed] l) (provider_slot sample_service) (in_world [claimed] l') (Done (Inr ()))"
    using goes_slot[OF assms] by blast
  have renew: "svc.goes (in_world [claimed] l') (renew_claim claimed False) (in_world [claimed] l') (Done (Inr claimed))"
    unfolding renew_claim_def
    by (rule goes_store, rule goes_db_in) (simp only: claimed_fields renew_claimed claimed_same)
  have "svc.goes (in_world [claimed] l') (ask_cancel k code) (in_world [claimed] l') (Done (Inr cancelled_link))" for k code
    unfolding ask_cancel_def by (rule svc.goes_then[OF svc.goes_ask[of "Link cancelled_link"]]) (simp_all add: answer_ok_def svc.stay)
  then have "svc.goes (in_world [claimed] l) (cancel_claimed_link sample_service claimed) (in_world [claimed] l') (Done (Inr cancelled_link))"
    unfolding cancel_claimed_link_def by (rule svc.goes_attempt[OF slot svc.goes_attempt[OF renew]])
  then show ?thesis by blast
qed

definition closing :: "(svc_err + unit) pay_job" where
  "closing = finish_reconcile claimed (no_update\<lparr>ou_status := ''CANCELLED'', ou_link := ''link'',
     ou_next := terminal_reconcile_at claimed (sample_time + 60 * second), ou_reset := True\<rparr>)"

lemma goes_cancel:
  "\<exists>l' f. svc.goes (in_world [sample_order] fresh_local) (cancel_order sample_service (b64_encode ''id'')) (in_world [claimed] l') (andthen closing f)"
proof -
  let ?l = "fresh_local\<lparr>lc_active := 1\<rparr>"
  obtain l' where link: "svc.goes (in_world [claimed] ?l) (cancel_claimed_link sample_service claimed) (in_world [claimed] l') (Done (Inr cancelled_link))"
    using goes_cancel_link[of ?l] by (auto simp: fresh_local_def zero_time_def)
  have c: "svc.goes (in_world [claimed] ?l) (cancel_then_get sample_service claimed code (complete_cancellation sample_service claimed))
      (in_world [claimed] l') closing" for code
    unfolding cancel_then_get_def
    by (rule svc.goes_then[OF link]) (simp add: cancelled_proof, simp add: complete_cancellation_def cancelled_link_def closing_def del: andthen_act,
      rule svc.goes_then[OF goes_now[OF sample_moment_ok]], simp add: svc.stay)
  have claim: "svc.goes (in_world [sample_order] ?l) (db_act (\<lambda>e. claim_payment_order e (b64_encode ''id'') (e_now e)))
      (in_world [claimed] ?l) (Done (Inr (claimed, True)))"
    by (rule goes_db_in) (simp only: sample_env_simps sample_claimed)
  have cc: "\<exists>f. svc.goes (in_world [sample_order] ?l) (cancel_claimed sample_service (b64_encode ''id'') sample_order) (in_world [claimed] l') (andthen closing f)"
    unfolding cancel_claimed_def by (rule exI, rule svc.goes_then[OF claim]) (simp, rule svc.goes_part[OF c])
  then obtain f where cc: "svc.goes (in_world [sample_order] ?l) (cancel_claimed sample_service (b64_encode ''id'') sample_order) (in_world [claimed] l')
      (andthen closing f)" by blast
  have b: "svc.goes (in_world [sample_order] fresh_local) (begin_payment_request sample_service) (in_world [sample_order] ?l) (Done (Inr ()))"
    using goes_begin[of fresh_local "[sample_order]"] by (simp add: fresh_local_def)
  have "payment_order (b64_encode ''id'') (w_db (in_world [sample_order] fresh_local)) = Inr sample_order"
    by (simp only: in_world_simps sample_found)
  moreover have "o_channel sample_order = sv_client sample_service" "o_status sample_order \<noteq> ''PAID''"
    by (simp_all add: sample_order_fields)
  ultimately have "\<exists>f. svc.goes (in_world [sample_order] fresh_local) (cancel_on sample_service (b64_encode ''id'')) (in_world [claimed] l') (andthen closing f)"
    unfolding cancel_on_def counted_request_def
    by - (rule exI, rule svc.goes_then[OF goes_db_get[OF sample_moment_ok]], simp only: sum.case if_False simp_thms,
      rule svc.goes_then[OF b], simp only: sum.case, rule svc.goes_part[OF cc, unfolded andthen_assoc])
  then show ?thesis unfolding cancel_order_def by auto
qed

definition closed_order :: "order" where
  "closed_order = completed_order (sample_env (sample_time + 60 * second)) (no_update\<lparr>ou_status := ''CANCELLED'', ou_link := ''link'',
     ou_next := terminal_reconcile_at claimed (sample_time + 60 * second), ou_reset := True\<rparr>)
     (fmt_nano (terminal_reconcile_at claimed (sample_time + 60 * second))) claimed"

lemma sample_expires: "parse_nano (o_expires sample_order) = Some (sample_time + 30 * 60 * second)" "o_expires claimed = o_expires sample_order"
proof -
  have "in_range (sample_time + 30 * 60 * second)" by (simp add: in_range_def secs_range_def)
  then have "parse_nano (fmt_nano (sample_time + 30 * 60 * second)) = Some (sample_time + 30 * 60 * second)" by (rule parse_fmt_nano)
  then show "parse_nano (o_expires sample_order) = Some (sample_time + 30 * 60 * second)"
    by (simp add: sample_order_def new_order_def Let_def)
qed (simp add: claimed_def)

lemma sample_closed: "\<exists>r. complete_payment_order_operation (sample_env (sample_time + 60 * second)) (b64_encode ''id'') (b64_encode [CHR 0x00])
    (no_update\<lparr>ou_status := ''CANCELLED'', ou_link := ''link'', ou_next := terminal_reconcile_at claimed (sample_time + 60 * second), ou_reset := True\<rparr>)
    (sample_db\<lparr>db_orders := [claimed]\<rparr>) = (Inr r, sample_db\<lparr>db_orders := [closed_order]\<rparr>)"
proof -
  let ?u = "no_update\<lparr>ou_status := ''CANCELLED'', ou_link := ''link'', ou_next := terminal_reconcile_at claimed (sample_time + 60 * second), ou_reset := True\<rparr>"
  let ?s = "sample_db\<lparr>db_orders := [claimed]\<rparr>"
  have h: "order_held_by (b64_encode ''id'') (b64_encode [CHR 0x00]) ?s = Some claimed"
    by (simp only: order_held_by_def) simp
  have z: "terminal_reconcile_at claimed (sample_time + 60 * second) \<noteq> zero_time"
    by (simp add: terminal_reconcile_at_def sample_expires day_def zero_time_def)
  have n: "complete_next claimed ?u = Inr (fmt_nano (terminal_reconcile_at claimed (sample_time + 60 * second)))"
    using z by (simp add: complete_next_def no_update_def)
  have p: "payment_order (b64_encode ''id'') (sample_db\<lparr>db_orders := [closed_order]\<rparr>) = Inr closed_order"
    by (simp add: payment_order_def closed_order_def completed_order_def)
  have c: "update_where (\<lambda>x. o_id x = b64_encode ''id'' \<and> o_token x = b64_encode [CHR 0x00])
      (completed_order (sample_env (sample_time + 60 * second)) ?u (fmt_nano (terminal_reconcile_at claimed (sample_time + 60 * second)))) [claimed] = [closed_order]"
    by (simp add: closed_order_def)
  have t: "complete_payment_order_operation_tx (sample_env (sample_time + 60 * second)) (b64_encode ''id'') (b64_encode [CHR 0x00]) ?u ?s =
      Inr (closed_order, sample_db\<lparr>db_orders := [closed_order]\<rparr>)"
    unfolding complete_payment_order_operation_tx_def h option.case n bnd_Inr Let_def
    using c p by (simp add: link_clash_def)
  have v: "ou_status ?u = ''CANCELLED''" "ou_attempts ?u = 0" by (simp_all add: no_update_def)
  show ?thesis
    unfolding complete_payment_order_operation_def run_tx_def t v by (simp add: valid_payment_status_def)
qed

lemma sample_world_ok: "world_ok (in_world [sample_order] l)"
proof -
  have "w_db (in_world [sample_order] l) = sample_db" by (simp add: sample_db_def)
  moreover have "db_ok sample_db" using sample_money by (simp add: db_ok_def in_time_def sample_expires horizon_def)
  ultimately show ?thesis unfolding world_ok_def by (simp only:) simp
qed

section \<open>An order is created\<close>

definition empty_world :: "local \<Rightarrow> world" where
  "empty_world l = \<lparr>w_db = initial_db [], w_local = (\<lambda>_. fresh_local)(0 := l), w_published = []\<rparr>"

lemma empty_world_ok: "world_ok (empty_world l)"
  by (simp add: world_ok_def db_ok_def in_time_def empty_world_def money_inv_def orders_inv_def link_clash_def transaction_clash_def)

definition drawing_moment :: moment where
  "drawing_moment = \<lparr>mo_env = sample_env sample_time, mo_draws = [(''id'', 5)], mo_jitter = None\<rparr>"

lemma drawing_ok [simp]: "moment_ok drawing_moment"
  by (simp add: drawing_moment_def moment_ok_def horizon_def)

definition sample_uuid :: string where
  "sample_uuid = ''00000000-0000-4000-8000-000000000000''"

definition placed_intent :: order_intent where
  "placed_intent = \<lparr>oi_channel = ''channel'', oi_key = sample_uuid, oi_hash = payment_request_hash (sample_env sample_time) 25000 ''STATIC_URL'',
     oi_amount = 25000, oi_origin = ''STATIC_URL''\<rparr>"

definition placed :: order where
  "placed = new_order (sample_env sample_time) (random_payment_token [CHR 0x00]) placed_intent (random_payment_token ''id'') 100000000005"

lemma placed_fields: "o_code placed = 100000000005" "parse_nano (o_expires placed) = Some (sample_time + 30 * 60 * second)"
  using sample_expires by (simp_all add: placed_def sample_order_def new_order_def Let_def)

lemma placed_valid: "valid_intent placed_intent"
proof -
  have "sha_hex (sample_env sample_time) v \<noteq> []" if "v \<noteq> []" for v using that by (cases v) (simp_all add: sha_hex_def sample_env_def hex_of_def)
  then have "payment_request_hash (sample_env sample_time) 25000 ''STATIC_URL'' \<noteq> []"
    by (simp add: payment_request_hash_def)
  then show ?thesis by (simp add: valid_intent_def placed_intent_def sample_uuid_def)
qed

lemma placed_reserve:
  "reserve_payment_order (sample_env sample_time) [(''id'', 5)] placed_intent (initial_db []) =
    (Inr (placed, True), (initial_db [])\<lparr>db_orders := [placed]\<rparr>)"
  using placed_valid
  by (simp add: reserve_payment_order_def run_tx_Inr reserve_payment_order_tx_def payment_order_by_key_def gate_open_allows
      random_payment_order_code_def placed_def Let_def)

lemma goes_create:
  "\<exists>w f. svc.goes (empty_world fresh_local) (create_order sample_service 25000 ''STATIC_URL'' sample_uuid) w
    (Ask (QCreate pay_keys (create_request_for sample_service placed (sample_time + 30 * 60 * second))) f)"
proof -
  let ?e = "sample_env sample_time" and ?l = "fresh_local\<lparr>lc_active := 1\<rparr>"
  let ?w = "(empty_world ?l)\<lparr>w_db := (initial_db [])\<lparr>db_orders := [placed]\<rparr>\<rparr>"
  have m: "mo_env drawing_moment = ?e" "mo_draws drawing_moment = [(''id'', 5)]" by (simp_all add: drawing_moment_def)
  have i: "invalid_intent sample_service 25000 ''STATIC_URL'' sample_uuid = None"
    by (simp add: invalid_intent_def max_safe_integer_def) (code_simp)
  have c: "closed_error (config_status sample_service) = None"
    by (simp add: config_status_def closed_error_def sample_service_def new_service_def pay_keys_def)
  have b: "svc.goes (empty_world fresh_local) (begin_payment_request sample_service) (empty_world ?l) (Done (Inr ()))"
    unfolding begin_payment_request_def
    by (rule svc.goes_act[OF drawing_ok]) (simp add: Let_def empty_world_def fresh_local_def m gate_open_allows)
  have r: "svc.goes (empty_world ?l) (reserve_act placed_intent) ?w (Done (Inr (placed, True)))"
    unfolding reserve_act_def by (rule svc.goes_act[OF drawing_ok]) (simp add: empty_world_def m placed_reserve)
  have a: "\<exists>f. create_new sample_service placed =
      Ask (QCreate pay_keys (create_request_for sample_service placed (sample_time + 30 * 60 * second))) f"
    by (simp add: create_new_def placed_fields ask_create_def provider_keys_def)
  then obtain f where a: "create_new sample_service placed =
      Ask (QCreate pay_keys (create_request_for sample_service placed (sample_time + 30 * 60 * second))) f" by blast
  have rc: "svc.goes (empty_world ?l) (reserve_and_create sample_service placed_intent) ?w (create_new sample_service placed)"
    unfolding reserve_and_create_def by (rule svc.goes_then[OF r]) (simp add: svc.stay)
  have "payment_order_by_key (sv_client sample_service) sample_uuid (w_db (empty_world fresh_local)) = Inl ErrNoRows"
    by (simp add: empty_world_def payment_order_by_key_def)
  moreover have "placed_intent = \<lparr>oi_channel = sv_client sample_service, oi_key = sample_uuid,
      oi_hash = payment_request_hash (mo_env drawing_moment) 25000 ''STATIC_URL'', oi_amount = 25000, oi_origin = ''STATIC_URL''\<rparr>"
    by (simp add: placed_intent_def m)
  ultimately have "\<exists>f. svc.goes (empty_world fresh_local) (create_on sample_service 25000 ''STATIC_URL'' sample_uuid) ?w
      (andthen (create_new sample_service placed) f)"
    unfolding create_on_def i option.case counted_request_def
    by - (rule exI, rule svc.goes_then[OF goes_db_get[OF drawing_ok]],
      simp only: prod.case sum.case c option.case simp_thms if_False if_True, rule svc.goes_then[OF b],
      simp only: sum.case, erule subst, rule svc.goes_part[OF rc])
  then show ?thesis unfolding create_order_def a by auto
qed

section \<open>A callback is acknowledged\<close>

definition sample_body :: "(string \<times> jval) list" where
  "sample_body = [(''code'', JStr ''00''), (''success'', JBool True),
     (''data'', JObj [(''orderCode'', JNum (int_text 123)), (''amount'', JNum (int_text 3000))]), (''signature'', JStr (replicate 64 CHR ''0''))]"

lemma sample_numbers: "n \<in> {123, 3000} \<Longrightarrow> safe_number_text (int_text n) \<and> normal_number (int_text n) = int_text n"
  using int_text_parse[of n] by (auto simp: safe_number_text_def normal_number_def in_safe_def max_safe_integer_def min_int64_def max_int64_def)

lemma sample_hex: "hex_text (replicate 64 CHR ''0'')"
  by (simp add: hex_text_def hex_value_def list_all_iff)

lemma sample_shape: "valid_webhook_shape sample_body"
  by (simp add: valid_webhook_shape_def sample_body_def sample_numbers is_string_def string_or_absent_def string_or_null_def safe_number_def)

lemma goes_callback: "\<exists>w. svc.goes (in_world [sample_order] fresh_local) (handle_webhook sample_service sample_body) w (Done (Inr ()))"
proof -
  let ?l = "fresh_local\<lparr>lc_active := 1\<rparr>"
  let ?v = "map_put ''data'' (JObj [(''orderCode'', JNum (int_text 123)), (''amount'', JNum (int_text 3000))]) sample_body"
  have v: "adapter_verify (\<lambda>k sig data. Some (Some sample_hook)) pay_keys sample_body = Inr (sample_hook, ?v)"
    by (simp add: adapter_verify_def sample_body_def sample_hex sample_numbers safe_number_def)
  have vc: "map_of ?v ''code'' = Some (JStr ''00'')" "map_of ?v ''success'' = Some (JBool True)"
    by (simp_all add: sample_body_def map_put_def)
  have b: "svc.goes (in_world [sample_order] fresh_local) (begin_payment_request sample_service) (in_world [sample_order] ?l) (Done (Inr ()))"
    using goes_begin[of fresh_local "[sample_order]"] by (simp add: fresh_local_def)
  have s: "is_confirmation_sample sample_hook" and result: "wd_result sample_hook = ''00''"
    by (simp_all add: is_confirmation_sample_def sample_hook_def)
  have a: "svc.goes (in_world [sample_order] ?l) (accept_webhook sample_service ?v sample_hook) (in_world [sample_order] ?l) (Done (Inr ()))"
    unfolding accept_webhook_def Let_def
    by (simp add: vc s result, rule svc.goes_then[OF goes_mutation], simp, rule svc.stay)
  have rec: "\<exists>w'. svc.goes w (record_activity sv kind) w' (Done ())" for w sv kind
    unfolding record_activity_def
    by (rule exI, rule svc.goes_then[OF goes_db_act[OF sample_moment_ok prod.collapse[symmetric]] svc.stay])
  have fin: "\<exists>w'. svc.goes w (end_payment_request sample_service) w' (Done ())" for w
    unfolding end_payment_request_def by (rule exI, rule goes_local[OF sample_moment_ok]) simp
  obtain w1 where r: "svc.goes (in_world [sample_order] ?l) (record_activity sample_service ''WEBHOOK'') w1 (Done ())" using rec by blast
  obtain w2 where e: "svc.goes w1 (end_payment_request sample_service) w2 (Done ())" using fin by blast
  have verify: "verify_webhook sample_service sample_body = Done (Inr (sample_hook, ?v))"
    using v by (simp add: verify_webhook_def Let_def sample_vendor_def provider_keys_def)
  have "svc.goes (in_world [sample_order] fresh_local) (handle_on sample_service sample_body) w2 (Done (Inr ()))"
    unfolding handle_on_def verify counted_request_def andthen.simps sum.case prod.case
    by (simp add: sample_shape, rule svc.goes_then[OF b], simp, rule svc.goes_then[OF svc.goes_then[OF a]], simp,
        rule svc.goes_then[OF r svc.stay], rule svc.goes_then[OF e svc.stay])
  then show ?thesis unfolding handle_webhook_def by auto
qed
end
