(* ===== verification/PaySystem.thy ===== *)
theory PaySystem
  imports PaySamples
begin

text \<open>
  The payment system: the jobs of all entry points of the service, any number of them interleaved, in any
  number of processes, with any answers of the provider.  What holds in every run.
\<close>

section \<open>Every entry point is sound\<close>

lemma create_order_fine: "fine (create_order sv amount origin key) h"
  unfolding create_order_def using create_on_fine pin_fine[of "\<lambda>op. create_on op amount origin key"] by simp

lemma existing_fine: "fine (existing_order_intent sv amount origin key) h"
proof -
  have e: "fine (existing_on op amount origin key) g" for op g
  proof (cases "invalid_intent op amount origin key")
    case None
    show ?thesis unfolding existing_on_def None option.case by (rule chain[OF get_fine]) (auto split: prod.split)
  qed (simp add: existing_on_def)
  have "fine (andthen (resolve sv) (\<lambda>r. case r of Inl x \<Rightarrow> Done (None, False, Some x) | Inr op \<Rightarrow> existing_on op amount origin key)) h"
    by (rule chain[OF resolve_fine]) (auto split: sum.split intro: e)
  then show ?thesis using e unfolding existing_order_intent_def by simp
qed

lemma store_fine: "fine m h \<Longrightarrow> fine (store m) h"
  by (rule post_weaken[OF safe_store]) auto

lemma cancel_order_fine: "fine (cancel_order sv i) h"
  unfolding cancel_order_def using cancel_on_fine pin_fine[of "\<lambda>op. cancel_on op i"] by simp

lemma reconcile_order_fine: "fine (reconcile_order sv i) h"
  unfolding reconcile_order_def using reconcile_on_fine pin_fine[of "\<lambda>op. reconcile_on op i"] by simp

lemma reconcile_all_fine: "fine (reconcile_all sv is) h"
proof (induction "is" arbitrary: h)
  case (Cons i "is")
  show ?case
    unfolding reconcile_all.simps by (rule chain[OF reconcile_order_fine]) (auto split: sum.split intro: Cons.IH)
qed simp

lemma attempt_fine: "fine m h \<Longrightarrow> (\<And>a g. set h \<subseteq> set g \<Longrightarrow> fine (f a) g) \<Longrightarrow> fine (attempt m f) h"
  by (rule chain_attempt[where Q = "\<lambda>_ _. True"]) simp_all

lemma wake_pending_fine: "fine (store (db_act (\<lambda>e. wake_pending_payment_callbacks e channel))) h"
  by (intro store_fine plain_fine wake_pending_store)

lemma due_fine: "fine (due_orders sv channel) h"
  unfolding due_orders_def by (intro store_fine get_fine)

lemma mutation_fine: "fine mutation_allowed h"
  by (rule post_weaken[OF calm_mutation]) simp

lemma reconcile_due_fine: "fine (reconcile_due sv) h"
proof -
  have w: "fine (attempt (store (db_act (\<lambda>e. wake_pending_payment_callbacks e channel))) (\<lambda>_.
            attempt (due_orders sv channel) (\<lambda>rs. reconcile_all sv (map o_id rs)))) g" for channel g
    by (intro attempt_fine wake_pending_fine due_fine reconcile_all_fine)
  have m: "fine (attempt (resolve sv) (\<lambda>op. if sv_provider op = None then Done (Inr ())
      else attempt (store (db_act (\<lambda>e. wake_pending_payment_callbacks e (sv_client op)))) (\<lambda>_.
            attempt (due_orders sv (sv_client op)) (\<lambda>rs. reconcile_all sv (map o_id rs))))) g" for g
    by (rule attempt_fine[OF resolve_fine]) (simp add: w split: if_split)
  have u: "fine (attempt mutation_allowed (\<lambda>_. attempt (store (db_act (\<lambda>e. wake_pending_payment_callbacks e (sv_client sv)))) (\<lambda>_.
            attempt (due_orders sv (sv_client sv)) (\<lambda>rs. reconcile_all sv (map o_id rs))))) g" for g
    by (rule attempt_fine[OF mutation_fine]) (rule w)
  show ?thesis
    unfolding reconcile_due_def
    by (auto split: if_split intro!: chain[OF get_fine] chain[OF fine_local] m u)
qed

lemma confirm_on_fine: "fine (confirm_on sv) h"
proof -
  have a: "fine (ask_confirm k url) g" for k url g
    unfolding ask_confirm_def by (auto simp: ext_def)
  show ?thesis
    unfolding confirm_on_def
    by (auto split: sum.split intro!: chain[OF begin_fine] counted_fine chain[OF a])
qed

lemma confirm_fine: "fine (confirm_provider_webhook sv actor) h"
proof -
  have "fine (attempt (confirm_on op) (\<lambda>_. andthen (db_act (\<lambda>e. ProviderConfig.confirm_webhook e (sv_revision op) actor)) (\<lambda>r. Done (case r of
          Inl x \<Rightarrow> Inl (provider_config_error x) | Inr _ \<Rightarrow> Inr ())))) g" for op g
    by (rule attempt_fine[OF confirm_on_fine]) (rule chain[OF plain_fine[OF confirm_webhook_store]], simp_all)
  then show ?thesis
    unfolding confirm_provider_webhook_def using confirm_on_fine by (auto intro: pin_fine)
qed

lemma save_config_fine: "fine (save_provider_config sv keys enabled actor) h"
  unfolding save_provider_config_def
  by (rule chain[OF plain_fine[OF save_config_store]]) (auto split: sum.split intro!: chain[OF wake_fine])

lemma read_status_fine: "fine (read_status sv) h"
proof -
  have s: "fine (status_on op) g" for op g
    unfolding status_on_def
    by (auto split: if_split intro!: chain[OF get_fine] chain[OF mutation_fine] chain[OF fine_local])
  then show ?thesis unfolding read_status_def by (auto intro: attempt_fine resolve_fine)
qed

lemma service_status_fine: "fine (service_status sv) h"
  unfolding service_status_def by (auto intro!: chain[OF resolve_fine])

lemma drain_process_fine: "fine (drain_process sv n) h"
proof (induction n arbitrary: h)
  case (Suc n)
  show ?case unfolding drain_process.simps by (rule chain[OF fine_local]) (simp add: Suc)
qed simp

lemma close_process_fine: "fine (close_process sv n) h"
  unfolding close_process_def by (rule chain[OF fine_local]) (rule drain_process_fine)

lemma drain_database_fine: "fine (drain_database sv n) h"
proof (induction n arbitrary: h)
  case (Suc n)
  show ?case unfolding drain_database.simps by (rule chain[OF get_fine]) (simp add: Suc close_process_fine)
qed simp

lemma quiesce_fine: "fine (quiesce sv n) h"
  unfolding quiesce_def
  by (auto intro!: chain[OF plain_fine] close_process_fine drain_database_fine simp: set_quiesced_store)

lemma resume_fine: "fine (resume_service sv) h"
  unfolding resume_service_def
  by (rule chain[where Q = "\<lambda>_ _. True"]) (auto intro: plain_fine fine_local simp: set_quiesced_store)

lemma active_fine: "fine (active_requests_of sv) h"
  unfolding active_requests_of_def by (simp add: get_fine fine_local)

lemma renew_admission_fine: "fine (renew_admission token) h"
  unfolding renew_admission_def by (intro store_fine plain_fine renew_operation_store)

section \<open>The system\<close>

text \<open>What is left of a job that has ended: of a callback its answer.\<close>

datatype outcome = Callback service "(string \<times> jval) list" "svc_err + unit" | Finished

definition finishing :: "'a pay_job \<Rightarrow> outcome pay_job" where
  "finishing m = andthen m (\<lambda>_. Done Finished)"

definition callback_job :: "service \<Rightarrow> (string \<times> jval) list \<Rightarrow> outcome pay_job" where
  "callback_job sv body = andthen (handle_webhook sv body) (\<lambda>a. Done (Callback sv body a))"

inductive_set payment_jobs :: "outcome pay_job set" where
  create: "finishing (create_order sv amount origin key) \<in> payment_jobs"
| existing: "finishing (existing_order_intent sv amount origin key) \<in> payment_jobs"
| order: "finishing (read_order sv i) \<in> payment_jobs"
| orders: "finishing (read_orders sv st cursor limit) \<in> payment_jobs"
| cancel: "finishing (cancel_order sv i) \<in> payment_jobs"
| reconcile: "finishing (reconcile_order sv i) \<in> payment_jobs"
| due: "finishing (reconcile_due sv) \<in> payment_jobs"
| callback: "callback_job sv body \<in> payment_jobs"
| confirm: "finishing (confirm_provider_webhook sv actor) \<in> payment_jobs"
| config: "finishing (service_provider_config sv) \<in> payment_jobs"
| save: "finishing (save_provider_config sv keys enabled actor) \<in> payment_jobs"
| status: "finishing (read_status sv) \<in> payment_jobs"
| status_text: "finishing (service_status sv) \<in> payment_jobs"
| quiesce: "finishing (quiesce sv n) \<in> payment_jobs"
| resume: "finishing (resume_service sv) \<in> payment_jobs"
| active: "finishing (active_requests_of sv) \<in> payment_jobs"
| renew: "finishing (renew_admission token) \<in> payment_jobs"

text \<open>A run of the system: from a state, no job begun.\<close>

definition pay_run :: "world \<Rightarrow> world \<times> (outcome pay_job \<times> past) list \<Rightarrow> bool" where
  "pay_run w = (svc.run_step payment_jobs)\<^sup>*\<^sup>* (w, [])"

definition honest :: "outcome \<Rightarrow> past \<Rightarrow> bool" where
  "honest a h \<longleftrightarrow> (case a of Callback sv body r \<Rightarrow> acks_body sv body r h | Finished \<Rightarrow> True)"

lemma finishing_safe: "fine m [] \<Longrightarrow> svc.safe (finishing m) honest []"
  unfolding finishing_def svc.safe_andthen by (erule svc.safe_mono) (simp add: honest_def)

lemma callback_safe: "svc.safe (callback_job sv body) honest []"
  unfolding callback_job_def svc.safe_andthen
  by (rule svc.safe_mono[OF handle_acks]) (simp add: honest_def ext_def)

lemma payment_jobs_safe: "m \<in> payment_jobs \<Longrightarrow> svc.safe m honest []"
  by (induction rule: payment_jobs.induct)
    (auto intro!: finishing_safe callback_safe create_order_fine existing_fine cancel_order_fine reconcile_order_fine reconcile_due_fine
      confirm_fine save_config_fine read_status_fine service_status_fine quiesce_fine resume_fine active_fine renew_admission_fine
      get_fine store_fine simp: read_order_def read_orders_def service_provider_config_def)

lemma run_ok: "pay_run w c \<Longrightarrow> world_ok w \<Longrightarrow> svc.system_ok honest c"
  unfolding pay_run_def using svc.steps_ok[OF _ svc.system_start] payment_jobs_safe by blast

lemma run_le: "pay_run w c \<Longrightarrow> world_ok w \<Longrightarrow> world_le w (fst c)"
  unfolding pay_run_def by (drule svc.steps_le[OF _ svc.system_start payment_jobs_safe]) simp_all

text \<open>
  C6.  In every run of any number of payment operations in any number of processes, interleaved action by
  action, whatever the provider answers: the money invariant holds (each receipt belongs to exactly one paid
  order of its amount and to one ledger transaction), no order and no receipt is ever lost or changes its
  intent, and every payment that was announced to the clients has a committed receipt.
\<close>

theorem service_keeps_books:
  assumes "world_ok w" "pay_run w (w', js)"
  shows "money_inv (w_db w') \<and> orders_extend (db_orders (w_db w)) (db_orders (w_db w')) \<and>
    set (db_receipts (w_db w)) \<subseteq> set (db_receipts (w_db w')) \<and>
    (\<forall>n\<in>set (w_published w'). \<exists>c\<in>set (db_receipts (w_db w')). rc_transaction c = n_transaction n)"
  using run_ok[OF assms(2,1)] run_le[OF assms(2,1)]
  by (simp add: svc.system_ok_def world_ok_def world_le_def db_ok_def db_le_def)

text \<open>
  Where a status that closes an order can come from: it was there when the run began, or an operation of
  the run has heard it from the provider, in a link with the number and the amount of the order.
\<close>

definition heard_closed :: "(outcome pay_job \<times> past) list \<Rightarrow> order \<Rightarrow> bool" where
  "heard_closed js r \<longleftrightarrow> (\<exists>(m, h)\<in>set js. \<exists>key l. (Heard (QGet key (o_code r)) (Link l) \<in> set h \<or> Heard (QCancel key (o_code r)) (Link l) \<in> set h) \<and>
     pl_code l = o_code r \<and> pl_amount l = o_amount r \<and> pl_status l = o_status r)"

definition closed_known :: "world \<Rightarrow> (outcome pay_job \<times> past) list \<Rightarrow> world \<Rightarrow> bool" where
  "closed_known w js s \<longleftrightarrow> (\<forall>r\<in>set (db_orders (w_db s)). o_status r \<in> {''CANCELLED'', ''EXPIRED''} \<longrightarrow>
     (\<exists>x\<in>set (db_orders (w_db w)). o_id x = o_id r \<and> o_status x = o_status r) \<or> heard_closed js r)"

lemma heard_closed_mono:
  "heard_closed js r \<Longrightarrow> (\<And>m h. (m, h) \<in> set js \<Longrightarrow> \<exists>m' h'. (m', h') \<in> set js' \<and> set h \<subseteq> set h') \<Longrightarrow> heard_closed js' r"
  unfolding heard_closed_def by fastforce

lemma heard_closed_cong:
  "o_code x = o_code r \<Longrightarrow> o_amount x = o_amount r \<Longrightarrow> o_status x = o_status r \<Longrightarrow> heard_closed js x = heard_closed js r"
  by (simp add: heard_closed_def)

lemma longer_pasts:
  assumes "i < length js" "js ! i = (m, h)" "set h \<subseteq> set h'" "(n, g) \<in> set js"
  shows "\<exists>n' g'. (n', g') \<in> set (js[i := (m', h')]) \<and> set g \<subseteq> set g'"
proof -
  obtain j where j: "j < length js" "js ! j = (n, g)" using assms(4) by (auto simp: in_set_conv_nth)
  then have n: "js[i := (m', h')] ! j \<in> set (js[i := (m', h')])" by (intro nth_mem) simp
  show ?thesis
  proof (cases "j = i")
    case True
    with j n assms(1-3) show ?thesis by auto
  next
    case False
    with j n show ?thesis by auto
  qed
qed

text \<open>The same order later.\<close>

lemma same_order_later:
  assumes "world_le a b" "world_ok b" "x \<in> set (db_orders (w_db a))" "r \<in> set (db_orders (w_db b))" "o_id x = o_id r"
  shows "o_code x = o_code r \<and> o_amount x = o_amount r"
proof -
  have "orders_extend (db_orders (w_db a)) (db_orders (w_db b))" using assms(1) by (simp add: world_le_def db_le_def)
  then obtain y where y: "y \<in> set (db_orders (w_db b))" "order_extends x y" using assms(3) by (auto simp: orders_extend_def)
  have "orders_inv (db_orders (w_db b))" using assms(2) by (simp add: world_ok_def db_ok_def money_inv_def)
  then have "y = r" using row_unique[of "db_orders (w_db b)" y r] y assms(4,5) by (simp add: order_extends_def)
  with y(2) show ?thesis by (simp add: order_extends_def)
qed

lemma closed_known_source:
  assumes "closed_known w js a" "world_le a b" "world_ok b" "x \<in> set (db_orders (w_db a))" "r \<in> set (db_orders (w_db b))"
    and "o_id x = o_id r" "o_status x = o_status r" "o_status r \<in> {''CANCELLED'', ''EXPIRED''}"
  shows "(\<exists>x\<in>set (db_orders (w_db w)). o_id x = o_id r \<and> o_status x = o_status r) \<or> heard_closed js r"
proof -
  have "(\<exists>y\<in>set (db_orders (w_db w)). o_id y = o_id x \<and> o_status y = o_status x) \<or> heard_closed js x"
  proof -
    have "o_status x \<in> {''CANCELLED'', ''EXPIRED''}" using assms(7,8) by simp
    then show ?thesis using assms(1,4) unfolding closed_known_def by blast
  qed
  moreover have "heard_closed js x = heard_closed js r"
    using heard_closed_cong[of x r js] same_order_later[OF assms(2-6)] assms(7) by blast
  ultimately show ?thesis using assms(6,7) by simp
qed

text \<open>An action of an operation with a past in which every seen state is explained leaves an explained state.\<close>

lemma closed_known_step:
  assumes "may_change h s t" "world_le s t" "world_ok t" "svc.after h s" "closed_known w js s"
    and "\<And>H a b. Did H a b \<in> set h \<Longrightarrow> closed_known w js b" and "(m, h) \<in> set js"
  shows "closed_known w js t"
  unfolding closed_known_def
proof (intro ballI impI)
  fix r assume r: "r \<in> set (db_orders (w_db t))" "o_status r \<in> {''CANCELLED'', ''EXPIRED''}"
  consider (was) x where "x \<in> set (db_orders (w_db s))" "o_id x = o_id r" "o_status r = o_status x" | (new) "evidence_for h r (o_status r)"
    using assms(1) r unfolding may_change_def status_step_def by fastforce
  then show "(\<exists>x\<in>set (db_orders (w_db w)). o_id x = o_id r \<and> o_status x = o_status r) \<or> heard_closed js r"
  proof cases
    case was
    then show ?thesis using closed_known_source[OF assms(5,2,3) was(1) r(1) was(2) _ r(2)] by simp
  next
    case new
    then consider (told) l where "told_link h (o_code r) l" "pl_code l = o_code r" "pl_amount l = o_amount r" "pl_status l = o_status r"
      | (saw) "saw h (\<lambda>x. o_id x = o_id r \<and> o_status x = o_status r)"
      using r(2) unfolding evidence_for_def by auto
    then show ?thesis
    proof cases
      case told
      then show ?thesis using assms(7) unfolding heard_closed_def told_link_def by blast
    next
      case saw
      then obtain H a b x where x: "Did H a b \<in> set h" "x \<in> set (db_orders (w_db b))" "o_id x = o_id r" "o_status x = o_status r"
        unfolding saw_def by blast
      have "world_le b t" using assms(2,4) x(1) svc.le_trans unfolding svc.after_def by blast
      then show ?thesis using closed_known_source[OF assms(6)[OF x(1)] _ assms(3) x(2) r(1) x(3,4) r(2)] by blast
    qed
  qed
qed

definition pasts_known :: "world \<Rightarrow> (outcome pay_job \<times> past) list \<Rightarrow> bool" where
  "pasts_known w js \<longleftrightarrow> (\<forall>(m, h)\<in>set js. \<forall>H a b. Did H a b \<in> set h \<longrightarrow> closed_known w js b)"

lemma closed_known_mono:
  "closed_known w js s \<Longrightarrow> (\<And>m h. (m, h) \<in> set js \<Longrightarrow> \<exists>m' h'. (m', h') \<in> set js' \<and> set h \<subseteq> set h') \<Longrightarrow> closed_known w js' s"
  unfolding closed_known_def using heard_closed_mono by blast

lemma run_closed:
  assumes "(svc.run_step payment_jobs)\<^sup>*\<^sup>* (w, []) (s, js)" "world_ok w"
  shows "closed_known w js s \<and> pasts_known w js"
  using assms(1)
proof (induction "(s, js)" arbitrary: s js rule: rtranclp_induct)
  case base
  then show ?case by (auto simp: closed_known_def pasts_known_def)
next
  case (step d)
  obtain t ks where d: "d = (t, ks)" by fastforce
  have run: "pay_run w (t, ks)" using step(1) by (simp add: pay_run_def d)
  note ok = run_ok[OF run assms(2)]
  have ih: "closed_known w ks t" "pasts_known w ks" using step(3)[OF d] by simp_all
  have past: "closed_known w ks b" if "(m, h) \<in> set ks" "Did H a b \<in> set h" for m h H a b
    using ih(2) that unfolding pasts_known_def by blast
  from step(2)[unfolded d] show ?case
  proof cases
    case (join m)
    have k: "closed_known w ks b \<Longrightarrow> closed_known w js b" for b by (rule closed_known_mono) (use join in auto)
    then show ?thesis using ih(1) past join by (auto simp: pasts_known_def)
  next
    case (step i u k h e)
    have mem: "(Act u k, h) \<in> set ks" using nth_mem[OF step(3)] step(4) by simp
    have g: "may_change h t (u e t) \<and> world_le t (u e t) \<and> world_ok (u e t)" using svc.step_may[OF ok step(3,4,5)] .
    have af: "svc.after h t" using svc.system_nth[OF ok step(3,4)] by blast
    have new: "closed_known w ks (u e t)"
      by (rule closed_known_step[OF _ _ _ af ih(1) past[OF mem] mem]) (use g in auto)
    have k: "closed_known w ks b \<Longrightarrow> closed_known w js b" for b
      by (erule closed_known_mono) (unfold step(2), rule longer_pasts[OF step(3,4)], auto)
    have "closed_known w js b" if "(m', h') \<in> set js" "Did H a b \<in> set h'" for m' h' H a b
    proof -
      have "(m', h') \<in> insert (ks[i := (js ! i)] ! i) (set ks)"
        using that(1) set_update_subset_insert[of ks i "js ! i"] step(2,3) by auto
      then show ?thesis using that(2) k[OF new] k[OF past[OF mem]] k[OF past] step(2,3) by auto
    qed
    then show ?thesis using k[OF new] step(1) by (auto simp: pasts_known_def)
  next
    case (answer i q k h x)
    have mem: "(Ask q k, h) \<in> set ks" using nth_mem[OF answer(3)] answer(4) by simp
    have k: "closed_known w ks b \<Longrightarrow> closed_known w js b" for b
      by (erule closed_known_mono) (unfold answer(2), rule longer_pasts[OF answer(3,4)], auto)
    have "closed_known w js b" if "(m', h') \<in> set js" "Did H a b \<in> set h'" for m' h' H a b
    proof -
      have "(m', h') \<in> insert (ks[i := (js ! i)] ! i) (set ks)"
        using that(1) set_update_subset_insert[of ks i "js ! i"] answer(2,3) by auto
      then show ?thesis using that(2) k[OF past[OF mem]] k[OF past] answer(2,3) by auto
    qed
    then show ?thesis using k[OF ih(1)] answer(1) by (auto simp: pasts_known_def)
  qed
qed

text \<open>
  C7.  An order becomes CANCELLED or EXPIRED only on the word of the provider.  In every run of any number of
  interleaved operations, whenever an order has one of these two statuses that it did not have when the run
  began, some operation of the run has already received a link with the number and the amount of the order and this
  very status, as the answer to its own Get or Cancel of that number.  A timeout, an error or an answer for
  another order never closes one.
\<close>

theorem status_needs_evidence:
  assumes "world_ok w" "pay_run w (s, js)" "r \<in> set (db_orders (w_db s))" "o_status r \<in> {''CANCELLED'', ''EXPIRED''}"
    and "\<forall>x\<in>set (db_orders (w_db w)). o_id x = o_id r \<longrightarrow> o_status x \<noteq> o_status r"
  shows "\<exists>(m, h)\<in>set js. \<exists>key l. (Heard (QGet key (o_code r)) (Link l) \<in> set h \<or> Heard (QCancel key (o_code r)) (Link l) \<in> set h) \<and>
      pl_code l = o_code r \<and> pl_amount l = o_amount r \<and> pl_status l = o_status r"
proof -
  have "closed_known w js s" using run_closed[OF assms(2)[unfolded pay_run_def] assms(1)] by blast
  then have "heard_closed js r" using assms(3-5) unfolding closed_known_def by blast
  then show ?thesis by (simp only: heard_closed_def)
qed

text \<open>
  C8.  A callback is acknowledged only once it is safe: when the handler answers without an error, the callback's
  signature fitted keys the service trusts, and either it is payOS's confirmation sample, or its data are a row of the inbox, or
  the payment has a receipt; the receipt is still there at any later moment of the run.
\<close>

theorem acknowledged_is_durable:
  assumes "world_ok w" "pay_run w (s, js)" "(Done (Callback sv body (Inr ())), h) \<in> set js"
  shows "\<exists>key d verified. trusted sv key h \<and> adapter_verify (vn_verify (sv_vendor sv)) key body = Inr (d, verified) \<and>
    (is_confirmation_sample d \<or>
     (\<exists>H a b kvs. Did H a b \<in> set h \<and> map_of verified ''data'' = Some (JObj kvs) \<and>
        (\<exists>i\<in>set (db_inbox (w_db b)). ib_hash i = H (json_text (JObj kvs)))) \<or>
     (\<exists>c\<in>set (db_receipts (w_db s)). rc_reference c = wd_reference d))"
proof -
  have ok: "svc.after h s" "acknowledged sv body h"
    using svc.system_member[OF run_ok[OF assms(2,1)] assms(3)] by (simp_all add: honest_def)
  obtain key d verified where t: "trusted sv key h" "adapter_verify (vn_verify (sv_vendor sv)) key body = Inr (d, verified)"
    and k: "kept d verified h" using ok(2) unfolding acknowledged_def by blast
  have "set (db_receipts (w_db b)) \<subseteq> set (db_receipts (w_db s))" if "Did H a b \<in> set h" for H a b
    using after_world[OF ok(1) that] by (simp add: db_le_def)
  then have "is_confirmation_sample d \<or>
     (\<exists>H a b kvs. Did H a b \<in> set h \<and> map_of verified ''data'' = Some (JObj kvs) \<and>
        (\<exists>i\<in>set (db_inbox (w_db b)). ib_hash i = H (json_text (JObj kvs)))) \<or>
     (\<exists>c\<in>set (db_receipts (w_db s)). rc_reference c = wd_reference d)"
    using k unfolding kept_def by blast
  then show ?thesis using t by blast
qed

section \<open>Questions to the provider\<close>

text \<open>A Create that was asked before the provider said anything of the order number.\<close>

definition created_blind :: "past \<Rightarrow> int \<Rightarrow> bool" where
  "created_blind h code \<longleftrightarrow> (\<exists>h1 h2 k q a. h = h1 @ Heard (QCreate k q) a # h2 \<and> cq_code q = code \<and> \<not> told h2 code)"

lemma run_asked:
  assumes "world_ok w" "pay_run w (s, js)" "(m, h) \<in> set js" "created_blind h code"
  shows "created_here h code"
proof -
  have "svc.asked_ok h"
    using svc.steps_asked[OF assms(2)[unfolded pay_run_def] assms(1) payment_jobs_safe] assms(3) by fastforce
  then show ?thesis using assms(4) svc.asked_at unfolding created_blind_def may_ask_def created_here_def by fastforce
qed

definition has_code :: "int \<Rightarrow> world \<Rightarrow> bool" where
  "has_code code w \<longleftrightarrow> (\<exists>r\<in>set (db_orders (w_db w)). o_code r = code)"

lemma has_code_le: "has_code code a \<Longrightarrow> world_le a b \<Longrightarrow> has_code code b"
  unfolding has_code_def world_le_def db_le_def orders_extend_def order_extends_def by metis

lemma created_made: "created_here h code \<longleftrightarrow> 0 < svc.made (has_code code) h"
  unfolding svc.made_pos created_here_def has_code_def by blast

text \<open>
  C9.  No order gets a second payment link behind the provider's back: of all operations of a run, at most one
  asks the provider to create a link for an order number without having heard before, from the provider and
  about this very order, that it does not know it or shows a link.  So on an
  outcome that nobody knows, a lost answer or a crash, never follows a blind second Create.
\<close>

theorem link_created_once:
  assumes "world_ok w" "pay_run w (s, js)"
  shows "card {i. i < length js \<and> created_blind (snd (js ! i)) code} \<le> 1" (is "card ?B \<le> 1")
proof -
  have "0 < svc.made (has_code code) (snd (js ! i))" if "i \<in> ?B" for i
  proof -
    have "(fst (js ! i), snd (js ! i)) \<in> set js" using that by simp
    then show ?thesis using run_asked[OF assms] that created_made by blast
  qed
  moreover have "svc.made_total (has_code code) js \<le> 1"
    using svc.made_once[OF assms(2)[unfolded pay_run_def] assms(1) payment_jobs_safe, of "has_code code"] has_code_le
    by (fastforce split: if_splits)
  ultimately have "i = j" if "i \<in> ?B" "j \<in> ?B" for i j
    using svc.made_apart[of "has_code code" js i j] that by fastforce
  then show ?thesis by (subst One_nat_def, subst card_le_Suc0_iff_eq) auto
qed

text \<open>A question that goes to the provider; the wait for a slot does not.\<close>

definition provider_question :: "question \<Rightarrow> bool" where
  "provider_question q \<longleftrightarrow> (case q of QWait _ \<Rightarrow> False | _ \<Rightarrow> True)"

abbreviation calls :: "'a pay_job \<Rightarrow> nat \<Rightarrow> bool" where
  "calls m n \<equiv> asks_at_most provider_question m n"

lemma quiet_then: "calls m 0 \<Longrightarrow> (\<And>x. calls (f x) n) \<Longrightarrow> calls (andthen m f) n"
  using asks_andthen[of provider_question m 0 f n] by simp

lemma quiet_attempt: "calls m 0 \<Longrightarrow> (\<And>x. calls (f x) n) \<Longrightarrow> calls (attempt m f) n"
  using asks_attempt[of provider_question m 0 f n] by simp

lemma call_then: "calls m (Suc 0) \<Longrightarrow> (\<And>x. calls (f x) n) \<Longrightarrow> calls (andthen m f) (Suc n)"
  using asks_andthen[of provider_question m "Suc 0" f n] by simp

lemma call_attempt: "calls m (Suc 0) \<Longrightarrow> (\<And>x. calls (f x) n) \<Longrightarrow> calls (attempt m f) (Suc n)"
  using asks_attempt[of provider_question m "Suc 0" f n] by simp

lemma then_quiet: "calls m n \<Longrightarrow> (\<And>x. calls (f x) 0) \<Longrightarrow> calls (andthen m f) n"
  using asks_andthen[of provider_question m n f 0] by simp

lemma calls_more: "calls m j \<Longrightarrow> j \<le> n \<Longrightarrow> calls m n"
  by (rule asks_mono)

lemma calls_act [simp]: "calls (db_act f) n" "calls (db_get g) n" "calls moment_now n" "calls (local_act p l) n"
  by (simp_all add: db_act_def db_get_def moment_now_def local_act_def)

lemma calls_store [simp]: "calls m n \<Longrightarrow> calls (store m) n"
  unfolding store_def by (rule then_quiet) simp_all

lemma calls_ask [simp]:
  "calls (ask_create k q) (Suc 0)" "calls (ask_get k c) (Suc 0)" "calls (ask_cancel k c) (Suc 0)" "calls (ask_confirm k u) (Suc 0)"
  "calls (wait_until t) n"
  by (simp_all add: ask_create_def ask_get_def ask_cancel_def ask_confirm_def wait_until_def provider_question_def)

lemma calls_mutation [simp]: "calls mutation_allowed n"
  by (simp add: mutation_allowed_def)

lemma calls_slot [simp]: "calls (provider_slot sv) n"
  unfolding provider_slot_def by (auto intro!: quiet_attempt quiet_then)

lemma calls_activity [simp]: "calls (record_activity sv kind) n"
  unfolding record_activity_def by (rule quiet_then) simp_all

lemma calls_renew [simp]: "calls (renew_claim r b) n"
  by (simp add: renew_claim_def)

lemma calls_get [simp]: "calls (get_claimed_link sv r) (Suc 0)"
  unfolding get_claimed_link_def
  by (rule quiet_attempt, simp, rule quiet_attempt, simp, rule call_attempt, simp, rule quiet_then) simp_all

lemma calls_cancel [simp]: "calls (cancel_claimed_link sv r) (Suc 0)"
  unfolding cancel_claimed_link_def by (auto intro!: quiet_attempt)

lemma calls_finish [simp]: "calls (finish_reconcile r u) n"
  unfolding finish_reconcile_def by (rule quiet_then) simp_all

lemma calls_failed [simp]: "calls (finish_failed r x code) n"
  unfolding finish_failed_def by (rule quiet_then) simp_all

lemma calls_undecided [simp]: "calls (finish_undecided r x y code) n"
  unfolding finish_undecided_def Let_def by (intro quiet_then) simp_all

lemma calls_settle_items [simp]: "calls (settle_items inp received items res event) n"
proof (induction items arbitrary: res event)
  case (Cons i items)
  then show ?case by (auto intro!: quiet_then split: sum.split)
qed simp

lemma calls_settle [simp]: "calls (settle_verified_link sv r l) n"
  unfolding settle_verified_link_def Let_def by (auto split: sum.split intro!: quiet_then)

lemma calls_publish [simp]: "calls (publish_settlement res) n"
  by (simp add: publish_settlement_def)

lemma calls_settled [simp]: "calls (finish_settled r out) n"
  unfolding finish_settled_def by (auto intro!: quiet_then)

lemma calls_cancel_then_get:
  assumes "\<And>l. calls (proved l) n"
  shows "calls (cancel_then_get sv r code proved) (Suc (Suc n))"
proof -
  have "calls (proved l) (Suc n)" for l by (rule calls_more[OF assms]) simp
  then show ?thesis unfolding cancel_then_get_def by (auto split: sum.split intro!: call_then assms)
qed

lemma calls_complete [simp]: "calls (complete_cancellation sv r l) n"
  unfolding complete_cancellation_def by (auto split: sum.split intro!: quiet_then)

lemma calls_reconcile_cancellation: "calls (reconcile_cancellation sv r) 2"
  using calls_cancel_then_get[of "complete_cancellation sv r" 0] by (simp add: reconcile_cancellation_def numeral_2_eq_2)

lemma calls_paid [simp]: "calls (apply_paid sv r l) n"
  unfolding apply_paid_def by (rule quiet_then) (auto split: sum.split)

lemma calls_apply_link: "(\<And>r l. calls (still_open r l) n) \<Longrightarrow> calls (apply_link sv still_open r l) n"
  unfolding apply_link_def by (auto intro!: quiet_then)

lemma calls_keep_open [simp]: "calls (keep_open r l) n"
  unfolding keep_open_def by (rule quiet_then) simp_all

lemma calls_recover_cancel: "calls (recover_cancel sv r) 2"
  using calls_cancel_then_get[of "apply_link sv keep_open r" 0] calls_apply_link[of keep_open 0]
  by (simp add: recover_cancel_def numeral_2_eq_2)

lemma calls_recover_create: "calls (recover_create sv r b) 3"
proof -
  have d: "calls (recovered sv r b a) 2" for r a
    unfolding recovered_def Let_def
    by (auto split: sum.split intro!: quiet_then calls_recover_cancel)
  have c: "calls (create_again sv r b) 3" for r
    unfolding create_again_def numeral_3_eq_3 by (auto split: option.split intro!: call_then d[unfolded numeral_2_eq_2])
  show ?thesis
    unfolding recover_create_def by (rule quiet_then) (auto split: sum.split intro!: quiet_attempt c)
qed

lemma calls_apply_open: "calls (apply_open sv r l) 3"
  unfolding apply_open_def Let_def
  using calls_more[OF calls_reconcile_cancellation] calls_more[OF calls_recover_cancel] calls_recover_create by auto

lemma calls_recover_absent: "calls (recover_absent sv r) 3"
  unfolding recover_absent_def
  using calls_more[OF calls_reconcile_cancellation] calls_more[OF calls_recover_cancel] calls_recover_create
  by (auto split: option.split intro!: quiet_then)

lemma calls_reconcile_claimed: "calls (reconcile_claimed sv r) 4"
proof -
  have "calls (reconcile_claimed sv r) (Suc 3)"
    unfolding reconcile_claimed_def apply_verified_link_def
    by (rule call_then) (auto split: sum.split intro!: calls_apply_link calls_apply_open calls_recover_absent)
  then show ?thesis by simp
qed

lemma calls_counted: "calls m n \<Longrightarrow> calls (counted_request sv m) n"
  unfolding counted_request_def end_payment_request_def by (rule then_quiet, assumption, rule quiet_then) simp_all

lemma calls_begin [simp]: "calls (begin_payment_request sv) n"
  by (simp add: begin_payment_request_def)

lemma calls_pin: "(\<And>op. calls (f op) n) \<Longrightarrow> (\<And>x. calls (refused x) n) \<Longrightarrow> calls (pin sv refused f) n"
proof -
  assume f: "\<And>op. calls (f op) n" and refused: "\<And>x. calls (refused x) n"
  have e: "calls (andthen (end_admission token) (\<lambda>_. m)) n" if "calls m n" for token and m :: "'a pay_job" and n
    unfolding end_admission_def by (rule quiet_then) (simp_all add: that)
  have "calls (andthen (with_token token (f op)) (\<lambda>a. andthen (end_admission token) (\<lambda>_. Done a))) n" for token op
    by (rule then_quiet, unfold with_token_def, rule asks_with_env[OF f]) (simp add: e)
  then show ?thesis
    unfolding pin_def snapshot_def by (auto split: sum.split prod.split intro!: quiet_then[of "db_act _"] quiet_then[of "local_act _ _"] e refused)
qed

lemma calls_reconcile: "calls (reconcile_order sv i) 4"
proof -
  have "calls (reconcile_on op i) 4" for op
    unfolding reconcile_on_def
    by (auto split: sum.split prod.split intro!: quiet_attempt calls_counted quiet_then calls_reconcile_claimed)
  then show ?thesis unfolding reconcile_order_def by (auto intro: calls_pin)
qed

lemma calls_cancel_order: "calls (cancel_order sv i) 2"
proof -
  have c: "calls (cancel_claimed op i r) 2" for op r
    unfolding cancel_claimed_def read_back_def
    by (auto split: sum.split prod.split
        intro!: quiet_then[of "db_act _"] then_quiet[OF calls_reconcile_cancellation[unfolded reconcile_cancellation_def]])
  have "calls (cancel_on op i) 2" for op
    unfolding cancel_on_def by (auto split: sum.split intro!: quiet_then calls_counted c)
  then show ?thesis unfolding cancel_order_def by (auto intro: calls_pin)
qed

lemma calls_create_order: "calls (create_order sv amount origin key) (Suc 0)"
proof -
  have p: "calls (persist_created r u) n" for r u n
    unfolding persist_created_def by (auto split: sum.split intro!: quiet_then)
  have n: "calls (create_new op r) (Suc 0)" for op r
    unfolding create_new_def by (auto split: option.split intro!: call_then[OF calls_ask(1)] quiet_then p)
  have r: "calls (reserve_and_create op intent) (Suc 0)" for op intent
    unfolding reserve_and_create_def reserve_act_def by (auto split: sum.split prod.split intro!: quiet_then n)
  have "calls (create_on op amount origin key) (Suc 0)" for op
    unfolding create_on_def by (auto split: option.split sum.split prod.split intro!: quiet_then calls_counted r)
  then show ?thesis unfolding create_order_def by (auto intro: calls_pin)
qed

lemma calls_handle: "calls (handle_webhook sv body) 0"
proof -
  have w: "calls (wake_reconciler op) n" for op n by (simp add: wake_reconciler_def)
  have v: "calls (verify_webhook op body) 0" for op by (simp add: verify_webhook_def Let_def)
  have r: "calls (save_webhook_review op cb reason) 0" for op cb reason
    unfolding save_webhook_review_def by (auto split: sum.split intro!: quiet_then w)
  have s: "calls (settle_webhook op inp) 0" for op inp
    unfolding settle_webhook_def by (auto split: sum.split intro!: quiet_then w)
  have a: "calls (accept_webhook op b d) 0" for op b d
    unfolding accept_webhook_def Let_def by (auto split: option.split intro!: quiet_then r s)
  have "calls (handle_on op body) 0" for op
    unfolding handle_on_def by (auto split: sum.split prod.split intro!: quiet_then v calls_counted a)
  then show ?thesis unfolding handle_webhook_def by (auto intro: calls_pin)
qed

lemma keep_due_length: "keep_due t rs = Inr out \<Longrightarrow> length out \<le> length rs"
  using keep_due_filter[of t rs out] by simp

lemma due_length:
  assumes "due_payment_orders e jd channel t limit s = Inr out"
  shows "length out \<le> 20"
proof -
  from assms obtain rs where "keep_due (if t = zero_time then e_now e else t) (take (if limit \<le> 0 \<or> limit > 20 then 20 else nat limit) rs) = Inr out"
    unfolding due_payment_orders_def Let_def by blast
  then have "length out \<le> length (take (if limit \<le> 0 \<or> limit > 20 then 20 else nat limit) rs)" by (rule keep_due_length)
  then show ?thesis by (auto split: if_splits)
qed

lemma calls_reconcile_all: "calls (reconcile_all sv is) (4 * length is)"
proof (induction "is")
  case (Cons i "is")
  have "calls (reconcile_all sv (i # is)) (4 + 4 * length is)"
    unfolding reconcile_all.simps by (rule asks_andthen[OF calls_reconcile]) (auto split: sum.split intro: Cons)
  then show ?case by simp
qed simp

lemma calls_due: "calls (attempt (due_orders sv channel) (\<lambda>rs. reconcile_all sv (map o_id rs))) 80"
proof -
  have r: "calls (reconcile_all sv (map o_id out)) 80" if "due_payment_orders e jd ch t limit s = Inr out" for e jd ch t limit s out
    by (rule calls_more[OF calls_reconcile_all]) (use due_length[OF that] in simp)
  show ?thesis
    unfolding due_orders_def store_def attempt_def andthen_assoc db_get_def
    by (auto split: sum.split intro: r)
qed

text \<open>
  C10.  However the provider answers, an operation asks it only a bounded number of questions: creating an order
  asks at most one, cancelling two, reconciling an order four (a Get, a second Create, a Cancel and a Get), a
  pass of the reconciler at most eighty, and a callback is handled without any; every operation then ends.
\<close>

theorem provider_calls_bounded:
  "asks_at_most provider_question (create_order sv amount origin key) 1 \<and>
   asks_at_most provider_question (cancel_order sv i) 2 \<and>
   asks_at_most provider_question (reconcile_order sv i) 4 \<and>
   asks_at_most provider_question (reconcile_due sv) 80 \<and>
   asks_at_most provider_question (handle_webhook sv body) 0"
proof -
  have "calls (reconcile_due sv) 80"
    unfolding reconcile_due_def resolve_def snapshot_def
    by (auto split: sum.split intro!: quiet_then quiet_attempt calls_due)
  then show ?thesis
    using calls_create_order calls_cancel_order calls_reconcile calls_handle by simp
qed

section \<open>Instances\<close>

lemma part_run:
  assumes "finishing m \<in> payment_jobs" "svc.goes w m w' m'"
  shows "\<exists>h. pay_run w (w', [(finishing m', h)])"
  using svc.goes_alone[OF assms(1)] svc.goes_part[OF assms(2)] unfolding pay_run_def finishing_def by blast

lemma cancel_run:
  "\<exists>l h (f :: (svc_err + unit) \<Rightarrow> cancelled pay_job).
    pay_run (in_world [sample_order] fresh_local) (in_world [claimed] l, [(finishing (andthen closing f), h)])"
proof -
  obtain l f where g: "svc.goes (in_world [sample_order] fresh_local) (cancel_order sample_service (b64_encode ''id'')) (in_world [claimed] l)
      (andthen closing f)" using goes_cancel by blast
  show ?thesis using part_run[OF payment_jobs.cancel g] by blast
qed

lemma closing_act:
  "\<exists>u k. finishing (andthen closing f) = Act u k \<and> db_orders (w_db (u sample_moment (in_world [claimed] l))) = [closed_order]"
  using sample_closed by (auto simp: finishing_def closing_def finish_reconcile_def db_act_def simp del: token_nonempty)

lemma closed_fields: "o_status closed_order = ''CANCELLED''"
  by (simp add: closed_order_def completed_order_def no_update_def)

lemma service_keeps_books_witness:
  "\<exists>w js. pay_run (in_world [sample_order] fresh_local) (w, js) \<and> js \<noteq> [] \<and> money_inv (w_db w) \<and>
    orders_extend [sample_order] (db_orders (w_db w))"
proof -
  obtain l h and f :: "(svc_err + unit) \<Rightarrow> cancelled pay_job" where r: "pay_run (in_world [sample_order] fresh_local) (in_world [claimed] l, [(finishing (andthen closing f), h)])"
    using cancel_run by blast
  then show ?thesis using service_keeps_books[OF sample_world_ok r]
    by (intro exI[of _ "in_world [claimed] l"] exI[of _ "[(finishing (andthen closing f), h)]"]) simp
qed

lemma status_needs_evidence_witness:
  "\<exists>s m h. pay_run (in_world [sample_order] fresh_local) (s, [(m, h)]) \<and> db_orders (w_db s) = [closed_order] \<and> (\<exists>key l.
    (Heard (QGet key (o_code closed_order)) (Link l) \<in> set h \<or> Heard (QCancel key (o_code closed_order)) (Link l) \<in> set h) \<and>
    pl_code l = o_code closed_order \<and> pl_amount l = o_amount closed_order \<and> pl_status l = o_status closed_order)"
proof -
  let ?w = "in_world [sample_order] fresh_local"
  obtain l h and f :: "(svc_err + unit) \<Rightarrow> cancelled pay_job" where r: "pay_run ?w (in_world [claimed] l, [(finishing (andthen closing f), h)])"
    using cancel_run by blast
  obtain u k where u: "finishing (andthen closing f) = Act u k"
    "db_orders (w_db (u sample_moment (in_world [claimed] l))) = [closed_order]" using closing_act by blast
  let ?s = "u sample_moment (in_world [claimed] l)"
  from r have "\<exists>m h. pay_run ?w (?s, [(m, h)])"
    using svc.run_step.step[of 0 "[(finishing (andthen closing f), h)]" u k h sample_moment payment_jobs "in_world [claimed] l"] u(1)
    unfolding pay_run_def by (auto intro: rtranclp.rtrancl_into_rtrancl)
  then obtain m h where q: "pay_run ?w (?s, [(m, h)])" by blast
  have c: "closed_order \<in> set (db_orders (w_db ?s))" using u(2) by simp
  have st: "o_status closed_order \<in> {''CANCELLED'', ''EXPIRED''}"
    and old: "\<forall>x\<in>set (db_orders (w_db ?w)). o_id x = o_id closed_order \<longrightarrow> o_status x \<noteq> o_status closed_order"
    by (simp_all add: closed_fields in_world_def sample_order_fields)
  from status_needs_evidence[OF sample_world_ok q c st old] q u(2) show ?thesis
    by (intro exI[of _ ?s] exI[of _ m] exI[of _ h]) simp
qed

lemma link_created_once_witness:
  "\<exists>w m h k q. pay_run (empty_world fresh_local) (w, [(m, h)]) \<and> Heard (QCreate k q) (Failed None) \<in> set h \<and>
    card {i. i < length [(m, h)] \<and> created_blind (snd ([(m, h)] ! i)) (cq_code q)} \<le> 1"
proof -
  obtain w k q f where g: "svc.goes (empty_world fresh_local) (create_order sample_service 25000 ''STATIC_URL'' sample_uuid) w (Ask (QCreate k q) f)"
    using goes_create by blast
  obtain h where "pay_run (empty_world fresh_local) (w, [(finishing (Ask (QCreate k q) f), h)])"
    using part_run[OF payment_jobs.create g] by blast
  then have "pay_run (empty_world fresh_local) (w, [(finishing (f (Failed None)), Heard (QCreate k q) (Failed None) # h)])"
    using svc.answer[of 0 "[(finishing (Ask (QCreate k q) f), h)]" "QCreate k q" "\<lambda>p. finishing (f p)" h "Failed None" payment_jobs w]
    unfolding pay_run_def by (auto simp: finishing_def answer_ok_def intro: rtranclp.rtrancl_into_rtrancl)
  from this link_created_once[OF empty_world_ok this, of "cq_code q"] show ?thesis by fastforce
qed

lemma acknowledged_is_durable_witness:
  "\<exists>w h key d verified. pay_run (in_world [sample_order] fresh_local) (w, [(Done (Callback sample_service sample_body (Inr ())), h)]) \<and>
    trusted sample_service key h \<and> adapter_verify (vn_verify sample_vendor) key sample_body = Inr (d, verified)"
proof -
  obtain w where "svc.goes (in_world [sample_order] fresh_local) (handle_webhook sample_service sample_body) w (Done (Inr ()))"
    using goes_callback by blast
  then have "svc.goes (in_world [sample_order] fresh_local) (callback_job sample_service sample_body) w
      (Done (Callback sample_service sample_body (Inr ())))"
    unfolding callback_job_def by (rule svc.goes_then) (rule svc.stay)
  then obtain h where r: "pay_run (in_world [sample_order] fresh_local) (w, [(Done (Callback sample_service sample_body (Inr ())), h)])"
    using svc.goes_alone[OF payment_jobs.callback] unfolding pay_run_def by blast
  from r acknowledged_is_durable[OF sample_world_ok r, of sample_service sample_body h] show ?thesis by fastforce
qed

end
