(* ===== verification/Feed.thy ===== *)
theory Feed
  imports Events
begin

text \<open>
  internal/eventhub/hub.go, and what it means to follow the journal.  A hub hands every event to its
  subscribers without ever waiting: one whose channel is full is cut off.  The readers of the journal
  (publisher, coordinator, watcher, browser stream) keep a cursor and pass on rows; \<open>feed_ok\<close> is their common
  promise: what was passed on is strictly ascending, and no row that the journal still has was left out.
\<close>

section \<open>The hub\<close>

record hub_event =
  he_seq :: int
  he_epoch :: string
  he_type :: string
  he_aggregate :: string
  he_payload :: string
  he_created :: string
  he_committed :: string

text \<open>A channel of Go: its buffer, and whether it is closed.  What is buffered can still be received then.\<close>

record 'e channel =
  ch_buffer :: "'e list"
  ch_closed :: bool

definition hub_capacity :: nat where "hub_capacity = 128"

record 'e hub =
  hb_subs :: "nat list"
  hb_chan :: "nat \<Rightarrow> 'e channel"
  hb_next :: nat
  hb_dropped :: nat

definition new_hub :: "'e hub" where
  "new_hub = \<lparr>hb_subs = [], hb_chan = (\<lambda>_. \<lparr>ch_buffer = [], ch_closed = False\<rparr>), hb_next = 0, hb_dropped = 0\<rparr>"

definition subscribe :: "'e hub \<Rightarrow> nat \<times> 'e hub" where
  "subscribe h = (let i = hb_next h + 1 in
     (i, h\<lparr>hb_next := i, hb_subs := hb_subs h @ [i], hb_chan := (hb_chan h)(i := \<lparr>ch_buffer = [], ch_closed = False\<rparr>)\<rparr>))"

definition close_channel :: "nat \<Rightarrow> 'e hub \<Rightarrow> 'e hub" where
  "close_channel i h = h\<lparr>hb_subs := filter (\<lambda>j. j \<noteq> i) (hb_subs h), hb_chan := (hb_chan h)(i := (hb_chan h i)\<lparr>ch_closed := True\<rparr>)\<rparr>"

text \<open>The function that \<open>Subscribe\<close> returns for giving up the subscription; a second call finds it gone.\<close>

definition cancel_subscription :: "nat \<Rightarrow> 'e hub \<Rightarrow> 'e hub" where
  "cancel_subscription i h = (if i \<in> set (hb_subs h) then close_channel i h else h)"

definition offer :: "'e \<Rightarrow> nat \<Rightarrow> 'e hub \<Rightarrow> 'e hub" where
  "offer e i h =
     (if length (ch_buffer (hb_chan h i)) < hub_capacity
      then h\<lparr>hb_chan := (hb_chan h)(i := (hb_chan h i)\<lparr>ch_buffer := ch_buffer (hb_chan h i) @ [e]\<rparr>)\<rparr>
      else (close_channel i h)\<lparr>hb_dropped := hb_dropped h + 1\<rparr>)"

definition publish :: "'e \<Rightarrow> 'e hub \<Rightarrow> 'e hub" where
  "publish e h = fold (offer e) (hb_subs h) h"

definition dropped_notifications :: "'e hub \<Rightarrow> nat" where
  "dropped_notifications h = hb_dropped h"

definition subscriber_count :: "'e hub \<Rightarrow> nat" where
  "subscriber_count h = length (hb_subs h)"

text \<open>A receive: an event, the end of a closed channel, or nothing yet.\<close>

datatype 'e reception = Event 'e | Closed | Waiting

definition receive :: "nat \<Rightarrow> 'e hub \<Rightarrow> 'e reception \<times> 'e hub" where
  "receive i h = (case ch_buffer (hb_chan h i) of
     e # es \<Rightarrow> (Event e, h\<lparr>hb_chan := (hb_chan h)(i := (hb_chan h i)\<lparr>ch_buffer := es\<rparr>)\<rparr>)
   | [] \<Rightarrow> (if ch_closed (hb_chan h i) then Closed else Waiting, h))"

section \<open>What a subscriber sees\<close>

definition hub_inv :: "'e hub \<Rightarrow> bool" where
  "hub_inv h \<longleftrightarrow> distinct (hb_subs h) \<and> (\<forall>i\<in>set (hb_subs h). i \<le> hb_next h \<and> \<not> ch_closed (hb_chan h i)) \<and>
     (\<forall>i. length (ch_buffer (hb_chan h i)) \<le> hub_capacity)"

lemma fold_offer:
  assumes "distinct is"
  shows "hb_chan (fold (offer e) is h) j = (if j \<in> set is then
      (if length (ch_buffer (hb_chan h j)) < hub_capacity then (hb_chan h j)\<lparr>ch_buffer := ch_buffer (hb_chan h j) @ [e]\<rparr>
       else (hb_chan h j)\<lparr>ch_closed := True\<rparr>) else hb_chan h j) \<and>
    hb_subs (fold (offer e) is h) = filter (\<lambda>j. j \<notin> set is \<or> length (ch_buffer (hb_chan h j)) < hub_capacity) (hb_subs h) \<and>
    hb_next (fold (offer e) is h) = hb_next h"
  using assms
proof (induction "is" arbitrary: h)
  case (Cons i "is")
  have f: "filter (\<lambda>j. j \<notin> set is \<or> P j) (filter (\<lambda>j. j \<noteq> i) xs) = filter (\<lambda>j. j \<noteq> i \<and> (j \<notin> set is \<or> P j)) xs" for P and xs :: "nat list"
    by (auto simp: conj_commute)
  show ?case
  proof (cases "length (ch_buffer (hb_chan h i)) < hub_capacity")
    case True
    then show ?thesis using Cons by (auto simp: offer_def intro!: filter_cong)
  next
    case False
    then show ?thesis using Cons by (auto simp: offer_def close_channel_def intro!: filter_cong)
  qed
qed simp

lemma publish_chan:
  "hub_inv h \<Longrightarrow> hb_chan (publish e h) j = (if j \<in> set (hb_subs h) then
      (if length (ch_buffer (hb_chan h j)) < hub_capacity then (hb_chan h j)\<lparr>ch_buffer := ch_buffer (hb_chan h j) @ [e]\<rparr>
       else (hb_chan h j)\<lparr>ch_closed := True\<rparr>) else hb_chan h j)"
  "hub_inv h \<Longrightarrow> hb_subs (publish e h) = filter (\<lambda>j. length (ch_buffer (hb_chan h j)) < hub_capacity) (hb_subs h)"
  "hub_inv h \<Longrightarrow> hb_next (publish e h) = hb_next h"
  using fold_offer[of "hb_subs h" e h] by (auto simp: publish_def hub_inv_def intro!: filter_cong)

lemma publish_inv: "hub_inv h \<Longrightarrow> hub_inv (publish e h)"
proof -
  assume h: "hub_inv h"
  have "length (ch_buffer (hb_chan (publish e h) i)) \<le> hub_capacity" for i
    using h publish_chan(1)[OF h, of e i] by (simp add: hub_inv_def)
  then show ?thesis using h publish_chan[OF h, of e] by (simp add: hub_inv_def)
qed

lemma subscribe_inv: "hub_inv h \<Longrightarrow> hub_inv (snd (subscribe h))"
  by (auto simp: hub_inv_def subscribe_def Let_def hub_capacity_def)

lemma cancel_inv: "hub_inv h \<Longrightarrow> hub_inv (cancel_subscription i h)"
  by (auto simp: hub_inv_def cancel_subscription_def close_channel_def)

lemma receive_inv: "hub_inv h \<Longrightarrow> hub_inv (snd (receive i h))"
proof (cases "ch_buffer (hb_chan h i)")
  case (Cons e es)
  assume h: "hub_inv h"
  then have "length (e # es) \<le> hub_capacity" unfolding hub_inv_def Cons[symmetric] by blast
  then show ?thesis using h by (auto simp: hub_inv_def receive_def Cons)
qed (simp add: receive_def)

lemma new_hub_inv: "hub_inv new_hub"
  by (simp add: hub_inv_def new_hub_def)


text \<open>A history of hub calls, with what was published so far and what each subscriber has received.\<close>

datatype 'e hub_call = Subscribe | Cancel nat | Publish 'e | Receive nat

record 'e hub_run =
  hr_hub :: "'e hub"
  hr_log :: "'e list"
  hr_since :: "nat \<Rightarrow> nat"
  hr_got :: "nat \<Rightarrow> 'e list"

fun hub_exec :: "'e hub_call \<Rightarrow> 'e hub_run \<Rightarrow> 'e hub_run" where
  "hub_exec Subscribe r = (let (i, h) = subscribe (hr_hub r) in
     r\<lparr>hr_hub := h, hr_since := (hr_since r)(i := length (hr_log r)), hr_got := (hr_got r)(i := [])\<rparr>)"
| "hub_exec (Cancel i) r = r\<lparr>hr_hub := cancel_subscription i (hr_hub r)\<rparr>"
| "hub_exec (Publish e) r = r\<lparr>hr_hub := publish e (hr_hub r), hr_log := hr_log r @ [e]\<rparr>"
| "hub_exec (Receive i) r = (case receive i (hr_hub r) of
     (Event e, h) \<Rightarrow> r\<lparr>hr_hub := h, hr_got := (hr_got r)(i := hr_got r i @ [e])\<rparr>
   | (_, h) \<Rightarrow> r\<lparr>hr_hub := h\<rparr>)"

definition seen_by :: "nat \<Rightarrow> 'e hub_run \<Rightarrow> 'e list" where
  "seen_by i r = hr_got r i @ ch_buffer (hb_chan (hr_hub r) i)"

definition hub_run_inv :: "'e hub_run \<Rightarrow> bool" where
  "hub_run_inv r \<longleftrightarrow> hub_inv (hr_hub r) \<and>
     (\<forall>i. hr_since r i \<le> length (hr_log r) \<and>
       (if i \<in> set (hb_subs (hr_hub r)) then seen_by i r = drop (hr_since r i) (hr_log r)
        else \<exists>n. seen_by i r = take n (drop (hr_since r i) (hr_log r))))"

lemma take_append_drop_more: "k \<le> length xs \<Longrightarrow> take n (drop k xs) = take (min n (length xs - k)) (drop k (xs @ ys))"
  by (simp add: min_def)

lemma hub_exec_inv: "hub_run_inv r \<Longrightarrow> hub_run_inv (hub_exec c r)"
proof (cases c)
  case (Publish e)
  assume r: "hub_run_inv r"
  then have h: "hub_inv (hr_hub r)" and k: "hr_since r i \<le> length (hr_log r)" for i unfolding hub_run_inv_def by blast+
  let ?h = "publish e (hr_hub r)" and ?r = "hub_exec c r"
  have c: "hr_hub ?r = ?h" "hr_log ?r = hr_log r @ [e]" "hr_since ?r = hr_since r" using Publish by simp_all
  have "if i \<in> set (hb_subs ?h) then seen_by i ?r = drop (hr_since r i) (hr_log r @ [e])
      else \<exists>n. seen_by i ?r = take n (drop (hr_since r i) (hr_log r @ [e]))" for i
  proof (cases "i \<in> set (hb_subs (hr_hub r))")
    case True
    then have s: "seen_by i r = drop (hr_since r i) (hr_log r)" using r unfolding hub_run_inv_def by simp
    show ?thesis
    proof (cases "length (ch_buffer (hb_chan (hr_hub r) i)) < hub_capacity")
      case room: True
      then show ?thesis using True s k[of i] publish_chan[OF h, of e] Publish by (simp add: seen_by_def flip: append_assoc)
    next
      case False
      then show ?thesis using True s k[of i] publish_chan[OF h, of e] Publish
        by (auto simp: seen_by_def intro!: exI[of _ "length (hr_log r) - hr_since r i"])
    qed
  next
    case False
    then have "\<exists>n. seen_by i r = take n (drop (hr_since r i) (hr_log r))" using r unfolding hub_run_inv_def by metis
    then have "\<exists>n. seen_by i r = take n (drop (hr_since r i) (hr_log r @ [e]))"
      using take_append_drop_more[OF k[of i], of _ "[e]"] by metis
    moreover have "seen_by i ?r = seen_by i r" "i \<notin> set (hb_subs ?h)"
      using False publish_chan(1,2)[OF h, of e] Publish by (simp_all add: seen_by_def)
    ultimately show ?thesis by simp
  qed
  then show ?thesis using publish_inv[OF h] k unfolding hub_run_inv_def c by (simp add: le_SucI del: take_append drop_append)
next
  case (Receive i)
  assume r: "hub_run_inv r"
  show ?thesis
  proof (cases "ch_buffer (hb_chan (hr_hub r) i)")
    case (Cons e es)
    have "hub_inv (snd (receive i (hr_hub r)))" using r receive_inv unfolding hub_run_inv_def by blast
    moreover have "seen_by j (hub_exec c r) = seen_by j r" for j
      using Cons Receive by (simp add: seen_by_def receive_def)
    ultimately show ?thesis using r Receive Cons by (simp add: hub_run_inv_def receive_def)
  qed (use r Receive in \<open>simp add: hub_run_inv_def receive_def\<close>)
next
  case (Cancel i)
  assume r: "hub_run_inv r"
  have "hub_inv (cancel_subscription i (hr_hub r))" using r cancel_inv unfolding hub_run_inv_def by blast
  moreover have s: "seen_by j (hub_exec c r) = seen_by j r" for j
    using Cancel by (simp add: seen_by_def cancel_subscription_def close_channel_def)
  moreover have "\<exists>n. seen_by i r = take n (drop (hr_since r i) (hr_log r))" if "i \<in> set (hb_subs (hr_hub r))"
    using r that unfolding hub_run_inv_def by (metis take_all_iff order_refl)
  ultimately show ?thesis using r Cancel by (auto simp: hub_run_inv_def cancel_subscription_def close_channel_def)
next
  case Subscribe
  assume r: "hub_run_inv r"
  have "hub_inv (snd (subscribe (hr_hub r)))" using r subscribe_inv unfolding hub_run_inv_def by blast
  moreover have "seen_by i (hub_exec c r) = (if i = hb_next (hr_hub r) + 1 then [] else seen_by i r)" for i
    using Subscribe by (simp add: seen_by_def subscribe_def Let_def)
  ultimately show ?thesis using r Subscribe
    by (auto simp: hub_run_inv_def subscribe_def Let_def le_Suc_eq split: if_split_asm)
qed

interpretation hubs: call_machine hub_exec "\<lambda>_. True" hub_run_inv
  by unfold_locales (rule hub_exec_inv)


definition hub_history :: "'e hub_call list \<Rightarrow> 'e hub_run" where
  "hub_history cs = hubs.history cs \<lparr>hr_hub = new_hub, hr_log = [], hr_since = (\<lambda>_. 0), hr_got = (\<lambda>_. [])\<rparr>"

lemma hub_history_inv: "hub_run_inv (hub_history cs)"
proof -
  have "hub_run_inv \<lparr>hr_hub = new_hub, hr_log = [], hr_since = (\<lambda>_. 0), hr_got = (\<lambda>_. [])\<rparr>"
    using new_hub_inv by (simp add: hub_run_inv_def seen_by_def new_hub_def)
  then show ?thesis unfolding hub_history_def by (intro hubs.history_inv) (simp_all add: list_all_iff)
qed

text \<open>
  C14.  A subscriber of the hub sees no gap: whatever happened so far, as long as its subscription stands, what it received and what
  waits for it is exactly what was published since it subscribed, in order; once it was cut off (it
  gave up, or its channel of 128 was full) it still gets a beginning of that and then the end of the channel.
\<close>

theorem subscriber_sees_all:
  "if i \<in> set (hb_subs (hr_hub (hub_history cs)))
   then hr_got (hub_history cs) i @ ch_buffer (hb_chan (hr_hub (hub_history cs)) i) = drop (hr_since (hub_history cs) i) (hr_log (hub_history cs))
   else \<exists>n. hr_got (hub_history cs) i @ ch_buffer (hb_chan (hr_hub (hub_history cs)) i) =
     take n (drop (hr_since (hub_history cs) i) (hr_log (hub_history cs)))"
  using hub_history_inv[of cs] unfolding hub_run_inv_def seen_by_def by blast

section \<open>Following the journal\<close>

definition realtime_epoch :: string where "realtime_epoch = ''ep1''"

definition of_epoch :: "journal_row \<Rightarrow> bool" where
  "of_epoch j \<longleftrightarrow> j_epoch j = realtime_epoch"

text \<open>Every row that was ever committed, and the journal that is left of them.\<close>

definition kept_of :: "journal_row list \<Rightarrow> db \<Rightarrow> bool" where
  "kept_of all s \<longleftrightarrow> journal_inv s \<and> set (db_journal s) \<subseteq> set all \<and> inj_on j_seq (set all) \<and>
     (\<forall>j\<in>set all. j_seq j \<le> db_journal_seq s)"

definition missing :: "db \<Rightarrow> int \<Rightarrow> int \<Rightarrow> journal_row set" where
  "missing s a b = {j \<in> set (db_journal s). of_epoch j \<and> a < j_seq j \<and> j_seq j \<le> b}"

definition feed_ok :: "journal_row list \<Rightarrow> db \<Rightarrow> int \<Rightarrow> int \<Rightarrow> journal_row list \<Rightarrow> bool" where
  "feed_ok all s start cursor out \<longleftrightarrow> start \<le> cursor \<and> cursor \<le> db_journal_seq s \<and> sorted_wrt (<) (map j_seq out) \<and>
     (\<forall>j\<in>set out. j \<in> set all \<and> of_epoch j \<and> start < j_seq j \<and> j_seq j \<le> cursor) \<and> missing s start cursor \<subseteq> set out"

text \<open>Rows that were read behind the cursor and wait to be passed on.\<close>

definition batch_ok :: "journal_row list \<Rightarrow> db \<Rightarrow> int \<Rightarrow> journal_row list \<Rightarrow> bool" where
  "batch_ok all s cursor rows \<longleftrightarrow> sorted_wrt (<) (map j_seq rows) \<and> (\<forall>j\<in>set rows. j \<in> set all \<and> of_epoch j \<and> cursor < j_seq j) \<and>
     (rows \<noteq> [] \<longrightarrow> missing s cursor (j_seq (last rows)) \<subseteq> set rows)"

lemma missing_split: "a \<le> b \<Longrightarrow> b \<le> c \<Longrightarrow> missing s a c = missing s a b \<union> missing s b c"
  unfolding missing_def by auto

lemma feed_start: "c \<le> db_journal_seq s \<Longrightarrow> feed_ok all s c c []"
  by (auto simp: feed_ok_def missing_def)

lemma feed_pass:
  assumes "feed_ok all s start cursor out" "j \<in> set all" "of_epoch j" "cursor < j_seq j" "kept_of all s"
    and "missing s cursor (j_seq j) \<subseteq> {j}"
  shows "feed_ok all s start (j_seq j) (out @ [j])"
proof -
  have "missing s start (j_seq j) = missing s start cursor \<union> missing s cursor (j_seq j)"
    using assms(1,4) by (intro missing_split) (simp_all add: feed_ok_def)
  then show ?thesis using assms by (fastforce simp: feed_ok_def kept_of_def sorted_wrt_append)
qed

lemma feed_skip:
  assumes "feed_ok all s start cursor out" "cursor \<le> c" "c \<le> db_journal_seq s" "missing s cursor c = {}"
  shows "feed_ok all s start c out"
proof -
  have "missing s start c = missing s start cursor \<union> missing s cursor c"
    using assms(1,2) by (intro missing_split) (simp_all add: feed_ok_def)
  then show ?thesis using assms by (fastforce simp: feed_ok_def)
qed

lemma batch_pass:
  assumes "feed_ok all s start cursor out" "batch_ok all s cursor (j # rows)" "kept_of all s"
  shows "feed_ok all s start (j_seq j) (out @ [j])" "batch_ok all s (j_seq j) rows"
proof -
  have j: "j \<in> set all" "of_epoch j" "cursor < j_seq j" and later: "\<forall>k\<in>set rows. j_seq j < j_seq k"
    using assms(2) by (auto simp: batch_ok_def)
  have last: "j_seq j \<le> j_seq (last (j # rows))" using later by (cases "rows = []") (auto intro: less_imp_le)
  have m: "missing s cursor (j_seq (last (j # rows))) \<subseteq> set (j # rows)" using assms(2) unfolding batch_ok_def by blast
  have "missing s cursor (j_seq j) \<subseteq> {j}"
  proof
    fix k assume k: "k \<in> missing s cursor (j_seq j)"
    then have "k \<in> set (j # rows)" using m last unfolding missing_def by auto
    moreover have "j_seq k \<le> j_seq j" using k unfolding missing_def by simp
    ultimately show "k \<in> {j}" using later by fastforce
  qed
  then show "feed_ok all s start (j_seq j) (out @ [j])" by (rule feed_pass[OF assms(1) j assms(3)])
  have "missing s (j_seq j) (j_seq (last rows)) \<subseteq> set rows" if "rows \<noteq> []"
  proof
    fix k assume k: "k \<in> missing s (j_seq j) (j_seq (last rows))"
    then have "k \<in> missing s cursor (j_seq (last (j # rows)))" using j(3) that unfolding missing_def by auto
    then show "k \<in> set rows" using m k unfolding missing_def by auto
  qed
  then show "batch_ok all s (j_seq j) rows" using assms(2) later by (auto simp: batch_ok_def)
qed

section \<open>The journal moves on\<close>

text \<open>Rows are committed at the end with the next sequence number, and retention deletes rows.\<close>

definition commit_row :: "string \<Rightarrow> string \<Rightarrow> string \<Rightarrow> string \<Rightarrow> string \<Rightarrow> db \<Rightarrow> journal_row" where
  "commit_row ep ty ag pl created s = last (db_journal (append_journal ep ty ag pl created s))"

lemma kept_commit:
  assumes "kept_of all s"
  shows "kept_of (all @ [commit_row ep ty ag pl cr s]) (append_journal ep ty ag pl cr s)"
proof -
  let ?j = "commit_row ep ty ag pl cr s" and ?s = "append_journal ep ty ag pl cr s"
  have j: "j_seq ?j = db_journal_seq s + 1" "db_journal ?s = db_journal s @ [?j]"
    by (simp_all add: commit_row_def append_journal_def Let_def)
  have "j_seq k < j_seq ?j" if "k \<in> set all" for k using assms that j(1) by (fastforce simp: kept_of_def)
  then have "inj_on j_seq (set (all @ [?j]))" using assms by (fastforce simp: kept_of_def inj_on_def)
  then show ?thesis
    using assms append_journal_inv[of s ep ty ag pl cr] j by (fastforce simp: kept_of_def)
qed

lemma missing_commit: "c \<le> db_journal_seq s \<Longrightarrow> missing (append_journal ep ty ag pl cr s) a c = missing s a c"
  by (auto simp: missing_def append_journal_def Let_def)

definition shrinks :: "db \<Rightarrow> db \<Rightarrow> bool" where
  "shrinks s s' \<longleftrightarrow> (\<exists>p. db_journal s' = filter p (db_journal s)) \<and> db_journal_seq s' = db_journal_seq s"

lemma delete_shrinks: "shrinks s (snd (delete_journal_before cutoff s))"
  by (auto simp: shrinks_def delete_journal_before_def)

lemma missing_shrink: "shrinks s s' \<Longrightarrow> missing s' a b \<subseteq> missing s a b"
  by (auto simp: missing_def shrinks_def)

lemma kept_shrink: "kept_of all s \<Longrightarrow> shrinks s s' \<Longrightarrow> kept_of all s'"
  by (auto simp: kept_of_def shrinks_def journal_inv_def sorted_wrt_map sorted_wrt_filter)

text \<open>What every reader may rely on while the journal moves on.\<close>

definition grows :: "journal_row list \<Rightarrow> db \<Rightarrow> journal_row list \<Rightarrow> db \<Rightarrow> bool" where
  "grows all s all' s' \<longleftrightarrow> set all \<subseteq> set all' \<and> db_journal_seq s \<le> db_journal_seq s' \<and>
     (\<forall>a b. b \<le> db_journal_seq s \<longrightarrow> missing s' a b \<subseteq> missing s a b)"

lemma grows_commit: "grows all s (all @ [j]) (append_journal ep ty ag pl cr s)"
  by (auto simp: grows_def missing_commit)

lemma grows_shrink: "shrinks s s' \<Longrightarrow> grows all s all s'"
  using missing_shrink by (auto simp: grows_def shrinks_def)

lemma feed_grows: "feed_ok all s start c out \<Longrightarrow> grows all s all' s' \<Longrightarrow> feed_ok all' s' start c out"
  unfolding feed_ok_def grows_def by (meson order_trans subset_iff)

lemma batch_grows: "kept_of all s \<Longrightarrow> batch_ok all s c rows \<Longrightarrow> grows all s all' s' \<Longrightarrow> batch_ok all' s' c rows"
proof -
  assume k: "kept_of all s" and b: "batch_ok all s c rows" and g: "grows all s all' s'"
  have "missing s' c (j_seq (last rows)) \<subseteq> set rows" if "rows \<noteq> []"
  proof -
    have "last rows \<in> set all" using b that by (auto simp: batch_ok_def)
    then have "j_seq (last rows) \<le> db_journal_seq s" using k by (auto simp: kept_of_def)
    then show ?thesis using b g that unfolding batch_ok_def grows_def by blast
  qed
  then show ?thesis using b g by (auto simp: batch_ok_def grows_def)
qed

lemma next_row: "kept_of all s \<Longrightarrow> j \<in> set all \<Longrightarrow> j_seq j = c + 1 \<Longrightarrow> missing s c (j_seq j) \<subseteq> {j}"
proof
  fix k
  assume k: "kept_of all s" "j \<in> set all" "j_seq j = c + 1" "k \<in> missing s c (j_seq j)"
  then have "k \<in> set all" "j_seq k = j_seq j" by (auto simp: kept_of_def missing_def)
  then show "k \<in> {j}" using k(1,2) by (auto simp: kept_of_def dest: inj_onD)
qed

end
