(* ===== verification/Realtime.thy ===== *)
theory Realtime
  imports Feed
begin

text \<open>
  The realtime path: internal/realtimestream/journal_publisher.go (the worker reads the journal and publishes
  it on its hub), internal/httpapi/realtime_coordinator.go and realtime.go (the gateway merges the worker's
  stream, its own commits and the journal into one hub), and internal/httpapi/sse.go (the stream of one browser:
  replay from its cursor, then live).  Every store read, publication, reception and write is a step of its own,
  so that all goroutines and processes interleave.  The fields named start, out and handled are
  history, no code reads them.  The way of an event over the worker's HTTP stream is a step that hands it over or loses it.
\<close>

section \<open>Reading the journal\<close>

abbreviation journal_read :: "int \<Rightarrow> int \<Rightarrow> db \<Rightarrow> journal_row list" where
  "journal_read cursor limit s \<equiv> read_journal_events realtime_epoch cursor limit s"

definition event_of :: "journal_row \<Rightarrow> hub_event" where
  "event_of j = \<lparr>he_seq = j_seq j, he_epoch = j_epoch j, he_type = j_type j, he_aggregate = j_aggregate j,
     he_payload = j_payload j, he_created = j_created j, he_committed = []\<rparr>"

definition batch_size :: int where "batch_size = 250"

definition full_batch :: "int \<Rightarrow> journal_row list \<Rightarrow> bool" where
  "full_batch n rows \<longleftrightarrow> n \<le> int (length rows)"

text \<open>A cursor behind the retained journal jumps to its beginning.\<close>

definition caught_up :: "db \<Rightarrow> int \<Rightarrow> int" where
  "caught_up s cursor = (let m = get_min_journal_seq realtime_epoch s in if 0 < m \<and> cursor < m - 1 then m - 1 else cursor)"

section \<open>The journal publisher\<close>

text \<open>Where \<open>process\<close> is: before its read, or with rows to publish and whether the batch was full.\<close>

datatype pub_pc = PubIdle | PubRead | PubSend "journal_row list" bool

record publisher =
  jp_cursor :: int
  jp_ready :: bool
  jp_wake :: bool
  jp_pc :: pub_pc
  jp_start :: int
  jp_out :: "hub_event list"

definition new_publisher :: publisher where
  "new_publisher = \<lparr>jp_cursor = 0, jp_ready = False, jp_wake = False, jp_pc = PubIdle, jp_start = 0, jp_out = []\<rparr>"

definition pub_init :: "db \<Rightarrow> publisher \<Rightarrow> publisher" where
  "pub_init s p = (let m = get_max_journal_seq realtime_epoch s in p\<lparr>jp_cursor := m, jp_ready := True, jp_start := m, jp_out := []\<rparr>)"

definition pub_wake :: "publisher \<Rightarrow> publisher" where
  "pub_wake p = p\<lparr>jp_wake := True\<rparr>"

text \<open>The loop takes the wake-up or a tick; \<open>None\<close>: the minimum could not be read.\<close>

definition pub_begin :: "db option \<Rightarrow> bool \<Rightarrow> publisher \<Rightarrow> publisher" where
  "pub_begin found woken p = p\<lparr>jp_wake := (if woken then False else jp_wake p), jp_pc := PubRead,
     jp_cursor := (case found of None \<Rightarrow> jp_cursor p | Some s \<Rightarrow> caught_up s (jp_cursor p))\<rparr>"

definition pub_read :: "db \<Rightarrow> publisher \<Rightarrow> publisher" where
  "pub_read s p = (let rows = journal_read (jp_cursor p) batch_size s in
     p\<lparr>jp_pc := (if rows = [] then PubIdle else PubSend rows (full_batch batch_size rows))\<rparr>)"

definition pub_give_up :: "publisher \<Rightarrow> publisher" where
  "pub_give_up p = p\<lparr>jp_pc := PubIdle\<rparr>"

definition pub_send :: "publisher \<times> hub_event hub \<Rightarrow> publisher \<times> hub_event hub" where
  "pub_send x = (case x of (p, h) \<Rightarrow> (case jp_pc p of
     PubSend (j # rows) full \<Rightarrow>
       (p\<lparr>jp_cursor := (if jp_cursor p < j_seq j then j_seq j else jp_cursor p), jp_out := jp_out p @ [event_of j],
          jp_pc := (if rows = [] then PubIdle else PubSend rows full), jp_wake := (rows = [] \<and> full \<or> jp_wake p)\<rparr>, publish (event_of j) h)
   | _ \<Rightarrow> x))"

text \<open>\<open>process\<close> without interference.\<close>

definition pub_process :: "db \<Rightarrow> publisher \<times> hub_event hub \<Rightarrow> publisher \<times> hub_event hub" where
  "pub_process s x = (case x of (p, h) \<Rightarrow>
     let p' = pub_read s (pub_begin (Some s) True p) in
     (pub_send ^^ (case jp_pc p' of PubSend rows full \<Rightarrow> length rows | _ \<Rightarrow> 0)) (p', h))"

section \<open>The coordinator of the gateway\<close>

datatype co_pc = CoStart | CoIdle | CoTarget | CoMin int | CoLoop int | CoEmpty int | CoSend "journal_row list" bool int

record coordinator =
  co_last :: int
  co_input :: "hub_event list"
  co_requested :: bool
  co_pc :: co_pc
  co_start :: int
  co_out :: "hub_event list"

definition input_capacity :: nat where "input_capacity = 256"

definition new_coordinator :: coordinator where
  "new_coordinator = \<lparr>co_last = -1, co_input = [], co_requested = False, co_pc = CoStart, co_start = -1, co_out = []\<rparr>"

definition request_reconcile :: "coordinator \<Rightarrow> coordinator" where
  "request_reconcile c = c\<lparr>co_requested := True\<rparr>"

text \<open>\<open>Submit\<close>: a full queue asks for a reconciliation instead.\<close>

definition submit :: "hub_event \<Rightarrow> coordinator \<Rightarrow> coordinator" where
  "submit e c = (if length (co_input c) < input_capacity then c\<lparr>co_input := co_input c @ [e]\<rparr> else request_reconcile c)"

definition co_init :: "db \<Rightarrow> coordinator \<Rightarrow> coordinator" where
  "co_init s c = (let m = get_max_journal_seq realtime_epoch s in c\<lparr>co_last := m, co_pc := CoIdle, co_start := m, co_out := []\<rparr>)"

definition co_publish :: "hub_event \<Rightarrow> coordinator \<times> hub_event hub \<Rightarrow> coordinator \<times> hub_event hub" where
  "co_publish e x = (case x of (c, h) \<Rightarrow> (c\<lparr>co_last := he_seq e, co_out := co_out c @ [e]\<rparr>, publish e h))"

text \<open>\<open>handle\<close>: the next event in sequence goes out at once, a gap is filled from the journal.\<close>

definition co_handle :: "coordinator \<times> hub_event hub \<Rightarrow> coordinator \<times> hub_event hub" where
  "co_handle x = (case x of (c, h) \<Rightarrow> (case co_input c of
     [] \<Rightarrow> x
   | e # es \<Rightarrow>
       let c' = c\<lparr>co_input := es\<rparr> in
       if he_epoch e \<noteq> realtime_epoch \<or> he_seq e \<le> co_last c then (c', h)
       else if he_seq e = co_last c + 1 then co_publish e (c', h)
       else (c'\<lparr>co_pc := CoMin (he_seq e)\<rparr>, h)))"

definition co_reconcile :: "bool \<Rightarrow> coordinator \<Rightarrow> coordinator" where
  "co_reconcile requested c = c\<lparr>co_requested := (if requested then False else co_requested c), co_pc := CoTarget\<rparr>"

definition co_step :: "db \<Rightarrow> coordinator \<times> hub_event hub \<Rightarrow> coordinator \<times> hub_event hub" where
  "co_step s x = (case x of (c, h) \<Rightarrow> (case co_pc c of
     CoStart \<Rightarrow> (co_init s c, h)
   | CoIdle \<Rightarrow> x
   | CoTarget \<Rightarrow> (c\<lparr>co_pc := CoMin (get_max_journal_seq realtime_epoch s)\<rparr>, h)
   | CoMin target \<Rightarrow> (c\<lparr>co_last := caught_up s (co_last c), co_pc := CoLoop target\<rparr>, h)
   | CoLoop target \<Rightarrow>
       (if co_last c < target then
          let rows = journal_read (co_last c) batch_size s in
          (c\<lparr>co_pc := (if rows = [] then CoEmpty target else CoSend rows (full_batch batch_size rows) target)\<rparr>, h)
        else (c\<lparr>co_pc := CoIdle\<rparr>, h))
   | CoEmpty target \<Rightarrow>
       (c\<lparr>co_last := (if target \<le> get_max_journal_seq realtime_epoch s then target else co_last c), co_pc := CoIdle\<rparr>, h)
   | CoSend [] full target \<Rightarrow> (c\<lparr>co_pc := (if full then CoLoop target else CoIdle)\<rparr>, h)
   | CoSend (j # rows) full target \<Rightarrow>
       (if target < j_seq j then (c\<lparr>co_pc := CoIdle\<rparr>, h)
        else co_publish (event_of j) (c\<lparr>co_pc := CoSend rows full target\<rparr>, h))))"

text \<open>A store read failed: the round ends.  Before the first read succeeds it is tried again.\<close>

definition co_give_up :: "coordinator \<Rightarrow> coordinator" where
  "co_give_up c = (if co_pc c = CoStart then c else c\<lparr>co_pc := CoIdle\<rparr>)"

section \<open>The journal watcher\<close>

text \<open>\<open>RunJournalWatcher\<close>, for a gateway without the worker's stream.\<close>

datatype wt_pc = WtStart | WtIdle | WtLoop | WtRead | WtSend "journal_row list" bool

record watcher =
  wt_last :: int
  wt_pc :: wt_pc
  wt_start :: int
  wt_out :: "hub_event list"

definition watch_batch :: int where "watch_batch = 100"

definition new_watcher :: watcher where
  "new_watcher = \<lparr>wt_last = 0, wt_pc = WtStart, wt_start = 0, wt_out = []\<rparr>"

text \<open>When the first maximum cannot be read, the watcher begins at 0.\<close>

definition wt_init :: "db option \<Rightarrow> watcher \<Rightarrow> watcher" where
  "wt_init found w = (let m = (case found of None \<Rightarrow> 0 | Some s \<Rightarrow> get_max_journal_seq realtime_epoch s) in
     w\<lparr>wt_last := m, wt_pc := WtIdle, wt_start := m, wt_out := []\<rparr>)"

definition wt_tick :: "watcher \<Rightarrow> watcher" where
  "wt_tick w = w\<lparr>wt_pc := WtLoop\<rparr>"

definition wt_step :: "db \<Rightarrow> watcher \<Rightarrow> watcher" where
  "wt_step s w = (case wt_pc w of
     WtLoop \<Rightarrow> w\<lparr>wt_pc := (if get_max_journal_seq realtime_epoch s \<le> wt_last w then WtIdle else WtRead)\<rparr>
   | WtRead \<Rightarrow> (let rows = journal_read (wt_last w) watch_batch s in
       w\<lparr>wt_pc := (if rows = [] then WtIdle else WtSend rows (full_batch watch_batch rows))\<rparr>)
   | WtSend [] full \<Rightarrow> w\<lparr>wt_pc := (if full then WtLoop else WtIdle)\<rparr>
   | _ \<Rightarrow> w)"

definition wt_send :: "watcher \<Rightarrow> (watcher \<times> hub_event) option" where
  "wt_send w = (case wt_pc w of
     WtSend (j # rows) full \<Rightarrow>
       Some (w\<lparr>wt_last := (if wt_last w < j_seq j then j_seq j else wt_last w), wt_out := wt_out w @ [event_of j],
         wt_pc := WtSend rows full\<rparr>, event_of j)
   | _ \<Rightarrow> None)"

definition wt_give_up :: "watcher \<Rightarrow> watcher" where
  "wt_give_up w = (if wt_pc w = WtStart then w else w\<lparr>wt_pc := WtIdle\<rparr>)"

end
