(* ===== verification/BrowserStream.thy ===== *)
theory BrowserStream
  imports Realtime GoJsonLaws
begin

text \<open>
  internal/httpapi/sse.go: the event stream of one browser.  It subscribes to the hub first, then replays the
  journal behind its cursor, then follows the hub, going back to the journal whenever a hint leaves a gap.  The public stream
  passes on two types of event and strips what the payer must not see.  Headers, heartbeats and
  telemetry are left out.
\<close>

section \<open>What is written\<close>

text \<open>
  A number that went through \<open>float64\<close>: its text afterwards, \<open>None\<close> out of range, and its integer part.  The
  float formatting of Go is an argument.
\<close>

record floats =
  fl_text :: "string \<Rightarrow> string option"
  fl_int :: "string \<Rightarrow> int"

fun refloat :: "floats \<Rightarrow> jval \<Rightarrow> jval option"
  and refloat_list :: "floats \<Rightarrow> jval list \<Rightarrow> jval list option"
  and refloat_members :: "floats \<Rightarrow> (string \<times> jval) list \<Rightarrow> (string \<times> jval) list option" where
  "refloat fl (JNum n) = map_option JNum (fl_text fl n)"
| "refloat fl (JArr vs) = map_option JArr (refloat_list fl vs)"
| "refloat fl (JObj kvs) = map_option JObj (refloat_members fl kvs)"
| "refloat fl v = Some v"
| "refloat_list fl [] = Some []"
| "refloat_list fl (v # vs) = (case refloat fl v of None \<Rightarrow> None | Some w \<Rightarrow> map_option ((#) w) (refloat_list fl vs))"
| "refloat_members fl [] = Some []"
| "refloat_members fl ((k, v) # kvs) = (case refloat fl v of None \<Rightarrow> None | Some w \<Rightarrow> map_option ((#) (k, w)) (refloat_members fl kvs))"

text \<open>\<open>json.Unmarshal\<close> into \<open>map[string]any\<close>: the whole text is one value, an object or null (the nil map).\<close>

definition unmarshal_map :: "floats \<Rightarrow> string \<Rightarrow> (string \<times> jval) list option option" where
  "unmarshal_map fl s = (case json_unmarshal s of
     Some JNull \<Rightarrow> Some None
   | Some (JObj kvs) \<Rightarrow> map_option Some (refloat_members fl kvs)
   | _ \<Rightarrow> None)"

definition credit_type :: string where "credit_type = ''bank.transaction.credit''"
definition voice_type :: string where "voice_type = ''voice.settings.changed''"

definition public_keys :: "string list" where
  "public_keys = [''bank'', ''accountMasked'', ''transactionId'', ''transactionNumber'', ''credit'', ''debit'', ''currency'',
     ''transactionDate'', ''transactionDay'', ''datePrecision'', ''source'', ''description'', ''detectedAt'', ''provider'', ''orderCode'',
     ''paymentOrigin'']"

text \<open>A frame: its id, empty for none, its event name and its data.\<close>

record frame =
  fr_id :: string
  fr_event :: string
  fr_data :: string

definition entry_id :: "string \<Rightarrow> int \<Rightarrow> string" where
  "entry_id epoch seq = epoch @ CHR '':'' # int_text seq"

text \<open>\<open>writeJournalEntry\<close>: \<open>None\<close> when the payload cannot be cleaned, which ends the stream.\<close>

definition public_credit :: "floats \<Rightarrow> string \<Rightarrow> string option" where
  "public_credit fl payload = (case unmarshal_map fl payload of
     None \<Rightarrow> None
   | Some None \<Rightarrow> Some (json_text JNull)
   | Some (Some kvs) \<Rightarrow> Some (json_text (JObj (filter (\<lambda>kv. fst kv \<in> set public_keys) kvs))))"

definition public_voice :: "floats \<Rightarrow> string \<Rightarrow> string option" where
  "public_voice fl payload = (case unmarshal_map fl payload of
     Some (Some kvs) \<Rightarrow> (case map_of kvs ''revision'' of
       Some (JNum n) \<Rightarrow> if 0 < fl_int fl n then Some (json_text (JObj [(''revision'', JNum (int_text (fl_int fl n)))])) else None
     | _ \<Rightarrow> None)
   | _ \<Rightarrow> None)"

definition write_entry :: "floats \<Rightarrow> bool \<Rightarrow> hub_event \<Rightarrow> frame list option" where
  "write_entry fl public e =
     (let f = \<lparr>fr_id = entry_id (he_epoch e) (he_seq e), fr_event = he_type e, fr_data = he_payload e\<rparr> in
      if public \<and> he_type e = credit_type then
        map_option (\<lambda>d. [f\<lparr>fr_data := d\<rparr>]) (public_credit fl (he_payload e))
      else if public \<and> he_type e = voice_type then
        Some (case public_voice fl (he_payload e) of None \<Rightarrow> [] | Some d \<Rightarrow> [f\<lparr>fr_data := d\<rparr>])
      else Some [f])"

definition allowed_event :: "bool \<Rightarrow> string \<Rightarrow> bool" where
  "allowed_event public ty \<longleftrightarrow> public \<longrightarrow> ty = credit_type \<or> ty = voice_type"

text \<open>What a handled event leaves on the wire.\<close>

definition frames_of :: "floats \<Rightarrow> bool \<Rightarrow> hub_event \<Rightarrow> frame list" where
  "frames_of fl public e = (if allowed_event public (he_type e) then (case write_entry fl public e of None \<Rightarrow> [] | Some fs \<Rightarrow> fs) else [])"

definition control :: "string \<Rightarrow> string \<Rightarrow> frame" where
  "control event data = \<lparr>fr_id = [], fr_event = event, fr_data = data\<rparr>"

definition reset_frame :: "string \<Rightarrow> frame" where
  "reset_frame reason = control ''reset_state'' (json_text (JObj [(''reason'', JStr reason)]))"

definition initial_frame :: "int \<Rightarrow> frame" where
  "initial_frame mark = control ''initial_state'' (json_text (JObj [(''epoch'', JStr realtime_epoch), (''watermark'', JNum (int_text mark))]))"

section \<open>The stream\<close>

datatype stream_pc =
    SmOpen
  | SmCheck int int
  | SmReplay
  | SmSend "journal_row list" bool
  | SmLive
  | SmDrain hub_event
  | SmDrainSend "journal_row list" bool hub_event
  | SmDone

record stream =
  sm_sub :: nat
  sm_cursor :: string
  sm_public :: bool
  sm_mark :: int
  sm_pc :: stream_pc
  sm_start :: int
  sm_handled :: "hub_event list"
  sm_frames :: "frame list"

definition open_stream :: "nat \<Rightarrow> string \<Rightarrow> bool \<Rightarrow> stream" where
  "open_stream sub cursor public = \<lparr>sm_sub = sub, sm_cursor = cursor, sm_public = public, sm_mark = 0, sm_pc = SmOpen, sm_start = 0,
     sm_handled = [], sm_frames = []\<rparr>"

text \<open>The cursor \<open>ep1:n\<close>.\<close>

definition parse_cursor :: "string \<Rightarrow> int option" where
  "parse_cursor cursor =
     (if \<not> has_prefix cursor (realtime_epoch @ '':'') then None
      else case parse_int64 (drop (length realtime_epoch + 1) cursor) of None \<Rightarrow> None | Some n \<Rightarrow> if n < 0 then None else Some n)"

definition sm_reset :: "string \<Rightarrow> stream \<Rightarrow> stream" where
  "sm_reset reason x = x\<lparr>sm_frames := sm_frames x @ [reset_frame reason], sm_pc := SmDone\<rparr>"

definition sm_begin :: "db \<Rightarrow> stream \<Rightarrow> stream" where
  "sm_begin s x =
     (if sm_cursor x = [] then
        let m = get_max_journal_seq realtime_epoch s in
        x\<lparr>sm_mark := m, sm_start := m, sm_frames := sm_frames x @ [initial_frame m], sm_pc := SmReplay\<rparr>
      else case parse_cursor (sm_cursor x) of
        None \<Rightarrow> sm_reset ''invalid_cursor'' x
      | Some n \<Rightarrow> x\<lparr>sm_pc := SmCheck n (get_min_journal_seq realtime_epoch s)\<rparr>)"

definition sm_check :: "db \<Rightarrow> int \<Rightarrow> int \<Rightarrow> stream \<Rightarrow> stream" where
  "sm_check s after least x =
     (if get_max_journal_seq realtime_epoch s < after then sm_reset ''invalid_cursor'' x
      else if 0 < least \<and> after < least - 1 then sm_reset ''retention_expired'' x
      else x\<lparr>sm_mark := after, sm_start := after, sm_pc := SmReplay\<rparr>)"

text \<open>One event, from the journal or a hint: skipped, written, or the end of the stream.\<close>

definition handle_event :: "floats \<Rightarrow> hub_event \<Rightarrow> stream_pc \<Rightarrow> stream \<Rightarrow> stream" where
  "handle_event fl e next_pc x =
     (if \<not> allowed_event (sm_public x) (he_type e)
      then x\<lparr>sm_mark := he_seq e, sm_handled := sm_handled x @ [e], sm_pc := next_pc\<rparr>
      else case write_entry fl (sm_public x) e of
        None \<Rightarrow> x\<lparr>sm_pc := SmDone\<rparr>
      | Some fs \<Rightarrow> x\<lparr>sm_mark := he_seq e, sm_handled := sm_handled x @ [e], sm_frames := sm_frames x @ fs, sm_pc := next_pc\<rparr>)"

definition after_drain :: "floats \<Rightarrow> hub_event \<Rightarrow> stream \<Rightarrow> stream" where
  "after_drain fl hint x =
     (if he_seq hint \<le> sm_mark x then x\<lparr>sm_pc := SmLive\<rparr>
      else if he_seq hint \<noteq> sm_mark x + 1 then x\<lparr>sm_pc := SmDone\<rparr>
      else handle_event fl hint SmLive x)"

definition sm_hint :: "floats \<Rightarrow> hub_event \<Rightarrow> stream \<Rightarrow> stream" where
  "sm_hint fl hint x =
     (if he_epoch hint \<noteq> realtime_epoch \<or> he_seq hint \<le> sm_mark x then x
      else if sm_mark x + 1 < he_seq hint then x\<lparr>sm_pc := SmDrain hint\<rparr>
      else handle_event fl hint SmLive x)"

text \<open>A step on its own; receiving a hint is \<open>sm_receive\<close>.\<close>

definition sm_step :: "floats \<Rightarrow> db \<Rightarrow> stream \<Rightarrow> stream" where
  "sm_step fl s x = (case sm_pc x of
     SmOpen \<Rightarrow> sm_begin s x
   | SmCheck after least \<Rightarrow> sm_check s after least x
   | SmReplay \<Rightarrow> (let rows = journal_read (sm_mark x) batch_size s in x\<lparr>sm_pc := SmSend rows (full_batch batch_size rows)\<rparr>)
   | SmSend [] full \<Rightarrow> x\<lparr>sm_pc := (if full then SmReplay else SmLive)\<rparr>
   | SmSend (j # rows) full \<Rightarrow> handle_event fl (event_of j) (SmSend rows full) x
   | SmDrain hint \<Rightarrow> (let rows = journal_read (sm_mark x) batch_size s in x\<lparr>sm_pc := SmDrainSend rows (full_batch batch_size rows) hint\<rparr>)
   | SmDrainSend [] full hint \<Rightarrow> (if full then x\<lparr>sm_pc := SmDrain hint\<rparr> else after_drain fl hint x)
   | SmDrainSend (j # rows) full hint \<Rightarrow> handle_event fl (event_of j) (SmDrainSend rows full hint) x
   | _ \<Rightarrow> x)"

definition sm_receive :: "floats \<Rightarrow> hub_event hub \<Rightarrow> stream \<Rightarrow> stream \<times> hub_event hub" where
  "sm_receive fl h x = (case receive (sm_sub x) h of
     (Event e, h') \<Rightarrow> (sm_hint fl e x, h')
   | (Closed, h') \<Rightarrow> (x\<lparr>sm_pc := SmDone\<rparr>, h')
   | (Waiting, h') \<Rightarrow> (x, h'))"

text \<open>
  A failed write or store read, a departed browser: the handler returns and its subscription is given up; a read
  of the store that failed before the stream is live is told the browser, when it can be.
\<close>

definition error_frame :: frame where
  "error_frame = control ''stream_error'' (json_text (JObj [(''reason'', JStr ''storage_error'')]))"

definition sm_fail :: "bool \<Rightarrow> stream \<Rightarrow> stream" where
  "sm_fail told x = x\<lparr>sm_frames := sm_frames x @ (if told then [error_frame] else []), sm_pc := SmDone\<rparr>"

end
