(* ===== verification/RealtimeSystem.thy ===== *)
theory RealtimeSystem
  imports BrowserStream
begin

text \<open>
  The realtime path as a whole: the journal that any process writes and retention shortens, the worker with
  its publisher and hub, the gateway with its coordinator or watcher, its hub and any number of browser streams.
  \<open>rt_step\<close> interleaves all of them in any way.
\<close>

section \<open>The system\<close>

record realtime =
  rt_db :: db
  rt_all :: "journal_row list"
  rt_worker_hub :: "hub_event hub"
  rt_publisher :: publisher
  rt_relay :: "nat option"
  rt_hub :: "hub_event hub"
  rt_coordinated :: bool
  rt_coordinator :: coordinator
  rt_watcher :: watcher
  rt_streams :: "stream list"

text \<open>\<open>Server.Publish\<close>.\<close>

definition server_publish :: "hub_event \<Rightarrow> realtime \<Rightarrow> realtime" where
  "server_publish e x =
     (if rt_coordinated x then x\<lparr>rt_coordinator := submit e (rt_coordinator x)\<rparr> else x\<lparr>rt_hub := publish e (rt_hub x)\<rparr>)"

text \<open>An event tells of a row; the time of creation may have been taken twice.\<close>

definition tells :: "hub_event \<Rightarrow> journal_row \<Rightarrow> bool" where
  "tells e j \<longleftrightarrow> he_seq e = j_seq j \<and> he_epoch e = j_epoch j \<and> he_type e = j_type j \<and> he_aggregate e = j_aggregate j \<and>
     he_payload e = j_payload j"

definition with_publisher :: "(publisher \<times> hub_event hub) \<Rightarrow> realtime \<Rightarrow> realtime" where
  "with_publisher ph x = x\<lparr>rt_publisher := fst ph, rt_worker_hub := snd ph\<rparr>"

definition with_coordinator :: "(coordinator \<times> hub_event hub) \<Rightarrow> realtime \<Rightarrow> realtime" where
  "with_coordinator ch x = x\<lparr>rt_coordinator := fst ch, rt_hub := snd ch\<rparr>"

inductive rt_step :: "floats \<Rightarrow> realtime \<Rightarrow> realtime \<Rightarrow> bool" for fl where
  commit: "rt_step fl x (x\<lparr>rt_db := append_journal ep ty ag pl created (rt_db x),
      rt_all := rt_all x @ [commit_row ep ty ag pl created (rt_db x)]\<rparr>)"
| retention: "rt_step fl x (x\<lparr>rt_db := snd (delete_journal_before cutoff (rt_db x))\<rparr>)"
| announce: "j \<in> set (rt_all x) \<Longrightarrow> tells e j \<Longrightarrow> rt_step fl x (server_publish e x)"
| pub_init: "jp_ready (rt_publisher x) = False \<Longrightarrow> rt_step fl x (x\<lparr>rt_publisher := Realtime.pub_init (rt_db x) (rt_publisher x)\<rparr>)"
| pub_wake: "rt_step fl x (x\<lparr>rt_publisher := Realtime.pub_wake (rt_publisher x)\<rparr>)"
| pub_begin: "jp_ready (rt_publisher x) \<Longrightarrow> jp_pc (rt_publisher x) = PubIdle \<Longrightarrow> found = None \<or> found = Some (rt_db x) \<Longrightarrow>
    rt_step fl x (x\<lparr>rt_publisher := Realtime.pub_begin found woken (rt_publisher x)\<rparr>)"
| pub_read: "jp_pc (rt_publisher x) = PubRead \<Longrightarrow> rt_step fl x (x\<lparr>rt_publisher := Realtime.pub_read (rt_db x) (rt_publisher x)\<rparr>)"
| pub_fail: "jp_pc (rt_publisher x) = PubRead \<Longrightarrow> rt_step fl x (x\<lparr>rt_publisher := pub_give_up (rt_publisher x)\<rparr>)"
| pub_send: "rt_step fl x (with_publisher (Realtime.pub_send (rt_publisher x, rt_worker_hub x)) x)"
| relay_connect: "rt_relay x = None \<Longrightarrow> rt_step fl x (x\<lparr>rt_relay := Some (fst (subscribe (rt_worker_hub x))),
    rt_worker_hub := snd (subscribe (rt_worker_hub x)), rt_coordinator := request_reconcile (rt_coordinator x)\<rparr>)"
| relay_deliver: "rt_relay x = Some i \<Longrightarrow> receive i (rt_worker_hub x) = (Event e, h) \<Longrightarrow>
    rt_step fl x (x\<lparr>rt_worker_hub := h, rt_coordinator := submit e (rt_coordinator x)\<rparr>)"
| relay_lose: "rt_relay x = Some i \<Longrightarrow> receive i (rt_worker_hub x) = (Event e, h) \<Longrightarrow> rt_step fl x (x\<lparr>rt_worker_hub := h\<rparr>)"
| relay_end: "rt_relay x = Some i \<Longrightarrow> rt_step fl x (x\<lparr>rt_relay := None, rt_worker_hub := cancel_subscription i (rt_worker_hub x)\<rparr>)"
| co_handle: "co_pc (rt_coordinator x) = CoIdle \<Longrightarrow> rt_step fl x (with_coordinator (Realtime.co_handle (rt_coordinator x, rt_hub x)) x)"
| co_reconcile: "co_pc (rt_coordinator x) = CoIdle \<Longrightarrow>
    rt_step fl x (x\<lparr>rt_coordinator := Realtime.co_reconcile requested (rt_coordinator x)\<rparr>)"
| co_step: "rt_step fl x (with_coordinator (Realtime.co_step (rt_db x) (rt_coordinator x, rt_hub x)) x)"
| co_fail: "rt_step fl x (x\<lparr>rt_coordinator := co_give_up (rt_coordinator x)\<rparr>)"
| wt_init: "wt_pc (rt_watcher x) = WtStart \<Longrightarrow> found = None \<or> found = Some (rt_db x) \<Longrightarrow>
    rt_step fl x (x\<lparr>rt_watcher := Realtime.wt_init found (rt_watcher x)\<rparr>)"
| wt_tick: "wt_pc (rt_watcher x) = WtIdle \<Longrightarrow> rt_step fl x (x\<lparr>rt_watcher := Realtime.wt_tick (rt_watcher x)\<rparr>)"
| wt_step: "rt_step fl x (x\<lparr>rt_watcher := Realtime.wt_step (rt_db x) (rt_watcher x)\<rparr>)"
| wt_send: "Realtime.wt_send (rt_watcher x) = Some (w, e) \<Longrightarrow> rt_step fl x (server_publish e (x\<lparr>rt_watcher := w\<rparr>))"
| wt_fail: "rt_step fl x (x\<lparr>rt_watcher := wt_give_up (rt_watcher x)\<rparr>)"
| sm_open: "rt_step fl x (x\<lparr>rt_hub := snd (subscribe (rt_hub x)),
    rt_streams := rt_streams x @ [open_stream (fst (subscribe (rt_hub x))) cursor public]\<rparr>)"
| sm_step: "i < length (rt_streams x) \<Longrightarrow>
    rt_step fl x (x\<lparr>rt_streams := (rt_streams x)[i := BrowserStream.sm_step fl (rt_db x) (rt_streams x ! i)]\<rparr>)"
| sm_receive: "i < length (rt_streams x) \<Longrightarrow> sm_pc (rt_streams x ! i) = SmLive \<Longrightarrow>
    rt_step fl x (x\<lparr>rt_hub := snd (BrowserStream.sm_receive fl (rt_hub x) (rt_streams x ! i)),
      rt_streams := (rt_streams x)[i := fst (BrowserStream.sm_receive fl (rt_hub x) (rt_streams x ! i))]\<rparr>)"
| sm_fail: "i < length (rt_streams x) \<Longrightarrow>
    rt_step fl x (x\<lparr>rt_hub := cancel_subscription (sm_sub (rt_streams x ! i)) (rt_hub x),
      rt_streams := (rt_streams x)[i := BrowserStream.sm_fail told (rt_streams x ! i)]\<rparr>)"

definition rt_start :: "bool \<Rightarrow> db \<Rightarrow> realtime" where
  "rt_start coordinated s = \<lparr>rt_db = s, rt_all = db_journal s, rt_worker_hub = new_hub, rt_publisher = new_publisher, rt_relay = None,
     rt_hub = new_hub, rt_coordinated = coordinated, rt_coordinator = new_coordinator, rt_watcher = new_watcher, rt_streams = []\<rparr>"

section \<open>Reading keeps the promise\<close>

lemma sorted_journal: "journal_inv s \<Longrightarrow> sort_key j_seq (filter p (db_journal s)) = filter p (db_journal s)"
proof (rule sort_key_id_if_sorted)
  assume "journal_inv s"
  then have "sorted_wrt (\<lambda>a b. j_seq a < j_seq b) (filter p (db_journal s))"
    by (simp add: journal_inv_def sorted_wrt_map sorted_wrt_filter)
  then show "sorted (map j_seq (filter p (db_journal s)))"
    by (simp add: sorted_wrt_map) (rule sorted_wrt_mono_rel[rotated], assumption, simp)
qed

lemma read_rows:
  "journal_inv s \<Longrightarrow> journal_read c limit s = take (journal_limit limit) (filter (\<lambda>j. of_epoch j \<and> c < j_seq j) (db_journal s))"
  by (simp add: read_journal_events_def sorted_journal of_epoch_def epoch_or_default_def realtime_epoch_def)

lemma take_before:
  "sorted_wrt (<) (map f xs) \<Longrightarrow> x \<in> set xs \<Longrightarrow> take n xs \<noteq> [] \<Longrightarrow> f x \<le> (f (last (take n xs)) :: int) \<Longrightarrow> x \<in> set (take n xs)"
proof (induction xs arbitrary: n)
  case (Cons y ys)
  obtain m where m: "n = Suc m" using Cons.prems(3) by (cases n) auto
  show ?case
  proof (cases "take m ys = []")
    case True
    then have "\<not> f x \<le> f y" if "x \<in> set ys" using Cons.prems(1) that by auto
    then show ?thesis using Cons.prems m True by auto
  next
    case False
    then show ?thesis using Cons m by auto
  qed
qed simp

lemma read_batch: "kept_of all s \<Longrightarrow> batch_ok all s c (journal_read c limit s)"
proof -
  assume k: "kept_of all s"
  let ?F = "filter (\<lambda>j. of_epoch j \<and> c < j_seq j) (db_journal s)"
  have j: "journal_inv s" and sub: "set (db_journal s) \<subseteq> set all" using k by (auto simp: kept_of_def)
  have srt: "sorted_wrt (<) (map j_seq ?F)" using j by (auto simp: journal_inv_def sorted_wrt_map sorted_wrt_filter)
  then have "sorted_wrt (<) (map j_seq (journal_read c limit s))"
    using read_rows[OF j] by (simp add: take_map[symmetric] sorted_wrt_take)
  moreover have "missing s c (j_seq (last (journal_read c limit s))) \<subseteq> set (journal_read c limit s)" if "journal_read c limit s \<noteq> []"
  proof
    fix r assume r: "r \<in> missing s c (j_seq (last (journal_read c limit s)))"
    then have "r \<in> set ?F" by (auto simp: missing_def)
    then show "r \<in> set (journal_read c limit s)"
      using take_before[OF srt] that r unfolding read_rows[OF j] missing_def by blast
  qed
  moreover have "set (journal_read c limit s) \<subseteq> set ?F" unfolding read_rows[OF j] by (rule set_take_subset)
  ultimately show ?thesis using sub by (auto simp: batch_ok_def)
qed

lemma read_all: "kept_of all s \<Longrightarrow> length (journal_read c limit s) < journal_limit limit \<Longrightarrow> missing s c b \<subseteq> set (journal_read c limit s)"
  using read_rows[of s c limit] by (auto simp: kept_of_def missing_def)

lemma epoch_rows: "(\<lambda>j. j_epoch j = epoch_or_default realtime_epoch) = of_epoch"
  by (simp add: fun_eq_iff of_epoch_def epoch_or_default_def realtime_epoch_def)

lemma max_seq:
  assumes "kept_of all s"
  shows "get_max_journal_seq realtime_epoch s \<le> db_journal_seq s" "0 \<le> get_max_journal_seq realtime_epoch s"
    "missing s (get_max_journal_seq realtime_epoch s) b = {}"
proof -
  let ?m = "get_max_journal_seq realtime_epoch s" and ?xs = "map j_seq (filter of_epoch (db_journal s))"
  have j: "\<forall>r\<in>set (db_journal s). 0 < j_seq r \<and> j_seq r \<le> db_journal_seq s" "0 \<le> db_journal_seq s"
    using assms by (auto simp: kept_of_def journal_inv_def)
  have m: "?m = (case ?xs of [] \<Rightarrow> 0 | x # xs \<Rightarrow> fold max xs x)"
    by (simp add: get_max_journal_seq_def epoch_rows)
  have "?m \<in> insert 0 (set ?xs) \<and> (\<forall>x\<in>set ?xs. x \<le> ?m)"
  proof (cases ?xs)
    case (Cons x xs)
    then have "?m = fold max xs x" using m by simp
    also have "\<dots> = Max (set ?xs)" unfolding Cons by (rule Max.set_eq_fold[symmetric])
    finally show ?thesis using Cons Max_in[of "set ?xs"] by (metis List.finite_set Max_ge empty_iff insertCI set_empty list.distinct(1))
  qed (use m in simp)
  then have "?m \<in> insert 0 (j_seq ` {r \<in> set (db_journal s). of_epoch r})" and up: "\<And>r. r \<in> set (db_journal s) \<Longrightarrow> of_epoch r \<Longrightarrow> j_seq r \<le> ?m"
    by auto
  then show "?m \<le> db_journal_seq s" "0 \<le> ?m" using j by auto
  show "missing s ?m b = {}" using up by (force simp: missing_def)
qed

lemma min_seq:
  assumes "kept_of all s" "0 < get_min_journal_seq realtime_epoch s"
  shows "get_min_journal_seq realtime_epoch s \<le> db_journal_seq s" "missing s c (get_min_journal_seq realtime_epoch s - 1) = {}"
proof -
  let ?m = "get_min_journal_seq realtime_epoch s" and ?xs = "map j_seq (filter of_epoch (db_journal s))"
  have m: "?m = (case ?xs of [] \<Rightarrow> 0 | x # xs \<Rightarrow> fold min xs x)"
    by (simp add: get_min_journal_seq_def epoch_rows)
  then obtain x xs where xs: "?xs = x # xs" using assms(2) by (cases ?xs) auto
  have e: "?m = Min (set ?xs)" using m Min.set_eq_fold[of x xs] xs by simp
  then have "?m \<in> set ?xs" using xs Min_in[of "set ?xs"] by (metis List.finite_set set_empty list.distinct(1))
  then show "?m \<le> db_journal_seq s" using assms(1) by (auto simp: kept_of_def journal_inv_def)
  have "?m \<le> y" if "y \<in> set ?xs" for y using that e by simp
  then show "missing s c (?m - 1) = {}" by (force simp: missing_def)
qed

lemma caught_up_feed:
  assumes "kept_of all s" "feed_ok all s start c out"
  shows "feed_ok all s start (caught_up s c) out"
proof (cases "0 < get_min_journal_seq realtime_epoch s \<and> c < get_min_journal_seq realtime_epoch s - 1")
  case True
  then show ?thesis
    using min_seq[OF assms(1)] by (auto simp: caught_up_def Let_def intro!: feed_skip[OF assms(2)])
qed (use assms in \<open>auto simp: caught_up_def Let_def\<close>)

section \<open>What each part keeps\<close>

definition genuine :: "journal_row list \<Rightarrow> hub_event \<Rightarrow> bool" where
  "genuine all e \<longleftrightarrow> (\<exists>j\<in>set all. tells e j)"

definition feed_inv :: "journal_row list \<Rightarrow> db \<Rightarrow> int \<Rightarrow> int \<Rightarrow> hub_event list \<Rightarrow> bool" where
  "feed_inv all s start cursor out \<longleftrightarrow> (\<exists>rows. feed_ok all s start cursor rows \<and> list_all2 tells out rows)"

lemma tells_event [simp]: "tells (event_of j) j"
  by (simp add: tells_def event_of_def)

lemma event_of_simps [simp]: "he_seq (event_of j) = j_seq j" "he_epoch (event_of j) = j_epoch j" "he_type (event_of j) = j_type j"
  by (simp_all add: event_of_def)

lemma genuine_event: "j \<in> set all \<Longrightarrow> genuine all (event_of j)"
  unfolding genuine_def using tells_event by blast

lemma genuine_seq: "kept_of all s \<Longrightarrow> genuine all e \<Longrightarrow> he_seq e \<le> db_journal_seq s"
  by (auto simp: genuine_def kept_of_def tells_def)

lemma inv_start: "c \<le> db_journal_seq s \<Longrightarrow> feed_inv all s c c []"
  unfolding feed_inv_def using feed_start by (intro exI[of _ "[]"]) simp

lemma inv_grows: "feed_inv all s a c out \<Longrightarrow> grows all s all' s' \<Longrightarrow> feed_inv all' s' a c out"
  unfolding feed_inv_def using feed_grows by blast

lemma inv_caught_up: "kept_of all s \<Longrightarrow> feed_inv all s a c out \<Longrightarrow> feed_inv all s a (caught_up s c) out"
  unfolding feed_inv_def using caught_up_feed by blast

lemma inv_skip: "feed_inv all s a c out \<Longrightarrow> c \<le> d \<Longrightarrow> d \<le> db_journal_seq s \<Longrightarrow> missing s c d = {} \<Longrightarrow> feed_inv all s a d out"
  unfolding feed_inv_def using feed_skip by blast

lemma inv_batch:
  assumes "kept_of all s" "feed_inv all s a c out" "batch_ok all s c (j # rows)"
  shows "feed_inv all s a (j_seq j) (out @ [event_of j])" "batch_ok all s (j_seq j) rows" "c < j_seq j" "genuine all (event_of j)"
proof -
  obtain rs where rs: "feed_ok all s a c rs" "list_all2 tells out rs" using assms(2) unfolding feed_inv_def by blast
  show "feed_inv all s a (j_seq j) (out @ [event_of j])"
    unfolding feed_inv_def using batch_pass(1)[OF rs(1) assms(3,1)] rs(2) by (intro exI[of _ "rs @ [j]"]) (simp add: list_all2_appendI)
  show "batch_ok all s (j_seq j) rows" using batch_pass(2)[OF rs(1) assms(3,1)] .
  show "c < j_seq j" "genuine all (event_of j)" using assms(3) genuine_event by (auto simp: batch_ok_def)
qed

lemma inv_hint:
  assumes "kept_of all s" "feed_inv all s a c out" "genuine all e" "he_epoch e = realtime_epoch" "he_seq e = c + 1"
  shows "feed_inv all s a (he_seq e) (out @ [e])"
proof -
  obtain rs where rs: "feed_ok all s a c rs" "list_all2 tells out rs" using assms(2) unfolding feed_inv_def by blast
  obtain j where j: "j \<in> set all" "tells e j" using assms(3) unfolding genuine_def by blast
  then have t: "j_seq j = c + 1" "of_epoch j" "he_seq e = j_seq j" using assms(4,5) by (auto simp: tells_def of_epoch_def)
  have "feed_ok all s a (j_seq j) (rs @ [j])"
    by (rule feed_pass[OF rs(1) j(1) t(2) _ assms(1) next_row[OF assms(1) j(1) t(1)]]) (simp add: t(1))
  then show ?thesis unfolding feed_inv_def t(3) using rs(2) j(2) by (intro exI[of _ "rs @ [j]"]) (simp add: list_all2_appendI)
qed

definition pub_ok :: "journal_row list \<Rightarrow> db \<Rightarrow> publisher \<Rightarrow> bool" where
  "pub_ok all s p \<longleftrightarrow> (if jp_ready p then feed_inv all s (jp_start p) (jp_cursor p) (jp_out p) \<and>
       (case jp_pc p of PubSend rows full \<Rightarrow> batch_ok all s (jp_cursor p) rows | _ \<Rightarrow> True)
     else jp_pc p = PubIdle)"

definition co_ok :: "journal_row list \<Rightarrow> db \<Rightarrow> coordinator \<Rightarrow> bool" where
  "co_ok all s c \<longleftrightarrow> (\<forall>e\<in>set (co_input c). genuine all e) \<and>
     (co_pc c \<noteq> CoStart \<longrightarrow> feed_inv all s (co_start c) (co_last c) (co_out c)) \<and>
     (case co_pc c of CoMin t \<Rightarrow> t \<le> db_journal_seq s | CoLoop t \<Rightarrow> t \<le> db_journal_seq s
      | CoEmpty t \<Rightarrow> co_last c \<le> t \<and> t \<le> db_journal_seq s \<and> missing s (co_last c) t = {}
      | CoSend rows full t \<Rightarrow> t \<le> db_journal_seq s \<and> batch_ok all s (co_last c) rows
      | _ \<Rightarrow> True)"

definition wt_ok :: "journal_row list \<Rightarrow> db \<Rightarrow> watcher \<Rightarrow> bool" where
  "wt_ok all s w \<longleftrightarrow> wt_pc w \<noteq> WtStart \<longrightarrow> feed_inv all s (wt_start w) (wt_last w) (wt_out w) \<and>
     (case wt_pc w of WtSend rows full \<Rightarrow> batch_ok all s (wt_last w) rows | _ \<Rightarrow> True)"

lemma pub_grows: "kept_of all s \<Longrightarrow> pub_ok all s p \<Longrightarrow> grows all s all' s' \<Longrightarrow> pub_ok all' s' p"
  unfolding pub_ok_def using inv_grows batch_grows by (auto split: pub_pc.splits if_splits)

lemma genuine_grows: "genuine all e \<Longrightarrow> grows all s all' s' \<Longrightarrow> genuine all' e"
  unfolding genuine_def grows_def by blast

lemma co_grows:
  assumes k: "kept_of all s" and c: "co_ok all s c" and g: "grows all s all' s'"
  shows "co_ok all' s' c"
proof -
  have le: "t \<le> db_journal_seq s \<Longrightarrow> t \<le> db_journal_seq s'" and m: "t \<le> db_journal_seq s \<Longrightarrow> missing s a t = {} \<Longrightarrow> missing s' a t = {}" for t a
    using g unfolding grows_def by (auto, blast)
  show ?thesis
    using c inv_grows[OF _ g] batch_grows[OF k _ g] genuine_grows[OF _ g] le m unfolding co_ok_def by (auto split: co_pc.splits)
qed

lemma wt_grows: "kept_of all s \<Longrightarrow> wt_ok all s w \<Longrightarrow> grows all s all' s' \<Longrightarrow> wt_ok all' s' w"
  unfolding wt_ok_def using inv_grows batch_grows by (auto split: wt_pc.splits)

section \<open>Every step of a part keeps it\<close>

lemma pub_init_ok: "kept_of all s \<Longrightarrow> pub_ok all s p \<Longrightarrow> \<not> jp_ready p \<Longrightarrow> pub_ok all s (pub_init s p)"
  using max_seq(1) inv_start by (auto simp: pub_ok_def pub_init_def Let_def)

lemma pub_begin_ok:
  "kept_of all s \<Longrightarrow> pub_ok all s p \<Longrightarrow> jp_ready p \<Longrightarrow> found = None \<or> found = Some s \<Longrightarrow> pub_ok all s (pub_begin found woken p)"
  using inv_caught_up by (auto simp: pub_ok_def pub_begin_def)

lemma pub_read_ok: "kept_of all s \<Longrightarrow> pub_ok all s p \<Longrightarrow> jp_pc p = PubRead \<Longrightarrow> pub_ok all s (pub_read s p)"
  using read_batch by (auto simp: pub_ok_def pub_read_def Let_def split: if_split_asm)

lemma pub_send_ok:
  assumes "kept_of all s" "pub_ok all s p"
  shows "pub_ok all s (fst (pub_send (p, h)))"
    "snd (pub_send (p, h)) = h \<or> (\<exists>e. genuine all e \<and> snd (pub_send (p, h)) = publish e h)"
proof -
  have "pub_ok all s (fst (pub_send (p, h))) \<and> (snd (pub_send (p, h)) = h \<or> (\<exists>e. genuine all e \<and> snd (pub_send (p, h)) = publish e h))"
  proof (cases "\<exists>j rows full. jp_pc p = PubSend (j # rows) full")
    case True
    then obtain j rows full where c: "jp_pc p = PubSend (j # rows) full" by blast
    with assms(2) have r: "jp_ready p" "feed_inv all s (jp_start p) (jp_cursor p) (jp_out p)" "batch_ok all s (jp_cursor p) (j # rows)"
      by (auto simp: pub_ok_def split: if_splits)
    note b = inv_batch[OF assms(1) r(2,3)]
    have "snd (pub_send (p, h)) = publish (event_of j) h" by (simp add: pub_send_def c)
    moreover have "pub_ok all s (fst (pub_send (p, h)))" using b r(1) by (simp add: pub_ok_def pub_send_def c)
    ultimately show ?thesis using b(4) by blast
  next
    case False
    then have "pub_send (p, h) = (p, h)" by (auto simp: pub_send_def split: pub_pc.split list.split)
    then show ?thesis using assms(2) by simp
  qed
  then show "pub_ok all s (fst (pub_send (p, h)))"
    "snd (pub_send (p, h)) = h \<or> (\<exists>e. genuine all e \<and> snd (pub_send (p, h)) = publish e h)" by blast+
qed

lemma pub_rest_ok: "pub_ok all s p \<Longrightarrow> pub_ok all s (pub_wake p)" "pub_ok all s p \<Longrightarrow> pub_ok all s (pub_give_up p)"
  by (auto simp: pub_ok_def pub_wake_def pub_give_up_def split: pub_pc.splits)

text \<open>What a step of the coordinator does to the hub of the gateway: at most one publication of a genuine event.\<close>

definition published_one :: "journal_row list \<Rightarrow> hub_event hub \<Rightarrow> hub_event hub \<Rightarrow> bool" where
  "published_one all h h' \<longleftrightarrow> h' = h \<or> (\<exists>e. genuine all e \<and> h' = publish e h)"

lemma published_none [simp]: "published_one all h h"
  by (simp add: published_one_def)

lemma published_event: "genuine all e \<Longrightarrow> published_one all h (publish e h)"
  unfolding published_one_def by blast

lemma co_handle_ok:
  assumes k: "kept_of all s" and c: "co_ok all s c" and i: "co_pc c = CoIdle"
  shows "co_ok all s (fst (co_handle (c, h))) \<and> published_one all h (snd (co_handle (c, h)))"
proof (cases "co_input c")
  case Nil
  then show ?thesis using c by (simp add: co_handle_def)
next
  case (Cons e es)
  have f: "feed_inv all s (co_start c) (co_last c) (co_out c)" and g: "genuine all e" "\<forall>e\<in>set es. genuine all e"
    using c i Cons by (auto simp: co_ok_def)
  consider "he_epoch e \<noteq> realtime_epoch \<or> he_seq e \<le> co_last c"
    | (exact) "he_epoch e = realtime_epoch" "he_seq e = co_last c + 1"
    | (gap) "he_epoch e = realtime_epoch" "\<not> he_seq e \<le> co_last c" "he_seq e \<noteq> co_last c + 1" by blast
  then show ?thesis
  proof cases
    case 1
    then show ?thesis using Cons f g i by (auto simp: co_handle_def co_ok_def)
  next
    case exact
    have "feed_inv all s (co_start c) (he_seq e) (co_out c @ [e])" by (rule inv_hint[OF k f g(1) exact])
    then show ?thesis using Cons exact g i published_event[OF g(1)] by (simp add: co_handle_def co_publish_def co_ok_def Let_def)
  next
    case gap
    then show ?thesis using Cons f g genuine_seq[OF k g(1)] by (simp add: co_handle_def co_ok_def Let_def)
  qed
qed

lemma co_step_ok:
  assumes k: "kept_of all s" and c: "co_ok all s c"
  shows "co_ok all s (fst (co_step s (c, h))) \<and> published_one all h (snd (co_step s (c, h)))"
proof -
  have g: "\<forall>e\<in>set (co_input c). genuine all e" using c by (simp add: co_ok_def)
  have f: "feed_inv all s (co_start c) (co_last c) (co_out c)" if "co_pc c \<noteq> CoStart" using c that by (simp add: co_ok_def)
  show ?thesis
  proof (cases "co_pc c")
    case CoStart
    then show ?thesis using g max_seq(1)[OF k] inv_start by (simp add: co_step_def co_init_def co_ok_def Let_def)
  next
    case CoIdle
    then show ?thesis using c by (simp add: co_step_def)
  next
    case CoTarget
    then show ?thesis using g f max_seq(1)[OF k] by (simp add: co_step_def co_ok_def)
  next
    case (CoMin t)
    then show ?thesis using g f c inv_caught_up[OF k] by (simp add: co_step_def co_ok_def)
  next
    case (CoLoop t)
    have b: "batch_ok all s (co_last c) (journal_read (co_last c) batch_size s)" by (rule read_batch[OF k])
    have "missing s (co_last c) t = {}" if "journal_read (co_last c) batch_size s = []"
      using read_all[OF k, of "co_last c" batch_size t] that by (simp add: journal_limit_def batch_size_def)
    then show ?thesis using CoLoop g f c b by (simp add: co_step_def co_ok_def Let_def)
  next
    case (CoEmpty t)
    then have "co_last c \<le> t" "t \<le> db_journal_seq s" "missing s (co_last c) t = {}" using c by (simp_all add: co_ok_def)
    then have "feed_inv all s (co_start c) t (co_out c)" using f CoEmpty inv_skip by simp
    then show ?thesis using CoEmpty g f by (simp add: co_step_def co_ok_def)
  next
    case (CoSend rows full t)
    then have b: "batch_ok all s (co_last c) rows" and t: "t \<le> db_journal_seq s" using c by (simp_all add: co_ok_def)
    show ?thesis
    proof (cases rows)
      case Nil
      then show ?thesis using CoSend g f t by (simp add: co_step_def co_ok_def)
    next
      case (Cons j js)
      have r: "feed_inv all s (co_start c) (co_last c) (co_out c)" using f CoSend by simp
      note b = inv_batch[OF k r b[unfolded Cons]]
      show ?thesis using CoSend Cons g r t b published_event[OF b(4)] by (simp add: co_step_def co_publish_def co_ok_def)
    qed
  qed
qed

lemma co_rest_ok:
  "co_ok all s c \<Longrightarrow> co_ok all s (request_reconcile c)" "co_ok all s c \<Longrightarrow> genuine all e \<Longrightarrow> co_ok all s (submit e c)"
  "co_ok all s c \<Longrightarrow> co_pc c = CoIdle \<Longrightarrow> co_ok all s (co_reconcile requested c)" "co_ok all s c \<Longrightarrow> co_ok all s (co_give_up c)"
  by (auto simp: co_ok_def request_reconcile_def submit_def co_reconcile_def co_give_up_def split: co_pc.splits)

lemma wt_ok_steps:
  assumes k: "kept_of all s" and w: "wt_ok all s w"
  shows "found = None \<or> found = Some s \<Longrightarrow> wt_ok all s (wt_init found w)" "wt_pc w = WtIdle \<Longrightarrow> wt_ok all s (wt_tick w)"
    "wt_ok all s (wt_give_up w)" "wt_ok all s (wt_step s w)" "wt_send w = Some (w', e) \<Longrightarrow> wt_ok all s w' \<and> genuine all e"
proof -
  show "found = None \<or> found = Some s \<Longrightarrow> wt_ok all s (wt_init found w)"
    using max_seq(1)[OF k] inv_start k by (auto simp: wt_init_def wt_ok_def Let_def kept_of_def journal_inv_def)
  show "wt_pc w = WtIdle \<Longrightarrow> wt_ok all s (wt_tick w)" "wt_ok all s (wt_give_up w)"
    using w by (auto simp: wt_ok_def wt_tick_def wt_give_up_def)
  show "wt_ok all s (wt_step s w)"
    using w read_batch[OF k] by (auto simp: wt_ok_def wt_step_def Let_def split: wt_pc.splits list.splits)
  show "wt_send w = Some (w', e) \<Longrightarrow> wt_ok all s w' \<and> genuine all e"
  proof -
    assume s: "wt_send w = Some (w', e)"
    then obtain j rows full where c: "wt_pc w = WtSend (j # rows) full"
      by (auto simp: wt_send_def split: wt_pc.splits list.splits)
    then have r: "feed_inv all s (wt_start w) (wt_last w) (wt_out w)" "batch_ok all s (wt_last w) (j # rows)" using w by (simp_all add: wt_ok_def)
    note b = inv_batch[OF k r]
    show ?thesis using s b by (auto simp: wt_send_def c wt_ok_def)
  qed
qed

section \<open>The browser stream\<close>

definition at_cursor :: "stream \<Rightarrow> bool" where
  "at_cursor x \<longleftrightarrow> sm_cursor x = [] \<or> parse_cursor (sm_cursor x) = Some (sm_start x)"

text \<open>A stream that has not begun stands at 0; one that has, began where its cursor said.\<close>

definition unbegun :: "stream \<Rightarrow> bool" where
  "unbegun x \<longleftrightarrow> sm_start x = 0 \<and> sm_mark x = 0 \<and> sm_handled x = []"

definition sm_core :: "floats \<Rightarrow> journal_row list \<Rightarrow> db \<Rightarrow> stream \<Rightarrow> bool" where
  "sm_core fl all s x \<longleftrightarrow> feed_inv all s (sm_start x) (sm_mark x) (sm_handled x) \<and>
     filter (\<lambda>f. fr_id f \<noteq> []) (sm_frames x) = concat (map (frames_of fl (sm_public x)) (sm_handled x))"

definition sm_at :: "journal_row list \<Rightarrow> db \<Rightarrow> stream \<Rightarrow> bool" where
  "sm_at all s x \<longleftrightarrow> (case sm_pc x of
     SmOpen \<Rightarrow> unbegun x
   | SmCheck after least \<Rightarrow> unbegun x \<and> parse_cursor (sm_cursor x) = Some after
   | SmDone \<Rightarrow> unbegun x \<or> at_cursor x
   | SmReplay \<Rightarrow> at_cursor x
   | SmLive \<Rightarrow> at_cursor x
   | SmSend rows full \<Rightarrow> at_cursor x \<and> batch_ok all s (sm_mark x) rows
   | SmDrain hint \<Rightarrow> at_cursor x \<and> genuine all hint \<and> he_epoch hint = realtime_epoch
   | SmDrainSend rows full hint \<Rightarrow> at_cursor x \<and> batch_ok all s (sm_mark x) rows \<and> genuine all hint \<and> he_epoch hint = realtime_epoch)"

definition sm_ok :: "floats \<Rightarrow> journal_row list \<Rightarrow> db \<Rightarrow> stream \<Rightarrow> bool" where
  "sm_ok fl all s x \<longleftrightarrow> sm_core fl all s x \<and> sm_at all s x"

lemma sm_grows: "kept_of all s \<Longrightarrow> sm_ok fl all s x \<Longrightarrow> grows all s all' s' \<Longrightarrow> sm_ok fl all' s' x"
  unfolding sm_ok_def sm_core_def sm_at_def
  using inv_grows[of all s _ _ _ all' s'] batch_grows[of all s _ _ all' s'] genuine_grows[of all _ s all' s']
  by (cases "sm_pc x") simp_all

lemma control_id [simp]: "fr_id (control ev d) = []" "fr_id (reset_frame r) = []" "fr_id (initial_frame m) = []"
  by (simp_all add: control_def reset_frame_def initial_frame_def)

lemma entry_frames:
  assumes "f \<in> set (frames_of fl public e)"
  shows "fr_id f = entry_id (he_epoch e) (he_seq e)"
proof -
  have "\<exists>fs. write_entry fl public e = Some fs \<and> f \<in> set fs"
  proof (cases "allowed_event public (he_type e)")
    case True
    then have "frames_of fl public e = (case write_entry fl public e of None \<Rightarrow> [] | Some fs \<Rightarrow> fs)" by (simp add: frames_of_def)
    then show ?thesis using assms by (cases "write_entry fl public e") auto
  next
    case False
    then show ?thesis using assms by (simp add: frames_of_def)
  qed
  then obtain fs where w: "write_entry fl public e = Some fs" "f \<in> set fs" by blast
  consider "public \<and> he_type e = credit_type" | "\<not> (public \<and> he_type e = credit_type)" "public \<and> he_type e = voice_type"
    | "\<not> (public \<and> he_type e = credit_type)" "\<not> (public \<and> he_type e = voice_type)" by blast
  then show ?thesis
  proof cases
    case 1
    then show ?thesis using w by (cases "public_credit fl (he_payload e)") (auto simp: write_entry_def)
  next
    case 2
    then show ?thesis using w by (cases "public_voice fl (he_payload e)") (auto simp: write_entry_def)
  next
    case 3
    then show ?thesis using w by (auto simp: write_entry_def)
  qed
qed

lemma frames_kept: "filter (\<lambda>f. fr_id f \<noteq> []) (frames_of fl public e) = frames_of fl public e"
  using entry_frames by (fastforce simp: filter_id_conv entry_id_def)

lemma handle_core:
  fixes fl e n x
  defines "y \<equiv> handle_event fl e n x"
  assumes "sm_core fl all s x" "feed_inv all s (sm_start x) (he_seq e) (sm_handled x @ [e])"
  shows "sm_core fl all s y \<and> sm_start y = sm_start x \<and> sm_cursor y = sm_cursor x \<and>
    (sm_pc y = SmDone \<or> sm_pc y = n \<and> sm_mark y = he_seq e)"
proof (cases "allowed_event (sm_public x) (he_type e)")
  case False
  then show ?thesis using assms(2,3) by (simp add: y_def handle_event_def sm_core_def frames_of_def)
next
  case True
  then show ?thesis
    using assms(2,3) frames_kept[of fl "sm_public x" e]
    by (auto simp: y_def handle_event_def sm_core_def frames_of_def split: option.split)
qed

lemma batch_step:
  assumes "kept_of all s" "sm_core fl all s x" "at_cursor x" "batch_ok all s (sm_mark x) (j # rows)"
    and "\<And>y. at_cursor y \<Longrightarrow> sm_pc y = n \<Longrightarrow> batch_ok all s (sm_mark y) rows \<Longrightarrow> sm_at all s y"
  shows "sm_ok fl all s (handle_event fl (event_of j) n x)"
proof -
  have f: "feed_inv all s (sm_start x) (sm_mark x) (sm_handled x)" using assms(2) by (simp add: sm_core_def)
  note b = inv_batch[OF assms(1) f assms(4)]
  have "feed_inv all s (sm_start x) (he_seq (event_of j)) (sm_handled x @ [event_of j])" using b(1) by simp
  note h = handle_core[OF assms(2) this, of n]
  let ?y = "handle_event fl (event_of j) n x"
  have at: "at_cursor ?y" using h assms(3) by (simp add: at_cursor_def)
  have "sm_at all s ?y"
  proof (cases "sm_pc ?y = SmDone")
    case True
    then show ?thesis using at by (simp add: sm_at_def)
  next
    case False
    then show ?thesis using h b(2) by (intro assms(5)[OF at]) simp_all
  qed
  then show ?thesis using h by (simp add: sm_ok_def)
qed

lemma hint_step:
  assumes "kept_of all s" "sm_core fl all s x" "at_cursor x" "genuine all e" "he_epoch e = realtime_epoch" "he_seq e = sm_mark x + 1"
  shows "sm_ok fl all s (handle_event fl e SmLive x)"
proof -
  have f: "feed_inv all s (sm_start x) (sm_mark x) (sm_handled x)" using assms(2) by (simp add: sm_core_def)
  from handle_core[OF assms(2) inv_hint[OF assms(1) f assms(4,5,6)], of SmLive] show ?thesis
    using assms(3) by (auto simp: sm_ok_def at_cursor_def sm_at_def)
qed

lemma sm_reset_ok: "sm_core fl all s x \<Longrightarrow> unbegun x \<Longrightarrow> sm_ok fl all s (sm_reset r x)"
  by (simp add: sm_ok_def sm_core_def sm_at_def sm_reset_def unbegun_def)

lemma after_max: "kept_of all s \<Longrightarrow> n \<le> get_max_journal_seq realtime_epoch s \<Longrightarrow> feed_inv all s n n []"
  using max_seq(1) by (intro inv_start) (rule order_trans)

lemma sm_step_ok:
  assumes k: "kept_of all s" and x: "sm_ok fl all s x"
  shows "sm_ok fl all s (sm_step fl s x)"
proof -
  have c: "sm_core fl all s x" and a: "sm_at all s x" using x by (simp_all add: sm_ok_def)
  show ?thesis
  proof (cases "sm_pc x")
    case SmOpen
    then have u: "unbegun x" using a by (simp add: sm_at_def)
    have "sm_ok fl all s (sm_begin s x)"
      using c u sm_reset_ok[OF c u] after_max[OF k order_refl]
      by (auto simp: sm_begin_def sm_ok_def sm_core_def sm_at_def at_cursor_def unbegun_def Let_def split: option.split)
    then show ?thesis using SmOpen by (simp add: sm_step_def)
  next
    case (SmCheck n l)
    then have u: "unbegun x" and p: "parse_cursor (sm_cursor x) = Some n" using a by (simp_all add: sm_at_def)
    have "sm_ok fl all s (sm_check s n l x)"
      using c u p sm_reset_ok[OF c u] after_max[OF k, of n]
      by (auto simp: sm_check_def sm_ok_def sm_core_def sm_at_def at_cursor_def unbegun_def)
    then show ?thesis using SmCheck by (simp add: sm_step_def)
  next
    case SmReplay
    then show ?thesis using c a read_batch[OF k] by (simp add: sm_step_def sm_ok_def sm_core_def sm_at_def at_cursor_def Let_def)
  next
    case (SmDrain hint)
    then show ?thesis using c a read_batch[OF k] by (simp add: sm_step_def sm_ok_def sm_core_def sm_at_def at_cursor_def Let_def)
  next
    case (SmSend rows full)
    then have r: "at_cursor x" "batch_ok all s (sm_mark x) rows" using a by (simp_all add: sm_at_def)
    show ?thesis
    proof (cases rows)
      case Nil
      then show ?thesis using SmSend c r by (simp add: sm_step_def sm_ok_def sm_core_def sm_at_def at_cursor_def)
    next
      case (Cons j js)
      have "sm_ok fl all s (handle_event fl (event_of j) (SmSend js full) x)"
        by (rule batch_step[OF k c r(1) r(2)[unfolded Cons]]) (simp add: sm_at_def)
      then show ?thesis using SmSend Cons by (simp add: sm_step_def)
    qed
  next
    case (SmDrainSend rows full hint)
    then have r: "at_cursor x" "batch_ok all s (sm_mark x) rows" and g: "genuine all hint" "he_epoch hint = realtime_epoch"
      using a by (simp_all add: sm_at_def)
    show ?thesis
    proof (cases rows)
      case Nil
      have l: "sm_ok fl all s (x\<lparr>sm_pc := SmLive\<rparr>)" "sm_ok fl all s (x\<lparr>sm_pc := SmDone\<rparr>)" "sm_ok fl all s (x\<lparr>sm_pc := SmDrain hint\<rparr>)"
        using c r g by (simp_all add: sm_ok_def sm_core_def sm_at_def at_cursor_def)
      have "sm_ok fl all s (after_drain fl hint x)"
        unfolding after_drain_def using l hint_step[OF k c r(1) g] by simp
      then show ?thesis using SmDrainSend Nil l by (simp add: sm_step_def)
    next
      case (Cons j js)
      have "sm_ok fl all s (handle_event fl (event_of j) (SmDrainSend js full hint) x)"
        by (rule batch_step[OF k c r(1) r(2)[unfolded Cons]]) (simp add: sm_at_def g)
      then show ?thesis using SmDrainSend Cons by (simp add: sm_step_def)
    qed
  qed (use x in \<open>simp_all add: sm_step_def\<close>)
qed

lemma sm_hint_ok:
  assumes k: "kept_of all s" and x: "sm_ok fl all s x" and l: "sm_pc x = SmLive" and g: "genuine all e"
  shows "sm_ok fl all s (sm_hint fl e x)"
proof -
  have c: "sm_core fl all s x" and a: "at_cursor x" using x l by (simp_all add: sm_ok_def sm_at_def)
  consider "he_epoch e \<noteq> realtime_epoch \<or> he_seq e \<le> sm_mark x"
    | "he_epoch e = realtime_epoch" "sm_mark x + 1 < he_seq e"
    | (exact) "he_epoch e = realtime_epoch" "he_seq e = sm_mark x + 1" by linarith
  then show ?thesis
  proof cases
    case exact
    then show ?thesis using hint_step[OF k c a g exact] by (simp add: sm_hint_def)
  qed (use x c a g in \<open>simp_all add: sm_hint_def sm_ok_def sm_core_def sm_at_def at_cursor_def\<close>)
qed

lemma sm_done_ok: "sm_ok fl all s x \<Longrightarrow> sm_ok fl all s (x\<lparr>sm_pc := SmDone\<rparr>)"
  by (auto simp: sm_ok_def sm_core_def sm_at_def unbegun_def at_cursor_def split: stream_pc.splits)

lemma sm_fail_ok: "sm_ok fl all s x \<Longrightarrow> sm_ok fl all s (BrowserStream.sm_fail told x)"
proof -
  assume x: "sm_ok fl all s x"
  have "fr_id error_frame = []" by (simp add: error_frame_def control_def)
  with sm_done_ok[OF x] show ?thesis by (simp add: BrowserStream.sm_fail_def sm_ok_def sm_core_def sm_at_def unbegun_def at_cursor_def)
qed

lemma open_ok: "kept_of all s \<Longrightarrow> sm_ok fl all s (open_stream i cursor public)"
  using inv_start[of 0 s all] by (auto simp: sm_ok_def sm_core_def sm_at_def unbegun_def open_stream_def kept_of_def journal_inv_def)

section \<open>Every run\<close>

definition hub_ok :: "journal_row list \<Rightarrow> hub_event hub \<Rightarrow> bool" where
  "hub_ok all h \<longleftrightarrow> hub_inv h \<and> (\<forall>i. \<forall>e\<in>set (ch_buffer (hb_chan h i)). genuine all e)"

definition rt_inv :: "floats \<Rightarrow> realtime \<Rightarrow> bool" where
  "rt_inv fl x \<longleftrightarrow> kept_of (rt_all x) (rt_db x) \<and> hub_ok (rt_all x) (rt_worker_hub x) \<and> hub_ok (rt_all x) (rt_hub x) \<and>
     pub_ok (rt_all x) (rt_db x) (rt_publisher x) \<and> co_ok (rt_all x) (rt_db x) (rt_coordinator x) \<and>
     wt_ok (rt_all x) (rt_db x) (rt_watcher x) \<and> (\<forall>m\<in>set (rt_streams x). sm_ok fl (rt_all x) (rt_db x) m)"

lemma hub_publish_ok: "hub_ok all h \<Longrightarrow> genuine all e \<Longrightarrow> hub_ok all (publish e h)"
proof -
  assume h: "hub_ok all h" and e: "genuine all e"
  then have i: "hub_inv h" by (simp add: hub_ok_def)
  have "\<forall>e'\<in>set (ch_buffer (hb_chan (publish e h) j)). genuine all e'" for j
    using h e unfolding publish_chan(1)[OF i] by (auto simp: hub_ok_def)
  then show ?thesis using publish_inv[OF i] by (simp add: hub_ok_def)
qed

lemma hub_one_ok: "hub_ok all h \<Longrightarrow> published_one all h h' \<Longrightarrow> hub_ok all h'"
  unfolding published_one_def using hub_publish_ok by blast

lemma hub_rest_ok:
  assumes "hub_ok all h"
  shows "hub_ok all (snd (subscribe h))" "hub_ok all (cancel_subscription i h)"
    "hub_ok all (snd (receive i h))" "receive i h = (Event e, h') \<Longrightarrow> genuine all e"
proof -
  show "hub_ok all (snd (subscribe h))" using assms subscribe_inv by (auto simp: hub_ok_def subscribe_def Let_def)
  show "hub_ok all (cancel_subscription i h)"
  proof -
    have "ch_buffer (hb_chan (cancel_subscription i h) j) = ch_buffer (hb_chan h j)" for j
      by (simp add: cancel_subscription_def close_channel_def)
    then show ?thesis using assms by (simp add: hub_ok_def cancel_inv)
  qed
  have b: "genuine all e" if "e \<in> set (ch_buffer (hb_chan h j))" for e j using assms that by (auto simp: hub_ok_def)
  show "hub_ok all (snd (receive i h))"
  proof (cases "ch_buffer (hb_chan h i)")
    case (Cons e es)
    then have "\<forall>e'\<in>set es. genuine all e'" using b[of _ i] by simp
    moreover have "hub_inv (snd (receive i h))" using assms by (simp add: hub_ok_def receive_inv)
    moreover have "snd (receive i h) = h\<lparr>hb_chan := (hb_chan h)(i := (hb_chan h i)\<lparr>ch_buffer := es\<rparr>)\<rparr>" using Cons by (simp add: receive_def)
    ultimately show ?thesis using b by (simp add: hub_ok_def)
  qed (use assms in \<open>simp add: receive_def\<close>)
  show "receive i h = (Event e, h') \<Longrightarrow> genuine all e"
    using b[of e i] by (auto simp: receive_def split: list.splits if_splits)
qed

lemma hub_grows: "hub_ok all h \<Longrightarrow> grows all s all' s' \<Longrightarrow> hub_ok all' h"
  unfolding hub_ok_def using genuine_grows by blast

lemma rt_grows:
  assumes "rt_inv fl x" "grows (rt_all x) (rt_db x) all s" "kept_of all s"
  shows "rt_inv fl (x\<lparr>rt_db := s, rt_all := all\<rparr>)"
proof -
  have k: "kept_of (rt_all x) (rt_db x)" using assms(1) by (simp add: rt_inv_def)
  show ?thesis
    using assms hub_grows[OF _ assms(2)] pub_grows[OF k _ assms(2)] co_grows[OF k _ assms(2)] wt_grows[OF k _ assms(2)]
      sm_grows[OF k _ assms(2)]
    by (simp add: rt_inv_def)
qed

lemma server_publish_ok: "rt_inv fl x \<Longrightarrow> genuine (rt_all x) e \<Longrightarrow> rt_inv fl (server_publish e x)"
  using hub_publish_ok co_rest_ok(2) by (simp add: rt_inv_def server_publish_def)

lemma streams_ok:
  "rt_inv fl x \<Longrightarrow> sm_ok fl (rt_all x) (rt_db x) m \<Longrightarrow> rt_inv fl (x\<lparr>rt_streams := (rt_streams x)[i := m]\<rparr>)"
  using set_update_subset_insert[of "rt_streams x" i m] by (auto simp: rt_inv_def)

lemma stream_at: "rt_inv fl x \<Longrightarrow> i < length (rt_streams x) \<Longrightarrow> sm_ok fl (rt_all x) (rt_db x) (rt_streams x ! i)"
  by (simp add: rt_inv_def)

lemma gateway_hub_ok: "rt_inv fl x \<Longrightarrow> hub_ok (rt_all x) h \<Longrightarrow> rt_inv fl (x\<lparr>rt_hub := h\<rparr>)"
  by (simp add: rt_inv_def)

lemma rt_step_inv: "rt_step fl x y \<Longrightarrow> rt_inv fl x \<Longrightarrow> rt_inv fl y"
proof (induction rule: rt_step.induct)
  case (commit x ep ty ag pl cr)
  then show ?case
    using rt_grows[OF commit grows_commit kept_commit] by (simp add: rt_inv_def)
next
  case (retention x cutoff)
  have k: "kept_of (rt_all x) (rt_db x)" using retention by (simp add: rt_inv_def)
  show ?case using rt_grows[OF retention grows_shrink[OF delete_shrinks] kept_shrink[OF k delete_shrinks]] by simp
next
  case (announce j x e)
  then show ?case using server_publish_ok unfolding genuine_def by blast
next
  case (sm_receive i x)
  let ?m = "rt_streams x ! i" and ?r = "BrowserStream.sm_receive fl (rt_hub x) (rt_streams x ! i)"
  have k: "kept_of (rt_all x) (rt_db x)" and h: "hub_ok (rt_all x) (rt_hub x)" using sm_receive(3) by (simp_all add: rt_inv_def)
  have m: "sm_ok fl (rt_all x) (rt_db x) ?m" using stream_at[OF sm_receive(3,1)] .
  have "hub_ok (rt_all x) (snd (receive (sm_sub ?m) (rt_hub x)))" by (rule hub_rest_ok(3)[OF h])
  then have "hub_ok (rt_all x) (snd ?r)" by (auto simp: BrowserStream.sm_receive_def split: prod.splits reception.splits)
  moreover have "sm_ok fl (rt_all x) (rt_db x) (fst ?r)"
    using m sm_done_ok[OF m] sm_hint_ok[OF k m sm_receive(2)] hub_rest_ok(4)[OF h]
    by (auto simp: BrowserStream.sm_receive_def split: prod.splits reception.splits)
  ultimately show ?case using streams_ok[OF gateway_hub_ok[OF sm_receive(3)]] by simp
next
  case (sm_fail i x told)
  have h: "hub_ok (rt_all x) (rt_hub x)" using sm_fail(2) by (simp add: rt_inv_def)
  have "sm_ok fl (rt_all x) (rt_db x) (BrowserStream.sm_fail told (rt_streams x ! i))"
    by (rule sm_fail_ok[OF stream_at[OF sm_fail(2,1)]])
  then show ?case using streams_ok[OF gateway_hub_ok[OF sm_fail(2) hub_rest_ok(2)[OF h]]] by simp
next
  case (sm_step i x)
  have k: "kept_of (rt_all x) (rt_db x)" using sm_step(2) by (simp add: rt_inv_def)
  show ?case by (rule streams_ok[OF sm_step(2) sm_step_ok[OF k stream_at[OF sm_step(2,1)]]])
next
  case (sm_open x cursor public)
  then show ?case using hub_rest_ok(1) open_ok by (simp add: rt_inv_def)
next
  case (wt_send x w e)
  have "kept_of (rt_all x) (rt_db x)" "wt_ok (rt_all x) (rt_db x) (rt_watcher x)" using wt_send(2) by (simp_all add: rt_inv_def)
  from wt_ok_steps(5)[OF this wt_send(1)] have "wt_ok (rt_all x) (rt_db x) w \<and> genuine (rt_all x) e" .
  then show ?case using wt_send(2) by (intro server_publish_ok) (simp_all add: rt_inv_def)
next
  case (co_handle x)
  then have "kept_of (rt_all x) (rt_db x)" "co_ok (rt_all x) (rt_db x) (rt_coordinator x)" by (simp_all add: rt_inv_def)
  note c = co_handle_ok[OF this co_handle(1), of "rt_hub x"]
  show ?case using c co_handle(2) hub_one_ok[OF _ conjunct2[OF c]] by (simp add: rt_inv_def with_coordinator_def)
next
  case (co_step x)
  then have "kept_of (rt_all x) (rt_db x)" "co_ok (rt_all x) (rt_db x) (rt_coordinator x)" by (simp_all add: rt_inv_def)
  note c = co_step_ok[OF this, of "rt_hub x"]
  show ?case using c co_step hub_one_ok[OF _ conjunct2[OF c]] by (simp add: rt_inv_def with_coordinator_def)
next
  case (pub_send x)
  then have "pub_ok (rt_all x) (rt_db x) (rt_publisher x)" "kept_of (rt_all x) (rt_db x)" by (simp_all add: rt_inv_def)
  note p = pub_send_ok[OF this(2,1), of "rt_worker_hub x"]
  then have "hub_ok (rt_all x) (snd (Realtime.pub_send (rt_publisher x, rt_worker_hub x)))"
    using pub_send hub_publish_ok by (auto simp: rt_inv_def)
  then show ?case using p pub_send by (simp add: rt_inv_def with_publisher_def)
next
  case (relay_deliver x i e h)
  then have "hub_ok (rt_all x) h" "genuine (rt_all x) e" using hub_rest_ok(3,4)[of "rt_all x" "rt_worker_hub x" i] by (auto simp: rt_inv_def)
  then show ?case using relay_deliver co_rest_ok(2) by (simp add: rt_inv_def)
next
  case (relay_lose x i e h)
  then have "hub_ok (rt_all x) h" using hub_rest_ok(3)[of "rt_all x" "rt_worker_hub x" i] by (auto simp: rt_inv_def)
  then show ?case using relay_lose by (simp add: rt_inv_def)
qed (simp_all add: rt_inv_def pub_init_ok pub_begin_ok pub_read_ok pub_rest_ok co_rest_ok hub_rest_ok wt_ok_steps)

lemma rt_start_inv: "journal_inv s \<Longrightarrow> rt_inv fl (rt_start coordinated s)"
proof -
  assume j: "journal_inv s"
  then have "inj_on j_seq (set (db_journal s))"
    by (auto simp: journal_inv_def strict_sorted_iff distinct_map)
  then have "kept_of (db_journal s) s" using j by (auto simp: kept_of_def journal_inv_def)
  then show ?thesis
    by (simp add: rt_inv_def rt_start_def hub_ok_def new_hub_inv pub_ok_def co_ok_def wt_ok_def new_publisher_def new_coordinator_def
        new_watcher_def) (simp add: new_hub_def)
qed

lemma run_inv: "(rt_step fl)\<^sup>*\<^sup>* x y \<Longrightarrow> rt_inv fl x \<Longrightarrow> rt_inv fl y"
  by (induction rule: rtranclp_induct) (auto intro: rt_step_inv)

lemma stream_feed:
  assumes "rt_inv fl y" "x \<in> set (rt_streams y)"
  shows "\<exists>rows. feed_ok (rt_all y) (rt_db y) (sm_start x) (sm_mark x) rows \<and> list_all2 tells (sm_handled x) rows"
    and "filter (\<lambda>f. fr_id f \<noteq> []) (sm_frames x) = concat (map (frames_of fl (sm_public x)) (sm_handled x))"
    and "unbegun x \<or> at_cursor x"
proof -
  have c: "sm_core fl (rt_all y) (rt_db y) x" and a: "sm_at (rt_all y) (rt_db y) x" using assms by (auto simp: rt_inv_def sm_ok_def)
  show "\<exists>rows. feed_ok (rt_all y) (rt_db y) (sm_start x) (sm_mark x) rows \<and> list_all2 tells (sm_handled x) rows"
    and "filter (\<lambda>f. fr_id f \<noteq> []) (sm_frames x) = concat (map (frames_of fl (sm_public x)) (sm_handled x))"
    using c by (simp_all add: sm_core_def feed_inv_def)
  show "unbegun x \<or> at_cursor x" using a by (cases "sm_pc x") (simp_all add: sm_at_def)
qed

lemma told_seqs: "list_all2 tells es rows \<Longrightarrow> map he_seq es = map j_seq rows"
  by (induction rule: list_all2_induct) (simp_all add: tells_def)

lemma told_member: "list_all2 tells es rows \<Longrightarrow> (\<forall>e\<in>set es. \<exists>j\<in>set rows. tells e j) \<and> (\<forall>j\<in>set rows. \<exists>e\<in>set es. tells e j)"
  by (induction rule: list_all2_induct) auto

text \<open>
  C11.  A browser stream misses nothing and repeats nothing.  In every run of the whole realtime path, whatever is committed,
  deleted by retention, lost on the way from the worker, dropped by a hub or announced twice or out of order: what the stream has
  handled is strictly ascending, each event is a committed row, every row of the journal between
  the start of the stream and its watermark has been handled, and the frames with an id are exactly what the handled
  events come to.
\<close>

theorem stream_misses_nothing:
  assumes "journal_inv s" "(rt_step fl)\<^sup>*\<^sup>* (rt_start coordinated s) y" "x \<in> set (rt_streams y)"
  shows "sorted_wrt (<) (map he_seq (sm_handled x)) \<and>
    (\<forall>e\<in>set (sm_handled x). sm_start x < he_seq e \<and> he_seq e \<le> sm_mark x \<and> (\<exists>j\<in>set (rt_all y). tells e j)) \<and>
    (\<forall>j\<in>set (db_journal (rt_db y)). j_epoch j = realtime_epoch \<and> sm_start x < j_seq j \<and> j_seq j \<le> sm_mark x \<longrightarrow>
       (\<exists>e\<in>set (sm_handled x). tells e j)) \<and>
    filter (\<lambda>f. fr_id f \<noteq> []) (sm_frames x) = concat (map (frames_of fl (sm_public x)) (sm_handled x))"
proof -
  have i: "rt_inv fl y" using run_inv[OF assms(2) rt_start_inv[OF assms(1)]] .
  obtain rows where r: "feed_ok (rt_all y) (rt_db y) (sm_start x) (sm_mark x) rows" "list_all2 tells (sm_handled x) rows"
    using stream_feed(1)[OF i assms(3)] by blast
  have all: "\<forall>j\<in>set (db_journal (rt_db y)). j_epoch j = realtime_epoch \<and> sm_start x < j_seq j \<and> j_seq j \<le> sm_mark x \<longrightarrow>
      (\<exists>e\<in>set (sm_handled x). tells e j)"
  proof (intro ballI impI)
    fix j assume "j \<in> set (db_journal (rt_db y))" "j_epoch j = realtime_epoch \<and> sm_start x < j_seq j \<and> j_seq j \<le> sm_mark x"
    then have "j \<in> set rows" using r(1) by (auto simp: feed_ok_def missing_def of_epoch_def)
    then show "\<exists>e\<in>set (sm_handled x). tells e j" using told_member[OF r(2)] by blast
  qed
  have true: "\<forall>e\<in>set (sm_handled x). sm_start x < he_seq e \<and> he_seq e \<le> sm_mark x \<and> (\<exists>j\<in>set (rt_all y). tells e j)"
  proof
    fix e assume "e \<in> set (sm_handled x)"
    then obtain j where j: "j \<in> set rows" "tells e j" using told_member[OF r(2)] by blast
    moreover have "j \<in> set (rt_all y)" "sm_start x < j_seq j" "j_seq j \<le> sm_mark x" using j(1) r(1) by (simp_all add: feed_ok_def)
    ultimately show "sm_start x < he_seq e \<and> he_seq e \<le> sm_mark x \<and> (\<exists>j\<in>set (rt_all y). tells e j)"
      using tells_def[of e j] by auto
  qed
  have "sorted_wrt (<) (map he_seq (sm_handled x))" using r(1) told_seqs[OF r(2)] by (simp add: feed_ok_def)
  from this true all stream_feed(2)[OF i assms(3)] show ?thesis by (intro conjI)
qed

lemma parse_entry_id: "0 \<le> n \<Longrightarrow> n \<le> max_int64 \<Longrightarrow> parse_cursor (entry_id realtime_epoch n) = Some n"
  using int_text_parse[of n]
  by (simp add: parse_cursor_def entry_id_def has_prefix_def realtime_epoch_def min_int64_def)

text \<open>
  C12.  Reconnecting loses nothing: when a browser comes back with the id of any event that an earlier stream handled,
  every retained row between the start of the first stream and the watermark of the second has been handled
  by one of the two, and what the second handled lies behind that event.
\<close>

theorem reconnect_misses_nothing:
  assumes "journal_inv s" "(rt_step fl)\<^sup>*\<^sup>* (rt_start coordinated s) y" "x \<in> set (rt_streams y)" "x' \<in> set (rt_streams y)"
    and "e \<in> set (sm_handled x)" "0 \<le> he_seq e" "he_seq e \<le> max_int64" "sm_cursor x' = entry_id realtime_epoch (he_seq e)"
  shows "(\<forall>j\<in>set (db_journal (rt_db y)). j_epoch j = realtime_epoch \<and> sm_start x < j_seq j \<and> j_seq j \<le> sm_mark x' \<longrightarrow>
      (\<exists>d\<in>set (sm_handled x) \<union> set (sm_handled x'). tells d j)) \<and>
    (\<forall>d\<in>set (sm_handled x'). he_seq e < he_seq d)"
proof -
  have i: "rt_inv fl y" using run_inv[OF assms(2) rt_start_inv[OF assms(1)]] .
  obtain rows where r: "feed_ok (rt_all y) (rt_db y) (sm_start x) (sm_mark x) rows" "list_all2 tells (sm_handled x) rows"
    using stream_feed(1)[OF i assms(3)] by blast
  obtain rows' where r': "feed_ok (rt_all y) (rt_db y) (sm_start x') (sm_mark x') rows'" "list_all2 tells (sm_handled x') rows'"
    using stream_feed(1)[OF i assms(4)] by blast
  have e: "he_seq e \<le> sm_mark x" using told_member[OF r(2)] assms(5) r(1) by (fastforce simp: feed_ok_def tells_def)
  have "parse_cursor (sm_cursor x') = Some (he_seq e)" "sm_cursor x' \<noteq> []"
    using assms(6,7,8) parse_entry_id by (simp_all add: entry_id_def realtime_epoch_def)
  then have at: "unbegun x' \<or> sm_start x' = he_seq e" using stream_feed(3)[OF i assms(4)] by (auto simp: at_cursor_def)
  have "\<exists>d\<in>set (sm_handled x) \<union> set (sm_handled x'). tells d j"
    if j: "j \<in> set (db_journal (rt_db y))" "j_epoch j = realtime_epoch" "sm_start x < j_seq j" "j_seq j \<le> sm_mark x'" for j
  proof (cases "j_seq j \<le> he_seq e")
    case True
    then have "j \<in> set rows" using r(1) e j by (auto simp: feed_ok_def missing_def of_epoch_def)
    then show ?thesis using told_member[OF r(2)] by blast
  next
    case False
    have "0 < j_seq j" using i j(1) by (auto simp: rt_inv_def kept_of_def journal_inv_def)
    then have "sm_start x' = he_seq e" using at j(4) by (auto simp: unbegun_def)
    then have "j \<in> set rows'" using r'(1) False j by (auto simp: feed_ok_def missing_def of_epoch_def)
    then show ?thesis using told_member[OF r'(2)] by blast
  qed
  moreover have "he_seq e < he_seq d" if "d \<in> set (sm_handled x')" for d
  proof -
    have "sm_start x' < he_seq d" using told_member[OF r'(2)] that r'(1) by (fastforce simp: feed_ok_def tells_def)
    moreover have "sm_start x' = he_seq e" using at that by (auto simp: unbegun_def)
    ultimately show ?thesis by simp
  qed
  ultimately show ?thesis by blast
qed

text \<open>
  C13.  The public stream keeps what is private: whatever the payload, it writes nothing, or a credit whose members are among
  the sixteen public ones, or the bare revision of the voice settings.
\<close>

theorem public_frames:
  "frames_of fl True e = [] \<or>
   (\<exists>data. frames_of fl True e = [\<lparr>fr_id = entry_id (he_epoch e) (he_seq e), fr_event = credit_type, fr_data = data\<rparr>] \<and>
     (data = json_text JNull \<or> (\<exists>kvs. data = json_text (JObj kvs) \<and> fst ` set kvs \<subseteq> set public_keys))) \<or>
   (\<exists>n. frames_of fl True e = [\<lparr>fr_id = entry_id (he_epoch e) (he_seq e), fr_event = voice_type,
     fr_data = json_text (JObj [(''revision'', JNum (int_text n))])\<rparr>] \<and> 0 < n)"
proof (cases "he_type e = credit_type")
  case True
  have "data = json_text JNull \<or> (\<exists>kvs. data = json_text (JObj kvs) \<and> fst ` set kvs \<subseteq> set public_keys)"
    if "public_credit fl (he_payload e) = Some data" for data
  proof (cases "unmarshal_map fl (he_payload e)")
    case (Some m)
    then show ?thesis
    proof (cases m)
      case (Some kvs)
      then have "data = json_text (JObj (filter (\<lambda>kv. fst kv \<in> set public_keys) kvs))"
        using that \<open>unmarshal_map fl (he_payload e) = Some m\<close> by (simp add: public_credit_def)
      then show ?thesis by (intro disjI2 exI conjI) (assumption, auto)
    qed (use that in \<open>simp add: public_credit_def\<close>)
  qed (use that in \<open>simp add: public_credit_def\<close>)
  then show ?thesis
    using True by (cases "public_credit fl (he_payload e)") (auto simp: frames_of_def allowed_event_def write_entry_def)
next
  case credit: False
  show ?thesis
  proof (cases "he_type e = voice_type")
    case True
    have "\<exists>n. data = json_text (JObj [(''revision'', JNum (int_text n))]) \<and> 0 < n" if "public_voice fl (he_payload e) = Some data" for data
      using that unfolding public_voice_def by (auto split: option.splits jval.splits if_splits)
    then show ?thesis
      using True credit by (cases "public_voice fl (he_payload e)") (auto simp: frames_of_def allowed_event_def write_entry_def)
  qed (use credit in \<open>simp add: frames_of_def allowed_event_def\<close>)
qed

section \<open>Instances\<close>

text \<open>A browser connects, an event is committed and announced, it is shown; the browser comes back with its id.\<close>

definition sample_row :: journal_row where
  "sample_row = \<lparr>j_seq = 1, j_epoch = ''ep1'', j_type = ''voice'', j_aggregate = ''a'', j_payload = ''{}'', j_created = ''t''\<rparr>"

definition stepped :: "floats \<Rightarrow> nat \<Rightarrow> realtime \<Rightarrow> realtime" where
  "stepped fl i x = x\<lparr>rt_streams := (rt_streams x)[i := BrowserStream.sm_step fl (rt_db x) (rt_streams x ! i)]\<rparr>"

definition opened :: "string \<Rightarrow> realtime \<Rightarrow> realtime" where
  "opened cursor x = x\<lparr>rt_hub := snd (subscribe (rt_hub x)), rt_streams := rt_streams x @ [open_stream (fst (subscribe (rt_hub x))) cursor False]\<rparr>"

definition sample_live :: stream where
  "sample_live = (open_stream 1 [] False)\<lparr>sm_frames := [initial_frame 0], sm_pc := SmLive\<rparr>"

definition sample_shown :: stream where
  "sample_shown = sample_live\<lparr>sm_mark := 1, sm_handled := [event_of sample_row],
     sm_frames := [initial_frame 0, \<lparr>fr_id = ''ep1:1'', fr_event = ''voice'', fr_data = ''{}''\<rparr>]\<rparr>"

definition sample_db1 :: db where
  "sample_db1 = append_journal ''ep1'' ''voice'' ''a'' ''{}'' ''t'' (initial_db [])"

lemma sample_journal: "db_journal sample_db1 = [sample_row]" "db_journal_seq sample_db1 = 1" "journal_inv (initial_db [])"
  by (simp_all add: sample_db1_def append_journal_def Let_def sample_row_def journal_inv_def)

lemma sample_entry: "entry_id realtime_epoch 1 = ''ep1:1''"
  by code_simp

lemma stepped_run: "(rt_step fl)\<^sup>*\<^sup>* z x \<Longrightarrow> i < length (rt_streams x) \<Longrightarrow> (rt_step fl)\<^sup>*\<^sup>* z (stepped fl i x)"
  unfolding stepped_def by (erule rtranclp.rtrancl_into_rtrancl) (erule rt_step.sm_step)

lemma opened_run: "(rt_step fl)\<^sup>*\<^sup>* z x \<Longrightarrow> (rt_step fl)\<^sup>*\<^sup>* z (opened cursor x)"
  unfolding opened_def by (erule rtranclp.rtrancl_into_rtrancl) (rule rt_step.sm_open)

lemma sample_live_run:
  "\<exists>y. (rt_step fl)\<^sup>*\<^sup>* (rt_start False (initial_db [])) y \<and> rt_streams y = [sample_live] \<and> rt_db y = initial_db [] \<and> rt_all y = [] \<and>
    \<not> rt_coordinated y \<and> rt_hub y = snd (subscribe new_hub)"
proof -
  let ?a = "opened [] (rt_start False (initial_db []))"
  let ?y = "stepped fl 0 (stepped fl 0 (stepped fl 0 ?a))"
  have "(rt_step fl)\<^sup>*\<^sup>* (rt_start False (initial_db [])) ?y"
    by (intro stepped_run opened_run) (simp_all add: stepped_def opened_def)
  moreover have "rt_streams ?y = [sample_live] \<and> rt_db ?y = initial_db [] \<and> rt_all ?y = [] \<and>
      \<not> rt_coordinated ?y \<and> rt_hub ?y = snd (subscribe new_hub)"
    by (simp add: stepped_def opened_def rt_start_def open_stream_def sm_step_def sm_begin_def get_max_journal_seq_def
        read_journal_events_def full_batch_def batch_size_def subscribe_def new_hub_def sample_live_def Let_def)
  ultimately show ?thesis by blast
qed

lemma sample_shown_run:
  "\<exists>y. (rt_step fl)\<^sup>*\<^sup>* (rt_start False (initial_db [])) y \<and> rt_streams y = [sample_shown] \<and> rt_db y = sample_db1 \<and> rt_all y = [sample_row]"
proof -
  obtain a where a: "(rt_step fl)\<^sup>*\<^sup>* (rt_start False (initial_db [])) a" "rt_streams a = [sample_live]" "rt_db a = initial_db []" "rt_all a = []"
    "\<not> rt_coordinated a" "rt_hub a = snd (subscribe new_hub)" using sample_live_run by blast
  let ?b = "a\<lparr>rt_db := append_journal ''ep1'' ''voice'' ''a'' ''{}'' ''t'' (rt_db a),
      rt_all := rt_all a @ [commit_row ''ep1'' ''voice'' ''a'' ''{}'' ''t'' (rt_db a)]\<rparr>"
  have row: "commit_row ''ep1'' ''voice'' ''a'' ''{}'' ''t'' (initial_db []) = sample_row"
    by (simp add: commit_row_def append_journal_def Let_def sample_row_def)
  have b: "rt_all ?b = [sample_row]" "rt_db ?b = sample_db1" "rt_streams ?b = [sample_live]" "\<not> rt_coordinated ?b"
    "rt_hub ?b = snd (subscribe new_hub)"
    using a(2-6) row by (simp_all add: sample_db1_def)
  let ?c = "server_publish (event_of sample_row) ?b"
  have c: "rt_all ?c = [sample_row]" "rt_db ?c = sample_db1" "rt_streams ?c = [sample_live]"
    "rt_hub ?c = publish (event_of sample_row) (snd (subscribe new_hub))"
    using b by (simp_all add: server_publish_def)
  let ?d = "?c\<lparr>rt_hub := snd (BrowserStream.sm_receive fl (rt_hub ?c) (rt_streams ?c ! 0)),
      rt_streams := (rt_streams ?c)[0 := fst (BrowserStream.sm_receive fl (rt_hub ?c) (rt_streams ?c ! 0))]\<rparr>"
  have sb: "rt_step fl a ?b" by (rule rt_step.commit)
  have sc: "rt_step fl ?b ?c" by (rule rt_step.announce[of sample_row]) (simp_all only: b, simp_all)
  have sd: "rt_step fl ?c ?d" by (rule rt_step.sm_receive) (simp_all only: c, simp_all add: sample_live_def open_stream_def)
  have run: "(rt_step fl)\<^sup>*\<^sup>* (rt_start False (initial_db [])) ?d"
    using a(1) sb sc sd by (meson rtranclp.rtrancl_into_rtrancl)
  obtain h where got: "receive (sm_sub sample_live) (publish (event_of sample_row) (snd (subscribe new_hub))) = (Event (event_of sample_row), h)"
    by (simp add: receive_def publish_def offer_def subscribe_def new_hub_def Let_def hub_capacity_def sample_live_def open_stream_def)
  have "sm_hint fl (event_of sample_row) sample_live = sample_shown"
    using sample_entry
    by (simp add: sample_live_def open_stream_def sm_hint_def handle_event_def write_entry_def allowed_event_def sample_shown_def
        event_of_def sample_row_def realtime_epoch_def)
  then have "fst (BrowserStream.sm_receive fl (publish (event_of sample_row) (snd (subscribe new_hub))) sample_live) = sample_shown"
    by (simp add: BrowserStream.sm_receive_def got)
  then have "rt_streams ?d = [sample_shown]" "rt_db ?d = sample_db1" "rt_all ?d = [sample_row]" using c by simp_all
  with run show ?thesis by blast
qed

lemma stream_misses_nothing_witness:
  "\<forall>fl. \<exists>y x. (rt_step fl)\<^sup>*\<^sup>* (rt_start False (initial_db [])) y \<and> x \<in> set (rt_streams y) \<and> sm_handled x = [event_of sample_row] \<and>
    tells (event_of sample_row) sample_row \<and> filter (\<lambda>f. fr_id f \<noteq> []) (sm_frames x) = frames_of fl (sm_public x) (event_of sample_row)"
  (is "\<forall>fl. ?P fl")
proof
  fix fl
  obtain y where y: "(rt_step fl)\<^sup>*\<^sup>* (rt_start False (initial_db [])) y" "rt_streams y = [sample_shown]"
    using sample_shown_run by blast
  have m: "sample_shown \<in> set (rt_streams y)" by (simp add: y(2))
  have h: "sm_handled sample_shown = [event_of sample_row]" by (simp add: sample_shown_def)
  from stream_misses_nothing[OF sample_journal(3) y(1) m] y(1) m h show "?P fl" by (intro exI[of _ y] exI[of _ sample_shown]) simp
qed

lemma reconnect_misses_nothing_witness:
  "\<forall>fl. \<exists>y x x'. (rt_step fl)\<^sup>*\<^sup>* (rt_start False (initial_db [])) y \<and> {x, x'} \<subseteq> set (rt_streams y) \<and> sm_cursor x' = ''ep1:1'' \<and>
    (\<exists>d\<in>set (sm_handled x) \<union> set (sm_handled x'). tells d sample_row)"
  (is "\<forall>fl. ?P fl")
proof
  fix fl
  obtain y where y: "(rt_step fl)\<^sup>*\<^sup>* (rt_start False (initial_db [])) y" "rt_streams y = [sample_shown]" "rt_db y = sample_db1"
    using sample_shown_run by blast
  let ?z = "stepped fl 1 (stepped fl 1 (opened ''ep1:1'' y))"
  let ?x = "sm_check sample_db1 1 1 (sm_begin sample_db1 (open_stream (fst (subscribe (rt_hub y))) ''ep1:1'' False))"
  have run: "(rt_step fl)\<^sup>*\<^sup>* (rt_start False (initial_db [])) ?z"
    by (intro stepped_run opened_run y(1)) (simp_all add: stepped_def opened_def y(2))
  have p: "parse_cursor ''ep1:1'' = Some 1"
    using parse_entry_id[of 1] sample_entry by (simp add: max_int64_def)
  have mm: "get_max_journal_seq realtime_epoch sample_db1 = 1" "get_min_journal_seq realtime_epoch sample_db1 = 1"
    by (simp_all add: get_max_journal_seq_def get_min_journal_seq_def sample_journal sample_row_def epoch_or_default_def realtime_epoch_def)
  have z: "rt_streams ?z = [sample_shown, ?x]" "rt_db ?z = sample_db1"
    using p mm by (simp_all add: stepped_def opened_def y(2,3) open_stream_def sm_step_def sm_begin_def sm_check_def)
  have x: "sm_mark ?x = 1" "sm_cursor ?x = ''ep1:1''" using p mm by (simp_all add: open_stream_def sm_begin_def sm_check_def)
  have s: "sm_handled sample_shown = [event_of sample_row]" "sm_start sample_shown = 0"
    by (simp_all add: sample_shown_def sample_live_def open_stream_def)
  have m: "sample_shown \<in> set (rt_streams ?z)" "?x \<in> set (rt_streams ?z)" unfolding z(1) by simp_all
  have e: "event_of sample_row \<in> set (sm_handled sample_shown)" "0 \<le> he_seq (event_of sample_row)" "he_seq (event_of sample_row) \<le> max_int64"
    "sm_cursor ?x = entry_id realtime_epoch (he_seq (event_of sample_row))"
    using sample_entry by (simp_all add: s x sample_row_def max_int64_def)
  have "sample_row \<in> set (db_journal (rt_db ?z))" "j_epoch sample_row = realtime_epoch" "j_seq sample_row = 1"
    unfolding z(2) sample_journal by (simp_all, simp_all add: sample_row_def realtime_epoch_def)
  with reconnect_misses_nothing[OF sample_journal(3) run m e] s(2) x(1)
  have "\<exists>d\<in>set (sm_handled sample_shown) \<union> set (sm_handled ?x). tells d sample_row" by simp
  then show "?P fl" using run m x(2) by (intro exI[of _ ?z] exI[of _ sample_shown] exI[of _ ?x]) simp
qed

section \<open>The publisher catches up\<close>

lemma sends_all:
  assumes "sorted_wrt (<) (map j_seq rows)" "\<forall>j\<in>set rows. jp_cursor p < j_seq j" "rows \<noteq> []" "jp_pc p = PubSend rows full"
  shows "(pub_send ^^ length rows) (p, h) =
    (p\<lparr>jp_cursor := j_seq (last rows), jp_out := jp_out p @ map event_of rows, jp_pc := PubIdle, jp_wake := full \<or> jp_wake p\<rparr>,
     fold publish (map event_of rows) h)"
  using assms
proof (induction rows arbitrary: p h)
  case (Cons j rows)
  let ?p = "p\<lparr>jp_cursor := j_seq j, jp_out := jp_out p @ [event_of j], jp_pc := (if rows = [] then PubIdle else PubSend rows full),
      jp_wake := (rows = [] \<and> full \<or> jp_wake p)\<rparr>"
  have s: "pub_send (p, h) = (?p, publish (event_of j) h)" using Cons.prems by (simp add: pub_send_def)
  have "(pub_send ^^ length (j # rows)) (p, h) = (pub_send ^^ length rows) (?p, publish (event_of j) h)"
    by (simp add: funpow_swap1 s)
  also have "\<dots> = (p\<lparr>jp_cursor := j_seq (last (j # rows)), jp_out := jp_out p @ map event_of (j # rows), jp_pc := PubIdle, jp_wake := full \<or> jp_wake p\<rparr>,
     fold publish (map event_of (j # rows)) h)"
  proof (cases "rows = []")
    case False
    then show ?thesis using Cons.prems by (subst Cons.IH) auto
  qed simp
  finally show ?case .
qed simp

definition pending_rows :: "db \<Rightarrow> int \<Rightarrow> journal_row list" where
  "pending_rows s c = filter (\<lambda>j. of_epoch j \<and> c < j_seq j) (db_journal s)"

lemma pending_skip: "kept_of all s \<Longrightarrow> pending_rows s (caught_up s c) = pending_rows s c"
proof -
  assume k: "kept_of all s"
  have "c < j_seq j \<longleftrightarrow> caught_up s c < j_seq j" if "j \<in> set (db_journal s)" "of_epoch j" for j
  proof (cases "caught_up s c = c")
    case False
    then have u: "caught_up s c = get_min_journal_seq realtime_epoch s - 1" "c < caught_up s c" "0 < get_min_journal_seq realtime_epoch s"
      by (auto simp: caught_up_def Let_def split: if_splits)
    then have "j \<notin> missing s c (caught_up s c)" using min_seq(2)[OF k u(3), of c] by simp
    then show ?thesis using that u(2) by (auto simp: missing_def)
  qed simp
  then show ?thesis unfolding pending_rows_def by (intro filter_cong) auto
qed

lemma pending_rest:
  assumes "kept_of all s" "take n (pending_rows s c) \<noteq> []"
  shows "pending_rows s (j_seq (last (take n (pending_rows s c)))) = drop n (pending_rows s c)"
proof -
  have s: "sorted_wrt (<) (map j_seq (pending_rows s c))"
    using assms(1) by (auto simp: pending_rows_def kept_of_def journal_inv_def sorted_wrt_map sorted_wrt_filter)
  have c: "c < j_seq (last (take n (pending_rows s c)))"
  proof -
    have "last (take n (pending_rows s c)) \<in> set (pending_rows s c)" by (rule in_set_takeD[OF last_in_set[OF assms(2)]])
    then show ?thesis by (simp add: pending_rows_def)
  qed
  have "filter (\<lambda>j. j_seq (last (take n xs)) < j_seq j) xs = drop n xs"
    if "sorted_wrt (<) (map j_seq xs)" "take n xs \<noteq> []" for xs
  proof -
    let ?a = "take n xs" and ?b = "drop n xs"
    have ab: "\<forall>x\<in>set ?a. \<forall>y\<in>set ?b. j_seq x < j_seq y"
      using that(1) append_take_drop_id[of n xs] by (metis sorted_wrt_append sorted_wrt_map)
    have "j_seq x \<le> j_seq (last ?a)" if "x \<in> set ?a" for x
    proof -
      have "sorted_wrt (<) (map j_seq ?a)" using \<open>sorted_wrt (<) (map j_seq xs)\<close> by (simp add: take_map[symmetric] sorted_wrt_take)
      then have "sorted_wrt (<) (map j_seq (butlast ?a @ [last ?a]))" using \<open>take n xs \<noteq> []\<close> by simp
      then have "\<forall>x\<in>set (butlast ?a). j_seq x < j_seq (last ?a)" by (simp add: sorted_wrt_append)
      moreover have "set ?a = set (butlast ?a) \<union> {last ?a}"
        using append_butlast_last_id[OF \<open>take n xs \<noteq> []\<close>] by (metis list.set(1) list.simps(15) set_append)
      ultimately show ?thesis using that by fastforce
    qed
    then have "filter (\<lambda>j. j_seq (last ?a) < j_seq j) ?a = []" by (fastforce simp: filter_empty_conv)
    moreover have "filter (\<lambda>j. j_seq (last ?a) < j_seq j) ?b = ?b"
      using ab last_in_set[OF \<open>take n xs \<noteq> []\<close>] by (simp add: filter_id_conv)
    ultimately show ?thesis by (metis append_take_drop_id filter_append self_append_conv2)
  qed
  note rest = this[OF s assms(2)]
  have "pending_rows s d = filter (\<lambda>j. d < j_seq j) (pending_rows s c)" if "c < d" for d
    unfolding pending_rows_def filter_filter using that by (intro filter_cong) auto
  from this[OF c] rest show ?thesis by simp
qed

lemma process_step:
  assumes "kept_of all s" "jp_pc p = PubIdle"
  shows "\<exists>p'. pub_process s (p, h) = (p', fold publish (map event_of (take 250 (pending_rows s (jp_cursor p)))) h) \<and>
    jp_pc p' = PubIdle \<and> jp_out p' = jp_out p @ map event_of (take 250 (pending_rows s (jp_cursor p))) \<and>
    pending_rows s (jp_cursor p') = drop 250 (pending_rows s (jp_cursor p))"
proof -
  let ?q = "pub_begin (Some s) True p" and ?R = "take 250 (pending_rows s (jp_cursor p))"
  have c: "jp_cursor ?q = caught_up s (jp_cursor p)" "jp_out ?q = jp_out p" by (simp_all add: pub_begin_def)
  have r: "journal_read (jp_cursor ?q) batch_size s = ?R"
    using read_rows[of s "jp_cursor ?q" batch_size] pending_skip[OF assms(1), of "jp_cursor p"] assms(1) c
    by (simp add: kept_of_def pending_rows_def journal_limit_def batch_size_def)
  show ?thesis
  proof (cases "?R = []")
    case True
    then show ?thesis
      using r c pending_skip[OF assms(1), of "jp_cursor p"] by (simp add: pub_process_def pub_read_def Let_def)
  next
    case False
    let ?p = "pub_read s ?q" and ?f = "full_batch batch_size ?R"
    have p: "jp_pc ?p = PubSend ?R ?f" "jp_cursor ?p = jp_cursor ?q" "jp_out ?p = jp_out p"
      using False r c by (simp_all add: pub_read_def Let_def)
    have "batch_ok all s (jp_cursor ?q) ?R" using read_batch[OF assms(1), of "jp_cursor ?q" batch_size] r by simp
    then have "sorted_wrt (<) (map j_seq ?R)" "\<forall>j\<in>set ?R. jp_cursor ?p < j_seq j" using p(2) by (auto simp: batch_ok_def)
    from sends_all[OF this False p(1), of h] pending_rest[OF assms(1) False] p show ?thesis
      by (simp add: pub_process_def Let_def)
  qed
qed

text \<open>
  C15.  The publisher catches up: when nothing is committed meanwhile, \<open>n\<close> rounds publish, in order and each once, all
  of up to \<open>250 n\<close> rows that are pending behind its cursor, and none is left.
\<close>

theorem publisher_catches_up:
  assumes "kept_of all s" "jp_pc p = PubIdle" "length (pending_rows s (jp_cursor p)) \<le> 250 * n"
  shows "\<exists>p'. (pub_process s ^^ n) (p, h) = (p', fold publish (map event_of (pending_rows s (jp_cursor p))) h) \<and>
    jp_pc p' = PubIdle \<and> jp_out p' = jp_out p @ map event_of (pending_rows s (jp_cursor p)) \<and> pending_rows s (jp_cursor p') = []"
  using assms(2,3)
proof (induction n arbitrary: p h)
  case (Suc n)
  obtain p1 where p1: "pub_process s (p, h) = (p1, fold publish (map event_of (take 250 (pending_rows s (jp_cursor p)))) h)"
    "jp_pc p1 = PubIdle" "jp_out p1 = jp_out p @ map event_of (take 250 (pending_rows s (jp_cursor p)))"
    "pending_rows s (jp_cursor p1) = drop 250 (pending_rows s (jp_cursor p))"
    using process_step[OF assms(1) Suc.prems(1)] by blast
  have "length (pending_rows s (jp_cursor p1)) \<le> 250 * n" using Suc.prems(2) p1(4) by simp
  from Suc.IH[OF p1(2) this, of "fold publish (map event_of (take 250 (pending_rows s (jp_cursor p)))) h"]
  obtain p' where "(pub_process s ^^ n) (p1, fold publish (map event_of (take 250 (pending_rows s (jp_cursor p)))) h) =
      (p', fold publish (map event_of (drop 250 (pending_rows s (jp_cursor p)))) (fold publish (map event_of (take 250 (pending_rows s (jp_cursor p)))) h))"
    "jp_pc p' = PubIdle" "jp_out p' = jp_out p1 @ map event_of (drop 250 (pending_rows s (jp_cursor p)))" "pending_rows s (jp_cursor p') = []"
    unfolding p1(4) by blast
  moreover have "fold publish (map event_of (drop 250 xs)) (fold publish (map event_of (take 250 xs)) h) = fold publish (map event_of xs) h" for xs
    by (metis append_take_drop_id comp_apply fold_append map_append)
  moreover have "map event_of (take 250 xs) @ map event_of (drop 250 xs) = map event_of xs" for xs
    by (metis append_take_drop_id map_append)
  ultimately show ?case using p1(1,3) by (simp add: funpow_swap1)
qed simp

lemma publisher_catches_up_witness:
  "\<exists>p'. (pub_process sample_db1 ^^ 1) (new_publisher, new_hub) = (p', publish (event_of sample_row) new_hub) \<and> pending_rows sample_db1 (jp_cursor p') = []"
proof -
  have p: "pending_rows sample_db1 0 = [sample_row]"
    by (simp add: pending_rows_def sample_journal sample_row_def of_epoch_def realtime_epoch_def)
  have k: "kept_of [sample_row] sample_db1"
    using sample_journal(3) append_journal_inv[of "initial_db []"] by (simp add: kept_of_def sample_journal sample_db1_def[symmetric] sample_row_def) (metis sample_db1_def)
  show ?thesis
    using publisher_catches_up[OF k, of new_publisher 1 new_hub] p by (auto simp: new_publisher_def)
qed

end
