(* ===== verification/Spec2Isabelle.thy ===== *)
theory Spec2Isabelle
  imports SePayLaws GateLaws Dispatch DispatchLife Webhook PaySystem RealtimeSystem
begin

text \<open>
  Verification development of the payment gateway (the Go program under \<open>src/\<close>).

  The program.  A gateway takes payments in two ways.  payOS orders: an operator or a payer creates an order
  (internal/payments), payOS makes a payment link, its callbacks and the answers to Get settle the order, a
  reconciler repairs what got lost.  SePay notifications: a Telegram bot and a signed webhook report bank
  transfers (internal/sepay), each of which is kept as evidence and credited at most once.  A committed payment
  is an event with an entry in the ordered journal and one delivery per active endpoint; a dispatcher
  (internal/notification) claims the deliveries and sends them through Bark or as signed webhooks.  All state is
  one SQLite database (internal/storage) shared by a gateway and a worker process; a deployment gate stops
  the writes that start new work while a deployment holds it.

  How it is modelled.  The database is the record \<open>db\<close> of its tables (Schema); a store function is a function
  from the environment (\<open>env\<close>: clock, random draws, the digest) and the database to its result and the
  database, a transaction \<open>run_tx\<close> keeps the old database when its body fails.  Go's \<open>(value, error)\<close> is a sum,
  an \<open>error\<close> a constructor of \<open>err\<close> or \<open>svc_err\<close>, a panic the result \<open>Panic\<close> of Crypto.  Strings are their bytes.
  Times are kept the way the code keeps them, as text: RFC3339Nano with its trimmed fraction, compared as text
  where the SQL does so, or seconds text.  Histories of store calls are folds of a call datatype; the locale
  \<open>call_machine\<close> (Prelude) carries an invariant through every history and is interpreted on each store
  component.  Operations that talk to the outside are jobs (Jobs): trees of atomic actions on the shared world and questions,
  run interleaved with any other jobs and with any answers; the locale \<open>job_rules\<close> proves what a run keeps
  from what each job guarantees and is interpreted on the payment service.

  The theories.
    Prelude, GoTime, GoText, GoEncoding, GoJson, GoJsonLaws, GoNet: the sums, transactions and call
      histories; what the program uses of time, strings, base64, encoding/json (printing and reading back), net
      and net/url.
    Schema: the tables of internal/storage (storage.go and its migrations), \<open>env\<close>, \<open>err\<close>.
    BankDate: internal/bankdate/date.go.
    Gate: deployment_control.go, the mutation gate and the admission check (\<open>check_mutation_allowed\<close>).
    GateLaws: every store operation that asks the gate, and what it does while another token holds the gate.
    PaymentOrders, Paging: payment_orders.go, queries.go: reservation, operation leases, completion, due orders, listing;
      the locale \<open>cursor_paging\<close> is the contract of the cursors.
    Events, Deliveries: events.go, journal.go, deliveries.go: emission, fan-out, the claims and verdicts of
      the queue.
    Settlement: settlement.go, payos_receipts.go: the inbox of callbacks and \<open>SettlePayment\<close>; \<open>callbacks_kept\<close>
      says which callbacks of the inbox a call may mark as processed.
    Crypto, Channels: internal/security/crypto.go (keyring, envelopes, AES-GCM an argument) and
      notifications.go (channels, their sealed secrets, the target of a delivery).
    ProviderConfig: payment_provider_config.go: sealed credentials, admissions, request slots.
    SePay, SePayLaws: sepay.go, sepay_config.go: evidence, decisions, credits, reviews, settings.
    Dispatch, DispatchLife: internal/notification: one dispatch, the registry, the waits, and a specification in terms
      of mails and answers (\<open>mails\<close>, \<open>judged\<close>) that the dispatcher refines; the lock of pause and drain as a step
      relation.
    Webhook: internal/webhook, internal/security/url.go: signatures, the dialer, the verdict of a send.
    PayRules, PayService: internal/payments: the decisions without state, and every entry point of the service as a job.
    Feed, Realtime, BrowserStream, RealtimeSystem: internal/eventhub/hub.go; the journal publisher
      (internal/realtimestream/journal_publisher.go), the coordinator and the watcher of the gateway
      (internal/httpapi/realtime_coordinator.go, realtime.go); the event stream of one browser (sse.go); and all of them
      as one step relation over the shared journal.
    PayBooks, PayLaws, PaySamples, PaySystem: what the store calls do to the books, what each job guarantees,
      sample runs, and the theorems about the whole service.

  What is shown.  Money: settling and ingesting keep receipts, paid orders and credits in one-to-one
  correspondence, nothing is settled or credited twice, events are emitted once (Settlement, SePayLaws,
  Events), and all this in every interleaving of the payment service, where in addition an order closes only on
  the provider's word, a callback is acknowledged only when it is durable and no second link is created
  blindly (PaySystem).  Exclusion: order leases, delivery claims and provider admissions exclude each
  other's holders for their time (PaymentOrders, Deliveries, ProviderConfig), and the operations that ask the
  deployment gate change nothing while another token holds it (GateLaws; the delivery queue, the recording of attempts
  and of activity do not ask it).  Delivery: a claim takes the oldest due delivery, one dispatch is determined in its whole
  effect by the answer of the channel, a delivery gets one answer per attempt until it is sent or the retry budget
  of answers is spent, and drained stays drained (a delivery whose worker dies before it writes its verdict is claimed
  again when its lease is over, which costs no answer).
  Realtime: in every interleaving of commits, retention, publisher, coordinator, hubs and streams a browser sees every
  retained row behind its cursor once and in order, also across reconnections, and the public stream only public
  members (Feed, RealtimeSystem); what the hubs and the worker's stream lose, the journal gives back.
  Round trips and equivalences: JSON, envelopes, dates, cursors, signatures, the public-address test.  Three
  theorems are about flaws, named in the findings of the manifest.

  Bounds.  Clocks are between 1970 and the year 9999 where formatted times are read back (\<open>clock_ok\<close>); the runs
  of PaySystem assume clocks below \<open>horizon\<close>, 240000000000 seconds, so that leases and expiries stay inside that range, and
  retry delays of the provider below 2^63 nanoseconds, which is what Go's \<open>Duration\<close> holds.
  Numbers kept as \<open>int64\<close> by the code are \<open>int\<close> with the range checks the code makes; addresses are bytes
  (\<open>8 word\<close>).  Loops are structural, over the draws a retry loop consumes, the pages a caller follows, or the
  number of polls a quiescing caller allows (\<open>n\<close>); a loop that is given too little returns the value of a
  cancelled context, as the code does.

  Not modelled, and why: the HTTP handlers, the private RPC between the processes and its event stream (in the realtime path: an event is
  handed over or lost), heartbeats, the mains, telemetry and authentication move requests and bytes around these operations or call cryptographic libraries; the
  voice announcements, the smoke test and the TypeScript edge decide nothing about money.  SQLite's I/O errors, time-outs
  of a context and crashes inside a transaction appear as a transaction that never happened; a
  crash between transactions is a job that is never scheduled again.  AES-GCM, SHA-256 and HMAC, the payOS library, the DNS
  resolver and HTTP exchanges and Go's formatting of a
  \<open>float64\<close> are arguments, with the laws used of them as named hypotheses.
\<close>

end
